(* ===== verification/Thuos_Prelude.thy ===== *)
theory Thuos_Prelude
  imports Main "HOL-Library.Word"
begin

text \<open>
  Shared vocabulary of the THUOS development: the fixed-width integer types of
  \<open>kernel/lib/types.h\<close>, byte-addressed memory with little-endian field access, the
  search loop over a fixed table that most registries of the kernel use, C strings
  in character arrays, and the generic lemmas on them.
\<close>

unbundle bit_operations_syntax

section \<open>Fixed-width integers (kernel/lib/types.h)\<close>

type_synonym u8 = "8 word"
type_synonym u16 = "16 word"
type_synonym u32 = "32 word"
type_synonym u64 = "64 word"

text \<open>Byte-addressed memory of the 32-bit machine: pointers are \<open>u32\<close>.\<close>

type_synonym mem = "u32 \<Rightarrow> u8"

named_theorems mem_simps \<open>reads over writes in byte-addressed memory\<close>
named_theorems table_simps \<open>lookup and update of fixed-size tables\<close>

lemma unat_u32_less: "unat (x :: u32) < 4294967296"
  using unsigned_less [of x] by simp

lemma unat_of_nat_u32: "n < 4294967296 \<Longrightarrow> unat (of_nat n :: u32) = n"
  by (simp add: unat_of_nat)

lemma u32_eq_of_nat_iff: "n < 4294967296 \<Longrightarrow> (x :: u32) = of_nat n \<longleftrightarrow> unat x = n"
  by (auto simp: unat_of_nat)

lemma u32_less_of_nat_iff: "n < 4294967296 \<Longrightarrow> (of_nat n :: u32) < x \<longleftrightarrow> n < unat x"
  by (simp add: word_less_nat_alt unat_of_nat_u32)

lemma unat_add_u32: "unat (x :: u32) + unat y < 4294967296 \<Longrightarrow> unat (x + y) = unat x + unat y"
  by (simp add: unat_word_ariths)

lemma unat_Suc_u32: "unat (x :: u32) < 4294967295 \<Longrightarrow> unat (x + 1) = Suc (unat x)"
  by (simp add: unat_word_ariths)

lemma and_not_mask_eq: "x AND NOT (mask k) = push_bit k (drop_bit k (x :: u32))"
  by (rule bit_word_eqI) (auto simp: bit_simps)

section \<open>Searching a fixed table\<close>

text \<open>
  The loop \<open>for (i = 0; i < n; i++) if (P(tab[i])) return i; return -1;\<close>. A result
  of -1 is \<open>None\<close>.
\<close>

fun find_slot :: "('a \<Rightarrow> bool) \<Rightarrow> 'a list \<Rightarrow> nat option" where
  "find_slot P [] = None"
| "find_slot P (x # xs) = (if P x then Some 0 else map_option Suc (find_slot P xs))"

lemma find_slot_None_iff: "find_slot P xs = None \<longleftrightarrow> (\<forall>x \<in> set xs. \<not> P x)"
  by (induction xs) auto

lemma find_slot_Some_iff:
  "find_slot P xs = Some i \<longleftrightarrow> i < length xs \<and> P (xs ! i) \<and> (\<forall>j < i. \<not> P (xs ! j))"
proof (induction xs arbitrary: i)
  case Nil
  then show ?case by simp
next
  case (Cons x xs)
  show ?case
  proof (cases i)
    case 0
    then show ?thesis by simp
  next
    case (Suc k)
    have "(\<forall>j < Suc k. \<not> P ((x # xs) ! j)) \<longleftrightarrow> \<not> P x \<and> (\<forall>j < k. \<not> P (xs ! j))"
      by (auto simp: less_Suc_eq_0_disj)
    with Suc Cons.IH [of k] show ?thesis by auto
  qed
qed

lemma find_slot_SomeD:
  assumes "find_slot P xs = Some i"
  shows "i < length xs" "P (xs ! i)" "\<And>j. j < i \<Longrightarrow> \<not> P (xs ! j)"
  using assms by (simp_all add: find_slot_Some_iff)

lemma find_slot_NoneD: "find_slot P xs = None \<Longrightarrow> i < length xs \<Longrightarrow> \<not> P (xs ! i)"
  by (simp add: find_slot_None_iff)

lemma find_slot_exists: "i < length xs \<Longrightarrow> P (xs ! i) \<Longrightarrow> \<exists>k \<le> i. find_slot P xs = Some k"
proof -
  assume i: "i < length xs" "P (xs ! i)"
  then have "find_slot P xs \<noteq> None" by (auto simp: find_slot_None_iff)
  then obtain k where k: "find_slot P xs = Some k" by auto
  with i have "k \<le> i" by (meson find_slot_SomeD(3) not_le)
  with k show ?thesis by blast
qed

lemma find_slot_cong: "map P xs = map Q ys \<Longrightarrow> find_slot P xs = find_slot Q ys"
proof (induction xs arbitrary: ys)
  case Nil
  then show ?case by simp
next
  case (Cons x xs)
  then show ?case by (cases ys) auto
qed

text \<open>The counting loop \<open>for (i = 0; i < n; i++) if (P(tab[i])) c++;\<close>.\<close>

definition count_if :: "('a \<Rightarrow> bool) \<Rightarrow> 'a list \<Rightarrow> nat" where
  "count_if P xs = length (filter P xs)"

lemma count_if_simps [simp]:
  "count_if P [] = 0"
  "count_if P (x # xs) = (if P x then Suc (count_if P xs) else count_if P xs)"
  by (simp_all add: count_if_def)

lemma count_if_le: "count_if P xs \<le> length xs"
  by (simp add: count_if_def)

lemma count_if_update:
  "i < length xs \<Longrightarrow>
     count_if P (xs[i := y]) + (if P (xs ! i) then 1 else 0) =
     count_if P xs + (if P y then 1 else 0)"
proof (induction xs arbitrary: i)
  case Nil
  then show ?case by simp
next
  case (Cons x xs)
  then show ?case by (cases i) auto
qed

lemma count_if_set: "\<not> P (xs ! i) \<Longrightarrow> P y \<Longrightarrow> i < length xs \<Longrightarrow>
    count_if P (xs[i := y]) = Suc (count_if P xs)"
  using count_if_update [of i xs P y] by simp

lemma count_if_same: "P (xs ! i) = P y \<Longrightarrow> i < length xs \<Longrightarrow>
    count_if P (xs[i := y]) = count_if P xs"
  using count_if_update [of i xs P y] by (auto split: if_splits)

section \<open>C strings in character arrays\<close>

text \<open>
  A \<open>char\<close> array, or the memory a \<open>const char *\<close> points to, is a list of characters
  whose string value ends at the first NUL. A list with no NUL stands for the text
  of a string literal: the reads of the C code stop at the terminator after it,
  which \<open>cget\<close> returns at the end of the list.
\<close>

abbreviation NUL :: char where
  "NUL \<equiv> CHR 0x00"

definition cstr :: "char list \<Rightarrow> char list" where
  "cstr s = takeWhile (\<lambda>c. c \<noteq> NUL) s"

definition cget :: "char list \<Rightarrow> nat \<Rightarrow> char" where
  "cget s i = (if i < length s then s ! i else NUL)"

lemma cget_Nil [simp]: "cget [] i = NUL"
  by (simp add: cget_def)

lemma cget_Cons_0 [simp]: "cget (c # s) 0 = c"
  by (simp add: cget_def)

lemma cget_Cons_Suc [simp]: "cget (c # s) (Suc i) = cget s i"
  by (simp add: cget_def)

lemma cstr_Nil [simp]: "cstr [] = []"
  by (simp add: cstr_def)

lemma cstr_Cons [simp]: "cstr (c # s) = (if c = NUL then [] else c # cstr s)"
  by (simp add: cstr_def)

lemma cstr_no_NUL: "NUL \<notin> set (cstr s)"
  by (auto simp: cstr_def dest: set_takeWhileD)

lemma cstr_id: "NUL \<notin> set s \<Longrightarrow> cstr s = s"
  by (auto simp: cstr_def takeWhile_eq_all_conv)

lemma cstr_idem [simp]: "cstr (cstr s) = cstr s"
  by (simp add: cstr_id cstr_no_NUL)

lemma cstr_append_NUL [simp]: "cstr (s @ NUL # t) = cstr s"
  by (induction s) auto

lemma cstr_empty_iff: "cstr s = [] \<longleftrightarrow> cget s 0 = NUL"
  by (cases s) auto

lemma cstr_drop:
  "cstr (drop i s) = (if cget s i = NUL then [] else cget s i # cstr (drop (Suc i) s))"
  by (cases "i < length s") (auto simp: cget_def Cons_nth_drop_Suc [symmetric])

lemma cget_neq_NUL_less: "cget s i \<noteq> NUL \<Longrightarrow> i < length s"
  by (auto simp: cget_def split: if_splits)

lemma cget_neq_NUL_decreases: "cget s i \<noteq> NUL \<Longrightarrow> length s - Suc i < length s - i"
  using cget_neq_NUL_less [of s i] by simp

text \<open>\<open>while (s[n]) n++; return n;\<close>\<close>

fun cstrlen :: "char list \<Rightarrow> nat" where
  "cstrlen [] = 0"
| "cstrlen (c # s) = (if c = NUL then 0 else Suc (cstrlen s))"

lemma cstrlen_eq [simp]: "cstrlen s = length (cstr s)"
  by (induction s) auto

text \<open>
  Bounded copy into a character array, the loop
  \<open>for (; i < lim && src[i]; i++) dst[i] = src[i]; dst[i] = 0;\<close> of the registries.
\<close>

function cstr_copy :: "char list \<Rightarrow> char list \<Rightarrow> nat \<Rightarrow> nat \<Rightarrow> char list" where
  "cstr_copy dst src i lim =
     (if i < lim \<and> cget src i \<noteq> NUL
      then cstr_copy (dst[i := cget src i]) src (Suc i) lim
      else dst[i := NUL])"
  by pat_completeness auto
termination
  by (relation "measure (\<lambda>(dst, src, i, lim). lim - i)") auto

declare cstr_copy.simps [simp del]

lemma length_cstr_copy [simp]: "length (cstr_copy dst src i lim) = length dst"
proof (induction dst src i lim rule: cstr_copy.induct)
  case (1 dst src i lim)
  then show ?case by (simp add: cstr_copy.simps [of dst src i lim])
qed

lemma take_cstr_copy:
  assumes "i \<le> lim" "lim < length dst" "NUL \<notin> set (take i dst)"
  shows "cstr (cstr_copy dst src i lim) = take i dst @ take (lim - i) (cstr (drop i src))"
  using assms
proof (induction dst src i lim rule: cstr_copy.induct)
  case (1 dst src i lim)
  show ?case
  proof (cases "i < lim \<and> cget src i \<noteq> NUL")
    case True
    let ?d = "dst[i := cget src i]"
    have tk: "take (Suc i) ?d = take i dst @ [cget src i]"
      using True "1.prems"(2) by (simp add: take_Suc_conv_app_nth)
    have IH: "cstr (cstr_copy ?d src (Suc i) lim) =
        take (Suc i) ?d @ take (lim - Suc i) (cstr (drop (Suc i) src))"
      using True "1.prems" by (intro "1.IH") (auto simp: tk)
    have "take (lim - i) (cstr (drop i src)) =
        cget src i # take (lim - Suc i) (cstr (drop (Suc i) src))"
      using True by (subst cstr_drop) (auto simp: Suc_diff_Suc [symmetric])
    with True IH tk show ?thesis by (simp add: cstr_copy.simps [of dst src i lim])
  next
    case False
    have "dst[i := NUL] = take i dst @ NUL # drop (Suc i) dst"
      using "1.prems" by (simp add: upd_conv_take_nth_drop)
    then have "cstr (dst[i := NUL]) = take i dst"
      using "1.prems"(3) by (simp add: cstr_id)
    moreover have "take (lim - i) (cstr (drop i src)) = []"
      using False "1.prems"(1) by (subst cstr_drop) auto
    moreover have "cstr_copy dst src i lim = dst[i := NUL]"
      by (subst cstr_copy.simps) (simp only: False if_False)
    ultimately show ?thesis by simp
  qed
qed

text \<open>The copied string is the source's, cut to the array's capacity.\<close>

lemma cstr_cstr_copy:
  "lim < length dst \<Longrightarrow> cstr (cstr_copy dst src 0 lim) = take lim (cstr src)"
  using take_cstr_copy [of 0 lim dst src] by simp

text \<open>
  Two comparison loops of the kernel's private string helpers; both decide equality
  of the string values (\<open>cstr_eq_while\<close> is \<open>rfs_streq\<close>'s loop, \<open>cstr_eq_for\<close> that of
  \<open>eq\<close> in the AI core).
\<close>

function cstr_eq_while :: "char list \<Rightarrow> char list \<Rightarrow> nat \<Rightarrow> bool" where
  "cstr_eq_while a b i =
     (if cget a i \<noteq> NUL \<and> cget a i = cget b i then cstr_eq_while a b (Suc i)
      else cget a i = cget b i)"
  by pat_completeness auto
termination
  by (relation "measure (\<lambda>(a, b, i). length a - i)") (auto intro: cget_neq_NUL_decreases)

function cstr_eq_for :: "char list \<Rightarrow> char list \<Rightarrow> nat \<Rightarrow> bool" where
  "cstr_eq_for a b i =
     (if cget a i \<noteq> NUL \<and> cget b i \<noteq> NUL
      then (if cget a i \<noteq> cget b i then False else cstr_eq_for a b (Suc i))
      else cget a i = cget b i)"
  by pat_completeness auto
termination
  by (relation "measure (\<lambda>(a, b, i). length a - i)") (auto intro: cget_neq_NUL_decreases)

declare cstr_eq_while.simps [simp del] cstr_eq_for.simps [simp del]

lemma cstr_eq_while_drop:
  "cstr_eq_while a b i \<longleftrightarrow> cstr (drop i a) = cstr (drop i b)"
proof (induction a b i rule: cstr_eq_while.induct)
  case (1 a b i)
  then show ?case
    by (subst cstr_eq_while.simps) (simp add: cstr_drop [of i a] cstr_drop [of i b])
qed

lemma cstr_eq_for_drop:
  "cstr_eq_for a b i \<longleftrightarrow> cstr (drop i a) = cstr (drop i b)"
proof (induction a b i rule: cstr_eq_for.induct)
  case (1 a b i)
  then show ?case
    by (subst cstr_eq_for.simps) (simp add: cstr_drop [of i a] cstr_drop [of i b])
qed

lemma cstr_eq_while_iff: "cstr_eq_while a b 0 \<longleftrightarrow> cstr a = cstr b"
  by (simp add: cstr_eq_while_drop)

lemma cstr_eq_for_iff: "cstr_eq_for a b 0 \<longleftrightarrow> cstr a = cstr b"
  by (simp add: cstr_eq_for_drop)

section \<open>Little-endian fields in memory\<close>

definition rd32 :: "mem \<Rightarrow> u32 \<Rightarrow> u32" where
  "rd32 m a = ucast (m a) OR push_bit 8 (ucast (m (a + 1)))
     OR push_bit 16 (ucast (m (a + 2))) OR push_bit 24 (ucast (m (a + 3)))"

definition wr32 :: "mem \<Rightarrow> u32 \<Rightarrow> u32 \<Rightarrow> mem" where
  "wr32 m a v = m(a := ucast v, a + 1 := ucast (drop_bit 8 v),
     a + 2 := ucast (drop_bit 16 v), a + 3 := ucast (drop_bit 24 v))"

definition rd64 :: "mem \<Rightarrow> u32 \<Rightarrow> u64" where
  "rd64 m a = ucast (rd32 m a) OR push_bit 32 (ucast (rd32 m (a + 4)))"

lemma rd32_wr32_same [simp, mem_simps]: "rd32 (wr32 m a v) a = v"
proof (rule bit_word_eqI)
  fix n
  assume "n < LENGTH(32)"
  then consider "n < 8" | "8 \<le> n" "n < 16" | "16 \<le> n" "n < 24" | "24 \<le> n" "n < 32"
    by force
  then show "bit (rd32 (wr32 m a v) a) n = bit v n"
    by cases (auto simp: rd32_def wr32_def bit_simps)
qed

lemma wr32_outside [mem_simps]: "4 \<le> b - a \<Longrightarrow> wr32 m a v b = m b"
  unfolding wr32_def by (auto simp: word_le_nat_alt)

lemma rd32_cong:
  "m a = m' a \<Longrightarrow> m (a + 1) = m' (a + 1) \<Longrightarrow> m (a + 2) = m' (a + 2) \<Longrightarrow>
   m (a + 3) = m' (a + 3) \<Longrightarrow> rd32 m a = rd32 m' a"
  by (simp add: rd32_def)

lemma rd32_wr32_apart [mem_simps]:
  assumes "4 \<le> b - a" "4 \<le> a - b"
  shows "rd32 (wr32 m a v) b = rd32 m b"
proof (rule rd32_cong)
  have k: "4 \<le> b + k - a" if "k \<le> 3" for k :: u32
  proof -
    have "unat ((b - a) + (a - b)) = 0" by simp
    then have "(unat (b - a) + unat (a - b)) mod 4294967296 = 0"
      by (simp only: unat_word_ariths) simp
    then obtain q where q: "unat (b - a) + unat (a - b) = 4294967296 * q" by (auto elim: dvdE)
    moreover have "4 \<le> unat (a - b)" using assms(2) by (simp add: word_le_nat_alt)
    moreover from calculation have "q < 2"
      using unat_u32_less [of "a - b"] unat_u32_less [of "b - a"] by linarith
    ultimately have "unat (b - a) \<le> 4294967292" by linarith
    then have "unat (b - a) + unat k < 4294967296" using that by (simp add: word_le_nat_alt)
    then have "unat (b - a + k) = unat (b - a) + unat k" by (rule unat_add_u32)
    then show ?thesis using assms(1) by (simp add: word_le_nat_alt algebra_simps)
  qed
  show "wr32 m a v b = m b" by (rule wr32_outside [OF assms(1)])
  show "wr32 m a v (b + 1) = m (b + 1)" "wr32 m a v (b + 2) = m (b + 2)" "wr32 m a v (b + 3) = m (b + 3)"
    by (rule wr32_outside, rule k, simp)+
qed

text \<open>\<open>keeps lo hi\<close> is agreement of two memories on a range of addresses.\<close>

definition keeps :: "nat \<Rightarrow> nat \<Rightarrow> mem \<Rightarrow> mem \<Rightarrow> bool" where
  "keeps lo hi m m' \<longleftrightarrow> (\<forall>x. lo \<le> x \<and> x < hi \<longrightarrow> m' (of_nat x) = m (of_nat x))"

lemma keeps_refl [simp]: "keeps lo hi m m"
  by (simp add: keeps_def)

lemma keeps_trans: "keeps lo hi m m' \<Longrightarrow> keeps lo hi m' m'' \<Longrightarrow> keeps lo hi m m''"
  by (simp add: keeps_def)

lemma keeps_mono: "keeps lo hi m m' \<Longrightarrow> lo \<le> lo' \<Longrightarrow> hi' \<le> hi \<Longrightarrow> keeps lo' hi' m m'"
  by (simp add: keeps_def)

lemma rd32_keeps:
  assumes "keeps a (a + 4) m m'"
  shows "rd32 m' (of_nat a) = rd32 m (of_nat a)"
proof (rule rd32_cong)
  have k: "m' (of_nat (a + k)) = m (of_nat (a + k))" if "k < 4" for k
    using assms that by (simp add: keeps_def del: of_nat_add)
  show "m' (of_nat a) = m (of_nat a)" "m' (of_nat a + 1) = m (of_nat a + 1)"
    "m' (of_nat a + 2) = m (of_nat a + 2)" "m' (of_nat a + 3) = m (of_nat a + 3)"
    using k [of 0] k [of 1] k [of 2] k [of 3] by (simp_all add: add.commute)
qed

lemma wr32_elsewhere:
  assumes "a + 4 \<le> 4294967296" "x < 4294967296" "x < a \<or> a + 4 \<le> x"
  shows "wr32 m (of_nat a) v (of_nat x) = m (of_nat x)"
proof -
  have "of_nat x \<noteq> (of_nat (a + k) :: u32)" if "k < 4" for k
    using assms that by (subst u32_eq_of_nat_iff) (auto simp: unat_of_nat_u32)
  from this [of 0] this [of 1] this [of 2] this [of 3] show ?thesis
    by (simp add: wr32_def add.commute)
qed

section \<open>Arrays of 32-bit words in memory\<close>

lemma rd32_wr32_aligned [mem_simps]:
  assumes "4 dvd unat a" "4 dvd unat b" "a \<noteq> b"
  shows "rd32 (wr32 m a v) b = rd32 m b"
proof -
  have ne: "unat a \<noteq> unat b" using assms(3) by (simp add: word_unat_eq_iff)
  have gap: "k + 4 \<le> l" if "4 dvd k" "4 dvd l" "k < l" for k l :: nat
    using that by (auto elim!: dvdE)
  have lt: "unat a < 4294967296" "unat b < 4294967296" by (rule unat_u32_less)+
  then have top: "unat a + 4 \<le> 4294967296" "unat b + 4 \<le> 4294967296"
    using gap [of "unat a" 4294967296] gap [of "unat b" 4294967296] assms(1,2) by simp_all
  have far: "unat a + 4 \<le> unat b \<or> unat b + 4 \<le> unat a"
    using ne gap [OF assms(1,2)] gap [OF assms(2,1)] by linarith
  have "keeps (unat b) (unat b + 4) m (wr32 m (of_nat (unat a)) v)"
    unfolding keeps_def using far top by (intro allI impI wr32_elsewhere) auto
  from rd32_keeps [OF this] show ?thesis by simp
qed

text \<open>The word at index \<open>i\<close> of an array, and the loop \<open>for (i = 0; i < n; i++) p[i] = f(i)\<close>.\<close>

definition word_at :: "u32 \<Rightarrow> nat \<Rightarrow> u32" where
  "word_at p i = p + 4 * of_nat i"

definition wr_array :: "u32 \<Rightarrow> (nat \<Rightarrow> u32) \<Rightarrow> nat \<Rightarrow> mem \<Rightarrow> mem" where
  "wr_array p f n m = fold (\<lambda>i m. wr32 m (word_at p i) (f i)) [0..<n] m"

lemma unat_word_at: "unat p + 4 * i < 4294967296 \<Longrightarrow> unat (word_at p i) = unat p + 4 * i"
  by (simp add: word_at_def unat_word_ariths unat_of_nat)

lemma rd32_wr_array:
  assumes "4 dvd unat p" "unat p + 4 * n \<le> 4294967296" "4 dvd unat a"
  shows "rd32 (wr_array p f n m) a =
     (if unat p \<le> unat a \<and> unat a < unat p + 4 * n then f ((unat a - unat p) div 4) else rd32 m a)"
  using assms(2)
proof (induction n)
  case 0
  then show ?case by (auto simp: wr_array_def)
next
  case (Suc n)
  have un: "unat (word_at p n) = unat p + 4 * n" using Suc.prems by (intro unat_word_at) simp
  have step: "wr_array p f (Suc n) m = wr32 (wr_array p f n m) (word_at p n) (f n)"
    by (simp add: wr_array_def)
  have al: "4 dvd unat (word_at p n)" using un assms(1) by simp
  show ?case
  proof (cases "a = word_at p n")
    case True
    then show ?thesis using un step by simp
  next
    case False
    then have "unat a \<noteq> unat p + 4 * n" using un by (metis word_unat_eq_iff)
    moreover have "4 dvd unat p + 4 * n" using assms(1) by simp
    then have "unat a < unat p + 4 * n \<or> unat a = unat p + 4 * n \<or> unat p + 4 * Suc n \<le> unat a"
      using assms(3) by (auto elim!: dvdE)
    ultimately have "unat a < unat p + 4 * Suc n \<longleftrightarrow> unat a < unat p + 4 * n" by auto
    then show ?thesis using Suc rd32_wr32_aligned [OF al assms(3)] False step by simp
  qed
qed

end
