(* ===== verification/Frame_Bitmap.thy ===== *)
theory Frame_Bitmap
  imports Thuos_Prelude
begin

text \<open>
  The page-frame bitmap of \<open>kernel/mm/frame_bitmap.c\<close>. The code works on a raw
  \<open>uint8_t *bm\<close>, so a bitmap is the function from byte offset to byte; a set bit means
  the frame is used. The locale \<open>frame_pool\<close> is the interface the physical memory
  manager relies on; its interpretation here discharges the laws for the code.
\<close>

type_synonym bitmap = "u32 \<Rightarrow> u8"

definition FB_NONE :: u32 where
  "FB_NONE = 0xFFFFFFFF"

definition byte_index :: "u32 \<Rightarrow> u32" where
  "byte_index frame = drop_bit 3 frame"

definition bit_mask :: "u32 \<Rightarrow> u8" where
  "bit_mask frame = ucast (push_bit (unat (frame AND 7)) (1 :: u32))"

definition fb_init :: "bitmap \<Rightarrow> u32 \<Rightarrow> bitmap" where
  "fb_init bm total_frames =
     (let bytes = (total_frames + 7) div 8
      in fold (\<lambda>i b. b(of_nat i := 0xFF)) [0..<unat bytes] bm)"

definition fb_mark_used :: "bitmap \<Rightarrow> u32 \<Rightarrow> bitmap" where
  "fb_mark_used bm frame = bm(byte_index frame := bm (byte_index frame) OR bit_mask frame)"

definition fb_mark_free :: "bitmap \<Rightarrow> u32 \<Rightarrow> bitmap" where
  "fb_mark_free bm frame = bm(byte_index frame := bm (byte_index frame) AND NOT (bit_mask frame))"

definition fb_test :: "bitmap \<Rightarrow> u32 \<Rightarrow> bool" where
  "fb_test bm frame \<longleftrightarrow> bm (byte_index frame) AND bit_mask frame \<noteq> 0"

text \<open>
  \<open>for (i = 0; i < count && (first + i) < total_frames; i++)\<close>: the recursion counts \<open>count\<close>
  down and carries \<open>first + i\<close>, which wraps as the code's sum does.
\<close>

fun mark_region_used_loop :: "bitmap \<Rightarrow> u32 \<Rightarrow> u32 \<Rightarrow> nat \<Rightarrow> bitmap" where
  "mark_region_used_loop bm total_frames f 0 = bm"
| "mark_region_used_loop bm total_frames f (Suc n) =
     (if f < total_frames then mark_region_used_loop (fb_mark_used bm f) total_frames (f + 1) n else bm)"

fun mark_region_free_loop :: "bitmap \<Rightarrow> u32 \<Rightarrow> u32 \<Rightarrow> nat \<Rightarrow> bitmap" where
  "mark_region_free_loop bm total_frames f 0 = bm"
| "mark_region_free_loop bm total_frames f (Suc n) =
     (if f < total_frames then mark_region_free_loop (fb_mark_free bm f) total_frames (f + 1) n else bm)"

definition fb_mark_region_used :: "bitmap \<Rightarrow> u32 \<Rightarrow> u32 \<Rightarrow> u32 \<Rightarrow> bitmap" where
  "fb_mark_region_used bm total_frames first count = mark_region_used_loop bm total_frames first (unat count)"

definition fb_mark_region_free :: "bitmap \<Rightarrow> u32 \<Rightarrow> u32 \<Rightarrow> u32 \<Rightarrow> bitmap" where
  "fb_mark_region_free bm total_frames first count = mark_region_free_loop bm total_frames first (unat count)"

text \<open>
  \<open>fb_alloc\<close>: the inner loop over the eight bits of byte \<open>b\<close> returns \<open>Some\<close> when it
  executes a \<open>return\<close>, \<open>None\<close> when it runs off its end; the outer loop skips bytes
  that are \<open>0xFF\<close>.
\<close>

fun fb_alloc_bits :: "bitmap \<Rightarrow> u32 \<Rightarrow> u32 \<Rightarrow> nat \<Rightarrow> nat \<Rightarrow> (u32 \<times> bitmap) option" where
  "fb_alloc_bits bm total_frames b k 0 = None"
| "fb_alloc_bits bm total_frames b k (Suc n) =
     (let frame = b * 8 + of_nat k
      in if total_frames \<le> frame then Some (FB_NONE, bm)
         else if ucast (bm b) AND push_bit k (1 :: u32) = 0
         then Some (frame, bm(b := bm b OR ucast (push_bit k (1 :: u32))))
         else fb_alloc_bits bm total_frames b (Suc k) n)"

fun fb_alloc_bytes :: "bitmap \<Rightarrow> u32 \<Rightarrow> u32 \<Rightarrow> nat \<Rightarrow> u32 \<times> bitmap" where
  "fb_alloc_bytes bm total_frames b 0 = (FB_NONE, bm)"
| "fb_alloc_bytes bm total_frames b (Suc n) =
     (if bm b = 0xFF then fb_alloc_bytes bm total_frames (b + 1) n
      else case fb_alloc_bits bm total_frames b 0 8 of
             Some r \<Rightarrow> r
           | None \<Rightarrow> fb_alloc_bytes bm total_frames (b + 1) n)"

definition fb_alloc :: "bitmap \<Rightarrow> u32 \<Rightarrow> u32 \<times> bitmap" where
  "fb_alloc bm total_frames =
     (let bytes = (total_frames + 7) div 8
      in fb_alloc_bytes bm total_frames 0 (unat bytes))"

definition fb_free :: "bitmap \<Rightarrow> u32 \<Rightarrow> bitmap" where
  "fb_free bm frame = fb_mark_free bm frame"

definition fb_count_free :: "bitmap \<Rightarrow> u32 \<Rightarrow> u32" where
  "fb_count_free bm total_frames =
     fold (\<lambda>f count. if \<not> fb_test bm (of_nat f) then count + 1 else count) [0..<unat total_frames] 0"

section \<open>Bit addressing\<close>

lemma unat_byte_index: "unat (byte_index f) = unat f div 8"
  by (simp add: byte_index_def unat_drop_bit_eq drop_bit_eq_div unat_div)

lemma unat_and_7: "unat (f AND 7 :: u32) = unat f mod 8"
proof -
  have "f AND 7 = take_bit 3 f" by (simp add: take_bit_eq_mask mask_eq_exp_minus_1)
  then show ?thesis by (simp add: unsigned_take_bit_eq take_bit_eq_mod unat_mod)
qed

lemma frame_eq_iff: "g = f \<longleftrightarrow> byte_index g = byte_index f \<and> unat g mod 8 = unat f mod 8"
  by (metis div_mult_mod_eq unat_byte_index word_unat_eq_iff)

lemma bit_mask_eq: "bit_mask f = push_bit (unat f mod 8) 1"
  by (rule bit_word_eqI) (auto simp: bit_mask_def bit_simps unat_and_7)

lemma fb_test_bit: "fb_test bm f \<longleftrightarrow> bit (bm (byte_index f)) (unat f mod 8)"
  by (simp add: fb_test_def bit_mask_eq bit_iff_and_push_bit_not_eq_0)

lemma fb_test_mark_used: "fb_test (fb_mark_used bm f) g \<longleftrightarrow> g = f \<or> fb_test bm g"
  by (auto simp: fb_test_bit fb_mark_used_def bit_mask_eq bit_simps frame_eq_iff [of g f])

lemma fb_test_mark_free: "fb_test (fb_mark_free bm f) g \<longleftrightarrow> g \<noteq> f \<and> fb_test bm g"
  by (auto simp: fb_test_bit fb_mark_free_def bit_mask_eq bit_simps frame_eq_iff [of g f])

lemma bit_255: "bit (0xFF :: u8) n \<longleftrightarrow> n < 8"
proof -
  have "(0xFF :: u8) = mask 8" by (simp add: mask_eq_exp_minus_1)
  then have "bit (0xFF :: u8) n \<longleftrightarrow> bit (mask 8 :: u8) n" by (rule arg_cong)
  also have "\<dots> \<longleftrightarrow> n < 8" unfolding bit_mask_iff by simp
  finally show ?thesis .
qed

lemma fold_upd_const:
  "n \<le> 4294967296 \<Longrightarrow>
     fold (\<lambda>i b. b(of_nat i := v)) [0..<n] bm (a :: u32) = (if unat a < n then v else bm a)"
proof (induction n)
  case 0
  then show ?case by simp
next
  case (Suc n)
  have "a = of_nat n \<longleftrightarrow> unat a = n"
    using Suc.prems by (simp add: u32_eq_of_nat_iff)
  with Suc show ?case by (auto simp: less_Suc_eq)
qed

text \<open>After \<open>fb_init\<close> every frame below \<open>total_frames\<close> is used.\<close>

lemma unat_bytes:
  "unat (total_frames :: u32) \<le> 2 ^ 20 \<Longrightarrow> unat ((total_frames + 7) div 8) = (unat total_frames + 7) div 8"
  by (simp add: unat_div unat_word_ariths)

lemma fb_init_byte:
  "fb_init bm total_frames a = (if unat a < unat ((total_frames + 7) div 8) then 0xFF else bm a)"
  by (simp add: fb_init_def Let_def fold_upd_const [OF less_imp_le [OF unat_u32_less]])

lemma fb_init_used:
  assumes "unat total_frames \<le> 2 ^ 20" "f < total_frames"
  shows "fb_test (fb_init bm total_frames) f"
proof -
  have "unat f < unat total_frames" using assms(2) by (simp add: word_less_nat_alt)
  then have "unat (byte_index f) < (unat total_frames + 7) div 8" by (simp add: unat_byte_index)
  then have "fb_init bm total_frames (byte_index f) = 0xFF"
    using assms(1) by (simp add: fb_init_byte unat_bytes)
  moreover have "bit (0xFF :: u8) (unat f mod 8)"
    by (simp only: bit_255)
  ultimately show ?thesis by (simp only: fb_test_bit)
qed

section \<open>Regions\<close>

lemma mark_region_used_loop_test:
  "unat f + n \<le> 4294967296 \<Longrightarrow>
   fb_test (mark_region_used_loop bm total_frames f n) g \<longleftrightarrow>
     fb_test bm g \<or> (f \<le> g \<and> unat g < unat f + n \<and> g < total_frames)"
proof (induction n arbitrary: bm f)
  case 0
  then show ?case by (auto simp: word_le_nat_alt)
next
  case (Suc n)
  show ?case
  proof (cases "f < total_frames")
    case True
    have "unat f < 4294967295"
      using True unat_u32_less [of total_frames] by (simp add: word_less_nat_alt)
    then have f1: "unat (f + 1) = Suc (unat f)" by (rule unat_Suc_u32)
    have "g = f \<longleftrightarrow> unat g = unat f" by (rule word_unat_eq_iff)
    with Suc True f1 show ?thesis
      by (auto simp: fb_test_mark_used word_le_nat_alt word_less_nat_alt)
  next
    case False
    then show ?thesis by (auto simp: not_less)
  qed
qed

lemma mark_region_free_loop_test:
  "unat f + n \<le> 4294967296 \<Longrightarrow>
   fb_test (mark_region_free_loop bm total_frames f n) g \<longleftrightarrow>
     fb_test bm g \<and> \<not> (f \<le> g \<and> unat g < unat f + n \<and> g < total_frames)"
proof (induction n arbitrary: bm f)
  case 0
  then show ?case by (auto simp: word_le_nat_alt)
next
  case (Suc n)
  show ?case
  proof (cases "f < total_frames")
    case True
    have "unat f < 4294967295"
      using True unat_u32_less [of total_frames] by (simp add: word_less_nat_alt)
    then have f1: "unat (f + 1) = Suc (unat f)" by (rule unat_Suc_u32)
    have "g = f \<longleftrightarrow> unat g = unat f" by (rule word_unat_eq_iff)
    with Suc True f1 show ?thesis
      by (auto simp: fb_test_mark_free word_le_nat_alt word_less_nat_alt)
  next
    case False
    then show ?thesis by (auto simp: not_less)
  qed
qed

section \<open>Allocation: the byte-skipping scan is the first-free search\<close>

text \<open>The reference definition: the first frame of the range whose bit is clear.\<close>

definition first_free :: "bitmap \<Rightarrow> nat \<Rightarrow> nat option" where
  "first_free bm n = find_slot (\<lambda>i. \<not> fb_test bm (of_nat i)) [0..<n]"

text \<open>Frame numbers stay in the form \<open>of_nat (8 * b + k)\<close> in this section.\<close>

declare of_nat_add [simp del] of_nat_mult [simp del] push_bit_of_1 [simp del]

lemma frame_number: "of_nat b * 8 + of_nat k = (of_nat (8 * b + k) :: u32)"
  by (simp add: of_nat_add of_nat_mult)

lemma byte_index_of_nat:
  "8 * b + k < 4294967296 \<Longrightarrow> k < 8 \<Longrightarrow> byte_index (of_nat (8 * b + k)) = of_nat b"
  by (simp add: word_unat_eq_iff unat_byte_index unat_of_nat_u32)

lemma fb_test_of_nat:
  "8 * b + k < 4294967296 \<Longrightarrow> k < 8 \<Longrightarrow>
   fb_test bm (of_nat (8 * b + k)) \<longleftrightarrow> bit (bm (of_nat b)) k"
  by (simp add: fb_test_bit byte_index_of_nat unat_of_nat_u32)

lemma fb_mark_used_of_nat:
  assumes "8 * b + k < 4294967296" "k < 8"
  shows "bm(of_nat b := bm (of_nat b) OR ucast (push_bit k (1 :: u32))) =
     fb_mark_used bm (of_nat (8 * b + k))"
proof -
  have "(ucast (push_bit k (1 :: u32)) :: u8) = push_bit k 1"
    by (rule bit_word_eqI) (use assms(2) in \<open>auto simp: bit_simps\<close>)
  with assms show ?thesis
    by (simp add: fb_mark_used_def byte_index_of_nat bit_mask_eq unat_of_nat_u32
       )
qed

lemma ucast_and_bit: "k < 8 \<Longrightarrow> ucast (w :: u8) AND push_bit k (1 :: u32) = 0 \<longleftrightarrow> \<not> bit w k"
proof -
  assume "k < 8"
  then have "bit w k \<longleftrightarrow> bit (ucast w :: u32) k" by (simp add: bit_simps)
  then show ?thesis by (simp add: bit_iff_and_push_bit_not_eq_0)
qed

lemma fb_alloc_bits_found:
  assumes "k + n = 8" "8 * b + 8 \<le> 4294967296"
    and "k \<le> j" "j < 8" "8 * b + j < unat total_frames" "\<not> fb_test bm (of_nat (8 * b + j))"
    and "\<forall>i. k \<le> i \<and> i < j \<longrightarrow> fb_test bm (of_nat (8 * b + i))"
  shows "fb_alloc_bits bm total_frames (of_nat b) k n =
     Some (of_nat (8 * b + j), fb_mark_used bm (of_nat (8 * b + j)))"
  using assms
proof (induction n arbitrary: k)
  case 0
  then show ?case by simp
next
  case (Suc n)
  have "(of_nat (8 * b + k) :: u32) < total_frames"
    using Suc.prems by (simp add: u32_less_of_nat_iff)
  then have in_range: "\<not> total_frames \<le> of_nat b * 8 + of_nat k"
    unfolding frame_number by (simp add: not_le)
  have k: "k < 8" "8 * b + k < 4294967296" using Suc.prems by auto
  show ?case
  proof (cases "k = j")
    case True
    then show ?thesis
      using Suc.prems k in_range
      by (simp add: Let_def ucast_and_bit fb_test_of_nat fb_mark_used_of_nat frame_number)
  next
    case False
    then have "bit (bm (of_nat b)) k"
      using Suc.prems(3,7) k fb_test_of_nat [of b k bm] by simp
    moreover have "fb_alloc_bits bm total_frames (of_nat b) (Suc k) n =
        Some (of_nat (8 * b + j), fb_mark_used bm (of_nat (8 * b + j)))"
      using Suc.prems False by (intro Suc.IH) auto
    ultimately show ?thesis
      using in_range k by (simp add: Let_def ucast_and_bit)
  qed
qed

lemma fb_alloc_bits_none:
  assumes "k + n = 8" "8 * b + 8 \<le> 4294967296"
    and "\<forall>i. k \<le> i \<and> i < 8 \<and> 8 * b + i < unat total_frames \<longrightarrow> fb_test bm (of_nat (8 * b + i))"
  shows "fb_alloc_bits bm total_frames (of_nat b) k n =
     (if 8 * b + 7 < unat total_frames \<or> n = 0 then None else Some (FB_NONE, bm))"
  using assms
proof (induction n arbitrary: k)
  case 0
  then show ?case by simp
next
  case (Suc n)
  have k: "k < 8" "8 * b + k < 4294967296" using Suc.prems by auto
  show ?case
  proof (cases "8 * b + k < unat total_frames")
    case True
    then have in_range: "\<not> total_frames \<le> of_nat b * 8 + of_nat k"
      unfolding frame_number by (simp add: not_le u32_less_of_nat_iff k)
    have "bit (bm (of_nat b)) k"
      using Suc.prems(3) True k fb_test_of_nat [of b k bm] by simp
    moreover have "fb_alloc_bits bm total_frames (of_nat b) (Suc k) n =
       (if 8 * b + 7 < unat total_frames \<or> n = 0 then None else Some (FB_NONE, bm))"
      using Suc.prems by (intro Suc.IH) auto
    ultimately show ?thesis
      using in_range k Suc.prems(1) True
      by (auto simp add: Let_def ucast_and_bit)
  next
    case False
    then have "total_frames \<le> of_nat b * 8 + of_nat k"
      unfolding frame_number using k by (simp add: word_le_nat_alt unat_of_nat_u32)
    moreover have "\<not> 8 * b + 7 < unat total_frames" using False k by simp
    ultimately show ?thesis by (simp add: Let_def)
  qed
qed

lemma full_byte:
  assumes "bm (of_nat b) = 0xFF" "8 * b \<le> i" "i < 8 * b + 8" "8 * b + 8 \<le> 4294967296"
  shows "fb_test bm (of_nat i)"
proof -
  have "fb_test bm (of_nat (8 * b + (i - 8 * b)))"
    using assms by (subst fb_test_of_nat) (auto simp only: bit_255)
  with assms(2) show ?thesis by simp
qed

lemma fb_alloc_bytes_found:
  assumes "b + n = (unat total_frames + 7) div 8" "unat total_frames \<le> 2 ^ 20"
    and "8 * b \<le> j" "j < unat total_frames" "\<not> fb_test bm (of_nat j)"
    and "\<forall>i. 8 * b \<le> i \<and> i < j \<longrightarrow> fb_test bm (of_nat i)"
  shows "fb_alloc_bytes bm total_frames (of_nat b) n = (of_nat j, fb_mark_used bm (of_nat j))"
  using assms
proof (induction n arbitrary: b)
  case 0
  then show ?case by simp
next
  case (Suc n)
  have b: "8 * b + 8 \<le> 4294967296" using Suc.prems(1,2) by simp
  have step: "fb_alloc_bytes bm total_frames (of_nat b + 1) n = (of_nat j, fb_mark_used bm (of_nat j))"
    if "8 * Suc b \<le> j"
    using Suc.IH [of "Suc b"] Suc.prems that by (simp add: add.commute)
  show ?case
  proof (cases "bm (of_nat b) = 0xFF")
    case True
    then have "\<not> j < 8 * b + 8" using full_byte [of bm b j] True b Suc.prems(3,5) by blast
    with True step show ?thesis by simp
  next
    case False
    show ?thesis
    proof (cases "j < 8 * b + 8")
      case True
      have "fb_alloc_bits bm total_frames (of_nat b) 0 8 =
          Some (of_nat (8 * b + (j - 8 * b)), fb_mark_used bm (of_nat (8 * b + (j - 8 * b))))"
        using Suc.prems True b by (intro fb_alloc_bits_found) auto
      with False Suc.prems(3) show ?thesis by (simp)
    next
      case far: False
      then have "fb_alloc_bits bm total_frames (of_nat b) 0 8 = None"
        using Suc.prems b by (subst fb_alloc_bits_none) auto
      with False far step show ?thesis by simp
    qed
  qed
qed

lemma fb_alloc_bytes_none:
  assumes "b + n = (unat total_frames + 7) div 8" "unat total_frames \<le> 2 ^ 20"
    and "\<forall>i. 8 * b \<le> i \<and> i < unat total_frames \<longrightarrow> fb_test bm (of_nat i)"
  shows "fb_alloc_bytes bm total_frames (of_nat b) n = (FB_NONE, bm)"
  using assms
proof (induction n arbitrary: b)
  case 0
  then show ?case by simp
next
  case (Suc n)
  have b: "8 * b + 8 \<le> 4294967296" using Suc.prems(1,2) by simp
  have step: "fb_alloc_bytes bm total_frames (of_nat b + 1) n = (FB_NONE, bm)"
    using Suc.IH [of "Suc b"] Suc.prems by (simp add: add.commute)
  have "fb_alloc_bits bm total_frames (of_nat b) 0 8 =
      (if 8 * b + 7 < unat total_frames then None else Some (FB_NONE, bm))"
    using Suc.prems b by (subst fb_alloc_bits_none) auto
  with step show ?case by simp
qed

declare of_nat_add [simp] of_nat_mult [simp] push_bit_of_1 [simp]

lemma fb_alloc_first_free:
  assumes "unat total_frames \<le> 2 ^ 20"
  shows "fb_alloc bm total_frames =
     (case first_free bm (unat total_frames) of
        None \<Rightarrow> (FB_NONE, bm)
      | Some j \<Rightarrow> (of_nat j, fb_mark_used bm (of_nat j)))"
proof (cases "first_free bm (unat total_frames)")
  case None
  then have "\<forall>i. i < unat total_frames \<longrightarrow> fb_test bm (of_nat i)"
    by (simp add: first_free_def find_slot_None_iff)
  then show ?thesis
    using assms None fb_alloc_bytes_none [of 0 _ total_frames bm]
    by (simp add: fb_alloc_def Let_def unat_bytes)
next
  case (Some j)
  then have "j < unat total_frames" "\<not> fb_test bm (of_nat j)" "\<forall>i < j. fb_test bm (of_nat i)"
    by (auto simp: first_free_def find_slot_Some_iff)
  then show ?thesis
    using assms Some fb_alloc_bytes_found [of 0 _ total_frames j bm]
    by (simp add: fb_alloc_def Let_def unat_bytes)
qed

text \<open>The free-frame counter is the number of clear bits.\<close>

lemma fold_count:
  "fold (\<lambda>f (c :: u32). if P f then c + 1 else c) xs c = c + of_nat (length (filter P xs))"
  by (induction xs arbitrary: c) simp_all

definition free_set :: "bitmap \<Rightarrow> nat \<Rightarrow> nat set" where
  "free_set bm n = {i. i < n \<and> \<not> fb_test bm (of_nat i)}"

lemma finite_free_set [simp]: "finite (free_set bm n)"
  by (simp add: free_set_def)

lemma card_free_set: "card (free_set bm n) = length (filter (\<lambda>i. \<not> fb_test bm (of_nat i)) [0..<n])"
proof -
  have "free_set bm n = set (filter (\<lambda>i. \<not> fb_test bm (of_nat i)) [0..<n])"
    by (auto simp: free_set_def)
  then show ?thesis by (simp only:) (rule distinct_card, simp)
qed

lemma card_free_set_le: "card (free_set bm n) \<le> n"
  by (simp add: card_free_set) (metis diff_zero length_filter_le length_upt)

lemma fb_count_free_card: "unat (fb_count_free bm total_frames) = card (free_set bm (unat total_frames))"
proof -
  have "fb_count_free bm total_frames = of_nat (card (free_set bm (unat total_frames)))"
    by (simp add: fb_count_free_def fold_count card_free_set)
  moreover have "card (free_set bm (unat total_frames)) < 4294967296"
    using card_free_set_le unat_u32_less by (rule le_less_trans)
  ultimately show ?thesis by (simp add: unat_of_nat_u32)
qed

section \<open>The frame-pool interface\<close>

text \<open>
  What the physical memory manager relies on: marking changes exactly one frame, and
  an allocation takes the lowest free frame or reports that there is none.
\<close>

locale frame_pool =
  fixes used :: "'s \<Rightarrow> u32 \<Rightarrow> bool"
    and take_frame :: "'s \<Rightarrow> u32 \<Rightarrow> 's"
    and give_frame :: "'s \<Rightarrow> u32 \<Rightarrow> 's"
    and alloc :: "'s \<Rightarrow> u32 \<Rightarrow> u32 \<times> 's"
    and capacity :: nat
  assumes used_take: "used (take_frame s f) g \<longleftrightarrow> g = f \<or> used s g"
    and used_give: "used (give_frame s f) g \<longleftrightarrow> g \<noteq> f \<and> used s g"
    and alloc_full: "unat n \<le> capacity \<Longrightarrow> \<forall>f < n. used s f \<Longrightarrow> alloc s n = (FB_NONE, s)"
    and alloc_lowest: "unat n \<le> capacity \<Longrightarrow> f < n \<Longrightarrow> \<not> used s f \<Longrightarrow> \<forall>g < f. used s g \<Longrightarrow>
       alloc s n = (f, take_frame s f)"
    and capacity_bound: "capacity < 4294967295"
begin

lemma lowest_free:
  assumes "f < n" "\<not> used s f"
  obtains g where "g \<le> f" "\<not> used s g" "\<forall>h < g. used s h"
proof -
  define g where "g = (LEAST g. \<not> used s g)"
  have "\<not> used s g" unfolding g_def using assms(2) by (rule LeastI)
  moreover have "\<forall>h < g. used s h" unfolding g_def using not_less_Least by blast
  moreover have "g \<le> f" unfolding g_def using assms(2) by (rule Least_le)
  ultimately show thesis using that by blast
qed

lemma FB_NONE_above: "unat n \<le> capacity \<Longrightarrow> \<not> FB_NONE < n"
  using capacity_bound by (simp add: FB_NONE_def word_less_nat_alt)

lemma alloc_fresh:
  assumes "unat n \<le> capacity" "alloc s n = (f, s')" "f \<noteq> FB_NONE"
  shows "f < n" "\<not> used s f" "s' = take_frame s f" "\<forall>g < f. used s g"
proof -
  have "\<not> (\<forall>f < n. used s f)" using alloc_full [OF assms(1), of s] assms(2,3) by fastforce
  then obtain h where "h < n" "\<not> used s h" by blast
  then obtain g where g: "g \<le> h" "\<not> used s g" "\<forall>k < g. used s k" by (rule lowest_free)
  with \<open>h < n\<close> have "g < n" by simp
  from alloc_lowest [OF assms(1) this g(2,3)] assms(2) g \<open>g < n\<close>
  show "f < n" "\<not> used s f" "s' = take_frame s f" "\<forall>g < f. used s g" by auto
qed

lemma alloc_none:
  assumes "unat n \<le> capacity" "alloc s n = (FB_NONE, s')"
  shows "s' = s" "f < n \<Longrightarrow> used s f"
proof -
  have all: "used s f" if "f < n" for f
  proof (rule ccontr)
    assume "\<not> used s f"
    with that obtain g where g: "g \<le> f" "\<not> used s g" "\<forall>k < g. used s k" by (rule lowest_free)
    with that have "g < n" by simp
    from alloc_lowest [OF assms(1) this g(2,3)] assms(2) have "g = FB_NONE" by simp
    with \<open>g < n\<close> FB_NONE_above [OF assms(1)] show False by simp
  qed
  then show "f < n \<Longrightarrow> used s f" .
  from all alloc_full [OF assms(1), of s] assms(2) show "s' = s" by auto
qed

lemma alloc_give_used:
  assumes "unat n \<le> capacity" "alloc s n = (f, s')" "f \<noteq> FB_NONE"
  shows "used (give_frame s' f) g = used s g"
  using alloc_fresh [OF assms] by (auto simp: used_give used_take)

end

lemma all_used_first_free_None:
  "(\<forall>f < n. fb_test bm f) \<longleftrightarrow> first_free bm (unat n) = None"
proof
  assume h: "\<forall>f < n. fb_test bm f"
  show "first_free bm (unat n) = None"
    unfolding first_free_def find_slot_None_iff
    using h unat_u32_less [of n] by (auto simp: word_less_nat_alt unat_of_nat_u32)
next
  assume "first_free bm (unat n) = None"
  then have h: "\<forall>i < unat n. fb_test bm (of_nat i)" by (simp add: first_free_def find_slot_None_iff)
  show "\<forall>f < n. fb_test bm f"
  proof (intro allI impI)
    fix f assume "f < n"
    then have "fb_test bm (of_nat (unat f))" using h unat_mono by blast
    then show "fb_test bm f" by simp
  qed
qed

lemma first_free_Some_lowest:
  assumes "f < n" "\<not> fb_test bm f" "\<forall>g < f. fb_test bm g"
  shows "first_free bm (unat n) = Some (unat f)"
proof -
  have "unat f < unat n" using assms(1) by (rule unat_mono)
  moreover have "fb_test bm (of_nat j)" if "j < unat f" for j
    using assms(3) that unat_u32_less [of f] by (simp add: word_less_nat_alt unat_of_nat_u32)
  ultimately show ?thesis
    using assms(2) by (simp add: first_free_def find_slot_Some_iff)
qed

interpretation fb: frame_pool fb_test fb_mark_used fb_mark_free fb_alloc "2 ^ 20"
proof unfold_locales
  fix n :: u32 and s assume "unat n \<le> 2 ^ 20" "\<forall>f < n. fb_test s f"
  then show "fb_alloc s n = (FB_NONE, s)"
    by (simp add: fb_alloc_first_free all_used_first_free_None)
next
  fix n f :: u32 and s
  assume "unat n \<le> 2 ^ 20" "f < n" "\<not> fb_test s f" "\<forall>g < f. fb_test s g"
  then show "fb_alloc s n = (f, fb_mark_used s f)"
    by (simp add: fb_alloc_first_free first_free_Some_lowest)
qed (simp_all add: fb_test_mark_used fb_test_mark_free)

section \<open>Correctness of the bitmap\<close>

text \<open>
  C12: the byte-skipping search of \<open>fb_alloc\<close> is the reference allocator: with a
  bitmap of at most 2^20 frames it returns and marks the lowest free frame, or
  \<open>FB_NONE\<close> with the bitmap unchanged when every frame is used; the free count drops
  by exactly one.
\<close>

theorem fb_alloc_is_lowest_free:
  assumes "unat total_frames \<le> 2 ^ 20"
  shows "fb_alloc bm total_frames =
     (case first_free bm (unat total_frames) of
        None \<Rightarrow> (FB_NONE, bm)
      | Some j \<Rightarrow> (of_nat j, fb_mark_used bm (of_nat j))) \<and>
     unat (fb_count_free (snd (fb_alloc bm total_frames)) total_frames) =
       unat (fb_count_free bm total_frames) - (if first_free bm (unat total_frames) = None then 0 else 1)"
proof (cases "first_free bm (unat total_frames)")
  case None
  then show ?thesis by (simp add: fb_alloc_first_free [OF assms])
next
  case (Some j)
  then have j: "j < unat total_frames" "\<not> fb_test bm (of_nat j)"
    by (auto simp: first_free_def find_slot_Some_iff)
  have "free_set (fb_mark_used bm (of_nat j)) (unat total_frames) = free_set bm (unat total_frames) - {j}"
    using j(1) unat_u32_less [of total_frames]
    by (auto simp: free_set_def fb_test_mark_used u32_eq_of_nat_iff unat_of_nat_u32)
  moreover have "j \<in> free_set bm (unat total_frames)" using j by (simp add: free_set_def)
  ultimately show ?thesis
    using Some by (simp add: fb_alloc_first_free [OF assms] fb_count_free_card card_Diff_singleton)
qed

theorem fb_alloc_is_lowest_free_witness:
  "fb_alloc (\<lambda>i. if i = 0 then 0xFF else 0xF7) 16 = (11, (\<lambda>i. if i = 0 then 0xFF else 0xF7)(1 := 0xFF))"
  (is "fb_alloc ?bm 16 = _")
proof -
  have "first_free ?bm (unat (16 :: u32)) = Some 11"
    by code_simp
  with fb_alloc_is_lowest_free [of 16 ?bm] show ?thesis
    by (simp add: fb_mark_used_def byte_index_def bit_mask_def)
qed

end
