(* ===== verification/Pmm.thy ===== *)
theory Pmm
  imports Frame_Bitmap
begin

text \<open>
  The physical memory manager of \<open>kernel/mm/pmm.c\<close>: its static variables are the
  record \<open>pmm\<close>, the Multiboot structures are read from byte-addressed memory at the
  offsets of the packed structs of \<open>kernel/mm/multiboot.h\<close>, and the bounds of the
  kernel image (linker symbols) are parameters. Console output is left out.
\<close>

section \<open>Multiboot structures (kernel/mm/multiboot.h)\<close>

definition MULTIBOOT_BOOTLOADER_MAGIC :: u32 where
  "MULTIBOOT_BOOTLOADER_MAGIC = 0x2BADB002"

definition MB_FLAG_MEM :: u32 where "MB_FLAG_MEM = 0x00000001"
definition MB_FLAG_MMAP :: u32 where "MB_FLAG_MMAP = 0x00000040"
definition MB_MEMORY_AVAILABLE :: u32 where "MB_MEMORY_AVAILABLE = 1"

record multiboot_info =
  mbi_flags :: u32
  mbi_mem_lower :: u32
  mbi_mem_upper :: u32
  mbi_mmap_length :: u32
  mbi_mmap_addr :: u32

definition read_mbi :: "mem \<Rightarrow> u32 \<Rightarrow> multiboot_info" where
  "read_mbi m a = \<lparr>mbi_flags = rd32 m a, mbi_mem_lower = rd32 m (a + 4),
     mbi_mem_upper = rd32 m (a + 8), mbi_mmap_length = rd32 m (a + 44),
     mbi_mmap_addr = rd32 m (a + 48)\<rparr>"

definition sizeof_multiboot_info :: u32 where
  "sizeof_multiboot_info = 116"

record mmap_entry =
  e_size :: u32
  e_addr :: u64
  e_len :: u64
  e_type :: u32

definition read_entry :: "mem \<Rightarrow> u32 \<Rightarrow> mmap_entry" where
  "read_entry m p = \<lparr>e_size = rd32 m p, e_addr = rd64 m (p + 4), e_len = rd64 m (p + 12),
     e_type = rd32 m (p + 20)\<rparr>"

section \<open>State\<close>

definition PAGE_SIZE :: u32 where "PAGE_SIZE = 4096"
definition MAX_FRAMES :: u32 where "MAX_FRAMES = 0x100000"
definition LOW_MEMORY :: u32 where "LOW_MEMORY = 0x100000"
definition MAX_PROT :: nat where "MAX_PROT = 6"

text \<open>\<open>prot\<close> holds the first \<open>prot_count\<close> entries of the C array.\<close>

record pmm =
  frame_bitmap :: bitmap
  total_frames :: u32
  usable_frames :: u32
  reserved_frames :: u32
  usable_bytes :: u32
  mem_lower_kb :: u32
  mem_upper_kb :: u32
  mmap_addr_saved :: u32
  mmap_len_saved :: u32
  have_map :: bool
  prot :: "(u32 \<times> u32) list"

lemmas pmm_consts = PAGE_SIZE_def MAX_FRAMES_def LOW_MEMORY_def MAX_PROT_def

section \<open>Initialisation\<close>

text \<open>
  \<open>for (f = f0; f < f1 && f < total_frames; f++) if (!fb_test) { mark; reserved++ }\<close>,
  with \<open>n\<close> the number of frames from \<open>f\<close> up to \<open>f1\<close>.
\<close>

fun reserve_loop :: "u32 \<Rightarrow> u32 \<Rightarrow> nat \<Rightarrow> bitmap \<times> u32 \<Rightarrow> bitmap \<times> u32" where
  "reserve_loop tot f 0 (bm, r) = (bm, r)"
| "reserve_loop tot f (Suc n) (bm, r) =
     (if f < tot
      then reserve_loop tot (f + 1) n
             (if \<not> fb_test bm f then (fb_mark_used bm f, r + 1) else (bm, r))
      else (bm, r))"

definition reserve_range :: "u32 \<Rightarrow> u32 \<Rightarrow> pmm \<Rightarrow> pmm" where
  "reserve_range a b s =
     (if b \<le> a then s
      else let f0 = a div PAGE_SIZE;
               f1 = (b + PAGE_SIZE - 1) div PAGE_SIZE;
               (bm, r) = reserve_loop (total_frames s) f0 (unat f1 - unat f0)
                           (frame_bitmap s, reserved_frames s);
               s' = s\<lparr>frame_bitmap := bm, reserved_frames := r\<rparr>
           in if length (prot s') < MAX_PROT then s'\<lparr>prot := prot s' @ [(a, b)]\<rparr> else s')"

text \<open>
  One iteration of the memory-map loop: the accumulator is the bitmap, \<open>highest\<close> and
  \<open>usable_bytes\<close>. \<open>highest = (uint32_t)rend\<close> keeps the low 32 bits of \<open>rend\<close>.
\<close>

definition mmap_step :: "mmap_entry \<Rightarrow> bitmap \<times> u32 \<times> u32 \<Rightarrow> bitmap \<times> u32 \<times> u32" where
  "mmap_step e acc =
     (let (bm, highest, ub) = acc
      in if e_type e = MB_MEMORY_AVAILABLE
         then let rstart = e_addr e;
                  rend0 = e_addr e + e_len e;
                  rend = (if rend0 > 0x100000000 then 0x100000000 else rend0);
                  highest' = (if rend > ucast highest then ucast rend else highest);
                  f0 = ucast (rstart div 4096);
                  f1 = (ucast (rend div 4096) :: u32)
              in (mark_region_free_loop bm MAX_FRAMES f0 (unat f1 - unat f0),
                  highest', ub + ucast (e_len e))
         else acc)"

partial_function (option) mmap_loop ::
  "mem \<Rightarrow> u32 \<Rightarrow> u32 \<Rightarrow> bitmap \<times> u32 \<times> u32 \<Rightarrow> (bitmap \<times> u32 \<times> u32) option" where
  "mmap_loop m p q acc =
     (if p < q then mmap_loop m (p + (e_size (read_entry m p) + 4)) q (mmap_step (read_entry m p) acc)
      else Some acc)"

declare mmap_loop.simps [code]

definition pmm_reset :: "pmm \<Rightarrow> pmm" where
  "pmm_reset s = s\<lparr>total_frames := 0, usable_frames := 0, reserved_frames := 0, usable_bytes := 0,
     mem_lower_kb := 0, mem_upper_kb := 0, mmap_addr_saved := 0, mmap_len_saved := 0,
     prot := [], have_map := False, frame_bitmap := fb_init (frame_bitmap s) MAX_FRAMES\<rparr>"

text \<open>
  The scan of the memory information: \<open>None\<close> when the memory-map loop does not
  return. The fallback assumes contiguous RAM above 1 MiB.
\<close>

definition pmm_scan :: "mem \<Rightarrow> multiboot_info \<Rightarrow> pmm \<Rightarrow> (pmm \<times> u32) option" where
  "pmm_scan m mbi s =
     (if mbi_flags mbi AND MB_FLAG_MMAP \<noteq> 0
      then let s1 = s\<lparr>have_map := True, mmap_addr_saved := mbi_mmap_addr mbi,
                       mmap_len_saved := mbi_mmap_length mbi\<rparr>
           in case mmap_loop m (mbi_mmap_addr mbi) (mbi_mmap_addr mbi + mbi_mmap_length mbi)
                     (frame_bitmap s1, 0, usable_bytes s1) of
                None \<Rightarrow> None
              | Some (bm, highest, ub) \<Rightarrow>
                  Some (s1\<lparr>frame_bitmap := bm, usable_bytes := ub\<rparr>, highest)
      else if mbi_flags mbi AND MB_FLAG_MEM \<noteq> 0
      then let highest = LOW_MEMORY + mbi_mem_upper mbi * 1024;
               f0 = LOW_MEMORY div PAGE_SIZE;
               f1 = highest div PAGE_SIZE
           in Some (s\<lparr>usable_bytes := mbi_mem_upper mbi * 1024,
                      frame_bitmap :=
                        mark_region_free_loop (frame_bitmap s) MAX_FRAMES f0 (unat f1 - unat f0)\<rparr>,
                    highest)
      else Some (s, 0))"

definition pmm_finish :: "u32 \<Rightarrow> u32 \<Rightarrow> u32 \<Rightarrow> pmm \<Rightarrow> u32 \<Rightarrow> pmm" where
  "pmm_finish kstart kend mb_info_addr s highest =
     (let tot0 = highest div PAGE_SIZE;
          tot = (if tot0 > MAX_FRAMES then MAX_FRAMES else tot0);
          s1 = s\<lparr>total_frames := tot, usable_frames := fb_count_free (frame_bitmap s) tot\<rparr>;
          s2 = reserve_range 0 LOW_MEMORY s1;
          s3 = reserve_range kstart kend s2;
          s4 = reserve_range mb_info_addr (mb_info_addr + sizeof_multiboot_info) s3
      in if mmap_len_saved s4 \<noteq> 0
         then reserve_range (mmap_addr_saved s4) (mmap_addr_saved s4 + mmap_len_saved s4) s4
         else s4)"

definition pmm_init :: "mem \<Rightarrow> u32 \<Rightarrow> u32 \<Rightarrow> u32 \<Rightarrow> u32 \<Rightarrow> pmm \<Rightarrow> pmm option" where
  "pmm_init m kstart kend magic mb_info_addr s =
     (let s0 = pmm_reset s
      in if magic \<noteq> MULTIBOOT_BOOTLOADER_MAGIC \<or> mb_info_addr = 0 then Some s0
         else let mbi = read_mbi m mb_info_addr;
                  s1 = (if mbi_flags mbi AND MB_FLAG_MEM \<noteq> 0
                        then s0\<lparr>mem_lower_kb := mbi_mem_lower mbi, mem_upper_kb := mbi_mem_upper mbi\<rparr>
                        else s0)
              in case pmm_scan m mbi s1 of
                   None \<Rightarrow> None
                 | Some (s2, highest) \<Rightarrow> Some (pmm_finish kstart kend mb_info_addr s2 highest))"

section \<open>Operations\<close>

definition pmm_alloc_frame :: "pmm \<Rightarrow> u32 \<times> pmm" where
  "pmm_alloc_frame s =
     (if total_frames s = 0 then (0, s)
      else let (f, bm) = fb_alloc (frame_bitmap s) (total_frames s);
               s' = s\<lparr>frame_bitmap := bm\<rparr>
           in if f = FB_NONE then (0, s') else (f * PAGE_SIZE, s'))"

definition pmm_is_protected :: "pmm \<Rightarrow> u32 \<Rightarrow> bool" where
  "pmm_is_protected s addr \<longleftrightarrow> list_ex (\<lambda>(a, b). a \<le> addr \<and> addr < b) (prot s)"

definition pmm_free_frame :: "u32 \<Rightarrow> pmm \<Rightarrow> int \<times> pmm" where
  "pmm_free_frame phys_addr s =
     (if phys_addr mod PAGE_SIZE \<noteq> 0 then (-1, s)
      else let f = phys_addr div PAGE_SIZE
           in if total_frames s \<le> f then (-1, s)
              else if pmm_is_protected s phys_addr then (-2, s)
              else if \<not> fb_test (frame_bitmap s) f then (-3, s)
              else (0, s\<lparr>frame_bitmap := fb_mark_free (frame_bitmap s) f\<rparr>))"

definition pmm_free_frames :: "pmm \<Rightarrow> u32" where
  "pmm_free_frames s = fb_count_free (frame_bitmap s) (total_frames s)"

definition pmm_used_frames :: "pmm \<Rightarrow> u32" where
  "pmm_used_frames s = usable_frames s - pmm_free_frames s"

definition pmm_available :: "pmm \<Rightarrow> bool" where
  "pmm_available s \<longleftrightarrow> have_map s \<or> mem_upper_kb s \<noteq> 0"

section \<open>Reserving ranges\<close>

lemma free_set_mark_used: "f = of_nat i \<Longrightarrow> i < 4294967296 \<Longrightarrow> n \<le> 4294967296 \<Longrightarrow>
   free_set (fb_mark_used bm f) n = free_set bm n - {i}"
  by (auto simp: free_set_def fb_test_mark_used u32_eq_of_nat_iff unat_of_nat_u32)

lemma free_set_mark_free: "f = of_nat i \<Longrightarrow> i < n \<Longrightarrow> n \<le> 4294967296 \<Longrightarrow>
   free_set (fb_mark_free bm f) n = insert i (free_set bm n)"
  by (auto simp: free_set_def fb_test_mark_free u32_eq_of_nat_iff unat_of_nat_u32)

lemma fb_count_free_eq: "fb_count_free bm t = of_nat (card (free_set bm (unat t)))"
  by (simp add: fb_count_free_def fold_count card_free_set)

lemma fb_count_free_mark_used:
  assumes "f < t" "\<not> fb_test bm f"
  shows "fb_count_free (fb_mark_used bm f) t + 1 = fb_count_free bm t"
proof -
  have in_set: "unat f \<in> free_set bm (unat t)"
    using assms by (simp add: free_set_def word_less_nat_alt)
  have "free_set (fb_mark_used bm f) (unat t) = free_set bm (unat t) - {unat f}"
    using unat_u32_less [of f] unat_u32_less [of t] by (intro free_set_mark_used) auto
  moreover have "Suc (card (free_set bm (unat t) - {unat f})) = card (free_set bm (unat t))"
    using in_set by (intro card_Suc_Diff1) simp_all
  ultimately show ?thesis
    by (metis add.commute fb_count_free_eq of_nat_Suc)
qed

lemma fb_count_free_mark_free:
  assumes "f < t" "fb_test bm f"
  shows "fb_count_free (fb_mark_free bm f) t = fb_count_free bm t + 1"
proof -
  have "unat f \<notin> free_set bm (unat t)"
    using assms by (simp add: free_set_def)
  moreover have "free_set (fb_mark_free bm f) (unat t) = insert (unat f) (free_set bm (unat t))"
    using assms(1) unat_u32_less [of t] by (intro free_set_mark_free) (auto simp: word_less_nat_alt)
  ultimately show ?thesis
    by (simp add: fb_count_free_eq)
qed

lemma reserve_loop_test:
  "unat f + n \<le> 4294967296 \<Longrightarrow>
   fb_test (fst (reserve_loop tot f n (bm, r))) g \<longleftrightarrow>
     fb_test bm g \<or> (f \<le> g \<and> unat g < unat f + n \<and> g < tot)"
proof (induction n arbitrary: bm f r)
  case 0
  then show ?case by (auto simp: word_le_nat_alt)
next
  case (Suc n)
  show ?case
  proof (cases "f < tot")
    case True
    then have "unat f < 4294967295"
      using unat_u32_less [of tot] by (simp add: word_less_nat_alt)
    then have f1: "unat (f + 1) = Suc (unat f)" by (rule unat_Suc_u32)
    have "g = f \<longleftrightarrow> unat g = unat f" by (rule word_unat_eq_iff)
    with Suc True f1 show ?thesis
      by (auto simp: fb_test_mark_used word_le_nat_alt word_less_nat_alt)
  next
    case False
    then show ?thesis by (auto simp: not_less)
  qed
qed

text \<open>Reserving moves frames from free to reserved: the sum is constant.\<close>

lemma reserve_loop_count:
  "reserve_loop tot f n (bm, r) = (bm', r') \<Longrightarrow>
     r' + fb_count_free bm' tot = r + fb_count_free bm tot"
proof (induction n arbitrary: bm f r)
  case 0
  then show ?case by simp
next
  case (Suc n)
  show ?case
  proof (cases "f < tot \<and> \<not> fb_test bm f")
    case True
    then have "r' + fb_count_free bm' tot = (r + 1) + fb_count_free (fb_mark_used bm f) tot"
      using Suc.IH [of "f + 1" "fb_mark_used bm f" "r + 1"] Suc.prems by simp
    also have "\<dots> = r + fb_count_free bm tot"
      using fb_count_free_mark_used [of f tot bm] True by (simp add: algebra_simps)
    finally show ?thesis .
  next
    case False
    then show ?thesis
      using Suc.IH [of "f + 1" bm r] Suc.prems by (auto split: if_splits)
  qed
qed

text \<open>The frames a byte range touches.\<close>

definition frame_in_range :: "u32 \<times> u32 \<Rightarrow> u32 \<Rightarrow> bool" where
  "frame_in_range r f \<longleftrightarrow>
     fst r < snd r \<and> unat (fst r) div 4096 \<le> unat f \<and> unat f * 4096 < unat (snd r)"

lemma reserve_range_fields [simp]:
  "total_frames (reserve_range a b s) = total_frames s"
  "usable_frames (reserve_range a b s) = usable_frames s"
  "mmap_addr_saved (reserve_range a b s) = mmap_addr_saved s"
  "mmap_len_saved (reserve_range a b s) = mmap_len_saved s"
  by (simp_all add: reserve_range_def Let_def split: prod.splits)

lemma reserve_range_prot:
  "prot (reserve_range a b s) =
     (if a < b \<and> length (prot s) < MAX_PROT then prot s @ [(a, b)] else prot s)"
  by (auto simp: reserve_range_def Let_def not_le split: prod.splits)

lemma reserve_range_count:
  "reserved_frames (reserve_range a b s) + pmm_free_frames (reserve_range a b s) =
   reserved_frames s + pmm_free_frames s"
  by (auto simp: reserve_range_def Let_def pmm_free_frames_def split: prod.splits
      dest: reserve_loop_count)

lemma reserve_range_test:
  assumes "unat b + 4095 < 4294967296"
  shows "fb_test (frame_bitmap (reserve_range a b s)) g \<longleftrightarrow>
     fb_test (frame_bitmap s) g \<or> (frame_in_range (a, b) g \<and> g < total_frames s)"
proof (cases "a < b")
  case True
  let ?f0 = "a div PAGE_SIZE" and ?f1 = "(b + PAGE_SIZE - 1) div PAGE_SIZE"
  have f0: "unat ?f0 = unat a div 4096" by (simp add: pmm_consts unat_div)
  have "b + PAGE_SIZE - 1 = b + 4095" by (simp add: pmm_consts)
  then have f1: "unat ?f1 = (unat b + 4095) div 4096"
    using assms by (simp add: pmm_consts unat_div unat_add_u32)
  have "frame_bitmap (reserve_range a b s) =
      fst (reserve_loop (total_frames s) ?f0 (unat ?f1 - unat ?f0) (frame_bitmap s, reserved_frames s))"
    using True by (simp add: reserve_range_def Let_def not_le [symmetric] split: prod.splits)
  then have "fb_test (frame_bitmap (reserve_range a b s)) g \<longleftrightarrow> fb_test (frame_bitmap s) g \<or>
      (?f0 \<le> g \<and> unat g < unat ?f0 + (unat ?f1 - unat ?f0) \<and> g < total_frames s)"
    using reserve_loop_test [of ?f0 "unat ?f1 - unat ?f0" "total_frames s" "frame_bitmap s" _ g]
      unat_u32_less [of ?f0] unat_u32_less [of ?f1] by simp
  moreover have "(?f0 \<le> g \<and> unat g < unat ?f0 + (unat ?f1 - unat ?f0)) \<longleftrightarrow> frame_in_range (a, b) g"
    using True unfolding frame_in_range_def word_le_nat_alt f0 f1 by auto
  ultimately show ?thesis by blast
next
  case False
  then show ?thesis by (simp add: reserve_range_def frame_in_range_def)
qed

section \<open>Invariants\<close>

text \<open>\<open>pmm_inv\<close>: the bitmap covers all frames and the range table is within its bound.\<close>

definition pmm_inv :: "pmm \<Rightarrow> bool" where
  "pmm_inv s \<longleftrightarrow> total_frames s \<le> MAX_FRAMES \<and> length (prot s) \<le> MAX_PROT"

lemma pmm_inv_total: "pmm_inv s \<Longrightarrow> unat (total_frames s) \<le> 2 ^ 20"
  by (simp add: pmm_inv_def pmm_consts word_le_nat_alt)

lemma reserve_range_inv [simp]: "pmm_inv (reserve_range a b s) \<longleftrightarrow> pmm_inv s"
  by (auto simp: pmm_inv_def reserve_range_prot pmm_consts)

text \<open>The ranges \<open>pmm_init\<close> reserves, in its order.\<close>

definition boot_ranges :: "u32 \<Rightarrow> u32 \<Rightarrow> u32 \<Rightarrow> u32 \<Rightarrow> u32 \<Rightarrow> (u32 \<times> u32) list" where
  "boot_ranges kstart kend mba maddr mlen =
     [(0, LOW_MEMORY), (kstart, kend), (mba, mba + sizeof_multiboot_info)] @
     (if mlen \<noteq> 0 then [(maddr, maddr + mlen)] else [])"

definition ranges_fit :: "(u32 \<times> u32) list \<Rightarrow> bool" where
  "ranges_fit rs \<longleftrightarrow> (\<forall>(a, b) \<in> set rs. unat b + 4095 < 4294967296)"

definition clamp_frames :: "u32 \<Rightarrow> u32" where
  "clamp_frames highest =
     (if highest div PAGE_SIZE > MAX_FRAMES then MAX_FRAMES else highest div PAGE_SIZE)"

lemma pmm_finish_reserve:
  "pmm_finish kstart kend mba s highest =
     fold (\<lambda>(a, b). reserve_range a b)
       (boot_ranges kstart kend mba (mmap_addr_saved s) (mmap_len_saved s))
       (s\<lparr>total_frames := clamp_frames highest,
          usable_frames := fb_count_free (frame_bitmap s) (clamp_frames highest)\<rparr>)"
proof -
  let ?s1 = "s\<lparr>total_frames := clamp_frames highest,
      usable_frames := fb_count_free (frame_bitmap s) (clamp_frames highest)\<rparr>"
  let ?s4 = "reserve_range mba (mba + sizeof_multiboot_info)
      (reserve_range kstart kend (reserve_range 0 LOW_MEMORY ?s1))"
  have saved: "mmap_len_saved ?s4 = mmap_len_saved s" "mmap_addr_saved ?s4 = mmap_addr_saved s"
    by simp_all
  have "pmm_finish kstart kend mba s highest =
      (if mmap_len_saved ?s4 \<noteq> 0
       then reserve_range (mmap_addr_saved ?s4) (mmap_addr_saved ?s4 + mmap_len_saved ?s4) ?s4 else ?s4)"
    unfolding pmm_finish_def Let_def clamp_frames_def by (rule refl)
  also have "\<dots> = fold (\<lambda>(a, b). reserve_range a b)
      (boot_ranges kstart kend mba (mmap_addr_saved s) (mmap_len_saved s)) ?s1"
    unfolding saved boot_ranges_def by (cases "mmap_len_saved s = 0") simp_all
  finally show ?thesis .
qed

lemma fold_reserve_total [simp]:
  "total_frames (fold (\<lambda>(a, b). reserve_range a b) rs s) = total_frames s"
  by (induction rs arbitrary: s) (simp_all add: split_def)

lemma fold_reserve_usable [simp]:
  "usable_frames (fold (\<lambda>(a, b). reserve_range a b) rs s) = usable_frames s"
  by (induction rs arbitrary: s) (simp_all add: split_def)

lemma fold_reserve_inv [simp]:
  "pmm_inv (fold (\<lambda>(a, b). reserve_range a b) rs s) \<longleftrightarrow> pmm_inv s"
  by (induction rs arbitrary: s) (simp_all add: split_def)

lemma fold_reserve_test:
  "ranges_fit rs \<Longrightarrow>
   fb_test (frame_bitmap (fold (\<lambda>(a, b). reserve_range a b) rs s)) g \<longleftrightarrow>
     fb_test (frame_bitmap s) g \<or> (g < total_frames s \<and> (\<exists>r \<in> set rs. frame_in_range r g))"
proof (induction rs arbitrary: s)
  case Nil
  then show ?case by simp
next
  case (Cons r rs)
  then have "ranges_fit rs" "unat (snd r) + 4095 < 4294967296" by (auto simp: ranges_fit_def)
  with Cons.IH [of "reserve_range (fst r) (snd r) s"] show ?case
    by (auto simp: split_def reserve_range_test)
qed

lemma fold_reserve_prot:
  "length (prot s) + length rs \<le> MAX_PROT \<Longrightarrow>
   prot (fold (\<lambda>(a, b). reserve_range a b) rs s) = prot s @ filter (\<lambda>(a, b). a < b) rs"
proof (induction rs arbitrary: s)
  case Nil
  then show ?case by simp
next
  case (Cons r rs)
  obtain a b where r: "r = (a, b)" by (cases r)
  have "length (prot (reserve_range a b s)) + length rs \<le> MAX_PROT"
    using Cons.prems by (simp add: reserve_range_prot)
  from Cons.IH [OF this] Cons.prems show ?case by (simp add: r reserve_range_prot)
qed

lemma fold_reserve_count:
  "reserved_frames (fold (\<lambda>(a, b). reserve_range a b) rs s) +
     pmm_free_frames (fold (\<lambda>(a, b). reserve_range a b) rs s) =
   reserved_frames s + pmm_free_frames s"
  by (induction rs arbitrary: s) (simp_all add: split_def reserve_range_count)

lemma clamp_frames_le: "clamp_frames highest \<le> MAX_FRAMES"
  by (simp add: clamp_frames_def not_less)

lemma length_boot_ranges: "length (boot_ranges kstart kend mba maddr mlen) \<le> 4"
  by (simp add: boot_ranges_def)

lemma pmm_finish_inv: "length (prot s) \<le> MAX_PROT \<Longrightarrow> pmm_inv (pmm_finish kstart kend mba s highest)"
  by (simp add: pmm_finish_reserve) (simp add: pmm_inv_def clamp_frames_le)

lemma pmm_finish_count:
  assumes "reserved_frames s = 0"
  shows "reserved_frames (pmm_finish kstart kend mba s highest) +
         pmm_free_frames (pmm_finish kstart kend mba s highest) =
         usable_frames (pmm_finish kstart kend mba s highest)"
  using assms by (simp add: pmm_finish_reserve fold_reserve_count) (simp add: pmm_free_frames_def)

section \<open>Allocation and release\<close>

lemma frame_address:
  assumes "f < total_frames s" "pmm_inv s"
  shows "unat (f * PAGE_SIZE) = unat f * 4096" "f * PAGE_SIZE div PAGE_SIZE = f"
    "f * PAGE_SIZE mod PAGE_SIZE = 0"
proof -
  have "unat f < 2 ^ 20"
    using assms pmm_inv_total [of s] by (simp add: word_less_nat_alt)
  then show u: "unat (f * PAGE_SIZE) = unat f * 4096"
    by (simp add: unat_word_ariths pmm_consts)
  show "f * PAGE_SIZE div PAGE_SIZE = f"
    using u by (simp add: word_unat_eq_iff unat_div pmm_consts)
  show "f * PAGE_SIZE mod PAGE_SIZE = 0"
    using u by (simp add: word_unat_eq_iff unat_mod pmm_consts)
qed

lemma pmm_alloc_cases:
  assumes "pmm_inv s" "fb_test (frame_bitmap s) 0 \<or> total_frames s = 0"
  obtains (full) "pmm_alloc_frame s = (0, s)" "\<forall>f < total_frames s. fb_test (frame_bitmap s) f"
  | (got) f where "f < total_frames s" "\<not> fb_test (frame_bitmap s) f"
      "\<forall>g < f. fb_test (frame_bitmap s) g" "f * PAGE_SIZE \<noteq> 0"
      "pmm_alloc_frame s = (f * PAGE_SIZE, s\<lparr>frame_bitmap := fb_mark_used (frame_bitmap s) f\<rparr>)"
proof (cases "total_frames s = 0")
  case True
  then show ?thesis by (intro full) (simp_all add: pmm_alloc_frame_def)
next
  case False
  obtain f bm where al: "fb_alloc (frame_bitmap s) (total_frames s) = (f, bm)" by fastforce
  note tot = pmm_inv_total [OF assms(1)]
  show ?thesis
  proof (cases "f = FB_NONE")
    case True
    with al have al': "fb_alloc (frame_bitmap s) (total_frames s) = (FB_NONE, bm)" by simp
    from fb.alloc_none [OF tot al'] True al False show ?thesis
      by (intro full) (auto simp: pmm_alloc_frame_def)
  next
    case ok: False
    from fb.alloc_fresh [OF tot al ok] have f: "f < total_frames s" "\<not> fb_test (frame_bitmap s) f"
      "bm = fb_mark_used (frame_bitmap s) f" "\<forall>g < f. fb_test (frame_bitmap s) g" by auto
    from f(2) assms(2) False have "f \<noteq> 0" by auto
    then have "f * PAGE_SIZE \<noteq> 0"
      using frame_address(1) [OF f(1) assms(1)] by (auto simp: word_unat_eq_iff)
    with f ok al False show ?thesis
      by (intro got) (auto simp: pmm_alloc_frame_def)
  qed
qed

section \<open>The memory-map scan\<close>

text \<open>The entries a memory-map buffer between \<open>p\<close> and \<open>q\<close> holds.\<close>

fun entries_at :: "mem \<Rightarrow> u32 \<Rightarrow> u32 \<Rightarrow> mmap_entry list \<Rightarrow> bool" where
  "entries_at m p q [] \<longleftrightarrow> \<not> p < q"
| "entries_at m p q (e # es) \<longleftrightarrow>
     p < q \<and> read_entry m p = e \<and> entries_at m (p + (e_size e + 4)) q es"

lemma mmap_loop_entries:
  "entries_at m p q es \<Longrightarrow> mmap_loop m p q acc = Some (fold mmap_step es acc)"
proof (induction es arbitrary: p acc)
  case Nil
  then show ?case by (subst mmap_loop.simps) simp
next
  case (Cons e es)
  then show ?case by (subst mmap_loop.simps) auto
qed

text \<open>The layout every known loader writes: consecutive entries of size 20.\<close>

lemma entries_at_fixed:
  assumes "\<forall>i < k. e_size (read_entry m (p + of_nat (24 * i))) = 20" "unat p + 24 * k < 4294967296"
  shows "entries_at m p (p + of_nat (24 * k)) (map (\<lambda>i. read_entry m (p + of_nat (24 * i))) [0..<k])"
  using assms
proof (induction k arbitrary: p)
  case 0
  then show ?case by simp
next
  case (Suc k)
  let ?q = "p + of_nat (24 * Suc k)"
  have shift: "p + 24 + of_nat (24 * i) = p + of_nat (24 * Suc i)" for i by simp
  have p24: "unat (p + 24) = unat p + 24" using Suc.prems(2) by (simp add: unat_add_u32)
  have "unat (of_nat (24 * Suc k) :: u32) = 24 * Suc k"
    using Suc.prems(2) by (intro unat_of_nat_u32) simp
  then have less: "p < ?q" using Suc.prems(2)
    by (simp add: word_less_nat_alt unat_add_u32 del: of_nat_Suc of_nat_mult)
  have size0: "e_size (read_entry m p) = 20" using Suc.prems(1) by force
  have "entries_at m (p + 24) (p + 24 + of_nat (24 * k))
      (map (\<lambda>i. read_entry m (p + 24 + of_nat (24 * i))) [0..<k])"
    using Suc.prems p24 by (intro Suc.IH) (auto simp del: of_nat_mult simp: shift)
  moreover have "map (\<lambda>i. read_entry m (p + of_nat (24 * i))) [0..<Suc k] =
      read_entry m p # map (\<lambda>i. read_entry m (p + 24 + of_nat (24 * i))) [0..<k]"
    by (subst upt_conv_Cons) (simp_all add: map_Suc_upt [symmetric] shift del: upt_Suc of_nat_mult)
  ultimately show ?case using size0 less by (simp only: entries_at.simps shift) simp
qed

definition available :: "mmap_entry \<Rightarrow> bool" where
  "available e \<longleftrightarrow> e_type e = MB_MEMORY_AVAILABLE"

definition entry_end :: "mmap_entry \<Rightarrow> nat" where
  "entry_end e = unat (e_addr e) + unat (e_len e)"

text \<open>Entries whose available ranges end below 4 GiB.\<close>

definition below_4g :: "mmap_entry list \<Rightarrow> bool" where
  "below_4g es \<longleftrightarrow> (\<forall>e \<in> set es. available e \<longrightarrow> entry_end e < 4294967296)"

text \<open>
  The frames the code marks for a map entry: it rounds the start down as well as the end. A frame
  is whole in an entry when the entry covers all of its bytes. The two agree for entries that start
  on a page boundary.
\<close>

definition entry_frame :: "mmap_entry \<Rightarrow> u32 \<Rightarrow> bool" where
  "entry_frame e f \<longleftrightarrow> available e \<and> unat (e_addr e) div 4096 \<le> unat f \<and> unat f < entry_end e div 4096"

definition whole_frame :: "mmap_entry \<Rightarrow> u32 \<Rightarrow> bool" where
  "whole_frame e f \<longleftrightarrow> available e \<and> unat (e_addr e) \<le> 4096 * unat f \<and> 4096 * unat f + 4096 \<le> entry_end e"

definition page_starts :: "mmap_entry list \<Rightarrow> bool" where
  "page_starts es \<longleftrightarrow> (\<forall>e \<in> set es. available e \<longrightarrow> 4096 dvd unat (e_addr e))"

lemma whole_entry_frame: "whole_frame e f \<Longrightarrow> entry_frame e f"
  unfolding whole_frame_def entry_frame_def by linarith

lemma entry_frame_whole: "page_starts es \<Longrightarrow> e \<in> set es \<Longrightarrow> entry_frame e f \<longleftrightarrow> whole_frame e f"
  using whole_entry_frame by (auto simp: page_starts_def entry_frame_def whole_frame_def elim!: dvdE)

definition highest_end :: "mmap_entry list \<Rightarrow> nat \<Rightarrow> nat" where
  "highest_end es h = fold (\<lambda>e h. if available e then max h (entry_end e) else h) es h"

lemma unat_ucast_u32: "unat (x :: u64) < 4294967296 \<Longrightarrow> unat (ucast x :: u32) = unat x"
  by (simp add: unsigned_ucast_eq take_bit_nat_eq_self)

lemma unat_ucast_u64: "unat (ucast (x :: u32) :: u64) = unat x"
  using unat_u32_less [of x] by (simp add: unsigned_ucast_eq take_bit_nat_eq_self)

lemma mmap_step_below_4g:
  assumes "available e" "entry_end e < 4294967296"
    and step: "mmap_step e (bm, highest, ub) = (bm', highest', ub')"
  shows "unat highest' = max (unat highest) (entry_end e)"
    and "g < MAX_FRAMES \<Longrightarrow> fb_test bm' g \<longleftrightarrow> fb_test bm g \<and> \<not> entry_frame e g"
proof -
  let ?top = "e_addr e + e_len e"
  have en: "unat ?top = entry_end e"
    using assms(2) by (simp add: entry_end_def unat_word_ariths)
  then have le: "\<not> ?top > 0x100000000" using assms(2) by (simp add: word_less_nat_alt)
  let ?f0 = "ucast (e_addr e div 4096) :: u32" and ?f1 = "ucast (?top div 4096) :: u32"
  have f0: "unat ?f0 = unat (e_addr e) div 4096"
    using assms(2) by (subst unat_ucast_u32) (simp_all add: unat_div entry_end_def)
  have f1: "unat ?f1 = entry_end e div 4096"
    using assms(2) en by (subst unat_ucast_u32) (simp_all add: unat_div)
  have h': "highest' = (if ?top > ucast highest then ucast ?top else highest)"
    and bm': "bm' = mark_region_free_loop bm MAX_FRAMES ?f0 (unat ?f1 - unat ?f0)"
    using step assms(1) le by (auto simp: mmap_step_def available_def Let_def)
  have "unat (ucast ?top :: u32) = entry_end e"
    using assms(2) en by (simp add: unat_ucast_u32)
  then show "unat highest' = max (unat highest) (entry_end e)"
    unfolding h' using en by (auto simp: word_less_nat_alt unat_ucast_u64)
  show "fb_test bm' g \<longleftrightarrow> fb_test bm g \<and> \<not> entry_frame e g" if "g < MAX_FRAMES"
  proof -
    have "unat ?f0 + (unat ?f1 - unat ?f0) \<le> 4294967296"
      using f0 f1 assms(2) unat_u32_less [of ?f0] by linarith
    then have "fb_test bm' g \<longleftrightarrow> fb_test bm g \<and>
        \<not> (?f0 \<le> g \<and> unat g < unat ?f0 + (unat ?f1 - unat ?f0) \<and> g < MAX_FRAMES)"
      unfolding bm' by (rule mark_region_free_loop_test)
    moreover have "(?f0 \<le> g \<and> unat g < unat ?f0 + (unat ?f1 - unat ?f0)) \<longleftrightarrow> entry_frame e g"
      unfolding entry_frame_def word_le_nat_alt f0 f1 using assms(1) by auto
    ultimately show ?thesis using that by blast
  qed
qed

lemma mmap_fold_below_4g:
  assumes "below_4g es" "fold mmap_step es (bm, highest, ub) = (bm', highest', ub')"
  shows "unat highest' = highest_end es (unat highest) \<and>
    (\<forall>g < MAX_FRAMES. fb_test bm' g \<longleftrightarrow> fb_test bm g \<and> \<not> (\<exists>e \<in> set es. entry_frame e g))"
  using assms
proof (induction es arbitrary: bm highest ub)
  case Nil
  then show ?case by (simp add: highest_end_def)
next
  case (Cons e es)
  obtain bm1 h1 ub1 where st: "mmap_step e (bm, highest, ub) = (bm1, h1, ub1)" by (metis prod_cases3)
  have es: "below_4g es" "fold mmap_step es (bm1, h1, ub1) = (bm', highest', ub')"
    using Cons.prems st by (auto simp: below_4g_def)
  note IH = Cons.IH [OF es]
  show ?case
  proof (cases "available e")
    case True
    then have "entry_end e < 4294967296" using Cons.prems(1) by (simp add: below_4g_def)
    note sane = mmap_step_below_4g [OF True this st]
    show ?thesis using IH True sane by (auto simp: highest_end_def)
  next
    case False
    then have "bm1 = bm" "h1 = highest"
      using st by (auto simp: mmap_step_def available_def)
    with IH False show ?thesis by (auto simp: highest_end_def entry_frame_def)
  qed
qed

text \<open>
  An available range that reaches 4 GiB or beyond sets \<open>highest\<close> to 0: its end is
  capped to \<open>0x100000000\<close> and then truncated to 32 bits.
\<close>

lemma mmap_step_at_4g:
  assumes "available e" "4294967296 \<le> entry_end e" "entry_end e < 2 ^ 64"
  shows "fst (snd (mmap_step e acc)) = 0"
proof -
  obtain bm highest ub where acc: "acc = (bm, highest, ub)" by (metis prod_cases3)
  let ?top = "e_addr e + e_len e"
  have en: "unat ?top = entry_end e"
    using assms(3) by (simp add: entry_end_def unat_word_ariths)
  define rend where "rend = (if ?top > 0x100000000 then 0x100000000 else ?top)"
  have rend: "rend = 0x100000000"
    using assms(2) en by (auto simp: rend_def word_less_nat_alt word_unat_eq_iff)
  have "unat highest < 4294967296" by (rule unat_u32_less)
  then have "rend > ucast highest" unfolding rend by (simp add: word_less_nat_alt unat_ucast_u64)
  moreover have "(ucast rend :: u32) = 0" unfolding rend by simp
  ultimately show ?thesis
    using assms(1) by (simp add: mmap_step_def acc available_def Let_def rend_def [symmetric])
qed

section \<open>The state after initialisation\<close>

lemma pmm_reset_simps [simp]:
  "total_frames (pmm_reset s) = 0" "usable_frames (pmm_reset s) = 0"
  "reserved_frames (pmm_reset s) = 0" "prot (pmm_reset s) = []"
  "mmap_len_saved (pmm_reset s) = 0" "mmap_addr_saved (pmm_reset s) = 0"
  "frame_bitmap (pmm_reset s) = fb_init (frame_bitmap s) MAX_FRAMES"
  by (simp_all add: pmm_reset_def)

lemma pmm_scan_keeps:
  assumes "pmm_scan m mbi s = Some (s', highest)"
  shows "reserved_frames s' = reserved_frames s" "prot s' = prot s"
  using assms by (auto simp: pmm_scan_def Let_def split: if_splits option.splits prod.splits)

lemma pmm_init_cases:
  assumes "pmm_init m kstart kend magic mba s = Some s'"
  obtains (inactive) "s' = pmm_reset s" "magic \<noteq> MULTIBOOT_BOOTLOADER_MAGIC \<or> mba = 0"
  | (active) t highest where "reserved_frames t = 0" "prot t = []" "mba \<noteq> 0"
      "magic = MULTIBOOT_BOOTLOADER_MAGIC" "s' = pmm_finish kstart kend mba t highest"
proof (cases "magic \<noteq> MULTIBOOT_BOOTLOADER_MAGIC \<or> mba = 0")
  case True
  then show ?thesis using assms inactive by (simp add: pmm_init_def Let_def)
next
  case False
  define s1 where "s1 = (if mbi_flags (read_mbi m mba) AND MB_FLAG_MEM \<noteq> 0
      then (pmm_reset s)\<lparr>mem_lower_kb := mbi_mem_lower (read_mbi m mba),
             mem_upper_kb := mbi_mem_upper (read_mbi m mba)\<rparr> else pmm_reset s)"
  have eq: "pmm_init m kstart kend magic mba s =
      (case pmm_scan m (read_mbi m mba) s1 of None \<Rightarrow> None
       | Some (s2, highest) \<Rightarrow> Some (pmm_finish kstart kend mba s2 highest))"
    using False unfolding pmm_init_def Let_def s1_def by simp
  then obtain t highest where sc: "pmm_scan m (read_mbi m mba) s1 = Some (t, highest)"
    and fin: "s' = pmm_finish kstart kend mba t highest"
    using assms by (auto split: option.splits)
  have "reserved_frames s1 = 0" "prot s1 = []" by (simp_all add: s1_def)
  with pmm_scan_keeps [OF sc] False fin show ?thesis by (intro active) auto
qed

lemma pmm_init_inv: "pmm_init m kstart kend magic mba s = Some s' \<Longrightarrow> pmm_inv s'"
  by (erule pmm_init_cases) (simp_all add: pmm_finish_inv, simp add: pmm_inv_def)

lemma pmm_init_reserved:
  "pmm_init m kstart kend magic mba s = Some s' \<Longrightarrow>
     reserved_frames s' + pmm_free_frames s' = usable_frames s'"
  by (erule pmm_init_cases)
    (simp_all add: pmm_finish_count, simp add: pmm_free_frames_def fb_count_free_def)

text \<open>
  With a memory map whose available ranges end below 4 GiB, the scan and the
  reservations determine every frame.
\<close>

lemma pmm_init_mmap:
  assumes "mba \<noteq> 0" "mbi = read_mbi m mba" "mbi_flags mbi AND MB_FLAG_MMAP \<noteq> 0"
    and "entries_at m (mbi_mmap_addr mbi) (mbi_mmap_addr mbi + mbi_mmap_length mbi) es"
    and "fold mmap_step es (fb_init (frame_bitmap s) MAX_FRAMES, 0, 0) = (bm, highest, ub)"
  obtains t where "frame_bitmap t = bm" "mmap_addr_saved t = mbi_mmap_addr mbi" "prot t = []"
    "mmap_len_saved t = mbi_mmap_length mbi"
    "pmm_init m kstart kend MULTIBOOT_BOOTLOADER_MAGIC mba s =
       Some (pmm_finish kstart kend mba t highest)"
proof -
  define s1 where "s1 = (if mbi_flags mbi AND MB_FLAG_MEM \<noteq> 0
      then (pmm_reset s)\<lparr>mem_lower_kb := mbi_mem_lower mbi, mem_upper_kb := mbi_mem_upper mbi\<rparr>
      else pmm_reset s)"
  define t where "t = s1\<lparr>have_map := True, mmap_addr_saved := mbi_mmap_addr mbi,
      mmap_len_saved := mbi_mmap_length mbi, frame_bitmap := bm, usable_bytes := ub\<rparr>"
  have s1: "frame_bitmap s1 = fb_init (frame_bitmap s) MAX_FRAMES" "usable_bytes s1 = 0" "prot s1 = []"
    by (simp_all add: s1_def) (simp add: pmm_reset_def)
  then have sc: "pmm_scan m mbi s1 = Some (t, highest)"
    using assms(3,5) mmap_loop_entries [OF assms(4)] by (simp add: pmm_scan_def Let_def t_def)
  have "pmm_init m kstart kend MULTIBOOT_BOOTLOADER_MAGIC mba s =
      (case pmm_scan m mbi s1 of None \<Rightarrow> None
       | Some (s2, highest) \<Rightarrow> Some (pmm_finish kstart kend mba s2 highest))"
    using assms(1) unfolding pmm_init_def Let_def s1_def assms(2) by simp
  with sc s1 show thesis by (intro that [of t]) (simp_all add: t_def)
qed

section \<open>Reachable states\<close>

text \<open>
  What allocation and release keep: a frame whose base address lies in a recorded
  range stays used, and the first MiB is on record.
\<close>

definition base_protected :: "pmm \<Rightarrow> bool" where
  "base_protected s \<longleftrightarrow>
     (\<forall>f < total_frames s. pmm_is_protected s (f * PAGE_SIZE) \<longrightarrow> fb_test (frame_bitmap s) f)"

definition pmm_ok :: "pmm \<Rightarrow> bool" where
  "pmm_ok s \<longleftrightarrow> pmm_inv s \<and> base_protected s \<and>
     ((0, LOW_MEMORY) \<in> set (prot s) \<or> total_frames s = 0)"

lemma protected_iff: "pmm_is_protected s x \<longleftrightarrow> (\<exists>(a, b) \<in> set (prot s). a \<le> x \<and> x < b)"
  by (auto simp: pmm_is_protected_def list_ex_iff)

lemma base_in_frame_range:
  assumes "pmm_inv s" "f < total_frames s" "a \<le> f * PAGE_SIZE" "f * PAGE_SIZE < b"
  shows "frame_in_range (a, b) f"
proof -
  have u: "unat (f * PAGE_SIZE) = unat f * 4096" by (rule frame_address(1) [OF assms(2,1)])
  have "unat a \<le> unat f * 4096" "unat f * 4096 < unat b"
    using assms(3,4) u by (simp_all add: word_le_nat_alt word_less_nat_alt)
  then show ?thesis by (auto simp: frame_in_range_def word_less_nat_alt)
qed

lemma aligned_range_base:
  assumes "pmm_inv s" "f < total_frames s" "frame_in_range (a, b) f" "a mod PAGE_SIZE = 0"
  shows "a \<le> f * PAGE_SIZE \<and> f * PAGE_SIZE < b"
proof -
  have u: "unat (f * PAGE_SIZE) = unat f * 4096" by (rule frame_address(1) [OF assms(2,1)])
  have "unat (a mod PAGE_SIZE) = 0" using assms(4) by simp
  then have "unat a mod 4096 = 0" by (simp add: pmm_consts unat_mod)
  then have "unat a \<le> unat f * 4096" using assms(3) by (auto simp: frame_in_range_def)
  then show ?thesis using assms(3) u
    by (simp add: frame_in_range_def word_le_nat_alt word_less_nat_alt)
qed

lemma pmm_ok_frame0: "pmm_ok s \<Longrightarrow> fb_test (frame_bitmap s) 0 \<or> total_frames s = 0"
  unfolding pmm_ok_def base_protected_def protected_iff
  by (force simp: pmm_consts word_gt_0)

lemma pmm_init_ok:
  assumes "pmm_init m kstart kend magic mba s = Some s'"
    and "ranges_fit (boot_ranges kstart kend mba (mmap_addr_saved s') (mmap_len_saved s'))"
  shows "pmm_ok s'"
  using assms(1)
proof (cases rule: pmm_init_cases)
  case inactive
  then show ?thesis by (simp add: pmm_ok_def pmm_inv_def base_protected_def)
next
  case (active t highest)
  let ?rs = "boot_ranges kstart kend mba (mmap_addr_saved t) (mmap_len_saved t)"
  have inv: "pmm_inv s'" by (rule pmm_init_inv [OF assms(1)])
  have "mmap_addr_saved s' = mmap_addr_saved t" "mmap_len_saved s' = mmap_len_saved t"
    unfolding active(5) pmm_finish_def Let_def by simp_all
  with assms(2) have fit: "ranges_fit ?rs" by simp
  have prot: "prot s' = filter (\<lambda>(a, b). a < b) ?rs"
    unfolding active(5) pmm_finish_reserve using active(2) 
      length_boot_ranges [of kstart kend mba "mmap_addr_saved t" "mmap_len_saved t"]
    by (subst fold_reserve_prot) (simp_all add: MAX_PROT_def)
  have "fb_test (frame_bitmap s') f"
    if f: "f < total_frames s'" and p: "pmm_is_protected s' (f * PAGE_SIZE)" for f
  proof -
    obtain a b where ab: "(a, b) \<in> set ?rs" "a \<le> f * PAGE_SIZE" "f * PAGE_SIZE < b"
      using p prot by (auto simp: protected_iff)
    have "frame_in_range (a, b) f" using inv f ab(2,3) by (rule base_in_frame_range)
    with ab(1) f show ?thesis
      unfolding active(5) pmm_finish_reserve by (subst fold_reserve_test [OF fit]) auto
  qed
  moreover have "(0, LOW_MEMORY) \<in> set (prot s')"
    unfolding prot by (simp add: boot_ranges_def pmm_consts)
  ultimately show ?thesis using inv by (simp add: pmm_ok_def base_protected_def)
qed

lemma pmm_alloc_ok: "pmm_ok s \<Longrightarrow> pmm_ok (snd (pmm_alloc_frame s))"
proof -
  assume ok: "pmm_ok s"
  then have "pmm_inv s" by (simp add: pmm_ok_def)
  from this pmm_ok_frame0 [OF ok] show ?thesis
  proof (cases rule: pmm_alloc_cases)
    case full
    then show ?thesis using ok by simp
  next
    case (got f)
    then show ?thesis using ok
      by (auto simp: pmm_ok_def pmm_inv_def base_protected_def pmm_is_protected_def fb_test_mark_used)
  qed
qed

lemma pmm_free_ok: "pmm_ok s \<Longrightarrow> pmm_ok (snd (pmm_free_frame a s))"
proof -
  assume ok: "pmm_ok s"
  show ?thesis
  proof (cases "fst (pmm_free_frame a s) = 0")
    case True
    let ?f = "a div PAGE_SIZE"
    from True have al: "a mod PAGE_SIZE = 0" and np: "\<not> pmm_is_protected s a"
      and s': "snd (pmm_free_frame a s) = s\<lparr>frame_bitmap := fb_mark_free (frame_bitmap s) ?f\<rparr>"
      by (auto simp: pmm_free_frame_def Let_def split: if_splits)
    have "?f * PAGE_SIZE = a" using al by (metis div_mult_mod_eq add.right_neutral)
    with np ok show ?thesis unfolding s'
      by (auto simp: pmm_ok_def pmm_inv_def base_protected_def pmm_is_protected_def fb_test_mark_free)
  next
    case False
    then have "snd (pmm_free_frame a s) = s"
      by (auto simp: pmm_free_frame_def Let_def split: if_splits)
    with ok show ?thesis by simp
  qed
qed

text \<open>The states the running kernel reaches from \<open>pmm_init\<close> by \<open>allocpage\<close> and \<open>freepage\<close>.\<close>

inductive pmm_reach :: "pmm \<Rightarrow> pmm \<Rightarrow> bool" for s0 where
  start: "pmm_reach s0 s0"
| alloc: "pmm_reach s0 s \<Longrightarrow> pmm_reach s0 (snd (pmm_alloc_frame s))"
| free: "pmm_reach s0 s \<Longrightarrow> pmm_reach s0 (snd (pmm_free_frame a s))"

lemma pmm_reach_ok: "pmm_reach s0 s \<Longrightarrow> pmm_ok s0 \<Longrightarrow> pmm_ok s"
  by (induction rule: pmm_reach.induct) (auto intro: pmm_alloc_ok pmm_free_ok)

lemma pmm_alloc_keeps:
  "prot (snd (pmm_alloc_frame s)) = prot s" "total_frames (snd (pmm_alloc_frame s)) = total_frames s"
  by (auto simp: pmm_alloc_frame_def Let_def split: prod.splits)

lemma pmm_free_keeps:
  "prot (snd (pmm_free_frame a s)) = prot s" "total_frames (snd (pmm_free_frame a s)) = total_frames s"
  by (auto simp: pmm_free_frame_def Let_def)

lemma pmm_reach_keeps: "pmm_reach s0 s \<Longrightarrow> prot s = prot s0 \<and> total_frames s = total_frames s0"
  by (induction rule: pmm_reach.induct) (auto simp: pmm_alloc_keeps pmm_free_keeps)

lemma pmm_init_frames:
  assumes "mba \<noteq> 0" "mbi = read_mbi m mba" "mbi_flags mbi AND MB_FLAG_MMAP \<noteq> 0"
    and "entries_at m (mbi_mmap_addr mbi) (mbi_mmap_addr mbi + mbi_mmap_length mbi) es"
    and "below_4g es"
    and "rs = boot_ranges kstart kend mba (mbi_mmap_addr mbi) (mbi_mmap_length mbi)" "ranges_fit rs"
  obtains s' where "pmm_init m kstart kend MULTIBOOT_BOOTLOADER_MAGIC mba s = Some s'"
    "unat (total_frames s') = highest_end es 0 div 4096"
    "mmap_addr_saved s' = mbi_mmap_addr mbi" "mmap_len_saved s' = mbi_mmap_length mbi"
    "\<forall>f < total_frames s'. \<not> fb_test (frame_bitmap s') f \<longleftrightarrow>
        (\<exists>e \<in> set es. entry_frame e f) \<and> \<not> (\<exists>r \<in> set rs. frame_in_range r f)"
proof -
  obtain bm highest ub where fold: "fold mmap_step es (fb_init (frame_bitmap s) MAX_FRAMES, 0, 0) =
      (bm, highest, ub)" by (metis prod_cases3)
  obtain t where t: "frame_bitmap t = bm" "mmap_addr_saved t = mbi_mmap_addr mbi"
      "mmap_len_saved t = mbi_mmap_length mbi"
    and init: "pmm_init m kstart kend MULTIBOOT_BOOTLOADER_MAGIC mba s =
      Some (pmm_finish kstart kend mba t highest)"
    using pmm_init_mmap [OF assms(1-4) fold, of kstart kend] by metis
  let ?s' = "pmm_finish kstart kend mba t highest"
  from mmap_fold_below_4g [OF assms(5) fold] have top: "unat highest = highest_end es 0"
    and bits: "\<forall>g < MAX_FRAMES. fb_test bm g \<longleftrightarrow>
      fb_test (fb_init (frame_bitmap s) MAX_FRAMES) g \<and> \<not> (\<exists>e \<in> set es. entry_frame e g)"
    by auto
  have tot: "total_frames ?s' = clamp_frames highest" by (simp add: pmm_finish_reserve)
  have "unat highest div 4096 < 2 ^ 20" using unat_u32_less [of highest] by simp
  then have "clamp_frames highest = highest div PAGE_SIZE"
    by (simp add: clamp_frames_def pmm_consts word_less_nat_alt unat_div)
  then have "unat (total_frames ?s') = highest_end es 0 div 4096"
    using tot top by (simp add: pmm_consts unat_div)
  moreover have "\<not> fb_test (frame_bitmap ?s') f \<longleftrightarrow>
      (\<exists>e \<in> set es. entry_frame e f) \<and> \<not> (\<exists>r \<in> set rs. frame_in_range r f)"
    if f: "f < total_frames ?s'" for f
  proof -
    have "f < MAX_FRAMES" using f tot clamp_frames_le [of highest] by simp
    moreover from this have "fb_test (fb_init (frame_bitmap s) MAX_FRAMES) f"
      by (intro fb_init_used) (simp_all add: pmm_consts)
    ultimately have "fb_test bm f \<longleftrightarrow> \<not> (\<exists>e \<in> set es. entry_frame e f)" using bits by blast
    then show ?thesis
      using f tot assms(6,7) t unfolding pmm_finish_reserve
      by (subst fold_reserve_test) auto
  qed
  moreover have "mmap_addr_saved ?s' = mbi_mmap_addr mbi" "mmap_len_saved ?s' = mbi_mmap_length mbi"
    unfolding pmm_finish_def Let_def using t by simp_all
  ultimately show thesis using init that by blast
qed

section \<open>An example boot\<close>

text \<open>
  A loader's memory: the information structure at \<open>0x9000\<close> and one available entry
  from 1 MiB, 2 MiB long, at \<open>0x9100\<close>.
\<close>

definition boot_words :: "(u32 \<times> u32) list" where
  "boot_words = [(0x9000, 0x40), (0x902C, 24), (0x9030, 0x9100),
     (0x9100, 20), (0x9104, 0x100000), (0x9108, 0), (0x910C, 0x200000), (0x9110, 0), (0x9114, 1)]"

definition boot_mem :: mem where
  "boot_mem = fold (\<lambda>(a, v) m. wr32 m a v) boot_words (\<lambda>_. 0)"

lemma boot_mbi: "read_mbi boot_mem 0x9000 =
   \<lparr>mbi_flags = 0x40, mbi_mem_lower = 0, mbi_mem_upper = 0, mbi_mmap_length = 24,
    mbi_mmap_addr = 0x9100\<rparr>"
  by code_simp

lemma boot_entry: "read_entry boot_mem 0x9100 =
   \<lparr>e_size = 20, e_addr = 0x100000, e_len = 0x200000, e_type = 1\<rparr>"
  by code_simp

text \<open>The zeroed static variables of the freshly loaded kernel.\<close>

definition pmm_bss :: pmm where
  "pmm_bss = \<lparr>frame_bitmap = (\<lambda>_. 0), total_frames = 0, usable_frames = 0, reserved_frames = 0,
     usable_bytes = 0, mem_lower_kb = 0, mem_upper_kb = 0, mmap_addr_saved = 0,
     mmap_len_saved = 0, have_map = False, prot = []\<rparr>"

definition boot_entry1 :: mmap_entry where
  "boot_entry1 = \<lparr>e_size = 20, e_addr = 0x100000, e_len = 0x200000, e_type = 1\<rparr>"

lemma boot_entries: "entries_at boot_mem 0x9100 (0x9100 + 24) [boot_entry1]"
  by (simp add: boot_entry boot_entry1_def)

lemma boot_entry_below: "below_4g [boot_entry1]"
  by (simp add: below_4g_def entry_end_def boot_entry1_def)

lemma boot_entry_starts: "page_starts [boot_entry1]"
  by (simp add: page_starts_def boot_entry1_def)

lemma boot_ranges_fit: "ranges_fit (boot_ranges 0x100000 0x140000 0x9000 0x9100 24)"
  by (simp add: ranges_fit_def boot_ranges_def pmm_consts sizeof_multiboot_info_def)

lemma boot_state:
  obtains s0 where "pmm_init boot_mem 0x100000 0x140000 MULTIBOOT_BOOTLOADER_MAGIC 0x9000 pmm_bss = Some s0"
    "mmap_addr_saved s0 = 0x9100" "mmap_len_saved s0 = 24"
    "unat (total_frames s0) = 0x300" "\<not> fb_test (frame_bitmap s0) 0x140"
proof -
  let ?rs = "boot_ranges 0x100000 0x140000 0x9000 0x9100 24"
  obtain s' where s': "pmm_init boot_mem 0x100000 0x140000 MULTIBOOT_BOOTLOADER_MAGIC 0x9000 pmm_bss = Some s'"
    "unat (total_frames s') = highest_end [boot_entry1] 0 div 4096"
    "mmap_addr_saved s' = 0x9100" "mmap_len_saved s' = 24"
    and fr: "\<forall>f < total_frames s'. \<not> fb_test (frame_bitmap s') f \<longleftrightarrow>
        (\<exists>e \<in> set [boot_entry1]. entry_frame e f) \<and> \<not> (\<exists>r \<in> set ?rs. frame_in_range r f)"
    using pmm_init_frames [of "0x9000" "read_mbi boot_mem 0x9000" boot_mem "[boot_entry1]" ?rs
        "0x100000" "0x140000" pmm_bss] boot_entries boot_entry_below boot_ranges_fit
    by (auto simp: boot_mbi MB_FLAG_MMAP_def)
  have tot: "unat (total_frames s') = 0x300"
    using s'(2)
    by (simp add: highest_end_def available_def MB_MEMORY_AVAILABLE_def entry_end_def boot_entry1_def)
  have "\<not> fb_test (frame_bitmap s') 0x140"
    using fr [rule_format, of "0x140"] tot
    by (simp add: word_less_nat_alt entry_frame_def available_def MB_MEMORY_AVAILABLE_def
        entry_end_def boot_ranges_def frame_in_range_def pmm_consts boot_entry1_def
        sizeof_multiboot_info_def)
  with s' tot that show thesis by blast
qed

text \<open>A manager of 3 MiB, all in use, whose loader structure is not page-aligned.\<close>

definition unaligned_state :: pmm where
  "unaligned_state = pmm_bss\<lparr>frame_bitmap := (\<lambda>_. 0xFF), total_frames := 0x300,
     prot := [(0, LOW_MEMORY), (0x150010, 0x150040)]\<rparr>"

lemma all_used: "fb_test (\<lambda>_. 0xFF) f"
  by (simp only: fb_test_bit bit_255)

lemma unaligned_state_ok: "pmm_ok unaligned_state"
  by (auto simp: pmm_ok_def pmm_inv_def base_protected_def unaligned_state_def all_used pmm_consts)

text \<open>A loader's memory whose only entry starts at 1 MiB and ends at 4 GiB.\<close>

definition high_mem :: mem where
  "high_mem = wr32 boot_mem 0x910C 0xFFF00000"

definition high_entry :: mmap_entry where
  "high_entry = \<lparr>e_size = 20, e_addr = 0x100000, e_len = 0xFFF00000, e_type = 1\<rparr>"

lemma high_mbi: "read_mbi high_mem 0x9000 =
   \<lparr>mbi_flags = 0x40, mbi_mem_lower = 0, mbi_mem_upper = 0, mbi_mmap_length = 24,
    mbi_mmap_addr = 0x9100\<rparr>"
  by code_simp

lemma high_entry_read: "read_entry high_mem 0x9100 = high_entry"
  by code_simp

lemma alloc_some_frame:
  assumes "pmm_ok s" "f < total_frames s" "\<not> fb_test (frame_bitmap s) f"
  obtains p s' where "pmm_alloc_frame s = (p, s')" "p \<noteq> 0"
proof -
  have "pmm_inv s" using assms(1) by (simp add: pmm_ok_def)
  from this pmm_ok_frame0 [OF assms(1)] show thesis
  proof (cases rule: pmm_alloc_cases)
    case full
    with assms show thesis by blast
  next
    case (got g)
    with that show thesis by blast
  qed
qed

section \<open>Correctness of the physical memory manager\<close>

text \<open>
  C9: with a well-formed memory map whose available ranges start on page boundaries and end
  below 4 GiB, \<open>pmm_init\<close> returns, covers the memory up to the highest available address, and a
  frame is free exactly when all of its bytes are in some available entry and none of the reserved
  ranges (first MiB, kernel image, Multiboot information, memory map) touches it.
\<close>

theorem pmm_init_free_frames:
  assumes "mba \<noteq> 0" "mbi = read_mbi m mba" "mbi_flags mbi AND MB_FLAG_MMAP \<noteq> 0"
    and "entries_at m (mbi_mmap_addr mbi) (mbi_mmap_addr mbi + mbi_mmap_length mbi) es"
    and "below_4g es" "page_starts es"
    and "rs = boot_ranges kstart kend mba (mbi_mmap_addr mbi) (mbi_mmap_length mbi)" "ranges_fit rs"
  shows "\<exists>s'. pmm_init m kstart kend MULTIBOOT_BOOTLOADER_MAGIC mba s = Some s' \<and>
     unat (total_frames s') = highest_end es 0 div 4096 \<and>
     (\<forall>f < total_frames s'. \<not> fb_test (frame_bitmap s') f \<longleftrightarrow>
        (\<exists>e \<in> set es. whole_frame e f) \<and> \<not> (\<exists>r \<in> set rs. frame_in_range r f))"
proof -
  have "(\<exists>e \<in> set es. entry_frame e f) \<longleftrightarrow> (\<exists>e \<in> set es. whole_frame e f)" for f
    using entry_frame_whole [OF assms(6)] by blast
  moreover obtain s' where "pmm_init m kstart kend MULTIBOOT_BOOTLOADER_MAGIC mba s = Some s'"
    "unat (total_frames s') = highest_end es 0 div 4096"
    "mmap_addr_saved s' = mbi_mmap_addr mbi" "mmap_len_saved s' = mbi_mmap_length mbi"
    "\<forall>f < total_frames s'. \<not> fb_test (frame_bitmap s') f \<longleftrightarrow>
        (\<exists>e \<in> set es. entry_frame e f) \<and> \<not> (\<exists>r \<in> set rs. frame_in_range r f)"
    by (rule pmm_init_frames [OF assms(1-5,7,8)])
  ultimately show ?thesis by (intro exI [of _ s']) simp
qed

theorem pmm_init_free_frames_witness:
  "\<exists>s'. pmm_init boot_mem 0x100000 0x140000 MULTIBOOT_BOOTLOADER_MAGIC 0x9000 pmm_bss = Some s' \<and>
     unat (total_frames s') = 0x300 \<and> \<not> fb_test (frame_bitmap s') 0x140 \<and>
     fb_test (frame_bitmap s') 0x100"
proof -
  let ?rs = "boot_ranges 0x100000 0x140000 0x9000 0x9100 24"
  obtain s' where s': "pmm_init boot_mem 0x100000 0x140000 MULTIBOOT_BOOTLOADER_MAGIC 0x9000 pmm_bss = Some s'"
    "unat (total_frames s') = highest_end [boot_entry1] 0 div 4096"
    "\<forall>f < total_frames s'. \<not> fb_test (frame_bitmap s') f \<longleftrightarrow>
        (\<exists>e \<in> set [boot_entry1]. whole_frame e f) \<and> \<not> (\<exists>r \<in> set ?rs. frame_in_range r f)"
    using pmm_init_free_frames [of "0x9000" "read_mbi boot_mem 0x9000" boot_mem "[boot_entry1]" ?rs
        "0x100000" "0x140000" pmm_bss] boot_entries boot_entry_below boot_entry_starts boot_ranges_fit
    by (auto simp: boot_mbi MB_FLAG_MMAP_def)
  have tot: "unat (total_frames s') = 0x300"
    using s'(2)
    by (simp add: highest_end_def available_def MB_MEMORY_AVAILABLE_def entry_end_def boot_entry1_def)
  have "\<not> fb_test (frame_bitmap s') 0x140" "fb_test (frame_bitmap s') 0x100"
    using s'(3) [rule_format, of "0x140"] s'(3) [rule_format, of "0x100"] tot
    by (simp_all add: word_less_nat_alt whole_frame_def available_def MB_MEMORY_AVAILABLE_def
        entry_end_def boot_ranges_def frame_in_range_def pmm_consts boot_entry1_def
        sizeof_multiboot_info_def)
  with s'(1) tot show ?thesis by blast
qed

text \<open>
  The page boundary matters: of an available range that starts in the middle of a page, the frame
  of that page is free although its first half is not available.
\<close>

definition odd_words :: "(u32 \<times> u32) list" where
  "odd_words = [(0x9000, 0x40), (0x902C, 24), (0x9030, 0x9100),
     (0x9100, 20), (0x9104, 0x150800), (0x9108, 0), (0x910C, 0x10800), (0x9110, 0), (0x9114, 1)]"

definition odd_mem :: mem where
  "odd_mem = fold (\<lambda>(a, v) m. wr32 m a v) odd_words (\<lambda>_. 0)"

definition odd_entry :: mmap_entry where
  "odd_entry = \<lparr>e_size = 20, e_addr = 0x150800, e_len = 0x10800, e_type = 1\<rparr>"

lemma odd_reads:
  "read_mbi odd_mem 0x9000 = \<lparr>mbi_flags = 0x40, mbi_mem_lower = 0, mbi_mem_upper = 0, mbi_mmap_length = 24, mbi_mmap_addr = 0x9100\<rparr>"
  "read_entry odd_mem 0x9100 = \<lparr>e_size = 20, e_addr = 0x150800, e_len = 0x10800, e_type = 1\<rparr>"
  by code_simp+

lemma partial_frame_is_free:
  "\<exists>s'. pmm_init odd_mem 0x100000 0x140000 MULTIBOOT_BOOTLOADER_MAGIC 0x9000 pmm_bss = Some s' \<and>
     \<not> fb_test (frame_bitmap s') 0x150 \<and> \<not> whole_frame odd_entry 0x150"
proof -
  let ?mbi = "read_mbi odd_mem 0x9000"
  let ?rs = "boot_ranges 0x100000 0x140000 0x9000 (mbi_mmap_addr ?mbi) (mbi_mmap_length ?mbi)"
  have "read_entry odd_mem 0x9100 = odd_entry" by (simp add: odd_reads odd_entry_def)
  then have entries: "entries_at odd_mem (mbi_mmap_addr ?mbi) (mbi_mmap_addr ?mbi + mbi_mmap_length ?mbi) [odd_entry]"
    by (simp add: odd_reads(1)) (simp add: odd_entry_def)
  have below: "below_4g [odd_entry]" by (simp add: below_4g_def entry_end_def odd_entry_def)
  have mbi: "(0x9000 :: u32) \<noteq> 0" "mbi_flags ?mbi AND MB_FLAG_MMAP \<noteq> 0" "?rs = boot_ranges 0x100000 0x140000 0x9000 0x9100 24"
    by (simp_all add: odd_reads(1) MB_FLAG_MMAP_def)
  obtain s' where s': "pmm_init odd_mem 0x100000 0x140000 MULTIBOOT_BOOTLOADER_MAGIC 0x9000 pmm_bss = Some s'"
    "unat (total_frames s') = highest_end [odd_entry] 0 div 4096"
    "mmap_addr_saved s' = mbi_mmap_addr ?mbi" "mmap_len_saved s' = mbi_mmap_length ?mbi"
    and fr: "\<forall>f < total_frames s'. \<not> fb_test (frame_bitmap s') f \<longleftrightarrow>
        (\<exists>e \<in> set [odd_entry]. entry_frame e f) \<and> \<not> (\<exists>r \<in> set ?rs. frame_in_range r f)"
    by (rule pmm_init_frames [OF mbi(1) refl mbi(2) entries below refl boot_ranges_fit [folded mbi(3)]])
  have "unat (total_frames s') = 0x161"
    using s'(2) by (simp add: highest_end_def available_def MB_MEMORY_AVAILABLE_def entry_end_def odd_entry_def)
  then have "\<not> fb_test (frame_bitmap s') 0x150"
    using fr [rule_format, of "0x150"] unfolding mbi(3)
    by (simp add: word_less_nat_alt entry_frame_def available_def MB_MEMORY_AVAILABLE_def
        entry_end_def boot_ranges_def frame_in_range_def pmm_consts odd_entry_def sizeof_multiboot_info_def)
  moreover have "\<not> whole_frame odd_entry 0x150" by (simp add: whole_frame_def odd_entry_def)
  ultimately show ?thesis using s'(1) by blast
qed

text \<open>
  whatever the boot information is, after \<open>pmm_init\<close> the frames counted as used
  are exactly the reserved ones: reserving moves frames from free to reserved and
  nothing else is in use.
\<close>

theorem pmm_init_used_is_reserved:
  assumes "pmm_init m kstart kend magic mba s = Some s'"
  shows "pmm_used_frames s' = reserved_frames s'"
  using pmm_init_reserved [OF assms] by (simp add: pmm_used_frames_def algebra_simps)

theorem pmm_init_used_is_reserved_witness:
  "pmm_used_frames (pmm_reset pmm_bss) = reserved_frames (pmm_reset pmm_bss)"
  by (rule pmm_init_used_is_reserved [of "\<lambda>_. 0" 0 0 0 0 pmm_bss])
    (simp add: pmm_init_def MULTIBOOT_BOOTLOADER_MAGIC_def)

text \<open>
  C10: in every state reached from \<open>pmm_init\<close> by allocations and releases of any
  addresses, an allocated frame is page-aligned, inside the managed memory, was free
  and is now used, and does not overlap the first MiB, the kernel image or any other
  reserved range that starts on a page boundary.
\<close>

theorem pmm_alloc_frame_safe:
  assumes "pmm_init m kstart kend magic mba s = Some s0"
    and "ranges_fit (boot_ranges kstart kend mba (mmap_addr_saved s0) (mmap_len_saved s0))"
    and "pmm_reach s0 s1" "pmm_alloc_frame s1 = (p, s2)" "p \<noteq> 0"
  shows "p mod PAGE_SIZE = 0 \<and> p div PAGE_SIZE < total_frames s1 \<and>
     \<not> fb_test (frame_bitmap s1) (p div PAGE_SIZE) \<and>
     s2 = s1\<lparr>frame_bitmap := fb_mark_used (frame_bitmap s1) (p div PAGE_SIZE)\<rparr> \<and>
     (\<forall>(a, b) \<in> set (prot s0). a mod PAGE_SIZE = 0 \<longrightarrow> unat p + 4096 \<le> unat a \<or> unat b \<le> unat p)"
proof -
  have ok: "pmm_ok s1" by (rule pmm_reach_ok [OF assms(3) pmm_init_ok [OF assms(1,2)]])
  then have inv: "pmm_inv s1" by (simp add: pmm_ok_def)
  from inv pmm_ok_frame0 [OF ok] show ?thesis
  proof (cases rule: pmm_alloc_cases)
    case full
    then show ?thesis using assms(4,5) by simp
  next
    case (got f)
    then have p: "p = f * PAGE_SIZE" and s2: "s2 = s1\<lparr>frame_bitmap := fb_mark_used (frame_bitmap s1) f\<rparr>"
      using assms(4) by auto
    note fa = frame_address [OF got(1) inv]
    have far: "unat p + 4096 \<le> unat a \<or> unat b \<le> unat p"
      if ab: "(a, b) \<in> set (prot s0)" and al: "a mod PAGE_SIZE = 0" for a b
    proof (rule ccontr)
      assume no: "\<not> ?thesis"
      have "unat (a mod PAGE_SIZE) = 0" using al by simp
      then have "unat a mod 4096 = 0" by (simp add: pmm_consts unat_mod)
      then obtain k where "unat a = 4096 * k" by (auto elim: dvdE)
      moreover from this have "k \<le> unat f" using no fa(1) unfolding p by linarith
      ultimately have "frame_in_range (a, b) f"
        using no fa(1) unfolding p frame_in_range_def word_less_nat_alt by auto
      then have "a \<le> f * PAGE_SIZE \<and> f * PAGE_SIZE < b"
        using aligned_range_base [OF inv got(1) _ al] by blast
      then have "pmm_is_protected s1 (f * PAGE_SIZE)"
        using ab pmm_reach_keeps [OF assms(3)] by (auto simp: protected_iff)
      then show False using ok got(1,2) by (simp add: pmm_ok_def base_protected_def)
    qed
    have "\<forall>(a, b) \<in> set (prot s0). a mod PAGE_SIZE = 0 \<longrightarrow> unat p + 4096 \<le> unat a \<or> unat b \<le> unat p"
      by (intro ballI) (simp only: split_def, intro impI far, simp_all only: prod.collapse)
    then show ?thesis using got(1,2) s2 fa(2,3) unfolding p by simp
  qed
qed

theorem pmm_alloc_frame_safe_witness:
  "\<exists>s0 p s2. pmm_init boot_mem 0x100000 0x140000 MULTIBOOT_BOOTLOADER_MAGIC 0x9000 pmm_bss = Some s0 \<and>
     pmm_alloc_frame s0 = (p, s2) \<and> p \<noteq> 0 \<and> p mod PAGE_SIZE = 0 \<and>
     p div PAGE_SIZE < total_frames s0"
proof -
  obtain s0 where s0: "pmm_init boot_mem 0x100000 0x140000 MULTIBOOT_BOOTLOADER_MAGIC 0x9000 pmm_bss = Some s0"
    "mmap_addr_saved s0 = 0x9100" "mmap_len_saved s0 = 24"
    "unat (total_frames s0) = 0x300" "\<not> fb_test (frame_bitmap s0) 0x140" by (rule boot_state)
  have fit: "ranges_fit (boot_ranges 0x100000 0x140000 0x9000 (mmap_addr_saved s0) (mmap_len_saved s0))"
    unfolding s0(2,3) by (rule boot_ranges_fit)
  obtain p s2 where al: "pmm_alloc_frame s0 = (p, s2)" "p \<noteq> 0"
    using alloc_some_frame [OF pmm_init_ok [OF s0(1) fit], of "0x140"] s0(4,5)
    by (auto simp: word_less_nat_alt)
  have "p mod PAGE_SIZE = 0" "p div PAGE_SIZE < total_frames s0"
    using pmm_alloc_frame_safe [OF s0(1) fit pmm_reach.start al] by simp_all
  with s0(1) al show ?thesis by metis
qed

lemma alloc_then_free:
  assumes "pmm_ok s" "pmm_alloc_frame s = (p, s1)" "p \<noteq> 0"
  shows "\<exists>s2. pmm_free_frame p s1 = (0, s2) \<and>
     (\<forall>g. fb_test (frame_bitmap s2) g = fb_test (frame_bitmap s) g) \<and>
     pmm_free_frames s1 + 1 = pmm_free_frames s \<and> pmm_free_frames s2 = pmm_free_frames s \<and>
     pmm_free_frame p s2 = (-3, s2)"
proof -
  have inv: "pmm_inv s" using assms(1) by (simp add: pmm_ok_def)
  from inv pmm_ok_frame0 [OF assms(1)] show ?thesis
  proof (cases rule: pmm_alloc_cases)
    case full
    then show ?thesis using assms(2,3) by simp
  next
    case (got f)
    then have p: "p = f * PAGE_SIZE" and s1: "s1 = s\<lparr>frame_bitmap := fb_mark_used (frame_bitmap s) f\<rparr>"
      using assms(2) by auto
    note fa = frame_address [OF got(1) inv]
    have np: "\<not> pmm_is_protected s (f * PAGE_SIZE)"
      using assms(1) got(1,2) by (auto simp: pmm_ok_def base_protected_def)
    let ?s2 = "s1\<lparr>frame_bitmap := fb_mark_free (frame_bitmap s1) f\<rparr>"
    have "pmm_free_frame p s1 = (0, ?s2)"
      using np got(1) fa(2,3)
      by (simp add: pmm_free_frame_def p s1 Let_def pmm_is_protected_def fb_test_mark_used)
    moreover have "pmm_free_frame p ?s2 = (-3, ?s2)"
      using np got(1) fa(2,3)
      by (simp add: pmm_free_frame_def p s1 Let_def pmm_is_protected_def fb_test_mark_free)
    moreover have "fb_test (frame_bitmap ?s2) g = fb_test (frame_bitmap s) g" for g
      using got(2) by (auto simp: s1 fb_test_mark_free fb_test_mark_used)
    moreover have "pmm_free_frames s1 + 1 = pmm_free_frames s"
      using fb_count_free_mark_used [OF got(1,2)] by (simp add: s1 pmm_free_frames_def)
    moreover have "pmm_free_frames ?s2 = pmm_free_frames s1 + 1"
      using fb_count_free_mark_free [of f "total_frames s" "frame_bitmap s1"] got(1)
      by (simp add: s1 pmm_free_frames_def fb_test_mark_used)
    ultimately show ?thesis by metis
  qed
qed

text \<open>
  C11: an allocated frame can be given back exactly once: \<open>pmm_free_frame\<close> accepts it
  and restores every frame's status and the free count; a second release is refused
  with -3 and changes nothing.
\<close>

theorem pmm_alloc_free_roundtrip:
  assumes "pmm_ok s" "pmm_alloc_frame s = (p, s1)" "p \<noteq> 0"
  shows "\<exists>s2. pmm_free_frame p s1 = (0, s2) \<and>
     (\<forall>g. fb_test (frame_bitmap s2) g = fb_test (frame_bitmap s) g) \<and>
     pmm_free_frames s1 + 1 = pmm_free_frames s \<and> pmm_free_frames s2 = pmm_free_frames s \<and>
     pmm_free_frame p s2 = (-3, s2)"
  using assms by (rule alloc_then_free)

theorem pmm_alloc_free_roundtrip_witness:
  "\<exists>s0 p s1 s2. pmm_init boot_mem 0x100000 0x140000 MULTIBOOT_BOOTLOADER_MAGIC 0x9000 pmm_bss = Some s0 \<and>
     pmm_alloc_frame s0 = (p, s1) \<and> p \<noteq> 0 \<and> pmm_free_frame p s1 = (0, s2) \<and>
     pmm_free_frame p s2 = (-3, s2)"
proof -
  obtain s0 where s0: "pmm_init boot_mem 0x100000 0x140000 MULTIBOOT_BOOTLOADER_MAGIC 0x9000 pmm_bss = Some s0"
    "mmap_addr_saved s0 = 0x9100" "mmap_len_saved s0 = 24"
    "unat (total_frames s0) = 0x300" "\<not> fb_test (frame_bitmap s0) 0x140" by (rule boot_state)
  have "ranges_fit (boot_ranges 0x100000 0x140000 0x9000 (mmap_addr_saved s0) (mmap_len_saved s0))"
    unfolding s0(2,3) by (rule boot_ranges_fit)
  with s0(1) have ok: "pmm_ok s0" by (rule pmm_init_ok)
  obtain p s1 where al: "pmm_alloc_frame s0 = (p, s1)" "p \<noteq> 0"
    using alloc_some_frame [OF ok, of "0x140"] s0(4,5) by (auto simp: word_less_nat_alt)
  from pmm_alloc_free_roundtrip [OF ok al] s0(1) al show ?thesis by blast
qed

text \<open>
  the release check looks only at the frame's base address. A frame whose
  reserved range starts inside it (an unaligned Multiboot structure) is marked used
  by \<open>reserve_range\<close>, yet \<open>pmm_free_frame\<close> accepts it and makes it allocatable.
\<close>

theorem pmm_free_frame_unaligned_range:
  assumes "pmm_ok s" "(a, b) \<in> set (prot s)" "a < b" "f = a div PAGE_SIZE" "f < total_frames s"
    and "\<not> pmm_is_protected s (f * PAGE_SIZE)" "fb_test (frame_bitmap s) f"
  shows "frame_in_range (a, b) f \<and>
     pmm_free_frame (f * PAGE_SIZE) s = (0, s\<lparr>frame_bitmap := fb_mark_free (frame_bitmap s) f\<rparr>)"
proof -
  have inv: "pmm_inv s" using assms(1) by (simp add: pmm_ok_def)
  note fa = frame_address [OF assms(5) inv]
  have "unat f = unat a div 4096" unfolding assms(4) by (simp add: pmm_consts unat_div)
  then have "frame_in_range (a, b) f"
    using assms(3) by (auto simp: frame_in_range_def word_less_nat_alt)
  with fa assms(5-7) show ?thesis by (simp add: pmm_free_frame_def Let_def)
qed

theorem pmm_free_frame_unaligned_range_witness:
  "frame_in_range (0x150010, 0x150040) 0x150 \<and> fst (pmm_free_frame 0x150000 unaligned_state) = 0"
  using pmm_free_frame_unaligned_range [of unaligned_state "0x150010" "0x150040" "0x150"]
    unaligned_state_ok
  by (simp add: unaligned_state_def pmm_consts pmm_is_protected_def all_used)

text \<open>
  an available range that reaches 4 GiB disables the manager: if it is the last
  available entry, \<open>pmm_init\<close> leaves \<open>total_frames = 0\<close> and every allocation fails.
\<close>

theorem pmm_init_4g_inactive:
  assumes "mba \<noteq> 0" "mbi = read_mbi m mba" "mbi_flags mbi AND MB_FLAG_MMAP \<noteq> 0"
    and "entries_at m (mbi_mmap_addr mbi) (mbi_mmap_addr mbi + mbi_mmap_length mbi) (es @ [e])"
    and "available e" "4294967296 \<le> entry_end e" "entry_end e < 2 ^ 64"
  shows "\<exists>s'. pmm_init m kstart kend MULTIBOOT_BOOTLOADER_MAGIC mba s = Some s' \<and>
     total_frames s' = 0 \<and> pmm_alloc_frame s' = (0, s')"
proof -
  obtain bm highest ub where fold: "fold mmap_step (es @ [e]) (fb_init (frame_bitmap s) MAX_FRAMES, 0, 0) =
      (bm, highest, ub)" by (metis prod_cases3)
  have "highest = 0"
    using mmap_step_at_4g [OF assms(5-7), of "fold mmap_step es (fb_init (frame_bitmap s) MAX_FRAMES, 0, 0)"]
      fold by simp
  moreover obtain t where "pmm_init m kstart kend MULTIBOOT_BOOTLOADER_MAGIC mba s =
      Some (pmm_finish kstart kend mba t highest)"
    using pmm_init_mmap [OF assms(1-4) fold, of kstart kend] by metis
  moreover have "total_frames (pmm_finish kstart kend mba t 0) = 0"
    by (simp add: pmm_finish_reserve clamp_frames_def)
  ultimately show ?thesis by (simp add: pmm_alloc_frame_def)
qed

theorem pmm_init_4g_inactive_witness:
  "\<exists>s'. pmm_init high_mem 0x100000 0x140000 MULTIBOOT_BOOTLOADER_MAGIC 0x9000 pmm_bss = Some s' \<and>
     total_frames s' = 0 \<and> pmm_alloc_frame s' = (0, s')"
  using pmm_init_4g_inactive [of "0x9000" "read_mbi high_mem 0x9000" high_mem "[]" high_entry]
  by (simp add: high_mbi MB_FLAG_MMAP_def high_entry_read available_def MB_MEMORY_AVAILABLE_def
      entry_end_def high_entry_def)

end
