(* ===== verification/Kheap.thy ===== *)
theory Kheap
  imports Thuos_Prelude
begin

text \<open>
  The kernel heap (\<open>kernel/mm/kheap_core.c\<close>, \<open>kheap.c\<close>) over byte-addressed memory.
  Block headers are 16 bytes (\<open>size\<close>, \<open>next\<close>, \<open>free\<close>, \<open>magic\<close>) inside the arena; the
  loops over the intrusive list are \<open>partial_function (option)\<close>, with \<open>None\<close> for a walk
  that does not end (a cyclic list). The specification is a list of blocks in address
  order; the lemmas show that the pointer code implements it.
\<close>

section \<open>Block headers\<close>

definition KH_MAGIC :: u32 where "KH_MAGIC = 0x4B484541"
definition KH_ALIGN :: u32 where "KH_ALIGN = 8"
definition HDR :: u32 where "HDR = 16"

definition b_size :: "mem \<Rightarrow> u32 \<Rightarrow> u32" where "b_size m b = rd32 m b"
definition b_next :: "mem \<Rightarrow> u32 \<Rightarrow> u32" where "b_next m b = rd32 m (b + 4)"
definition b_free :: "mem \<Rightarrow> u32 \<Rightarrow> u32" where "b_free m b = rd32 m (b + 8)"
definition b_magic :: "mem \<Rightarrow> u32 \<Rightarrow> u32" where "b_magic m b = rd32 m (b + 12)"

definition set_size :: "u32 \<Rightarrow> u32 \<Rightarrow> mem \<Rightarrow> mem" where "set_size b v m = wr32 m b v"
definition set_next :: "u32 \<Rightarrow> u32 \<Rightarrow> mem \<Rightarrow> mem" where "set_next b v m = wr32 m (b + 4) v"
definition set_free :: "u32 \<Rightarrow> u32 \<Rightarrow> mem \<Rightarrow> mem" where "set_free b v m = wr32 m (b + 8) v"
definition set_magic :: "u32 \<Rightarrow> u32 \<Rightarrow> mem \<Rightarrow> mem" where "set_magic b v m = wr32 m (b + 12) v"

definition align_up :: "u32 \<Rightarrow> u32 \<Rightarrow> u32" where
  "align_up v a = (v + (a - 1)) AND NOT (a - 1)"

definition ualign_up :: "u32 \<Rightarrow> u32 \<Rightarrow> u32" where
  "ualign_up v a = (v + (a - 1)) AND NOT (a - 1)"

fun kh_memcpy_loop :: "u32 \<Rightarrow> u32 \<Rightarrow> u32 \<Rightarrow> nat \<Rightarrow> mem \<Rightarrow> mem" where
  "kh_memcpy_loop d s i 0 m = m"
| "kh_memcpy_loop d s i (Suc n) m = kh_memcpy_loop d s (i + 1) n (m(d + i := m (s + i)))"

definition kh_memcpy :: "u32 \<Rightarrow> u32 \<Rightarrow> u32 \<Rightarrow> mem \<Rightarrow> mem" where
  "kh_memcpy d s n m = kh_memcpy_loop d s 0 (unat n) m"

section \<open>The allocator (kheap_core.c)\<close>

record kheap =
  hp_base :: u32
  hp_size :: u32
  hp_head :: u32

definition heap_init :: "u32 \<Rightarrow> u32 \<Rightarrow> mem \<Rightarrow> kheap \<times> mem" where
  "heap_init arena sz m =
     (let start = ualign_up arena KH_ALIGN;
          adj = start - arena;
          h = \<lparr>hp_base = arena, hp_size = sz, hp_head = 0\<rparr>
      in if sz < adj + HDR + KH_ALIGN then (h, m)
         else (h\<lparr>hp_head := start\<rparr>,
               (set_magic start KH_MAGIC \<circ> set_free start 1 \<circ> set_next start 0 \<circ>
                set_size start (sz - adj - HDR)) m))"

text \<open>The body of the search loop on a block that fits: split it or take it whole.\<close>

definition take_block :: "u32 \<Rightarrow> u32 \<Rightarrow> mem \<Rightarrow> mem" where
  "take_block b sz m =
     set_free b 0
       (if b_size m b \<ge> sz + HDR + KH_ALIGN
        then let nb = b + HDR + sz;
                 m1 = set_size nb (b_size m b - sz - HDR) m;
                 m2 = set_next nb (b_next m1 b) m1;
                 m3 = set_free nb 1 m2;
                 m4 = set_magic nb KH_MAGIC m3;
                 m5 = set_size b sz m4
             in set_next b nb m5
        else m)"

partial_function (option) heap_alloc_loop :: "mem \<Rightarrow> u32 \<Rightarrow> u32 \<Rightarrow> (u32 \<times> mem) option" where
  "heap_alloc_loop m sz b =
     (if b = 0 then Some (0, m)
      else if b_free m b = 0 \<or> b_size m b < sz then heap_alloc_loop m sz (b_next m b)
      else Some (b + HDR, take_block b sz m))"

declare heap_alloc_loop.simps [code]

definition heap_alloc :: "kheap \<Rightarrow> u32 \<Rightarrow> mem \<Rightarrow> (u32 \<times> mem) option" where
  "heap_alloc h sz m =
     (if sz = 0 then Some (0, m)
      else heap_alloc_loop m (align_up sz KH_ALIGN) (hp_head h))"

partial_function (option) coalesce_loop :: "mem \<Rightarrow> u32 \<Rightarrow> mem option" where
  "coalesce_loop m b =
     (if b = 0 \<or> b_next m b = 0 then Some m
      else if b_free m b \<noteq> 0 \<and> b_free m (b_next m b) \<noteq> 0
      then let m1 = set_size b (b_size m b + (HDR + b_size m (b_next m b))) m
           in coalesce_loop (set_next b (b_next m1 (b_next m1 b)) m1) b
      else coalesce_loop m (b_next m b))"

declare coalesce_loop.simps [code]

definition coalesce :: "kheap \<Rightarrow> mem \<Rightarrow> mem option" where
  "coalesce h m = coalesce_loop m (hp_head h)"

definition heap_free :: "kheap \<Rightarrow> u32 \<Rightarrow> mem \<Rightarrow> mem option" where
  "heap_free h p m =
     (if p = 0 then Some m
      else let b = p - HDR
           in if b_magic m b \<noteq> KH_MAGIC then Some m
              else if b_free m b \<noteq> 0 then Some m
              else coalesce h (set_free b 1 m))"

definition heap_realloc :: "kheap \<Rightarrow> u32 \<Rightarrow> u32 \<Rightarrow> mem \<Rightarrow> (u32 \<times> mem) option" where
  "heap_realloc h p sz m =
     (if p = 0 then heap_alloc h sz m
      else if sz = 0 then map_option (\<lambda>m'. (0, m')) (heap_free h p m)
      else let b = p - HDR
           in if b_magic m b \<noteq> KH_MAGIC then Some (0, m)
              else if b_size m b \<ge> align_up sz KH_ALIGN then Some (p, m)
              else case heap_alloc h sz m of
                     None \<Rightarrow> None
                   | Some (np, m1) \<Rightarrow>
                       if np = 0 then Some (0, m1)
                       else map_option (\<lambda>m'. (np, m'))
                              (heap_free h p (kh_memcpy np p (b_size m1 b) m1)))"

definition heap_total :: "kheap \<Rightarrow> u32" where
  "heap_total h = hp_size h"

partial_function (option) heap_used_loop :: "mem \<Rightarrow> u32 \<Rightarrow> u32 \<Rightarrow> u32 option" where
  "heap_used_loop m b u =
     (if b = 0 then Some u
      else heap_used_loop m (b_next m b) (if b_free m b = 0 then u + b_size m b else u))"

declare heap_used_loop.simps [code]

definition heap_used :: "kheap \<Rightarrow> mem \<Rightarrow> u32 option" where
  "heap_used h m = heap_used_loop m (hp_head h) 0"

partial_function (option) heap_free_bytes_loop :: "mem \<Rightarrow> u32 \<Rightarrow> u32 \<Rightarrow> u32 option" where
  "heap_free_bytes_loop m b f =
     (if b = 0 then Some f
      else heap_free_bytes_loop m (b_next m b) (if b_free m b \<noteq> 0 then f + b_size m b else f))"

declare heap_free_bytes_loop.simps [code]

definition heap_free_bytes :: "kheap \<Rightarrow> mem \<Rightarrow> u32 option" where
  "heap_free_bytes h m = heap_free_bytes_loop m (hp_head h) 0"

partial_function (option) heap_blocks_loop :: "mem \<Rightarrow> u32 \<Rightarrow> u32 \<Rightarrow> u32 option" where
  "heap_blocks_loop m b c = (if b = 0 then Some c else heap_blocks_loop m (b_next m b) (c + 1))"

declare heap_blocks_loop.simps [code]

definition heap_blocks :: "kheap \<Rightarrow> mem \<Rightarrow> u32 option" where
  "heap_blocks h m = heap_blocks_loop m (hp_head h) 0"

partial_function (option) heap_check_loop :: "mem \<Rightarrow> u32 \<Rightarrow> u32 \<Rightarrow> u32 \<Rightarrow> bool option" where
  "heap_check_loop m lo hi b =
     (if b = 0 then Some True
      else if b_magic m b \<noteq> KH_MAGIC then Some False
      else let e = b + HDR + b_size m b
           in if b < lo \<or> e > hi then Some False
              else if b_next m b \<noteq> 0 \<and> b_next m b \<noteq> e then Some False
              else heap_check_loop m lo hi (b_next m b))"

declare heap_check_loop.simps [code]

definition heap_check :: "kheap \<Rightarrow> mem \<Rightarrow> bool option" where
  "heap_check h m = heap_check_loop m (hp_base h) (hp_base h + hp_size h) (hp_head h)"

section \<open>The kernel interface (kheap.c)\<close>

definition KHEAP_SIZE :: u32 where "KHEAP_SIZE = push_bit 20 1"

definition kheap_init :: "u32 \<Rightarrow> mem \<Rightarrow> kheap \<times> mem" where
  "kheap_init kheap_arena m = heap_init kheap_arena KHEAP_SIZE m"

definition kmalloc :: "kheap \<Rightarrow> u32 \<Rightarrow> mem \<Rightarrow> (u32 \<times> mem) option" where
  "kmalloc h sz m = heap_alloc h sz m"

definition krealloc :: "kheap \<Rightarrow> u32 \<Rightarrow> u32 \<Rightarrow> mem \<Rightarrow> (u32 \<times> mem) option" where
  "krealloc h p s m = heap_realloc h p s m"

definition kfree :: "kheap \<Rightarrow> u32 \<Rightarrow> mem \<Rightarrow> mem option" where
  "kfree h p m = heap_free h p m"

fun zero_loop :: "u32 \<Rightarrow> u32 \<Rightarrow> nat \<Rightarrow> mem \<Rightarrow> mem" where
  "zero_loop b i 0 m = m"
| "zero_loop b i (Suc n) m = zero_loop b (i + 1) n (m(b + i := 0))"

definition kcalloc :: "kheap \<Rightarrow> u32 \<Rightarrow> u32 \<Rightarrow> mem \<Rightarrow> (u32 \<times> mem) option" where
  "kcalloc h nmemb sz m =
     (let tot = nmemb * sz
      in if nmemb \<noteq> 0 \<and> tot div nmemb \<noteq> sz then Some (0, m)
         else case heap_alloc h tot m of
                None \<Rightarrow> None
              | Some (p, m1) \<Rightarrow> Some (p, if p \<noteq> 0 then zero_loop p 0 (unat tot) m1 else m1))"

section \<open>Header fields under updates\<close>

lemmas field_defs = b_size_def b_next_def b_free_def b_magic_def
  set_size_def set_next_def set_free_def set_magic_def

lemma same_block [simp]:
  "b_size (set_size b v m) b = v" "b_next (set_size b v m) b = b_next m b"
  "b_free (set_size b v m) b = b_free m b" "b_magic (set_size b v m) b = b_magic m b"
  "b_size (set_next b v m) b = b_size m b" "b_next (set_next b v m) b = v"
  "b_free (set_next b v m) b = b_free m b" "b_magic (set_next b v m) b = b_magic m b"
  "b_size (set_free b v m) b = b_size m b" "b_next (set_free b v m) b = b_next m b"
  "b_free (set_free b v m) b = v" "b_magic (set_free b v m) b = b_magic m b"
  "b_size (set_magic b v m) b = b_size m b" "b_next (set_magic b v m) b = b_next m b"
  "b_free (set_magic b v m) b = b_free m b" "b_magic (set_magic b v m) b = v"
  by (simp_all add: field_defs mem_simps)

lemma fields_keeps:
  assumes "keeps a (a + 16) m m'"
  shows "b_size m' (of_nat a) = b_size m (of_nat a)" "b_next m' (of_nat a) = b_next m (of_nat a)"
    "b_free m' (of_nat a) = b_free m (of_nat a)" "b_magic m' (of_nat a) = b_magic m (of_nat a)"
  using rd32_keeps [OF keeps_mono [OF assms, of a "a + 4"]]
    rd32_keeps [OF keeps_mono [OF assms, of "a + 4" "a + 4 + 4"]]
    rd32_keeps [OF keeps_mono [OF assms, of "a + 8" "a + 8 + 4"]]
    rd32_keeps [OF keeps_mono [OF assms, of "a + 12" "a + 12 + 4"]]
  by (simp_all add: field_defs)

text \<open>Writes to a header change nothing else in the address space.\<close>

lemma set_elsewhere:
  assumes "a + 16 \<le> 4294967296" "x < 4294967296" "x < a \<or> a + 16 \<le> x"
  shows "set_size (of_nat a) v m (of_nat x) = m (of_nat x)"
    "set_next (of_nat a) v m (of_nat x) = m (of_nat x)"
    "set_free (of_nat a) v m (of_nat x) = m (of_nat x)"
    "set_magic (of_nat a) v m (of_nat x) = m (of_nat x)"
proof -
  have "wr32 m (of_nat (a + j)) v (of_nat x) = m (of_nat x)" if "j \<le> 12" for j
    using assms that by (intro wr32_elsewhere) auto
  from this [of 0] this [of 4] this [of 8] this [of 12]
  show "set_size (of_nat a) v m (of_nat x) = m (of_nat x)"
    "set_next (of_nat a) v m (of_nat x) = m (of_nat x)"
    "set_free (of_nat a) v m (of_nat x) = m (of_nat x)"
    "set_magic (of_nat a) v m (of_nat x) = m (of_nat x)"
    by (simp_all add: field_defs)
qed

lemma set_keeps_other:
  assumes "a + 16 \<le> 4294967296" "c + 16 \<le> 4294967296" "a + 16 \<le> c \<or> c + 16 \<le> a"
  shows "keeps c (c + 16) m (set_size (of_nat a) v m)" "keeps c (c + 16) m (set_next (of_nat a) v m)"
    "keeps c (c + 16) m (set_free (of_nat a) v m)" "keeps c (c + 16) m (set_magic (of_nat a) v m)"
  unfolding keeps_def using assms by (auto intro!: set_elsewhere)

lemmas other_block = fields_keeps [OF set_keeps_other(1)] fields_keeps [OF set_keeps_other(2)]
  fields_keeps [OF set_keeps_other(3)] fields_keeps [OF set_keeps_other(4)]

section \<open>The specification: blocks in address order\<close>

text \<open>
  A heap is a list of blocks \<open>(payload size, free?)\<close> laid out one after the other;
  \<open>span\<close> is the number of bytes they occupy with their headers.
\<close>

type_synonym blocks = "(nat \<times> bool) list"

fun span :: "blocks \<Rightarrow> nat" where
  "span [] = 0"
| "span ((s, fr) # bs) = 16 + s + span bs"

text \<open>First fit with splitting: the offset of the block taken and the new list.\<close>

fun first_fit :: "nat \<Rightarrow> blocks \<Rightarrow> (nat \<times> blocks) option" where
  "first_fit n [] = None"
| "first_fit n ((s, fr) # bs) =
     (if fr \<and> n \<le> s
      then Some (0, if n + 24 \<le> s then (n, False) # (s - n - 16, True) # bs else (s, False) # bs)
      else map_option (\<lambda>(off, bs'). (16 + s + off, (s, fr) # bs')) (first_fit n bs))"

text \<open>Merging neighbouring free blocks, and releasing the block at an offset.\<close>

fun merge :: "blocks \<Rightarrow> blocks" where
  "merge ((s, fr) # (s', fr') # bs) =
     (if fr \<and> fr' then merge ((16 + s + s', True) # bs) else (s, fr) # merge ((s', fr') # bs))"
| "merge bs = bs"

fun release :: "nat \<Rightarrow> blocks \<Rightarrow> blocks" where
  "release off [] = []"
| "release off ((s, fr) # bs) =
     (if off = 0 then (s, True) # bs
      else if 16 + s \<le> off then (s, fr) # release (off - (16 + s)) bs else (s, fr) # bs)"

fun used_at :: "nat \<Rightarrow> blocks \<Rightarrow> nat option" where
  "used_at off [] = None"
| "used_at off ((s, fr) # bs) =
     (if off = 0 then if fr then None else Some s
      else if 16 + s \<le> off then used_at (off - (16 + s)) bs else None)"

section \<open>Block lists in memory\<close>

definition hdr :: "mem \<Rightarrow> nat \<Rightarrow> nat \<Rightarrow> nat \<Rightarrow> bool \<Rightarrow> bool" where
  "hdr m a s nx fr \<longleftrightarrow> b_size m (of_nat a) = of_nat s \<and> b_next m (of_nat a) = of_nat nx \<and>
     b_free m (of_nat a) = of_bool fr \<and> b_magic m (of_nat a) = KH_MAGIC"

fun laid :: "mem \<Rightarrow> nat \<Rightarrow> blocks \<Rightarrow> bool" where
  "laid m a [] \<longleftrightarrow> True"
| "laid m a ((s, fr) # bs) \<longleftrightarrow>
     hdr m a s (if bs = [] then 0 else a + 16 + s) fr \<and> laid m (a + 16 + s) bs"

fun hdrs :: "nat \<Rightarrow> blocks \<Rightarrow> nat set" where
  "hdrs a [] = {}"
| "hdrs a ((s, fr) # bs) = {a..<a + 16} \<union> hdrs (a + 16 + s) bs"

text \<open>The bytes of the headers' \<open>size\<close> and \<open>next\<close> fields, all that coalescing writes.\<close>

fun links :: "nat \<Rightarrow> blocks \<Rightarrow> nat set" where
  "links a [] = {}"
| "links a ((s, fr) # bs) = {a..<a + 8} \<union> links (a + 16 + s) bs"

definition same_off :: "nat set \<Rightarrow> mem \<Rightarrow> mem \<Rightarrow> bool" where
  "same_off H m m' \<longleftrightarrow> (\<forall>x < 4294967296. x \<notin> H \<longrightarrow> m' (of_nat x) = m (of_nat x))"

lemma same_off_refl [simp]: "same_off H m m"
  by (simp add: same_off_def)

lemma same_off_trans: "same_off H m m' \<Longrightarrow> same_off H m' m'' \<Longrightarrow> same_off H m m''"
  by (simp add: same_off_def)

lemma same_off_mono: "same_off H m m' \<Longrightarrow> H \<subseteq> K \<Longrightarrow> same_off K m m'"
  by (auto simp: same_off_def)

lemma hdrs_bounds: "x \<in> hdrs a bs \<Longrightarrow> a \<le> x \<and> x < a + span bs"
  by (induction a bs rule: hdrs.induct) fastforce+

lemma links_hdrs: "links a bs \<subseteq> hdrs a bs"
  by (induction a bs rule: links.induct) auto

lemma hdrs_below: "hi \<le> a \<Longrightarrow> hdrs a bs \<inter> {lo..<hi} = {}"
  by (auto dest: hdrs_bounds)

lemma same_off_keeps:
  "same_off H m m' \<Longrightarrow> hi \<le> 4294967296 \<Longrightarrow> H \<inter> {lo..<hi} = {} \<Longrightarrow> keeps lo hi m m'"
  unfolding same_off_def keeps_def by (metis atLeastLessThan_iff disjoint_iff order_less_le_trans)

lemma hdr_keeps: "hdr m a s nx fr \<Longrightarrow> keeps a (a + 16) m m' \<Longrightarrow> hdr m' a s nx fr"
  by (simp add: hdr_def fields_keeps)

lemma laid_keeps: "laid m a bs \<Longrightarrow> (\<And>x. x \<in> hdrs a bs \<Longrightarrow> m' (of_nat x) = m (of_nat x)) \<Longrightarrow> laid m' a bs"
proof (induction m a bs rule: laid.induct)
  case (2 m a s fr bs)
  have "keeps a (a + 16) m m'" using 2(3) by (simp add: keeps_def)
  with 2 show ?case by (auto intro: hdr_keeps)
qed simp

lemma laid_same_off:
  assumes "laid m a bs" "same_off H m m'" "a + span bs \<le> 4294967296" "H \<inter> hdrs a bs = {}"
  shows "laid m' a bs"
proof (rule laid_keeps [OF assms(1)])
  fix x assume x: "x \<in> hdrs a bs"
  then have "x < 4294967296" "x \<notin> H" using hdrs_bounds [OF x] assms(3,4) by auto
  then show "m' (of_nat x) = m (of_nat x)" using assms(2) by (simp add: same_off_def)
qed

lemma set_same_off:
  assumes "a + 16 \<le> 4294967296"
  shows "same_off {a..<a + 16} m (set_size (of_nat a) v m)" "same_off {a..<a + 16} m (set_next (of_nat a) v m)"
    "same_off {a..<a + 16} m (set_free (of_nat a) v m)" "same_off {a..<a + 16} m (set_magic (of_nat a) v m)"
  unfolding same_off_def using assms by (auto intro!: set_elsewhere)

lemma link_elsewhere:
  assumes "a + 16 \<le> 4294967296" "x < 4294967296" "x < a \<or> a + 8 \<le> x"
  shows "set_size (of_nat a) v m (of_nat x) = m (of_nat x)"
    "set_next (of_nat a) v m (of_nat x) = m (of_nat x)"
proof -
  have "wr32 m (of_nat (a + j)) v (of_nat x) = m (of_nat x)" if "j \<le> 4" for j
    using assms that by (intro wr32_elsewhere) auto
  from this [of 0] this [of 4]
  show "set_size (of_nat a) v m (of_nat x) = m (of_nat x)"
    "set_next (of_nat a) v m (of_nat x) = m (of_nat x)"
    by (simp_all add: field_defs)
qed

lemma same_off_link:
  assumes "a + 16 \<le> 4294967296" "same_off {a..<a + 8} m m'"
  shows "same_off {a..<a + 8} m (set_size (of_nat a) v m')" "same_off {a..<a + 8} m (set_next (of_nat a) v m')"
  using assms unfolding same_off_def by (auto simp: link_elsewhere)

lemma same_off_set:
  assumes "a + 16 \<le> 4294967296" "{a..<a + 16} \<subseteq> H" "same_off H m m'"
  shows "same_off H m (set_size (of_nat a) v m')" "same_off H m (set_next (of_nat a) v m')"
    "same_off H m (set_free (of_nat a) v m')" "same_off H m (set_magic (of_nat a) v m')"
  using set_same_off [OF assms(1), of m' v] assms(2,3)
  by (meson same_off_mono same_off_trans)+

lemma of_bool_neq_0 [simp]: "(of_bool b :: u32) = 0 \<longleftrightarrow> \<not> b"
  by (cases b) simp_all

section \<open>Allocation implements first fit\<close>

lemma take_block_whole:
  assumes "hdr m a s nx True" "n \<le> s" "a + 16 + s < 4294967296" "8 \<le> a" "\<not> n + 24 \<le> s"
  shows "hdr (take_block (of_nat a) (of_nat n) m) a s nx False"
    "same_off {a..<a + 16} m (take_block (of_nat a) (of_nat n) m)"
proof -
  have "\<not> (of_nat n + HDR + KH_ALIGN \<le> (of_nat s :: u32))"
    using assms by (simp add: HDR_def KH_ALIGN_def word_le_nat_alt unat_of_nat_u32 unat_word_ariths)
  then have eq: "take_block (of_nat a) (of_nat n) m = set_free (of_nat a) 0 m"
    using assms(1) by (simp add: take_block_def hdr_def)
  show "hdr (take_block (of_nat a) (of_nat n) m) a s nx False"
    using assms(1) unfolding eq by (simp add: hdr_def)
  show "same_off {a..<a + 16} m (take_block (of_nat a) (of_nat n) m)"
    unfolding eq using assms(3) by (intro set_same_off) simp
qed

lemma take_block_split:
  assumes "hdr m a s nx True" "a + 16 + s < 4294967296" "n + 24 \<le> s"
  shows "hdr (take_block (of_nat a) (of_nat n) m) a n (a + 16 + n) False" (is ?A)
    "hdr (take_block (of_nat a) (of_nat n) m) (a + 16 + n) (s - n - 16) nx True" (is ?B)
    "same_off ({a..<a + 16} \<union> {a + 16 + n..<a + 16 + n + 16}) m (take_block (of_nat a) (of_nat n) m)" (is ?C)
proof -
  let ?a = "of_nat a :: u32" and ?c = "of_nat (a + 16 + n) :: u32"
  define m4 where "m4 = (set_magic ?c KH_MAGIC \<circ> set_free ?c 1 \<circ> set_next ?c (of_nat nx) \<circ>
      set_size ?c (of_nat (s - n - 16))) m"
  have le: "of_nat n + HDR + KH_ALIGN \<le> (of_nat s :: u32)"
    using assms by (simp add: HDR_def KH_ALIGN_def word_le_nat_alt unat_of_nat_u32 unat_word_ariths)
  have sz: "of_nat s - of_nat n - HDR = (of_nat (s - n - 16) :: u32)"
    using assms(3) by (simp add: HDR_def of_nat_diff)
  have c: "?a + HDR + of_nat n = ?c" by (simp add: HDR_def)
  have far: "a + 16 \<le> 4294967296" "a + 16 + n + 16 \<le> 4294967296" "a + 16 \<le> a + 16 + n"
    using assms by simp_all
  note other = other_block [OF far(1,2) disjI1 [OF far(3)]] other_block [OF far(2,1) disjI2 [OF far(3)]]
  have eq: "take_block ?a (of_nat n) m = set_free ?a 0 (set_next ?a ?c (set_size ?a (of_nat n) m4))"
    using assms(1) le by (simp only: take_block_def hdr_def Let_def c sz m4_def o_apply other if_True)
  show ?A unfolding eq using assms(1) by (simp add: hdr_def m4_def other del: of_nat_add)
  show ?B unfolding eq using assms(1) by (simp add: hdr_def m4_def other del: of_nat_add)
  show ?C unfolding eq m4_def o_apply using far
    by (intro same_off_set same_off_refl) auto
qed

lemma laid_fields:
  assumes "laid m a ((s, fr) # bs)"
  shows "b_size m (of_nat a) = of_nat s" "b_free m (of_nat a) = of_bool fr"
    "b_magic m (of_nat a) = KH_MAGIC"
    "b_next m (of_nat a) = of_nat (if bs = [] then 0 else a + 16 + s)"
  using assms by (simp_all add: hdr_def)

text \<open>The addresses a block list can have: nonempty, above the null page's first
  bytes, and below the end of the address space.\<close>

definition fits :: "nat \<Rightarrow> blocks \<Rightarrow> bool" where
  "fits a bs \<longleftrightarrow> 8 \<le> a \<and> a + span bs < 4294967296"

lemma fits_Cons [simp]: "fits a ((s, fr) # bs) \<longleftrightarrow> 8 \<le> a \<and> a + 16 + s + span bs < 4294967296"
  by (auto simp: fits_def)

lemma fits_tail: "fits a ((s, fr) # bs) \<Longrightarrow> fits (a + 16 + s) bs"
  by (simp add: fits_def)

lemma first_fit_nonempty: "first_fit n bs = Some (off, bs') \<Longrightarrow> bs \<noteq> [] \<and> bs' \<noteq> []"
  by (cases bs) (auto split: if_splits)

lemma first_fit_span: "first_fit n bs = Some (off, bs') \<Longrightarrow> span bs' = span bs"
  by (induction n bs arbitrary: off bs' rule: first_fit.induct) (auto split: if_splits)

lemma of_nat_u32_eq_0: "x < 4294967296 \<Longrightarrow> (of_nat x :: u32) = 0 \<longleftrightarrow> x = 0"
  using u32_eq_of_nat_iff [of x 0] by auto

lemma heap_alloc_loop_null [simp]: "heap_alloc_loop m n 0 = Some (0, m)"
  by (subst heap_alloc_loop.simps) simp

lemma heap_alloc_loop_step:
  assumes "laid m a ((s, fr) # bs)" "fits a ((s, fr) # bs)" "n < 4294967296"
  shows "heap_alloc_loop m (of_nat n) (of_nat a) =
     (if fr \<and> n \<le> s then Some (of_nat (a + 16), take_block (of_nat a) (of_nat n) m)
      else heap_alloc_loop m (of_nat n) (of_nat (if bs = [] then 0 else a + 16 + s)))"
proof -
  have "(of_nat a :: u32) \<noteq> 0" using assms(2) by (simp add: of_nat_u32_eq_0)
  moreover have "(of_nat s :: u32) < of_nat n \<longleftrightarrow> s < n"
    using assms(2,3) by (simp add: word_less_nat_alt unat_of_nat_u32)
  ultimately show ?thesis
    by (subst heap_alloc_loop.simps)
      (auto simp: laid_fields [OF assms(1)] HDR_def)
qed

lemma laid_Nil_next: "heap_alloc_loop m n (of_nat (if bs = [] then 0 else a)) =
    (if bs = [] then Some (0, m) else heap_alloc_loop m n (of_nat a))"
  by simp

lemma heap_alloc_loop_first_fit:
  assumes "laid m a bs" "fits a bs" "bs \<noteq> []" "n < 4294967296"
  shows "case first_fit n bs of
      None \<Rightarrow> heap_alloc_loop m (of_nat n) (of_nat a) = Some (0, m)
    | Some (off, bs') \<Rightarrow> \<exists>m'. heap_alloc_loop m (of_nat n) (of_nat a) = Some (of_nat (a + off + 16), m') \<and>
        laid m' a bs' \<and> same_off (hdrs a bs') m m'"
  using assms
proof (induction n bs arbitrary: a rule: first_fit.induct)
  case (2 n s fr bs)
  note step = heap_alloc_loop_step [OF 2(2,3,5)]
  have hd: "hdr m a s (if bs = [] then 0 else a + 16 + s) fr" and tl: "laid m (a + 16 + s) bs"
    using 2(2) by simp_all
  have top: "a + 16 + s < 4294967296" "8 \<le> a" "a + 16 + s + span bs \<le> 4294967296" using 2(3) by simp_all
  show ?case
  proof (cases "fr \<and> n \<le> s")
    case True
    let ?m = "take_block (of_nat a) (of_nat n) m"
    have hT: "hdr m a s (if bs = [] then 0 else a + 16 + s) True" using hd True by simp
    show ?thesis
    proof (cases "n + 24 \<le> s")
      case split: True
      note tb = take_block_split [OF hT top(1) split]
      have "laid ?m (a + 16 + s) bs"
        using split by (intro laid_same_off [OF tl tb(3) top(3)]) (force dest: hdrs_bounds)
      moreover have "a + 16 + n + 16 + (s - n - 16) = a + 16 + s" using split by simp
      ultimately have "laid ?m a ((n, False) # (s - n - 16, True) # bs)"
        using tb(1,2) by (auto simp: add.assoc)
      moreover have "same_off (hdrs a ((n, False) # (s - n - 16, True) # bs)) m ?m"
        by (rule same_off_mono [OF tb(3)]) auto
      ultimately show ?thesis using True split step by (simp del: laid.simps hdrs.simps)
    next
      case whole: False
      note tb = take_block_whole [OF hT conjunct2 [OF True] top(1,2) whole]
      have "laid ?m (a + 16 + s) bs"
        by (intro laid_same_off [OF tl tb(2) top(3)]) (force dest: hdrs_bounds)
      then have "laid ?m a ((s, False) # bs)" using tb(1) by simp
      moreover have "same_off (hdrs a ((s, False) # bs)) m ?m"
        by (rule same_off_mono [OF tb(2)]) auto
      ultimately show ?thesis using True whole step by (simp del: laid.simps hdrs.simps)
    qed
  next
    case False
    note step' = step [unfolded if_not_P [OF False]]
    have ff: "first_fit n ((s, fr) # bs) =
        map_option (\<lambda>(off, bs'). (16 + s + off, (s, fr) # bs')) (first_fit n bs)"
      using False by auto
    show ?thesis
    proof (cases "bs = []")
      case True
      with ff step' show ?thesis by simp
    next
      case ne: False
      note IH = 2(1) [OF False tl fits_tail [OF 2(3)] ne 2(5)]
      show ?thesis
      proof (cases "first_fit n bs")
        case None
        with IH ff step' ne show ?thesis by simp
      next
        case (Some r)
        obtain off bs' where r: "r = (off, bs')" by fastforce
        from IH Some r obtain m' where m':
          "heap_alloc_loop m (of_nat n) (of_nat (a + 16 + s)) = Some (of_nat (a + 16 + s + off + 16), m')"
          "laid m' (a + 16 + s) bs'" "same_off (hdrs (a + 16 + s) bs') m m'" by auto
        have ne': "bs' \<noteq> []" using first_fit_nonempty [of n bs off bs'] Some r by simp
        have "keeps a (a + 16) m m'"
          using top by (intro same_off_keeps [OF m'(3)] hdrs_below) simp_all
        then have "laid m' a ((s, fr) # bs')" using hdr_keeps [OF hd] m'(2) ne ne' by simp
        moreover have "same_off (hdrs a ((s, fr) # bs')) m m'"
          by (rule same_off_mono [OF m'(3)]) auto
        ultimately show ?thesis using ff Some r step' ne m'(1)
          by (simp del: laid.simps hdrs.simps first_fit.simps add: add.assoc)
      qed
    qed
  qed
qed simp

section \<open>Coalescing implements merging\<close>

lemma merge_nonempty [simp]: "merge bs = [] \<longleftrightarrow> bs = []"
  by (induction bs rule: merge.induct) simp_all

lemma merge_span [simp]: "span (merge bs) = span bs"
  by (induction bs rule: merge.induct) simp_all

lemma coalesce_last:
  assumes "laid m a [(s, fr)]"
  shows "coalesce_loop m (of_nat a) = Some m"
  using laid_fields(4) [OF assms] by (subst coalesce_loop.simps) simp

lemma merge_step:
  assumes "laid m a ((s, True) # (s', True) # bs)" "fits a ((s, True) # (s', True) # bs)"
    and "m1 = set_size (of_nat a) (b_size m (of_nat a) + (HDR + b_size m (b_next m (of_nat a)))) m"
    and "m2 = set_next (of_nat a) (b_next m1 (b_next m1 (of_nat a))) m1"
  shows "laid m2 a ((16 + s + s', True) # bs)" "same_off {a..<a + 8} m m2"
proof -
  let ?c = "a + 16 + s"
  note f1 = laid_fields [OF assms(1)]
  have l2: "laid m ?c ((s', True) # bs)" using assms(1) by simp
  note f2 = laid_fields [OF l2]
  have far: "a + 16 \<le> 4294967296" "?c + 16 \<le> 4294967296" "a + 16 \<le> ?c"
    and top: "?c + 16 + s' + span bs \<le> 4294967296" using assms(2) by simp_all
  have nx: "b_next m (of_nat a) = of_nat ?c" using f1(4) by simp
  have m1: "m1 = set_size (of_nat a) (of_nat (16 + s + s')) m"
    using f1(1) f2(1) unfolding assms(3) nx by (simp add: HDR_def algebra_simps)
  have "b_next m1 (of_nat ?c) = b_next m (of_nat ?c)"
    unfolding m1 by (rule other_block(2) [OF far(1,2) disjI1 [OF far(3)]])
  then have m2: "m2 = set_next (of_nat a) (of_nat (if bs = [] then 0 else ?c + 16 + s')) m1"
    unfolding assms(4) m1 using nx f2(4) by (simp del: of_nat_add)
  show off: "same_off {a..<a + 8} m m2"
    unfolding m2 m1 using far(1) by (intro same_off_link) simp_all
  have "laid m2 (?c + 16 + s') bs"
  proof (rule laid_same_off [OF _ off])
    show "laid m (?c + 16 + s') bs" using l2 by simp
  qed (use top in \<open>force dest: hdrs_bounds\<close>)+
  moreover have "hdr m2 a (16 + s + s') (if bs = [] then 0 else ?c + 16 + s') True"
    using f1(2,3) unfolding m2 m1 hdr_def by (simp del: of_nat_add)
  moreover have "?c + 16 + s' = a + 16 + (16 + s + s')" by simp
  ultimately show "laid m2 a ((16 + s + s', True) # bs)" by (simp only: laid.simps)
qed

lemma coalesce_loop_step:
  assumes "laid m a ((s, fr) # (s', fr') # bs)" "fits a ((s, fr) # (s', fr') # bs)" "\<not> (fr \<and> fr')"
  shows "coalesce_loop m (of_nat a) = coalesce_loop m (of_nat (a + 16 + s))"
proof -
  have l2: "laid m (a + 16 + s) ((s', fr') # bs)" using assms(1) by simp
  have "(of_nat a :: u32) \<noteq> 0" "(of_nat (a + 16 + s) :: u32) \<noteq> 0"
    using assms(2) by (simp_all only: of_nat_u32_eq_0 fits_Cons)
      (simp_all add: of_nat_u32_eq_0 del: of_nat_add)
  moreover have "b_next m (of_nat a) = of_nat (a + 16 + s)" using laid_fields(4) [OF assms(1)] by simp
  ultimately show ?thesis
    using assms(3) laid_fields(2) [OF assms(1)] laid_fields(2) [OF l2]
    by (subst coalesce_loop.simps) (auto simp del: of_nat_add)
qed

lemma coalesce_loop_merge_step:
  assumes "laid m a ((s, True) # (s', True) # bs)" "fits a ((s, True) # (s', True) # bs)"
  obtains m2 where "coalesce_loop m (of_nat a) = coalesce_loop m2 (of_nat a)"
    "laid m2 a ((16 + s + s', True) # bs)" "same_off {a..<a + 8} m m2"
proof -
  have l2: "laid m (a + 16 + s) ((s', True) # bs)" using assms(1) by simp
  have "(of_nat a :: u32) \<noteq> 0" "(of_nat (a + 16 + s) :: u32) \<noteq> 0"
    using assms(2) by (simp_all only: of_nat_u32_eq_0 fits_Cons)
      (simp_all add: of_nat_u32_eq_0 del: of_nat_add)
  moreover have "b_next m (of_nat a) = of_nat (a + 16 + s)" using laid_fields(4) [OF assms(1)] by simp
  ultimately have "coalesce_loop m (of_nat a) =
     (let m1 = set_size (of_nat a) (b_size m (of_nat a) + (HDR + b_size m (b_next m (of_nat a)))) m
      in coalesce_loop (set_next (of_nat a) (b_next m1 (b_next m1 (of_nat a))) m1) (of_nat a))"
    using laid_fields(2) [OF assms(1)] laid_fields(2) [OF l2]
    by (subst coalesce_loop.simps) (simp del: of_nat_add add: Let_def)
  with merge_step [OF assms refl refl] that show thesis by (simp add: Let_def)
qed

lemma coalesce_loop_merge:
  assumes "laid m a bs" "fits a bs" "bs \<noteq> []"
  shows "\<exists>m'. coalesce_loop m (of_nat a) = Some m' \<and> laid m' a (merge bs) \<and> same_off (links a bs) m m'"
  using assms
proof (induction bs arbitrary: a m rule: merge.induct [case_names two nil single])
  case (two s fr s' fr' bs)
  show ?case
  proof (cases "fr \<and> fr'")
    case True
    then obtain m2 where m2: "coalesce_loop m (of_nat a) = coalesce_loop m2 (of_nat a)"
      "laid m2 a ((16 + s + s', True) # bs)" "same_off {a..<a + 8} m m2"
      using coalesce_loop_merge_step [of m a s s' bs] two(3,4) by auto
    have "fits a ((16 + s + s', True) # bs)" using two(4) by simp
    from two(1) [OF True m2(2) this] obtain m' where m': "coalesce_loop m2 (of_nat a) = Some m'"
      "laid m' a (merge ((16 + s + s', True) # bs))" "same_off (links a ((16 + s + s', True) # bs)) m2 m'"
      by blast
    have eq: "a + 16 + (16 + s + s') = a + 16 + s + 16 + s'" by simp
    have "same_off (links a ((s, fr) # (s', fr') # bs)) m m'"
      by (rule same_off_trans [OF same_off_mono [OF m2(3)] same_off_mono [OF m'(3)]])
        (auto simp only: links.simps eq)
    with m2(1) m'(1,2) True show ?thesis by (simp del: laid.simps links.simps)
  next
    case False
    have l2: "laid m (a + 16 + s) ((s', fr') # bs)" using two(3) by simp
    from two(2) [OF False l2 fits_tail [OF two(4)]] obtain m' where m':
      "coalesce_loop m (of_nat (a + 16 + s)) = Some m'" "laid m' (a + 16 + s) (merge ((s', fr') # bs))"
      "same_off (links (a + 16 + s) ((s', fr') # bs)) m m'" by blast
    have "hdr m a s (a + 16 + s) fr" using two(3) by simp
    moreover have "keeps a (a + 16) m m'"
      using two(4) by (intro same_off_keeps [OF same_off_mono [OF m'(3) links_hdrs]] hdrs_below) simp_all
    ultimately have "hdr m' a s (a + 16 + s) fr" by (rule hdr_keeps)
    then have "laid m' a ((s, fr) # merge ((s', fr') # bs))" using m'(2) by simp
    moreover have "same_off (links a ((s, fr) # (s', fr') # bs)) m m'"
      by (rule same_off_mono [OF m'(3)]) auto
    ultimately show ?thesis
      using coalesce_loop_step [OF two(3,4) False] m'(1) False by (auto simp del: laid.simps links.simps)
  qed
next
  case (single b)
  obtain s fr where "b = (s, fr)" by fastforce
  with single coalesce_last [of m a s fr] show ?case by auto
qed simp

section \<open>Laws of the specification\<close>

fun coalesced :: "blocks \<Rightarrow> bool" where
  "coalesced ((s, fr) # (s', fr') # bs) \<longleftrightarrow> \<not> (fr \<and> fr') \<and> coalesced ((s', fr') # bs)"
| "coalesced bs \<longleftrightarrow> True"

fun aligned :: "blocks \<Rightarrow> bool" where
  "aligned ((s, fr) # b # bs) \<longleftrightarrow> 8 dvd s \<and> aligned (b # bs)"
| "aligned bs \<longleftrightarrow> True"

lemma merge_hd: "\<exists>t bs'. merge ((s, fr) # bs) = (t, fr) # bs'"
  by (induction "(s, fr) # bs" arbitrary: s fr bs rule: merge.induct) auto

lemma coalesced_merge: "coalesced (merge bs)"
proof (induction bs rule: merge.induct)
  case (1 s fr s' fr' bs)
  show ?case
  proof (cases "fr \<and> fr'")
    case False
    obtain t bs' where eq: "merge ((s', fr') # bs) = (t, fr') # bs'" using merge_hd by blast
    with 1(2) [OF False] False show ?thesis by auto
  qed (use 1 in simp)
qed simp_all

lemma merge_coalesced: "coalesced bs \<Longrightarrow> merge bs = bs"
  by (induction bs rule: coalesced.induct) auto

lemma aligned_merge: "aligned bs \<Longrightarrow> aligned (merge bs)"
proof (induction bs rule: merge.induct)
  case (1 s fr s' fr' bs)
  show ?case
  proof (cases "fr \<and> fr'")
    case True
    with 1(3) have "aligned ((16 + s + s', True) # bs)" by (cases bs) auto
    with 1(1) True show ?thesis by simp
  next
    case False
    have "merge ((s', fr') # bs) \<noteq> []" by simp
    then obtain c cs where "merge ((s', fr') # bs) = c # cs" by (meson neq_Nil_conv)
    with 1(2) [OF False] 1(3) False show ?thesis by auto
  qed
qed simp_all

lemma coalesced_first_fit:
  "first_fit n bs = Some (off, bs') \<Longrightarrow> coalesced bs \<Longrightarrow> coalesced bs' \<and> (\<not> snd (hd bs) \<longrightarrow> \<not> snd (hd bs'))"
proof (induction n bs arbitrary: off bs' rule: first_fit.induct)
  case (2 n s fr bs)
  show ?case
  proof (cases "fr \<and> n \<le> s")
    case True
    with 2(2,3) show ?thesis by (cases bs) (auto split: if_splits)
  next
    case False
    then have "map_option (\<lambda>(off, bs'). (16 + s + off, (s, fr) # bs')) (first_fit n bs) = Some (off, bs')"
      using 2(2) by auto
    then obtain o' cs where ff: "first_fit n bs = Some (o', cs)" and bs': "bs' = (s, fr) # cs" by auto
    have "coalesced bs" using 2(3) by (cases bs) auto
    from 2(1) [OF False ff this] first_fit_nonempty [OF ff] 2(3) show ?thesis
      unfolding bs' by (cases bs; cases cs) auto
  qed
qed simp

lemma aligned_first_fit:
  "first_fit n bs = Some (off, bs') \<Longrightarrow> aligned bs \<Longrightarrow> 8 dvd n \<Longrightarrow> aligned bs' \<and> 8 dvd off"
proof (induction n bs arbitrary: off bs' rule: first_fit.induct)
  case (2 n s fr bs)
  show ?case
  proof (cases "fr \<and> n \<le> s")
    case True
    with 2(2-4) show ?thesis
      by (cases bs) (auto split: if_splits intro!: dvd_diff_nat)
  next
    case False
    then have "map_option (\<lambda>(off, bs'). (16 + s + off, (s, fr) # bs')) (first_fit n bs) = Some (off, bs')"
      using 2(2) by auto
    then obtain o' cs where ff: "first_fit n bs = Some (o', cs)" and bs': "bs' = (s, fr) # cs"
      "off = 16 + s + o'" by auto
    have "aligned bs" using 2(3) by (cases bs) auto
    from 2(1) [OF False ff this 2(4)] first_fit_nonempty [OF ff] 2(3) show ?thesis
      unfolding bs' by (cases bs; cases cs) auto
  qed
qed simp

lemma first_fit_Some_iff: "first_fit n bs \<noteq> None \<longleftrightarrow> (\<exists>(s, fr) \<in> set bs. fr \<and> n \<le> s)"
  by (induction n bs rule: first_fit.induct) auto

lemma used_at_first_fit:
  assumes "first_fit n bs = Some (off, bs')"
  shows "\<exists>s. used_at off bs' = Some s \<and> n \<le> s" "used_at off bs = None"
    "o' \<noteq> off \<Longrightarrow> used_at o' bs' = used_at o' bs"
proof -
  show "\<exists>s. used_at off bs' = Some s \<and> n \<le> s"
    using assms by (induction n bs arbitrary: off bs' rule: first_fit.induct) (auto split: if_splits)
  show "used_at off bs = None"
    using assms by (induction n bs arbitrary: off bs' rule: first_fit.induct) (auto split: if_splits)
  show "o' \<noteq> off \<Longrightarrow> used_at o' bs' = used_at o' bs"
    using assms
  proof (induction n bs arbitrary: off bs' o' rule: first_fit.induct)
    case (2 n s fr bs)
    show ?case
    proof (cases "fr \<and> n \<le> s")
      case True
      with 2(2,3) show ?thesis by (auto split: if_splits)
    next
      case False
      then have "map_option (\<lambda>(off, bs'). (16 + s + off, (s, fr) # bs')) (first_fit n bs) = Some (off, bs')"
        using 2(3) by auto
      then obtain k cs where "first_fit n bs = Some (k, cs)" "bs' = (s, fr) # cs" "off = 16 + s + k" by auto
      with 2(1) [OF False _ this(1), of "o' - (16 + s)"] 2(2) show ?thesis by auto
    qed
  qed simp
qed

lemma used_at_release:
  "used_at off bs = Some s \<Longrightarrow> used_at o' (release off bs) = (if o' = off then None else used_at o' bs)"
  by (induction off bs arbitrary: o' rule: release.induct) (auto split: if_splits)

lemma used_at_merge [simp]: "used_at off (merge bs) = used_at off bs"
  by (induction bs arbitrary: off rule: merge.induct) (auto split: if_splits)

lemma used_at_bound: "used_at off bs = Some s \<Longrightarrow> off + 16 + s \<le> span bs"
  by (induction off bs rule: used_at.induct) (auto split: if_splits)

lemma used_at_disjoint:
  "used_at off bs = Some s \<Longrightarrow> used_at o' bs = Some s' \<Longrightarrow> off < o' \<Longrightarrow> off + 16 + s \<le> o'"
proof (induction off bs arbitrary: o' rule: used_at.induct)
  case (2 off t fr bs)
  show ?case
  proof (cases "off = 0")
    case True
    with 2(2-4) show ?thesis by (auto split: if_splits)
  next
    case False
    with 2(2-4) have le: "16 + t \<le> off" "16 + t \<le> o'" and u: "used_at (off - (16 + t)) bs = Some s"
      "used_at (o' - (16 + t)) bs = Some s'" by (auto split: if_splits)
    have "off - (16 + t) < o' - (16 + t)" using 2(4) le by linarith
    from 2(1) [OF False le(1) u this] le show ?thesis by linarith
  qed
qed simp

lemma used_payload_hdrs:
  "used_at off bs = Some s \<Longrightarrow> {a + off + 16..<a + off + 16 + s} \<inter> hdrs a bs = {}"
proof (induction off bs arbitrary: a rule: used_at.induct)
  case (2 off t fr bs)
  show ?case
  proof (cases "off = 0")
    case True
    with 2(2) show ?thesis by (auto dest: hdrs_bounds split: if_splits)
  next
    case False
    with 2(2) have le: "16 + t \<le> off" and u: "used_at (off - (16 + t)) bs = Some s"
      by (auto split: if_splits)
    have "a + 16 + t + (off - (16 + t)) = a + off" using le by simp
    with 2(1) [OF False le u, of "a + 16 + t"] le show ?thesis by auto
  qed
qed simp

lemma links_release [simp]: "links a (release off bs) = links a bs"
  by (induction off bs arbitrary: a rule: release.induct) auto

lemma span_release [simp]: "span (release off bs) = span bs"
  by (induction off bs rule: release.induct) auto

lemma hdrs_release [simp]: "hdrs a (release off bs) = hdrs a bs"
  by (induction off bs arbitrary: a rule: release.induct) auto

lemma release_eq_Nil [simp]: "release off bs = [] \<longleftrightarrow> bs = []"
  by (cases bs) (auto split: if_splits)

lemma aligned_release [simp]: "aligned (release off bs) = aligned bs"
proof (induction off bs rule: release.induct)
  case (2 off s fr bs)
  then show ?case by (cases bs; cases "release (off - (16 + s)) bs") auto
qed simp

section \<open>Releasing a block in memory\<close>

lemma laid_used:
  "laid m a bs \<Longrightarrow> used_at off bs = Some s \<Longrightarrow>
   b_size m (of_nat (a + off)) = of_nat s \<and> b_free m (of_nat (a + off)) = 0 \<and>
   b_magic m (of_nat (a + off)) = KH_MAGIC"
proof (induction off bs arbitrary: a rule: used_at.induct)
  case (2 off t fr bs)
  show ?case
  proof (cases "off = 0")
    case True
    with 2(2,3) show ?thesis by (auto simp: hdr_def split: if_splits)
  next
    case False
    with 2(3) have le: "16 + t \<le> off" and u: "used_at (off - (16 + t)) bs = Some s"
      by (auto split: if_splits)
    have "a + 16 + t + (off - (16 + t)) = a + off" using le by simp
    with 2(1) [OF False le _ u, of "a + 16 + t"] 2(2) show ?thesis by (simp del: of_nat_add)
  qed
qed simp

lemma laid_release:
  "laid m a bs \<Longrightarrow> used_at off bs = Some s \<Longrightarrow> fits a bs \<Longrightarrow>
   laid (set_free (of_nat (a + off)) 1 m) a (release off bs)"
proof (induction off bs arbitrary: a rule: used_at.induct)
  case (2 off t fr bs)
  let ?m = "set_free (of_nat (a + off)) 1 m"
  have hd: "hdr m a t (if bs = [] then 0 else a + 16 + t) fr" and tl: "laid m (a + 16 + t) bs"
    using 2(2) by simp_all
  have top: "a + 16 \<le> 4294967296" "a + 16 + t + span bs \<le> 4294967296" using 2(4) by simp_all
  have bound: "off + 16 + s \<le> 16 + t + span bs" using used_at_bound [OF 2(3)] by simp
  show ?case
  proof (cases "off = 0")
    case True
    have "laid ?m (a + 16 + t) bs"
      using laid_same_off [OF tl set_same_off(3) [OF top(1)] top(2)] True
      by (force dest: hdrs_bounds)
    then show ?thesis using hd True by (simp add: hdr_def)
  next
    case False
    with 2(3) have le: "16 + t \<le> off" and u: "used_at (off - (16 + t)) bs = Some s"
      by (auto split: if_splits)
    have eq: "a + 16 + t + (off - (16 + t)) = a + off" using le by simp
    have "laid ?m (a + 16 + t) (release (off - (16 + t)) bs)"
      using 2(1) [OF False le tl u fits_tail [OF 2(4)]] unfolding eq .
    moreover have "hdr ?m a t (if bs = [] then 0 else a + 16 + t) fr"
      using le bound top by (intro hdr_keeps [OF hd] set_keeps_other) auto
    ultimately show ?thesis using False le by simp
  qed
qed simp

lemma header_in_hdrs: "used_at off bs = Some s \<Longrightarrow> {a + off..<a + off + 16} \<subseteq> hdrs a bs"
proof (induction off bs arbitrary: a rule: used_at.induct)
  case (2 off t fr bs)
  show ?case
  proof (cases "off = 0")
    case False
    with 2(2) have le: "16 + t \<le> off" and u: "used_at (off - (16 + t)) bs = Some s"
      by (auto split: if_splits)
    have "a + 16 + t + (off - (16 + t)) = a + off" using le by simp
    with 2(1) [OF False le u, of "a + 16 + t"] show ?thesis by auto
  qed simp
qed simp

lemma links_header:
  "used_at off bs = Some s \<Longrightarrow> {a + off + 8..<a + off + 16} \<inter> links a bs = {}"
proof (induction off bs arbitrary: a rule: used_at.induct)
  case (2 off t fr bs)
  have lk: "x \<in> links (a + 16 + t) bs \<Longrightarrow> a + 16 + t \<le> x" for x
    using links_hdrs hdrs_bounds by blast
  show ?case
  proof (cases "off = 0")
    case True
    then show ?thesis using lk by force
  next
    case False
    with 2(2) have le: "16 + t \<le> off" and u: "used_at (off - (16 + t)) bs = Some s"
      by (auto split: if_splits)
    have "a + 16 + t + (off - (16 + t)) = a + off" using le by simp
    with 2(1) [OF False le u, of "a + 16 + t"] le show ?thesis by auto
  qed
qed simp

section \<open>The heap invariant\<close>

text \<open>
  \<open>heap_wf h m bs\<close>: the memory of heap \<open>h\<close> holds the blocks \<open>bs\<close>, which tile the arena
  from its first aligned address to its end, with aligned payloads and no two
  neighbouring free blocks. \<open>live h bs p s\<close>: \<open>p\<close> is an allocated payload of \<open>s\<close> bytes.
\<close>

definition heap_wf :: "kheap \<Rightarrow> mem \<Rightarrow> blocks \<Rightarrow> bool" where
  "heap_wf h m bs \<longleftrightarrow> bs \<noteq> [] \<and> fits (unat (hp_head h)) bs \<and> laid m (unat (hp_head h)) bs \<and>
     8 dvd unat (hp_head h) \<and> unat (hp_base h) \<le> unat (hp_head h) \<and>
     unat (hp_head h) + span bs = unat (hp_base h) + unat (hp_size h) \<and> aligned bs \<and> coalesced bs"

definition live :: "kheap \<Rightarrow> blocks \<Rightarrow> u32 \<Rightarrow> nat \<Rightarrow> bool" where
  "live h bs p s \<longleftrightarrow> unat (hp_head h) + 16 \<le> unat p \<and>
     used_at (unat p - unat (hp_head h) - 16) bs = Some s"

definition same_payload :: "u32 \<Rightarrow> nat \<Rightarrow> mem \<Rightarrow> mem \<Rightarrow> bool" where
  "same_payload p s m m' \<longleftrightarrow> (\<forall>i < s. m' (p + of_nat i) = m (p + of_nat i))"

lemma liveE:
  assumes "live h bs p s" "heap_wf h m bs"
  obtains off where "p = of_nat (unat (hp_head h) + off + 16)" "used_at off bs = Some s"
    "unat p = unat (hp_head h) + off + 16" "p - HDR = of_nat (unat (hp_head h) + off)"
    "unat p + s \<le> unat (hp_base h) + unat (hp_size h)" "unat p + s < 4294967296" "p \<noteq> 0"
proof -
  let ?off = "unat p - unat (hp_head h) - 16"
  have u: "used_at ?off bs = Some s" and le: "unat (hp_head h) + 16 \<le> unat p"
    using assms(1) by (simp_all add: live_def)
  have up: "unat p = unat (hp_head h) + ?off + 16" using le by simp
  have "unat p < 4294967296" by (rule unat_u32_less)
  then have p: "p = of_nat (unat (hp_head h) + ?off + 16)"
    using up by (subst u32_eq_of_nat_iff) simp_all
  moreover have "(of_nat (k + 16) :: u32) - HDR = of_nat k" for k by (simp add: HDR_def)
  ultimately have "p - HDR = of_nat (unat (hp_head h) + ?off)" by metis
  moreover have "unat p + s \<le> unat (hp_head h) + span bs" using used_at_bound [OF u] up by linarith
  moreover have "p \<noteq> 0" using up by auto
  ultimately show thesis using that [OF p u up] assms(2) by (auto simp: heap_wf_def fits_def)
qed

lemma liveI:
  "unat (hp_head h) + off + 16 < 4294967296 \<Longrightarrow> used_at off bs = Some s \<Longrightarrow>
   live h bs (of_nat (unat (hp_head h) + off + 16)) s"
  by (simp add: live_def unat_of_nat_u32 del: of_nat_add)

lemma live_disjoint:
  assumes "heap_wf h m bs" "live h bs p s" "live h bs q t" "p \<noteq> q"
  shows "unat p + s + 16 \<le> unat q \<or> unat q + t + 16 \<le> unat p"
proof -
  obtain off where p: "used_at off bs = Some s" "unat p = unat (hp_head h) + off + 16"
    by (rule liveE [OF assms(2,1)])
  obtain off' where q: "used_at off' bs = Some t" "unat q = unat (hp_head h) + off' + 16"
    by (rule liveE [OF assms(3,1)])
  have "off \<noteq> off'" using assms(4) p(2) q(2) by (metis word_unat_eq_iff)
  then show ?thesis
    using used_at_disjoint [OF p(1) q(1)] used_at_disjoint [OF q(1) p(1)] p(2) q(2) by linarith
qed

lemma live_payload_same:
  assumes "heap_wf h mx bs" "live h bs p s" "same_off H m m'" "H \<subseteq> hdrs (unat (hp_head h)) bs"
  shows "same_payload p s m m'"
  unfolding same_payload_def
proof (intro allI impI)
  fix i assume i: "i < s"
  obtain off where p: "p = of_nat (unat (hp_head h) + off + 16)" "used_at off bs = Some s"
    "unat p = unat (hp_head h) + off + 16" "unat p + s < 4294967296"
    by (rule liveE [OF assms(2,1)])
  let ?x = "unat (hp_head h) + off + 16 + i"
  have "?x \<in> {unat (hp_head h) + off + 16..<unat (hp_head h) + off + 16 + s}" using i by simp
  then have "?x \<notin> hdrs (unat (hp_head h)) bs"
    using used_payload_hdrs [OF p(2), of "unat (hp_head h)"] by blast
  then have "?x \<notin> H" "?x < 4294967296" using assms(4) p(3,4) i by auto
  then have "m' (of_nat ?x) = m (of_nat ?x)" using assms(3) unfolding same_off_def by blast
  then show "m' (p + of_nat i) = m (p + of_nat i)" unfolding p(1) by simp
qed

section \<open>The operations keep the invariant\<close>

lemma unat_align_up:
  assumes "unat v \<le> 4294967288"
  shows "unat (align_up v KH_ALIGN) = (unat v + 7) div 8 * 8"
proof -
  have "align_up v KH_ALIGN = push_bit 3 (drop_bit 3 (v + 7))"
    using and_not_mask_eq [of "v + 7" 3] by (simp add: align_up_def KH_ALIGN_def mask_eq_exp_minus_1)
  also have "\<dots> = (v + 7) div 8 * 8" by (simp add: push_bit_eq_mult drop_bit_eq_div)
  finally have "align_up v KH_ALIGN = (v + 7) div 8 * 8" .
  moreover have "unat (v + 7) = unat v + 7" using assms by (simp add: unat_word_ariths)
  ultimately show ?thesis using assms by (simp add: unat_word_ariths unat_div)
qed

definition round8 :: "u32 \<Rightarrow> nat" where
  "round8 v = (unat v + 7) div 8 * 8"

lemma round8_props: "8 dvd round8 v" "unat v \<le> round8 v" "round8 v < unat v + 8"
  by (auto simp: round8_def)

lemma alloc_loop_cases:
  assumes "heap_wf h m bs" "8 dvd n" "n < 4294967296"
  obtains (full) "first_fit n bs = None" "heap_alloc_loop m (of_nat n) (hp_head h) = Some (0, m)"
  | (got) off bs' m' where "first_fit n bs = Some (off, bs')"
      "heap_alloc_loop m (of_nat n) (hp_head h) = Some (of_nat (unat (hp_head h) + off + 16), m')"
      "heap_wf h m' bs'" "same_off (hdrs (unat (hp_head h)) bs') m m'"
proof -
  let ?a = "unat (hp_head h)"
  have wf: "laid m ?a bs" "fits ?a bs" "bs \<noteq> []" using assms(1) by (simp_all add: heap_wf_def)
  have hd: "(of_nat ?a :: u32) = hp_head h" by simp
  note ff = heap_alloc_loop_first_fit [OF wf assms(3), unfolded hd]
  show thesis
  proof (cases "first_fit n bs")
    case None
    with ff show thesis using full by simp
  next
    case (Some r)
    obtain off bs' where r: "r = (off, bs')" by fastforce
    with Some have sm: "first_fit n bs = Some (off, bs')" by simp
    with ff obtain m' where m': "heap_alloc_loop m (of_nat n) (hp_head h) = Some (of_nat (?a + off + 16), m')"
      "laid m' ?a bs'" "same_off (hdrs ?a bs') m m'" by auto
    have "heap_wf h m' bs'"
      using assms(1) m'(2) first_fit_nonempty [OF sm] first_fit_span [OF sm]
        coalesced_first_fit [OF sm] aligned_first_fit [OF sm _ assms(2)]
      by (simp add: heap_wf_def fits_def)
    with got sm m' show thesis by simp
  qed
qed

lemma heap_alloc_cases:
  assumes "heap_wf h m bs" "sz \<noteq> 0" "unat sz \<le> 4294967288"
  obtains (full) "first_fit (round8 sz) bs = None" "heap_alloc h sz m = Some (0, m)"
  | (got) off bs' m' where "first_fit (round8 sz) bs = Some (off, bs')"
      "heap_alloc h sz m = Some (of_nat (unat (hp_head h) + off + 16), m')" "heap_wf h m' bs'"
      "same_off (hdrs (unat (hp_head h)) bs') m m'"
proof -
  have n: "unat (align_up sz KH_ALIGN) = round8 sz" using unat_align_up [OF assms(3)] by (simp add: round8_def)
  have "align_up sz KH_ALIGN = of_nat (round8 sz)" by (metis n of_nat_unat ucast_id)
  then have eq: "heap_alloc h sz m = heap_alloc_loop m (of_nat (round8 sz)) (hp_head h)"
    using assms(2) by (simp add: heap_alloc_def)
  have lt: "round8 sz < 4294967296" using n unat_u32_less by metis
  show thesis
    by (rule alloc_loop_cases [OF assms(1) round8_props(1) lt]) (use full got eq in simp_all)
qed

lemma heap_free_live:
  assumes "heap_wf h m bs" "live h bs p s"
  obtains off m' where "p = of_nat (unat (hp_head h) + off + 16)" "used_at off bs = Some s"
    "heap_free h p m = Some m'" "heap_wf h m' (merge (release off bs))"
    "same_off (hdrs (unat (hp_head h)) bs) m m'" "heap_free h p m' = Some m'"
proof -
  let ?a = "unat (hp_head h)"
  obtain off where off: "p = of_nat (?a + off + 16)" "used_at off bs = Some s"
    "unat p = ?a + off + 16" "p - HDR = of_nat (?a + off)" "p \<noteq> 0" by (rule liveE [OF assms(2,1)])
  have wf: "laid m ?a bs" "fits ?a bs" "bs \<noteq> []" using assms(1) by (simp_all add: heap_wf_def)
  have top: "?a + off + 16 \<le> 4294967296" using off(3) unat_u32_less [of p] by simp
  define m1 where "m1 = set_free (of_nat (?a + off)) 1 m"
  have f: "b_free m (p - HDR) = 0" "b_magic m (p - HDR) = KH_MAGIC"
    using laid_used [OF wf(1) off(2)] unfolding off(4) by simp_all
  have l1: "laid m1 ?a (release off bs)" unfolding m1_def by (rule laid_release [OF wf(1) off(2) wf(2)])
  have "fits ?a (release off bs)" using wf(2) by (simp add: fits_def)
  with coalesce_loop_merge [OF l1] wf(3) obtain m' where m': "coalesce_loop m1 (of_nat ?a) = Some m'"
    "laid m' ?a (merge (release off bs))" "same_off (links ?a (release off bs)) m1 m'" by auto
  have free: "heap_free h p m = Some m'"
    using f off(5) m'(1) [unfolded m1_def off(4) [symmetric]]
    by (simp add: heap_free_def coalesce_def Let_def)
  have wf': "heap_wf h m' (merge (release off bs))"
    using assms(1) m'(2) by (simp add: heap_wf_def fits_def coalesced_merge aligned_merge)
  have head: "{?a + off..<?a + off + 16} \<subseteq> hdrs ?a bs"
    using off(2) by (rule header_in_hdrs)
  have "same_off (hdrs ?a bs) m m1"
    unfolding m1_def by (rule same_off_mono [OF set_same_off(3) [OF top] head])
  moreover have "same_off (hdrs ?a bs) m1 m'"
    using same_off_mono [OF m'(3) links_hdrs] by simp
  ultimately have same: "same_off (hdrs ?a bs) m m'" by (rule same_off_trans)
  have "links ?a (release off bs) \<inter> {?a + off + 8..<?a + off + 16} = {}"
    using links_header [OF off(2), of ?a] by auto
  then have k: "keeps (?a + off + 8) (?a + off + 16) m1 m'"
    using top by (intro same_off_keeps [OF m'(3)]) simp_all
  have "b_free m' (of_nat (?a + off)) = b_free m1 (of_nat (?a + off))"
    using rd32_keeps [OF keeps_mono [OF k, of "?a + off + 8" "?a + off + 8 + 4"]]
    by (simp add: field_defs)
  then have "b_free m' (p - HDR) = 1" unfolding off(4) m1_def by simp
  then have "heap_free h p m' = Some m'" by (simp add: heap_free_def Let_def)
  with that off(1,2) free wf' same show thesis by blast
qed

section \<open>The allocator interface\<close>

lemma same_payload_refl [simp]: "same_payload p s m m"
  by (simp add: same_payload_def)

lemma same_payload_trans: "same_payload p s m m' \<Longrightarrow> same_payload p s m' m'' \<Longrightarrow> same_payload p s m m''"
  by (simp add: same_payload_def)

text \<open>
  What a client of the heap may rely on: live payloads are disjoint ranges of the
  address space, a client may store into a live payload, an allocation adds one live
  payload, a release removes one, and neither touches the bytes of the others.
\<close>

locale byte_allocator =
  fixes inv :: "mem \<Rightarrow> bool"
    and alive :: "mem \<Rightarrow> u32 \<Rightarrow> nat \<Rightarrow> bool"
    and alloc :: "u32 \<Rightarrow> mem \<Rightarrow> (u32 \<times> mem) option"
    and dealloc :: "u32 \<Rightarrow> mem \<Rightarrow> mem option"
  assumes alive_range: "inv m \<Longrightarrow> alive m p n \<Longrightarrow> p \<noteq> 0 \<and> unat p + n < 4294967296"
    and alive_disjoint: "inv m \<Longrightarrow> alive m p n \<Longrightarrow> alive m q k \<Longrightarrow> p \<noteq> q \<Longrightarrow>
      unat p + n \<le> unat q \<or> unat q + k \<le> unat p"
    and alive_fun: "inv m \<Longrightarrow> alive m p n \<Longrightarrow> alive m p k \<Longrightarrow> n = k"
    and store: "inv m \<Longrightarrow> alive m p n \<Longrightarrow> i < n \<Longrightarrow>
      inv (m(p + of_nat i := v)) \<and> alive (m(p + of_nat i := v)) = alive m"
    and alloc_result: "inv m \<Longrightarrow> sz \<noteq> 0 \<Longrightarrow> unat sz \<le> 4294967288 \<Longrightarrow>
      alloc sz m = Some (0, m) \<or>
      (\<exists>p m' n. alloc sz m = Some (p, m') \<and> inv m' \<and> p \<noteq> 0 \<and> round8 sz \<le> n \<and>
         (\<forall>k. \<not> alive m p k) \<and> alive m' = (alive m)(p := (\<lambda>k. k = n)) \<and>
         (\<forall>q k. alive m q k \<longrightarrow> same_payload q k m m'))"
    and dealloc_result: "inv m \<Longrightarrow> alive m p n \<Longrightarrow>
      \<exists>m'. dealloc p m = Some m' \<and> inv m' \<and> alive m' = (alive m)(p := (\<lambda>_. False)) \<and>
         (\<forall>q k. q \<noteq> p \<longrightarrow> alive m q k \<longrightarrow> same_payload q k m m')"
begin

lemma outside:
  assumes "inv m" "alive m p n" "alive m q k" "p \<noteq> q" "i < n" "j < k"
  shows "p + of_nat i \<noteq> q + of_nat j"
proof
  assume eq: "p + of_nat i = q + of_nat j"
  have "unat (p + of_nat i) = unat p + i" "unat (q + of_nat j) = unat q + j"
    using alive_range [OF assms(1,2)] alive_range [OF assms(1,3)] assms(5,6)
    by (simp_all add: unat_add_u32 unat_of_nat_u32)
  with eq alive_disjoint [OF assms(1-4)] assms(5,6) show False by simp
qed

lemma store_other:
  assumes "inv m" "alive m p n" "alive m q k" "p \<noteq> q" "i < n"
  shows "same_payload q k m (m(p + of_nat i := v))"
  unfolding same_payload_def using outside [OF assms(1-5)] by fastforce

lemma zero_payload:
  assumes "inv m" "alive m p n" "i + c \<le> n" "\<forall>j < i. m (p + of_nat j) = 0"
  shows "inv (zero_loop p (of_nat i) c m) \<and> alive (zero_loop p (of_nat i) c m) = alive m \<and>
    (\<forall>j < i + c. zero_loop p (of_nat i) c m (p + of_nat j) = 0) \<and>
    (\<forall>q k. q \<noteq> p \<longrightarrow> alive m q k \<longrightarrow> same_payload q k m (zero_loop p (of_nat i) c m))"
  using assms
proof (induction c arbitrary: i m)
  case (Suc c)
  define m1 where "m1 = m(p + of_nat i := 0)"
  have i: "i < n" using Suc.prems(3) by simp
  have st: "inv m1" "alive m1 = alive m" using store [OF Suc.prems(1,2) i] by (simp_all add: m1_def)
  have z: "\<forall>j < Suc i. m1 (p + of_nat j) = 0" using Suc.prems(4) by (auto simp: less_Suc_eq m1_def)
  have al: "alive m1 p n" using st(2) Suc.prems(2) by simp
  have le: "Suc i + c \<le> n" using Suc.prems(3) by simp
  have eq: "zero_loop p (of_nat i) (Suc c) m = zero_loop p (of_nat (Suc i)) c m1"
    by (simp add: add.commute m1_def)
  have oth: "same_payload q k m m1" if "q \<noteq> p" "alive m q k" for q k
    using store_other [OF Suc.prems(1,2) that(2) _ i] that(1) unfolding m1_def by blast
  show ?case unfolding eq using Suc.IH [OF st(1) al le z] oth same_payload_trans
    unfolding st(2) add_Suc add_Suc_right by blast
qed simp

lemma copy_payload:
  assumes "inv m" "alive m d n" "alive m s k" "d \<noteq> s" "i + c \<le> n" "i + c \<le> k"
    and "\<forall>j < i. m (d + of_nat j) = m (s + of_nat j)"
  shows "inv (kh_memcpy_loop d s (of_nat i) c m) \<and> alive (kh_memcpy_loop d s (of_nat i) c m) = alive m \<and>
    (\<forall>j < i + c. kh_memcpy_loop d s (of_nat i) c m (d + of_nat j) = m (s + of_nat j)) \<and>
    (\<forall>q r. q \<noteq> d \<longrightarrow> alive m q r \<longrightarrow> same_payload q r m (kh_memcpy_loop d s (of_nat i) c m))"
  using assms
proof (induction c arbitrary: i m)
  case (Suc c)
  define m1 where "m1 = m(d + of_nat i := m (s + of_nat i))"
  have i: "i < n" using Suc.prems(5) by simp
  have st: "inv m1" "alive m1 = alive m" using store [OF Suc.prems(1,2) i] by (simp_all add: m1_def)
  have oth: "same_payload q r m m1" if "q \<noteq> d" "alive m q r" for q r
    using store_other [OF Suc.prems(1,2) that(2) _ i] that(1) unfolding m1_def by blast
  have src: "m1 (s + of_nat j) = m (s + of_nat j)" if "j < k" for j
    using oth [of s k] Suc.prems(3,4) that by (auto simp: same_payload_def)
  have z: "m1 (d + of_nat j) = m1 (s + of_nat j)" if "j < Suc i" for j
  proof -
    have "m1 (d + of_nat j) = (if (of_nat j :: u32) = of_nat i then m (s + of_nat j) else m (d + of_nat j))"
      unfolding m1_def by simp
    moreover have "m (d + of_nat j) = m (s + of_nat j)" if "j \<noteq> i"
      using Suc.prems(7) \<open>j < Suc i\<close> that by simp
    ultimately show ?thesis using src [of j] that Suc.prems(6) by (cases "j = i") simp_all
  qed
  have al: "alive m1 d n" "alive m1 s k" using st(2) Suc.prems(2,3) by simp_all
  have le: "Suc i + c \<le> n" "Suc i + c \<le> k" using Suc.prems(5,6) by simp_all
  have eq: "kh_memcpy_loop d s (of_nat i) (Suc c) m = kh_memcpy_loop d s (of_nat (Suc i)) c m1"
    by (simp add: add.commute m1_def)
  note IH = Suc.IH [OF st(1) al Suc.prems(4) le, unfolded st(2)]
  have "\<forall>j < Suc i. m1 (d + of_nat j) = m1 (s + of_nat j)" using z by blast
  note IH = IH [OF this]
  have "\<forall>j < i + Suc c. kh_memcpy_loop d s (of_nat (Suc i)) c m1 (d + of_nat j) = m (s + of_nat j)"
    using IH src le(2) by simp
  moreover have "\<forall>q r. q \<noteq> d \<longrightarrow> alive m q r \<longrightarrow> same_payload q r m (kh_memcpy_loop d s (of_nat (Suc i)) c m1)"
    using IH oth same_payload_trans by blast
  ultimately show ?case unfolding eq using IH by blast
qed simp

end

section \<open>The heap implements the allocator interface\<close>

text \<open>The block list is determined by the memory.\<close>

lemma laid_unique:
  "laid m a bs \<Longrightarrow> laid m a cs \<Longrightarrow> fits a bs \<Longrightarrow> fits a cs \<Longrightarrow> bs \<noteq> [] \<Longrightarrow> cs \<noteq> [] \<Longrightarrow> bs = cs"
proof (induction bs arbitrary: a cs)
  case (Cons b bs)
  obtain s fr where b: "b = (s, fr)" by fastforce
  obtain t fr' cs' where cs: "cs = (t, fr') # cs'" using Cons.prems(6) by (cases cs) auto
  note f = laid_fields [OF Cons.prems(1) [unfolded b]] laid_fields [OF Cons.prems(2) [unfolded cs]]
  have lt: "s < 4294967296" "t < 4294967296" "a + 16 + s < 4294967296"
    using Cons.prems(3,4) by (simp_all add: b cs)
  have st: "s = t" using f(1,5) lt by (metis unat_of_nat_u32)
  have fr: "fr = fr'" using f(2,6) by (cases fr; cases fr') auto
  have nz: "(of_nat (a + 16 + s) :: u32) \<noteq> 0" using lt(3) by (subst of_nat_u32_eq_0) simp_all
  have "bs = [] \<longleftrightarrow> cs' = []" using f(4,8) st nz by (auto simp del: of_nat_add split: if_splits)
  then show ?case
    using Cons.IH [of "a + 16 + s" cs'] Cons.prems b cs st fr
    by (cases "bs = []") (auto simp: fits_def)
qed simp

definition heap_ok :: "kheap \<Rightarrow> mem \<Rightarrow> bool" where
  "heap_ok h m \<longleftrightarrow> (\<exists>bs. heap_wf h m bs)"

definition heap_live :: "kheap \<Rightarrow> mem \<Rightarrow> u32 \<Rightarrow> nat \<Rightarrow> bool" where
  "heap_live h m p n \<longleftrightarrow> (\<exists>bs. heap_wf h m bs \<and> live h bs p n)"

lemma heap_wf_unique: "heap_wf h m bs \<Longrightarrow> heap_wf h m cs \<Longrightarrow> bs = cs"
  by (auto simp: heap_wf_def intro: laid_unique)

lemma heap_live_wf: "heap_wf h m bs \<Longrightarrow> heap_live h m p n \<longleftrightarrow> live h bs p n"
  by (auto simp: heap_live_def dest: heap_wf_unique)

lemma live_fun: "live h bs p n \<Longrightarrow> live h bs p k \<Longrightarrow> n = k"
  by (simp add: live_def)

lemma heap_wf_store:
  assumes "heap_wf h m bs" "live h bs p n" "i < n"
  shows "heap_wf h (m(p + of_nat i := v)) bs"
proof -
  let ?a = "unat (hp_head h)"
  obtain off where p: "p = of_nat (?a + off + 16)" "used_at off bs = Some n"
    "unat p = ?a + off + 16" "unat p + n < 4294967296" by (rule liveE [OF assms(2,1)])
  have u: "unat (p + of_nat i) = ?a + off + 16 + i"
    using p(3,4) assms(3) by (simp add: unat_add_u32 unat_of_nat_u32)
  have "laid (m(p + of_nat i := v)) ?a bs"
  proof (rule laid_keeps)
    show "laid m ?a bs" using assms(1) by (simp add: heap_wf_def)
    fix x assume x: "x \<in> hdrs ?a bs"
    have "fits ?a bs" using assms(1) by (simp add: heap_wf_def)
    then have lt: "x < 4294967296" using hdrs_bounds [OF x] by (simp add: fits_def)
    have "?a + off + 16 + i \<in> {?a + off + 16..<?a + off + 16 + n}" using assms(3) by simp
    then have "x \<noteq> ?a + off + 16 + i" using used_payload_hdrs [OF p(2), of ?a] x by blast
    then have "of_nat x \<noteq> p + of_nat i" using u unat_of_nat_u32 [OF lt] by metis
    then show "(m(p + of_nat i := v)) (of_nat x) = m (of_nat x)" by simp
  qed
  then show ?thesis using assms(1) by (simp add: heap_wf_def)
qed

lemma heap_alloc_live:
  assumes "heap_wf h m bs" "sz \<noteq> 0" "unat sz \<le> 4294967288" "heap_alloc h sz m = Some (p, m')" "p \<noteq> 0"
  obtains off bs' n where "first_fit (round8 sz) bs = Some (off, bs')" "used_at off bs' = Some n"
    "p = of_nat (unat (hp_head h) + off + 16)" "heap_wf h m' bs'" "round8 sz \<le> n" "live h bs' p n"
    "\<forall>k. \<not> live h bs p k" "\<forall>q. q \<noteq> p \<longrightarrow> live h bs' q = live h bs q"
    "\<forall>q k. live h bs q k \<longrightarrow> same_payload q k m m'"
  using assms(1-3)
proof (cases rule: heap_alloc_cases)
  case full
  with assms(4,5) show thesis by simp
next
  case (got off bs' m'')
  let ?a = "unat (hp_head h)"
  have eq: "m'' = m'" "p = of_nat (?a + off + 16)" using got(2) assms(4) by auto
  obtain n where n: "used_at off bs' = Some n" "round8 sz \<le> n" using used_at_first_fit(1) [OF got(1)] by blast
  have "fits ?a bs'" using got(3) by (simp add: heap_wf_def)
  then have lt: "?a + off + 16 < 4294967296" using used_at_bound [OF n(1)] by (simp add: fits_def)
  then have up: "unat p = ?a + off + 16" unfolding eq(2) by (rule unat_of_nat_u32)
  have lv: "live h bs' p n" unfolding eq(2) by (rule liveI [OF lt n(1)])
  have fresh: "\<forall>k. \<not> live h bs p k" using used_at_first_fit(2) [OF got(1)] up by (simp add: live_def)
  have oth: "live h bs' q = live h bs q" if "q \<noteq> p" for q
  proof (cases "?a + 16 \<le> unat q")
    case True
    then have "unat q - ?a - 16 \<noteq> off" using that up by (metis add.assoc add.commute diff_diff_left le_add_diff_inverse word_unat_eq_iff)
    then show ?thesis using used_at_first_fit(3) [OF got(1)] by (simp add: live_def fun_eq_iff)
  qed (simp add: live_def fun_eq_iff)
  have same: "same_payload q k m m'" if "live h bs q k" for q k
  proof -
    have "q \<noteq> p" using that fresh by blast
    then have "live h bs' q k" using that oth by simp
    from live_payload_same [OF got(3) this got(4) subset_refl] eq(1) show ?thesis by simp
  qed
  show thesis
    by (rule that [OF got(1) n(1) eq(2) got(3) [unfolded eq(1)] n(2) lv fresh])
      (use oth same in blast)+
qed

interpretation kh: byte_allocator "heap_ok h" "heap_live h" "heap_alloc h" "heap_free h" for h
proof unfold_locales
  fix m p n assume "heap_live h m p n"
  then obtain bs where "heap_wf h m bs" "live h bs p n" by (auto simp: heap_live_def)
  then show "p \<noteq> 0 \<and> unat p + n < 4294967296" by (auto elim: liveE)
next
  fix m p n q k assume "heap_live h m p n" "heap_live h m q k" "p \<noteq> q"
  then obtain bs where "heap_wf h m bs" "live h bs p n" "live h bs q k"
    by (auto simp: heap_live_def dest: heap_wf_unique)
  from live_disjoint [OF this \<open>p \<noteq> q\<close>] show "unat p + n \<le> unat q \<or> unat q + k \<le> unat p" by linarith
next
  fix m p n k assume "heap_live h m p n" "heap_live h m p k"
  then show "n = k" by (auto simp: heap_live_def dest: heap_wf_unique live_fun)
next
  fix m p n i v assume "heap_live h m p n" "i < n"
  then obtain bs where bs: "heap_wf h m bs" "live h bs p n" by (auto simp: heap_live_def)
  note wf = heap_wf_store [OF this \<open>i < n\<close>, of v]
  then have "heap_ok h (m(p + of_nat i := v))" by (auto simp: heap_ok_def)
  moreover have "heap_live h (m(p + of_nat i := v)) = heap_live h m"
    by (intro ext) (simp only: heap_live_wf [OF wf] heap_live_wf [OF bs(1)])
  ultimately show "heap_ok h (m(p + of_nat i := v)) \<and> heap_live h (m(p + of_nat i := v)) = heap_live h m"
    by blast
next
  fix m and sz :: u32 assume "heap_ok h m" and sz: "sz \<noteq> 0" "unat sz \<le> 4294967288"
  then obtain bs where bs: "heap_wf h m bs" by (auto simp: heap_ok_def)
  from bs sz obtain p m' where al: "heap_alloc h sz m = Some (p, m')" "p = 0 \<longrightarrow> m' = m"
  proof (cases rule: heap_alloc_cases)
    case (got off bs' m'')
    have "fits (unat (hp_head h)) bs'" using got(3) by (simp add: heap_wf_def)
    moreover obtain n where "used_at off bs' = Some n" using used_at_first_fit(1) [OF got(1)] by blast
    ultimately have "unat (hp_head h) + off + 16 < 4294967296"
      using used_at_bound [of off bs' n] by (simp add: fits_def)
    then have "(of_nat (unat (hp_head h) + off + 16) :: u32) \<noteq> 0" by (subst of_nat_u32_eq_0) simp_all
    with that got(2) show thesis by blast
  qed blast
  show "heap_alloc h sz m = Some (0, m) \<or>
      (\<exists>p m' n. heap_alloc h sz m = Some (p, m') \<and> heap_ok h m' \<and> p \<noteq> 0 \<and> round8 sz \<le> n \<and>
         (\<forall>k. \<not> heap_live h m p k) \<and> heap_live h m' = (heap_live h m)(p := (\<lambda>k. k = n)) \<and>
         (\<forall>q k. heap_live h m q k \<longrightarrow> same_payload q k m m'))"
  proof (cases "p = 0")
    case False
    from bs sz al(1) False obtain bs' n where r: "heap_wf h m' bs'" "round8 sz \<le> n" "live h bs' p n"
      "\<forall>k. \<not> live h bs p k" "\<forall>q. q \<noteq> p \<longrightarrow> live h bs' q = live h bs q"
      "\<forall>q k. live h bs q k \<longrightarrow> same_payload q k m m'" by (rule heap_alloc_live)
    have "heap_live h m' = (heap_live h m)(p := (\<lambda>k. k = n))"
      using r(3,5) by (intro ext) (auto simp: heap_live_wf [OF r(1)] heap_live_wf [OF bs] dest: live_fun)
    moreover have "heap_ok h m'" using r(1) by (auto simp: heap_ok_def)
    ultimately show ?thesis using al(1) False r(2,4,6) by (auto simp: heap_live_wf [OF bs])
  qed (use al in simp)
next
  fix m p n assume "heap_live h m p n"
  then obtain bs where bs: "heap_wf h m bs" "live h bs p n" by (auto simp: heap_live_def)
  then obtain off m' where r: "p = of_nat (unat (hp_head h) + off + 16)" "used_at off bs = Some n"
    "heap_free h p m = Some m'" "heap_wf h m' (merge (release off bs))"
    "same_off (hdrs (unat (hp_head h)) bs) m m'" by (rule heap_free_live)
  have up: "unat p = unat (hp_head h) + off + 16"
    unfolding r(1) using used_at_bound [OF r(2)] bs(1)
    by (intro unat_of_nat_u32) (simp add: heap_wf_def fits_def)
  have "heap_live h m' = (heap_live h m)(p := (\<lambda>_. False))"
    using used_at_release [OF r(2)] up
    by (intro ext) (auto simp: heap_live_wf [OF r(4)] heap_live_wf [OF bs(1)] live_def word_unat_eq_iff)
  moreover have "heap_ok h m'" using r(4) by (auto simp: heap_ok_def)
  moreover have "same_payload q k m m'" if "heap_live h m q k" for q k
    using live_payload_same [OF bs(1) _ r(5) subset_refl] that by (simp add: heap_live_wf [OF bs(1)])
  ultimately show "\<exists>m'. heap_free h p m = Some m' \<and> heap_ok h m' \<and>
      heap_live h m' = (heap_live h m)(p := (\<lambda>_. False)) \<and>
      (\<forall>q k. q \<noteq> p \<longrightarrow> heap_live h m q k \<longrightarrow> same_payload q k m m')" using r(3) by blast
qed

section \<open>Allocation followed by release\<close>

lemma merge_Cons_merge: "merge ((s, fr) # merge bs) = merge ((s, fr) # bs)"
proof (induction bs arbitrary: s fr rule: merge.induct)
  case (1 t f u g bs)
  show ?case
  proof (cases "f \<and> g")
    case True
    with 1(1) [OF True] show ?thesis by (simp add: add.assoc add.left_commute)
  next
    case False
    with 1(2) [OF False] show ?thesis by auto
  qed
qed simp_all

lemma first_fit_release:
  "first_fit n bs = Some (off, bs') \<Longrightarrow> coalesced bs \<Longrightarrow> merge (release off bs') = bs"
proof (induction n bs arbitrary: off bs' rule: first_fit.induct)
  case (2 n s fr bs)
  show ?case
  proof (cases "fr \<and> n \<le> s")
    case True
    with 2(2,3) merge_coalesced [of "(s, True) # bs"] show ?thesis by (auto split: if_splits)
  next
    case False
    then have "map_option (\<lambda>(off, bs'). (16 + s + off, (s, fr) # bs')) (first_fit n bs) = Some (off, bs')"
      using 2(2) by auto
    then obtain o' cs where ff: "first_fit n bs = Some (o', cs)" and bs': "bs' = (s, fr) # cs"
      "off = 16 + s + o'" by auto
    have "coalesced bs" using 2(3) by (cases bs) auto
    with 2(1) [OF False ff] have "merge (release o' cs) = bs" by blast
    then have "merge ((s, fr) # release o' cs) = merge ((s, fr) # bs)" by (metis merge_Cons_merge)
    with merge_coalesced [OF 2(3)] bs' show ?thesis by simp
  qed
qed simp

section \<open>Accounting and the consistency check\<close>

fun used_total :: "blocks \<Rightarrow> nat" where
  "used_total [] = 0"
| "used_total ((s, fr) # bs) = (if fr then 0 else s) + used_total bs"

fun free_total :: "blocks \<Rightarrow> nat" where
  "free_total [] = 0"
| "free_total ((s, fr) # bs) = (if fr then s else 0) + free_total bs"

lemma span_total: "span bs = used_total bs + free_total bs + 16 * length bs"
  by (induction bs rule: span.induct) auto

lemma loops_null [simp]:
  "heap_used_loop m 0 u = Some u" "heap_free_bytes_loop m 0 u = Some u"
  "heap_blocks_loop m 0 u = Some u" "heap_check_loop m lo hi 0 = Some True"
  by (simp_all add: heap_used_loop.simps heap_free_bytes_loop.simps heap_blocks_loop.simps
      heap_check_loop.simps)

lemma walk_step:
  assumes "laid m a ((s, fr) # bs)" "fits a ((s, fr) # bs)"
  shows "(of_nat a :: u32) \<noteq> 0" "laid m (a + 16 + s) bs" "fits (a + 16 + s) bs"
  using assms fits_tail [OF assms(2)] by (simp_all add: of_nat_u32_eq_0)

lemma heap_used_loop_total:
  assumes "laid m a bs" "fits a bs" "bs \<noteq> []"
  shows "heap_used_loop m (of_nat a) u = Some (u + of_nat (used_total bs))"
  using assms
proof (induction bs arbitrary: a u rule: used_total.induct)
  case (2 s fr bs)
  note w = walk_step [OF 2(2,3)]
  show ?case using w(1) laid_fields [OF 2(2)] 2(1) [OF w(2,3)] by (subst heap_used_loop.simps) simp
qed simp

lemma heap_free_bytes_loop_total:
  assumes "laid m a bs" "fits a bs" "bs \<noteq> []"
  shows "heap_free_bytes_loop m (of_nat a) u = Some (u + of_nat (free_total bs))"
  using assms
proof (induction bs arbitrary: a u rule: free_total.induct)
  case (2 s fr bs)
  note w = walk_step [OF 2(2,3)]
  show ?case using w(1) laid_fields [OF 2(2)] 2(1) [OF w(2,3)] by (subst heap_free_bytes_loop.simps) simp
qed simp

lemma heap_blocks_loop_length:
  assumes "laid m a bs" "fits a bs" "bs \<noteq> []"
  shows "heap_blocks_loop m (of_nat a) c = Some (c + of_nat (length bs))"
  using assms
proof (induction bs arbitrary: a c rule: span.induct)
  case (2 s fr bs)
  note w = walk_step [OF 2(2,3)]
  show ?case using w(1) laid_fields [OF 2(2)] 2(1) [OF w(2,3)] by (subst heap_blocks_loop.simps) simp
qed simp

lemma heap_check_loop_ok:
  assumes "laid m a bs" "fits a bs" "bs \<noteq> []" "unat lo \<le> a" "a + span bs \<le> unat hi"
  shows "heap_check_loop m lo hi (of_nat a) = Some True"
  using assms
proof (induction bs arbitrary: a rule: span.induct)
  case (2 s fr bs)
  note w = walk_step [OF 2(2,3)]
  have e: "of_nat a + HDR + of_nat s = (of_nat (a + 16 + s) :: u32)" by (simp add: HDR_def)
  have "a + 16 + s < 4294967296" using 2(3) by simp
  then have "\<not> of_nat a < lo" "\<not> hi < of_nat (a + 16 + s)"
    using 2(5,6) by (simp_all add: word_less_nat_alt unat_of_nat_u32 del: of_nat_add)
  moreover have "heap_check_loop m lo hi (of_nat (if bs = [] then 0 else a + 16 + s)) = Some True"
    using 2(1) [OF w(2,3)] 2(5,6) by (simp del: of_nat_add)
  ultimately show ?case using w(1) laid_fields [OF 2(2)] e
    by (subst heap_check_loop.simps) (auto simp: Let_def simp del: of_nat_add)
qed simp

section \<open>Initialisation, reallocation and zeroed allocation\<close>

lemma ualign_up_eq: "ualign_up = align_up"
  by (intro ext) (simp add: ualign_up_def align_up_def)

lemma heap_init_wf:
  assumes "arena \<noteq> 0" "unat arena + unat sz < 4294967296" "32 \<le> unat sz" "heap_init arena sz m = (h, m')"
  shows "heap_wf h m' [(unat sz - (round8 arena - unat arena) - 16, True)]"
    "hp_base h = arena" "hp_size h = sz"
proof -
  let ?start = "ualign_up arena KH_ALIGN" and ?r = "round8 arena"
  have us: "unat ?start = ?r" unfolding ualign_up_eq round8_def using assms(2,3) by (intro unat_align_up) simp
  have pos: "0 < unat arena" using assms(1) by (simp add: unat_gt_0)
  note r = round8_props [of arena]
  have adj: "unat (?start - arena) = ?r - unat arena"
    using us r(2) by (subst unat_sub) (simp_all add: word_le_nat_alt)
  have ge: "\<not> sz < ?start - arena + HDR + KH_ALIGN"
    using adj r(2,3) assms(2,3)
    by (simp add: word_less_nat_alt HDR_def KH_ALIGN_def unat_add_u32)
  have sz': "sz - (?start - arena) - HDR = of_nat (unat sz - (?r - unat arena) - 16)"
  proof -
    have "unat (sz - (?start - arena)) = unat sz - (?r - unat arena)"
      using adj r(2,3) assms(3) by (subst unat_sub) (simp_all add: word_le_nat_alt)
    then have "unat (sz - (?start - arena) - HDR) = unat sz - (?r - unat arena) - 16"
      using adj r(2,3) assms(3) by (subst unat_sub) (simp_all add: word_le_nat_alt HDR_def)
    then show ?thesis by (metis of_nat_unat ucast_id)
  qed
  have h: "h = \<lparr>hp_base = arena, hp_size = sz, hp_head = ?start\<rparr>"
    and m': "m' = (set_magic ?start KH_MAGIC \<circ> set_free ?start 1 \<circ> set_next ?start 0 \<circ>
                set_size ?start (sz - (?start - arena) - HDR)) m"
    using assms(4) ge by (simp_all add: heap_init_def Let_def)
  have st: "(of_nat ?r :: u32) = ?start" unfolding us [symmetric] by simp
  have "hdr m' ?r (unat sz - (?r - unat arena) - 16) 0 True"
    unfolding hdr_def st m' by (simp add: sz')
  then show "heap_wf h m' [(unat sz - (?r - unat arena) - 16, True)]"
    using us r pos assms(2,3) by (simp add: heap_wf_def h dvd_imp_le)
  show "hp_base h = arena" "hp_size h = sz" by (simp_all add: h)
qed

lemma live_fields:
  assumes "heap_wf h m bs" "live h bs p n"
  shows "b_size m (p - HDR) = of_nat n" "b_free m (p - HDR) = 0" "b_magic m (p - HDR) = KH_MAGIC"
    "n < 4294967296"
proof -
  obtain off where p: "used_at off bs = Some n" "p - HDR = of_nat (unat (hp_head h) + off)"
    "unat p + n < 4294967296" by (rule liveE [OF assms(2,1)])
  have "laid m (unat (hp_head h)) bs" using assms(1) by (simp add: heap_wf_def)
  from laid_used [OF this p(1)] p(2,3)
  show "b_size m (p - HDR) = of_nat n" "b_free m (p - HDR) = 0" "b_magic m (p - HDR) = KH_MAGIC"
    "n < 4294967296" by simp_all
qed

lemma heap_realloc_cases:
  assumes "heap_ok h m" "heap_live h m p n" "sz \<noteq> 0" "unat sz \<le> 4294967288"
  obtains (in_place) "round8 sz \<le> n" "heap_realloc h p sz m = Some (p, m)"
  | (full) "heap_realloc h p sz m = Some (0, m)"
  | (moved) np m' k where "heap_realloc h p sz m = Some (np, m')" "np \<noteq> 0" "np \<noteq> p" "heap_ok h m'"
      "n < round8 sz" "round8 sz \<le> k" "heap_live h m' = (heap_live h m)(np := (\<lambda>r. r = k), p := (\<lambda>_. False))"
      "\<forall>i < n. m' (np + of_nat i) = m (p + of_nat i)"
      "\<forall>q r. q \<noteq> p \<longrightarrow> heap_live h m q r \<longrightarrow> same_payload q r m m'" "\<forall>r. \<not> heap_live h m np r"
proof -
  obtain bs where bs: "heap_wf h m bs" "live h bs p n" using assms(2) by (auto simp: heap_live_def)
  note f = live_fields [OF bs]
  have p0: "p \<noteq> 0" using kh.alive_range [OF assms(1,2)] by simp
  have ge: "align_up sz KH_ALIGN \<le> b_size m (p - HDR) \<longleftrightarrow> round8 sz \<le> n"
    using f(1,4) unat_align_up [OF assms(4)] by (simp add: word_le_nat_alt unat_of_nat_u32 round8_def)
  show thesis
  proof (cases "round8 sz \<le> n")
    case True
    then show thesis using in_place p0 assms(3) f(3) ge by (simp add: heap_realloc_def Let_def)
  next
    case lt: False
    from kh.alloc_result [OF assms(1,3,4)] consider "heap_alloc h sz m = Some (0, m)" |
      np m1 k where "heap_alloc h sz m = Some (np, m1)" "heap_ok h m1" "np \<noteq> 0" "round8 sz \<le> k"
        "\<forall>k. \<not> heap_live h m np k" "heap_live h m1 = (heap_live h m)(np := (\<lambda>r. r = k))"
        "\<forall>q r. heap_live h m q r \<longrightarrow> same_payload q r m m1" by blast
    then show thesis
    proof cases
      case 1
      then show thesis using full p0 assms(3) f(3) ge lt by (simp add: heap_realloc_def Let_def)
    next
      case (2 np m1 k)
      have ne: "np \<noteq> p" using 2(5) assms(2) by blast
      have lv: "heap_live h m1 np k" "heap_live h m1 p n" using 2(6) ne assms(2) by simp_all
      then obtain bs1 where bs1: "heap_wf h m1 bs1" "live h bs1 p n" by (auto simp: heap_live_def)
      have sz1: "b_size m1 (p - HDR) = of_nat n" by (rule live_fields(1) [OF bs1])
      define m2 where "m2 = kh_memcpy np p (of_nat n) m1"
      have m2: "m2 = kh_memcpy_loop np p (of_nat 0) n m1"
        using f(4) by (simp add: m2_def kh_memcpy_def unat_of_nat_u32)
      have nk: "n \<le> k" using lt 2(4) by simp
      have cp: "heap_ok h m2 \<and> heap_live h m2 = heap_live h m1 \<and>
          (\<forall>j < n. m2 (np + of_nat j) = m1 (p + of_nat j)) \<and>
          (\<forall>q r. q \<noteq> np \<longrightarrow> heap_live h m1 q r \<longrightarrow> same_payload q r m1 m2)"
        using kh.copy_payload [OF 2(2) lv ne, of 0 n] nk unfolding m2 by simp
      have ok2: "heap_ok h m2" "heap_live h m2 p n" using cp lv(2) by simp_all
      from kh.dealloc_result [OF this] obtain m' where m': "heap_free h p m2 = Some m'" "heap_ok h m'"
        "heap_live h m' = (heap_live h m2)(p := (\<lambda>_. False))"
        "\<forall>q r. q \<noteq> p \<longrightarrow> heap_live h m2 q r \<longrightarrow> same_payload q r m2 m'" by blast
      have re: "heap_realloc h p sz m = Some (np, m')"
        using p0 assms(3) f(3) ge lt 2(1,3) m'(1) sz1 by (simp add: heap_realloc_def Let_def m2_def)
      have lv': "heap_live h m' = (heap_live h m)(np := (\<lambda>r. r = k), p := (\<lambda>_. False))"
        unfolding m'(3) using cp 2(6) by simp
      have "m' (np + of_nat i) = m (p + of_nat i)" if "i < n" for i
      proof -
        have "m' (np + of_nat i) = m2 (np + of_nat i)"
          using m'(4) ne cp lv(1) nk that by (simp add: same_payload_def)
        also have "\<dots> = m1 (p + of_nat i)" using cp that by simp
        also have "\<dots> = m (p + of_nat i)" using 2(7) assms(2) that by (auto simp: same_payload_def)
        finally show ?thesis .
      qed
      moreover have "same_payload q r m m'" if q: "q \<noteq> p" "heap_live h m q r" for q r
      proof -
        have qn: "q \<noteq> np" using q(2) 2(5) by blast
        then have "heap_live h m1 q r" using q(2) 2(6) by simp
        then have "same_payload q r m1 m2" "same_payload q r m2 m'" using cp m'(4) q(1) qn by simp_all
        then show ?thesis using 2(7) q(2) same_payload_trans by blast
      qed
      ultimately show thesis using moved [OF re 2(3) ne m'(2) _ 2(4) lv'] lt 2(5) by simp
    qed
  qed
qed

section \<open>Runs of the heap\<close>

text \<open>
  Every sequence of heap calls and stores from a memory \<open>m0\<close>: requests of a
  representable size, release and reallocation of live payloads, stores by the
  owner of a payload, and stores outside the arena.
\<close>

lemma heap_alloc_total:
  assumes "heap_ok h m" "unat sz \<le> 4294967288"
  shows "\<exists>p m'. heap_alloc h sz m = Some (p, m') \<and> heap_ok h m'"
proof (cases "sz = 0")
  case True
  then show ?thesis using assms(1) by (simp add: heap_alloc_def)
next
  case False
  obtain bs where "heap_wf h m bs" using assms(1) by (auto simp: heap_ok_def)
  from this False assms(2) show ?thesis
    by (cases rule: heap_alloc_cases) (use assms(1) in \<open>auto simp: heap_ok_def\<close>)
qed

text \<open>Addresses \<open>heap_free\<close> can be given: NULL, a live payload, or one without a used block's header before it.\<close>

definition freeable :: "kheap \<Rightarrow> mem \<Rightarrow> u32 \<Rightarrow> bool" where
  "freeable h m p \<longleftrightarrow> p = 0 \<or> (\<exists>n. heap_live h m p n) \<or> b_magic m (p - HDR) \<noteq> KH_MAGIC \<or> b_free m (p - HDR) \<noteq> 0"

lemma heap_free_total:
  assumes "heap_ok h m" "freeable h m p"
  shows "\<exists>m'. heap_free h p m = Some m' \<and> heap_ok h m'"
proof (cases "\<exists>n. heap_live h m p n")
  case True
  then obtain n bs where "heap_wf h m bs" "live h bs p n" by (auto simp: heap_live_def)
  then show ?thesis by (rule heap_free_live) (auto simp: heap_ok_def)
next
  case False
  then show ?thesis using assms by (auto simp: freeable_def heap_free_def Let_def)
qed

inductive heap_reach :: "kheap \<Rightarrow> mem \<Rightarrow> mem \<Rightarrow> bool" for h m0 where
  start: "heap_reach h m0 m0"
| alloc: "heap_reach h m0 m \<Longrightarrow> unat sz \<le> 4294967288 \<Longrightarrow> heap_alloc h sz m = Some (p, m') \<Longrightarrow>
    heap_reach h m0 m'"
| free: "heap_reach h m0 m \<Longrightarrow> heap_live h m p n \<Longrightarrow> heap_free h p m = Some m' \<Longrightarrow> heap_reach h m0 m'"
| realloc: "heap_reach h m0 m \<Longrightarrow> heap_live h m p n \<Longrightarrow> unat sz \<le> 4294967288 \<Longrightarrow>
    heap_realloc h p sz m = Some (q, m') \<Longrightarrow> heap_reach h m0 m'"
| store: "heap_reach h m0 m \<Longrightarrow> heap_live h m p n \<Longrightarrow> i < n \<Longrightarrow> heap_reach h m0 (m(p + of_nat i := v))"
| other: "heap_reach h m0 m \<Longrightarrow> unat x < unat (hp_base h) \<or> unat (hp_base h) + unat (hp_size h) \<le> unat x \<Longrightarrow>
    heap_reach h m0 (m(x := v))"

lemma heap_wf_other:
  assumes "heap_wf h m bs" "unat x < unat (hp_base h) \<or> unat (hp_base h) + unat (hp_size h) \<le> unat x"
  shows "heap_wf h (m(x := v)) bs"
proof -
  have "laid (m(x := v)) (unat (hp_head h)) bs"
  proof (rule laid_keeps)
    show "laid m (unat (hp_head h)) bs" using assms(1) by (simp add: heap_wf_def)
    fix y assume "y \<in> hdrs (unat (hp_head h)) bs"
    note b = hdrs_bounds [OF this]
    have "unat x \<noteq> y" "y < 4294967296" using b assms by (auto simp: heap_wf_def fits_def)
    then have "of_nat y \<noteq> x" by (metis unat_of_nat_u32)
    then show "(m(x := v)) (of_nat y) = m (of_nat y)" by simp
  qed
  then show ?thesis using assms(1) by (simp add: heap_wf_def)
qed

lemma heap_reach_ok:
  assumes "heap_reach h m0 m" "heap_ok h m0"
  shows "heap_ok h m"
  using assms
proof (induction rule: heap_reach.induct)
  case (alloc m sz p m')
  then have ok: "heap_ok h m" by blast
  show ?case
  proof (cases "sz = 0")
    case True
    with alloc(3) ok show ?thesis by (simp add: heap_alloc_def)
  next
    case False
    from kh.alloc_result [OF ok False alloc(2)] alloc(3) ok show ?thesis by auto
  qed
next
  case (free m p n m')
  then have ok: "heap_ok h m" by blast
  from kh.dealloc_result [OF ok free(2)] free(3) show ?case by auto
next
  case (realloc m p n sz q m')
  then have ok: "heap_ok h m" by blast
  show ?case
  proof (cases "sz = 0")
    case True
    have "p \<noteq> 0" using kh.alive_range [OF ok realloc(2)] by simp
    with True realloc(4) kh.dealloc_result [OF ok realloc(2)] show ?thesis
      by (auto simp: heap_realloc_def)
  next
    case False
    from ok realloc(2) False realloc(3) show ?thesis
      by (cases rule: heap_realloc_cases) (use realloc(4) ok in auto)
  qed
next
  case (store m p n i v)
  then show ?case using kh.store by blast
next
  case (other m x v)
  then show ?case unfolding heap_ok_def using heap_wf_other by blast
qed

lemma heap_ok_report:
  assumes "heap_wf h m bs"
  shows "heap_check h m = Some True" "heap_used h m = Some (of_nat (used_total bs))"
    "heap_free_bytes h m = Some (of_nat (free_total bs))" "heap_blocks h m = Some (of_nat (length bs))"
    "used_total bs + free_total bs + 16 * length bs = unat (hp_base h) + unat (hp_size h) - unat (hp_head h)"
proof -
  have wf: "laid m (unat (hp_head h)) bs" "fits (unat (hp_head h)) bs" "bs \<noteq> []"
    and le: "unat (hp_base h) \<le> unat (hp_head h)"
    and tot: "unat (hp_head h) + span bs = unat (hp_base h) + unat (hp_size h)"
    using assms by (simp_all add: heap_wf_def)
  have "unat (hp_base h + hp_size h) = unat (hp_head h) + span bs"
    using tot wf(2) by (simp add: fits_def unat_add_u32)
  with heap_check_loop_ok [OF wf le] show "heap_check h m = Some True" by (simp add: heap_check_def)
  show "heap_used h m = Some (of_nat (used_total bs))"
    using heap_used_loop_total [OF wf] by (simp add: heap_used_def)
  show "heap_free_bytes h m = Some (of_nat (free_total bs))"
    using heap_free_bytes_loop_total [OF wf] by (simp add: heap_free_bytes_def)
  show "heap_blocks h m = Some (of_nat (length bs))"
    using heap_blocks_loop_length [OF wf] by (simp add: heap_blocks_def)
  show "used_total bs + free_total bs + 16 * length bs = unat (hp_base h) + unat (hp_size h) - unat (hp_head h)"
    using tot span_total [of bs] by simp
qed

section \<open>An example heap\<close>

text \<open>A 4 KiB arena in zeroed memory.\<close>

definition demo_heap :: kheap where
  "demo_heap = fst (heap_init 0x1000 0x1000 (\<lambda>_. 0))"

definition demo_mem :: mem where
  "demo_mem = snd (heap_init 0x1000 0x1000 (\<lambda>_. 0))"

lemma demo_wf: "heap_wf demo_heap demo_mem [(4080, True)]"
  using heap_init_wf(1) [of "0x1000" "0x1000" "\<lambda>_. 0" demo_heap demo_mem]
  by (simp add: demo_heap_def demo_mem_def round8_def)

lemma demo_alloc:
  obtains p m where "heap_alloc demo_heap 100 demo_mem = Some (p, m)" "p \<noteq> 0"
    "heap_live demo_heap m p 104" "heap_ok demo_heap m"
proof -
  have ff: "first_fit (round8 100) [(4080, True)] = Some (0, [(104, False), (3960, True)])"
    by (simp add: round8_def)
  have head: "hp_head demo_heap = 0x1000"
    by (simp add: demo_heap_def heap_init_def ualign_up_def KH_ALIGN_def HDR_def)
  have "(100 :: u32) \<noteq> 0" "unat (100 :: u32) \<le> 4294967288" by simp_all
  with demo_wf show thesis
  proof (cases rule: heap_alloc_cases)
    case (got off bs' m')
    then have "bs' = [(104, False), (3960, True)]" "off = 0" using ff by simp_all
    with got head have "heap_alloc demo_heap 100 demo_mem = Some (0x1010, m')"
      "heap_wf demo_heap m' [(104, False), (3960, True)]" by simp_all
    moreover have "live demo_heap [(104, False), (3960, True)] 0x1010 104"
      by (simp add: live_def head)
    ultimately show thesis using that by (auto simp: heap_live_def heap_ok_def)
  qed (use ff in simp_all)
qed

section \<open>Correctness of the heap\<close>

text \<open>
  C3: on a well-formed heap a request of a representable size is served exactly when
  some free block is large enough after rounding to 8 bytes. The payload is then
  8-aligned, inside the arena, at least as large as requested, disjoint from every
  payload in use, and the bytes of those payloads are unchanged; otherwise the result
  is NULL and the memory is untouched.
\<close>

theorem heap_alloc_correct:
  assumes "heap_wf h m bs" "sz \<noteq> 0" "unat sz \<le> 4294967288"
  shows "if \<exists>(s, fr) \<in> set bs. fr \<and> round8 sz \<le> s
    then \<exists>p m' bs' n. heap_alloc h sz m = Some (p, m') \<and> p \<noteq> 0 \<and> unat p mod 8 = 0 \<and>
      heap_wf h m' bs' \<and> live h bs' p n \<and> unat sz \<le> n \<and>
      unat (hp_base h) \<le> unat p \<and> unat p + n \<le> unat (hp_base h) + unat (hp_size h) \<and>
      (\<forall>q k. live h bs q k \<longrightarrow> live h bs' q k \<and> same_payload q k m m' \<and>
         (unat q + k \<le> unat p \<or> unat p + n \<le> unat q))
    else heap_alloc h sz m = Some (0, m)"
proof -
  let ?a = "unat (hp_head h)"
  have none: "(\<exists>(s, fr) \<in> set bs. fr \<and> round8 sz \<le> s) \<longleftrightarrow> first_fit (round8 sz) bs \<noteq> None"
    by (rule first_fit_Some_iff [symmetric])
  from assms show ?thesis
  proof (cases rule: heap_alloc_cases)
    case full
    then show ?thesis using none by simp
  next
    case (got off bs' m')
    have al: "aligned bs" "8 dvd ?a" "?a \<ge> unat (hp_base h)" using assms(1) by (simp_all add: heap_wf_def)
    obtain n where n: "used_at off bs' = Some n" using used_at_first_fit(1) [OF got(1)] by blast
    have "fits ?a bs'" using got(3) by (simp add: heap_wf_def)
    then have lt: "?a + off + 16 < 4294967296" using used_at_bound [OF n] by (simp add: fits_def)
    let ?p = "of_nat (?a + off + 16) :: u32"
    have p: "?p \<noteq> 0" "unat ?p = ?a + off + 16"
      using of_nat_u32_eq_0 [OF lt] unat_of_nat_u32 [OF lt] by simp_all
    from assms got(2) p(1) obtain bs'' k where r: "heap_wf h m' bs''" "round8 sz \<le> k" "live h bs'' ?p k"
      "\<forall>k. \<not> live h bs ?p k" "\<forall>q. q \<noteq> ?p \<longrightarrow> live h bs'' q = live h bs q"
      "\<forall>q k. live h bs q k \<longrightarrow> same_payload q k m m'" by (rule heap_alloc_live)
    have "8 dvd off" using aligned_first_fit [OF got(1) al(1) round8_props(1)] by simp
    then have "8 dvd ?a + off + 16" using al(2) by simp
    then have md: "unat ?p mod 8 = 0" using p(2) by simp
    have rng: "unat ?p + k \<le> unat (hp_base h) + unat (hp_size h)" by (rule liveE [OF r(3,1)])
    have "live h bs'' q t \<and> same_payload q t m m' \<and> (unat q + t \<le> unat ?p \<or> unat ?p + k \<le> unat q)"
      if "live h bs q t" for q t
    proof -
      have "q \<noteq> ?p" using that r(4) by blast
      then have "live h bs'' q t" using that r(5) by simp
      then show ?thesis using live_disjoint [OF r(1) _ r(3) \<open>q \<noteq> ?p\<close>] that r(6) by force
    qed
    moreover have "unat sz \<le> k" using r(2) round8_props(2) [of sz] by linarith
    ultimately show ?thesis
      using none got(1,2) p md r(1,3) rng al(3) by (simp del: of_nat_add) (metis trans_le_add1)
  qed
qed

theorem heap_alloc_correct_witness:
  "\<exists>p m n bs. heap_alloc demo_heap 100 demo_mem = Some (p, m) \<and> unat p mod 8 = 0 \<and>
     heap_wf demo_heap m bs \<and> live demo_heap bs p n \<and> 100 \<le> n"
  using heap_alloc_correct [OF demo_wf, of 100] by (force simp: round8_def)

text \<open>
  C4: releasing a live payload keeps the heap well-formed, ends exactly that payload,
  leaves the bytes of all others unchanged, and a second release of the same pointer
  is ignored.
\<close>

theorem heap_free_correct:
  assumes "heap_wf h m bs" "live h bs p n"
  shows "\<exists>m' bs'. heap_free h p m = Some m' \<and> heap_wf h m' bs' \<and> heap_free h p m' = Some m' \<and>
     (\<forall>q k. live h bs' q k \<longleftrightarrow> q \<noteq> p \<and> live h bs q k) \<and>
     (\<forall>q k. live h bs q k \<longrightarrow> same_payload q k m m')"
proof -
  from assms obtain off m' where r: "p = of_nat (unat (hp_head h) + off + 16)" "used_at off bs = Some n"
    "heap_free h p m = Some m'" "heap_wf h m' (merge (release off bs))"
    "same_off (hdrs (unat (hp_head h)) bs) m m'" "heap_free h p m' = Some m'" by (rule heap_free_live)
  have up: "unat p = unat (hp_head h) + off + 16"
    unfolding r(1) using used_at_bound [OF r(2)] assms(1)
    by (intro unat_of_nat_u32) (simp add: heap_wf_def fits_def)
  have "live h (merge (release off bs)) q k \<longleftrightarrow> q \<noteq> p \<and> live h bs q k" for q k
    using used_at_release [OF r(2)] up by (auto simp: live_def word_unat_eq_iff)
  moreover have "same_payload q k m m'" if "live h bs q k" for q k
    by (rule live_payload_same [OF assms(1) that r(5) subset_refl])
  ultimately show ?thesis using r(3,4,6) by blast
qed

theorem heap_free_correct_witness:
  "\<exists>p m m' bs. heap_alloc demo_heap 100 demo_mem = Some (p, m) \<and> heap_free demo_heap p m = Some m' \<and>
     heap_wf demo_heap m' bs \<and> heap_free demo_heap p m' = Some m'"
proof -
  obtain p m where r: "heap_alloc demo_heap 100 demo_mem = Some (p, m)" "heap_live demo_heap m p 104"
    by (rule demo_alloc)
  then obtain bs where "heap_wf demo_heap m bs" "live demo_heap bs p 104" by (auto simp: heap_live_def)
  from heap_free_correct [OF this] obtain m' bs' where "heap_free demo_heap p m = Some m'"
    "heap_wf demo_heap m' bs'" "heap_free demo_heap p m' = Some m'" by metis
  with r(1) show ?thesis by metis
qed

lemma alloc_free_blocks:
  assumes "heap_wf h m bs" "sz \<noteq> 0" "unat sz \<le> 4294967288" "heap_alloc h sz m = Some (p, m1)" "p \<noteq> 0"
  shows "\<exists>m2. heap_free h p m1 = Some m2 \<and> heap_wf h m2 bs"
proof -
  from assms obtain off bs' n where r: "first_fit (round8 sz) bs = Some (off, bs')" "used_at off bs' = Some n"
    "p = of_nat (unat (hp_head h) + off + 16)" "heap_wf h m1 bs'" "live h bs' p n" by (rule heap_alloc_live)
  from r(4,5) obtain off' m2 where f: "p = of_nat (unat (hp_head h) + off' + 16)" "used_at off' bs' = Some n"
    "heap_free h p m1 = Some m2" "heap_wf h m2 (merge (release off' bs'))" by (rule heap_free_live)
  have "fits (unat (hp_head h)) bs'" using r(4) by (simp add: heap_wf_def)
  then have lt: "unat (hp_head h) + off + 16 < 4294967296" "unat (hp_head h) + off' + 16 < 4294967296"
    using used_at_bound [OF r(2)] used_at_bound [OF f(2)] by (simp_all add: fits_def)
  have "unat p = unat (hp_head h) + off + 16" unfolding r(3) by (rule unat_of_nat_u32 [OF lt(1)])
  moreover have "unat p = unat (hp_head h) + off' + 16" unfolding f(1) by (rule unat_of_nat_u32 [OF lt(2)])
  ultimately have "off' = off" by simp
  moreover have "coalesced bs" using assms(1) by (simp add: heap_wf_def)
  ultimately show ?thesis using f(3,4) first_fit_release [OF r(1)] by simp
qed

text \<open>
  C13: an allocation followed by its release restores the heap's block list: splitting
  and coalescing are inverse, so nothing is lost to fragmentation.
\<close>

theorem heap_alloc_free_restores:
  assumes "heap_wf h m bs" "sz \<noteq> 0" "unat sz \<le> 4294967288" "heap_alloc h sz m = Some (p, m1)" "p \<noteq> 0"
  shows "\<exists>m2. heap_free h p m1 = Some m2 \<and> heap_wf h m2 bs"
  using assms by (rule alloc_free_blocks)

theorem heap_alloc_free_restores_witness:
  "\<exists>p m1 m2. heap_alloc demo_heap 100 demo_mem = Some (p, m1) \<and> heap_free demo_heap p m1 = Some m2 \<and>
     heap_wf demo_heap m2 [(4080, True)]"
proof -
  obtain p m where r: "heap_alloc demo_heap 100 demo_mem = Some (p, m)" "p \<noteq> 0" by (rule demo_alloc)
  from heap_alloc_free_restores [OF demo_wf _ _ r] r(1) show ?thesis by simp
qed

text \<open>
  C14: after \<open>kheap_init\<close> on an arena that fits in the address space, every sequence of
  heap calls and stores leaves a heap that \<open>heap_check\<close> accepts, and the reported used
  bytes, free bytes and 16 bytes per block add up to the arena from its first aligned
  address.
\<close>

theorem heap_reach_consistent:
  assumes "kheap_init arena m0 = (h, m1)" "arena \<noteq> 0" "unat arena + 0x100000 < 4294967296"
    and "heap_reach h m1 m"
  shows "heap_check h m = Some True \<and>
     (\<exists>u f b. heap_used h m = Some (of_nat u) \<and> heap_free_bytes h m = Some (of_nat f) \<and>
        heap_blocks h m = Some (of_nat b) \<and> u + f + 16 * b = unat arena + 0x100000 - unat (hp_head h))"
proof -
  have sz: "unat KHEAP_SIZE = 0x100000" by (simp add: KHEAP_SIZE_def push_bit_eq_mult)
  have "heap_init arena KHEAP_SIZE m0 = (h, m1)" using assms(1) by (simp add: kheap_init_def)
  note wf = heap_init_wf [OF assms(2) _ _ this, unfolded sz, OF assms(3)]
  have "heap_ok h m1" using wf(1) by (auto simp: heap_ok_def)
  then have "heap_ok h m" by (rule heap_reach_ok [OF assms(4)])
  then obtain bs where "heap_wf h m bs" by (auto simp: heap_ok_def)
  note rep = heap_ok_report [OF this]
  have "used_total bs + free_total bs + 16 * length bs = unat arena + 0x100000 - unat (hp_head h)"
    using rep(5) wf(2,3) sz by simp
  with rep(1-4) show ?thesis by metis
qed

theorem heap_reach_consistent_witness:
  "heap_check (fst (kheap_init 0x200000 (\<lambda>_. 0))) (snd (kheap_init 0x200000 (\<lambda>_. 0))) = Some True"
  using heap_reach_consistent [of "0x200000" "\<lambda>_. 0", OF prod.collapse [symmetric] _ _ heap_reach.start]
  by simp

text \<open>
  C15: reallocating a live payload returns NULL and changes nothing, or returns a
  payload large enough for the new size that starts with the old contents (up to the
  smaller of both sizes), with every other payload untouched.
\<close>

theorem heap_realloc_keeps_contents:
  assumes "heap_ok h m" "heap_live h m p n" "sz \<noteq> 0" "unat sz \<le> 4294967288"
  shows "\<exists>np m'. heap_realloc h p sz m = Some (np, m') \<and> heap_ok h m' \<and>
     (np = 0 \<and> m' = m \<or>
      (\<exists>k. heap_live h m' np k \<and> unat sz \<le> k \<and> (np \<noteq> p \<longrightarrow> (\<forall>k. \<not> heap_live h m' p k)) \<and>
        (\<forall>i < min n (unat sz). m' (np + of_nat i) = m (p + of_nat i)))) \<and>
     (\<forall>q r. q \<noteq> p \<longrightarrow> heap_live h m q r \<longrightarrow> heap_live h m' q r \<and> same_payload q r m m')"
  using assms
proof (cases rule: heap_realloc_cases)
  case in_place
  then show ?thesis using assms(1,2) round8_props(2) [of sz] le_trans by (intro exI conjI) auto
next
  case full
  then show ?thesis using assms(1) by (intro exI conjI) auto
next
  case (moved np m' k)
  have "heap_live h m' np k" "\<forall>k. \<not> heap_live h m' p k" using moved(3,7) by simp_all
  moreover have "unat sz \<le> k" using moved(6) round8_props(2) [of sz] by linarith
  moreover have "heap_live h m' q r" if "q \<noteq> p" "heap_live h m q r" for q r
    using that moved(7,10) by (cases "q = np") auto
  ultimately show ?thesis using moved(1,4,8,9) by (intro exI conjI) auto
qed

theorem heap_realloc_keeps_contents_witness:
  "\<exists>p m np m'. heap_alloc demo_heap 100 demo_mem = Some (p, m) \<and>
     heap_realloc demo_heap p 200 m = Some (np, m') \<and> heap_ok demo_heap m'"
proof -
  obtain p m where r: "heap_alloc demo_heap 100 demo_mem = Some (p, m)" "heap_live demo_heap m p 104"
    "heap_ok demo_heap m" by (rule demo_alloc)
  obtain np m' where "heap_realloc demo_heap p 200 m = Some (np, m')" "heap_ok demo_heap m'"
    using heap_realloc_keeps_contents [OF r(3,2), of 200] by auto
  with r(1) show ?thesis by metis
qed

text \<open>
  \<open>kcalloc\<close> refuses a product that does not fit in 32 bits, and otherwise returns
  NULL with the memory unchanged or a payload whose bytes are all zero, with every
  other payload untouched.
\<close>

theorem kcalloc_correct:
  assumes "heap_ok h m" "nmemb \<noteq> 0" "sz \<noteq> 0"
  shows "(4294967296 \<le> unat nmemb * unat sz \<longrightarrow> kcalloc h nmemb sz m = Some (0, m)) \<and>
    (unat nmemb * unat sz \<le> 4294967288 \<longrightarrow>
      (\<exists>p m'. kcalloc h nmemb sz m = Some (p, m') \<and> heap_ok h m' \<and>
        (p = 0 \<and> m' = m \<or>
         (\<exists>k. heap_live h m' p k \<and> (\<forall>j < unat nmemb * unat sz. m' (p + of_nat j) = 0))) \<and>
        (\<forall>q r. heap_live h m q r \<longrightarrow> heap_live h m' q r \<and> same_payload q r m m')))"
proof (intro conjI impI)
  let ?N = "unat nmemb" and ?S = "unat sz"
  have pos: "0 < ?N" using assms(2) by (simp add: unat_gt_0)
  assume big: "4294967296 \<le> ?N * ?S"
  have "nmemb * sz div nmemb \<noteq> sz"
  proof
    assume "nmemb * sz div nmemb = sz"
    then have "unat (nmemb * sz) div ?N = ?S" by (metis unat_div)
    then have "?N * ?S \<le> unat (nmemb * sz)" by (metis times_div_less_eq_dividend)
    then show False using big unat_u32_less [of "nmemb * sz"] by linarith
  qed
  then show "kcalloc h nmemb sz m = Some (0, m)" using assms(2) by (simp add: kcalloc_def Let_def)
next
  let ?N = "unat nmemb" and ?S = "unat sz"
  assume le: "?N * ?S \<le> 4294967288"
  have pos: "0 < ?N" "0 < ?S" using assms(2,3) by (simp_all add: unat_gt_0)
  have prod: "unat (nmemb * sz) = ?N * ?S" using le by (simp add: unat_word_ariths)
  then have "unat (nmemb * sz div nmemb) = ?S" using pos by (simp add: unat_div)
  then have div: "nmemb * sz div nmemb = sz" by (simp add: word_unat_eq_iff)
  have nz: "nmemb * sz \<noteq> 0" using prod pos by (metis mult_eq_0_iff not_gr_zero unat_0)
  from kh.alloc_result [OF assms(1) nz] prod le consider "heap_alloc h (nmemb * sz) m = Some (0, m)" |
    p m1 k where "heap_alloc h (nmemb * sz) m = Some (p, m1)" "heap_ok h m1" "p \<noteq> 0"
      "round8 (nmemb * sz) \<le> k" "\<forall>k. \<not> heap_live h m p k"
      "heap_live h m1 = (heap_live h m)(p := (\<lambda>r. r = k))"
      "\<forall>q r. heap_live h m q r \<longrightarrow> same_payload q r m m1" by auto
  then show "\<exists>p m'. kcalloc h nmemb sz m = Some (p, m') \<and> heap_ok h m' \<and>
        (p = 0 \<and> m' = m \<or>
         (\<exists>k. heap_live h m' p k \<and> (\<forall>j < ?N * ?S. m' (p + of_nat j) = 0))) \<and>
        (\<forall>q r. heap_live h m q r \<longrightarrow> heap_live h m' q r \<and> same_payload q r m m')"
  proof cases
    case 1
    then show ?thesis using assms(1) div by (auto simp: kcalloc_def Let_def)
  next
    case (2 p m1 k)
    define m' where "m' = zero_loop p 0 (?N * ?S) m1"
    have lv: "heap_live h m1 p k" using 2(6) by simp
    have "?N * ?S \<le> k" using 2(4) prod round8_props(2) [of "nmemb * sz"] by linarith
    with kh.zero_payload [OF 2(2) lv, of 0 "?N * ?S"] have z: "heap_ok h m'" "heap_live h m' = heap_live h m1"
      "\<forall>j < ?N * ?S. m' (p + of_nat j) = 0"
      "\<forall>q r. q \<noteq> p \<longrightarrow> heap_live h m1 q r \<longrightarrow> same_payload q r m1 m'" by (simp_all add: m'_def)
    have kc: "kcalloc h nmemb sz m = Some (p, m')" using 2(1,3) div prod by (simp add: kcalloc_def Let_def m'_def)
    have "heap_live h m' q r \<and> same_payload q r m m'" if "heap_live h m q r" for q r
    proof -
      have "q \<noteq> p" using that 2(5) by blast
      then have "heap_live h m1 q r" using that 2(6) by simp
      then show ?thesis using z(2,4) \<open>q \<noteq> p\<close> 2(7) that same_payload_trans by metis
    qed
    moreover have "heap_live h m' p k" using z(2) lv by simp
    ultimately show ?thesis using kc z(1,3) by blast
  qed
qed

theorem kcalloc_correct_witness:
  "(\<exists>p m'. kcalloc demo_heap 4 25 demo_mem = Some (p, m') \<and> heap_ok demo_heap m') \<and>
   kcalloc demo_heap 0x10000 0x10000 demo_mem = Some (0, demo_mem)"
proof -
  have ok: "heap_ok demo_heap demo_mem" using demo_wf by (auto simp: heap_ok_def)
  have "\<exists>p m'. kcalloc demo_heap 4 25 demo_mem = Some (p, m') \<and> heap_ok demo_heap m'"
    using kcalloc_correct [OF ok, of 4 25] by auto
  then show ?thesis using kcalloc_correct [OF ok, of "0x10000" "0x10000"] by simp
qed

text \<open>
  a request of more than 2^32 - 8 bytes wraps to 0 in \<open>align_up\<close>: as soon as any
  block is free, \<open>heap_alloc\<close> returns a pointer whose payload is smaller than the request.
\<close>

theorem heap_alloc_wraps:
  assumes "heap_wf h m bs" "4294967288 < unat sz" "\<exists>(s, fr) \<in> set bs. fr"
  shows "\<exists>p m' bs' n. heap_alloc h sz m = Some (p, m') \<and> p \<noteq> 0 \<and> heap_wf h m' bs' \<and>
     live h bs' p n \<and> n < unat sz"
proof -
  have "unat (sz + 7) < 8" using assms(2) unat_u32_less [of sz]
    by (simp add: unat_word_ariths le_mod_geq)
  then have "drop_bit 3 (sz + 7) = 0" by (simp add: drop_bit_eq_div word_unat_eq_iff unat_div)
  then have "align_up sz KH_ALIGN = 0"
    using and_not_mask_eq [of "sz + 7" 3] by (simp add: align_up_def KH_ALIGN_def mask_eq_exp_minus_1)
  moreover have "sz \<noteq> 0" using assms(2) by auto
  ultimately have eq: "heap_alloc h sz m = heap_alloc_loop m (of_nat 0) (hp_head h)" by (simp add: heap_alloc_def)
  have some: "first_fit 0 bs \<noteq> None" using assms(3) unfolding first_fit_Some_iff by auto
  have "8 dvd (0 :: nat)" "(0 :: nat) < 4294967296" by simp_all
  with assms(1) show ?thesis
  proof (cases rule: alloc_loop_cases)
    case (got off bs' m')
    obtain n where n: "used_at off bs' = Some n" using used_at_first_fit(1) [OF got(1)] by blast
    have "fits (unat (hp_head h)) bs'" using got(3) by (simp add: heap_wf_def)
    then have b: "unat (hp_head h) + off + 16 + n < 4294967296" "8 \<le> unat (hp_head h)"
      using used_at_bound [OF n] by (simp_all add: fits_def)
    let ?p = "of_nat (unat (hp_head h) + off + 16) :: u32"
    have "?p \<noteq> 0" using b by (subst of_nat_u32_eq_0) simp_all
    moreover have "live h bs' ?p n" using b by (intro liveI n) simp
    moreover have "n < unat sz" using b assms(2) by linarith
    moreover have "heap_alloc h sz m = Some (?p, m')" using got(2) eq by simp
    ultimately show ?thesis using got(3) by blast
  qed (use some in simp)
qed

theorem heap_alloc_wraps_witness:
  "\<exists>p m' bs' n. heap_alloc demo_heap 0xFFFFFFFF demo_mem = Some (p, m') \<and> p \<noteq> 0 \<and>
     heap_wf demo_heap m' bs' \<and> live demo_heap bs' p n \<and> n < unat (0xFFFFFFFF :: u32)"
  using heap_alloc_wraps [OF demo_wf, of "0xFFFFFFFF"] by simp

end
