(* ===== verification/Vmm.thy ===== *)
theory Vmm
  imports Thuos_Prelude
begin

text \<open>
  Paging (\<open>kernel/mm/vmm_core.c\<close>, \<open>vmm.c\<close>) over byte-addressed physical memory. The
  statically allocated directory and tables are at link-time addresses, a parameter of
  the model; control registers are fields of the state. The specification is the
  two-level walk the processor performs; the lemmas show that the tables the kernel
  builds are identity maps.
\<close>

section \<open>Addresses and entries (vmm_core.c)\<close>

definition ADDR_MASK :: u32 where "ADDR_MASK = 0xFFFFF000"
definition FLAG_MASK :: u32 where "FLAG_MASK = 0x00000FFF"
definition PTE_PRESENT :: u32 where "PTE_PRESENT = 0x001"
definition PTE_RW :: u32 where "PTE_RW = 0x002"
definition PTE_USER :: u32 where "PTE_USER = 0x004"
definition PTE_PCD :: u32 where "PTE_PCD = 0x010"
definition VMM_PAGE_SIZE :: u32 where "VMM_PAGE_SIZE = 4096"

definition vmm_pde_index :: "u32 \<Rightarrow> u32" where
  "vmm_pde_index va = drop_bit 22 va"

definition vmm_pte_index :: "u32 \<Rightarrow> u32" where
  "vmm_pte_index va = drop_bit 12 va AND 0x3FF"

definition vmm_offset :: "u32 \<Rightarrow> u32" where
  "vmm_offset va = va AND 0xFFF"

definition vmm_make_entry :: "u32 \<Rightarrow> u32 \<Rightarrow> u32" where
  "vmm_make_entry phys flags = (phys AND ADDR_MASK) OR (flags AND FLAG_MASK)"

definition vmm_entry_addr :: "u32 \<Rightarrow> u32" where
  "vmm_entry_addr entry = entry AND ADDR_MASK"

definition vmm_entry_present :: "u32 \<Rightarrow> bool" where
  "vmm_entry_present entry \<longleftrightarrow> entry AND PTE_PRESENT \<noteq> 0"

text \<open>\<open>a[i]\<close> for an array of 32-bit words at \<open>a\<close> is the word at \<open>a + 4 * i\<close>.\<close>

definition vmm_set_pde :: "u32 \<Rightarrow> u32 \<Rightarrow> u32 \<Rightarrow> u32 \<Rightarrow> mem \<Rightarrow> mem" where
  "vmm_set_pde pd va pt_phys flags m = wr32 m (pd + 4 * vmm_pde_index va) (vmm_make_entry pt_phys flags)"

definition vmm_set_pte :: "u32 \<Rightarrow> u32 \<Rightarrow> u32 \<Rightarrow> u32 \<Rightarrow> mem \<Rightarrow> mem" where
  "vmm_set_pte pt va phys flags m = wr32 m (pt + 4 * vmm_pte_index va) (vmm_make_entry phys flags)"

text \<open>One iteration of the table loop of \<open>vmm_identity_map\<close>, and the loop.\<close>

definition identity_table :: "u32 \<Rightarrow> u32 \<Rightarrow> u32 \<Rightarrow> u32 \<Rightarrow> u32 \<Rightarrow> nat \<Rightarrow> mem \<Rightarrow> mem" where
  "identity_table pd pts pts_phys pages flags t m =
     (let pt = pts + 4 * (of_nat t * 1024);
          pt_phys = pts_phys + of_nat t * VMM_PAGE_SIZE;
          m1 = wr32 m (word_at pd t) (vmm_make_entry pt_phys (flags OR PTE_PRESENT))
      in wr_array pt (\<lambda>e. let page = of_nat t * 1024 + of_nat e
                          in if page < pages then vmm_make_entry (push_bit 12 page) (flags OR PTE_PRESENT)
                             else 0) 1024 m1)"

definition vmm_identity_map :: "u32 \<Rightarrow> u32 \<Rightarrow> u32 \<Rightarrow> u32 \<Rightarrow> u32 \<Rightarrow> u32 \<Rightarrow> mem \<Rightarrow> u32 \<times> mem" where
  "vmm_identity_map pd pts pts_phys n_pts bytes flags m =
     (let pages = drop_bit 12 (bytes + VMM_PAGE_SIZE - 1);
          need_pts = drop_bit 10 (pages + 1023)
      in if need_pts > n_pts then (0, m)
         else (need_pts,
               fold (identity_table pd pts pts_phys pages flags) [0..<unat need_pts]
                 (wr_array pd (\<lambda>_. 0) 1024 m)))"

definition vmm_translate :: "u32 \<Rightarrow> u32 \<Rightarrow> u32 \<Rightarrow> u32 \<Rightarrow> mem \<Rightarrow> u32 option" where
  "vmm_translate pd pts pts_phys va m =
     (let pde = rd32 m (pd + 4 * vmm_pde_index va)
      in if pde AND PTE_PRESENT = 0 then None
         else let pt_phys = vmm_entry_addr pde;
                  pt = pts + 4 * ((pt_phys - pts_phys) div 4);
                  pte = rd32 m (pt + 4 * vmm_pte_index va)
              in if pte AND PTE_PRESENT = 0 then None
                 else Some (vmm_entry_addr pte OR vmm_offset va))"

section \<open>The kernel's page tables (vmm.c)\<close>

definition VMM_IDMAP_BYTES :: u32 where "VMM_IDMAP_BYTES = 8 * 1024 * 1024"
definition VMM_NPTS :: u32 where "VMM_NPTS = 2"
definition VMM_LFB_NPTS :: u32 where "VMM_LFB_NPTS = 8"
definition VMM_MMIO_NPTS :: u32 where "VMM_MMIO_NPTS = 2"
definition FOURMB :: u32 where "FOURMB = 4 * 1024 * 1024"

text \<open>The addresses the linker gives the four static arrays.\<close>

record vmm_layout =
  page_dir :: u32
  page_tabs :: u32
  lfb_tabs :: u32
  mmio_tabs :: u32

record vmm =
  vm_mem :: mem
  ready :: bool
  enabled :: bool
  cr3 :: u32
  cr0 :: u32

definition vmm_init :: "vmm_layout \<Rightarrow> vmm \<Rightarrow> vmm" where
  "vmm_init L s =
     (let (n, m) = vmm_identity_map (page_dir L) (page_tabs L) (page_tabs L) VMM_NPTS VMM_IDMAP_BYTES
                     (PTE_RW OR PTE_USER) (vm_mem s)
      in s\<lparr>vm_mem := m, ready := (n = VMM_NPTS)\<rparr>)"

definition vmm_mapped_bytes :: "vmm \<Rightarrow> u32" where
  "vmm_mapped_bytes s = (if ready s then VMM_IDMAP_BYTES else 0)"

definition vmm_lfb_capacity :: u32 where
  "vmm_lfb_capacity = VMM_LFB_NPTS * 4 * 1024 * 1024"

definition vmm_phys_of :: "vmm_layout \<Rightarrow> u32 \<Rightarrow> vmm \<Rightarrow> u32" where
  "vmm_phys_of L va s =
     (case vmm_translate (page_dir L) (page_tabs L) (page_tabs L) va (vm_mem s) of
        Some phys \<Rightarrow> phys
      | None \<Rightarrow> 0xFFFFFFFF)"

definition vmm_enable :: "vmm_layout \<Rightarrow> vmm \<Rightarrow> vmm" where
  "vmm_enable L s =
     (if \<not> ready s then s
      else s\<lparr>cr3 := page_dir L, cr0 := cr0 s OR 0x80000000, enabled := True\<rparr>)"

text \<open>
  One iteration of the window loops: directory entry and the 1024 entries of table \<open>t\<close>;
  \<open>fl\<close> are the flags of the page entries.
\<close>

definition map_window_table :: "vmm_layout \<Rightarrow> u32 \<Rightarrow> u32 \<Rightarrow> u32 \<Rightarrow> nat \<Rightarrow> mem \<Rightarrow> mem" where
  "map_window_table L tabs base fl t m =
     (let va = base + of_nat t * FOURMB;
          pt = tabs + 4 * (of_nat t * 1024);
          m1 = wr32 m (page_dir L + 4 * drop_bit 22 va) (vmm_make_entry pt (PTE_RW OR PTE_PRESENT))
      in wr_array pt (\<lambda>e. vmm_make_entry (va + of_nat e * VMM_PAGE_SIZE) fl) 1024 m1)"

definition vmm_map_lfb :: "vmm_layout \<Rightarrow> u32 \<Rightarrow> u32 \<Rightarrow> vmm \<Rightarrow> bool \<times> vmm" where
  "vmm_map_lfb L phys bytes s =
     (if \<not> ready s then (False, s)
      else let base = phys AND NOT (FOURMB - 1);
               npts0 = (phys + bytes - base + FOURMB - 1) div FOURMB
           in if npts0 = 0 then (False, s)
              else let npts = (if npts0 > VMM_LFB_NPTS then VMM_LFB_NPTS else npts0);
                       m = fold (map_window_table L (lfb_tabs L) base (PTE_RW OR PTE_PRESENT))
                             [0..<unat npts] (vm_mem s)
                   in (True, s\<lparr>vm_mem := m, cr3 := page_dir L\<rparr>))"

definition vmm_map_mmio :: "vmm_layout \<Rightarrow> u32 \<Rightarrow> u32 \<Rightarrow> vmm \<Rightarrow> bool \<times> vmm" where
  "vmm_map_mmio L phys bytes s =
     (if \<not> ready s then (False, s)
      else let base = phys AND NOT (FOURMB - 1);
               npts = (phys + bytes - base + FOURMB - 1) div FOURMB
           in if npts = 0 \<or> npts > VMM_MMIO_NPTS then (False, s)
              else let m = fold (map_window_table L (mmio_tabs L) base (PTE_PCD OR PTE_RW OR PTE_PRESENT))
                             [0..<unat npts] (vm_mem s)
                   in (True, s\<lparr>vm_mem := m, cr3 := page_dir L\<rparr>))"

section \<open>The processor's walk\<close>

text \<open>
  The two-level translation of the architecture, through physical memory, from the
  directory at \<open>dir\<close>; \<open>None\<close> is a page fault. \<open>walk_flags\<close> are the flags of the page
  entry.
\<close>

definition walk_pte :: "u32 \<Rightarrow> u32 \<Rightarrow> mem \<Rightarrow> u32 option" where
  "walk_pte dir va m =
     (let pde = rd32 m (dir + 4 * vmm_pde_index va)
      in if \<not> vmm_entry_present pde then None
         else let pte = rd32 m (vmm_entry_addr pde + 4 * vmm_pte_index va)
              in if \<not> vmm_entry_present pte then None else Some pte)"

definition walk :: "u32 \<Rightarrow> u32 \<Rightarrow> mem \<Rightarrow> u32 option" where
  "walk dir va m = map_option (\<lambda>pte. vmm_entry_addr pte OR vmm_offset va) (walk_pte dir va m)"

section \<open>Address arithmetic\<close>

lemma unat_pde_index: "unat (vmm_pde_index va) = unat va div 4194304"
  by (simp add: vmm_pde_index_def drop_bit_eq_div unat_div)

lemma unat_pte_index: "unat (vmm_pte_index va) = unat va div 4096 mod 1024"
proof -
  have "vmm_pte_index va = take_bit 10 (drop_bit 12 va)"
    using take_bit_eq_mask [of 10 "drop_bit 12 va"] by (simp add: vmm_pte_index_def mask_eq_exp_minus_1)
  then show ?thesis by (simp add: take_bit_eq_mod drop_bit_eq_div unat_div unat_mod)
qed

lemma index_bounds: "unat (vmm_pde_index va) < 1024" "unat (vmm_pte_index va) < 1024"
  using unat_u32_less [of va] by (simp_all add: unat_pde_index unat_pte_index div_less_iff_less_mult)

lemma ADDR_MASK_eq: "ADDR_MASK = NOT (mask 12)"
  by (simp add: ADDR_MASK_def mask_eq_exp_minus_1)

lemma FLAG_MASK_eq: "FLAG_MASK = mask 12"
  by (simp add: FLAG_MASK_def mask_eq_exp_minus_1)

lemma offset_eq: "vmm_offset va = va AND mask 12"
  by (simp add: vmm_offset_def mask_eq_exp_minus_1)

lemma entry_addr_make [simp]: "vmm_entry_addr (vmm_make_entry phys flags) = phys AND ADDR_MASK"
  unfolding vmm_entry_addr_def vmm_make_entry_def ADDR_MASK_eq FLAG_MASK_eq
  by (rule bit_word_eqI) (auto simp: bit_simps)

lemma addr_or_offset: "(va AND ADDR_MASK) OR vmm_offset va = va"
  unfolding ADDR_MASK_eq offset_eq by (rule bit_word_eqI) (auto simp: bit_simps)

lemma present_iff_bit: "vmm_entry_present e \<longleftrightarrow> bit e 0"
  by (simp add: vmm_entry_present_def PTE_PRESENT_def and_one_eq odd_iff_mod_2_eq_one bit_0)

lemma present_make [simp]: "vmm_entry_present (vmm_make_entry phys flags) \<longleftrightarrow> vmm_entry_present flags"
  unfolding present_iff_bit vmm_make_entry_def ADDR_MASK_eq FLAG_MASK_eq by (simp add: bit_simps)

lemma present_or [simp]: "vmm_entry_present (flags OR PTE_PRESENT)" "\<not> vmm_entry_present 0"
  by (simp_all add: present_iff_bit PTE_PRESENT_def bit_simps)

section \<open>Reading the tables that were written\<close>

lemma index_word_at: "p + 4 * x = word_at p (unat x)"
  by (simp add: word_at_def)

lemma rd32_table_step:
  assumes "4 dvd unat pt" "unat pt + 4096 \<le> 4294967296" "4 dvd unat d" "4 dvd unat a"
  shows "rd32 (wr_array pt f 1024 (wr32 m d v)) a =
     (if unat pt \<le> unat a \<and> unat a < unat pt + 4096 then f ((unat a - unat pt) div 4)
      else if a = d then v else rd32 m a)"
  using rd32_wr_array [OF assms(1) _ assms(4), of 1024] assms(2) rd32_wr32_aligned [OF assms(3,4)]
  by (cases "a = d") auto

text \<open>Pools of page tables: \<open>n\<close> consecutive 4 KiB tables, apart from the directory.\<close>

definition pool :: "u32 \<Rightarrow> u32 \<Rightarrow> nat \<Rightarrow> bool" where
  "pool pd pts n \<longleftrightarrow> 4096 dvd unat pd \<and> 4096 dvd unat pts \<and> unat pts + 4096 * n \<le> 4294967296 \<and>
     (unat pd + 4096 \<le> unat pts \<or> unat pts + 4096 * n \<le> unat pd)"

lemma page_aligned_top: "4096 dvd unat (p :: u32) \<Longrightarrow> unat p + 4096 \<le> 4294967296"
  using unat_u32_less [of p] by (auto elim!: dvdE)

lemma dvd_4096_4: "4096 dvd (n :: nat) \<Longrightarrow> 4 dvd n"
  by (auto elim!: dvdE)

lemma table_address:
  assumes "pool pd pts n" "t < n"
  shows "unat (pts + 4 * (of_nat t * 1024)) = unat pts + 4096 * t"
proof -
  have "pts + 4 * (of_nat t * 1024) = word_at pts (1024 * t)" by (simp add: word_at_def)
  also have "unat \<dots> = unat pts + 4 * (1024 * t)" using assms by (intro unat_word_at) (auto simp: pool_def)
  finally show ?thesis by simp
qed

lemma dir_entry:
  assumes "4096 dvd unat pd" "i < 1024"
  shows "unat (word_at pd i) = unat pd + 4 * i" "4 dvd unat (word_at pd i)"
proof -
  show u: "unat (word_at pd i) = unat pd + 4 * i"
    using page_aligned_top [OF assms(1)] assms(2) by (intro unat_word_at) simp
  show "4 dvd unat (word_at pd i)" unfolding u using assms(1) by (simp add: dvd_4096_4)
qed

lemma pool_entry:
  assumes "pool pd pts n" "t < n" "e < 1024"
  shows "unat (word_at pts (1024 * t + e)) = unat pts + 4096 * t + 4 * e"
    "4 dvd unat (word_at pts (1024 * t + e))"
proof -
  have "unat pts + 4096 * n \<le> 4294967296" "4096 dvd unat pts" using assms(1) by (simp_all add: pool_def)
  moreover have "4096 * t + 4096 \<le> 4096 * n" using assms(2) by linarith
  ultimately show u: "unat (word_at pts (1024 * t + e)) = unat pts + 4096 * t + 4 * e"
    using assms(3) by (subst unat_word_at) auto
  show "4 dvd unat (word_at pts (1024 * t + e))"
    unfolding u using \<open>4096 dvd unat pts\<close> by (simp add: dvd_4096_4)
qed

lemma table_aligned:
  assumes "pool pd pts n" "t < n"
  shows "4 dvd unat (pts + 4 * (of_nat t * 1024))" "unat (pts + 4 * (of_nat t * 1024)) + 4096 \<le> 4294967296"
proof -
  have "unat pts + 4096 * n \<le> 4294967296" "4 dvd unat pts"
    using assms(1) by (simp_all add: pool_def dvd_4096_4)
  moreover have "4096 * t + 4096 \<le> 4096 * n" using assms(2) by linarith
  ultimately show "4 dvd unat (pts + 4 * (of_nat t * 1024))"
    "unat (pts + 4 * (of_nat t * 1024)) + 4096 \<le> 4294967296"
    unfolding table_address [OF assms] by simp_all
qed

lemma dir_aligned: "pool pd pts n \<Longrightarrow> i < 1024 \<Longrightarrow> 4 dvd unat (word_at pd i)"
  by (simp add: pool_def dir_entry(2))

text \<open>
  Table writes in general: iteration \<open>t\<close> writes the directory slot \<open>slot t\<close> and table \<open>t\<close>
  of a pool. Afterwards the tables hold the values of the last writes.
\<close>

definition table_loop :: "u32 \<Rightarrow> u32 \<Rightarrow> (nat \<Rightarrow> nat) \<Rightarrow> (nat \<Rightarrow> u32) \<Rightarrow> (nat \<Rightarrow> nat \<Rightarrow> u32) \<Rightarrow> nat \<Rightarrow> mem \<Rightarrow> mem" where
  "table_loop pd pts slot dv f k m =
     fold (\<lambda>t m. wr_array (pts + 4 * (of_nat t * 1024)) (f t) 1024 (wr32 m (word_at pd (slot t)) (dv t))) [0..<k] m"

lemma table_loop_Suc:
  "table_loop pd pts slot dv f (Suc k) m =
     wr_array (pts + 4 * (of_nat k * 1024)) (f k) 1024
       (wr32 (table_loop pd pts slot dv f k m) (word_at pd (slot k)) (dv k))"
  by (simp add: table_loop_def)

lemma table_loop_elsewhere:
  assumes "pool pd pts n" "k \<le> n" "\<forall>t < k. slot t < 1024" "4 dvd unat a"
    and "unat a < unat pts \<or> unat pts + 4096 * k \<le> unat a" "\<forall>t < k. a \<noteq> word_at pd (slot t)"
  shows "rd32 (table_loop pd pts slot dv f k m) a = rd32 m a"
  using assms(2,3,5,6)
proof (induction k)
  case 0
  then show ?case by (simp add: table_loop_def)
next
  case (Suc k)
  let ?pt = "pts + 4 * (of_nat k * 1024)"
  have kn: "k < n" using Suc.prems(1) by simp
  have pt: "unat ?pt = unat pts + 4096 * k" by (rule table_address [OF assms(1) kn])
  have al: "4 dvd unat ?pt" "unat ?pt + 4096 \<le> 4294967296" "4 dvd unat (word_at pd (slot k))"
    using table_aligned [OF assms(1) kn] dir_aligned [OF assms(1), of "slot k"] Suc.prems(2) by simp_all
  have "\<not> (unat ?pt \<le> unat a \<and> unat a < unat ?pt + 4096)" using Suc.prems(3) pt by auto
  then show ?case
    unfolding table_loop_Suc rd32_table_step [OF al assms(4)]
    using Suc.IH Suc.prems kn by auto
qed

lemma table_loop_entry:
  assumes "pool pd pts n" "k \<le> n" "\<forall>t < k. slot t < 1024" "t < k" "e < 1024"
  shows "rd32 (table_loop pd pts slot dv f k m) (word_at pts (1024 * t + e)) = f t e"
  using assms(2,3,4)
proof (induction k)
  case (Suc k)
  let ?pt = "pts + 4 * (of_nat k * 1024)" and ?a = "word_at pts (1024 * t + e)"
  have kn: "k < n" "t < n" using Suc.prems(1,3) by simp_all
  have pt: "unat ?pt = unat pts + 4096 * k" by (rule table_address [OF assms(1) kn(1)])
  have al: "4 dvd unat ?pt" "unat ?pt + 4096 \<le> 4294967296" "4 dvd unat (word_at pd (slot k))"
    using table_aligned [OF assms(1) kn(1)] dir_aligned [OF assms(1), of "slot k"] Suc.prems(2) by simp_all
  note a = pool_entry [OF assms(1) kn(2) assms(5)]
  have sl: "unat (word_at pd (slot k)) = unat pd + 4 * slot k" "slot k < 1024" "4096 dvd unat pd"
    using dir_entry(1) [of pd "slot k"] assms(1) Suc.prems(2) by (simp_all add: pool_def)
  show ?case
  proof (cases "t = k")
    case True
    then show ?thesis
      unfolding table_loop_Suc rd32_table_step [OF al a(2)] using a(1) pt assms(5) by simp
  next
    case False
    then have tk: "t < k" using Suc.prems(3) by simp
    then have "unat ?a < unat ?pt" using a(1) pt assms(5) by simp
    moreover have "?a \<noteq> word_at pd (slot k)"
    proof
      assume "?a = word_at pd (slot k)"
      then have "unat pts + 4096 * t + 4 * e = unat pd + 4 * slot k" using a(1) sl(1) by simp
      moreover have "4096 * t + 4096 \<le> 4096 * n" using kn(2) by linarith
      ultimately show False using assms(1,5) sl(2) by (auto simp: pool_def)
    qed
    ultimately show ?thesis
      unfolding table_loop_Suc rd32_table_step [OF al a(2)] using Suc.IH Suc.prems tk by simp
  qed
qed simp

lemma table_loop_slot:
  assumes "pool pd pts n" "k \<le> n" "\<forall>t < k. slot t < 1024" "inj_on slot {..<k}" "t < k"
  shows "rd32 (table_loop pd pts slot dv f k m) (word_at pd (slot t)) = dv t"
  using assms(2-)
proof (induction k)
  case (Suc k)
  let ?pt = "pts + 4 * (of_nat k * 1024)" and ?a = "word_at pd (slot t)"
  have kn: "k < n" using Suc.prems(1) by simp
  have pt: "unat ?pt = unat pts + 4096 * k" by (rule table_address [OF assms(1) kn])
  have al: "4 dvd unat ?pt" "unat ?pt + 4096 \<le> 4294967296" "4 dvd unat (word_at pd (slot k))"
    using table_aligned [OF assms(1) kn] dir_aligned [OF assms(1), of "slot k"] Suc.prems(2) by simp_all
  have dir: "4096 dvd unat pd" using assms(1) by (simp add: pool_def)
  have st: "slot t < 1024" "slot k < 1024" using Suc.prems(2,4) by simp_all
  note a = dir_entry [OF dir st(1)]
  have "4096 * k + 4096 \<le> 4096 * n" using kn by linarith
  then have out: "\<not> (unat ?pt \<le> unat ?a \<and> unat ?a < unat ?pt + 4096)"
    using a(1) pt st(1) assms(1) by (auto simp: pool_def)
  show ?case
  proof (cases "t = k")
    case True
    then show ?thesis unfolding table_loop_Suc rd32_table_step [OF al a(2)] using out by auto
  next
    case False
    then have tk: "t < k" using Suc.prems(4) by simp
    have "slot t \<noteq> slot k" using Suc.prems(3) tk by (auto simp: inj_on_def)
    then have "?a \<noteq> word_at pd (slot k)" using a(1) dir_entry(1) [OF dir st(2)] by (metis add_left_cancel mult_left_cancel zero_neq_numeral)
    then show ?thesis
      unfolding table_loop_Suc rd32_table_step [OF al a(2)]
      using out Suc.IH Suc.prems tk by (auto simp: inj_on_def)
  qed
qed simp

section \<open>The identity map\<close>

lemma and_addr_mask: "x AND ADDR_MASK = push_bit 12 (drop_bit 12 x)"
  unfolding ADDR_MASK_eq by (rule and_not_mask_eq)

lemma page_aligned_mask: "4096 dvd unat x \<Longrightarrow> x AND ADDR_MASK = x"
proof -
  assume "4096 dvd unat x"
  then have "unat (x div 4096 * 4096) = unat x"
    using unat_u32_less [of x] by (simp add: unat_word_ariths unat_div)
  then have "x div 4096 * 4096 = x" by (simp add: word_unat_eq_iff)
  then show ?thesis by (simp add: and_addr_mask push_bit_eq_mult drop_bit_eq_div)
qed

lemma unat_and_mask: "unat (x AND ADDR_MASK) = unat x div 4096 * 4096"
  using unat_u32_less [of x]
  by (simp add: and_addr_mask push_bit_eq_mult drop_bit_eq_div unat_word_ariths unat_div)

lemma entry_addr_aligned: "4096 dvd unat (vmm_entry_addr e)"
  by (simp add: vmm_entry_addr_def unat_and_mask)

lemma page_number: "of_nat (unat va div 4194304) * 1024 + of_nat (unat va div 4096 mod 1024) = drop_bit 12 (va :: u32)"
proof -
  have "unat va div 4194304 * 1024 + unat va div 4096 mod 1024 = unat va div 4096"
    using div_mult2_eq [of "unat va" 4096 1024] div_mult_mod_eq [of "unat va div 4096" 1024] by simp
  then have "(of_nat (unat va div 4194304 * 1024 + unat va div 4096 mod 1024) :: u32) = of_nat (unat va div 4096)" by simp
  moreover have "(of_nat (unat va div 4096) :: u32) = drop_bit 12 va"
    using le_less_trans [OF div_le_dividend unat_u32_less [of va]]
    by (simp add: drop_bit_eq_div word_unat_eq_iff unat_div unat_of_nat)
  ultimately show ?thesis by simp
qed

lemma identity_map_table_loop:
  "fold (identity_table pd pts pts_phys pages flags) [0..<k] m =
     table_loop pd pts id (\<lambda>t. vmm_make_entry (pts_phys + of_nat t * VMM_PAGE_SIZE) (flags OR PTE_PRESENT))
       (\<lambda>t e. if of_nat t * 1024 + of_nat e < pages
              then vmm_make_entry (push_bit 12 (of_nat t * 1024 + of_nat e)) (flags OR PTE_PRESENT) else 0) k m"
  unfolding table_loop_def
  by (rule fold_cong) (simp_all add: identity_table_def Let_def fun_eq_iff)

lemma identity_map_tables:
  fixes bytes :: u32
  defines "pages \<equiv> drop_bit 12 (bytes + VMM_PAGE_SIZE - 1)"
  defines "need \<equiv> drop_bit 10 (pages + 1023)"
  assumes "pool pd pts (unat n_pts)" "need \<le> n_pts"
    and "vmm_identity_map pd pts pts_phys n_pts bytes flags m = (r, m')"
  shows "r = need"
    and "i < 1024 \<Longrightarrow> rd32 m' (word_at pd i) =
       (if i < unat need then vmm_make_entry (pts_phys + of_nat i * VMM_PAGE_SIZE) (flags OR PTE_PRESENT) else 0)"
    and "t < unat need \<Longrightarrow> e < 1024 \<Longrightarrow> rd32 m' (word_at pts (1024 * t + e)) =
       (if of_nat t * 1024 + of_nat e < pages
        then vmm_make_entry (push_bit 12 (of_nat t * 1024 + of_nat e)) (flags OR PTE_PRESENT) else 0)"
proof -
  have le: "unat need \<le> unat n_pts" using assms(4) by (simp add: word_le_nat_alt)
  have "unat pages < 1048576"
    unfolding pages_def using unat_u32_less [of "bytes + VMM_PAGE_SIZE - 1"]
    by (simp add: drop_bit_eq_div unat_div)
  then have "unat (pages + 1023) < 1049600" by (simp add: unat_word_ariths)
  then have k: "unat need \<le> 1024" unfolding need_def by (simp add: drop_bit_eq_div unat_div)
  have slots: "\<forall>t < unat need. id t < 1024" using k by simp
  let ?m0 = "wr_array pd (\<lambda>_. 0) 1024 m"
  have m': "r = need" "m' = table_loop pd pts id (\<lambda>t. vmm_make_entry (pts_phys + of_nat t * VMM_PAGE_SIZE) (flags OR PTE_PRESENT))
       (\<lambda>t e. if of_nat t * 1024 + of_nat e < pages
              then vmm_make_entry (push_bit 12 (of_nat t * 1024 + of_nat e)) (flags OR PTE_PRESENT) else 0)
       (unat need) ?m0"
    using assms(5) leD [OF assms(4)]
    unfolding vmm_identity_map_def Let_def pages_def [symmetric] need_def [symmetric] identity_map_table_loop
    by auto
  show "r = need" by (rule m'(1))
  have pd: "4096 dvd unat pd" using assms(3) by (simp add: pool_def)
  show "rd32 m' (word_at pd i) =
       (if i < unat need then vmm_make_entry (pts_phys + of_nat i * VMM_PAGE_SIZE) (flags OR PTE_PRESENT) else 0)"
    if i: "i < 1024"
  proof (cases "i < unat need")
    case True
    then show ?thesis
      using table_loop_slot [OF assms(3) le slots inj_on_id True] by (simp add: m'(2))
  next
    case False
    note a = dir_entry [OF pd i]
    have "rd32 m' (word_at pd i) = rd32 ?m0 (word_at pd i)"
      unfolding m'(2)
    proof (rule table_loop_elsewhere [OF assms(3) le slots a(2)])
      have "4096 * unat need \<le> 4096 * unat n_pts" using le by simp
      then show "unat (word_at pd i) < unat pts \<or> unat pts + 4096 * unat need \<le> unat (word_at pd i)"
        using a(1) i assms(3) by (auto simp: pool_def)
      show "\<forall>t < unat need. word_at pd i \<noteq> word_at pd (id t)"
        using False a(1) dir_entry(1) [OF pd] k by (metis add_left_cancel id_apply le_trans less_le_trans mult_left_cancel zero_neq_numeral)
    qed
    also have "\<dots> = 0"
      using rd32_wr_array [of pd 1024 "word_at pd i"] page_aligned_top [OF pd] a i pd by (simp add: dvd_4096_4)
    finally show ?thesis using False by simp
  qed
  show "rd32 m' (word_at pts (1024 * t + e)) =
       (if of_nat t * 1024 + of_nat e < pages
        then vmm_make_entry (push_bit 12 (of_nat t * 1024 + of_nat e)) (flags OR PTE_PRESENT) else 0)"
    if "t < unat need" "e < 1024"
    unfolding m'(2) by (rule table_loop_entry [OF assms(3) le slots that])
qed

lemma div4_mult: "4 dvd unat x \<Longrightarrow> 4 * (x div 4) = (x :: u32)"
  using unat_u32_less [of x] by (simp add: word_unat_eq_iff unat_word_ariths unat_div)

lemma dvd_diff_u32: "4096 dvd unat a \<Longrightarrow> 4096 dvd unat b \<Longrightarrow> 4 dvd unat (a - b :: u32)"
  by (auto simp: unat_sub_if' dvd_4096_4 intro!: dvd_diff_nat dvd_add)

lemma translate_is_walk:
  assumes "4096 dvd unat pts"
  shows "vmm_translate pd pts pts va m = walk pd va m"
proof -
  have "4 * ((vmm_entry_addr e - pts) div 4) = vmm_entry_addr e - pts" for e
    by (intro div4_mult dvd_diff_u32 entry_addr_aligned assms)
  then show ?thesis by (simp add: vmm_translate_def walk_def walk_pte_def Let_def vmm_entry_present_def)
qed

lemma unat_pages:
  assumes "unat bytes \<le> 4294963200"
  shows "unat (drop_bit 12 (bytes + VMM_PAGE_SIZE - 1)) = (unat bytes + 4095) div 4096"
proof -
  have eq: "bytes + VMM_PAGE_SIZE - 1 = bytes + 4095" by (simp add: VMM_PAGE_SIZE_def)
  show ?thesis unfolding eq using assms by (simp add: drop_bit_eq_div unat_div unat_word_ariths)
qed

lemma unat_need: "unat (drop_bit 10 (pages + 1023 :: u32)) = (unat pages + 1023) div 1024"
  if "unat pages \<le> 1048576"
  using that by (simp add: drop_bit_eq_div unat_div unat_word_ariths)

lemma identity_entry:
  assumes "t = unat va div 4194304" "e = unat va div 4096 mod 1024"
  shows "push_bit 12 (of_nat t * 1024 + of_nat e) AND ADDR_MASK = va AND ADDR_MASK"
    "(of_nat t * 1024 + of_nat e :: u32) = drop_bit 12 va"
proof -
  show pn: "(of_nat t * 1024 + of_nat e :: u32) = drop_bit 12 va" unfolding assms by (rule page_number)
  show "push_bit 12 (of_nat t * 1024 + of_nat e) AND ADDR_MASK = va AND ADDR_MASK"
    unfolding pn and_addr_mask [symmetric] by (simp add: and.assoc)
qed

lemma identity_map_walk:
  assumes "pool pd pts (unat n_pts)" "4096 dvd unat pts_phys" "unat bytes \<le> 4294963200"
    and "(unat bytes + 4095) div 4096 \<le> 1024 * unat n_pts"
    and "vmm_identity_map pd pts pts_phys n_pts bytes flags m = (r, m')"
  shows "unat r = ((unat bytes + 4095) div 4096 + 1023) div 1024"
    "vmm_translate pd pts pts_phys va m' =
       (if unat va < (unat bytes + 4095) div 4096 * 4096 then Some va else None)"
proof -
  define pages where "pages = drop_bit 12 (bytes + VMM_PAGE_SIZE - 1)"
  define need where "need = drop_bit 10 (pages + 1023)"
  have up: "unat pages = (unat bytes + 4095) div 4096" unfolding pages_def by (rule unat_pages [OF assms(3)])
  then have le20: "unat pages \<le> 1048576" using assms(3) by simp
  then have un: "unat need = (unat pages + 1023) div 1024" unfolding need_def by (rule unat_need)
  have "need \<le> n_pts" using un up assms(4) by (simp add: word_le_nat_alt)
  note tabs = identity_map_tables [OF assms(1) this [unfolded need_def pages_def] assms(5),
      folded pages_def, folded need_def]
  show "unat r = ((unat bytes + 4095) div 4096 + 1023) div 1024" using tabs(1) un up by simp
  let ?i = "unat va div 4194304" and ?e = "unat va div 4096 mod 1024"
  have i: "?i < 1024" "?e < 1024" using index_bounds [of va] by (simp_all add: unat_pde_index unat_pte_index)
  have page: "?i * 1024 + ?e = unat va div 4096"
    using div_mult2_eq [of "unat va" 4096 1024] div_mult_mod_eq [of "unat va div 4096" 1024] by simp
  have mapped: "unat va < unat pages * 4096 \<longleftrightarrow> ?i * 1024 + ?e < unat pages"
    unfolding page by (simp add: div_less_iff_less_mult)
  note pde = tabs(2) [OF i(1)]
  have pdx: "rd32 m' (pd + 4 * vmm_pde_index va) = rd32 m' (word_at pd ?i)"
    by (simp only: index_word_at unat_pde_index)
  show "vmm_translate pd pts pts_phys va m' =
       (if unat va < (unat bytes + 4095) div 4096 * 4096 then Some va else None)"
  proof (cases "?i < unat need")
    case False
    then have "\<not> ?i * 1024 + ?e < unat pages" using un by linarith
    then show ?thesis using pde pdx False mapped up
      by (simp add: vmm_translate_def Let_def)
  next
    case True
    let ?pt = "pts_phys + of_nat ?i * VMM_PAGE_SIZE"
    have "4096 dvd unat ?pt" using assms(2) by (simp add: VMM_PAGE_SIZE_def unat_word_ariths dvd_mod)
    then have addr: "vmm_entry_addr (rd32 m' (word_at pd ?i)) = ?pt"
      using pde True by (simp add: page_aligned_mask)
    have "unat (of_nat ?i * 4096 :: u32) = ?i * 4096" using i(1) by (simp add: unat_word_ariths unat_of_nat)
    then have "4 * (of_nat ?i * 4096 div 4) = (of_nat ?i * 4096 :: u32)" by (intro div4_mult) simp
    then have pt: "pts + 4 * ((?pt - pts_phys) div 4) + 4 * vmm_pte_index va = word_at pts (1024 * ?i + ?e)"
      using unat_pte_index [of va] index_word_at [of "pts + of_nat ?i * 4096" "vmm_pte_index va"]
      by (simp add: VMM_PAGE_SIZE_def word_at_def algebra_simps)
    have pp: "rd32 m' (word_at pd ?i) AND PTE_PRESENT \<noteq> 0"
      using pde True present_make present_or(1) by (simp add: vmm_entry_present_def)
    have lt: "drop_bit 12 va < pages \<longleftrightarrow> unat va < unat pages * 4096"
      by (simp add: word_less_nat_alt drop_bit_eq_div unat_div div_less_iff_less_mult)
    note pte = tabs(3) [OF True i(2), unfolded identity_entry(2) [OF refl refl]]
    show ?thesis
    proof (cases "unat va < unat pages * 4096")
      case True
      then have "rd32 m' (word_at pts (1024 * ?i + ?e)) = vmm_make_entry (push_bit 12 (drop_bit 12 va)) (flags OR PTE_PRESENT)"
        using pte lt by simp
      moreover have "push_bit 12 (drop_bit 12 va) AND ADDR_MASK = va AND ADDR_MASK"
        unfolding and_addr_mask [symmetric] by (simp add: and.assoc)
      ultimately show ?thesis
        using True up pp addr pt pdx addr_or_offset present_make present_or(1)
        by (simp add: vmm_translate_def Let_def vmm_entry_present_def)
    next
      case False
      then have "rd32 m' (word_at pts (1024 * ?i + ?e)) = 0" using pte lt by simp
      then show ?thesis using False up pp addr pt pdx by (simp add: vmm_translate_def Let_def)
    qed
  qed
qed

section \<open>Windows onto device memory\<close>

text \<open>
  A window of \<open>k\<close> tables from a 4 MiB-aligned base: the addresses whose directory index
  is one of the \<open>k\<close> consecutive ones (modulo 1024).
\<close>

definition in_window :: "u32 \<Rightarrow> nat \<Rightarrow> u32 \<Rightarrow> bool" where
  "in_window base k va \<longleftrightarrow> (\<exists>t < k. unat (vmm_pde_index (base + of_nat t * FOURMB)) = unat (vmm_pde_index va))"

definition window_base :: "u32 \<Rightarrow> u32" where
  "window_base phys = phys AND NOT (FOURMB - 1)"

lemma window_base_eq: "window_base phys = 4194304 * drop_bit 22 phys"
proof -
  have "FOURMB - 1 = mask 22" by (simp add: FOURMB_def mask_eq_exp_minus_1)
  then have "window_base phys = push_bit 22 (drop_bit 22 phys)"
    using and_not_mask_eq [of phys 22] by (simp add: window_base_def)
  then show ?thesis by (simp add: push_bit_eq_mult)
qed

lemma unat_window_base: "unat (window_base phys) = unat phys div 4194304 * 4194304"
  using unat_u32_less [of phys]
  by (simp add: window_base_eq drop_bit_eq_div unat_word_ariths unat_div mult.commute)

lemma window_aligned: "4194304 dvd unat (window_base phys + of_nat t * FOURMB)"
proof -
  have "window_base phys + of_nat t * FOURMB = 4194304 * (drop_bit 22 phys + of_nat t)"
    by (simp add: window_base_eq FOURMB_def algebra_simps)
  then show ?thesis by (simp only:) (simp add: unat_word_ariths dvd_mod)
qed

lemma window_slot:
  "unat (vmm_pde_index (window_base phys + of_nat t * FOURMB)) = (unat (window_base phys) div 4194304 + t) mod 1024"
  if "t < 1024"
proof -
  have "unat (of_nat t * FOURMB) = t * 4194304" using that by (simp add: FOURMB_def unat_word_ariths unat_of_nat)
  moreover obtain q where q: "unat (window_base phys) = 4194304 * q"
    using window_aligned [of phys 0] by (auto elim: dvdE)
  ultimately have "unat (window_base phys) + unat (of_nat t * FOURMB) =
      4194304 * (unat (window_base phys) div 4194304 + t)" by simp
  then have "unat (window_base phys + of_nat t * FOURMB) =
      (4194304 * (unat (window_base phys) div 4194304 + t)) mod (4194304 * 1024)"
    by (simp only: unat_word_ariths) simp
  then have "unat (window_base phys + of_nat t * FOURMB) =
      4194304 * ((unat (window_base phys) div 4194304 + t) mod 1024)" by (simp only: mod_mult_mult1)
  then show ?thesis unfolding unat_pde_index by simp
qed

lemma mod_1024_cancel: "t < 1024 \<Longrightarrow> u < 1024 \<Longrightarrow> (a + t) mod 1024 = (a + u) mod 1024 \<Longrightarrow> t = (u :: nat)"
proof -
  assume lt: "t < 1024" "u < 1024" and "(a + t) mod 1024 = (a + u) mod 1024"
  then obtain q1 q2 where "a + t + 1024 * q1 = a + u + 1024 * q2" by (auto simp: nat_mod_eq_iff)
  then have "(t + 1024 * q1) mod 1024 = (u + 1024 * q2) mod 1024" by simp
  with lt show ?thesis by simp
qed

lemma window_slots:
  "k \<le> 1024 \<Longrightarrow> inj_on (\<lambda>t. unat (vmm_pde_index (window_base phys + of_nat t * FOURMB))) {..<k}"
proof (rule inj_onI)
  fix t u assume "k \<le> 1024" "t \<in> {..<k}" "u \<in> {..<k}"
    and eq: "unat (vmm_pde_index (window_base phys + of_nat t * FOURMB)) =
      unat (vmm_pde_index (window_base phys + of_nat u * FOURMB))"
  then have tu: "t < 1024" "u < 1024" by auto
  then have "(unat (window_base phys) div 4194304 + t) mod 1024 = (unat (window_base phys) div 4194304 + u) mod 1024"
    using eq window_slot by simp
  with tu show "t = u" by (rule mod_1024_cancel)
qed

lemma window_entry:
  assumes "unat (vmm_pde_index (window_base phys + of_nat t * FOURMB)) = unat (vmm_pde_index va)"
  shows "window_base phys + of_nat t * FOURMB + of_nat (unat (vmm_pte_index va)) * VMM_PAGE_SIZE = va AND ADDR_MASK"
proof -
  let ?X = "window_base phys + of_nat t * FOURMB"
  have X: "unat ?X = 4194304 * (unat va div 4194304)"
    using window_aligned [of phys t] assms by (simp add: unat_pde_index) (metis dvd_mult_div_cancel)
  let ?e = "unat va div 4096 mod 1024"
  have e: "unat (of_nat (unat (vmm_pte_index va)) * VMM_PAGE_SIZE :: u32) = ?e * 4096"
    using index_bounds(2) [of va]
    by (simp add: VMM_PAGE_SIZE_def unat_word_ariths unat_pte_index [symmetric] unat_of_nat_u32)
  have page: "unat va div 4194304 * 1024 + ?e = unat va div 4096"
    using div_mult2_eq [of "unat va" 4096 1024] div_mult_mod_eq [of "unat va div 4096" 1024] by simp
  have "4194304 * (unat va div 4194304) + ?e * 4096 = (unat va div 4194304 * 1024 + ?e) * 4096" by simp
  then have sum: "4194304 * (unat va div 4194304) + ?e * 4096 = unat va div 4096 * 4096"
    by (simp only: page)
  also have "\<dots> \<le> unat va" by (rule div_times_less_eq_dividend)
  finally have "unat (?X + of_nat (unat (vmm_pte_index va)) * VMM_PAGE_SIZE) = unat va div 4096 * 4096"
    using X e sum unat_u32_less [of va] by (subst unat_add_u32) simp_all
  then show ?thesis unfolding word_unat_eq_iff unat_and_mask .
qed

definition tables_in :: "u32 \<Rightarrow> mem \<Rightarrow> u32 set \<Rightarrow> bool" where
  "tables_in pd m S \<longleftrightarrow>
     (\<forall>i < 1024. vmm_entry_present (rd32 m (word_at pd i)) \<longrightarrow> vmm_entry_addr (rd32 m (word_at pd i)) \<in> S)"

definition pool_tables :: "u32 \<Rightarrow> nat \<Rightarrow> u32 set" where
  "pool_tables tabs n = {tabs + 4 * (of_nat t * 1024) | t. t < n}"

definition clear_of :: "u32 set \<Rightarrow> u32 \<Rightarrow> nat \<Rightarrow> bool" where
  "clear_of S p n \<longleftrightarrow> (\<forall>a \<in> S. unat a + 4096 \<le> unat p \<or> unat p + 4096 * n \<le> unat a)"

definition window_map :: "u32 \<Rightarrow> u32 \<Rightarrow> u32 \<Rightarrow> u32 \<Rightarrow> nat \<Rightarrow> mem \<Rightarrow> mem" where
  "window_map pd tabs base fl k m =
     table_loop pd tabs (\<lambda>t. unat (vmm_pde_index (base + of_nat t * FOURMB)))
       (\<lambda>t. vmm_make_entry (tabs + 4 * (of_nat t * 1024)) (PTE_RW OR PTE_PRESENT))
       (\<lambda>t e. vmm_make_entry (base + of_nat t * FOURMB + of_nat e * VMM_PAGE_SIZE) fl) k m"

lemma map_window_fold:
  "fold (map_window_table L tabs base fl) [0..<k] m = window_map (page_dir L) tabs base fl k m"
  unfolding window_map_def table_loop_def
  by (rule fold_cong)
    (simp_all add: map_window_table_def Let_def fun_eq_iff index_word_at [symmetric] vmm_pde_index_def [symmetric])

lemma window_walk:
  assumes "pool pd tabs n" "k \<le> n" "k \<le> 1024" "vmm_entry_present fl"
    and "tables_in pd m S" "clear_of S tabs n" "clear_of S pd 1"
  shows "walk_pte pd va (window_map pd tabs (window_base phys) fl k m) =
     (if in_window (window_base phys) k va then Some (vmm_make_entry va fl) else walk_pte pd va m)"
proof -
  let ?m = "window_map pd tabs (window_base phys) fl k m"
  let ?slot = "\<lambda>t. unat (vmm_pde_index (window_base phys + of_nat t * FOURMB))"
  let ?i = "unat (vmm_pde_index va)" and ?e = "unat (vmm_pte_index va)"
  have slots: "\<forall>t < k. ?slot t < 1024" using index_bounds(1) by blast
  have pd: "4096 dvd unat pd" and ie: "?i < 1024" "?e < 1024"
    using assms(1) index_bounds by (simp_all add: pool_def)
  show ?thesis
  proof (cases "in_window (window_base phys) k va")
    case True
    then obtain t where t: "t < k" "?slot t = ?i" by (auto simp: in_window_def)
    let ?pt = "tabs + 4 * (of_nat t * 1024)"
    have tn: "t < n" using t(1) assms(2) by simp
    have "rd32 ?m (word_at pd ?i) = vmm_make_entry ?pt (PTE_RW OR PTE_PRESENT)"
      unfolding t(2) [symmetric] window_map_def
      by (rule table_loop_slot [OF assms(1,2) slots window_slots [OF assms(3)] t(1)])
    moreover have "4096 dvd unat ?pt"
      using table_address [OF assms(1) tn] assms(1) by (simp add: pool_def)
    moreover have "rd32 ?m (word_at tabs (1024 * t + ?e)) = vmm_make_entry (va AND ADDR_MASK) fl"
      unfolding window_map_def table_loop_entry [OF assms(1,2) slots t(1) ie(2)] window_entry [OF t(2)] ..
    moreover have "word_at tabs (1024 * t + ?e) = ?pt + 4 * vmm_pte_index va"
      by (simp add: word_at_def algebra_simps)
    moreover have "vmm_make_entry (va AND ADDR_MASK) fl = vmm_make_entry va fl"
      by (simp add: vmm_make_entry_def and.assoc)
    ultimately show ?thesis using True assms(4)
      by (simp add: walk_pte_def Let_def index_word_at [of pd] page_aligned_mask)
  next
    case False
    then have ns: "\<forall>t < k. ?slot t \<noteq> ?i" by (auto simp: in_window_def)
    have kn: "4096 * k \<le> 4096 * n" using assms(2) by simp
    have dir: "rd32 ?m (word_at pd ?i) = rd32 m (word_at pd ?i)"
      unfolding window_map_def
    proof (rule table_loop_elsewhere [OF assms(1,2) slots dir_entry(2) [OF pd ie(1)]])
      show "unat (word_at pd ?i) < unat tabs \<or> unat tabs + 4096 * k \<le> unat (word_at pd ?i)"
        using dir_entry(1) [OF pd ie(1)] ie(1) kn assms(1) by (auto simp: pool_def)
      show "\<forall>t < k. word_at pd ?i \<noteq> word_at pd (?slot t)"
        using ns dir_entry(1) [OF pd] ie(1) slots by (metis add_left_cancel mult_left_cancel zero_neq_numeral)
    qed
    have "rd32 ?m (vmm_entry_addr (rd32 m (word_at pd ?i)) + 4 * vmm_pte_index va) =
        rd32 m (vmm_entry_addr (rd32 m (word_at pd ?i)) + 4 * vmm_pte_index va)"
      if "vmm_entry_present (rd32 m (word_at pd ?i))"
    proof -
      define a where "a = vmm_entry_addr (rd32 m (word_at pd ?i))"
      have "a \<in> S" using assms(5) that ie(1) by (simp add: tables_in_def a_def)
      then have cl: "unat a + 4096 \<le> unat tabs \<or> unat tabs + 4096 * n \<le> unat a"
        "unat a + 4096 \<le> unat pd \<or> unat pd + 4096 \<le> unat a"
        using assms(6,7) by (auto simp: clear_of_def)
      have "4096 dvd unat a" unfolding a_def by (rule entry_addr_aligned)
      note w = dir_entry [OF this ie(2)]
      have "rd32 ?m (word_at a ?e) = rd32 m (word_at a ?e)"
        unfolding window_map_def
      proof (rule table_loop_elsewhere [OF assms(1,2) slots w(2)])
        show "unat (word_at a ?e) < unat tabs \<or> unat tabs + 4096 * k \<le> unat (word_at a ?e)"
          using w(1) ie(2) kn cl(1) by auto
        show "\<forall>t < k. word_at a ?e \<noteq> word_at pd (?slot t)"
        proof (intro allI impI notI)
          fix t assume "t < k" and "word_at a ?e = word_at pd (?slot t)"
          then have "unat a + 4 * ?e = unat pd + 4 * ?slot t" using w(1) dir_entry(1) [OF pd] slots by metis
          with cl(2) ie(2) slots \<open>t < k\<close> show False by force
        qed
      qed
      then show ?thesis by (simp only: index_word_at a_def)
    qed
    with dir False show ?thesis by (simp add: walk_pte_def Let_def index_word_at [of pd])
  qed
qed

lemma window_tables:
  assumes "pool pd tabs n" "k \<le> n" "k \<le> 1024" "tables_in pd m S"
  shows "tables_in pd (window_map pd tabs (window_base phys) fl k m) (S \<union> pool_tables tabs n)"
  unfolding tables_in_def
proof (intro allI impI)
  let ?m = "window_map pd tabs (window_base phys) fl k m"
  let ?slot = "\<lambda>t. unat (vmm_pde_index (window_base phys + of_nat t * FOURMB))"
  fix i :: nat assume i: "i < 1024" and pr: "vmm_entry_present (rd32 ?m (word_at pd i))"
  have slots: "\<forall>t < k. ?slot t < 1024" using index_bounds(1) by blast
  have pd: "4096 dvd unat pd" using assms(1) by (simp add: pool_def)
  show "vmm_entry_addr (rd32 ?m (word_at pd i)) \<in> S \<union> pool_tables tabs n"
  proof (cases "\<exists>t < k. ?slot t = i")
    case True
    then obtain t where t: "t < k" "?slot t = i" by blast
    have tn: "t < n" using t(1) assms(2) by simp
    have "rd32 ?m (word_at pd i) = vmm_make_entry (tabs + 4 * (of_nat t * 1024)) (PTE_RW OR PTE_PRESENT)"
      unfolding t(2) [symmetric] window_map_def
      by (rule table_loop_slot [OF assms(1,2) slots window_slots [OF assms(3)] t(1)])
    moreover have "4096 dvd unat (tabs + 4 * (of_nat t * 1024))"
      using table_address [OF assms(1) tn] assms(1) by (simp add: pool_def)
    ultimately show ?thesis using tn by (auto simp: page_aligned_mask pool_tables_def)
  next
    case False
    have "rd32 ?m (word_at pd i) = rd32 m (word_at pd i)"
      unfolding window_map_def
    proof (rule table_loop_elsewhere [OF assms(1,2) slots dir_entry(2) [OF pd i]])
      have "4096 * k \<le> 4096 * n" using assms(2) by simp
      then show "unat (word_at pd i) < unat tabs \<or> unat tabs + 4096 * k \<le> unat (word_at pd i)"
        using dir_entry(1) [OF pd i] i assms(1) by (auto simp: pool_def)
      show "\<forall>t < k. word_at pd i \<noteq> word_at pd (?slot t)"
        using False dir_entry(1) [OF pd] i slots by (metis add_left_cancel mult_left_cancel zero_neq_numeral)
    qed
    then show ?thesis using pr assms(4) i by (simp add: tables_in_def)
  qed
qed

section \<open>The kernel's maps\<close>

definition apart :: "u32 \<Rightarrow> nat \<Rightarrow> u32 \<Rightarrow> nat \<Rightarrow> bool" where
  "apart p n q k \<longleftrightarrow> unat p + 4096 * n \<le> unat q \<or> unat q + 4096 * k \<le> unat p"

text \<open>The static arrays are page-aligned and do not overlap.\<close>

definition layout_ok :: "vmm_layout \<Rightarrow> bool" where
  "layout_ok L \<longleftrightarrow> pool (page_dir L) (page_tabs L) 2 \<and> pool (page_dir L) (lfb_tabs L) 8 \<and>
     pool (page_dir L) (mmio_tabs L) 2 \<and> apart (page_tabs L) 2 (lfb_tabs L) 8 \<and>
     apart (page_tabs L) 2 (mmio_tabs L) 2 \<and> apart (lfb_tabs L) 8 (mmio_tabs L) 2"

lemma pool_tables_clear:
  assumes "pool pd p n" "apart p n q k"
  shows "clear_of (pool_tables p n) q k"
  unfolding clear_of_def pool_tables_def
proof clarify
  fix t assume t: "t < n" and no: "\<not> unat q + 4096 * k \<le> unat (p + 4 * (of_nat t * 1024))"
  have "4096 * t + 4096 \<le> 4096 * n" using t by linarith
  then show "unat (p + 4 * (of_nat t * 1024)) + 4096 \<le> unat q"
    using no assms(2) unfolding table_address [OF assms(1) t] apart_def by linarith
qed

lemma pool_tables_clear_dir: "pool pd p n \<Longrightarrow> clear_of (pool_tables p n) pd 1"
  by (rule pool_tables_clear) (auto simp: pool_def apart_def)

lemma clear_of_Un: "clear_of (S \<union> T) p n \<longleftrightarrow> clear_of S p n \<and> clear_of T p n"
  by (auto simp: clear_of_def)

lemma walk_window:
  assumes "pool pd tabs n" "k \<le> n" "k \<le> 1024" "vmm_entry_present fl"
    and "tables_in pd m S" "clear_of S tabs n" "clear_of S pd 1"
  shows "walk pd va (window_map pd tabs (window_base phys) fl k m) =
     (if in_window (window_base phys) k va then Some va else walk pd va m)"
  unfolding walk_def window_walk [OF assms] by (simp add: addr_or_offset)

lemma vmm_init_walk:
  assumes "layout_ok L"
  shows "ready (vmm_init L s)"
    "walk (page_dir L) va (vm_mem (vmm_init L s)) = (if unat va < 8388608 then Some va else None)"
    "tables_in (page_dir L) (vm_mem (vmm_init L s)) (pool_tables (page_tabs L) 2)"
proof -
  have pl: "pool (page_dir L) (page_tabs L) (unat VMM_NPTS)" and al: "4096 dvd unat (page_tabs L)"
    using assms by (simp_all add: layout_ok_def VMM_NPTS_def pool_def)
  obtain r m' where im: "vmm_identity_map (page_dir L) (page_tabs L) (page_tabs L) VMM_NPTS VMM_IDMAP_BYTES
      (PTE_RW OR PTE_USER) (vm_mem s) = (r, m')" by fastforce
  have mem: "vm_mem (vmm_init L s) = m'" "ready (vmm_init L s) \<longleftrightarrow> r = VMM_NPTS"
    by (simp_all add: vmm_init_def im)
  note w = identity_map_walk [OF pl al _ _ im]
  have "unat r = 2" using w(1) by (simp add: VMM_IDMAP_BYTES_def VMM_NPTS_def)
  then show "ready (vmm_init L s)" unfolding mem(2) by (simp add: word_unat_eq_iff VMM_NPTS_def)
  show "walk (page_dir L) va (vm_mem (vmm_init L s)) = (if unat va < 8388608 then Some va else None)"
    using w(2) [of va] unfolding mem(1) translate_is_walk [OF al]
    by (simp add: VMM_IDMAP_BYTES_def VMM_NPTS_def)
  define pages :: u32 where "pages = drop_bit 12 (VMM_IDMAP_BYTES + VMM_PAGE_SIZE - 1)"
  have need: "drop_bit 10 (pages + 1023) = 2"
    by (simp add: pages_def VMM_IDMAP_BYTES_def VMM_PAGE_SIZE_def drop_bit_eq_div)
  note tabs = identity_map_tables(2) [OF pl _ im, folded pages_def, unfolded need]
  have "vmm_entry_addr (rd32 m' (word_at (page_dir L) i)) \<in> pool_tables (page_tabs L) 2"
    if "i < 1024" "vmm_entry_present (rd32 m' (word_at (page_dir L) i))" for i
  proof -
    have i2: "i < 2" using that tabs [of i] by (simp add: VMM_NPTS_def split: if_splits)
    let ?pt = "page_tabs L + 4 * (of_nat i * 1024)"
    have "rd32 m' (word_at (page_dir L) i) = vmm_make_entry ?pt (PTE_RW OR PTE_USER OR PTE_PRESENT)"
      using tabs [of i] that i2 by (simp add: VMM_NPTS_def VMM_PAGE_SIZE_def or.assoc mult.commute)
    moreover have "4096 dvd unat ?pt"
      using table_address [OF pl, of i] i2 al by (simp add: VMM_NPTS_def)
    ultimately show ?thesis using i2 by (auto simp: page_aligned_mask pool_tables_def)
  qed
  then show "tables_in (page_dir L) (vm_mem (vmm_init L s)) (pool_tables (page_tabs L) 2)"
    unfolding mem(1) tables_in_def by blast
qed

text \<open>The number of tables \<open>vmm_map_lfb\<close> and \<open>vmm_map_mmio\<close> compute.\<close>

definition window_tables_needed :: "u32 \<Rightarrow> u32 \<Rightarrow> u32" where
  "window_tables_needed phys bytes = (phys + bytes - window_base phys + FOURMB - 1) div FOURMB"

definition lfb_tables :: "u32 \<Rightarrow> u32 \<Rightarrow> nat" where
  "lfb_tables phys bytes = min (unat (window_tables_needed phys bytes)) 8"

lemma vmm_map_lfb_eq:
  assumes "ready s"
  shows "vmm_map_lfb L phys bytes s =
    (if window_tables_needed phys bytes = 0 then (False, s)
     else (True, s\<lparr>vm_mem := window_map (page_dir L) (lfb_tabs L) (window_base phys) (PTE_RW OR PTE_PRESENT)
                     (lfb_tables phys bytes) (vm_mem s), cr3 := page_dir L\<rparr>))"
  using assms
  by (simp add: vmm_map_lfb_def Let_def map_window_fold window_tables_needed_def window_base_def
      lfb_tables_def VMM_LFB_NPTS_def word_less_nat_alt min_def)

lemma vmm_map_mmio_eq:
  assumes "ready s"
  shows "vmm_map_mmio L phys bytes s =
    (if window_tables_needed phys bytes = 0 \<or> 2 < unat (window_tables_needed phys bytes) then (False, s)
     else (True, s\<lparr>vm_mem := window_map (page_dir L) (mmio_tabs L) (window_base phys)
                     (PTE_PCD OR PTE_RW OR PTE_PRESENT) (unat (window_tables_needed phys bytes)) (vm_mem s),
                   cr3 := page_dir L\<rparr>))"
  using assms
  by (simp add: vmm_map_mmio_def Let_def map_window_fold window_tables_needed_def window_base_def
      VMM_MMIO_NPTS_def word_less_nat_alt)

lemma lfb_walk:
  assumes "layout_ok L" "k \<le> 8" "tables_in (page_dir L) m (pool_tables (page_tabs L) 2)"
  shows "walk (page_dir L) va (window_map (page_dir L) (lfb_tabs L) (window_base phys) (PTE_RW OR PTE_PRESENT) k m) =
      (if in_window (window_base phys) k va then Some va else walk (page_dir L) va m)"
    "tables_in (page_dir L) (window_map (page_dir L) (lfb_tabs L) (window_base phys) (PTE_RW OR PTE_PRESENT) k m)
      (pool_tables (page_tabs L) 2 \<union> pool_tables (lfb_tabs L) 8)"
proof -
  have pl: "pool (page_dir L) (lfb_tabs L) 8" and pt: "pool (page_dir L) (page_tabs L) 2"
    "apart (page_tabs L) 2 (lfb_tabs L) 8" using assms(1) by (simp_all add: layout_ok_def)
  have k: "k \<le> 1024" using assms(2) by simp
  show "walk (page_dir L) va (window_map (page_dir L) (lfb_tabs L) (window_base phys) (PTE_RW OR PTE_PRESENT) k m) =
      (if in_window (window_base phys) k va then Some va else walk (page_dir L) va m)"
    by (rule walk_window [OF pl assms(2) k present_or(1) assms(3) pool_tables_clear [OF pt]
        pool_tables_clear_dir [OF pt(1)]])
  show "tables_in (page_dir L) (window_map (page_dir L) (lfb_tabs L) (window_base phys) (PTE_RW OR PTE_PRESENT) k m)
      (pool_tables (page_tabs L) 2 \<union> pool_tables (lfb_tabs L) 8)"
    by (rule window_tables [OF pl assms(2) k assms(3)])
qed

lemma mmio_walk:
  assumes "layout_ok L" "k \<le> 2"
    and "tables_in (page_dir L) m (pool_tables (page_tabs L) 2 \<union> pool_tables (lfb_tabs L) 8)"
  shows "walk (page_dir L) va (window_map (page_dir L) (mmio_tabs L) (window_base phys)
        (PTE_PCD OR PTE_RW OR PTE_PRESENT) k m) =
      (if in_window (window_base phys) k va then Some va else walk (page_dir L) va m)"
proof -
  have pl: "pool (page_dir L) (mmio_tabs L) 2" "pool (page_dir L) (page_tabs L) 2" "pool (page_dir L) (lfb_tabs L) 8"
    and ap: "apart (page_tabs L) 2 (mmio_tabs L) 2" "apart (lfb_tabs L) 8 (mmio_tabs L) 2"
    using assms(1) by (simp_all add: layout_ok_def)
  have k: "k \<le> 1024" using assms(2) by simp
  have pr: "vmm_entry_present (PTE_PCD OR PTE_RW OR PTE_PRESENT)" by (simp add: or.assoc [symmetric])
  have cl: "clear_of (pool_tables (page_tabs L) 2 \<union> pool_tables (lfb_tabs L) 8) (mmio_tabs L) 2"
    "clear_of (pool_tables (page_tabs L) 2 \<union> pool_tables (lfb_tabs L) 8) (page_dir L) 1"
    unfolding clear_of_Un
    using pool_tables_clear [OF pl(2) ap(1)] pool_tables_clear [OF pl(3) ap(2)]
      pool_tables_clear_dir [OF pl(2)] pool_tables_clear_dir [OF pl(3)] by simp_all
  show ?thesis by (rule walk_window [OF pl(1) assms(2) k pr assms(3) cl])
qed

lemma window_covers:
  assumes "unat phys \<le> unat va" "unat va < unat (window_base phys) + 4194304 * k" "k \<le> 1024"
  shows "in_window (window_base phys) k va"
proof -
  let ?b = "unat phys div 4194304" and ?t = "unat va div 4194304 - unat phys div 4194304"
  have le: "?b \<le> unat va div 4194304" using assms(1) by (rule div_le_mono)
  have base: "unat (window_base phys) div 4194304 = ?b" by (simp add: unat_window_base)
  have "unat va < (?b + k) * 4194304" using assms(2) by (simp add: unat_window_base algebra_simps)
  then have tk: "?t < k" using le by (simp add: div_less_iff_less_mult [symmetric])
  have "unat (vmm_pde_index (window_base phys + of_nat ?t * FOURMB)) = (?b + ?t) mod 1024"
    using window_slot [of ?t phys] tk assms(3) base by simp
  also have "\<dots> = unat (vmm_pde_index va)" using le index_bounds(1) [of va] by (simp add: unat_pde_index)
  finally show ?thesis using tk by (auto simp: in_window_def)
qed

lemma window_tables_needed_eq:
  assumes "unat phys mod 4194304 + unat bytes \<le> 4290772992"
  shows "unat (window_tables_needed phys bytes) = (unat phys mod 4194304 + unat bytes + 4194303) div 4194304"
proof -
  have "unat phys = unat phys div 4194304 * 4194304 + unat phys mod 4194304" by simp
  then have "unat phys = unat (window_base phys) + unat phys mod 4194304" by (simp only: unat_window_base)
  then have d: "unat (phys - window_base phys) = unat phys mod 4194304"
    by (subst unat_sub) (simp_all add: word_le_nat_alt)
  have eq: "phys + bytes - window_base phys + FOURMB - 1 = (phys - window_base phys) + bytes + 4194303"
    by (simp add: FOURMB_def)
  have "unat ((phys - window_base phys) + bytes + 4194303) = unat phys mod 4194304 + unat bytes + 4194303"
    using assms d by (simp add: unat_word_ariths)
  then show ?thesis unfolding window_tables_needed_def eq unat_div by (simp only: FOURMB_def) simp
qed

section \<open>Correctness of paging\<close>

text \<open>
  C5: \<open>vmm_identity_map\<close> with a large enough pool of tables, apart from the directory,
  builds exactly the identity map of its argument rounded up to whole pages: translation
  through the tables gives every address below the bound itself and no address above it.
\<close>

theorem vmm_identity_map_correct:
  assumes "pool pd pts (unat n_pts)" "4096 dvd unat pts_phys" "unat bytes \<le> 4294963200"
    and "(unat bytes + 4095) div 4096 \<le> 1024 * unat n_pts"
  shows "\<exists>r m'. vmm_identity_map pd pts pts_phys n_pts bytes flags m = (r, m') \<and>
     unat r = ((unat bytes + 4095) div 4096 + 1023) div 1024 \<and>
     (\<forall>va. vmm_translate pd pts pts_phys va m' =
        (if unat va < (unat bytes + 4095) div 4096 * 4096 then Some va else None))"
proof -
  obtain r m' where r: "vmm_identity_map pd pts pts_phys n_pts bytes flags m = (r, m')" by fastforce
  from identity_map_walk [OF assms r] r show ?thesis by blast
qed

theorem vmm_identity_map_correct_witness:
  "\<exists>r m'. vmm_identity_map 0x1000 0x2000 0x2000 2 0x500000 PTE_RW (\<lambda>_. 0) = (r, m') \<and>
     vmm_translate 0x1000 0x2000 0x2000 0x4FFABC m' = Some 0x4FFABC \<and>
     vmm_translate 0x1000 0x2000 0x2000 0x500000 m' = None"
proof -
  obtain r m' where r: "vmm_identity_map 0x1000 0x2000 0x2000 2 0x500000 PTE_RW (\<lambda>_. 0) = (r, m')"
    and tr: "\<forall>va. vmm_translate 0x1000 0x2000 0x2000 va m' = (if unat va < 0x500000 then Some va else None)"
    using vmm_identity_map_correct [of "0x1000" "0x2000" 2 "0x2000" "0x500000" PTE_RW "\<lambda>_. 0"]
    by (auto simp: pool_def)
  from tr [rule_format, of "0x4FFABC"] tr [rule_format, of "0x500000"] r show ?thesis by simp
qed

text \<open>
  C16: after \<open>vmm_init\<close>, a framebuffer window and a device window at any addresses and of
  any sizes, every translation the processor finds is the identity, the low 8 MiB stay
  mapped, and \<open>vmm_phys_of\<close> reports what the processor finds.
\<close>

theorem vmm_windows_identity:
  assumes "layout_ok L" "vmm_map_lfb L p1 b1 (vmm_init L s) = (ok1, s2)" "vmm_map_mmio L p2 b2 s2 = (ok2, s3)"
  shows "(\<forall>pa. walk (page_dir L) va (vm_mem s3) = Some pa \<longrightarrow> pa = va) \<and>
     (unat va < 8388608 \<longrightarrow> walk (page_dir L) va (vm_mem s3) = Some va) \<and>
     vmm_phys_of L va s3 = (case walk (page_dir L) va (vm_mem s3) of Some pa \<Rightarrow> pa | None \<Rightarrow> 0xFFFFFFFF)"
proof -
  note init = vmm_init_walk [OF assms(1), where s = s]
  note e1 = vmm_map_lfb_eq [OF init(1), of L p1 b1]
  have k1: "lfb_tables p1 b1 \<le> 8" by (simp add: lfb_tables_def)
  note w1 = lfb_walk [OF assms(1) k1 init(3)]
  have s2: "ready s2" "tables_in (page_dir L) (vm_mem s2) (pool_tables (page_tabs L) 2 \<union> pool_tables (lfb_tabs L) 8)"
    and id2: "walk (page_dir L) va (vm_mem s2) \<in> {None, Some va}"
    and low2: "unat va < 8388608 \<Longrightarrow> walk (page_dir L) va (vm_mem s2) = Some va"
    using assms(2) e1 init w1(2) [of p1] w1(1) [of va p1] by (auto simp: tables_in_def split: if_splits)
  let ?k = "unat (window_tables_needed p2 b2)"
  have w2: "?k \<le> 2 \<Longrightarrow> walk (page_dir L) va (window_map (page_dir L) (mmio_tabs L) (window_base p2)
        (PTE_PCD OR PTE_RW OR PTE_PRESENT) ?k (vm_mem s2)) =
      (if in_window (window_base p2) ?k va then Some va else walk (page_dir L) va (vm_mem s2))"
    by (rule mmio_walk [OF assms(1) _ s2(2)])
  have res: "walk (page_dir L) va (vm_mem s3) \<in> {None, Some va}"
    "unat va < 8388608 \<Longrightarrow> walk (page_dir L) va (vm_mem s3) = Some va"
    using assms(3) vmm_map_mmio_eq [OF s2(1), of L p2 b2] w2 id2 low2 by (auto split: if_splits)
  have "4096 dvd unat (page_tabs L)" using assms(1) by (simp add: layout_ok_def pool_def)
  then have "vmm_phys_of L va s3 = (case walk (page_dir L) va (vm_mem s3) of Some pa \<Rightarrow> pa | None \<Rightarrow> 0xFFFFFFFF)"
    by (simp add: vmm_phys_of_def translate_is_walk)
  with res show ?thesis by auto
qed

definition demo_layout :: vmm_layout where
  "demo_layout = \<lparr>page_dir = 0x200000, page_tabs = 0x201000, lfb_tabs = 0x203000, mmio_tabs = 0x20B000\<rparr>"

definition demo_vmm :: vmm where
  "demo_vmm = \<lparr>vm_mem = (\<lambda>_. 0), ready = False, enabled = False, cr3 = 0, cr0 = 0x11\<rparr>"

lemma demo_layout_ok: "layout_ok demo_layout"
  by (simp add: layout_ok_def demo_layout_def pool_def apart_def)

theorem vmm_windows_identity_witness:
  "\<exists>ok1 s2 ok2 s3. vmm_map_lfb demo_layout 0xFD000000 0x300000 (vmm_init demo_layout demo_vmm) = (ok1, s2) \<and>
     vmm_map_mmio demo_layout 0xFEBF0000 0x10000 s2 = (ok2, s3) \<and>
     walk (page_dir demo_layout) 0x123456 (vm_mem s3) = Some 0x123456"
proof -
  obtain ok1 s2 where 1: "vmm_map_lfb demo_layout 0xFD000000 0x300000 (vmm_init demo_layout demo_vmm) = (ok1, s2)"
    by fastforce
  obtain ok2 s3 where 2: "vmm_map_mmio demo_layout 0xFEBF0000 0x10000 s2 = (ok2, s3)" by fastforce
  from vmm_windows_identity [OF demo_layout_ok 1 2, of "0x123456"]
  have "walk (page_dir demo_layout) 0x123456 (vm_mem s3) = Some 0x123456" by simp
  with 1 2 show ?thesis by blast
qed

lemma lfb_window_identity:
  assumes "layout_ok L" "bytes \<noteq> 0" "unat phys mod 4194304 + unat bytes \<le> 4290772992"
  shows "\<exists>s2. vmm_map_lfb L phys bytes (vmm_init L s) = (True, s2) \<and> cr3 s2 = page_dir L \<and>
     (\<forall>va. unat phys \<le> unat va \<longrightarrow> unat va < unat phys + unat bytes \<longrightarrow>
        unat va < unat phys div 4194304 * 4194304 + unat vmm_lfb_capacity \<longrightarrow>
        walk (page_dir L) va (vm_mem s2) = Some va)"
proof -
  note init = vmm_init_walk [OF assms(1), where s = s]
  note n = window_tables_needed_eq [OF assms(3)]
  have b: "0 < unat bytes" using assms(2) by (simp add: unat_gt_0)
  then have n0: "window_tables_needed phys bytes \<noteq> 0" using n by (auto simp: word_unat_eq_iff)
  have k8: "lfb_tables phys bytes \<le> 8" by (simp add: lfb_tables_def)
  have cap: "unat vmm_lfb_capacity = 33554432" by (simp add: vmm_lfb_capacity_def VMM_LFB_NPTS_def)
  have "in_window (window_base phys) (lfb_tables phys bytes) va"
    if "unat phys \<le> unat va" "unat va < unat phys + unat bytes"
      "unat va < unat phys div 4194304 * 4194304 + 33554432" for va
  proof (rule window_covers [OF that(1)])
    have "unat phys = unat (window_base phys) + unat phys mod 4194304" by (simp add: unat_window_base)
    then have "unat va < unat (window_base phys) + 4194304 * unat (window_tables_needed phys bytes)"
      unfolding n using that(2) by linarith
    then show "unat va < unat (window_base phys) + 4194304 * lfb_tables phys bytes"
      using that(3) by (auto simp: lfb_tables_def unat_window_base min_def)
  qed (use k8 in simp)
  then show ?thesis
    using vmm_map_lfb_eq [OF init(1), of L phys bytes] n0 lfb_walk(1) [OF assms(1) k8 init(3)] cap
    by simp
qed

text \<open>
  C17: mapping a nonempty framebuffer that does not wrap around the address space
  succeeds, and every byte of it within \<open>vmm_lfb_capacity\<close> of the 4 MiB-aligned start is
  mapped to itself.
\<close>

theorem vmm_map_lfb_covers:
  assumes "layout_ok L" "bytes \<noteq> 0" "unat phys mod 4194304 + unat bytes \<le> 4290772992"
  shows "\<exists>s2. vmm_map_lfb L phys bytes (vmm_init L s) = (True, s2) \<and> cr3 s2 = page_dir L \<and>
     (\<forall>va. unat phys \<le> unat va \<longrightarrow> unat va < unat phys + unat bytes \<longrightarrow>
        unat va < unat phys div 4194304 * 4194304 + unat vmm_lfb_capacity \<longrightarrow>
        walk (page_dir L) va (vm_mem s2) = Some va)"
  using assms by (rule lfb_window_identity)

theorem vmm_map_lfb_covers_witness:
  "\<exists>s2. vmm_map_lfb demo_layout 0xFD000000 0x300000 (vmm_init demo_layout demo_vmm) = (True, s2) \<and>
     walk (page_dir demo_layout) 0xFD2FFFFF (vm_mem s2) = Some 0xFD2FFFFF"
  using vmm_map_lfb_covers [OF demo_layout_ok, of "0x300000" "0xFD000000" demo_vmm]
  by (force simp: vmm_lfb_capacity_def VMM_LFB_NPTS_def)

end
