(* ===== verification/Sched.thy ===== *)
theory Sched
  imports Thuos_Prelude
begin

text \<open>
  The round-robin scheduler (\<open>kernel/sched/sched_core.c\<close>, \<open>sched.c\<close>): the task table,
  its operations, the invariant that at most the current task is running, and the
  fairness of the cyclic scan.
\<close>

section \<open>Data and operations (sched_core.c)\<close>

datatype task_state = TASK_UNUSED | TASK_READY | TASK_RUNNING | TASK_BLOCKED | TASK_ZOMBIE

record sched_task =
  t_id :: int
  t_state :: task_state
  t_quantum :: u32
  t_reload :: u32
  t_ran :: u32

text \<open>The table's capacity \<open>cap\<close> is the length of \<open>tasks\<close>; \<open>current\<close> is -1 when idle.\<close>

record sched =
  tasks :: "sched_task list"
  current :: int
  cursor :: nat

abbreviation cap :: "sched \<Rightarrow> nat" where
  "cap s \<equiv> length (tasks s)"

definition unused_task :: sched_task where
  "unused_task = \<lparr>t_id = 0, t_state = TASK_UNUSED, t_quantum = 0, t_reload = 0, t_ran = 0\<rparr>"

definition sched_init :: "nat \<Rightarrow> sched" where
  "sched_init n = \<lparr>tasks = replicate n unused_task, current = -1, cursor = 0\<rparr>"

definition find_id :: "sched \<Rightarrow> int \<Rightarrow> nat option" where
  "find_id s tid = find_slot (\<lambda>t. t_state t \<noteq> TASK_UNUSED \<and> t_id t = tid) (tasks s)"

definition sched_add :: "int \<Rightarrow> u32 \<Rightarrow> sched \<Rightarrow> int \<times> sched" where
  "sched_add tid quantum s =
     (let q = (if quantum = 0 then 1 else quantum)
      in case find_slot (\<lambda>t. t_state t = TASK_UNUSED) (tasks s) of
           Some i \<Rightarrow>
             (int i, s\<lparr>tasks := (tasks s)[i := \<lparr>t_id = tid, t_state = TASK_READY, t_quantum = q,
                                                t_reload = q, t_ran = 0\<rparr>]\<rparr>)
         | None \<Rightarrow> (-1, s))"

definition set_state :: "nat \<Rightarrow> task_state \<Rightarrow> sched \<Rightarrow> sched" where
  "set_state i st s = s\<lparr>tasks := (tasks s)[i := (tasks s ! i)\<lparr>t_state := st\<rparr>]\<rparr>"

definition demote :: "sched \<Rightarrow> sched" where
  "demote s =
     (if current s \<ge> 0 \<and> t_state (tasks s ! nat (current s)) = TASK_RUNNING
      then set_state (nat (current s)) TASK_READY s else s)"

definition scan_order :: "sched \<Rightarrow> nat list" where
  "scan_order s = map (\<lambda>n. (cursor s + n) mod cap s) [0..<cap s]"

definition sched_pick_next :: "sched \<Rightarrow> int \<times> sched" where
  "sched_pick_next s0 =
     (let s = demote s0
      in case find (\<lambda>i. t_state (tasks s ! i) = TASK_READY) (scan_order s) of
           Some i \<Rightarrow>
             (t_id (tasks s ! i),
              s\<lparr>tasks := (tasks s)[i := (tasks s ! i)\<lparr>t_state := TASK_RUNNING,
                                                      t_quantum := t_reload (tasks s ! i)\<rparr>],
                current := int i, cursor := (i + 1) mod cap s\<rparr>)
         | None \<Rightarrow> (-1, s\<lparr>current := -1\<rparr>))"

definition tick_task :: "sched_task \<Rightarrow> sched_task" where
  "tick_task t = t\<lparr>t_ran := t_ran t + 1,
     t_quantum := (if t_quantum t > 0 then t_quantum t - 1 else t_quantum t)\<rparr>"

definition sched_on_tick :: "sched \<Rightarrow> bool \<times> sched" where
  "sched_on_tick s =
     (if current s < 0 then (False, s)
      else let i = nat (current s); t = tasks s ! i
           in if t_state t \<noteq> TASK_RUNNING then (False, s)
              else (t_quantum (tick_task t) = 0, s\<lparr>tasks := (tasks s)[i := tick_task t]\<rparr>))"

definition sched_block :: "int \<Rightarrow> sched \<Rightarrow> sched" where
  "sched_block tid s =
     (case find_id s tid of
        None \<Rightarrow> s
      | Some i \<Rightarrow> let s' = set_state i TASK_BLOCKED s
                  in if current s' = int i then s'\<lparr>current := -1\<rparr> else s')"

definition sched_unblock :: "int \<Rightarrow> sched \<Rightarrow> sched" where
  "sched_unblock tid s =
     (case find_id s tid of
        None \<Rightarrow> s
      | Some i \<Rightarrow> if t_state (tasks s ! i) = TASK_BLOCKED then set_state i TASK_READY s else s)"

definition sched_exit :: "int \<Rightarrow> sched \<Rightarrow> sched" where
  "sched_exit tid s =
     (case find_id s tid of
        None \<Rightarrow> s
      | Some i \<Rightarrow> let s' = set_state i TASK_ZOMBIE s
                  in if current s' = int i then s'\<lparr>current := -1\<rparr> else s')"

definition sched_current :: "sched \<Rightarrow> int" where
  "sched_current s = (if current s < 0 then -1 else t_id (tasks s ! nat (current s)))"

definition runnable_task :: "sched_task \<Rightarrow> bool" where
  "runnable_task t \<longleftrightarrow> t_state t = TASK_READY \<or> t_state t = TASK_RUNNING"

definition sched_runnable :: "sched \<Rightarrow> nat" where
  "sched_runnable s = count_if runnable_task (tasks s)"

definition sched_state_name :: "task_state \<Rightarrow> string" where
  "sched_state_name st = (case st of
     TASK_READY \<Rightarrow> ''READY'' | TASK_RUNNING \<Rightarrow> ''RUNNING'' | TASK_BLOCKED \<Rightarrow> ''BLOCKED''
   | TASK_ZOMBIE \<Rightarrow> ''ZOMBIE'' | TASK_UNUSED \<Rightarrow> ''UNUSED'')"

section \<open>The kernel's scheduler (sched.c)\<close>

definition NTASK :: nat where "NTASK = 8"

definition sched_kinit :: sched where
  "sched_kinit = (snd \<circ> sched_add 2 2 \<circ> snd \<circ> sched_add 1 3 \<circ> snd \<circ> sched_add 0 5) (sched_init NTASK)"

text \<open>\<open>while (sched_on_tick(&sched) == 0) { }\<close>\<close>

partial_function (option) run_slice :: "sched \<Rightarrow> sched option" where
  "run_slice s = (let (expired, s') = sched_on_tick s in if expired then Some s' else run_slice s')"

declare run_slice.simps [code]

text \<open>The loop of \<open>sched_kdemo\<close> with \<open>n\<close> rounds left: the identifiers it prints.\<close>

fun sched_kdemo_loop :: "nat \<Rightarrow> sched \<Rightarrow> (int list \<times> sched) option" where
  "sched_kdemo_loop 0 s = Some ([], s)"
| "sched_kdemo_loop (Suc n) s =
     (let (tid, s1) = sched_pick_next s
      in if tid < 0 then Some ([], s1)
         else case run_slice s1 of
                None \<Rightarrow> None
              | Some s2 \<Rightarrow> map_option (\<lambda>(ids, s3). (tid # ids, s3)) (sched_kdemo_loop n s2))"

definition sched_kdemo :: "sched \<Rightarrow> (int list \<times> sched) option" where
  "sched_kdemo s = sched_kdemo_loop 10 s"

section \<open>Task updates\<close>

lemma set_state_simps [simp]:
  "cap (set_state i st s) = cap s" "current (set_state i st s) = current s" "cursor (set_state i st s) = cursor s"
  by (simp_all add: set_state_def)

lemma set_state_nth:
  "j < cap s \<Longrightarrow> tasks (set_state i st s) ! j = (if j = i then (tasks s ! i)\<lparr>t_state := st\<rparr> else tasks s ! j)"
  by (auto simp: set_state_def nth_list_update)

lemma demote_simps [simp]:
  "cap (demote s) = cap s" "current (demote s) = current s" "cursor (demote s) = cursor s"
  by (simp_all add: demote_def)

section \<open>The invariant\<close>

text \<open>
  The cursor is in the table, the current task (if any) is the only running one, and a
  used slot has a time slice of at least one tick of which no more than a whole slice is
  left.
\<close>

definition task_ok :: "sched_task \<Rightarrow> bool" where
  "task_ok t \<longleftrightarrow> t_state t = TASK_UNUSED \<or> (0 < t_reload t \<and> t_quantum t \<le> t_reload t)"

definition sched_inv :: "sched \<Rightarrow> bool" where
  "sched_inv s \<longleftrightarrow> 0 < cap s \<and> cursor s < cap s \<and> -1 \<le> current s \<and> current s < int (cap s) \<and>
     (\<forall>i < cap s. t_state (tasks s ! i) = TASK_RUNNING \<longleftrightarrow> current s = int i) \<and>
     (\<forall>i < cap s. task_ok (tasks s ! i))"

lemma sched_invD:
  assumes "sched_inv s"
  shows "0 < cap s" "cursor s < cap s" "current s < int (cap s)"
    "i < cap s \<Longrightarrow> t_state (tasks s ! i) = TASK_RUNNING \<longleftrightarrow> current s = int i"
    "i < cap s \<Longrightarrow> task_ok (tasks s ! i)" "current s = -1 \<or> 0 \<le> current s"
  using assms by (auto simp: sched_inv_def)

lemma sched_init_inv: "0 < n \<Longrightarrow> sched_inv (sched_init n)"
  by (auto simp: sched_inv_def sched_init_def unused_task_def task_ok_def)

lemma find_id_Some:
  assumes "find_id s tid = Some i"
  shows "i < cap s" "t_state (tasks s ! i) \<noteq> TASK_UNUSED" "t_id (tasks s ! i) = tid"
  using find_slot_SomeD [of _ "tasks s" i] assms by (auto simp: find_id_def)

lemma demote_nth:
  assumes "sched_inv s" "i < cap s"
  shows "tasks (demote s) ! i =
     (if current s = int i then (tasks s ! i)\<lparr>t_state := TASK_READY\<rparr> else tasks s ! i)"
  using sched_invD [OF assms(1)] assms(2) by (auto simp: demote_def set_state_nth)

lemma demote_ready:
  assumes "sched_inv s" "i < cap s"
  shows "t_state (tasks (demote s) ! i) = TASK_READY \<longleftrightarrow> runnable_task (tasks s ! i)"
    "t_state (tasks (demote s) ! i) \<noteq> TASK_RUNNING" "task_ok (tasks (demote s) ! i)"
    "t_id (tasks (demote s) ! i) = t_id (tasks s ! i)" "t_reload (tasks (demote s) ! i) = t_reload (tasks s ! i)"
  using sched_invD(4,5) [OF assms] demote_nth [OF assms]
  by (auto simp: runnable_task_def task_ok_def)

text \<open>The task that \<open>sched_pick_next\<close> selects: the first runnable one at or after the cursor.\<close>

definition next_slot :: "sched \<Rightarrow> nat \<Rightarrow> bool" where
  "next_slot s i \<longleftrightarrow> (\<exists>n < cap s. i = (cursor s + n) mod cap s \<and> runnable_task (tasks s ! i) \<and>
     (\<forall>k < n. \<not> runnable_task (tasks s ! ((cursor s + k) mod cap s))))"

lemma pick_cases:
  assumes "sched_inv s"
  obtains (idle) "\<forall>i < cap s. \<not> runnable_task (tasks s ! i)"
      "sched_pick_next s = (-1, (demote s)\<lparr>current := -1\<rparr>)"
  | (pick) i where "next_slot s i" "i < cap s" "runnable_task (tasks s ! i)"
      "sched_pick_next s = (t_id (tasks s ! i),
         (demote s)\<lparr>tasks := (tasks (demote s))[i := (tasks (demote s) ! i)\<lparr>t_state := TASK_RUNNING,
             t_quantum := t_reload (tasks s ! i)\<rparr>],
           current := int i, cursor := (i + 1) mod cap s\<rparr>)"
proof -
  note inv = sched_invD [OF assms]
  let ?P = "\<lambda>i. t_state (tasks (demote s) ! i) = TASK_READY"
  have lt: "(cursor s + n) mod cap s < cap s" for n using inv(1) by simp
  have P: "?P ((cursor s + n) mod cap s) \<longleftrightarrow> runnable_task (tasks s ! ((cursor s + n) mod cap s))" for n
    by (rule demote_ready(1) [OF assms lt])
  show thesis
  proof (cases "find ?P (scan_order (demote s))")
    case None
    then have no: "\<forall>n < cap s. \<not> runnable_task (tasks s ! ((cursor s + n) mod cap s))"
      using P by (auto simp: find_None_iff scan_order_def)
    have "\<not> runnable_task (tasks s ! i)" if "i < cap s" for i
    proof -
      have "(cursor s + (i + cap s - cursor s)) mod cap s = i" using that inv(2) by simp
      moreover have "(cursor s + (i + cap s - cursor s) mod cap s) mod cap s =
          (cursor s + (i + cap s - cursor s)) mod cap s" by (rule mod_add_right_eq)
      ultimately show ?thesis using no inv(1) by (metis mod_less_divisor)
    qed
    then show thesis using idle None by (simp add: sched_pick_next_def Let_def)
  next
    case (Some i)
    then obtain n where n: "n < cap s" "i = (cursor s + n) mod cap s" "?P i"
      "\<forall>k < n. \<not> ?P ((cursor s + k) mod cap s)"
      by (auto simp: find_Some_iff scan_order_def)
    have il: "i < cap s" using n(2) lt by simp
    have ri: "runnable_task (tasks s ! i)" using n(2,3) P by simp
    then have "next_slot s i" using n(1,2,4) P by (auto simp: next_slot_def)
    then show thesis
      using pick [OF _ il ri] Some demote_ready(4,5) [OF assms il]
      by (simp add: sched_pick_next_def Let_def)
  qed
qed

lemma sched_pick_next_inv: "sched_inv s \<Longrightarrow> sched_inv (snd (sched_pick_next s))"
proof -
  assume inv: "sched_inv s"
  note d = sched_invD [OF inv]
  from inv show ?thesis
  proof (cases rule: pick_cases)
    case idle
    have "t_state (tasks (demote s) ! i) \<noteq> TASK_RUNNING" "task_ok (tasks (demote s) ! i)" if "i < cap s" for i
      using demote_ready [OF inv that] by simp_all
    then show ?thesis using idle(2) d(1,2) by (simp add: sched_inv_def)
  next
    case (pick i)
    have "0 < t_reload (tasks s ! i)"
      using d(5) [OF pick(2)] pick(3) by (auto simp: task_ok_def runnable_task_def)
    then have "task_ok ((tasks (demote s) ! i)\<lparr>t_state := TASK_RUNNING, t_quantum := t_reload (tasks s ! i)\<rparr>)"
      using demote_ready(5) [OF inv pick(2)] by (simp add: task_ok_def)
    then show ?thesis
      using pick(2,4) d(1) demote_ready(2,3) [OF inv] by (auto simp: sched_inv_def nth_list_update)
  qed
qed

lemma sched_add_inv: "sched_inv s \<Longrightarrow> sched_inv (snd (sched_add tid q s))"
proof -
  assume inv: "sched_inv s"
  show ?thesis
  proof (cases "find_slot (\<lambda>t. t_state t = TASK_UNUSED) (tasks s)")
    case None
    then show ?thesis using inv by (simp add: sched_add_def)
  next
    case (Some i)
    then have "i < cap s" "t_state (tasks s ! i) = TASK_UNUSED" using find_slot_SomeD by fast+
    moreover have "(0 :: u32) < (if q = 0 then 1 else q)" by (simp add: word_gt_0)
    ultimately show ?thesis
      using Some sched_invD(4) [OF inv \<open>i < cap s\<close>] inv
      by (auto simp: sched_add_def sched_inv_def nth_list_update task_ok_def Let_def)
  qed
qed

lemma tick_task_simps [simp]:
  "t_state (tick_task t) = t_state t" "t_id (tick_task t) = t_id t" "t_reload (tick_task t) = t_reload t"
  by (simp_all add: tick_task_def)

lemma tick_task_ok: "task_ok t \<Longrightarrow> task_ok (tick_task t)"
proof -
  assume ok: "task_ok t"
  have "q - 1 \<le> q" if "0 < q" for q :: u32 using that by (simp add: word_le_nat_alt unat_minus_one word_gt_0)
  with ok show ?thesis by (auto simp: task_ok_def tick_task_def intro: order_trans)
qed

lemma sched_on_tick_inv: "sched_inv s \<Longrightarrow> sched_inv (snd (sched_on_tick s))"
proof -
  assume inv: "sched_inv s"
  show ?thesis
  proof (cases "current s < 0 \<or> t_state (tasks s ! nat (current s)) \<noteq> TASK_RUNNING")
    case True
    then show ?thesis using inv by (auto simp: sched_on_tick_def Let_def)
  next
    case False
    have "nat (current s) < cap s" using sched_invD(3) [OF inv] False by linarith
    then show ?thesis
      using False inv tick_task_ok [OF sched_invD(5) [OF inv]]
      by (auto simp: sched_on_tick_def sched_inv_def nth_list_update Let_def)
  qed
qed

lemma set_state_inv:
  assumes "sched_inv s" "i < cap s" "t_state (tasks s ! i) \<noteq> TASK_UNUSED" "st \<noteq> TASK_RUNNING"
  shows "sched_inv (set_state i st s\<lparr>current := (if current s = int i then -1 else current s)\<rparr>)"
  using assms sched_invD(5) [OF assms(1,2)]
  by (auto simp: sched_inv_def set_state_nth task_ok_def)

lemma stop_current:
  "(let s' = set_state i st s in if current s' = int i then s'\<lparr>current := -1\<rparr> else s') =
   set_state i st s\<lparr>current := (if current s = int i then -1 else current s)\<rparr>"
  by (simp add: Let_def set_state_def)

lemma sched_block_inv: "sched_inv s \<Longrightarrow> sched_inv (sched_block tid s)"
  unfolding sched_block_def stop_current
  using set_state_inv [OF _ find_id_Some(1,2)] by (auto split: option.splits simp del: if_split)

lemma sched_exit_inv: "sched_inv s \<Longrightarrow> sched_inv (sched_exit tid s)"
  unfolding sched_exit_def stop_current
  using set_state_inv [OF _ find_id_Some(1,2)] by (auto split: option.splits simp del: if_split)

lemma sched_unblock_inv:
  assumes "sched_inv s"
  shows "sched_inv (sched_unblock tid s)"
proof (cases "find_id s tid")
  case (Some i)
  note f = find_id_Some [OF Some]
  show ?thesis
  proof (cases "t_state (tasks s ! i) = TASK_BLOCKED")
    case True
    then have "current s \<noteq> int i" using sched_invD(4) [OF assms f(1)] by simp
    then have "set_state i TASK_READY s =
        set_state i TASK_READY s\<lparr>current := (if current s = int i then -1 else current s)\<rparr>"
      by (simp add: set_state_def)
    with set_state_inv [OF assms f(1,2), of TASK_READY] show ?thesis
      using Some True by (simp add: sched_unblock_def)
  qed (use assms Some in \<open>simp add: sched_unblock_def\<close>)
qed (use assms in \<open>simp add: sched_unblock_def\<close>)

section \<open>Reachable schedulers\<close>

inductive sched_reach :: "nat \<Rightarrow> sched \<Rightarrow> bool" for n where
  init: "sched_reach n (sched_init n)"
| add: "sched_reach n s \<Longrightarrow> sched_reach n (snd (sched_add tid q s))"
| pick: "sched_reach n s \<Longrightarrow> sched_reach n (snd (sched_pick_next s))"
| tick: "sched_reach n s \<Longrightarrow> sched_reach n (snd (sched_on_tick s))"
| block: "sched_reach n s \<Longrightarrow> sched_reach n (sched_block tid s)"
| unblock: "sched_reach n s \<Longrightarrow> sched_reach n (sched_unblock tid s)"
| exit: "sched_reach n s \<Longrightarrow> sched_reach n (sched_exit tid s)"

lemma sched_reach_inv: "sched_reach n s \<Longrightarrow> 0 < n \<Longrightarrow> sched_inv s"
  by (induction rule: sched_reach.induct)
    (simp_all add: sched_init_inv sched_add_inv sched_pick_next_inv sched_on_tick_inv sched_block_inv
      sched_unblock_inv sched_exit_inv)

lemma unique_count:
  assumes "\<forall>j < length xs. P (xs ! j) \<longleftrightarrow> j = i" "i < length xs"
  shows "count_if P xs = 1"
proof -
  have "{j. j < length xs \<and> P (xs ! j)} = {i}" using assms by auto
  then show ?thesis by (simp add: count_if_def length_filter_conv_card)
qed

lemma sched_inv_running:
  assumes "sched_inv s"
  shows "count_if (\<lambda>t. t_state t = TASK_RUNNING) (tasks s) = (if current s < 0 then 0 else 1)"
proof (cases "current s < 0")
  case True
  then have "\<forall>t \<in> set (tasks s). t_state t \<noteq> TASK_RUNNING"
    using sched_invD(4) [OF assms] by (auto simp: in_set_conv_nth)
  then show ?thesis using True by (simp add: count_if_def filter_empty_conv)
next
  case False
  have lt: "nat (current s) < cap s" using sched_invD(3) [OF assms] False by linarith
  have "\<forall>j < cap s. t_state (tasks s ! j) = TASK_RUNNING \<longleftrightarrow> j = nat (current s)"
    using sched_invD(4) [OF assms] False by auto
  from unique_count [OF this lt] False show ?thesis by simp
qed

section \<open>Time slices\<close>

lemma tick_running:
  assumes "sched_inv s" "current s = int i"
  shows "sched_on_tick s = (t_quantum (tick_task (tasks s ! i)) = 0, s\<lparr>tasks := (tasks s)[i := tick_task (tasks s ! i)]\<rparr>)"
    "i < cap s"
proof -
  show lt: "i < cap s" using sched_invD(3) [OF assms(1)] assms(2) by simp
  then have "t_state (tasks s ! i) = TASK_RUNNING" using sched_invD(4) [OF assms(1)] assms(2) by simp
  then show "sched_on_tick s = (t_quantum (tick_task (tasks s ! i)) = 0, s\<lparr>tasks := (tasks s)[i := tick_task (tasks s ! i)]\<rparr>)"
    using assms(2) by (simp add: sched_on_tick_def Let_def)
qed

lemma run_slice_result:
  assumes "sched_inv s" "current s = int i" "0 < t_quantum (tasks s ! i)"
  shows "run_slice s = Some (s\<lparr>tasks := (tasks s)[i := (tasks s ! i)\<lparr>
     t_ran := t_ran (tasks s ! i) + t_quantum (tasks s ! i), t_quantum := 0\<rparr>]\<rparr>)"
  using assms
proof (induction "unat (t_quantum (tasks s ! i))" arbitrary: s rule: less_induct)
  case less
  let ?t = "tasks s ! i"
  let ?s = "s\<lparr>tasks := (tasks s)[i := tick_task ?t]\<rparr>"
  note tk = tick_running [OF less.prems(1,2)]
  have q: "t_quantum (tick_task ?t) = t_quantum ?t - 1" using less.prems(3) by (simp add: tick_task_def)
  show ?case
  proof (cases "t_quantum ?t = 1")
    case True
    then have "tick_task ?t = ?t\<lparr>t_ran := t_ran ?t + t_quantum ?t, t_quantum := 0\<rparr>"
      by (simp add: tick_task_def)
    then show ?thesis using True q tk(1) by (subst run_slice.simps) simp
  next
    case False
    have nz: "t_quantum ?t - 1 \<noteq> 0" using False by (metis add.left_neutral diff_add_cancel)
    have inv: "sched_inv ?s" using sched_on_tick_inv [OF less.prems(1)] tk(1) by simp
    have lt: "unat (t_quantum ?t - 1) < unat (t_quantum ?t)"
      using less.prems(3) by (intro measure_unat) (simp add: word_gt_0)
    have ts: "tasks ?s ! i = tick_task ?t" using tk(2) by simp
    have "run_slice s = run_slice ?s" using nz q tk(1) by (subst run_slice.simps) simp
    also have "\<dots> = Some (?s\<lparr>tasks := (tasks ?s)[i := (tick_task ?t)\<lparr>
        t_ran := t_ran (tick_task ?t) + t_quantum (tick_task ?t), t_quantum := 0\<rparr>]\<rparr>)"
      using less.hyps [of ?s] lt nz q inv less.prems(2) ts by (simp add: word_gt_0)
    also have "(tick_task ?t)\<lparr>t_ran := t_ran (tick_task ?t) + t_quantum (tick_task ?t), t_quantum := 0\<rparr> =
        ?t\<lparr>t_ran := t_ran ?t + t_quantum ?t, t_quantum := 0\<rparr>"
      using less.prems(3) by (simp add: tick_task_def)
    finally show ?thesis by simp
  qed
qed

section \<open>Fairness\<close>

text \<open>
  A run of the scheduler's client: any number of timer ticks between calls of
  \<open>sched_pick_next\<close>; the list records the slot picked by each call (-1 when idle).
\<close>

inductive sched_turns :: "sched \<Rightarrow> int list \<Rightarrow> sched \<Rightarrow> bool" for s where
  start: "sched_turns s [] s"
| tick: "sched_turns s xs s' \<Longrightarrow> sched_turns s xs (snd (sched_on_tick s'))"
| pick: "sched_turns s xs s' \<Longrightarrow> sched_turns s (xs @ [current (snd (sched_pick_next s'))]) (snd (sched_pick_next s'))"

definition ahead :: "sched \<Rightarrow> nat \<Rightarrow> nat" where
  "ahead s j = (if cursor s \<le> j then j - cursor s else j + cap s - cursor s)"

lemma ahead_slot:
  assumes "sched_inv s" "j < cap s"
  shows "(cursor s + ahead s j) mod cap s = j" "ahead s j < cap s"
  using sched_invD(2) [OF assms(1)] assms(2) by (auto simp: ahead_def)

lemma tick_fields:
  assumes "sched_inv s"
  shows "cap (snd (sched_on_tick s)) = cap s" "cursor (snd (sched_on_tick s)) = cursor s"
    "j < cap s \<Longrightarrow> runnable_task (tasks (snd (sched_on_tick s)) ! j) = runnable_task (tasks s ! j)"
proof -
  have "nat (current s) < cap s \<or> current s < 0" using sched_invD(3) [OF assms] by linarith
  then show "cap (snd (sched_on_tick s)) = cap s" "cursor (snd (sched_on_tick s)) = cursor s"
    "j < cap s \<Longrightarrow> runnable_task (tasks (snd (sched_on_tick s)) ! j) = runnable_task (tasks s ! j)"
    by (auto simp: sched_on_tick_def Let_def nth_list_update runnable_task_def split: if_splits)
qed

lemma pick_ahead:
  assumes "sched_inv s" "j < cap s" "runnable_task (tasks s ! j)"
  defines "s' \<equiv> snd (sched_pick_next s)"
  shows "cap s' = cap s" "runnable_task (tasks s' ! j)"
    "current s' = int j \<or> ahead s' j < ahead s j"
proof -
  note c = sched_invD(2) [OF assms(1)]
  have "cap s' = cap s \<and> runnable_task (tasks s' ! j) \<and> (current s' = int j \<or> ahead s' j < ahead s j)"
    using assms(1)
  proof (cases rule: pick_cases)
    case idle
    then show ?thesis using assms(2,3) by blast
  next
    case (pick i)
    obtain n where n: "n < cap s" "i = (cursor s + n) mod cap s"
      "\<forall>k < n. \<not> runnable_task (tasks s ! ((cursor s + k) mod cap s))"
      using pick(1) by (auto simp: next_slot_def)
    note a = ahead_slot [OF assms(1,2)]
    have le: "n \<le> ahead s j" using n(3) a(1) assms(3) by (metis not_le)
    have "ahead s' j < ahead s j" if "i \<noteq> j"
    proof -
      have "n \<noteq> ahead s j" using that n(2) a(1) by metis
      then have lt: "n < ahead s j" using le by simp
      have "cursor s' = (i + 1) mod cap s" "cap s' = cap s" using pick(4) by (simp_all add: s'_def)
      then have c': "cursor s' = (cursor s + n + 1) mod cap s" using n(2) by (simp add: mod_Suc_eq)
      show ?thesis
      proof (cases "cursor s + n + 1 < cap s")
        case True
        then have "cursor s' = cursor s + n + 1" using c' by simp
        then show ?thesis using lt c assms(2) \<open>cap s' = cap s\<close> by (auto simp: ahead_def split: if_splits)
      next
        case False
        then have "cursor s' = cursor s + n + 1 - cap s" using c' c n(1) by (simp add: le_mod_geq)
        then show ?thesis using lt c assms(2) False \<open>cap s' = cap s\<close> by (auto simp: ahead_def split: if_splits)
      qed
    qed
    moreover have "runnable_task (tasks (demote s) ! j)"
      using demote_ready(1) [OF assms(1,2)] assms(3) by (simp add: runnable_task_def)
    moreover have "current s' = int i" "cap s' = cap s"
      "tasks s' = (tasks (demote s))[i := (tasks (demote s) ! i)\<lparr>t_state := TASK_RUNNING,
             t_quantum := t_reload (tasks s ! i)\<rparr>]" using pick(4) by (simp_all add: s'_def)
    ultimately show ?thesis
      using pick(2) assms(2) by (cases "i = j") (auto simp: nth_list_update runnable_task_def)
  qed
  then show "cap s' = cap s" "runnable_task (tasks s' ! j)" "current s' = int j \<or> ahead s' j < ahead s j"
    by simp_all
qed

lemma turns_ahead:
  assumes "sched_turns s xs s'" "sched_inv s" "j < cap s" "runnable_task (tasks s ! j)"
  shows "sched_inv s' \<and> cap s' = cap s \<and>
     (int j \<in> set xs \<or> (runnable_task (tasks s' ! j) \<and> ahead s' j + length xs \<le> ahead s j))"
  using assms
proof (induction rule: sched_turns.induct)
  case (tick xs s')
  then show ?case using sched_on_tick_inv tick_fields [of s'] by (auto simp: ahead_def)
next
  case (pick xs s')
  then have IH: "sched_inv s'" "cap s' = cap s" and
    d: "int j \<in> set xs \<or> (runnable_task (tasks s' ! j) \<and> ahead s' j + length xs \<le> ahead s j)" by simp_all
  have inv: "sched_inv (snd (sched_pick_next s'))" by (rule sched_pick_next_inv [OF IH(1)])
  have cap: "cap (snd (sched_pick_next s')) = cap s"
    using IH(1) by (cases rule: pick_cases) (simp_all add: IH(2))
  show ?case
  proof (cases "int j \<in> set xs")
    case False
    then have "runnable_task (tasks s' ! j)" "ahead s' j + length xs \<le> ahead s j" using d by simp_all
    then show ?thesis using pick_ahead [OF IH(1), of j] pick.prems(2) IH(2) inv cap by auto
  qed (use inv cap in simp)
qed simp

lemma find_id_set_state:
  assumes "find_id s tid = Some i" "st \<noteq> TASK_UNUSED"
  shows "find_id (set_state i st s\<lparr>current := c\<rparr>) tid = Some i"
proof -
  have "i < cap s" using find_id_Some(1) [OF assms(1)] .
  then show ?thesis
    using assms by (auto simp: find_id_def find_slot_Some_iff set_state_def nth_list_update)
qed

section \<open>Correctness of the scheduler\<close>

text \<open>
  C18: in every state reached by any sequence of scheduler calls, the table has exactly
  one running task when \<open>current\<close> is an index and none when it is -1, the index is the
  running task's slot, and every task in use has a nonzero slice with at most a whole
  slice left.
\<close>

theorem sched_reach_one_running:
  assumes "sched_reach n s" "0 < n"
  shows "count_if (\<lambda>t. t_state t = TASK_RUNNING) (tasks s) = (if current s < 0 then 0 else 1) \<and>
     (0 \<le> current s \<longrightarrow> nat (current s) < cap s \<and> t_state (tasks s ! nat (current s)) = TASK_RUNNING) \<and>
     (\<forall>t \<in> set (tasks s). t_state t = TASK_UNUSED \<or> 0 < t_reload t \<and> t_quantum t \<le> t_reload t)"
proof -
  have inv: "sched_inv s" by (rule sched_reach_inv [OF assms])
  have "0 \<le> current s \<Longrightarrow> nat (current s) < cap s" using sched_invD(3) [OF inv] by linarith
  moreover from this have "0 \<le> current s \<Longrightarrow> t_state (tasks s ! nat (current s)) = TASK_RUNNING"
    using sched_invD(4) [OF inv] by simp
  moreover have "\<forall>t \<in> set (tasks s). task_ok t" using sched_invD(5) [OF inv] by (auto simp: in_set_conv_nth)
  ultimately show ?thesis using sched_inv_running [OF inv] by (auto simp: task_ok_def)
qed

theorem sched_reach_one_running_witness:
  "count_if (\<lambda>t. t_state t = TASK_RUNNING)
     (tasks (snd (sched_pick_next (snd (sched_add 7 2 (sched_init 2)))))) = 1"
proof -
  have r: "sched_reach 2 (snd (sched_pick_next (snd (sched_add 7 2 (sched_init 2)))))"
    by (intro sched_reach.intros)
  have c: "current (snd (sched_pick_next (snd (sched_add 7 2 (sched_init 2))))) = 0" by code_simp
  from sched_reach_one_running [OF r] c show ?thesis by simp
qed

text \<open>
  C8: \<open>sched_pick_next\<close> is round robin: it returns the first runnable task at or after
  the cursor in cyclic order (the preempted task counts as runnable), makes it the
  running task with a full slice and moves the cursor past it; it returns -1 exactly
  when no task is runnable.
\<close>

theorem sched_pick_next_round_robin:
  assumes "sched_inv s"
  shows "(\<exists>i. next_slot s i \<and> fst (sched_pick_next s) = t_id (tasks s ! i) \<and>
            current (snd (sched_pick_next s)) = int i \<and>
            cursor (snd (sched_pick_next s)) = (i + 1) mod cap s \<and>
            t_state (tasks (snd (sched_pick_next s)) ! i) = TASK_RUNNING \<and>
            t_quantum (tasks (snd (sched_pick_next s)) ! i) = t_reload (tasks s ! i)) \<or>
         ((\<forall>t \<in> set (tasks s). \<not> runnable_task t) \<and> fst (sched_pick_next s) = -1 \<and>
            current (snd (sched_pick_next s)) = -1)"
  using assms
proof (cases rule: pick_cases)
  case idle
  then show ?thesis by (auto simp: in_set_conv_nth)
next
  case (pick i)
  then show ?thesis by (intro disjI1 exI [of _ i]) simp
qed

theorem sched_pick_next_round_robin_witness:
  "sched_inv sched_kinit \<and> fst (sched_pick_next sched_kinit) = 0 \<and>
   fst (sched_pick_next (snd (sched_pick_next sched_kinit))) = 1"
proof -
  have inv: "sched_inv sched_kinit"
    unfolding sched_kinit_def o_apply by (intro sched_add_inv sched_init_inv) (simp add: NTASK_def)
  have "\<not> (\<forall>t \<in> set (tasks sched_kinit). \<not> runnable_task t)"
    "\<not> (\<forall>t \<in> set (tasks (snd (sched_pick_next sched_kinit))). \<not> runnable_task t)" by code_simp+
  moreover have "fst (sched_pick_next sched_kinit) = 0"
    "fst (sched_pick_next (snd (sched_pick_next sched_kinit))) = 1" by code_simp+
  ultimately show ?thesis
    using inv sched_pick_next_round_robin [OF inv] by blast
qed

text \<open>
  C19: no starvation: a runnable task is picked within as many calls of
  \<open>sched_pick_next\<close> as the table has slots, whatever the slices and however many ticks
  pass between the calls.
\<close>

theorem sched_fair:
  assumes "sched_inv s" "sched_turns s xs s'" "cap s \<le> length xs" "j < cap s" "runnable_task (tasks s ! j)"
  shows "int j \<in> set xs"
  using turns_ahead [OF assms(2,1,4,5)] ahead_slot(2) [OF assms(1,4)] assms(3) by linarith

text \<open>A run of three picks of a table with two tasks.\<close>

definition demo_sched :: sched where
  "demo_sched = snd (sched_add 9 4 (snd (sched_add 7 2 (sched_init 2))))"

theorem sched_fair_witness:
  "\<exists>xs s'. sched_turns demo_sched xs s' \<and> length xs = 2 \<and> 1 \<in> set xs"
proof -
  have inv: "sched_inv demo_sched"
    unfolding demo_sched_def by (intro sched_add_inv sched_init_inv) simp
  let ?s1 = "snd (sched_pick_next demo_sched)"
  have run: "sched_turns demo_sched ([] @ [current ?s1] @ [current (snd (sched_pick_next ?s1))]) (snd (sched_pick_next ?s1))"
    using sched_turns.pick [OF sched_turns.pick [OF sched_turns.start]] by simp
  have "cap demo_sched = 2" "runnable_task (tasks demo_sched ! 1)" by code_simp+
  then have "1 \<in> set ([] @ [current ?s1] @ [current (snd (sched_pick_next ?s1))])"
    using sched_fair [OF inv run, of 1] by simp
  moreover have "length ([] @ [current ?s1] @ [current (snd (sched_pick_next ?s1))]) = 2" by simp
  ultimately show ?thesis using run by blast
qed

text \<open>A time slice ends, so the demonstration loop returns.\<close>

lemma run_slice_returns:
  assumes "sched_inv s" "sched_pick_next s = (tid, s1)" "0 \<le> current s1"
  shows "\<exists>s2. run_slice s1 = Some s2 \<and> sched_inv s2"
  using assms(1)
proof (cases rule: pick_cases)
  case idle
  then show ?thesis using assms(2,3) by auto
next
  case (pick i)
  have inv: "sched_inv s1" using sched_pick_next_inv [OF assms(1)] assms(2) by simp
  have i: "current s1 = int i" "t_quantum (tasks s1 ! i) = t_reload (tasks s ! i)" "i < cap s1" using pick(2,4) assms(2) by auto
  have "0 < t_reload (tasks s ! i)"
    using sched_invD(5) [OF assms(1) pick(2)] pick(3) by (auto simp: task_ok_def runnable_task_def)
  then have "run_slice s1 = Some (s1\<lparr>tasks := (tasks s1)[i := (tasks s1 ! i)\<lparr>
     t_ran := t_ran (tasks s1 ! i) + t_quantum (tasks s1 ! i), t_quantum := 0\<rparr>]\<rparr>)"
    using i by (intro run_slice_result [OF inv]) simp_all
  moreover have "sched_inv (s1\<lparr>tasks := (tasks s1)[i := (tasks s1 ! i)\<lparr>t_ran := r, t_quantum := 0\<rparr>]\<rparr>)" for r
    using inv i(3) by (auto simp: sched_inv_def nth_list_update task_ok_def)
  ultimately show ?thesis by blast
qed

lemma sched_kdemo_returns: "sched_inv s \<Longrightarrow> \<exists>ids s'. sched_kdemo s = Some (ids, s') \<and> sched_inv s'"
proof -
  have "sched_inv s \<Longrightarrow> \<exists>ids s'. sched_kdemo_loop n s = Some (ids, s') \<and> sched_inv s'" for n
  proof (induction n arbitrary: s)
    case (Suc n)
    obtain tid s1 where s1: "sched_pick_next s = (tid, s1)" by fastforce
    have inv1: "sched_inv s1" using sched_pick_next_inv [OF Suc.prems] s1 by simp
    show ?case
    proof (cases "tid < 0")
      case False
      from Suc.prems have "0 \<le> current s1" by (cases rule: pick_cases) (use s1 False in auto)
      then obtain s2 where s2: "run_slice s1 = Some s2" "sched_inv s2" using run_slice_returns [OF Suc.prems s1] by blast
      obtain ids s3 where "sched_kdemo_loop n s2 = Some (ids, s3)" "sched_inv s3" using Suc.IH [OF s2(2)] by blast
      then show ?thesis using s1 s2(1) False by simp
    qed (use s1 inv1 in simp)
  qed simp
  then show "sched_inv s \<Longrightarrow> \<exists>ids s'. sched_kdemo s = Some (ids, s') \<and> sched_inv s'" by (simp add: sched_kdemo_def)
qed

text \<open>
  the slice loop of \<open>sched_kdemo\<close> terminates: after a pick, \<open>sched_on_tick\<close> reports
  expiry exactly when the whole slice has been consumed, and the task's tick count has
  grown by its slice.
\<close>

theorem sched_slice_elapses:
  assumes "sched_inv s" "sched_pick_next s = (tid, s1)" "current s1 = int i"
  shows "\<exists>s2. run_slice s1 = Some s2 \<and> t_quantum (tasks s2 ! i) = 0 \<and>
     t_ran (tasks s2 ! i) = t_ran (tasks s ! i) + t_reload (tasks s ! i) \<and>
     (\<forall>j < cap s. j \<noteq> i \<longrightarrow> tasks s2 ! j = tasks s1 ! j)"
  using assms(1)
proof (cases rule: pick_cases)
  case idle
  then show ?thesis using assms(2,3) by auto
next
  case (pick k)
  let ?d = "tasks (demote s) ! i"
  have ki: "k = i" and t1: "tasks s1 ! i = ?d\<lparr>t_state := TASK_RUNNING, t_quantum := t_reload (tasks s ! i)\<rparr>"
    "cap s1 = cap s" using pick(2,4) assms(2,3) by auto
  have ran: "t_ran ?d = t_ran (tasks s ! i)" using demote_nth [OF assms(1)] pick(2) ki by auto
  have inv1: "sched_inv s1" using sched_pick_next_inv [OF assms(1)] assms(2) by simp
  have "0 < t_reload (tasks s ! i)"
    using sched_invD(5) [OF assms(1) pick(2)] pick(3) ki by (auto simp: task_ok_def runnable_task_def)
  then have "run_slice s1 = Some (s1\<lparr>tasks := (tasks s1)[i := (tasks s1 ! i)\<lparr>
     t_ran := t_ran (tasks s1 ! i) + t_quantum (tasks s1 ! i), t_quantum := 0\<rparr>]\<rparr>)"
    by (intro run_slice_result [OF inv1 assms(3)]) (simp add: t1)
  then show ?thesis using t1 pick(2) ki ran by simp
qed

theorem sched_slice_elapses_witness:
  "\<exists>s2. run_slice (snd (sched_pick_next demo_sched)) = Some s2 \<and> t_ran (tasks s2 ! 0) = 2"
proof -
  have inv: "sched_inv demo_sched"
    unfolding demo_sched_def by (intro sched_add_inv sched_init_inv) simp
  have "current (snd (sched_pick_next demo_sched)) = int 0" "t_ran (tasks demo_sched ! 0) = 0"
    "t_reload (tasks demo_sched ! 0) = 2" by code_simp+
  then show ?thesis using sched_slice_elapses [OF inv prod.collapse [symmetric], of 0] by auto
qed

text \<open>
  the kernel's demonstration from its initial table returns after ten rounds and
  prints the three tasks in rotation.
\<close>

theorem sched_kdemo_order:
  "map_option fst (sched_kdemo sched_kinit) = Some [0, 1, 2, 0, 1, 2, 0, 1, 2, 0]"
  by code_simp

text \<open>
  an exited task can come back: blocking and unblocking an identifier whose task has
  exited makes the task ready again, because \<open>sched_block\<close> does not look at the state.
\<close>

theorem sched_zombie_revived:
  assumes "find_id s tid = Some i"
  shows "t_state (tasks (sched_exit tid s) ! i) = TASK_ZOMBIE \<and>
     t_state (tasks (sched_unblock tid (sched_block tid (sched_exit tid s))) ! i) = TASK_READY"
proof -
  have i: "i < cap s" using find_id_Some(1) [OF assms] .
  have e: "sched_exit tid s = set_state i TASK_ZOMBIE s\<lparr>current := (if current s = int i then -1 else current s)\<rparr>"
    using assms by (simp only: sched_exit_def stop_current) simp
  have f: "find_id (sched_exit tid s) tid = Some i" unfolding e by (rule find_id_set_state [OF assms]) simp
  let ?b = "sched_block tid (sched_exit tid s)"
  have b: "?b = set_state i TASK_BLOCKED (sched_exit tid s)\<lparr>current :=
      (if current (sched_exit tid s) = int i then -1 else current (sched_exit tid s))\<rparr>"
    using f by (simp only: sched_block_def stop_current) simp
  have fb: "find_id ?b tid = Some i" unfolding b by (rule find_id_set_state [OF f]) simp
  have "cap (sched_exit tid s) = cap s" unfolding e by simp
  moreover have "cap ?b = cap (sched_exit tid s)" unfolding b by simp
  ultimately have len: "i < cap (sched_exit tid s)" "i < cap ?b" using i by simp_all
  then have "t_state (tasks ?b ! i) = TASK_BLOCKED" unfolding b by (simp add: set_state_nth)
  then have "sched_unblock tid ?b = set_state i TASK_READY ?b" using fb by (simp add: sched_unblock_def)
  moreover have "t_state (tasks (sched_exit tid s) ! i) = TASK_ZOMBIE" using i by (simp add: e set_state_nth)
  ultimately show ?thesis using len(2) by (simp add: set_state_nth)
qed

theorem sched_zombie_revived_witness:
  "t_state (tasks (sched_unblock 7 (sched_block 7 (sched_exit 7 demo_sched))) ! 0) = TASK_READY"
proof -
  have "find_id demo_sched 7 = Some 0" by code_simp
  from sched_zombie_revived [OF this] show ?thesis by simp
qed

end
