(* ===== verification/Coop.thy ===== *)
theory Coop
  imports Sched
begin

text \<open>
  Execution contexts: the initial stack of a task (\<open>kernel/sched/task.c\<close>), the register
  and stack switch of \<open>kernel/sched/context.S\<close> on a processor state, and the cooperative
  demonstration of \<open>kernel/sched/coop.c\<close>, whose contexts are modelled by the point of
  the worker's loop at which each of them resumes.
\<close>

section \<open>Initial stacks (task.c)\<close>

definition STACK_ALIGN :: u32 where "STACK_ALIGN = 16"

record ktask =
  k_esp :: u32
  k_stack :: u32
  k_stack_sz :: u32

text \<open>\<open>*--sp = v\<close> for a stack of 32-bit words.\<close>

definition push32 :: "u32 \<Rightarrow> u32 \<times> mem \<Rightarrow> u32 \<times> mem" where
  "push32 v sm = (let (sp, m) = sm in (sp - 4, wr32 m (sp - 4) v))"

definition task_init :: "u32 \<Rightarrow> u32 \<Rightarrow> u32 \<Rightarrow> mem \<Rightarrow> ktask \<times> mem" where
  "task_init stack sz entry m =
     (let tp = (stack + sz) AND NOT (STACK_ALIGN - 1);
          (sp, m') = (push32 0 \<circ> push32 0 \<circ> push32 0 \<circ> push32 0 \<circ> push32 entry) (tp, m)
      in (\<lparr>k_esp = sp, k_stack = stack, k_stack_sz = sz\<rparr>, m'))"

section \<open>The context switch (context.S)\<close>

record cpu =
  r_ebx :: u32
  r_esi :: u32
  r_edi :: u32
  r_ebp :: u32
  r_esp :: u32
  r_eip :: u32
  r_mem :: mem

text \<open>
  The instructions of \<open>thuos_context_switch\<close> from its entry, where \<open>esp\<close> points at the
  return address with the two arguments above it.
\<close>

definition thuos_context_switch :: "cpu \<Rightarrow> cpu" where
  "thuos_context_switch c =
     (let eax = rd32 (r_mem c) (r_esp c + 4);
          edx = rd32 (r_mem c) (r_esp c + 8);
          (sp, m) = (push32 (r_ebp c) \<circ> push32 (r_edi c) \<circ> push32 (r_esi c) \<circ> push32 (r_ebx c))
                      (r_esp c, r_mem c);
          m' = wr32 m eax sp
      in \<lparr>r_ebx = rd32 m' (edx + 12), r_esi = rd32 m' (edx + 8), r_edi = rd32 m' (edx + 4),
          r_ebp = rd32 m' edx, r_esp = edx + 20, r_eip = rd32 m' (edx + 16), r_mem = m'\<rparr>)"

section \<open>The cooperative demonstration (coop.c)\<close>

definition NCOOP :: nat where "NCOOP = 3"
definition ITERS :: nat where "ITERS = 3"

datatype coop_event = EvTick int nat | EvDone int

text \<open>
  \<open>points ! k\<close> is the loop index at which task \<open>k\<close>'s context resumes; \<open>running\<close> is the
  static variable \<open>current\<close> (-1 for the main context); \<open>printed\<close> is the console output of
  the workers.
\<close>

record coop =
  csched :: sched
  running :: int
  points :: "nat list"
  printed :: "coop_event list"

definition coop_yield :: "coop \<Rightarrow> coop" where
  "coop_yield c =
     (let prev = running c;
          (nid, s) = sched_pick_next (csched c);
          next = (if nid < 0 then -1 else nid)
      in if next = prev then c\<lparr>csched := s\<rparr> else c\<lparr>csched := s, running := next\<rparr>)"

text \<open>The running worker from where it resumes to its next call of \<open>coop_yield\<close>.\<close>

definition coop_worker_step :: "coop \<Rightarrow> coop" where
  "coop_worker_step c =
     (let me = running c; i = points c ! nat me
      in if i < ITERS
         then coop_yield (c\<lparr>printed := printed c @ [EvTick me (i + 1)], points := (points c)[nat me := i + 1]\<rparr>)
         else coop_yield (c\<lparr>printed := printed c @ [EvDone me], csched := sched_exit me (csched c)\<rparr>))"

partial_function (option) coop_loop :: "coop \<Rightarrow> coop option" where
  "coop_loop c = (if running c < 0 then Some c else coop_loop (coop_worker_step c))"

declare coop_loop.simps [code]

definition coop_run_demo :: "coop option" where
  "coop_run_demo =
     (let s = fold (\<lambda>i s. snd (sched_add (int i) 1 s)) [0..<NCOOP] (sched_init (NCOOP + 1));
          c = \<lparr>csched = s, running = -1, points = replicate NCOOP 0, printed = []\<rparr>
      in coop_loop (coop_yield c))"

section \<open>Stacks of aligned words\<close>

lemma dvd4_diff: "4 dvd unat a \<Longrightarrow> 4 dvd unat b \<Longrightarrow> 4 dvd unat (a - b :: u32)"
  by (auto simp: unat_sub_if' intro!: dvd_diff_nat dvd_add)

lemma dvd4_add: "4 dvd unat a \<Longrightarrow> 4 dvd unat b \<Longrightarrow> 4 dvd unat (a + b :: u32)"
  by (simp add: unat_word_ariths dvd_mod)

lemmas dvd4_simps = dvd4_diff dvd4_add

definition frame_slots :: "u32 \<Rightarrow> u32 set" where
  "frame_slots sp = {sp, sp + 4, sp + 8, sp + 12, sp + 16}"

text \<open>The words that a switch writes: four below the stack pointer, and the save slot.\<close>

definition switch_writes :: "cpu \<Rightarrow> u32 set" where
  "switch_writes c = {r_esp c - 4, r_esp c - 8, r_esp c - 12, r_esp c - 16, rd32 (r_mem c) (r_esp c + 4)}"

definition switch_target :: "cpu \<Rightarrow> u32" where
  "switch_target c = rd32 (r_mem c) (r_esp c + 8)"

lemma switch_mem_other:
  assumes "4 dvd unat (r_esp c)" "4 dvd unat (rd32 (r_mem c) (r_esp c + 4))" "4 dvd unat a" "a \<notin> switch_writes c"
  shows "rd32 (r_mem (thuos_context_switch c)) a = rd32 (r_mem c) a"
proof -
  have "4 dvd unat (r_esp c - 4)" "4 dvd unat (r_esp c - 8)" "4 dvd unat (r_esp c - 12)" "4 dvd unat (r_esp c - 16)"
    using assms(1) by (simp_all add: dvd4_diff)
  then show ?thesis
    using assms by (simp add: thuos_context_switch_def push32_def Let_def switch_writes_def rd32_wr32_aligned [OF _ _ not_sym])
qed

lemma switch_saved:
  assumes "4 dvd unat (r_esp c)" "4 dvd unat (rd32 (r_mem c) (r_esp c + 4))"
    and "rd32 (r_mem c) (r_esp c + 4) \<notin> frame_slots (r_esp c - 16)"
  defines "m \<equiv> r_mem (thuos_context_switch c)"
  shows "rd32 m (rd32 (r_mem c) (r_esp c + 4)) = r_esp c - 16"
    "rd32 m (r_esp c - 16) = r_ebp c" "rd32 m (r_esp c - 12) = r_edi c"
    "rd32 m (r_esp c - 8) = r_esi c" "rd32 m (r_esp c - 4) = r_ebx c" "rd32 m (r_esp c) = rd32 (r_mem c) (r_esp c)"
proof -
  have al: "4 dvd unat (r_esp c - 4)" "4 dvd unat (r_esp c - 8)" "4 dvd unat (r_esp c - 12)" "4 dvd unat (r_esp c - 16)"
    using assms(1) by (simp_all add: dvd4_diff)
  show "rd32 m (rd32 (r_mem c) (r_esp c + 4)) = r_esp c - 16"
    "rd32 m (r_esp c - 16) = r_ebp c" "rd32 m (r_esp c - 12) = r_edi c"
    "rd32 m (r_esp c - 8) = r_esi c" "rd32 m (r_esp c - 4) = r_ebx c" "rd32 m (r_esp c) = rd32 (r_mem c) (r_esp c)"
    using al assms(1-3)
    by (simp_all add: m_def thuos_context_switch_def push32_def Let_def frame_slots_def rd32_wr32_aligned)
qed

lemma task_init_frame:
  assumes "task_init stack sz entry m = (t, m')"
  defines "tp \<equiv> (stack + sz) AND NOT (STACK_ALIGN - 1)"
  shows "k_esp t = tp - 20" "rd32 m' (tp - 20) = 0" "rd32 m' (tp - 16) = 0" "rd32 m' (tp - 12) = 0"
    "rd32 m' (tp - 8) = 0" "rd32 m' (tp - 4) = entry" "unat tp mod 16 = 0"
proof -
  have "STACK_ALIGN - 1 = mask 4" by (simp add: STACK_ALIGN_def mask_eq_exp_minus_1)
  then have "tp = push_bit 4 (drop_bit 4 (stack + sz))"
    using and_not_mask_eq [of "stack + sz" 4] by (simp add: tp_def)
  then have "tp = 16 * drop_bit 4 (stack + sz)" by (simp add: push_bit_eq_mult)
  then have d16: "16 dvd unat tp" by (simp only:) (simp add: unat_word_ariths dvd_mod)
  then show "unat tp mod 16 = 0" by simp
  have "4 dvd unat tp" using d16 by (auto elim!: dvdE)
  then have al: "4 dvd unat (tp - 4)" "4 dvd unat (tp - 8)" "4 dvd unat (tp - 12)" "4 dvd unat (tp - 16)"
    "4 dvd unat (tp - 20)" by (simp_all add: dvd4_diff)
  show "k_esp t = tp - 20" "rd32 m' (tp - 20) = 0" "rd32 m' (tp - 16) = 0" "rd32 m' (tp - 12) = 0"
    "rd32 m' (tp - 8) = 0" "rd32 m' (tp - 4) = entry"
    using assms(1) al unfolding tp_def [symmetric]
    by (auto simp: task_init_def push32_def Let_def tp_def [symmetric] rd32_wr32_aligned)
qed

section \<open>An example of two contexts\<close>

text \<open>
  A task with a 4 KiB stack at \<open>0x5000\<close>; a main context with its stack pointer at
  \<open>0x8000\<close> that switches to it, saving at \<open>0x7000\<close>; and the task switching back.
\<close>

definition fresh_task :: "ktask \<times> mem" where
  "fresh_task = task_init 0x5000 0x1000 0xABC0 (\<lambda>_. 0)"

definition main_context :: cpu where
  "main_context = \<lparr>r_ebx = 1, r_esi = 2, r_edi = 3, r_ebp = 4, r_esp = 0x8000, r_eip = 0x100,
     r_mem = wr32 (wr32 (wr32 (snd fresh_task) 0x8000 0x1234) 0x8004 0x7000) 0x8008 (k_esp (fst fresh_task))\<rparr>"

definition task_context :: cpu where
  "task_context = (let c1 = thuos_context_switch main_context
     in c1\<lparr>r_ebx := 9, r_esp := 0x5F00,
           r_mem := wr32 (wr32 (r_mem c1) 0x5F04 0x7004) 0x5F08 (rd32 (r_mem c1) 0x7000)\<rparr>)"

lemma fresh_task_eq: "fresh_task = (\<lparr>k_esp = 0x5FEC, k_stack = 0x5000, k_stack_sz = 0x1000\<rparr>,
    wr32 (wr32 (wr32 (wr32 (wr32 (\<lambda>_. 0) 0x5FFC 0xABC0) 0x5FF8 0) 0x5FF4 0) 0x5FF0 0) 0x5FEC 0)"
  by (simp add: fresh_task_def task_init_def push32_def STACK_ALIGN_def)

lemma main_fields:
  "r_esp main_context = 0x8000" "r_ebx main_context = 1" "r_esi main_context = 2" "r_edi main_context = 3"
  "r_ebp main_context = 4" "rd32 (r_mem main_context) 0x8000 = 0x1234"
  "rd32 (r_mem main_context) 0x8004 = 0x7000" "rd32 (r_mem main_context) 0x8008 = 0x5FEC"
  by (simp_all add: main_context_def fresh_task_eq rd32_wr32_aligned)

lemma main_switch:
  "rd32 (r_mem (thuos_context_switch main_context)) 0x7000 = 0x7FF0"
  by (simp add: thuos_context_switch_def push32_def main_fields Let_def)

lemma task_fields:
  "r_esp task_context = 0x5F00" "rd32 (r_mem task_context) 0x5F04 = 0x7004"
  "rd32 (r_mem task_context) 0x5F08 = 0x7FF0"
  by (simp_all add: task_context_def Let_def rd32_wr32_aligned main_switch)

section \<open>Correctness of context switching\<close>

text \<open>
  switching to a task that \<open>task_init\<close> prepared starts its entry function with
  zeroed callee-saved registers on the 16-byte-aligned top of its own stack, provided
  the switch does not write over the prepared frame.
\<close>

theorem switch_to_fresh_task:
  assumes "task_init stack sz entry m = (t, m')"
    and "\<forall>a \<in> frame_slots (k_esp t). rd32 (r_mem c) a = rd32 m' a"
    and "switch_target c = k_esp t" "frame_slots (k_esp t) \<inter> switch_writes c = {}"
    and "4 dvd unat (r_esp c)" "4 dvd unat (rd32 (r_mem c) (r_esp c + 4))"
  shows "let c' = thuos_context_switch c in r_eip c' = entry \<and> r_ebx c' = 0 \<and> r_esi c' = 0 \<and>
     r_edi c' = 0 \<and> r_ebp c' = 0 \<and> r_esp c' = (stack + sz) AND NOT (STACK_ALIGN - 1) \<and>
     unat (r_esp c') mod 16 = 0"
proof -
  let ?top = "(stack + sz) AND NOT (STACK_ALIGN - 1)" and ?c' = "thuos_context_switch c"
  note f = task_init_frame [OF assms(1)]
  have tgt: "rd32 (r_mem c) (r_esp c + 8) = ?top - 20" using assms(3) f(1) by (simp add: switch_target_def)
  have "16 dvd unat ?top" using f(7) by auto
  then have "4 dvd unat ?top" by (auto elim!: dvdE)
  then have al: "4 dvd unat (?top - 4)" "4 dvd unat (?top - 8)" "4 dvd unat (?top - 12)"
    "4 dvd unat (?top - 16)" "4 dvd unat (?top - 20)" by (simp_all add: dvd4_diff)
  have fr: "frame_slots (k_esp t) = {?top - 20, ?top - 16, ?top - 12, ?top - 8, ?top - 4}"
    by (simp add: f(1) frame_slots_def)
  have rd: "rd32 (r_mem ?c') a = rd32 m' a" if "a \<in> frame_slots (k_esp t)" for a
  proof -
    have "4 dvd unat a" using that al unfolding fr by auto
    then show ?thesis using switch_mem_other [OF assms(5,6), of a] assms(2,4) that by auto
  qed
  have regs: "r_ebp ?c' = rd32 (r_mem ?c') (?top - 20)" "r_edi ?c' = rd32 (r_mem ?c') (?top - 16)"
    "r_esi ?c' = rd32 (r_mem ?c') (?top - 12)" "r_ebx ?c' = rd32 (r_mem ?c') (?top - 8)"
    "r_eip ?c' = rd32 (r_mem ?c') (?top - 4)" "r_esp ?c' = ?top"
    by (simp_all add: thuos_context_switch_def Let_def split_def tgt)
  show ?thesis using f(2-7) regs rd unfolding fr by (simp add: Let_def)
qed

theorem switch_to_fresh_task_witness:
  "r_eip (thuos_context_switch main_context) = 0xABC0 \<and> r_esp (thuos_context_switch main_context) = 0x6000"
proof -
  have 1: "\<forall>a \<in> frame_slots (k_esp (fst fresh_task)). rd32 (r_mem main_context) a = rd32 (snd fresh_task) a"
    by (simp add: main_context_def fresh_task_eq frame_slots_def rd32_wr32_aligned)
  have 2: "switch_target main_context = k_esp (fst fresh_task)"
    by (simp add: switch_target_def main_fields fresh_task_eq)
  have 3: "frame_slots (k_esp (fst fresh_task)) \<inter> switch_writes main_context = {}"
    by (simp add: frame_slots_def switch_writes_def main_fields fresh_task_eq)
  have 4: "4 dvd unat (r_esp main_context)" "4 dvd unat (rd32 (r_mem main_context) (r_esp main_context + 4))"
    by (simp_all add: main_fields)
  have 5: "task_init 0x5000 0x1000 0xABC0 (\<lambda>_. 0) = (fst fresh_task, snd fresh_task)"
    by (simp add: fresh_task_def)
  from switch_to_fresh_task [OF 5 1 2 3 4] show ?thesis by (simp add: Let_def STACK_ALIGN_def)
qed

text \<open>
  C20: switching away and back is transparent: when a context that switched away is
  resumed from the stack pointer saved for it, with its frame untouched, it continues
  at its return address with its own callee-saved registers and stack pointer.
\<close>

theorem switch_round_trip:
  assumes "c1 = thuos_context_switch c" "4 dvd unat (r_esp c)" "4 dvd unat (rd32 (r_mem c) (r_esp c + 4))"
    and "rd32 (r_mem c) (r_esp c + 4) \<notin> frame_slots (r_esp c - 16)"
    and "switch_target c2 = rd32 (r_mem c1) (rd32 (r_mem c) (r_esp c + 4))"
    and "\<forall>a \<in> frame_slots (r_esp c - 16). rd32 (r_mem c2) a = rd32 (r_mem c1) a"
    and "4 dvd unat (r_esp c2)" "4 dvd unat (rd32 (r_mem c2) (r_esp c2 + 4))"
    and "frame_slots (r_esp c - 16) \<inter> switch_writes c2 = {}"
  shows "let c3 = thuos_context_switch c2 in r_ebx c3 = r_ebx c \<and> r_esi c3 = r_esi c \<and> r_edi c3 = r_edi c \<and>
     r_ebp c3 = r_ebp c \<and> r_eip c3 = rd32 (r_mem c) (r_esp c) \<and> r_esp c3 = r_esp c + 4"
proof -
  let ?c3 = "thuos_context_switch c2"
  note sv = switch_saved [OF assms(2-4), folded assms(1)]
  have tgt: "rd32 (r_mem c2) (r_esp c2 + 8) = r_esp c - 16" using assms(5) sv(1) by (simp add: switch_target_def)
  have al: "4 dvd unat (r_esp c - 4)" "4 dvd unat (r_esp c - 8)" "4 dvd unat (r_esp c - 12)" "4 dvd unat (r_esp c - 16)"
    using assms(2) by (simp_all add: dvd4_diff)
  have fr: "frame_slots (r_esp c - 16) = {r_esp c - 16, r_esp c - 12, r_esp c - 8, r_esp c - 4, r_esp c}"
    by (simp add: frame_slots_def)
  have rd: "rd32 (r_mem ?c3) a = rd32 (r_mem c1) a" if "a \<in> frame_slots (r_esp c - 16)" for a
  proof -
    have "4 dvd unat a" using that al assms(2) unfolding fr by auto
    then show ?thesis using switch_mem_other [OF assms(7,8), of a] assms(6,9) that by auto
  qed
  have regs: "r_ebp ?c3 = rd32 (r_mem ?c3) (r_esp c - 16)" "r_edi ?c3 = rd32 (r_mem ?c3) (r_esp c - 12)"
    "r_esi ?c3 = rd32 (r_mem ?c3) (r_esp c - 8)" "r_ebx ?c3 = rd32 (r_mem ?c3) (r_esp c - 4)"
    "r_eip ?c3 = rd32 (r_mem ?c3) (r_esp c)" "r_esp ?c3 = r_esp c + 4"
    by (simp_all add: thuos_context_switch_def Let_def split_def tgt)
  show ?thesis using sv regs rd unfolding fr by (simp add: Let_def)
qed

theorem switch_round_trip_witness:
  "let c3 = thuos_context_switch task_context in r_ebx c3 = 1 \<and> r_esi c3 = 2 \<and> r_edi c3 = 3 \<and>
     r_ebp c3 = 4 \<and> r_eip c3 = 0x1234 \<and> r_esp c3 = 0x8004"
proof -
  have 1: "4 dvd unat (r_esp main_context)" "4 dvd unat (rd32 (r_mem main_context) (r_esp main_context + 4))"
    "rd32 (r_mem main_context) (r_esp main_context + 4) \<notin> frame_slots (r_esp main_context - 16)"
    by (simp_all add: main_fields frame_slots_def)
  have 2: "switch_target task_context =
      rd32 (r_mem (thuos_context_switch main_context)) (rd32 (r_mem main_context) (r_esp main_context + 4))"
    by (simp add: switch_target_def task_fields main_fields main_switch)
  have 3: "\<forall>a \<in> frame_slots (r_esp main_context - 16).
      rd32 (r_mem task_context) a = rd32 (r_mem (thuos_context_switch main_context)) a"
    by (simp add: main_fields frame_slots_def task_context_def Let_def rd32_wr32_aligned)
  have 4: "4 dvd unat (r_esp task_context)" "4 dvd unat (rd32 (r_mem task_context) (r_esp task_context + 4))"
    "frame_slots (r_esp main_context - 16) \<inter> switch_writes task_context = {}"
    by (simp_all add: task_fields main_fields frame_slots_def switch_writes_def)
  from switch_round_trip [OF refl 1 2 3 4] show ?thesis by (simp add: Let_def main_fields)
qed

text \<open>
  the cooperative demonstration returns to the main context after its three tasks
  have each printed three ticks in rotation and finished in order, with every task's
  slot exited and nothing runnable.
\<close>

theorem coop_run_demo_trace:
  "\<exists>c. coop_run_demo = Some c \<and> running c = -1 \<and> sched_runnable (csched c) = 0 \<and>
     printed c = [EvTick 0 1, EvTick 1 1, EvTick 2 1, EvTick 0 2, EvTick 1 2, EvTick 2 2,
       EvTick 0 3, EvTick 1 3, EvTick 2 3, EvDone 0, EvDone 1, EvDone 2]"
proof -
  have "map_option (\<lambda>c. (running c, sched_runnable (csched c), printed c)) coop_run_demo =
     Some (-1, 0, [EvTick 0 1, EvTick 1 1, EvTick 2 1, EvTick 0 2, EvTick 1 2, EvTick 2 2,
       EvTick 0 3, EvTick 1 3, EvTick 2 3, EvDone 0, EvDone 1, EvDone 2])"
    by code_simp
  then show ?thesis by auto
qed

end
