(* ===== verification/Ramfs.thy ===== *)
theory Ramfs
  imports Thuos_Prelude
begin

text \<open>
  The in-memory filesystem (\<open>kernel/fs/ramfs_core.c\<close>, \<open>fs.c\<close>): a table of files whose
  contents are bump-allocated in a byte arena. The specification is a map from names to
  byte lists; the lemmas show that writes and reads implement it for names that fit the
  32-byte name field.
\<close>

section \<open>Data and operations (ramfs_core.c)\<close>

definition RFS_NAME_MAX :: nat where "RFS_NAME_MAX = 32"

record rfile =
  f_name :: "char list"
  f_off :: u32
  f_size :: u32
  f_used :: bool

text \<open>\<open>max_files\<close> is the length of \<open>files\<close>; the arena is indexed by byte offsets.\<close>

record ramfs =
  files :: "rfile list"
  fcount :: int
  arena :: "u32 \<Rightarrow> u8"
  arena_sz :: u32
  arena_used :: u32

definition rfs_streq :: "char list \<Rightarrow> char list \<Rightarrow> bool" where
  "rfs_streq a b = cstr_eq_while a b 0"

definition rfs_ncopy :: "char list \<Rightarrow> char list \<Rightarrow> nat \<Rightarrow> char list" where
  "rfs_ncopy dst src mx = cstr_copy dst src 0 (mx - 1)"

definition ramfs_init :: "rfile list \<Rightarrow> (u32 \<Rightarrow> u8) \<Rightarrow> u32 \<Rightarrow> ramfs" where
  "ramfs_init fls ar sz =
     \<lparr>files = map (\<lambda>f. f\<lparr>f_used := False, f_name := (f_name f)[0 := NUL]\<rparr>) fls, fcount = 0,
      arena = ar, arena_sz = sz, arena_used = 0\<rparr>"

definition ramfs_find :: "ramfs \<Rightarrow> char list \<Rightarrow> nat option" where
  "ramfs_find fs name = find_slot (\<lambda>f. f_used f \<and> rfs_streq (f_name f) name) (files fs)"

definition ramfs_alloc_slot :: "char list \<Rightarrow> ramfs \<Rightarrow> nat option \<times> ramfs" where
  "ramfs_alloc_slot name fs =
     (case ramfs_find fs name of
        Some i \<Rightarrow> (Some i, fs)
      | None \<Rightarrow>
          (case find_slot (\<lambda>f. \<not> f_used f) (files fs) of
             Some i \<Rightarrow>
               (Some i,
                fs\<lparr>files := (files fs)[i := (files fs ! i)\<lparr>f_used := True,
                      f_name := rfs_ncopy (f_name (files fs ! i)) name RFS_NAME_MAX,
                      f_off := 0, f_size := 0\<rparr>],
                   fcount := fcount fs + 1\<rparr>)
           | None \<Rightarrow> (None, fs)))"

text \<open>\<open>for (i = 0; i < len; i++) fs->arena[off + i] = src[i];\<close>\<close>

fun copy_in :: "u32 \<Rightarrow> (u32 \<Rightarrow> u8) \<Rightarrow> u32 \<Rightarrow> nat \<Rightarrow> (u32 \<Rightarrow> u8) \<Rightarrow> (u32 \<Rightarrow> u8)" where
  "copy_in off src i 0 ar = ar"
| "copy_in off src i (Suc n) ar = copy_in off src (i + 1) n (ar(off + i := src i))"

text \<open>\<open>data\<close> gives the bytes of the caller's buffer, which is not in the free part of the arena.\<close>

definition ramfs_write :: "char list \<Rightarrow> (u32 \<Rightarrow> u8) \<Rightarrow> u32 \<Rightarrow> ramfs \<Rightarrow> int \<times> ramfs" where
  "ramfs_write name data len fs =
     (if cget name 0 = NUL then (-1, fs)
      else if arena_used fs + len > arena_sz fs then (-1, fs)
      else case ramfs_alloc_slot name fs of
             (None, fs1) \<Rightarrow> (-1, fs1)
           | (Some idx, fs1) \<Rightarrow>
               let off = arena_used fs1
               in (sint len,
                   fs1\<lparr>arena := copy_in off data 0 (unat len) (arena fs1),
                       arena_used := arena_used fs1 + len,
                       files := (files fs1)[idx := (files fs1 ! idx)\<lparr>f_off := off, f_size := len\<rparr>]\<rparr>))"

text \<open>The result is the arena offset and the length of the content; \<open>None\<close> is NULL.\<close>

definition ramfs_read :: "ramfs \<Rightarrow> char list \<Rightarrow> (u32 \<times> u32) option" where
  "ramfs_read fs name =
     (case ramfs_find fs name of
        None \<Rightarrow> None
      | Some i \<Rightarrow> Some (f_off (files fs ! i), f_size (files fs ! i)))"

definition ramfs_count :: "ramfs \<Rightarrow> int" where
  "ramfs_count fs = fcount fs"

definition ramfs_bytes_used :: "ramfs \<Rightarrow> u32" where
  "ramfs_bytes_used fs = arena_used fs"

definition ramfs_name :: "ramfs \<Rightarrow> int \<Rightarrow> char list option" where
  "ramfs_name fs i =
     (if i < 0 \<or> i \<ge> int (length (files fs)) \<or> \<not> f_used (files fs ! nat i) then None
      else Some (f_name (files fs ! nat i)))"

definition ramfs_size :: "ramfs \<Rightarrow> int \<Rightarrow> u32" where
  "ramfs_size fs i =
     (if i < 0 \<or> i \<ge> int (length (files fs)) \<or> \<not> f_used (files fs ! nat i) then 0
      else f_size (files fs ! nat i))"

section \<open>The kernel filesystem (fs.c)\<close>

definition KFS_MAX_FILES :: nat where "KFS_MAX_FILES = 32"
definition KFS_ARENA :: u32 where "KFS_ARENA = 64 * 1024"

definition slen :: "char list \<Rightarrow> u32" where
  "slen s = of_nat (cstrlen s)"

definition text_bytes :: "char list \<Rightarrow> u32 \<Rightarrow> u8" where
  "text_bytes s i = of_nat (of_char (cget s (unat i)))"

definition kfs_write :: "char list \<Rightarrow> (u32 \<Rightarrow> u8) \<Rightarrow> u32 \<Rightarrow> ramfs \<Rightarrow> int \<times> ramfs" where
  "kfs_write name data len fs = ramfs_write name data len fs"

definition kfs_read :: "char list \<Rightarrow> ramfs \<Rightarrow> (u32 \<times> u32) option" where
  "kfs_read name fs = ramfs_read fs name"

definition kfs_count :: "ramfs \<Rightarrow> int" where
  "kfs_count fs = ramfs_count fs"

definition kfs_name :: "int \<Rightarrow> ramfs \<Rightarrow> char list option" where
  "kfs_name i fs = ramfs_name fs i"

definition kfs_size :: "int \<Rightarrow> ramfs \<Rightarrow> u32" where
  "kfs_size i fs = ramfs_size fs i"

definition kfs_bytes_used :: "ramfs \<Rightarrow> u32" where
  "kfs_bytes_used fs = ramfs_bytes_used fs"

definition kfs_max_files :: nat where
  "kfs_max_files = KFS_MAX_FILES"

definition welcome_text :: "char list" where
  "welcome_text = ''Welcome to the THUOS RAM filesystem.'' @ [CHR 0x0A] @
     ''These are real files living in kernel memory.'' @ [CHR 0x0A] @
     ''Try:  ls   |   cat readme   |   write notes hello there'' @ [CHR 0x0A]"

definition readme_text :: "char list" where
  "readme_text = ''THUOS local-first ramfs (milestone 0.10).'' @ [CHR 0x0A] @
     ''Host-tested core + boot-verified in QEMU.'' @ [CHR 0x0A] @
     ''Files are in-memory for now; persistence comes later.'' @ [CHR 0x0A]"

definition kfs_init :: "rfile list \<Rightarrow> (u32 \<Rightarrow> u8) \<Rightarrow> ramfs" where
  "kfs_init kfiles karena =
     (let fs0 = ramfs_init kfiles karena KFS_ARENA;
          fs1 = snd (kfs_write ''welcome.txt'' (text_bytes welcome_text) (slen welcome_text) fs0)
      in snd (kfs_write ''readme'' (text_bytes readme_text) (slen readme_text) fs1))"

section \<open>The specification\<close>

text \<open>The content of a file, and the map a filesystem stands for.\<close>

definition content :: "ramfs \<Rightarrow> u32 \<Rightarrow> u32 \<Rightarrow> u8 list" where
  "content fs off len = map (\<lambda>i. arena fs (off + of_nat i)) [0..<unat len]"

definition fs_map :: "ramfs \<Rightarrow> char list \<Rightarrow> u8 list option" where
  "fs_map fs name = map_option (\<lambda>(off, len). content fs off len) (ramfs_read fs name)"

definition data_bytes :: "(u32 \<Rightarrow> u8) \<Rightarrow> u32 \<Rightarrow> u8 list" where
  "data_bytes data len = map (\<lambda>i. data (of_nat i)) [0..<unat len]"

definition file_ok :: "ramfs \<Rightarrow> rfile \<Rightarrow> bool" where
  "file_ok fs f \<longleftrightarrow> length (f_name f) = RFS_NAME_MAX \<and>
     (f_used f \<longrightarrow> length (cstr (f_name f)) < RFS_NAME_MAX \<and>
       unat (f_off f) + unat (f_size f) \<le> unat (arena_used fs))"

definition ramfs_inv :: "ramfs \<Rightarrow> bool" where
  "ramfs_inv fs \<longleftrightarrow> arena_used fs \<le> arena_sz fs \<and> (\<forall>f \<in> set (files fs). file_ok fs f) \<and>
     fcount fs = int (count_if f_used (files fs))"

text \<open>Names that the table stores whole.\<close>

definition short_name :: "char list \<Rightarrow> bool" where
  "short_name name \<longleftrightarrow> 0 < length (cstr name) \<and> length (cstr name) < RFS_NAME_MAX"

section \<open>Reads and writes\<close>

lemma ramfs_find_eq: "ramfs_find fs name = find_slot (\<lambda>f. f_used f \<and> cstr (f_name f) = cstr name) (files fs)"
  by (simp add: ramfs_find_def rfs_streq_def cstr_eq_while_iff)

lemma cstr_rfs_ncopy:
  assumes "length dst = RFS_NAME_MAX" "short_name name"
  shows "cstr (rfs_ncopy dst name RFS_NAME_MAX) = cstr name" "length (rfs_ncopy dst name RFS_NAME_MAX) = RFS_NAME_MAX"
  using assms by (simp_all add: rfs_ncopy_def cstr_cstr_copy RFS_NAME_MAX_def short_name_def)

lemma copy_in_bytes:
  assumes "unat off + unat i + n \<le> 4294967296"
  shows "copy_in off src i n ar x =
     (if unat off + unat i \<le> unat x \<and> unat x < unat off + unat i + n then src (x - off) else ar x)"
  using assms
proof (induction n arbitrary: i ar)
  case (Suc n)
  have ui: "unat (off + i) = unat off + unat i" using Suc.prems by (intro unat_add_u32) simp
  have xi: "unat x = unat off + unat i \<longleftrightarrow> x = off + i"
    unfolding ui [symmetric] by (simp add: word_unat_eq_iff)
  show ?case
  proof (cases "n = 0")
    case True
    have "unat off + unat i \<le> unat x \<and> unat x < unat off + unat i + Suc n \<longleftrightarrow> x = off + i"
      unfolding xi [symmetric] using True by auto
    then show ?thesis using True by auto
  next
    case False
    have u1: "unat (i + 1) = Suc (unat i)" using Suc.prems False by (intro unat_Suc_u32) simp
    define ar' where "ar' = ar(off + i := src i)"
    have "unat off + unat i \<le> unat x \<and> unat x < unat off + unat i + Suc n \<longleftrightarrow>
        x = off + i \<or> (unat off + unat (i + 1) \<le> unat x \<and> unat x < unat off + unat (i + 1) + n)"
      unfolding xi [symmetric] u1 by auto
    moreover have "copy_in off src i (Suc n) ar = copy_in off src (i + 1) n ar'" by (simp add: ar'_def)
    moreover have "ar' x = (if x = off + i then src i else ar x)" by (simp add: ar'_def)
    ultimately show ?thesis using Suc.IH [of "i + 1" ar'] Suc.prems u1 by (auto split: if_splits)
  qed
qed auto

lemma content_cong:
  "(\<And>x. unat off \<le> unat x \<Longrightarrow> unat x < unat off + unat len \<Longrightarrow> arena fs' x = arena fs x) \<Longrightarrow>
   unat off + unat len < 4294967296 \<Longrightarrow> content fs' off len = content fs off len"
  unfolding content_def
  by (rule map_cong) (auto simp: unat_add_u32 unat_of_nat_u32)

lemma alloc_slot_cases:
  assumes "ramfs_inv fs" "short_name name"
  obtains (full) "ramfs_alloc_slot name fs = (None, fs)" "ramfs_find fs name = None"
      "\<forall>f \<in> set (files fs). f_used f"
  | (slot) i fs1 where "ramfs_alloc_slot name fs = (Some i, fs1)" "i < length (files fs)"
      "ramfs_find fs1 name = Some i" "arena fs1 = arena fs" "arena_used fs1 = arena_used fs"
      "arena_sz fs1 = arena_sz fs" "ramfs_inv fs1" "length (files fs1) = length (files fs)"
      "\<forall>j < length (files fs). j \<noteq> i \<longrightarrow> files fs1 ! j = files fs ! j" "f_used (files fs1 ! i)"
      "cstr (f_name (files fs1 ! i)) = cstr name"
      "f_used (files fs ! i) \<longrightarrow> cstr (f_name (files fs ! i)) = cstr name"
      "ramfs_find fs name \<noteq> None \<or> (\<exists>f \<in> set (files fs). \<not> f_used f)"
      "fcount fs1 = (if ramfs_find fs name = None then fcount fs + 1 else fcount fs)"
proof (cases "ramfs_find fs name")
  case (Some i)
  then have "i < length (files fs)" "f_used (files fs ! i)" "cstr (f_name (files fs ! i)) = cstr name"
    by (auto simp: ramfs_find_eq find_slot_Some_iff)
  then show thesis using slot [of i fs] Some assms(1) by (simp add: ramfs_alloc_slot_def)
next
  case None
  then have nofind: "\<not> (f_used f \<and> cstr (f_name f) = cstr name)" if "f \<in> set (files fs)" for f
    using that by (auto simp: ramfs_find_eq find_slot_None_iff)
  show thesis
  proof (cases "find_slot (\<lambda>f. \<not> f_used f) (files fs)")
    case no: None
    then have "\<forall>f \<in> set (files fs). f_used f" by (simp add: find_slot_None_iff)
    then show thesis using full None no by (simp add: ramfs_alloc_slot_def)
  next
    case (Some i)
    then have i: "i < length (files fs)" "\<not> f_used (files fs ! i)" using find_slot_SomeD by fast+
    define f where "f = (files fs ! i)\<lparr>f_used := True, f_name := rfs_ncopy (f_name (files fs ! i)) name RFS_NAME_MAX,
        f_off := 0, f_size := 0\<rparr>"
    define fs1 where "fs1 = fs\<lparr>files := (files fs)[i := f], fcount := fcount fs + 1\<rparr>"
    have al: "ramfs_alloc_slot name fs = (Some i, fs1)"
      using None Some by (simp add: ramfs_alloc_slot_def fs1_def f_def)
    have "length (f_name (files fs ! i)) = RFS_NAME_MAX"
      using assms(1) i(1) by (auto simp: ramfs_inv_def file_ok_def)
    note nm = cstr_rfs_ncopy [OF this assms(2)]
    have fok: "file_ok fs1 f" using nm assms(2) by (simp add: file_ok_def f_def short_name_def)
    have "file_ok fs1 g" if "g \<in> set (files fs)" for g
      using assms(1) that by (simp add: ramfs_inv_def file_ok_def fs1_def)
    then have "\<forall>g \<in> set (files fs1). file_ok fs1 g"
      using fok set_update_subset_insert [of "files fs" i f] by (auto simp: fs1_def)
    moreover have "count_if f_used (files fs1) = Suc (count_if f_used (files fs))"
      unfolding fs1_def using i by (simp add: count_if_set f_def)
    ultimately have inv: "ramfs_inv fs1" using assms(1) by (simp add: ramfs_inv_def fs1_def)
    have nf: "\<not> (f_used (files fs ! j) \<and> cstr (f_name (files fs ! j)) = cstr name)" if "j < length (files fs)" for j
      using nofind nth_mem [OF that] by blast
    have "ramfs_find fs1 name = Some i"
      using i nf nm(1) by (auto simp: ramfs_find_eq find_slot_Some_iff fs1_def f_def nth_list_update)
    moreover have "\<exists>f \<in> set (files fs). \<not> f_used f" using i nth_mem by blast
    ultimately show thesis using slot [OF al i(1)] inv i nm(1) None by (simp add: fs1_def f_def)
  qed
qed

text \<open>The effect of a successful write on the map.\<close>

lemma content_copied:
  assumes "unat (arena_used fs) + unat len < 4294967296"
    and "arena fs' = copy_in (arena_used fs) data 0 (unat len) (arena fs)"
  shows "content fs' (arena_used fs) len = data_bytes data len"
proof -
  have "arena fs' (arena_used fs + of_nat i) = data (of_nat i)" if "i < unat len" for i
    using assms(1) that unfolding assms(2)
    by (subst copy_in_bytes) (simp_all add: unat_add_u32 unat_of_nat_u32)
  then show ?thesis by (simp add: content_def data_bytes_def)
qed

lemma ramfs_write_cases:
  assumes "ramfs_inv fs" "short_name name" "unat (arena_used fs) + unat len < 4294967296"
  obtains (refused) "ramfs_write name data len fs = (-1, fs)"
      "unat (arena_sz fs) < unat (arena_used fs) + unat len \<or>
       (fs_map fs name = None \<and> (\<forall>f \<in> set (files fs). f_used f))"
  | (written) fs' where "ramfs_write name data len fs = (sint len, fs')" "ramfs_inv fs'"
      "fs_map fs' name = Some (data_bytes data len)" "\<forall>n. cstr n \<noteq> cstr name \<longrightarrow> fs_map fs' n = fs_map fs n"
      "arena_used fs' = arena_used fs + len" "arena_sz fs' = arena_sz fs" "length (files fs') = length (files fs)"
      "unat (arena_used fs) + unat len \<le> unat (arena_sz fs)"
      "fs_map fs name \<noteq> None \<or> (\<exists>f \<in> set (files fs). \<not> f_used f)"
      "fcount fs' = (if fs_map fs name = None then fcount fs + 1 else fcount fs)"
proof -
  have nn: "cget name 0 \<noteq> NUL" using assms(2) cstr_empty_iff [of name] by (auto simp: short_name_def)
  have sum: "unat (arena_used fs + len) = unat (arena_used fs) + unat len" using assms(3) by (rule unat_add_u32)
  show thesis
  proof (cases "arena_used fs + len > arena_sz fs")
    case True
    then show thesis using refused nn sum by (simp add: ramfs_write_def word_less_nat_alt)
  next
    case fit: False
    from assms(1,2) show thesis
    proof (cases rule: alloc_slot_cases)
      case full
      then show thesis using refused nn fit by (simp add: ramfs_write_def fs_map_def ramfs_read_def)
    next
      case (slot i fs1)
      define f where "f = (files fs1 ! i)\<lparr>f_off := arena_used fs, f_size := len\<rparr>"
      define fs' where "fs' = fs1\<lparr>arena := copy_in (arena_used fs) data 0 (unat len) (arena fs),
          arena_used := arena_used fs + len, files := (files fs1)[i := f]\<rparr>"
      have w: "ramfs_write name data len fs = (sint len, fs')"
        using nn fit slot(1,4,5) by (simp add: ramfs_write_def fs'_def f_def Let_def)
      have i1: "i < length (files fs1)" using slot(2,8) by simp
      have ok1: "file_ok fs1 g" if "g \<in> set (files fs1)" for g using slot(7) that by (simp add: ramfs_inv_def)
      have ok': "file_ok fs' g" if "g \<in> set (files fs1)" for g
        using ok1 [OF that] slot(5) sum by (auto simp: file_ok_def fs'_def)
      have fok: "file_ok fs' f" using ok1 [OF nth_mem [OF i1]] sum by (simp add: file_ok_def fs'_def f_def)
      have "\<forall>g \<in> set (files fs'). file_ok fs' g"
        using ok' fok set_update_subset_insert [of "files fs1" i f] by (auto simp: fs'_def)
      moreover have "count_if f_used (files fs') = count_if f_used (files fs1)"
        using i1 by (simp add: fs'_def f_def count_if_same)
      ultimately have inv: "ramfs_inv fs'"
        using slot(6,7) fit by (simp add: ramfs_inv_def fs'_def not_less)
      have old: "content fs' (f_off g) (f_size g) = content fs (f_off g) (f_size g)"
        if "g \<in> set (files fs1)" "f_used g" for g
      proof (rule content_cong)
        have le: "unat (f_off g) + unat (f_size g) \<le> unat (arena_used fs)"
          using ok1 [OF that(1)] that(2) slot(5) by (simp add: file_ok_def)
        show "arena fs' x = arena fs x" if "unat x < unat (f_off g) + unat (f_size g)" for x
          using that le assms(3) by (simp add: fs'_def copy_in_bytes)
        show "unat (f_off g) + unat (f_size g) < 4294967296"
          using le unat_u32_less [of "arena_used fs"] by linarith
      qed
      have find': "ramfs_find fs' n = ramfs_find fs1 n" for n
        unfolding ramfs_find_eq fs'_def f_def using i1
        by (intro find_slot_cong) (simp add: list_eq_iff_nth_eq nth_list_update)
      have mine: "fs_map fs' name = Some (data_bytes data len)"
        using find' slot(3) i1 content_copied [OF assms(3), of fs' data]
        by (simp add: fs_map_def ramfs_read_def fs'_def f_def)
      have "fs_map fs' n = fs_map fs n" if n: "cstr n \<noteq> cstr name" for n
      proof -
        have "map (\<lambda>f. f_used f \<and> cstr (f_name f) = cstr n) (files fs1) =
            map (\<lambda>f. f_used f \<and> cstr (f_name f) = cstr n) (files fs)"
          using slot(8,9,11,12) n by (auto simp: list_eq_iff_nth_eq)
        then have same: "ramfs_find fs1 n = ramfs_find fs n" unfolding ramfs_find_eq by (rule find_slot_cong)
        show ?thesis
        proof (cases "ramfs_find fs n")
          case None
          then show ?thesis using find' same by (simp add: fs_map_def ramfs_read_def)
        next
          case (Some k)
          then have k: "k < length (files fs)" "f_used (files fs ! k)" "cstr (f_name (files fs ! k)) = cstr n"
            by (auto simp: ramfs_find_eq find_slot_Some_iff)
          have ki: "k \<noteq> i" using k(2,3) slot(12) n by auto
          then have g: "files fs1 ! k = files fs ! k" "files fs' ! k = files fs ! k" using slot(9) k(1) by (auto simp: fs'_def)
          have "files fs ! k \<in> set (files fs1)" using g(1) k(1) slot(8) by (metis nth_mem)
          from old [OF this k(2)] show ?thesis
            using Some find' same g(2) by (simp add: fs_map_def ramfs_read_def)
        qed
      qed
      moreover have "fs_map fs name = None \<longleftrightarrow> ramfs_find fs name = None"
        by (simp add: fs_map_def ramfs_read_def split: option.splits)
      ultimately show thesis using written [OF w inv mine] slot(6,8,13,14) fit sum
        by (simp add: fs'_def word_less_nat_alt not_less)
    qed
  qed
qed

section \<open>The file-store interface\<close>

text \<open>
  What users of the filesystem rely on: a write either is refused without effect or
  replaces exactly the named file's content; \<open>room\<close> says the length does not overflow.
\<close>

locale file_store =
  fixes inv :: "'s \<Rightarrow> bool"
    and lookup :: "'s \<Rightarrow> char list \<Rightarrow> u8 list option"
    and wr :: "char list \<Rightarrow> (u32 \<Rightarrow> u8) \<Rightarrow> u32 \<Rightarrow> 's \<Rightarrow> int \<times> 's"
    and room :: "'s \<Rightarrow> u32 \<Rightarrow> bool"
  assumes wr_result: "inv s \<Longrightarrow> short_name name \<Longrightarrow> room s len \<Longrightarrow>
      wr name data len s = (-1, s) \<or>
      (\<exists>s'. wr name data len s = (sint len, s') \<and> inv s' \<and> lookup s' name = Some (data_bytes data len) \<and>
         (\<forall>n. cstr n \<noteq> cstr name \<longrightarrow> lookup s' n = lookup s n))"
    and lookup_cstr: "cstr n = cstr n' \<Longrightarrow> lookup s n = lookup s n'"
begin

lemma wr_inv: "inv s \<Longrightarrow> short_name name \<Longrightarrow> room s len \<Longrightarrow> inv (snd (wr name data len s))"
  using wr_result [of s name len data] by auto

lemma read_after_write:
  assumes "inv s" "short_name name" "room s len" "wr name data len s = (r, s')" "0 \<le> r"
  shows "lookup s' n = (if cstr n = cstr name then Some (data_bytes data len) else lookup s n)"
  using wr_result [OF assms(1-3), of data] assms(4,5) lookup_cstr [of n name s'] by auto

lemma last_write_wins:
  assumes "inv s" "short_name n1" "short_name n2" "room s l1" "room s1 l2"
    and "wr n1 d1 l1 s = (r1, s1)" "0 \<le> r1" "wr n2 d2 l2 s1 = (r2, s2)" "0 \<le> r2"
  shows "lookup s2 n2 = Some (data_bytes d2 l2)"
    "lookup s2 n1 = (if cstr n1 = cstr n2 then Some (data_bytes d2 l2) else Some (data_bytes d1 l1))"
proof -
  have "inv s1" using wr_inv [OF assms(1,2,4), of d1] assms(6) by simp
  note r2 = read_after_write [OF this assms(3,5,8,9)]
  note r1 = read_after_write [OF assms(1,2,4,6,7)]
  show "lookup s2 n2 = Some (data_bytes d2 l2)" by (simp add: r2)
  show "lookup s2 n1 = (if cstr n1 = cstr n2 then Some (data_bytes d2 l2) else Some (data_bytes d1 l1))"
    by (simp add: r1 r2)
qed

end

definition no_wrap :: "ramfs \<Rightarrow> u32 \<Rightarrow> bool" where
  "no_wrap fs len \<longleftrightarrow> unat (arena_used fs) + unat len < 4294967296"

lemma fs_map_cstr: "cstr n = cstr n' \<Longrightarrow> fs_map fs n = fs_map fs n'"
  by (simp add: fs_map_def ramfs_read_def ramfs_find_eq)

interpretation rfs: file_store ramfs_inv fs_map ramfs_write no_wrap
proof unfold_locales
  fix fs :: ramfs and name len data
  assume "ramfs_inv fs" "short_name name" "no_wrap fs len"
  then have nw: "unat (arena_used fs) + unat len < 4294967296" by (simp add: no_wrap_def)
  from \<open>ramfs_inv fs\<close> \<open>short_name name\<close> nw
  show "ramfs_write name data len fs = (-1, fs) \<or>
      (\<exists>s'. ramfs_write name data len fs = (sint len, s') \<and> ramfs_inv s' \<and>
         fs_map s' name = Some (data_bytes data len) \<and> (\<forall>n. cstr n \<noteq> cstr name \<longrightarrow> fs_map s' n = fs_map fs n))"
    by (cases rule: ramfs_write_cases [where data = data]) auto
qed (rule fs_map_cstr)

section \<open>Initialisation\<close>

lemma ramfs_init_inv:
  assumes "\<forall>f \<in> set fls. length (f_name f) = RFS_NAME_MAX"
  shows "ramfs_inv (ramfs_init fls ar sz)"
  using assms by (auto simp: ramfs_inv_def ramfs_init_def file_ok_def count_if_def)

lemma welcome_len: "slen welcome_text = 139"
  by code_simp

lemma readme_len: "slen readme_text = 138"
  by code_simp

definition blank_file :: rfile where
  "blank_file = \<lparr>f_name = replicate RFS_NAME_MAX NUL, f_off = 0, f_size = 0, f_used = False\<rparr>"

lemma blank_init_inv: "ramfs_inv (ramfs_init (replicate n blank_file) ar sz)"
  by (rule ramfs_init_inv) (simp add: blank_file_def)

lemma fs_map_init: "fs_map (ramfs_init fls ar sz) n = None"
proof -
  have "ramfs_find (ramfs_init fls ar sz) n = None"
    by (auto simp: ramfs_find_def ramfs_init_def find_slot_None_iff)
  then show ?thesis by (simp add: fs_map_def ramfs_read_def)
qed

section \<open>Properties\<close>

text \<open>
  C7: a write to a filesystem in its invariant, under a name that fits the name field, is
  refused with -1 and no effect exactly when the arena has no room or the file is absent and
  the table is full; otherwise it returns the length, makes the file's content exactly the
  written bytes, leaves every other file as it was, counts a new file only when the name was
  absent and keeps the invariant.
\<close>

theorem ramfs_write_correct:
  assumes "ramfs_inv fs" "short_name name" "no_wrap fs len"
  shows "if unat (arena_sz fs) < unat (arena_used fs) + unat len \<or>
            (fs_map fs name = None \<and> (\<forall>f \<in> set (files fs). f_used f))
         then ramfs_write name data len fs = (-1, fs)
         else \<exists>fs'. ramfs_write name data len fs = (sint len, fs') \<and> ramfs_inv fs' \<and>
            fs_map fs' = (\<lambda>n. if cstr n = cstr name then Some (data_bytes data len) else fs_map fs n) \<and>
            ramfs_bytes_used fs' = ramfs_bytes_used fs + len \<and>
            ramfs_count fs' = (if fs_map fs name = None then ramfs_count fs + 1 else ramfs_count fs)"
proof -
  have nw: "unat (arena_used fs) + unat len < 4294967296" using assms(3) by (simp add: no_wrap_def)
  from assms(1,2) nw show ?thesis
  proof (cases rule: ramfs_write_cases [where data = data])
    case refused
    then show ?thesis by simp
  next
    case (written fs')
    have "fs_map fs' = (\<lambda>n. if cstr n = cstr name then Some (data_bytes data len) else fs_map fs n)"
    proof
      fix n
      show "fs_map fs' n = (if cstr n = cstr name then Some (data_bytes data len) else fs_map fs n)"
        using written(3,4) fs_map_cstr [of n name fs'] by (cases "cstr n = cstr name") simp_all
    qed
    note result = conjI [OF written(1) conjI [OF written(2) conjI [OF this conjI [OF written(5) written(10)]]]]
    have "\<not> (unat (arena_sz fs) < unat (arena_used fs) + unat len \<or>
        (fs_map fs name = None \<and> (\<forall>f \<in> set (files fs). f_used f)))" using written(8,9) by auto
    then show ?thesis unfolding ramfs_bytes_used_def ramfs_count_def
      by (subst if_not_P) (assumption, rule exI [of _ fs'], rule result)
  qed
qed

theorem ramfs_write_correct_witness:
  "\<exists>fs'. ramfs_write ''a'' (\<lambda>i. 7) 3 (ramfs_init (replicate 2 blank_file) (\<lambda>i. 0) 64) = (3, fs') \<and>
     ramfs_inv fs' \<and> fs_map fs' ''a'' = Some [7, 7, 7] \<and> fs_map fs' ''b'' = None \<and> ramfs_count fs' = 1"
proof -
  define fs where "fs = ramfs_init (replicate 2 blank_file) (\<lambda>i. 0) 64"
  have facts: "ramfs_inv fs" "short_name ''a''" "no_wrap fs 3" "arena_sz fs = 64" "arena_used fs = 0" "fcount fs = 0"
      "\<not> (\<forall>f \<in> set (files fs). f_used f)" "\<And>n. fs_map fs n = None"
    by (simp_all add: fs_def blank_init_inv short_name_def RFS_NAME_MAX_def no_wrap_def fs_map_init)
      (simp_all add: ramfs_init_def)
  have "data_bytes (\<lambda>i. 7) 3 = [7, 7, 7]" by (simp add: data_bytes_def upt_rec)
  then show ?thesis
    using ramfs_write_correct [OF facts(1-3), of "\<lambda>i. 7"] facts(4-8)
    unfolding fs_def [symmetric] by (auto simp: ramfs_count_def)
qed

text \<open>
  after two accepted writes, reading the second name gives the second content, and
  reading the first name gives the first content unless both writes named the same file,
  when the last one wins.
\<close>

theorem ramfs_last_write_wins:
  assumes "ramfs_inv fs" "short_name n1" "short_name n2" "no_wrap fs l1" "no_wrap fs1 l2"
    and "ramfs_write n1 d1 l1 fs = (r1, fs1)" "0 \<le> r1" "ramfs_write n2 d2 l2 fs1 = (r2, fs2)" "0 \<le> r2"
  shows "fs_map fs2 n2 = Some (data_bytes d2 l2) \<and>
     fs_map fs2 n1 = (if cstr n1 = cstr n2 then Some (data_bytes d2 l2) else Some (data_bytes d1 l1))"
  using rfs.last_write_wins [OF assms] by simp

theorem ramfs_last_write_wins_witness:
  "\<exists>r1 fs1 r2 fs2. ramfs_write ''a'' (\<lambda>i. 7) 2 (ramfs_init (replicate 2 blank_file) (\<lambda>i. 0) 64) = (r1, fs1) \<and>
     ramfs_write ''b'' (\<lambda>i. 9) 1 fs1 = (r2, fs2) \<and> 0 \<le> r1 \<and> 0 \<le> r2 \<and>
     fs_map fs2 ''a'' = Some [7, 7] \<and> fs_map fs2 ''b'' = Some [9]"
proof -
  define fs where "fs = ramfs_init (replicate 2 blank_file) (\<lambda>i. 0) 64"
  obtain r1 fs1 where w1: "ramfs_write ''a'' (\<lambda>i. 7) 2 fs = (r1, fs1)" by fastforce
  obtain r2 fs2 where w2: "ramfs_write ''b'' (\<lambda>i. 9) 1 fs1 = (r2, fs2)" by fastforce
  have inv: "ramfs_inv fs" by (simp add: fs_def blank_init_inv)
  have ok: "0 \<le> fst (ramfs_write ''a'' (\<lambda>i. 7) 2 fs) \<and> arena_used (snd (ramfs_write ''a'' (\<lambda>i. 7) 2 fs)) = 2 \<and>
      0 \<le> fst (ramfs_write ''b'' (\<lambda>i. 9) 1 (snd (ramfs_write ''a'' (\<lambda>i. 7) 2 fs))) \<and> arena_used fs = 0"
    unfolding fs_def by code_simp
  have sh: "short_name ''a''" "short_name ''b''" by (simp_all add: short_name_def RFS_NAME_MAX_def)
  have "no_wrap fs 2" "no_wrap fs1 1" using ok w1 by (simp_all add: no_wrap_def)
  from ramfs_last_write_wins [OF inv sh this w1 _ w2] ok w1 w2
  have "fs_map fs2 ''b'' = Some (data_bytes (\<lambda>i. 9) 1)" "fs_map fs2 ''a'' = Some (data_bytes (\<lambda>i. 7) 2)" by simp_all
  then show ?thesis using w1 w2 ok unfolding fs_def [symmetric]
    by (simp add: data_bytes_def upt_rec)
qed

text \<open>
  a name that does not fit the 32-byte field is lost: the write is accepted and takes a
  slot, yet the file cannot be read back under the name it was written with.
\<close>

theorem ramfs_long_name_lost:
  assumes "ramfs_inv fs" "RFS_NAME_MAX \<le> length (cstr name)"
    and "arena_used fs + len \<le> arena_sz fs" "\<exists>f \<in> set (files fs). \<not> f_used f"
  shows "\<exists>fs'. ramfs_write name data len fs = (sint len, fs') \<and>
     ramfs_count fs' = ramfs_count fs + 1 \<and> ramfs_read fs' name = None"
proof -
  have short: "cstr (f_name f) \<noteq> cstr name" if "f \<in> set (files fs)" "f_used f" for f
    using assms(1,2) that by (auto simp: ramfs_inv_def file_ok_def)
  then have none: "ramfs_find fs name = None" by (auto simp: ramfs_find_eq find_slot_None_iff)
  obtain i where i: "find_slot (\<lambda>f. \<not> f_used f) (files fs) = Some i"
    using assms(4) by (cases "find_slot (\<lambda>f. \<not> f_used f) (files fs)") (auto simp: find_slot_None_iff)
  then have il: "i < length (files fs)" "\<not> f_used (files fs ! i)" using find_slot_SomeD by fast+
  define nm where "nm = rfs_ncopy (f_name (files fs ! i)) name RFS_NAME_MAX"
  define g where "g = (files fs ! i)\<lparr>f_used := True, f_name := nm, f_off := arena_used fs, f_size := len\<rparr>"
  have "length (f_name (files fs ! i)) = RFS_NAME_MAX"
    using assms(1) il(1) by (auto simp: ramfs_inv_def file_ok_def)
  then have "cstr nm = take 31 (cstr name)"
    by (simp add: nm_def rfs_ncopy_def cstr_cstr_copy RFS_NAME_MAX_def)
  then have "length (cstr nm) < length (cstr name)" using assms(2) by (simp add: RFS_NAME_MAX_def)
  then have "cstr (f_name g) \<noteq> cstr name" by (auto simp: g_def)
  then have lost: "find_slot (\<lambda>f. f_used f \<and> cstr (f_name f) = cstr name) ((files fs)[i := g]) = None"
    using short set_update_subset_insert [of "files fs" i g] by (auto simp: find_slot_None_iff)
  have "cget name 0 \<noteq> NUL" using assms(2) cstr_empty_iff [of name] by (auto simp: RFS_NAME_MAX_def)
  moreover have "\<not> arena_sz fs < arena_used fs + len" using assms(3) by simp
  ultimately show ?thesis using none i il(1) lost
    by (simp add: ramfs_write_def ramfs_alloc_slot_def Let_def ramfs_count_def ramfs_read_def ramfs_find_eq g_def nm_def)
qed

theorem ramfs_long_name_lost_witness:
  "\<exists>fs'. ramfs_write (replicate 40 (CHR ''x'')) (\<lambda>i. 7) 2 (ramfs_init (replicate 2 blank_file) (\<lambda>i. 0) 64) = (2, fs') \<and>
     ramfs_count fs' = 1 \<and> ramfs_read fs' (replicate 40 (CHR ''x'')) = None"
proof -
  define fs where "fs = ramfs_init (replicate 2 blank_file) (\<lambda>i. 0) 64"
  have "ramfs_inv fs" by (simp add: fs_def blank_init_inv)
  moreover have "RFS_NAME_MAX \<le> length (cstr (replicate 40 (CHR ''x'')))" by code_simp
  moreover have "arena_used fs + 2 \<le> arena_sz fs" "\<exists>f \<in> set (files fs). \<not> f_used f" "ramfs_count fs = 0"
    by (simp_all add: fs_def ramfs_init_def ramfs_count_def)
  ultimately show ?thesis using ramfs_long_name_lost [of fs "replicate 40 (CHR ''x'')" 2 "\<lambda>i. 7"]
    unfolding fs_def [symmetric] by simp
qed

text \<open>
  the kernel's filesystem starts with exactly the two files \<open>welcome.txt\<close> and
  \<open>readme\<close>, holding the texts built into the kernel, whatever the static tables held.
\<close>

theorem kfs_init_files:
  assumes "length kfiles = KFS_MAX_FILES" "\<forall>f \<in> set kfiles. length (f_name f) = RFS_NAME_MAX"
  shows "ramfs_inv (kfs_init kfiles karena) \<and> kfs_count (kfs_init kfiles karena) = 2 \<and>
     kfs_bytes_used (kfs_init kfiles karena) = 277 \<and> arena_sz (kfs_init kfiles karena) = KFS_ARENA \<and>
     length (files (kfs_init kfiles karena)) = KFS_MAX_FILES \<and>
     fs_map (kfs_init kfiles karena) = (\<lambda>n.
       if cstr n = ''readme'' then Some (data_bytes (text_bytes readme_text) 138)
       else if cstr n = ''welcome.txt'' then Some (data_bytes (text_bytes welcome_text) 139)
       else None)"
proof -
  define fs0 where "fs0 = ramfs_init kfiles karena KFS_ARENA"
  have inv0: "ramfs_inv fs0" unfolding fs0_def by (rule ramfs_init_inv) (rule assms(2))
  have f0: "arena_used fs0 = 0" "arena_sz fs0 = KFS_ARENA" "fcount fs0 = 0" "length (files fs0) = KFS_MAX_FILES"
      "\<forall>f \<in> set (files fs0). \<not> f_used f"
    using assms(1) by (auto simp: fs0_def ramfs_init_def)
  have none0: "fs_map fs0 n = None" for n by (simp add: fs0_def fs_map_init)
  have sh: "short_name ''welcome.txt''" "short_name ''readme''" by (simp_all add: short_name_def RFS_NAME_MAX_def)
  have ar: "unat KFS_ARENA = 65536" by (simp add: KFS_ARENA_def)
  have "unat (arena_used fs0) + unat (139 :: u32) < 4294967296" using f0 by simp
  with inv0 sh(1) obtain fs1 where s1: "snd (ramfs_write ''welcome.txt'' (text_bytes welcome_text) 139 fs0) = fs1"
      "ramfs_inv fs1" "fs_map fs1 ''welcome.txt'' = Some (data_bytes (text_bytes welcome_text) 139)"
      "\<forall>n. cstr n \<noteq> ''welcome.txt'' \<longrightarrow> fs_map fs1 n = None" "arena_used fs1 = 139" "arena_sz fs1 = KFS_ARENA"
      "fcount fs1 = 1" "length (files fs1) = KFS_MAX_FILES"
  proof (cases rule: ramfs_write_cases [where data = "text_bytes welcome_text"])
    case refused
    have "files fs0 ! 0 \<in> set (files fs0)" using f0(4) by (simp add: KFS_MAX_FILES_def)
    then show thesis using refused f0 ar by auto
  next
    case (written fs')
    then show thesis using that [of fs'] f0 none0 by simp
  qed
  have free1: "\<exists>f \<in> set (files fs1). \<not> f_used f"
  proof (rule ccontr)
    assume "\<not> ?thesis"
    then have "count_if f_used (files fs1) = length (files fs1)" by (simp add: count_if_def)
    then show False using s1(2,7,8) by (simp add: ramfs_inv_def KFS_MAX_FILES_def)
  qed
  have "unat (arena_used fs1) + unat (138 :: u32) < 4294967296" using s1 by simp
  with s1(2) sh(2) obtain fs2 where s2: "snd (ramfs_write ''readme'' (text_bytes readme_text) 138 fs1) = fs2"
      "ramfs_inv fs2" "fs_map fs2 ''readme'' = Some (data_bytes (text_bytes readme_text) 138)"
      "\<forall>n. cstr n \<noteq> ''readme'' \<longrightarrow> fs_map fs2 n = fs_map fs1 n" "arena_used fs2 = 277" "fcount fs2 = 2"
      "arena_sz fs2 = KFS_ARENA" "length (files fs2) = KFS_MAX_FILES"
  proof (cases rule: ramfs_write_cases [where data = "text_bytes readme_text"])
    case refused
    then show thesis using s1 ar free1 by auto
  next
    case (written fs')
    then show thesis using that [of fs'] s1 by simp
  qed
  have k: "kfs_init kfiles karena = fs2"
    using s1(1) s2(1) by (simp add: kfs_init_def kfs_write_def welcome_len readme_len Let_def fs0_def)
  have "fs_map fs2 n = (if cstr n = ''readme'' then Some (data_bytes (text_bytes readme_text) 138)
      else if cstr n = ''welcome.txt'' then Some (data_bytes (text_bytes welcome_text) 139) else None)" for n
    using s1(3,4) s2(3,4) fs_map_cstr [of n "''readme''" fs2] fs_map_cstr [of n "''welcome.txt''" fs1] by auto
  then show ?thesis using s2 by (simp add: k kfs_count_def ramfs_count_def kfs_bytes_used_def ramfs_bytes_used_def fun_eq_iff)
qed

theorem kfs_init_files_witness:
  "kfs_count (kfs_init (replicate 32 blank_file) (\<lambda>i. 0)) = 2 \<and>
   fs_map (kfs_init (replicate 32 blank_file) (\<lambda>i. 0)) ''notes'' = None"
  using kfs_init_files [of "replicate 32 blank_file" "\<lambda>i. 0"]
  by (simp add: blank_file_def KFS_MAX_FILES_def)

text \<open>
  The space check adds at 32 bits: a length that wraps it round is accepted although it is
  larger than the arena, and the bump pointer moves backwards over live contents.
\<close>

lemma ramfs_write_wraps:
  assumes "4294967296 \<le> unat (arena_used fs) + unat len" "arena_used fs + len \<le> arena_sz fs"
    and "ramfs_find fs name = Some i" "cget name 0 \<noteq> NUL"
  shows "fst (ramfs_write name data len fs) = sint len \<and>
     ramfs_bytes_used (snd (ramfs_write name data len fs)) < ramfs_bytes_used fs"
proof -
  have "unat (arena_used fs + len) = unat (arena_used fs) + unat len - 4294967296"
    using assms(1) unat_u32_less [of "arena_used fs"] unat_u32_less [of len]
    by (simp add: unat_word_ariths mod_if)
  then have "arena_used fs + len < arena_used fs"
    using assms(1) unat_u32_less [of len] by (simp add: word_less_nat_alt)
  then show ?thesis using assms(2-4) by (auto simp: ramfs_write_def ramfs_alloc_slot_def ramfs_bytes_used_def Let_def)
qed

end
