(* ===== verification/Ring_Log.thy ===== *)
theory Ring_Log
  imports Thuos_Prelude
begin

text \<open>
  The contract of the kernel's ring logs (kernel log, command history, audit trail): a
  counter of everything ever recorded and a table of the last \<open>cap\<close> records, where record
  number \<open>i\<close> sits in slot \<open>i mod cap\<close>. Clients read back the newest records.
\<close>

locale ring_log =
  fixes cap :: nat
    and lim :: nat
    and inv :: "'s \<Rightarrow> bool"
    and total :: "'s \<Rightarrow> nat"
    and slot :: "'s \<Rightarrow> nat \<Rightarrow> 'b"
    and view :: "'a \<Rightarrow> nat \<Rightarrow> 'b"
    and push :: "'a \<Rightarrow> 's \<Rightarrow> 's"
  assumes cap_pos: "0 < cap"
    and push_inv: "inv s \<Longrightarrow> total s < lim \<Longrightarrow> inv (push a s)"
    and total_push: "inv s \<Longrightarrow> total s < lim \<Longrightarrow> total (push a s) = Suc (total s)"
    and slot_push: "inv s \<Longrightarrow> total s < lim \<Longrightarrow> j < cap \<Longrightarrow>
      slot (push a s) j = (if j = total s mod cap then view a (total s) else slot s j)"
begin

lemma pushes:
  assumes "inv s" "total s + length xs \<le> lim"
  shows "inv (fold push xs s) \<and> total (fold push xs s) = total s + length xs"
  using assms
proof (induction xs arbitrary: s)
  case (Cons x xs)
  then show ?case using push_inv [of s x] total_push [of s x] by simp
qed simp

text \<open>After any number of records from an empty log, the newest \<open>cap\<close> are all there.\<close>

lemma recent:
  assumes "inv s" "total s = 0" "length xs \<le> lim" "i < length xs" "length xs \<le> i + cap"
  shows "slot (fold push xs s) (i mod cap) = view (xs ! i) i"
  using assms(3-5)
proof (induction xs rule: rev_induct)
  case (snoc x xs)
  define t where "t = fold push xs s"
  have t: "inv t" "total t = length xs" "total t < lim"
    using pushes [OF assms(1), of xs] assms(2) snoc.prems(1) by (auto simp: t_def)
  have step: "slot (push x t) (i mod cap) = (if i mod cap = length xs mod cap then view x (length xs) else slot t (i mod cap))"
    using slot_push [OF t(1,3), of "i mod cap" x] t(2) cap_pos by simp
  show ?case
  proof (cases "i = length xs")
    case True
    then show ?thesis using step by (simp add: t_def)
  next
    case False
    then have i: "i < length xs" "length xs - i < cap" using snoc.prems by auto
    have "i mod cap \<noteq> length xs mod cap"
    proof
      assume "i mod cap = length xs mod cap"
      then have "cap dvd length xs - i" using i(1) by (metis less_imp_le mod_eq_dvd_iff_nat)
      then show False using i by (auto dest: dvd_imp_le)
    qed
    then show ?thesis using step snoc i by (simp add: t_def nth_append)
  qed
qed simp

end

end
