(* ===== verification/Ai_Core.thy ===== *)
theory Ai_Core
  imports Ring_Log "HOL-Library.Signed_Division"
begin

text \<open>
  The AI-native layer's core (\<open>kernel/ai/ai_core.c\<close>): service and model registries, the
  permission policy, tasks with their state machine and the audit ring. The lemmas show
  that task ids are unique and never reused, that a finished task never changes again, and
  that the audit ring returns the newest records first.
\<close>

section \<open>Data (ai_core.h)\<close>

definition AI_NAME_MAX :: nat where "AI_NAME_MAX = 28"
definition AI_ENDPOINT_MAX :: nat where "AI_ENDPOINT_MAX = 48"
definition AI_MAX_SERVICES :: nat where "AI_MAX_SERVICES = 8"
definition AI_MAX_MODELS :: nat where "AI_MAX_MODELS = 12"
definition AI_MAX_TASKS :: nat where "AI_MAX_TASKS = 16"
definition AI_AUDIT_CAP :: int where "AI_AUDIT_CAP = 32"

datatype ai_status = AI_STAT_DESIGN_ONLY | AI_STAT_CONFIGURED | AI_STAT_REACHABLE | AI_STAT_UNREACHABLE

datatype ai_svc_kind = AI_SVC_NONE | AI_SVC_BRIDGE | AI_SVC_LOCAL_RUNTIME | AI_SVC_TOOL

record ai_service =
  sv_name :: "char list"
  sv_endpoint :: "char list"
  sv_kind :: ai_svc_kind
  sv_status :: ai_status
  sv_used :: bool

datatype ai_model_state = AI_MODEL_DECLARED | AI_MODEL_PRESENT

datatype ai_role = AI_ROLE_CHAT | AI_ROLE_CODE | AI_ROLE_EMBED | AI_ROLE_VISION

record ai_model =
  md_name :: "char list"
  md_role :: ai_role
  md_state :: ai_model_state
  md_used :: bool

definition AI_PERM_LOCAL_INFER :: u32 where "AI_PERM_LOCAL_INFER = push_bit 0 1"
definition AI_PERM_NET_BRIDGE :: u32 where "AI_PERM_NET_BRIDGE = push_bit 1 1"
definition AI_PERM_FILE_READ :: u32 where "AI_PERM_FILE_READ = push_bit 2 1"
definition AI_PERM_FILE_WRITE :: u32 where "AI_PERM_FILE_WRITE = push_bit 3 1"
definition AI_PERM_TOOL_EXEC :: u32 where "AI_PERM_TOOL_EXEC = push_bit 4 1"
definition AI_PERM_CLOUD :: u32 where "AI_PERM_CLOUD = push_bit 5 1"

datatype ai_task_state =
  AI_TASK_CREATED | AI_TASK_QUEUED | AI_TASK_DISPATCHED | AI_TASK_DONE | AI_TASK_DENIED | AI_TASK_FAILED

datatype ai_task_kind = AI_KIND_CHAT | AI_KIND_CODE | AI_KIND_EMBED | AI_KIND_TOOL

record ai_task =
  tk_id :: int
  tk_service :: int
  tk_kind :: ai_task_kind
  tk_state :: ai_task_state
  tk_label :: "char list"
  tk_used :: bool

datatype ai_decision = AI_AUDIT_ALLOW | AI_AUDIT_DENY

record ai_audit =
  au_seq :: u32
  au_action :: "char list"
  au_decision :: ai_decision
  au_task_id :: int
  au_used :: bool

record ai_world =
  services :: "ai_service list"
  models :: "ai_model list"
  ai_tasks :: "ai_task list"
  audit :: "ai_audit list"
  perms :: u32
  next_task_id :: int
  audit_seq :: u32
  audit_head :: int
  audit_total :: int

datatype ai_sub =
  AI_SUB_HELP | AI_SUB_STATUS | AI_SUB_MODELS | AI_SUB_TASKS | AI_SUB_POLICY | AI_SUB_BRIDGE | AI_SUB_UNKNOWN

section \<open>Operations (ai_core.c)\<close>

definition cp :: "char list \<Rightarrow> char list option \<Rightarrow> nat \<Rightarrow> char list" where
  "cp d s mx =
     (if mx = 0 then d
      else case s of None \<Rightarrow> d[0 := NUL] | Some t \<Rightarrow> cstr_copy d t 0 (mx - 1))"

definition eq :: "char list \<Rightarrow> char list \<Rightarrow> bool" where
  "eq a b = cstr_eq_for a b 0"

definition ai_world_init :: "ai_world \<Rightarrow> ai_world" where
  "ai_world_init w =
     w\<lparr>services := map (sv_used_update (\<lambda>_. False)) (services w),
       models := map (md_used_update (\<lambda>_. False)) (models w),
       ai_tasks := map (tk_used_update (\<lambda>_. False)) (ai_tasks w),
       audit := map (au_used_update (\<lambda>_. False)) (audit w),
       perms := AI_PERM_LOCAL_INFER OR AI_PERM_FILE_READ,
       next_task_id := 1, audit_seq := 0, audit_head := 0, audit_total := 0\<rparr>"

definition ai_service_register ::
  "char list \<Rightarrow> char list \<Rightarrow> ai_svc_kind \<Rightarrow> ai_status \<Rightarrow> ai_world \<Rightarrow> int \<times> ai_world" where
  "ai_service_register name endpoint k st w =
     (case find_slot (\<lambda>s. \<not> sv_used s) (services w) of
        None \<Rightarrow> (-1, w)
      | Some i \<Rightarrow>
          (int i, w\<lparr>services := (services w)[i :=
             \<lparr>sv_name = cp (sv_name (services w ! i)) (Some name) AI_NAME_MAX,
              sv_endpoint = cp (sv_endpoint (services w ! i)) (Some endpoint) AI_ENDPOINT_MAX,
              sv_kind = k, sv_status = st, sv_used = True\<rparr>]\<rparr>))"

definition ai_service_count :: "ai_world \<Rightarrow> int" where
  "ai_service_count w = int (count_if sv_used (services w))"

definition ai_service_find :: "ai_world \<Rightarrow> char list \<Rightarrow> int" where
  "ai_service_find w name =
     (case find_slot (\<lambda>s. sv_used s \<and> eq (sv_name s) name) (services w) of None \<Rightarrow> -1 | Some i \<Rightarrow> int i)"

definition ai_model_register :: "char list \<Rightarrow> ai_role \<Rightarrow> ai_model_state \<Rightarrow> ai_world \<Rightarrow> int \<times> ai_world" where
  "ai_model_register name role st w =
     (case find_slot (\<lambda>m. \<not> md_used m) (models w) of
        None \<Rightarrow> (-1, w)
      | Some i \<Rightarrow>
          (int i, w\<lparr>models := (models w)[i :=
             \<lparr>md_name = cp (md_name (models w ! i)) (Some name) AI_NAME_MAX,
              md_role = role, md_state = st, md_used = True\<rparr>]\<rparr>))"

definition ai_model_count :: "ai_world \<Rightarrow> int" where
  "ai_model_count w = int (count_if md_used (models w))"

definition ai_policy_allows :: "ai_world \<Rightarrow> u32 \<Rightarrow> bool" where
  "ai_policy_allows w perm = (perms w AND perm \<noteq> 0)"

definition ai_policy_set :: "u32 \<Rightarrow> bool \<Rightarrow> ai_world \<Rightarrow> ai_world" where
  "ai_policy_set perm allow w = w\<lparr>perms := (if allow then perms w OR perm else perms w AND NOT perm)\<rparr>"

definition task_by_id :: "ai_world \<Rightarrow> int \<Rightarrow> nat option" where
  "task_by_id w tid = find_slot (\<lambda>t. tk_used t \<and> tk_id t = tid) (ai_tasks w)"

definition ai_task_create :: "ai_task_kind \<Rightarrow> int \<Rightarrow> char list \<Rightarrow> ai_world \<Rightarrow> int \<times> ai_world" where
  "ai_task_create kind service label w =
     (case find_slot (\<lambda>t. \<not> tk_used t) (ai_tasks w) of
        None \<Rightarrow> (-1, w)
      | Some i \<Rightarrow>
          (next_task_id w,
           w\<lparr>ai_tasks := (ai_tasks w)[i :=
               \<lparr>tk_id = next_task_id w, tk_service = service, tk_kind = kind, tk_state = AI_TASK_CREATED,
                tk_label = cp (tk_label (ai_tasks w ! i)) (Some label) AI_NAME_MAX, tk_used = True\<rparr>],
             next_task_id := next_task_id w + 1\<rparr>))"

fun valid_transition :: "ai_task_state \<Rightarrow> ai_task_state \<Rightarrow> bool" where
  "valid_transition AI_TASK_CREATED to = (to = AI_TASK_QUEUED \<or> to = AI_TASK_DENIED \<or> to = AI_TASK_FAILED)"
| "valid_transition AI_TASK_QUEUED to = (to = AI_TASK_DISPATCHED \<or> to = AI_TASK_DENIED \<or> to = AI_TASK_FAILED)"
| "valid_transition AI_TASK_DISPATCHED to = (to = AI_TASK_DONE \<or> to = AI_TASK_FAILED)"
| "valid_transition _ to = False"

definition ai_task_set_state :: "int \<Rightarrow> ai_task_state \<Rightarrow> ai_world \<Rightarrow> bool \<times> ai_world" where
  "ai_task_set_state tid to w =
     (case task_by_id w tid of
        None \<Rightarrow> (False, w)
      | Some i \<Rightarrow>
          if \<not> valid_transition (tk_state (ai_tasks w ! i)) to then (False, w)
          else (True, w\<lparr>ai_tasks := (ai_tasks w)[i := (ai_tasks w ! i)\<lparr>tk_state := to\<rparr>]\<rparr>))"

definition ai_task_count :: "ai_world \<Rightarrow> int" where
  "ai_task_count w = int (count_if tk_used (ai_tasks w))"

fun task_get_loop :: "nat \<Rightarrow> nat \<Rightarrow> ai_task list \<Rightarrow> ai_task option" where
  "task_get_loop n idx [] = None"
| "task_get_loop n idx (t # ts) =
     (if tk_used t then (if n = idx then Some t else task_get_loop (n + 1) idx ts) else task_get_loop n idx ts)"

definition ai_task_get :: "ai_world \<Rightarrow> nat \<Rightarrow> ai_task option" where
  "ai_task_get w idx = task_get_loop 0 idx (ai_tasks w)"

definition ai_audit_record :: "char list \<Rightarrow> ai_decision \<Rightarrow> int \<Rightarrow> ai_world \<Rightarrow> ai_world" where
  "ai_audit_record action d tid w =
     (let h = nat (audit_head w)
      in w\<lparr>audit_seq := audit_seq w + 1,
           audit := (audit w)[h :=
             \<lparr>au_seq = audit_seq w + 1, au_action = cp (au_action (audit w ! h)) (Some action) AI_NAME_MAX,
              au_decision = d, au_task_id = tid, au_used = True\<rparr>],
           audit_head := (audit_head w + 1) smod AI_AUDIT_CAP,
           audit_total := (if audit_total w < AI_AUDIT_CAP then audit_total w + 1 else audit_total w)\<rparr>)"

definition ai_audit_count :: "ai_world \<Rightarrow> int" where
  "ai_audit_count w = audit_total w"

definition ai_audit_recent :: "ai_world \<Rightarrow> int \<Rightarrow> ai_audit option" where
  "ai_audit_recent w back =
     (if back < 0 \<or> back \<ge> audit_total w then None
      else let idx = (audit_head w - 1 - back) smod AI_AUDIT_CAP;
               idx1 = (if idx < 0 then idx + AI_AUDIT_CAP else idx)
           in Some (audit w ! nat idx1))"

definition ai_parse_sub :: "char list \<Rightarrow> ai_sub" where
  "ai_parse_sub s =
     (if cget s 0 = NUL then AI_SUB_HELP
      else if eq s ''status'' then AI_SUB_STATUS
      else if eq s ''models'' then AI_SUB_MODELS
      else if eq s ''tasks'' then AI_SUB_TASKS
      else if eq s ''policy'' then AI_SUB_POLICY
      else if eq s ''bridge'' then AI_SUB_BRIDGE
      else if eq s ''help'' then AI_SUB_HELP
      else AI_SUB_UNKNOWN)"

fun ai_status_label :: "ai_status \<Rightarrow> char list" where
  "ai_status_label AI_STAT_DESIGN_ONLY = ''design-only''"
| "ai_status_label AI_STAT_CONFIGURED = ''configured (unverified)''"
| "ai_status_label AI_STAT_REACHABLE = ''reachable''"
| "ai_status_label AI_STAT_UNREACHABLE = ''unreachable''"

fun ai_task_state_label :: "ai_task_state \<Rightarrow> char list" where
  "ai_task_state_label AI_TASK_CREATED = ''created''"
| "ai_task_state_label AI_TASK_QUEUED = ''queued''"
| "ai_task_state_label AI_TASK_DISPATCHED = ''dispatched''"
| "ai_task_state_label AI_TASK_DONE = ''done''"
| "ai_task_state_label AI_TASK_DENIED = ''denied''"
| "ai_task_state_label AI_TASK_FAILED = ''failed''"

fun ai_kind_label :: "ai_svc_kind \<Rightarrow> char list" where
  "ai_kind_label AI_SVC_BRIDGE = ''bridge''"
| "ai_kind_label AI_SVC_LOCAL_RUNTIME = ''local-runtime''"
| "ai_kind_label AI_SVC_TOOL = ''tool''"
| "ai_kind_label AI_SVC_NONE = ''none''"

section \<open>The invariant\<close>

definition world_inv :: "ai_world \<Rightarrow> bool" where
  "world_inv w \<longleftrightarrow> length (services w) = AI_MAX_SERVICES \<and> length (models w) = AI_MAX_MODELS \<and>
     length (ai_tasks w) = AI_MAX_TASKS \<and> length (audit w) = 32 \<and> 1 \<le> next_task_id w \<and>
     (\<forall>t \<in> set (ai_tasks w). tk_used t \<longrightarrow> 1 \<le> tk_id t \<and> tk_id t < next_task_id w) \<and>
     (\<forall>i < length (ai_tasks w). \<forall>j < length (ai_tasks w). i \<noteq> j \<longrightarrow>
        tk_used (ai_tasks w ! i) \<longrightarrow> tk_used (ai_tasks w ! j) \<longrightarrow> tk_id (ai_tasks w ! i) \<noteq> tk_id (ai_tasks w ! j))"

text \<open>Every call of the core, in any order.\<close>

inductive ai_step :: "ai_world \<Rightarrow> ai_world \<Rightarrow> bool" where
  step_service: "ai_step w (snd (ai_service_register name endpoint k st w))"
| step_model: "ai_step w (snd (ai_model_register name role ms w))"
| step_policy: "ai_step w (ai_policy_set perm allow w)"
| step_create: "ai_step w (snd (ai_task_create kind service label w))"
| step_state: "ai_step w (snd (ai_task_set_state tid to w))"
| step_audit: "ai_step w (ai_audit_record action d tid w)"

inductive ai_reach :: "ai_world \<Rightarrow> ai_world \<Rightarrow> bool" where
  reach_refl: "ai_reach w w"
| reach_step: "ai_reach w w1 \<Longrightarrow> ai_step w1 w2 \<Longrightarrow> ai_reach w w2"

text \<open>The state of the task with an id.\<close>

definition task_state_of :: "ai_world \<Rightarrow> int \<Rightarrow> ai_task_state option" where
  "task_state_of w tid = map_option (\<lambda>i. tk_state (ai_tasks w ! i)) (task_by_id w tid)"

definition terminal :: "ai_task_state \<Rightarrow> bool" where
  "terminal st \<longleftrightarrow> st \<in> {AI_TASK_DONE, AI_TASK_DENIED, AI_TASK_FAILED}"

lemma terminal_no_transition: "terminal st \<Longrightarrow> \<not> valid_transition st to"
  by (auto simp: terminal_def)

lemma world_invD:
  assumes "world_inv w"
  shows "length (services w) = 8" "length (models w) = 12" "length (ai_tasks w) = 16" "length (audit w) = 32"
    "1 \<le> next_task_id w" "\<And>i. i < 16 \<Longrightarrow> tk_used (ai_tasks w ! i) \<Longrightarrow> 1 \<le> tk_id (ai_tasks w ! i) \<and> tk_id (ai_tasks w ! i) < next_task_id w"
    "\<And>i j. i < 16 \<Longrightarrow> j < 16 \<Longrightarrow> i \<noteq> j \<Longrightarrow> tk_used (ai_tasks w ! i) \<Longrightarrow> tk_used (ai_tasks w ! j) \<Longrightarrow>
      tk_id (ai_tasks w ! i) \<noteq> tk_id (ai_tasks w ! j)"
  using assms by (auto simp: world_inv_def AI_MAX_SERVICES_def AI_MAX_MODELS_def AI_MAX_TASKS_def)

lemma world_invI:
  assumes "length (services w) = 8" "length (models w) = 12" "length (ai_tasks w) = 16" "length (audit w) = 32"
    "1 \<le> next_task_id w" "\<And>i. i < 16 \<Longrightarrow> tk_used (ai_tasks w ! i) \<Longrightarrow> 1 \<le> tk_id (ai_tasks w ! i) \<and> tk_id (ai_tasks w ! i) < next_task_id w"
    "\<And>i j. i < 16 \<Longrightarrow> j < 16 \<Longrightarrow> i \<noteq> j \<Longrightarrow> tk_used (ai_tasks w ! i) \<Longrightarrow> tk_used (ai_tasks w ! j) \<Longrightarrow>
      tk_id (ai_tasks w ! i) \<noteq> tk_id (ai_tasks w ! j)"
  shows "world_inv w"
  using assms by (auto simp: world_inv_def AI_MAX_SERVICES_def AI_MAX_MODELS_def AI_MAX_TASKS_def in_set_conv_nth)

lemma task_by_id_iff:
  assumes "world_inv w"
  shows "task_by_id w tid = Some i \<longleftrightarrow> i < 16 \<and> tk_used (ai_tasks w ! i) \<and> tk_id (ai_tasks w ! i) = tid"
  using world_invD(3,7) [OF assms] by (auto simp: task_by_id_def find_slot_Some_iff)

lemma task_state_of_iff:
  assumes "world_inv w"
  shows "task_state_of w tid = Some st \<longleftrightarrow>
    (\<exists>i < 16. tk_used (ai_tasks w ! i) \<and> tk_id (ai_tasks w ! i) = tid \<and> tk_state (ai_tasks w ! i) = st)"
  by (auto simp: task_state_of_def task_by_id_iff [OF assms])

text \<open>A step either leaves the tasks alone, adds one under a fresh id, or moves one along an edge.\<close>

lemma ai_step_cases:
  assumes "world_inv w" "ai_step w w'"
  obtains (same) "ai_tasks w' = ai_tasks w" "next_task_id w' = next_task_id w" "length (services w') = 8"
      "length (models w') = 12" "length (audit w') = 32"
  | (create) i t where "i < 16" "\<not> tk_used (ai_tasks w ! i)" "ai_tasks w' = (ai_tasks w)[i := t]"
      "tk_id t = next_task_id w" "next_task_id w' = next_task_id w + 1" "length (services w') = 8"
      "length (models w') = 12" "length (audit w') = 32" "tk_state t = AI_TASK_CREATED"
  | (move) i to where "i < 16" "tk_used (ai_tasks w ! i)" "valid_transition (tk_state (ai_tasks w ! i)) to"
      "ai_tasks w' = (ai_tasks w)[i := (ai_tasks w ! i)\<lparr>tk_state := to\<rparr>]" "next_task_id w' = next_task_id w"
      "length (services w') = 8" "length (models w') = 12" "length (audit w') = 32"
proof -
  note len = world_invD(1-4) [OF assms(1)]
  from assms(2) show thesis
  proof cases
    case (step_create kind service label)
    show thesis
    proof (cases "find_slot (\<lambda>t. \<not> tk_used t) (ai_tasks w)")
      case None
      then show thesis using same step_create len by (simp add: ai_task_create_def)
    next
      case (Some i)
      then have "i < 16" "\<not> tk_used (ai_tasks w ! i)" using find_slot_SomeD len(3) by fastforce+
      then show thesis using create [of i] step_create Some len by (simp add: ai_task_create_def)
    qed
  next
    case (step_state tid to)
    show thesis
    proof (cases "\<exists>i. task_by_id w tid = Some i \<and> valid_transition (tk_state (ai_tasks w ! i)) to")
      case True
      then obtain i where i: "task_by_id w tid = Some i" "valid_transition (tk_state (ai_tasks w ! i)) to" by blast
      then have "i < 16" "tk_used (ai_tasks w ! i)" using task_by_id_iff [OF assms(1)] by auto
      then show thesis using move [of i to] i step_state len by (simp add: ai_task_set_state_def)
    next
      case False
      then have "w' = w" using step_state by (auto simp: ai_task_set_state_def split: option.splits)
      then show thesis using same len by simp
    qed
  qed (use same len in \<open>auto simp: ai_service_register_def ai_model_register_def ai_policy_set_def
      ai_audit_record_def Let_def split: option.splits\<close>)
qed

lemma ai_step_inv:
  assumes "world_inv w" "ai_step w w'"
  shows "world_inv w'"
  using assms
proof (cases rule: ai_step_cases)
  case same
  then show ?thesis using world_invD [OF assms(1)] by (intro world_invI) auto
next
  case (create i t)
  note D = world_invD [OF assms(1)]
  have nth: "ai_tasks w' ! j = (if j = i then t else ai_tasks w ! j)" if "j < 16" for j
    using create(3) D(3) that by (simp add: nth_list_update)
  show ?thesis
  proof (rule world_invI)
    fix j assume j: "j < 16" "tk_used (ai_tasks w' ! j)"
    show "1 \<le> tk_id (ai_tasks w' ! j) \<and> tk_id (ai_tasks w' ! j) < next_task_id w'"
      using j nth [OF j(1)] create(4,5) D(5) D(6) [of j] by (cases "j = i") auto
  next
    fix j k assume jk: "j < 16" "k < 16" "j \<noteq> k" "tk_used (ai_tasks w' ! j)" "tk_used (ai_tasks w' ! k)"
    show "tk_id (ai_tasks w' ! j) \<noteq> tk_id (ai_tasks w' ! k)"
      using jk nth [OF jk(1)] nth [OF jk(2)] create(4) D(6) [of j] D(6) [of k] D(7) [of j k]
      by (cases "j = i"; cases "k = i") auto
  qed (use create D in simp_all)
next
  case (move i to)
  note D = world_invD [OF assms(1)]
  have nth: "tk_id (ai_tasks w' ! j) = tk_id (ai_tasks w ! j)" "tk_used (ai_tasks w' ! j) = tk_used (ai_tasks w ! j)"
    if "j < 16" for j using move(1,4) D(3) that by (cases "j = i"; simp)+
  show ?thesis using move D nth by (intro world_invI) simp_all
qed

lemma ai_step_task:
  assumes "world_inv w" "ai_step w w'" "task_state_of w tid = Some st"
  shows "\<exists>st'. task_state_of w' tid = Some st' \<and> (st' = st \<or> valid_transition st st')"
proof -
  note inv' = ai_step_inv [OF assms(1,2)] and D = world_invD [OF assms(1)]
  obtain k where k: "k < 16" "tk_used (ai_tasks w ! k)" "tk_id (ai_tasks w ! k) = tid" "tk_state (ai_tasks w ! k) = st"
    using assms(1,3) by (auto simp: task_state_of_iff)
  from assms(1,2) show ?thesis
  proof (cases rule: ai_step_cases)
    case same
    then show ?thesis using k by (auto simp: task_state_of_iff [OF inv'])
  next
    case (create i t)
    then have "ai_tasks w' ! k = ai_tasks w ! k" using k(2) D(3) k(1) by (cases "i = k") auto
    then have "task_state_of w' tid = Some st" using k unfolding task_state_of_iff [OF inv'] by auto
    then show ?thesis by blast
  next
    case (move i to)
    have "ai_tasks w' ! k = (if k = i then (ai_tasks w ! k)\<lparr>tk_state := to\<rparr> else ai_tasks w ! k)"
      using move(4) D(3) k(1) by (simp add: nth_list_update)
    then have "task_state_of w' tid = Some (if k = i then to else st)"
      using k unfolding task_state_of_iff [OF inv'] by (cases "k = i") auto
    then show ?thesis using k(4) move(3) by auto
  qed
qed

lemma ai_world_init_inv:
  assumes "length (services w) = 8" "length (models w) = 12" "length (ai_tasks w) = 16" "length (audit w) = 32"
  shows "world_inv (ai_world_init w)"
  using assms by (intro world_invI) (simp_all add: ai_world_init_def)

section \<open>The audit ring\<close>

definition audit_inv :: "ai_world \<Rightarrow> bool" where
  "audit_inv w \<longleftrightarrow> length (audit w) = 32 \<and> audit_head w = int (unat (audit_seq w) mod 32) \<and>
     audit_total w = int (min 32 (unat (audit_seq w)))"

text \<open>What a record shows: its number, decision and task.\<close>

definition audit_view :: "ai_audit \<Rightarrow> nat \<times> ai_decision \<times> int" where
  "audit_view e = (unat (au_seq e), au_decision e, au_task_id e)"

lemma smod_32: "0 \<le> (a :: int) \<Longrightarrow> a smod 32 = a mod 32"
  by (auto simp: smod_int_alt_def sgn_if)

lemma smod_32_adjust: "(if (k :: int) smod 32 < 0 then k smod 32 + 32 else k smod 32) = k mod 32"
proof (cases "0 \<le> k")
  case False
  define m where "m = - k"
  have "k smod 32 = - (m mod 32)" using False by (simp add: smod_int_alt_def m_def sgn_if)
  moreover have "k mod 32 = (if m mod 32 = 0 then 0 else 32 - m mod 32)"
    using zmod_zminus1_eq_if [of m 32] by (simp add: m_def)
  moreover have "0 \<le> m mod 32" by simp
  ultimately show ?thesis by (cases "m mod 32 = 0") auto
qed (simp add: smod_32)

interpretation trail: ring_log 32 4294967295 audit_inv "\<lambda>w. unat (audit_seq w)" "\<lambda>w j. audit_view (audit w ! j)"
  "\<lambda>(action, d, tid) n. (Suc n, d, tid)" "\<lambda>(action, d, tid). ai_audit_record action d tid"
proof unfold_locales
  fix w :: ai_world and a :: "char list \<times> ai_decision \<times> int"
  obtain action d tid where a: "a = (action, d, tid)" by (cases a)
  assume inv: "audit_inv w" and lim: "unat (audit_seq w) < 4294967295"
  have u: "unat (audit_seq w + 1) = Suc (unat (audit_seq w))" using lim by (intro unat_Suc_u32) simp
  have h: "(audit_head w + 1) smod 32 = int (Suc (unat (audit_seq w)) mod 32)"
    using inv by (simp add: audit_inv_def smod_32 zmod_int mod_simps ac_simps)
  show "unat (audit_seq ((case a of (action, d, tid) \<Rightarrow> ai_audit_record action d tid) w)) = Suc (unat (audit_seq w))"
    by (simp add: a ai_audit_record_def Let_def u)
  show "audit_inv ((case a of (action, d, tid) \<Rightarrow> ai_audit_record action d tid) w)"
    using inv h by (auto simp: a ai_audit_record_def Let_def audit_inv_def AI_AUDIT_CAP_def u)
  show "audit_view (audit ((case a of (action, d, tid) \<Rightarrow> ai_audit_record action d tid) w) ! j) =
      (if j = unat (audit_seq w) mod 32 then (case a of (action, d, tid) \<Rightarrow> \<lambda>n. (Suc n, d, tid)) (unat (audit_seq w))
       else audit_view (audit w ! j))" if "j < 32" for j
    using inv that u by (auto simp: a ai_audit_record_def Let_def audit_inv_def audit_view_def nth_list_update)
qed simp

lemma audit_recent_slot:
  assumes "audit_inv w" "back < min 32 (unat (audit_seq w))"
  shows "ai_audit_recent w (int back) = Some (audit w ! ((unat (audit_seq w) - 1 - back) mod 32))"
proof -
  define n where "n = unat (audit_seq w)"
  have h: "audit_head w = int (n mod 32)" "audit_total w = int (min 32 n)" using assms(1) by (simp_all add: audit_inv_def n_def)
  have b: "back < 32" "back < n" using assms(2) by (simp_all add: n_def)
  note i = smod_32_adjust [of "audit_head w - 1 - int back", unfolded h(1)]
  have "(int (n mod 32) - 1 - int back) mod 32 = int ((n - 1 - back) mod 32)"
    using b by (simp add: zmod_int of_nat_diff mod_diff_left_eq diff_diff_eq)
  with i have idx: "nat (if (audit_head w - 1 - int back) smod 32 < 0 then (audit_head w - 1 - int back) smod 32 + 32
      else (audit_head w - 1 - int back) smod 32) = (n - 1 - back) mod 32" unfolding h(1) by simp
  show ?thesis using h(2) b unfolding n_def [symmetric] ai_audit_recent_def Let_def AI_AUDIT_CAP_def idx by auto
qed

section \<open>Properties\<close>

text \<open>
  C22: whatever calls follow, in any order, the world keeps its invariant (task ids are
  positive and pairwise distinct), every task keeps existing, its state only moves along the
  allowed transitions, and once it is done, denied or failed it never changes again.
\<close>

theorem ai_task_lifecycle:
  assumes "world_inv w" "ai_reach w w'" "task_state_of w tid = Some st"
  shows "world_inv w' \<and> (\<exists>st'. task_state_of w' tid = Some st' \<and> valid_transition\<^sup>*\<^sup>* st st' \<and> (terminal st \<longrightarrow> st' = st))"
  using assms(2,1,3)
proof (induction rule: ai_reach.induct)
  case (reach_step w w1 w2)
  then obtain s1 where s1: "world_inv w1" "task_state_of w1 tid = Some s1" "valid_transition\<^sup>*\<^sup>* st s1"
    "terminal st \<longrightarrow> s1 = st" by blast
  from ai_step_task [OF s1(1) reach_step.hyps(2) s1(2)] obtain s2 where
    s2: "task_state_of w2 tid = Some s2" "s2 = s1 \<or> valid_transition s1 s2" by blast
  then show ?case using s1 ai_step_inv [OF s1(1) reach_step.hyps(2)] terminal_no_transition [of st s2]
    by (auto intro: rtranclp.rtrancl_into_rtrancl)
qed simp

definition blank_world :: ai_world where
  "blank_world =
     \<lparr>services = replicate 8 \<lparr>sv_name = replicate 28 NUL, sv_endpoint = replicate 48 NUL, sv_kind = AI_SVC_NONE,
        sv_status = AI_STAT_DESIGN_ONLY, sv_used = False\<rparr>,
      models = replicate 12 \<lparr>md_name = replicate 28 NUL, md_role = AI_ROLE_CHAT, md_state = AI_MODEL_DECLARED, md_used = False\<rparr>,
      ai_tasks = replicate 16 \<lparr>tk_id = 0, tk_service = 0, tk_kind = AI_KIND_CHAT, tk_state = AI_TASK_CREATED,
        tk_label = replicate 28 NUL, tk_used = False\<rparr>,
      audit = replicate 32 \<lparr>au_seq = 0, au_action = replicate 28 NUL, au_decision = AI_AUDIT_ALLOW, au_task_id = 0, au_used = False\<rparr>,
      perms = 0, next_task_id = 0, audit_seq = 0, audit_head = 0, audit_total = 0\<rparr>"

lemma blank_world_init: "world_inv (ai_world_init blank_world)" "audit_inv (ai_world_init blank_world)"
  by (rule ai_world_init_inv) (simp_all add: blank_world_def audit_inv_def ai_world_init_def)

theorem ai_task_lifecycle_witness:
  "\<exists>w w'. ai_reach w w' \<and> task_state_of w 1 = Some AI_TASK_FAILED \<and> task_state_of w' 1 = Some AI_TASK_FAILED"
proof -
  define w0 where "w0 = ai_world_init blank_world"
  define w1 where "w1 = snd (ai_task_create AI_KIND_CHAT 0 ''x'' w0)"
  define w2 where "w2 = snd (ai_task_set_state 1 AI_TASK_FAILED w1)"
  define w3 where "w3 = snd (ai_task_set_state 1 AI_TASK_DONE w2)"
  have "ai_step w0 w1" "ai_step w1 w2" "ai_step w2 w3" unfolding w1_def w2_def w3_def by (rule ai_step.intros)+
  moreover have "world_inv w0" unfolding w0_def by (rule blank_world_init)
  ultimately have inv: "world_inv w2" and r: "ai_reach w2 w3"
    using ai_step_inv [of w0 w1] ai_step_inv [of w1 w2] reach_step [OF reach_refl] by blast+
  have st: "task_state_of w2 1 = Some AI_TASK_FAILED" unfolding w2_def w1_def w0_def by code_simp
  then show ?thesis using ai_task_lifecycle [OF inv r st] r by (auto simp: terminal_def)
qed

text \<open>
  after any series of fewer than \<open>2 ^ 32\<close> records, looking back \<open>k\<close> steps in the audit
  trail returns the \<open>k\<close>-th newest record with its number, decision and task, for every \<open>k\<close>
  below the number of records and the capacity of 32, and nothing beyond.
\<close>

theorem ai_audit_newest_first:
  assumes "audit_inv w" "audit_seq w = 0" "length es < 4294967296"
  shows "ai_audit_count (fold (\<lambda>(a, d, tid). ai_audit_record a d tid) es w) = int (min 32 (length es)) \<and>
     (\<forall>k. map_option audit_view (ai_audit_recent (fold (\<lambda>(a, d, tid). ai_audit_record a d tid) es w) (int k)) =
       (if k < min 32 (length es)
        then (case es ! (length es - 1 - k) of (a, d, tid) \<Rightarrow> Some (length es - k, d, tid)) else None))"
proof -
  define w' where "w' = fold (\<lambda>(a, d, tid). ai_audit_record a d tid) es w"
  have n: "audit_inv w'" "unat (audit_seq w') = length es"
    using trail.pushes [OF assms(1), of es] assms(2,3) by (simp_all add: w'_def)
  have tot: "audit_total w' = int (min 32 (length es))" using n by (simp add: audit_inv_def)
  have "map_option audit_view (ai_audit_recent w' (int k)) = (if k < min 32 (length es)
      then (case es ! (length es - 1 - k) of (a, d, tid) \<Rightarrow> Some (length es - k, d, tid)) else None)" for k
  proof (cases "k < min 32 (length es)")
    case True
    let ?i = "length es - 1 - k"
    have "audit_view (audit w' ! (?i mod 32)) = (case es ! ?i of (a, d, tid) \<Rightarrow> \<lambda>n. (Suc n, d, tid)) ?i"
      unfolding w'_def by (rule trail.recent [OF assms(1)]) (use assms(2,3) True in auto)
    moreover have "ai_audit_recent w' (int k) = Some (audit w' ! (?i mod 32))"
      using audit_recent_slot [OF n(1), of k] True n(2) by simp
    moreover have "Suc ?i = length es - k" using True by linarith
    ultimately show ?thesis using True by (simp split: prod.splits)
  next
    case False
    then have "audit_total w' \<le> int k" using tot by linarith
    then have "ai_audit_recent w' (int k) = None" by (simp add: ai_audit_recent_def)
    then show ?thesis using False by auto
  qed
  then show ?thesis using tot unfolding w'_def by (simp add: ai_audit_count_def)
qed

theorem ai_audit_newest_first_witness:
  "map_option audit_view (ai_audit_recent (fold (\<lambda>(a, d, tid). ai_audit_record a d tid)
     [(''x'', AI_AUDIT_ALLOW, 5), (''y'', AI_AUDIT_DENY, 6)] (ai_world_init blank_world)) (int 1)) = Some (1, AI_AUDIT_ALLOW, 5)"
proof -
  have z: "audit_seq (ai_world_init blank_world) = 0" by (simp add: ai_world_init_def)
  note f = ai_audit_newest_first [OF blank_world_init(2) z, of "[(''x'', AI_AUDIT_ALLOW, 5), (''y'', AI_AUDIT_DENY, 6)]"]
  show ?thesis using f [THEN conjunct2, rule_format, of 1] by (simp del: fold_simps)
qed

end
