(* ===== verification/Kprintf.thy ===== *)
theory Kprintf
  imports Ring_Log
begin

text \<open>
  Formatted output and the kernel log (\<open>kernel/core/kprintf.c\<close>). Output is modelled as
  the characters passed to the console sink, in order; \<open>kputc\<close> also captures each of them
  in the log ring that \<open>dmesg\<close> replays. The lemmas show that numbers print as their
  digits and that the log replays the newest characters.
\<close>

section \<open>The console and the kernel log\<close>

definition KLOG_CAP :: u32 where "KLOG_CAP = 8192"

text \<open>\<open>sunk\<close> holds the characters handed to \<open>raw_putc\<close>, oldest first.\<close>

record console =
  sunk :: "char list"
  klog_buf :: "char list"
  klog_w :: u32

definition raw_putc :: "char \<Rightarrow> console \<Rightarrow> console" where
  "raw_putc c s = s\<lparr>sunk := sunk s @ [c]\<rparr>"

definition kputc :: "char \<Rightarrow> console \<Rightarrow> console" where
  "kputc c s =
     (let s1 = raw_putc c s
      in s1\<lparr>klog_buf := (klog_buf s1)[unat (klog_w s1 mod KLOG_CAP) := c], klog_w := klog_w s1 + 1\<rparr>)"

definition klog_dump :: "console \<Rightarrow> console" where
  "klog_dump s =
     (let total = klog_w s;
          start = (if total > KLOG_CAP then total - KLOG_CAP else 0)
      in fold (\<lambda>i. raw_putc (klog_buf s ! unat (word_of_nat i mod KLOG_CAP))) [unat start..<unat total] s)"

definition kputs :: "char list \<Rightarrow> console \<Rightarrow> console" where
  "kputs str s = fold kputc (cstr str) s"

section \<open>Numbers\<close>

definition digit_char :: "bool \<Rightarrow> u32 \<Rightarrow> char" where
  "digit_char upper d = (if upper then ''0123456789ABCDEF'' else ''0123456789abcdef'') ! unat d"

text \<open>\<open>while (value > 0) \<dots>\<close>: the base is 10 or 16; below 2 the C loop would not end.\<close>

function digit_loop :: "u32 \<Rightarrow> bool \<Rightarrow> u32 \<Rightarrow> char list \<Rightarrow> char list" where
  "digit_loop base upper value buf =
     (if 0 < value \<and> 2 \<le> base
      then digit_loop base upper (value div base) (buf @ [digit_char upper (value mod base)])
      else buf)"
  by pat_completeness auto

lemma unat_div_less:
  assumes "0 < (v :: u32)" "2 \<le> b"
  shows "unat (v div b) < unat v"
proof -
  have "2 \<le> unat b" "0 < unat v" using assms by (simp_all add: word_le_nat_alt word_less_nat_alt)
  then show ?thesis by (simp add: unat_div)
qed

termination digit_loop
  by (relation "measure (\<lambda>(b, u, v, buf). unat v)") (auto simp: unat_div_less)

declare digit_loop.simps [simp del]

text \<open>
  \<open>char buf[32]\<close> is filled backwards: the digits, then zeros up to \<open>pad\<close>. \<open>None\<close> when the
  padding would run over the end of the buffer.
\<close>

definition print_uint :: "u32 \<Rightarrow> u32 \<Rightarrow> bool \<Rightarrow> nat \<Rightarrow> char list option" where
  "print_uint value base upper pad =
     (let buf = (if value = 0 then ''0'' else digit_loop base upper value []);
          buf1 = buf @ replicate (pad - length buf) (CHR ''0'')
      in if 32 < length buf1 then None else Some (rev buf1))"

definition print_int :: "u32 \<Rightarrow> char list option" where
  "print_int value =
     (if sint value < 0 then map_option (Cons (CHR ''-'')) (print_uint (word_of_int (- sint value)) 10 False 0)
      else print_uint value 10 False 0)"

section \<open>kprintf\<close>

text \<open>
  The variable arguments are a list of strings (\<open>None\<close> is NULL) and 32-bit values. The
  result is the text passed to \<open>kputc\<close>; \<open>None\<close> where C is undefined: an argument missing
  or of the wrong sort, or a width that overruns the digit buffer.
\<close>

datatype karg = KStr "char list option" | KNum u32

fun take_num :: "karg list \<Rightarrow> (u32 \<times> karg list) option" where
  "take_num (KNum v # args) = Some (v, args)"
| "take_num args = None"

fun take_str :: "karg list \<Rightarrow> (char list \<times> karg list) option" where
  "take_str (KStr s # args) = Some (case s of None \<Rightarrow> ''(null)'' | Some t \<Rightarrow> cstr t, args)"
| "take_str args = None"

definition is_digit :: "char \<Rightarrow> bool" where
  "is_digit c = (of_char (CHR ''0'') \<le> (of_char c :: nat) \<and> (of_char c :: nat) \<le> of_char (CHR ''9''))"

fun width_loop :: "nat \<Rightarrow> char list \<Rightarrow> nat \<times> char list" where
  "width_loop pad [] = (pad, [])"
| "width_loop pad (c # f) =
     (if is_digit c then width_loop (pad * 10 + (of_char c - of_char (CHR ''0''))) f else (pad, c # f))"

definition parse_width :: "char list \<Rightarrow> nat \<times> char list" where
  "parse_width f = (case f of c # f' \<Rightarrow> if c = CHR ''0'' then width_loop 0 f' else (0, f) | [] \<Rightarrow> (0, []))"

text \<open>One conversion: the text of the directive letter and the remaining arguments.\<close>

definition convert :: "nat \<Rightarrow> char \<Rightarrow> karg list \<Rightarrow> (char list \<times> karg list) option" where
  "convert pad d args =
     (if d = CHR ''s'' then take_str args
      else if d = CHR ''c'' then map_option (\<lambda>(v, r). ([char_of (unat v)], r)) (take_num args)
      else if d = CHR ''d'' \<or> d = CHR ''i'' then
        Option.bind (take_num args) (\<lambda>(v, r). map_option (\<lambda>t. (t, r)) (print_int v))
      else if d = CHR ''u'' then
        Option.bind (take_num args) (\<lambda>(v, r). map_option (\<lambda>t. (t, r)) (print_uint v 10 False pad))
      else if d = CHR ''x'' then
        Option.bind (take_num args) (\<lambda>(v, r). map_option (\<lambda>t. (t, r)) (print_uint v 16 False pad))
      else if d = CHR ''X'' then
        Option.bind (take_num args) (\<lambda>(v, r). map_option (\<lambda>t. (t, r)) (print_uint v 16 True pad))
      else if d = CHR ''p'' then
        Option.bind (take_num args) (\<lambda>(v, r). map_option (\<lambda>t. (''0x'' @ t, r)) (print_uint v 16 False 8))
      else if d = CHR ''%'' then Some (''%'', args)
      else Some ([CHR ''%'', d], args))"

lemma width_loop_length: "length (snd (width_loop pad f)) \<le> length f"
  by (induction f arbitrary: pad) (auto intro: le_SucI)

lemma parse_width_length: "length (snd (parse_width f)) \<le> length f"
  using width_loop_length by (auto simp: parse_width_def split: list.splits intro: le_SucI)

function kformat :: "char list \<Rightarrow> karg list \<Rightarrow> char list option" where
  "kformat f args =
     (case f of
        [] \<Rightarrow> Some []
      | c # f1 \<Rightarrow>
          if c = NUL then Some []
          else if c \<noteq> CHR ''%'' then map_option (Cons c) (kformat f1 args)
          else (case snd (parse_width f1) of
                  [] \<Rightarrow> Some []
                | d # f2 \<Rightarrow>
                    if d = NUL then Some []
                    else (case convert (fst (parse_width f1)) d args of
                            None \<Rightarrow> None
                          | Some (t, r) \<Rightarrow> map_option (append t) (kformat f2 r))))"
  by pat_completeness auto

lemma parse_width_shorter: "snd (parse_width f) = d # f2 \<Longrightarrow> length f2 < length f"
  using parse_width_length [of f] by simp

termination kformat
  by (relation "measure (\<lambda>(f, args). length f)") (auto dest: parse_width_shorter intro: less_SucI)

declare kformat.simps [simp del]

definition kprintf :: "char list \<Rightarrow> karg list \<Rightarrow> console \<Rightarrow> console option" where
  "kprintf f args s = map_option (\<lambda>t. fold kputc t s) (kformat f args)"

text \<open>The newline that ends most formats.\<close>

definition NL :: "char list" where "NL = [CHR 0x0A]"

abbreviation ks :: "char list \<Rightarrow> karg" where "ks s \<equiv> KStr (Some s)"

abbreviation ki :: "int \<Rightarrow> karg" where "ki i \<equiv> KNum (word_of_int i)"

section \<open>Digits\<close>

text \<open>The value of a digit string, most significant digit first.\<close>

definition digit_val :: "char \<Rightarrow> nat" where
  "digit_val c =
     (if is_digit c then of_char c - 48
      else if of_char (CHR ''a'') \<le> (of_char c :: nat) then of_char c - 87 else of_char c - 55)"

definition undigits :: "nat \<Rightarrow> char list \<Rightarrow> nat" where
  "undigits b t = foldl (\<lambda>n c. n * b + digit_val c) 0 t"

text \<open>The value of a digit list, least significant first.\<close>

definition horner :: "nat \<Rightarrow> nat list \<Rightarrow> nat" where
  "horner b ds = foldr (\<lambda>d n. d + b * n) ds 0"

lemma horner_simps [simp]: "horner b [] = 0" "horner b (d # ds) = d + b * horner b ds"
  by (simp_all add: horner_def)

lemma horner_append_zeros [simp]: "horner b (ds @ replicate n 0) = horner b ds"
proof (induction ds)
  case Nil
  show ?case by (induction n) simp_all
qed simp

lemma horner_last: "ds \<noteq> [] \<Longrightarrow> last ds \<noteq> 0 \<Longrightarrow> b ^ (length ds - 1) \<le> horner b ds"
proof (induction ds)
  case (Cons d ds)
  show ?case
  proof (cases "ds = []")
    case False
    then have "b ^ length (d # ds) = b * b ^ length ds" "b * b ^ (length ds - 1) = b ^ length ds"
      by (simp_all add: power_eq_if)
    then show ?thesis using Cons False mult_le_mono2 [of "b ^ (length ds - 1)" "horner b ds" b] by simp
  qed (use Cons in simp)
qed simp

lemma digit_val_char:
  assumes "d < 16"
  shows "digit_val (digit_char upper (word_of_nat d)) = d"
proof -
  have "\<forall>d < 16. digit_val (digit_char True (word_of_nat d)) = d \<and> digit_val (digit_char False (word_of_nat d)) = d"
    by code_simp
  then show ?thesis using assms by (cases upper) auto
qed

lemma undigits_rev:
  assumes "\<forall>d \<in> set ds. d < 16"
  shows "undigits b (rev (map (\<lambda>d. digit_char upper (word_of_nat d)) ds)) = horner b ds"
  using assms by (induction ds) (auto simp: undigits_def digit_val_char ac_simps)

lemma digit_loop_digits:
  assumes "2 \<le> base" "base \<le> 16"
  shows "\<exists>ds. digit_loop base upper v buf = buf @ map (\<lambda>d. digit_char upper (word_of_nat d)) ds \<and>
    (\<forall>d \<in> set ds. d < unat base) \<and> horner (unat base) ds = unat v \<and> (v \<noteq> 0 \<longrightarrow> ds \<noteq> [] \<and> last ds \<noteq> 0)"
  using assms
proof (induction base upper v buf rule: digit_loop.induct)
  case (1 base upper v buf)
  show ?case
  proof (cases "v = 0")
    case True
    then show ?thesis by (intro exI [of _ "[]"]) (simp add: digit_loop.simps)
  next
    case False
    then have v: "0 < v" by (simp add: word_neq_0_conv)
    then obtain ds where ds: "digit_loop base upper (v div base) (buf @ [digit_char upper (v mod base)]) =
        (buf @ [digit_char upper (v mod base)]) @ map (\<lambda>d. digit_char upper (word_of_nat d)) ds"
        "\<forall>d \<in> set ds. d < unat base" "horner (unat base) ds = unat (v div base)"
        "v div base \<noteq> 0 \<longrightarrow> ds \<noteq> [] \<and> last ds \<noteq> 0"
      using 1 by blast
    have b: "2 \<le> unat base" using 1(2) by (simp add: word_le_nat_alt)
    let ?d = "unat (v mod base)"
    have "digit_loop base upper v buf = buf @ map (\<lambda>d. digit_char upper (word_of_nat d)) (?d # ds)"
      using ds(1) v 1(2) by (simp add: digit_loop.simps [of base upper v])
    moreover have "\<forall>d \<in> set (?d # ds). d < unat base" using ds(2) b by (simp add: unat_mod)
    moreover have h: "horner (unat base) (?d # ds) = unat v" using ds(3) by (simp add: unat_mod unat_div)
    moreover have "last (?d # ds) \<noteq> 0"
    proof (cases "ds = []")
      case True
      then show ?thesis using h False by (simp add: unat_eq_0)
    next
      case ne: False
      show ?thesis
      proof (cases "v div base = 0")
        case True
        then have "digit_loop base upper (v div base) (buf @ [digit_char upper (v mod base)]) =
            buf @ [digit_char upper (v mod base)]" by (simp add: digit_loop.simps)
        then show ?thesis using ds(1) ne by simp
      qed (use ds(4) ne in simp)
    qed
    ultimately show ?thesis by (intro exI [of _ "?d # ds"]) simp
  qed
qed

lemma digit_count:
  assumes "2 \<le> b" "ds \<noteq> []" "last ds \<noteq> 0" "horner b ds < 4294967296"
  shows "length ds \<le> 32"
proof (rule ccontr)
  assume "\<not> ?thesis"
  then have "(2 :: nat) ^ 32 \<le> 2 ^ (length ds - 1)" by (intro power_increasing) simp_all
  also have "\<dots> \<le> b ^ (length ds - 1)" using assms(1) by (intro power_mono) simp_all
  also have "\<dots> \<le> horner b ds" using assms(2,3) by (rule horner_last)
  finally show False using assms(4) by simp
qed

lemma print_uint_digit_list:
  assumes "2 \<le> base" "base \<le> 16"
  obtains ds where "\<forall>d \<in> set ds. d < unat base" "horner (unat base) ds = unat v" "length ds \<le> 32" "ds \<noteq> []"
    "v \<noteq> 0 \<longrightarrow> last ds \<noteq> 0"
    "(if v = 0 then ''0'' else digit_loop base upper v []) = map (\<lambda>d. digit_char upper (word_of_nat d)) ds"
proof (cases "v = 0")
  case True
  have "digit_char upper 0 = CHR ''0''" by (simp add: digit_char_def)
  then show thesis using that [of "[0]"] True assms by (simp add: word_le_nat_alt)
next
  case False
  from digit_loop_digits [OF assms, of upper v "[]"] obtain ds where
    "digit_loop base upper v [] = map (\<lambda>d. digit_char upper (word_of_nat d)) ds" "\<forall>d \<in> set ds. d < unat base"
    "horner (unat base) ds = unat v" "ds \<noteq> []" "last ds \<noteq> 0" using False by auto
  then show thesis using that [of ds] digit_count [of "unat base" ds] assms(1) False unat_u32_less [of v]
    by (simp add: word_le_nat_alt)
qed

lemma print_uint_text:
  assumes "2 \<le> base" "base \<le> 16" "pad \<le> 32"
  obtains ds where "\<forall>d \<in> set ds. d < unat base" "horner (unat base) ds = unat v" "length ds \<le> 32" "pad \<le> length ds"
    "ds \<noteq> []" "v \<noteq> 0 \<longrightarrow> pad < length ds \<longrightarrow> last ds \<noteq> 0"
    "print_uint v base upper pad = Some (rev (map (\<lambda>d. digit_char upper (word_of_nat d)) ds))"
proof -
  from assms(1,2) obtain ds where ds: "\<forall>d \<in> set ds. d < unat base" "horner (unat base) ds = unat v" "length ds \<le> 32"
    "ds \<noteq> []" "v \<noteq> 0 \<longrightarrow> last ds \<noteq> 0"
    "(if v = 0 then ''0'' else digit_loop base upper v []) = map (\<lambda>d. digit_char upper (word_of_nat d)) ds"
    by (rule print_uint_digit_list)
  define es where "es = ds @ replicate (pad - length ds) 0"
  have z: "digit_char upper 0 = CHR ''0''" by (simp add: digit_char_def)
  have b: "0 < unat base" using assms(1) by (simp add: word_le_nat_alt)
  have "print_uint v base upper pad = Some (rev (map (\<lambda>d. digit_char upper (word_of_nat d)) es))"
    unfolding print_uint_def Let_def ds(6) es_def using ds(3) assms(3) z by (simp add: map_replicate_const)
  moreover have "\<forall>d \<in> set es. d < unat base" using ds(1) b by (auto simp: es_def)
  moreover have "horner (unat base) es = unat v" "length es \<le> 32" "pad \<le> length es" "es \<noteq> []"
    using ds assms(3) by (auto simp: es_def)
  moreover have "v \<noteq> 0 \<longrightarrow> pad < length es \<longrightarrow> last es \<noteq> 0" using ds(5) by (simp add: es_def)
  ultimately show thesis using that by blast
qed

section \<open>Calls that return\<close>

text \<open>
  Printing is partial in the model (a format may not fit its arguments), so are the
  commands built from it. \<open>returns m Q\<close> says that \<open>m\<close> returns a result satisfying \<open>Q\<close>.
\<close>

definition returns :: "'a option \<Rightarrow> ('a \<Rightarrow> bool) \<Rightarrow> bool" where
  "returns m Q \<longleftrightarrow> (\<exists>x. m = Some x \<and> Q x)"

primrec each :: "('a \<Rightarrow> 's \<Rightarrow> 's option) \<Rightarrow> 'a list \<Rightarrow> 's \<Rightarrow> 's option" where
  "each f [] s = Some s"
| "each f (x # xs) s = Option.bind (f x s) (each f xs)"

named_theorems returns_intros

lemma returns_Some [returns_intros]: "Q x \<Longrightarrow> returns (Some x) Q"
  by (simp add: returns_def)

lemma returns_bind [returns_intros]: "returns m (\<lambda>x. returns (f x) Q) \<Longrightarrow> returns (Option.bind m f) Q"
  by (auto simp: returns_def)

lemma returns_map [returns_intros]: "returns m (\<lambda>x. Q (g x)) \<Longrightarrow> returns (map_option g m) Q"
  by (auto simp: returns_def)

lemma returns_mono: "returns m P \<Longrightarrow> (\<And>x. P x \<Longrightarrow> Q x) \<Longrightarrow> returns m Q"
  by (auto simp: returns_def)

lemma returns_each:
  assumes "I s" "\<And>x s. x \<in> set xs \<Longrightarrow> I s \<Longrightarrow> returns (f x s) I"
  shows "returns (each f xs s) I"
  using assms
proof (induction xs arbitrary: s)
  case (Cons x xs)
  obtain s' where s': "f x s = Some s'" "I s'" using Cons.prems(2) [of x s] Cons.prems(1) by (auto simp: returns_def)
  from s'(2) have "returns (each f xs s') I" by (rule Cons.IH) (use Cons.prems(2) in simp)
  then show ?case using s'(1) by simp
qed (simp add: returns_def)

lemma returns_each_any:
  assumes "\<And>x s. x \<in> set xs \<Longrightarrow> returns (f x s) (\<lambda>_. True)" "\<And>s. Q s"
  shows "returns (each f xs s) Q"
  by (rule returns_mono [OF returns_each [of "\<lambda>_. True"]]) (use assms in auto)

text \<open>A format that fits its arguments; decided by scanning the format.\<close>

definition fmt_ok :: "char list \<Rightarrow> karg list \<Rightarrow> bool" where
  "fmt_ok f args \<longleftrightarrow> kformat f args \<noteq> None"

lemma returns_kprintf [returns_intros]:
  "fmt_ok f args \<Longrightarrow> (\<And>c'. Q c') \<Longrightarrow> returns (kprintf f args c) Q"
  by (auto simp: returns_def fmt_ok_def kprintf_def)

lemma print_uint_Some: "2 \<le> base \<Longrightarrow> base \<le> 16 \<Longrightarrow> pad \<le> 32 \<Longrightarrow> \<exists>t. print_uint v base upper pad = Some t"
  by (metis print_uint_text)

lemma print_int_Some: "\<exists>t. print_int v = Some t"
  using print_uint_Some [of 10 0] by (auto simp: print_int_def)

lemma fmt_ok_plain [simp]:
  "fmt_ok [] args" "c \<noteq> NUL \<Longrightarrow> c \<noteq> CHR ''%'' \<Longrightarrow> fmt_ok (c # f) args = fmt_ok f args"
  by (simp_all add: fmt_ok_def kformat.simps [of "c # f"] kformat.simps [of "[]"])

lemma fmt_ok_directive:
  assumes "convert 0 d args = Some (t, r)" "d \<noteq> CHR ''0''" "d \<noteq> NUL"
  shows "fmt_ok (CHR ''%'' # d # f) args = fmt_ok f r"
  using assms by (simp add: fmt_ok_def kformat.simps [of "CHR ''%'' # d # f"] parse_width_def)

lemma fmt_ok_s [simp]: "fmt_ok (CHR ''%'' # CHR ''s'' # f) (KStr s # args) = fmt_ok f args"
  by (rule fmt_ok_directive) (simp_all add: convert_def)

lemma fmt_ok_d [simp]: "fmt_ok (CHR ''%'' # CHR ''d'' # f) (KNum v # args) = fmt_ok f args"
proof -
  obtain t where "print_int v = Some t" using print_int_Some by blast
  then show ?thesis by (intro fmt_ok_directive [where t = t]) (simp_all add: convert_def)
qed

lemma fmt_ok_u [simp]: "fmt_ok (CHR ''%'' # CHR ''u'' # f) (KNum v # args) = fmt_ok f args"
proof -
  obtain t where "print_uint v 10 False 0 = Some t" using print_uint_Some [of 10 0 v False] by auto
  then show ?thesis by (intro fmt_ok_directive [where t = t]) (simp_all add: convert_def)
qed

lemma fmt_ok_percent [simp]: "fmt_ok (CHR ''%'' # CHR ''%'' # f) args = fmt_ok f args"
  by (rule fmt_ok_directive) (simp_all add: convert_def)

lemma fmt_ok_0x [simp]:
  assumes "is_digit n" "n \<noteq> NUL"
  shows "fmt_ok (CHR ''%'' # CHR ''0'' # n # CHR ''x'' # f) (KNum v # args) = fmt_ok f args"
proof -
  let ?p = "of_char n - of_char (CHR ''0'') :: nat"
  have "?p \<le> 32" using assms(1) by (auto simp: is_digit_def)
  then obtain t where "print_uint v 16 False ?p = Some t" using print_uint_Some [of 16 ?p v False] by auto
  moreover have "parse_width (CHR ''0'' # n # CHR ''x'' # f) = (?p, CHR ''x'' # f)"
    using assms(1) by (simp add: parse_width_def is_digit_def)
  ultimately show ?thesis
    by (simp add: fmt_ok_def kformat.simps [of "CHR ''%'' # CHR ''0'' # n # CHR ''x'' # f"] convert_def)
qed

lemma is_digit_literals [simp]: "is_digit (CHR ''2'')" "is_digit (CHR ''4'')" "is_digit (CHR ''8'')"
  by (simp_all add: is_digit_def)

lemma returns_each_print [returns_intros]:
  "(\<And>x s. returns (f x s) (\<lambda>_. True)) \<Longrightarrow> (\<And>s. Q s) \<Longrightarrow> returns (each f xs s) Q"
  by (rule returns_each_any) auto

section \<open>Exact output\<close>

text \<open>The texts of numbers, as they appear in formatted output.\<close>

definition utext :: "u32 \<Rightarrow> char list" where "utext v = the (print_uint v 10 False 0)"
definition dtext :: "u32 \<Rightarrow> char list" where "dtext v = the (print_int v)"
definition xtext :: "nat \<Rightarrow> u32 \<Rightarrow> char list" where "xtext pad v = the (print_uint v 16 False pad)"

named_theorems kformat_rules \<open>evaluation of format strings\<close>

lemma kformat_plain [kformat_rules]:
  "kformat [] args = Some []"
  "c \<noteq> NUL \<Longrightarrow> c \<noteq> CHR ''%'' \<Longrightarrow> kformat (c # f) args = map_option (Cons c) (kformat f args)"
  by (simp_all add: kformat.simps [of "c # f"] kformat.simps [of "[]"])

lemma kformat_directive:
  assumes "convert 0 d args = Some (t, r)" "d \<noteq> CHR ''0''" "d \<noteq> NUL"
  shows "kformat (CHR ''%'' # d # f) args = map_option (append t) (kformat f r)"
  using assms by (simp add: kformat.simps [of "CHR ''%'' # d # f"] parse_width_def)

lemma kformat_s [kformat_rules]: "kformat (CHR ''%'' # CHR ''s'' # f) (KStr (Some s) # args) = map_option (append (cstr s)) (kformat f args)"
  by (rule kformat_directive) (simp_all add: convert_def)

lemma kformat_d [kformat_rules]: "kformat (CHR ''%'' # CHR ''d'' # f) (KNum v # args) = map_option (append (dtext v)) (kformat f args)"
  using print_int_Some [of v] by (intro kformat_directive) (auto simp: convert_def dtext_def)

lemma kformat_u [kformat_rules]: "kformat (CHR ''%'' # CHR ''u'' # f) (KNum v # args) = map_option (append (utext v)) (kformat f args)"
  using print_uint_Some [of 10 0 v False] by (intro kformat_directive) (auto simp: convert_def utext_def)

text \<open>\<open>m\<close> always returns, having printed \<open>t\<close>.\<close>

definition outputs :: "(console \<Rightarrow> console option) \<Rightarrow> char list \<Rightarrow> bool" where
  "outputs m t \<longleftrightarrow> (\<forall>c. \<exists>c'. m c = Some c' \<and> sunk c' = sunk c @ t)"

lemma outputs_Some: "outputs Some []"
  by (simp add: outputs_def)

lemma outputs_bind:
  assumes "outputs f t" "outputs g u"
  shows "outputs (\<lambda>c. Option.bind (f c) g) (t @ u)"
  unfolding outputs_def
proof
  fix c
  obtain c1 where c1: "f c = Some c1" "sunk c1 = sunk c @ t" using assms(1) by (auto simp: outputs_def)
  obtain c2 where "g c1 = Some c2" "sunk c2 = sunk c1 @ u" using assms(2) by (auto simp: outputs_def)
  with c1 show "\<exists>c'. Option.bind (f c) g = Some c' \<and> sunk c' = sunk c @ t @ u" by simp
qed

lemma outputs_each:
  assumes "\<And>x. x \<in> set xs \<Longrightarrow> outputs (f x) (t x)"
  shows "outputs (each f xs) (concat (map t xs))"
  using assms
proof (induction xs)
  case Nil
  have "each f [] = Some" by (rule ext) simp
  then show ?case by (simp add: outputs_Some)
next
  case (Cons x xs)
  have "each f (x # xs) = (\<lambda>c. Option.bind (f x c) (each f xs))" by (rule ext) simp
  then show ?case using Cons by (simp add: outputs_bind)
qed

section \<open>The log ring\<close>

definition console_inv :: "console \<Rightarrow> bool" where
  "console_inv s \<longleftrightarrow> length (klog_buf s) = 8192"

lemma unat_mod_cap: "unat (w mod KLOG_CAP) = unat w mod 8192"
  by (simp add: KLOG_CAP_def unat_mod)

lemma kputc_simps [simp]:
  "sunk (kputc c s) = sunk s @ [c]" "klog_w (kputc c s) = klog_w s + 1"
  "klog_buf (kputc c s) = (klog_buf s)[unat (klog_w s) mod 8192 := c]"
  by (simp_all add: kputc_def raw_putc_def Let_def unat_mod_cap)

interpretation klog: ring_log 8192 4294967295 console_inv "\<lambda>s. unat (klog_w s)" "\<lambda>s j. klog_buf s ! j" "\<lambda>c n. c" kputc
proof unfold_locales
  fix s c j
  assume "console_inv s" "(j :: nat) < 8192"
  then show "klog_buf (kputc c s) ! j = (if j = unat (klog_w s) mod 8192 then c else klog_buf s ! j)"
    by (simp add: console_inv_def nth_list_update)
qed (simp_all add: console_inv_def unat_Suc_u32)

lemma fold_kputc_sunk [simp]: "sunk (fold kputc t s) = sunk s @ t"
  by (induction t arbitrary: s) simp_all

lemma outputs_kprintf: "kformat f args = Some t \<Longrightarrow> outputs (kprintf f args) t"
  by (simp add: outputs_def kprintf_def)

lemma fold_raw_putc: "sunk (fold (\<lambda>i. raw_putc (g i)) xs s) = sunk s @ map g xs"
  by (induction xs arbitrary: s) (simp_all add: raw_putc_def)

lemma fold_raw_putc_log: "klog_buf (fold (\<lambda>i. raw_putc (g i)) xs s) = klog_buf s"
  "klog_w (fold (\<lambda>i. raw_putc (g i)) xs s) = klog_w s"
  by (induction xs arbitrary: s) (simp_all add: raw_putc_def)

section \<open>Properties\<close>

text \<open>
  C23: the kernel log replays exactly the newest 8192 characters ever written, in order, as
  long as fewer than \<open>2 ^ 32\<close> characters were written, and replaying leaves the log as it was.
\<close>

theorem klog_replays_newest:
  assumes "console_inv s0" "klog_w s0 = 0" "length cs < 4294967296"
  shows "sunk (klog_dump (fold kputc cs s0)) = sunk s0 @ cs @ drop (length cs - 8192) cs \<and>
     klog_buf (klog_dump (fold kputc cs s0)) = klog_buf (fold kputc cs s0)"
proof -
  define s where "s = fold kputc cs s0"
  have w: "unat (klog_w s) = length cs"
    using klog.pushes [OF assms(1), of cs] assms(2,3) by (simp add: s_def)
  have start: "unat (if klog_w s > KLOG_CAP then klog_w s - KLOG_CAP else 0) = length cs - 8192"
    using w by (simp add: KLOG_CAP_def word_less_nat_alt unat_sub_if')
  have cell: "klog_buf s ! unat (word_of_nat i mod KLOG_CAP) = cs ! i" if "length cs - 8192 \<le> i" "i < length cs" for i
    using klog.recent [OF assms(1), of cs i] assms(2,3) that by (simp add: s_def unat_mod_cap unat_of_nat_u32)
  have "map (\<lambda>i. klog_buf s ! unat (word_of_nat i mod KLOG_CAP)) [length cs - 8192..<length cs] =
      map ((!) cs) [length cs - 8192..<length cs]" using cell by (intro map_cong) auto
  also have "\<dots> = drop (length cs - 8192) cs" by (rule nth_equalityI) auto
  finally have "sunk (klog_dump s) = sunk s @ drop (length cs - 8192) cs"
    unfolding klog_dump_def Let_def start w fold_raw_putc by simp
  then show ?thesis unfolding s_def [symmetric] by (simp add: s_def klog_dump_def Let_def fold_raw_putc_log)
qed

theorem klog_replays_newest_witness:
  "sunk (klog_dump (fold kputc (replicate 8200 (CHR ''a''))
     \<lparr>sunk = [], klog_buf = replicate 8192 NUL, klog_w = 0\<rparr>)) =
   replicate 8200 (CHR ''a'') @ replicate 8192 (CHR ''a'')"
  using klog_replays_newest [of "\<lparr>sunk = [], klog_buf = replicate 8192 NUL, klog_w = 0\<rparr>" "replicate 8200 (CHR ''a'')"]
  by (simp add: console_inv_def)

text \<open>
  for every value, base and width that the formatter uses, printing gives a text of at
  least the width whose digits denote exactly the value, without superfluous zeros when it
  is longer than the width; a width above 32 overruns the digit buffer.
\<close>

theorem print_uint_denotes:
  assumes "2 \<le> base" "base \<le> 16"
  shows "(pad \<le> 32 \<longrightarrow> (\<exists>t. print_uint v base upper pad = Some t \<and> pad \<le> length t \<and> length t \<le> 32 \<and>
       undigits (unat base) t = unat v \<and> (v \<noteq> 0 \<longrightarrow> pad < length t \<longrightarrow> digit_val (hd t) \<noteq> 0))) \<and>
     (32 < pad \<longrightarrow> print_uint v base upper pad = None)"
proof (intro conjI impI)
  assume "pad \<le> 32"
  with assms obtain ds where ds: "\<forall>d \<in> set ds. d < unat base" "horner (unat base) ds = unat v" "length ds \<le> 32"
    "pad \<le> length ds" "ds \<noteq> []" "v \<noteq> 0 \<longrightarrow> pad < length ds \<longrightarrow> last ds \<noteq> 0"
    "print_uint v base upper pad = Some (rev (map (\<lambda>d. digit_char upper (word_of_nat d)) ds))"
    by (rule print_uint_text)
  have lt: "\<forall>d \<in> set ds. d < 16" using ds(1) assms(2) by (auto simp: word_le_nat_alt)
  have "hd (rev (map (\<lambda>d. digit_char upper (word_of_nat d)) ds)) = digit_char upper (word_of_nat (last ds))"
    using ds(5) by (simp add: hd_rev last_map)
  then have "digit_val (hd (rev (map (\<lambda>d. digit_char upper (word_of_nat d)) ds))) = last ds"
    using lt ds(5) last_in_set [of ds] digit_val_char [of "last ds" upper] by simp
  then show "\<exists>t. print_uint v base upper pad = Some t \<and> pad \<le> length t \<and> length t \<le> 32 \<and>
      undigits (unat base) t = unat v \<and> (v \<noteq> 0 \<longrightarrow> pad < length t \<longrightarrow> digit_val (hd t) \<noteq> 0)"
    using ds(2-7) undigits_rev [OF lt, of "unat base" upper]
    by (intro exI [of _ "rev (map (\<lambda>d. digit_char upper (word_of_nat d)) ds)"]) simp
qed (simp add: print_uint_def Let_def)

theorem print_uint_denotes_witness:
  "\<exists>t. print_uint 255 16 False 8 = Some t \<and> undigits 16 t = 255"
  using print_uint_denotes [of 16 8 255 False] by auto

end
