(* ===== verification/Ai.thy ===== *)
theory Ai
  imports Ai_Core Kprintf "HOL-Library.Monad_Syntax"
begin

text \<open>
  The AI layer's kernel side (\<open>kernel/ai/ai.c\<close>): start-up and the \<open>ai\<close> shell command.
  Every subcommand takes the world and the console and returns both; the lemmas show that
  each of them returns, and that no sequence of them ever leaves the local-only policy or
  dispatches a task.
\<close>

section \<open>Commands (ai.c)\<close>

definition ai_init :: "ai_world \<Rightarrow> ai_world" where
  "ai_init w0 =
     (let w = ai_world_init w0;
          w = snd (ai_service_register ''thunity-backend'' ''http://127.0.0.1:8000'' AI_SVC_BRIDGE AI_STAT_DESIGN_ONLY w);
          w = snd (ai_service_register ''ollama'' ''http://127.0.0.1:11434'' AI_SVC_BRIDGE AI_STAT_DESIGN_ONLY w);
          w = snd (ai_model_register ''llama3.1'' AI_ROLE_CHAT AI_MODEL_DECLARED w);
          w = snd (ai_model_register ''qwen2.5-coder'' AI_ROLE_CODE AI_MODEL_DECLARED w)
      in snd (ai_model_register ''nomic-embed-text'' AI_ROLE_EMBED AI_MODEL_DECLARED w))"

definition yn :: "char list \<Rightarrow> bool \<Rightarrow> console \<Rightarrow> console option" where
  "yn name on c = kprintf (''  %s : %s'' @ NL) [ks name, ks (if on then ''ALLOW'' else ''DENY'')] c"

fun audit_tail_loop :: "ai_world \<Rightarrow> nat \<Rightarrow> nat \<Rightarrow> console \<Rightarrow> console option" where
  "audit_tail_loop w i 0 c = Some c"
| "audit_tail_loop w i (Suc n) c =
     (case ai_audit_recent w (int i) of
        None \<Rightarrow> Some c
      | Some e \<Rightarrow>
          Option.bind (kprintf (''  #%u %s : %s (task %d)'' @ NL)
             [KNum (au_seq e), ks (au_action e), ks (if au_decision e = AI_AUDIT_ALLOW then ''ALLOW'' else ''DENY''),
              ki (au_task_id e)] c)
           (audit_tail_loop w (i + 1) n))"

definition print_audit_tail :: "nat \<Rightarrow> ai_world \<Rightarrow> console \<Rightarrow> console option" where
  "print_audit_tail mx w c =
     (let n = (if ai_audit_count w > int mx then int mx else ai_audit_count w)
      in if n = 0 then kprintf (''  (no AI actions audited yet)'' @ NL) [] c
         else audit_tail_loop w 0 (nat n) c)"

definition print_service :: "ai_service \<Rightarrow> console \<Rightarrow> console option" where
  "print_service s c =
     (if \<not> sv_used s then Some c
      else kprintf (''  - %s (%s) %s [%s]'' @ NL)
             [ks (sv_name s), ks (ai_kind_label (sv_kind s)), ks (sv_endpoint s), ks (ai_status_label (sv_status s))] c)"

definition on_off :: "ai_world \<Rightarrow> u32 \<Rightarrow> char list \<Rightarrow> karg" where
  "on_off w perm off = ks (if ai_policy_allows w perm then ''on'' else off)"

definition cmd_status :: "ai_world \<Rightarrow> console \<Rightarrow> (ai_world \<times> console) option" where
  "cmd_status w c = do {
     c \<leftarrow> kprintf (''THUOS AI-native layer - foundation (host-tested core; no inference here)'' @ NL) [] c;
     c \<leftarrow> kprintf (''Services (%d):'' @ NL) [ki (ai_service_count w)] c;
     c \<leftarrow> each print_service (services w) c;
     c \<leftarrow> kprintf (''Policy: local-infer=%s net-bridge=%s file-write=%s tool-exec=%s cloud=%s'' @ NL)
       [on_off w AI_PERM_LOCAL_INFER ''off'', on_off w AI_PERM_NET_BRIDGE ''OFF'', on_off w AI_PERM_FILE_WRITE ''OFF'',
        on_off w AI_PERM_TOOL_EXEC ''OFF'', on_off w AI_PERM_CLOUD ''OFF''] c;
     c \<leftarrow> kprintf (''Recent AI audit:'' @ NL) [] c;
     c \<leftarrow> print_audit_tail 5 w c;
     c \<leftarrow> kprintf (''Note: no request leaves this machine; a bridge needs TCP/IP (not in THUOS yet).'' @ NL) [] c;
     Some (ai_audit_record ''ai.status'' AI_AUDIT_ALLOW 0 w, c)
   }"

fun role_name :: "ai_role \<Rightarrow> char list" where
  "role_name AI_ROLE_CHAT = ''chat''"
| "role_name AI_ROLE_CODE = ''code''"
| "role_name AI_ROLE_EMBED = ''embed''"
| "role_name AI_ROLE_VISION = ''vision''"

definition print_model :: "ai_model \<Rightarrow> console \<Rightarrow> console option" where
  "print_model m c =
     (if \<not> md_used m then Some c
      else kprintf (''  - %s (%s) [%s]'' @ NL)
             [ks (md_name m), ks (role_name (md_role m)), ks (if md_state m = AI_MODEL_PRESENT then ''present'' else ''declared'')] c)"

definition cmd_models :: "ai_world \<Rightarrow> console \<Rightarrow> (ai_world \<times> console) option" where
  "cmd_models w c = do {
     c \<leftarrow> kprintf (''Registered models (%d) - DECLARED design entries, not loaded'' @ NL) [ki (ai_model_count w)] c;
     c \<leftarrow> kprintf (''(THUOS has no AI runtime; models live on a LOCAL Linux server e.g. Ollama)'' @ NL) [] c;
     c \<leftarrow> each print_model (models w) c;
     Some (ai_audit_record ''ai.models'' AI_AUDIT_ALLOW 0 w, c)
   }"

fun task_list_loop :: "ai_world \<Rightarrow> nat \<Rightarrow> nat \<Rightarrow> console \<Rightarrow> console option" where
  "task_list_loop w i 0 c = Some c"
| "task_list_loop w i (Suc n) c =
     (case ai_task_get w i of
        None \<Rightarrow> Some c
      | Some t \<Rightarrow>
          Option.bind (kprintf (''  #%d [%s] '' @ [CHR 0x22] @ ''%s'' @ [CHR 0x22] @ '' svc=%d'' @ NL)
             [ki (tk_id t), ks (ai_task_state_label (tk_state t)), ks (tk_label t), ki (tk_service t)] c)
           (task_list_loop w (i + 1) n))"

definition cmd_tasks :: "ai_world \<Rightarrow> console \<Rightarrow> (ai_world \<times> console) option" where
  "cmd_tasks w c = do {
     let n = ai_task_count w;
     c \<leftarrow> kprintf (''AI tasks (%d):'' @ NL) [ki n] c;
     if n = 0 then do {
       c \<leftarrow> kprintf (''  (none yet - run '' @ [CHR 0x60] @ ''ai bridge'' @ [CHR 0x60] @ '' to see create->policy->audit)'' @ NL) [] c;
       Some (w, c)
     } else do {
       c \<leftarrow> task_list_loop w 0 (nat n) c;
       Some (ai_audit_record ''ai.tasks'' AI_AUDIT_ALLOW 0 w, c)
     }
   }"

definition cmd_policy :: "ai_world \<Rightarrow> console \<Rightarrow> (ai_world \<times> console) option" where
  "cmd_policy w c = do {
     c \<leftarrow> kprintf (''AI permission policy (local-only doctrine; nothing silently enabled):'' @ NL) [] c;
     c \<leftarrow> yn ''local-inference'' (ai_policy_allows w AI_PERM_LOCAL_INFER) c;
     c \<leftarrow> yn ''file-read'' (ai_policy_allows w AI_PERM_FILE_READ) c;
     c \<leftarrow> yn ''net-bridge'' (ai_policy_allows w AI_PERM_NET_BRIDGE) c;
     c \<leftarrow> yn ''file-write'' (ai_policy_allows w AI_PERM_FILE_WRITE) c;
     c \<leftarrow> yn ''tool-exec'' (ai_policy_allows w AI_PERM_TOOL_EXEC) c;
     c \<leftarrow> yn ''cloud'' (ai_policy_allows w AI_PERM_CLOUD) c;
     c \<leftarrow> kprintf (''  net-bridge would reach a LOCAL AI server; needs TCP/IP (not in THUOS yet).'' @ NL) [] c;
     c \<leftarrow> kprintf (''  cloud is blocked by doctrine - THUOS adds no external/cloud AI default.'' @ NL) [] c;
     Some (ai_audit_record ''ai.policy'' AI_AUDIT_ALLOW 0 w, c)
   }"

definition print_target :: "ai_world \<Rightarrow> int \<Rightarrow> console \<Rightarrow> console option" where
  "print_target w svc c =
     (if svc \<ge> 0 then
        let s = services w ! nat svc
        in kprintf (''Target: %s %s [%s]'' @ NL) [ks (sv_name s), ks (sv_endpoint s), ks (ai_status_label (sv_status s))] c
      else Some c)"

definition cmd_bridge :: "ai_world \<Rightarrow> console \<Rightarrow> (ai_world \<times> console) option" where
  "cmd_bridge w c = do {
     let svc = ai_service_find w ''thunity-backend'';
     c \<leftarrow> kprintf (''Thunity AI bridge - DESIGN-ONLY (no connection is made)'' @ NL) [] c;
     c \<leftarrow> print_target w svc c;
     let (tid, w) = ai_task_create AI_KIND_CHAT svc ''bridge-demo'' w;
     c \<leftarrow> kprintf (''  task #%d created (chat)'' @ NL) [ki tid] c;
     (w, c) \<leftarrow>
       (if \<not> ai_policy_allows w AI_PERM_NET_BRIDGE then do {
          let w = snd (ai_task_set_state tid AI_TASK_DENIED w);
          let w = ai_audit_record ''bridge.connect'' AI_AUDIT_DENY tid w;
          c \<leftarrow> kprintf (''  policy net-bridge = DENY (off by default) -> task #%d denied'' @ NL) [ki tid] c;
          Some (w, c)
        } else do {
          let w = snd (ai_task_set_state tid AI_TASK_QUEUED w);
          let w = snd (ai_task_set_state tid AI_TASK_FAILED w);
          let w = ai_audit_record ''bridge.connect'' AI_AUDIT_DENY tid w;
          c \<leftarrow> kprintf (''  net-bridge allowed, but THUOS has no TCP/IP -> task #%d failed (not sent)'' @ NL) [ki tid] c;
          Some (w, c)
        });
     c \<leftarrow> kprintf (''Result: no request sent. This is the PLANNED bridge, not a working one.'' @ NL) [] c;
     c \<leftarrow> kprintf (''To actually run Thunity AI today, use the Linux appliance on a separate'' @ NL) [] c;
     c \<leftarrow> kprintf (''host and (later) bridge to it. See docs/40_THUNITY_AI_BRIDGE_STRATEGY.md.'' @ NL) [] c;
     Some (w, c)
   }"

definition cmd_help :: "console \<Rightarrow> console option" where
  "cmd_help c = do {
     c \<leftarrow> kprintf (''THUOS AI-native layer (foundation). Usage: ai <subcommand>'' @ NL) [] c;
     c \<leftarrow> kprintf (''  status   services, policy summary, recent AI audit'' @ NL) [] c;
     c \<leftarrow> kprintf (''  models   registered model names (declared; no runtime here)'' @ NL) [] c;
     c \<leftarrow> kprintf (''  tasks    AI task list + state machine'' @ NL) [] c;
     c \<leftarrow> kprintf (''  policy   permission policy (local-only by default)'' @ NL) [] c;
     c \<leftarrow> kprintf (''  bridge   Thunity/Ollama bridge demo - DESIGN-ONLY (no networking)'' @ NL) [] c;
     kprintf (''Honest: THUOS does not run AI inference, Docker, Python, or networking yet.'' @ NL) [] c
   }"

definition ai_command :: "char list \<Rightarrow> ai_world \<Rightarrow> console \<Rightarrow> (ai_world \<times> console) option" where
  "ai_command args w c =
     (case ai_parse_sub args of
        AI_SUB_STATUS \<Rightarrow> cmd_status w c
      | AI_SUB_MODELS \<Rightarrow> cmd_models w c
      | AI_SUB_TASKS \<Rightarrow> cmd_tasks w c
      | AI_SUB_POLICY \<Rightarrow> cmd_policy w c
      | AI_SUB_BRIDGE \<Rightarrow> cmd_bridge w c
      | AI_SUB_HELP \<Rightarrow> map_option (Pair w) (cmd_help c)
      | AI_SUB_UNKNOWN \<Rightarrow>
          map_option (Pair w)
            (kprintf (''ai: unknown subcommand '' @ [CHR 0x27] @ ''%s'' @ [CHR 0x27] @ '' (try '' @ [CHR 0x60] @ ''ai help'' @ [CHR 0x60] @ '')'' @ NL)
               [ks args] c))"

section \<open>Every command returns\<close>

lemmas text_fits = NL_def on_off_def

lemma returns_print [returns_intros]:
  "(\<And>c. Q c) \<Longrightarrow> returns (yn name on c) Q"
  "(\<And>c. Q c) \<Longrightarrow> returns (print_service s c) Q"
  "(\<And>c. Q c) \<Longrightarrow> returns (print_model m c) Q"
  "(\<And>c. Q c) \<Longrightarrow> returns (print_target w svc c) Q"
  by (simp_all add: yn_def print_service_def print_model_def print_target_def Let_def returns_intros text_fits)

lemma returns_audit_tail_loop: "(\<And>c. Q c) \<Longrightarrow> returns (audit_tail_loop w i n c) Q"
  by (induction n arbitrary: i c)
    (auto simp: text_fits split: option.splits intro!: returns_intros)

lemma returns_task_list_loop [returns_intros]: "(\<And>c. Q c) \<Longrightarrow> returns (task_list_loop w i n c) Q"
  by (induction n arbitrary: i c)
    (auto simp: text_fits split: option.splits intro!: returns_intros)

lemma returns_audit_tail [returns_intros]: "(\<And>c. Q c) \<Longrightarrow> returns (print_audit_tail mx w c) Q"
  by (auto simp: print_audit_tail_def Let_def text_fits intro!: returns_intros returns_audit_tail_loop)

lemma returns_help: "(\<And>c. Q c) \<Longrightarrow> returns (cmd_help c) Q"
  unfolding cmd_help_def by (intro returns_intros) (simp_all add: text_fits)

lemma returns_status: "returns (cmd_status w c) (\<lambda>(w', c'). w' = ai_audit_record ''ai.status'' AI_AUDIT_ALLOW 0 w)"
  unfolding cmd_status_def by (intro returns_intros) (simp_all add: text_fits)

lemma returns_models: "returns (cmd_models w c) (\<lambda>(w', c'). w' = ai_audit_record ''ai.models'' AI_AUDIT_ALLOW 0 w)"
  unfolding cmd_models_def by (intro returns_intros) (simp_all add: text_fits)

lemma returns_policy: "returns (cmd_policy w c) (\<lambda>(w', c'). w' = ai_audit_record ''ai.policy'' AI_AUDIT_ALLOW 0 w)"
  unfolding cmd_policy_def by (intro returns_intros) (simp_all add: text_fits)

lemma returns_tasks:
  "returns (cmd_tasks w c) (\<lambda>(w', c'). w' = (if ai_task_count w = 0 then w else ai_audit_record ''ai.tasks'' AI_AUDIT_ALLOW 0 w))"
proof (cases "ai_task_count w = 0")
  case True
  then show ?thesis unfolding cmd_tasks_def Let_def by (auto simp: text_fits intro!: returns_intros)
next
  case False
  then show ?thesis unfolding cmd_tasks_def Let_def by (auto simp: text_fits intro!: returns_intros)
qed

text \<open>What the bridge demonstration does to the world.\<close>

definition bridge_world :: "ai_world \<Rightarrow> ai_world" where
  "bridge_world w =
     (let (tid, w1) = ai_task_create AI_KIND_CHAT (ai_service_find w ''thunity-backend'') ''bridge-demo'' w
      in ai_audit_record ''bridge.connect'' AI_AUDIT_DENY tid
           (if \<not> ai_policy_allows w1 AI_PERM_NET_BRIDGE then snd (ai_task_set_state tid AI_TASK_DENIED w1)
            else snd (ai_task_set_state tid AI_TASK_FAILED (snd (ai_task_set_state tid AI_TASK_QUEUED w1)))))"

lemma returns_bridge: "returns (cmd_bridge w c) (\<lambda>(w', c'). w' = bridge_world w)"
proof -
  obtain tid w1 where cr: "ai_task_create AI_KIND_CHAT (ai_service_find w ''thunity-backend'') ''bridge-demo'' w = (tid, w1)"
    by fastforce
  show ?thesis unfolding cmd_bridge_def Let_def cr prod.case
    by (intro returns_intros) (auto simp: text_fits bridge_world_def cr intro!: returns_intros)
qed

section \<open>The local-only doctrine\<close>

definition local_only :: "ai_world \<Rightarrow> bool" where
  "local_only w \<longleftrightarrow> world_inv w \<and> perms w = AI_PERM_LOCAL_INFER OR AI_PERM_FILE_READ \<and>
     (\<forall>t \<in> set (ai_tasks w). tk_used t \<longrightarrow> tk_state t = AI_TASK_DENIED)"

lemma local_only_policy:
  assumes "local_only w"
  shows "ai_policy_allows w AI_PERM_LOCAL_INFER" "ai_policy_allows w AI_PERM_FILE_READ"
    "\<not> ai_policy_allows w AI_PERM_NET_BRIDGE" "\<not> ai_policy_allows w AI_PERM_FILE_WRITE"
    "\<not> ai_policy_allows w AI_PERM_TOOL_EXEC" "\<not> ai_policy_allows w AI_PERM_CLOUD"
  using assms
  by (simp_all add: local_only_def ai_policy_allows_def AI_PERM_LOCAL_INFER_def AI_PERM_FILE_READ_def
      AI_PERM_NET_BRIDGE_def AI_PERM_FILE_WRITE_def AI_PERM_TOOL_EXEC_def AI_PERM_CLOUD_def)

lemma local_only_audit: "local_only w \<Longrightarrow> local_only (ai_audit_record action d tid w)"
  using ai_step_inv [of w "ai_audit_record action d tid w"]
  by (auto simp: local_only_def step_audit) (simp_all add: ai_audit_record_def Let_def)

lemma local_only_bridge:
  assumes "local_only w"
  shows "local_only (bridge_world w)"
proof -
  have inv: "world_inv w" and pm: "perms w = AI_PERM_LOCAL_INFER OR AI_PERM_FILE_READ" using assms by (simp_all add: local_only_def)
  note D = world_invD [OF inv]
  obtain tid w1 where cr: "ai_task_create AI_KIND_CHAT (ai_service_find w ''thunity-backend'') ''bridge-demo'' w = (tid, w1)"
    by fastforce
  have inv1: "world_inv w1" using ai_step_inv [OF inv step_create] cr by (metis snd_conv)
  have pm1: "perms w1 = perms w" using cr by (auto simp: ai_task_create_def split: option.splits)
  then have deny: "\<not> ai_policy_allows w1 AI_PERM_NET_BRIDGE" using local_only_policy(3) [OF assms] by (simp add: ai_policy_allows_def)
  define w2 where "w2 = snd (ai_task_set_state tid AI_TASK_DENIED w1)"
  have inv2: "world_inv w2" unfolding w2_def using ai_step_inv [OF inv1 step_state] .
  have pm2: "perms w2 = perms w1" by (auto simp: w2_def ai_task_set_state_def split: option.splits)
  have "\<forall>t \<in> set (ai_tasks w2). tk_used t \<longrightarrow> tk_state t = AI_TASK_DENIED"
  proof (cases "find_slot (\<lambda>t. \<not> tk_used t) (ai_tasks w)")
    case None
    then have eq: "tid = -1" "w1 = w" using cr by (simp_all add: ai_task_create_def)
    have "task_by_id w (-1) = None"
    proof (rule ccontr)
      assume "task_by_id w (-1) \<noteq> None"
      then obtain i where "task_by_id w (-1) = Some i" by auto
      then have "i < 16" "tk_used (ai_tasks w ! i)" "tk_id (ai_tasks w ! i) = -1" using task_by_id_iff [OF inv] by auto
      then show False using D(6) [of i] by simp
    qed
    then have "w2 = w" by (simp add: w2_def ai_task_set_state_def eq)
    then show ?thesis using assms by (simp add: local_only_def)
  next
    case (Some i)
    then have i: "i < 16" "\<not> tk_used (ai_tasks w ! i)" using find_slot_SomeD D(3) by fastforce+
    define t where "t = ai_tasks w1 ! i"
    have t: "ai_tasks w1 = (ai_tasks w)[i := t]" "tk_used t" "tk_id t = tid" "tk_state t = AI_TASK_CREATED"
      using cr Some i(1) D(3) by (auto simp: ai_task_create_def t_def)
    have "ai_tasks w1 ! i = t" using t(1) i(1) D(3) by simp
    then have "task_by_id w1 tid = Some i" using task_by_id_iff [OF inv1] i(1) t(2,3) by simp
    then have "ai_tasks w2 = (ai_tasks w)[i := t\<lparr>tk_state := AI_TASK_DENIED\<rparr>]"
      using t(1,4) \<open>ai_tasks w1 ! i = t\<close> by (simp add: w2_def ai_task_set_state_def)
    then show ?thesis using assms set_update_subset_insert [of "ai_tasks w" i "t\<lparr>tk_state := AI_TASK_DENIED\<rparr>"]
      by (auto simp: local_only_def)
  qed
  then have "local_only w2" using inv2 pm pm1 pm2 by (simp add: local_only_def)
  moreover have "bridge_world w = ai_audit_record ''bridge.connect'' AI_AUDIT_DENY tid w2"
    using deny by (simp add: bridge_world_def cr w2_def)
  ultimately show ?thesis using local_only_audit by simp
qed

lemma local_only_command:
  assumes "local_only w"
  shows "returns (ai_command args w c) (\<lambda>(w', c'). local_only w')"
proof -
  have audit: "local_only w'" if "w' = ai_audit_record action d tid w" for w' action d tid
    using local_only_audit [OF assms] that by simp
  show ?thesis
  proof (cases "ai_parse_sub args")
    case AI_SUB_HELP
    then show ?thesis using assms by (auto simp: ai_command_def intro!: returns_map returns_help)
  next
    case AI_SUB_UNKNOWN
    then show ?thesis using assms by (auto simp: ai_command_def text_fits intro!: returns_intros)
  next
    case AI_SUB_STATUS
    then show ?thesis unfolding ai_command_def using returns_mono [OF returns_status] audit by fastforce
  next
    case AI_SUB_MODELS
    then show ?thesis unfolding ai_command_def using returns_mono [OF returns_models] audit by fastforce
  next
    case AI_SUB_POLICY
    then show ?thesis unfolding ai_command_def using returns_mono [OF returns_policy] audit by fastforce
  next
    case AI_SUB_TASKS
    have "local_only w'" if "w' = (if ai_task_count w = 0 then w else ai_audit_record ''ai.tasks'' AI_AUDIT_ALLOW 0 w)" for w'
      using that assms audit by (cases "ai_task_count w = 0") auto
    with AI_SUB_TASKS show ?thesis unfolding ai_command_def using returns_mono [OF returns_tasks] by fastforce
  next
    case AI_SUB_BRIDGE
    then show ?thesis unfolding ai_command_def
      using returns_mono [OF returns_bridge] local_only_bridge [OF assms] by fastforce
  qed
qed

lemma register_keeps:
  "perms (snd (ai_service_register n e k st w)) = perms w" "ai_tasks (snd (ai_service_register n e k st w)) = ai_tasks w"
  "perms (snd (ai_model_register n r ms w)) = perms w" "ai_tasks (snd (ai_model_register n r ms w)) = ai_tasks w"
  by (simp_all add: ai_service_register_def ai_model_register_def split: option.splits)

lemma ai_init_local_only:
  assumes "length (services w) = 8" "length (models w) = 12" "length (ai_tasks w) = 16" "length (audit w) = 32"
  shows "local_only (ai_init w)"
proof -
  have "world_inv (ai_init w)" unfolding ai_init_def Let_def
    by (intro ai_step_inv [OF _ step_service] ai_step_inv [OF _ step_model] ai_world_init_inv assms)
  then show ?thesis by (auto simp: local_only_def ai_init_def Let_def register_keeps ai_world_init_def)
qed

section \<open>Properties\<close>

text \<open>
  C21: from the boot state, every sequence of \<open>ai\<close> commands returns, and afterwards the
  policy still allows exactly local inference and file reading (network bridge, file
  write, tool execution and cloud stay denied) and every task ever created was denied: no
  task is queued, dispatched or done.
\<close>

theorem ai_commands_stay_local:
  assumes "length (services w0) = AI_MAX_SERVICES" "length (models w0) = AI_MAX_MODELS"
    "length (ai_tasks w0) = AI_MAX_TASKS" "length (audit w0) = nat AI_AUDIT_CAP"
  shows "\<exists>w c. each (\<lambda>args (w, c). ai_command args w c) cmds (ai_init w0, c0) = Some (w, c) \<and> world_inv w \<and>
     ai_policy_allows w AI_PERM_LOCAL_INFER \<and> ai_policy_allows w AI_PERM_FILE_READ \<and>
     \<not> ai_policy_allows w AI_PERM_NET_BRIDGE \<and> \<not> ai_policy_allows w AI_PERM_FILE_WRITE \<and>
     \<not> ai_policy_allows w AI_PERM_TOOL_EXEC \<and> \<not> ai_policy_allows w AI_PERM_CLOUD \<and>
     (\<forall>t \<in> set (ai_tasks w). tk_used t \<longrightarrow> tk_state t = AI_TASK_DENIED)"
proof -
  have "local_only (ai_init w0)"
    using assms by (intro ai_init_local_only) (simp_all add: AI_MAX_SERVICES_def AI_MAX_MODELS_def AI_MAX_TASKS_def AI_AUDIT_CAP_def)
  then have "returns (each (\<lambda>args (w, c). ai_command args w c) cmds (ai_init w0, c0)) (\<lambda>(w, c). local_only w)"
    using local_only_command by (intro returns_each) auto
  then obtain w c where "each (\<lambda>args (w, c). ai_command args w c) cmds (ai_init w0, c0) = Some (w, c)" "local_only w"
    by (auto simp: returns_def)
  then show ?thesis using local_only_policy [of w] by (auto simp: local_only_def)
qed

theorem ai_commands_stay_local_witness:
  "\<exists>w c. each (\<lambda>args (w, c). ai_command args w c) [''bridge'', ''status'', ''bridge'']
       (ai_init blank_world, \<lparr>sunk = [], klog_buf = replicate 8192 NUL, klog_w = 0\<rparr>) = Some (w, c) \<and>
     \<not> ai_policy_allows w AI_PERM_NET_BRIDGE"
  using ai_commands_stay_local [of blank_world "[''bridge'', ''status'', ''bridge'']"
      "\<lparr>sunk = [], klog_buf = replicate 8192 NUL, klog_w = 0\<rparr>"]
  by (auto simp: blank_world_def AI_MAX_SERVICES_def AI_MAX_MODELS_def AI_MAX_TASKS_def AI_AUDIT_CAP_def simp del: each.simps)

end
