(* ===== verification/Port_Io.thy ===== *)
theory Port_Io
  imports Thuos_Prelude
begin

text \<open>
  Port input and output (\<open>kernel/arch/x86/io.h\<close>), and accesses to memory that a device also
  sees: its registers, and buffers it reads and writes. The devices are not part of the program:
  what they answer is a parameter, a function of the place and of everything that happened
  before. The state of I/O is the sequence of accesses, oldest first.
\<close>

datatype port_event = Outb u16 u8 | Inb u16 u8 | Outw u16 u16 | Outl u16 u32 | InL u16 u32
  | Rd8 u32 u8 | Rd32 u32 u32 | Wr8 u32 u8 | Wr32 u32 u32 | Wr64 u32 u64

type_synonym io = "port_event list"

text \<open>The answers of the devices to byte and doubleword reads, of ports and of memory.\<close>

record devices =
  dev_b :: "io \<Rightarrow> u16 \<Rightarrow> u8"
  dev_l :: "io \<Rightarrow> u16 \<Rightarrow> u32"
  dev_m8 :: "io \<Rightarrow> u32 \<Rightarrow> u8"
  dev_m32 :: "io \<Rightarrow> u32 \<Rightarrow> u32"

definition outb :: "u16 \<Rightarrow> u8 \<Rightarrow> io \<Rightarrow> io" where
  "outb port val tr = tr @ [Outb port val]"

definition inb :: "devices \<Rightarrow> u16 \<Rightarrow> io \<Rightarrow> u8 \<times> io" where
  "inb dev port tr = (let v = dev_b dev tr port in (v, tr @ [Inb port v]))"

definition outw :: "u16 \<Rightarrow> u16 \<Rightarrow> io \<Rightarrow> io" where
  "outw port val tr = tr @ [Outw port val]"

definition outl :: "u16 \<Rightarrow> u32 \<Rightarrow> io \<Rightarrow> io" where
  "outl port val tr = tr @ [Outl port val]"

definition inl :: "devices \<Rightarrow> u16 \<Rightarrow> io \<Rightarrow> u32 \<times> io" where
  "inl dev port tr = (let v = dev_l dev tr port in (v, tr @ [InL port v]))"

definition rd_m8 :: "devices \<Rightarrow> u32 \<Rightarrow> io \<Rightarrow> u8 \<times> io" where
  "rd_m8 dev a tr = (let v = dev_m8 dev tr a in (v, tr @ [Rd8 a v]))"

definition rd_m32 :: "devices \<Rightarrow> u32 \<Rightarrow> io \<Rightarrow> u32 \<times> io" where
  "rd_m32 dev a tr = (let v = dev_m32 dev tr a in (v, tr @ [Rd32 a v]))"

definition wr_m8 :: "u32 \<Rightarrow> u8 \<Rightarrow> io \<Rightarrow> io" where
  "wr_m8 a v tr = tr @ [Wr8 a v]"

definition wr_m32 :: "u32 \<Rightarrow> u32 \<Rightarrow> io \<Rightarrow> io" where
  "wr_m32 a v tr = tr @ [Wr32 a v]"

definition wr_m64 :: "u32 \<Rightarrow> u64 \<Rightarrow> io \<Rightarrow> io" where
  "wr_m64 a v tr = tr @ [Wr64 a v]"

definition io_wait :: "io \<Rightarrow> io" where
  "io_wait tr = outb 0x80 0 tr"

end
