(* ===== verification/Descriptors.thy ===== *)
theory Descriptors
  imports Port_Io
begin

text \<open>
  Segment and interrupt descriptors: selectors and the TSS descriptor
  (\<open>kernel/arch/x86/usermode_core.c\<close>), the global descriptor table (\<open>gdt.c\<close>), the task
  state segment (\<open>tss.c\<close>) and the interrupt descriptor table (\<open>idt.c\<close>). The lemmas decode
  the tables the way the processor reads them.
\<close>

section \<open>User-mode selectors and descriptors (usermode_core.c)\<close>

definition UM_KCODE_IDX :: u16 where "UM_KCODE_IDX = 1"
definition UM_KDATA_IDX :: u16 where "UM_KDATA_IDX = 2"
definition UM_UCODE_IDX :: u16 where "UM_UCODE_IDX = 3"
definition UM_UDATA_IDX :: u16 where "UM_UDATA_IDX = 4"
definition UM_TSS_IDX :: u16 where "UM_TSS_IDX = 5"
definition UM_KCODE_SEL :: u16 where "UM_KCODE_SEL = 0x08"
definition UM_KDATA_SEL :: u16 where "UM_KDATA_SEL = 0x10"
definition UM_UCODE_SEL :: u16 where "UM_UCODE_SEL = 0x1B"
definition UM_UDATA_SEL :: u16 where "UM_UDATA_SEL = 0x23"
definition UM_TSS_SEL :: u16 where "UM_TSS_SEL = 0x28"
definition UM_EFLAGS_IF :: u32 where "UM_EFLAGS_IF = 0x00000200"
definition UM_EFLAGS_RSVD1 :: u32 where "UM_EFLAGS_RSVD1 = 0x00000002"
definition UM_EFLAGS_NT :: u32 where "UM_EFLAGS_NT = 0x00004000"

text \<open>The index is promoted to int before the shift, then truncated to 16 bits.\<close>

definition um_selector :: "u16 \<Rightarrow> u8 \<Rightarrow> u16" where
  "um_selector index rpl = ucast (push_bit 3 (ucast index :: u32) OR (ucast rpl AND 3))"

definition um_user_eflags :: "u32 \<Rightarrow> u32" where
  "um_user_eflags base_flags = (base_flags AND NOT UM_EFLAGS_NT) OR UM_EFLAGS_IF OR UM_EFLAGS_RSVD1"

definition um_tss_descriptor :: "u32 \<Rightarrow> u32 \<Rightarrow> u8 list" where
  "um_tss_descriptor base limit =
     [ucast (limit AND 0xFF), ucast (drop_bit 8 limit AND 0xFF), ucast (base AND 0xFF),
      ucast (drop_bit 8 base AND 0xFF), ucast (drop_bit 16 base AND 0xFF), 0x89,
      ucast (drop_bit 16 limit AND 0x0F), ucast (drop_bit 24 base AND 0xFF)]"

section \<open>The global descriptor table (gdt.c) and the task state segment (tss.c)\<close>

record gdt_entry =
  limit_low :: u16
  base_low :: u16
  base_mid :: u8
  access :: u8
  granularity :: u8
  base_high :: u8

definition gdt_set_gate :: "nat \<Rightarrow> u32 \<Rightarrow> u32 \<Rightarrow> u8 \<Rightarrow> u8 \<Rightarrow> gdt_entry list \<Rightarrow> gdt_entry list" where
  "gdt_set_gate n base limit acc gran gdt =
     gdt[n := \<lparr>limit_low = ucast (limit AND 0xFFFF), base_low = ucast (base AND 0xFFFF),
       base_mid = ucast (drop_bit 16 base AND 0xFF), access = acc,
       granularity = ucast (drop_bit 16 limit AND 0x0F) OR (gran AND 0xF0),
       base_high = ucast (drop_bit 24 base AND 0xFF)\<rparr>]"

text \<open>\<open>struct tss_entry\<close>: 25 doublewords and two words.\<close>

record tss =
  prev_tss :: u32
  esp0 :: u32
  ss0 :: u32
  esp1 :: u32
  ss1 :: u32
  esp2 :: u32
  ss2 :: u32
  tss_cr3 :: u32
  tss_eip :: u32
  tss_eflags :: u32
  tss_eax :: u32
  tss_ecx :: u32
  tss_edx :: u32
  tss_ebx :: u32
  tss_esp :: u32
  tss_ebp :: u32
  tss_esi :: u32
  tss_edi :: u32
  tss_es :: u32
  tss_cs :: u32
  tss_ss :: u32
  tss_ds :: u32
  tss_fs :: u32
  tss_gs :: u32
  tss_ldt :: u32
  tss_trap :: u16
  iomap_base :: u16

definition sizeof_tss :: u32 where "sizeof_tss = 104"

text \<open>\<open>kstack\<close> is the address of the 8 KiB kernel stack.\<close>

definition tss_init :: "u32 \<Rightarrow> tss" where
  "tss_init kstack =
     \<lparr>prev_tss = 0, esp0 = kstack + 8192, ss0 = ucast UM_KDATA_SEL, esp1 = 0, ss1 = 0, esp2 = 0, ss2 = 0, tss_cr3 = 0,
      tss_eip = 0, tss_eflags = 0, tss_eax = 0, tss_ecx = 0, tss_edx = 0, tss_ebx = 0, tss_esp = 0, tss_ebp = 0,
      tss_esi = 0, tss_edi = 0, tss_es = 0, tss_cs = 0, tss_ss = 0, tss_ds = 0, tss_fs = 0, tss_gs = 0, tss_ldt = 0,
      tss_trap = 0, iomap_base = ucast sizeof_tss\<rparr>"

definition tss_set_esp0 :: "u32 \<Rightarrow> tss \<Rightarrow> tss" where
  "tss_set_esp0 v t = t\<lparr>esp0 := v\<rparr>"

definition tss_limit :: u32 where "tss_limit = sizeof_tss - 1"

definition tss_selector :: u16 where "tss_selector = um_selector UM_TSS_IDX 0"

record gdt_state =
  gdt :: "gdt_entry list"
  gdtp_limit :: u16
  gdtp_base :: u32
  g_tss :: tss
  gdtr :: "u16 \<times> u32"
  task_reg :: u16

text \<open>
  \<open>gdt_addr\<close>, \<open>tss_addr\<close> and \<open>kstack\<close> are the addresses of the static objects. \<open>gdt_flush\<close>
  loads the descriptor table register and \<open>tss_flush\<close> the task register.
\<close>

definition gdt_init :: "u32 \<Rightarrow> u32 \<Rightarrow> u32 \<Rightarrow> gdt_state \<Rightarrow> gdt_state" where
  "gdt_init gdt_addr tss_addr kstack s =
     (let s = s\<lparr>gdtp_limit := 47, gdtp_base := gdt_addr\<rparr>;
          g = gdt_set_gate 0 0 0 0 0 (gdt s);
          g = gdt_set_gate 1 0 0xFFFFFFFF 0x9A 0xCF g;
          g = gdt_set_gate 2 0 0xFFFFFFFF 0x92 0xCF g;
          g = gdt_set_gate 3 0 0xFFFFFFFF 0xFA 0xCF g;
          g = gdt_set_gate 4 0 0xFFFFFFFF 0xF2 0xCF g;
          t = tss_init kstack;
          g = gdt_set_gate 5 tss_addr tss_limit 0x89 0x00 g
      in s\<lparr>gdt := g, g_tss := t, gdtr := (gdtp_limit s, gdtp_base s), task_reg := tss_selector\<rparr>)"

section \<open>The interrupt descriptor table (idt.c)\<close>

record idt_entry =
  i_base_low :: u16
  i_selector :: u16
  i_always0 :: u8
  i_flags :: u8
  i_base_high :: u16

definition idt_set_gate :: "u8 \<Rightarrow> u32 \<Rightarrow> u16 \<Rightarrow> u8 \<Rightarrow> idt_entry list \<Rightarrow> idt_entry list" where
  "idt_set_gate num handler selector fl idt =
     idt[unat num := \<lparr>i_base_low = ucast (handler AND 0xFFFF), i_selector = selector, i_always0 = 0, i_flags = fl,
       i_base_high = ucast (drop_bit 16 handler AND 0xFFFF)\<rparr>]"

text \<open>The first component is the loaded descriptor table register.\<close>

definition idt_init :: "u32 \<Rightarrow> idt_entry list \<Rightarrow> (u16 \<times> u32) \<times> idt_entry list" where
  "idt_init idt_addr idt =
     ((2047, idt_addr), fold (\<lambda>i. idt_set_gate (word_of_nat i) 0 0 0) [0..<256] idt)"

section \<open>How the processor reads the tables\<close>

text \<open>The eight bytes of a table entry, in memory order.\<close>

definition gdt_bytes :: "gdt_entry \<Rightarrow> u8 list" where
  "gdt_bytes e = [ucast (limit_low e), ucast (drop_bit 8 (limit_low e)), ucast (base_low e), ucast (drop_bit 8 (base_low e)),
     base_mid e, access e, granularity e, base_high e]"

text \<open>The fields of an eight-byte descriptor.\<close>

definition desc_base :: "u8 list \<Rightarrow> u32" where
  "desc_base b = ucast (b ! 2) OR push_bit 8 (ucast (b ! 3)) OR push_bit 16 (ucast (b ! 4)) OR push_bit 24 (ucast (b ! 7))"

definition desc_raw_limit :: "u8 list \<Rightarrow> u32" where
  "desc_raw_limit b = ucast (b ! 0) OR push_bit 8 (ucast (b ! 1)) OR push_bit 16 (ucast (b ! 6) AND 0x0F)"

text \<open>With the granularity bit the limit counts 4 KiB pages.\<close>

definition desc_limit :: "u8 list \<Rightarrow> u32" where
  "desc_limit b = (if bit (b ! 6) 7 then push_bit 12 (desc_raw_limit b) OR 0xFFF else desc_raw_limit b)"

definition desc_dpl :: "u8 list \<Rightarrow> nat" where
  "desc_dpl b = unat (drop_bit 5 (b ! 5) AND 3)"

definition gate_offset :: "idt_entry \<Rightarrow> u32" where
  "gate_offset e = ucast (i_base_low e) OR push_bit 16 (ucast (i_base_high e))"

definition gate_present :: "idt_entry \<Rightarrow> bool" where
  "gate_present e = bit (i_flags e) 7"

definition gate_dpl :: "idt_entry \<Rightarrow> nat" where
  "gate_dpl e = unat (drop_bit 5 (i_flags e) AND 3)"

lemma mask_literals: "(0xFF :: u32) = mask 8" "(0x0F :: u32) = mask 4" "(0xFFFF :: u32) = mask 16"
  by (simp_all add: mask_eq_exp_minus_1)

lemma gate_offset_set: "gate_offset \<lparr>i_base_low = ucast (h AND 0xFFFF), i_selector = sel, i_always0 = z, i_flags = fl,
    i_base_high = ucast (drop_bit 16 h AND 0xFFFF)\<rparr> = h"
  unfolding gate_offset_def mask_literals
  by (rule bit_word_eqI) (auto simp: bit_simps)

lemma bit_FF: "bit (0xFF :: u32) n \<longleftrightarrow> n < 8" "bit (0x0F :: u32) n \<longleftrightarrow> n < 4" "bit (0xFFFF :: u32) n \<longleftrightarrow> n < 16"
  by (auto simp: mask_literals bit_simps)

lemma bit_F0: "bit (0xF0 :: u8) n \<longleftrightarrow> 4 \<le> n \<and> n < 8"
proof -
  have "(0xF0 :: u8) = push_bit 4 (mask 4)" by (simp add: mask_eq_exp_minus_1)
  then have "bit (0xF0 :: u8) n = bit (push_bit 4 (mask 4) :: u8) n" by (rule arg_cong)
  also have "\<dots> \<longleftrightarrow> 4 \<le> n \<and> n < 8" unfolding bit_push_bit_iff bit_mask_iff possible_bit_word by auto
  finally show ?thesis .
qed

text \<open>The bytes of a doubleword as the code cuts them out, and their composition.\<close>

lemma and_literals: "(x :: u32) AND 0xFF = take_bit 8 x" "x AND 0x0F = take_bit 4 x" "x AND 0xFFFF = take_bit 16 x"
  by (simp_all only: mask_literals take_bit_eq_mask)

lemma cut_bytes:
  "(ucast ((x :: u32) AND 0xFF) :: u8) = ucast x" "(ucast (ucast (x AND 0xFFFF) :: u16) :: u8) = ucast x"
  "(ucast (drop_bit 8 (ucast (x AND 0xFFFF) :: u16)) :: u8) = ucast (drop_bit 8 x)"
  unfolding and_literals by (rule bit_word_eqI; auto simp: bit_simps)+

lemma join_bytes:
  "(ucast (ucast w :: u8) OR push_bit 8 (ucast (ucast (drop_bit 8 w) :: u8)) OR push_bit 16 (ucast (ucast (drop_bit 16 w) :: u8)) OR
    push_bit 24 (ucast (ucast (drop_bit 24 w) :: u8)) :: u32) = w"
proof (rule bit_word_eqI)
  fix n assume "n < LENGTH(32)"
  then consider "n < 8" | "8 \<le> n" "n < 16" | "16 \<le> n" "n < 24" | "24 \<le> n" "n < 32" by fastforce
  then show "bit (ucast (ucast w :: u8) OR push_bit 8 (ucast (ucast (drop_bit 8 w) :: u8)) OR
      push_bit 16 (ucast (ucast (drop_bit 16 w) :: u8)) OR push_bit 24 (ucast (ucast (drop_bit 24 w) :: u8)) :: u32) n = bit w n"
    by cases (simp_all add: bit_simps, linarith+)
qed

lemma join_limit:
  assumes "\<And>k. k < 4 \<Longrightarrow> \<not> bit (h :: u8) k"
  shows "(ucast (ucast w :: u8) OR push_bit 8 (ucast (ucast (drop_bit 8 w) :: u8)) OR
    push_bit 16 (take_bit 4 (ucast (ucast (take_bit 4 (drop_bit 16 w)) OR h))) :: u32) = take_bit 20 w"
proof (rule bit_word_eqI)
  fix n assume "n < LENGTH(32)"
  then consider "n < 8" | "8 \<le> n" "n < 16" | "16 \<le> n" "n < 20" | "20 \<le> n" "n < 32" by fastforce
  then show "bit (ucast (ucast w :: u8) OR push_bit 8 (ucast (ucast (drop_bit 8 w) :: u8)) OR
      push_bit 16 (take_bit 4 (ucast (ucast (take_bit 4 (drop_bit 16 w)) OR h))) :: u32) n = bit (take_bit 20 w) n"
    using assms [of "n - 16"] by cases (auto simp: bit_simps)
qed

lemma gdt_bytes_gate:
  assumes "n < length g"
  shows "gdt_bytes (gdt_set_gate n base limit acc gran g ! n) =
     [ucast limit, ucast (drop_bit 8 limit), ucast base, ucast (drop_bit 8 base), ucast (drop_bit 16 base), acc,
      ucast (take_bit 4 (drop_bit 16 limit)) OR (gran AND 0xF0), ucast (drop_bit 24 base)]"
  using assms by (simp add: gdt_bytes_def gdt_set_gate_def cut_bytes and_literals(2) del: take_bit_drop_bit)

lemma desc_of_gate:
  assumes "n < length g" and b_def: "b = gdt_bytes (gdt_set_gate n base limit acc gran g ! n)"
  shows "desc_base b = base" "desc_raw_limit b = take_bit 20 limit" "b ! 5 = acc" "bit (b ! 6) 7 = bit gran 7"
proof -
  note b = gdt_bytes_gate [OF assms(1), of base limit acc gran, folded b_def]
  show "desc_base b = base" by (simp add: b desc_base_def join_bytes)
  have "\<not> bit (gran AND 0xF0) k" if "k < 4" for k using that by (simp only: bit_and_iff bit_F0) simp
  from join_limit [OF this] show "desc_raw_limit b = take_bit 20 limit"
    by (simp add: b desc_raw_limit_def and_literals del: take_bit_drop_bit)
  show "b ! 5 = acc" by (simp add: b)
  have "bit (ucast (take_bit 4 (drop_bit 16 limit)) OR (gran AND 0xF0)) 7 = bit gran 7"
    by (simp only: bit_or_iff bit_and_iff bit_F0 bit_ucast_iff bit_take_bit_iff) simp
  then show "bit (b ! 6) 7 = bit gran 7" by (simp only: b nth_Cons_numeral nth_Cons_0 One_nat_def) simp
qed

lemma tss_gate_bytes:
  assumes "n < length g"
  shows "gdt_bytes (gdt_set_gate n base limit 0x89 0 g ! n) = um_tss_descriptor base limit"
  using gdt_bytes_gate [OF assms, of base limit "0x89" 0]
  by (simp add: um_tss_descriptor_def cut_bytes and_literals(2) del: take_bit_drop_bit)

lemma gdt_set_gate_length [simp]: "length (gdt_set_gate n b l a gr g) = length g"
  by (simp add: gdt_set_gate_def)

lemma gdt_set_gate_other: "m \<noteq> n \<Longrightarrow> gdt_set_gate n b l a gr g ! m = g ! m"
  by (simp add: gdt_set_gate_def)

text \<open>A flat 4 GiB segment.\<close>

lemma flat_segment:
  assumes "n < length g" and b_def: "b = gdt_bytes (gdt_set_gate n 0 0xFFFFFFFF acc 0xCF g ! n)"
  shows "desc_base b = 0" "desc_limit b = 0xFFFFFFFF" "b ! 5 = acc"
proof -
  note d = desc_of_gate [OF assms]
  have "bit (0xCF :: u8) 7" by (simp add: bit_iff_odd drop_bit_eq_div)
  moreover have "push_bit 12 (take_bit 20 (0xFFFFFFFF :: u32)) OR 0xFFF = 0xFFFFFFFF" by code_simp
  ultimately show "desc_limit b = 0xFFFFFFFF" using d(2,4) by (simp add: desc_limit_def)
qed (use desc_of_gate [OF assms] in simp_all)

section \<open>Properties\<close>

text \<open>
  a descriptor written by \<open>gdt_set_gate\<close> reads back, in the processor's layout, with
  exactly the base, the low 20 bits of the limit and the access byte it was given; the TSS
  gate is byte for byte the descriptor that the host-tested encoder gives.
\<close>

theorem gdt_gate_roundtrip:
  assumes "n < length g"
  shows "desc_base (gdt_bytes (gdt_set_gate n base limit acc gran g ! n)) = base \<and>
     desc_raw_limit (gdt_bytes (gdt_set_gate n base limit acc gran g ! n)) = limit AND mask 20 \<and>
     gdt_bytes (gdt_set_gate n base limit acc gran g ! n) ! 5 = acc \<and>
     gdt_bytes (gdt_set_gate n base limit 0x89 0 g ! n) = um_tss_descriptor base limit"
  using desc_of_gate [OF assms refl] tss_gate_bytes [OF assms] by (simp add: take_bit_eq_mask)

definition blank_gdt :: "gdt_entry list" where
  "blank_gdt = replicate 6 \<lparr>limit_low = 0, base_low = 0, base_mid = 0, access = 0, granularity = 0, base_high = 0\<rparr>"

theorem gdt_gate_roundtrip_witness:
  "desc_base (gdt_bytes (gdt_set_gate 5 0x123456 103 0x89 0 blank_gdt ! 5)) = 0x123456"
proof -
  have "5 < length blank_gdt" by (simp add: blank_gdt_def)
  then show ?thesis by (rule gdt_gate_roundtrip [THEN conjunct1])
qed

text \<open>
  after \<open>gdt_init\<close> the kernel and user segments are flat 4 GiB segments of privilege
  0 and 3, the fifth entry is the TSS at its address with its size as limit, the user
  selectors carry privilege 3, and the task register selects the TSS, whose ring-0 stack is
  the top of the kernel stack.
\<close>

theorem gdt_init_segments:
  assumes "length (gdt s) = 6" "gdt_init gdt_addr tss_addr kstack s = s'"
  shows "(\<forall>i \<in> {1, 2, 3, 4}. desc_base (gdt_bytes (gdt s' ! i)) = 0 \<and> desc_limit (gdt_bytes (gdt s' ! i)) = 0xFFFFFFFF \<and>
       desc_dpl (gdt_bytes (gdt s' ! i)) = (if i < 3 then 0 else 3)) \<and>
     desc_base (gdt_bytes (gdt s' ! 5)) = tss_addr \<and> desc_limit (gdt_bytes (gdt s' ! 5)) = sizeof_tss - 1 \<and>
     gdtr s' = (47, gdt_addr) \<and> task_reg s' = UM_TSS_SEL \<and> esp0 (g_tss s') = kstack + 8192 \<and> ss0 (g_tss s') = ucast UM_KDATA_SEL"
proof -
  define g0 where "g0 = gdt_set_gate 0 0 0 0 0 (gdt s)"
  define g1 where "g1 = gdt_set_gate 1 0 0xFFFFFFFF 0x9A 0xCF g0"
  define g2 where "g2 = gdt_set_gate 2 0 0xFFFFFFFF 0x92 0xCF g1"
  define g3 where "g3 = gdt_set_gate 3 0 0xFFFFFFFF 0xFA 0xCF g2"
  define g4 where "g4 = gdt_set_gate 4 0 0xFFFFFFFF 0xF2 0xCF g3"
  have g: "gdt s' = gdt_set_gate 5 tss_addr tss_limit 0x89 0 g4"
    using assms(2) by (auto simp: gdt_init_def Let_def g0_def g1_def g2_def g3_def g4_def)
  have len: "length g0 = 6" "length g1 = 6" "length g2 = 6" "length g3 = 6" "length g4 = 6"
    using assms(1) by (simp_all add: g0_def g1_def g2_def g3_def g4_def)
  have e: "gdt s' ! 1 = g1 ! 1" "gdt s' ! 2 = g2 ! 2" "gdt s' ! 3 = g3 ! 3" "gdt s' ! 4 = g4 ! 4"
    by (simp_all add: g g4_def g3_def g2_def gdt_set_gate_other)
  have take20: "take_bit 20 (103 :: u32) = 103" by code_simp
  have dpl: "desc_dpl b = unat (drop_bit 5 (b ! 5) AND 3)" for b by (simp add: desc_dpl_def)
  have f1: "desc_base (gdt_bytes (g1 ! 1)) = 0 \<and> desc_limit (gdt_bytes (g1 ! 1)) = 0xFFFFFFFF \<and> gdt_bytes (g1 ! 1) ! 5 = 0x9A"
    using flat_segment [of 1 g0 _ "0x9A", OF _ refl] len by (simp add: g1_def)
  have f2: "desc_base (gdt_bytes (g2 ! 2)) = 0 \<and> desc_limit (gdt_bytes (g2 ! 2)) = 0xFFFFFFFF \<and> gdt_bytes (g2 ! 2) ! 5 = 0x92"
    using flat_segment [of 2 g1 _ "0x92", OF _ refl] len by (simp add: g2_def)
  have f3: "desc_base (gdt_bytes (g3 ! 3)) = 0 \<and> desc_limit (gdt_bytes (g3 ! 3)) = 0xFFFFFFFF \<and> gdt_bytes (g3 ! 3) ! 5 = 0xFA"
    using flat_segment [of 3 g2 _ "0xFA", OF _ refl] len by (simp add: g3_def)
  have f4: "desc_base (gdt_bytes (g4 ! 4)) = 0 \<and> desc_limit (gdt_bytes (g4 ! 4)) = 0xFFFFFFFF \<and> gdt_bytes (g4 ! 4) ! 5 = 0xF2"
    using flat_segment [of 4 g3 _ "0xF2", OF _ refl] len by (simp add: g4_def)
  have p: "unat (drop_bit 5 (0x9A :: u8) AND 3) = 0" "unat (drop_bit 5 (0x92 :: u8) AND 3) = 0"
    "unat (drop_bit 5 (0xFA :: u8) AND 3) = 3" "unat (drop_bit 5 (0xF2 :: u8) AND 3) = 3" by code_simp+
  have "\<forall>i \<in> {1, 2, 3, 4}. desc_base (gdt_bytes (gdt s' ! i)) = 0 \<and> desc_limit (gdt_bytes (gdt s' ! i)) = 0xFFFFFFFF \<and>
      desc_dpl (gdt_bytes (gdt s' ! i)) = (if i < 3 then 0 else 3)"
    using f1 f2 f3 f4 p e(1) by (simp add: e(2-4) dpl)
  moreover have "desc_base (gdt_bytes (gdt s' ! 5)) = tss_addr \<and> desc_limit (gdt_bytes (gdt s' ! 5)) = sizeof_tss - 1"
    using take20 desc_of_gate [of 5 g4 _ tss_addr tss_limit "0x89" 0, OF _ refl] len by (simp add: g desc_limit_def tss_limit_def sizeof_tss_def)
  moreover have "tss_selector = UM_TSS_SEL" by code_simp
  then have "gdtr s' = (47, gdt_addr) \<and> task_reg s' = UM_TSS_SEL \<and> esp0 (g_tss s') = kstack + 8192 \<and> ss0 (g_tss s') = ucast UM_KDATA_SEL"
    using assms(2) by (auto simp: gdt_init_def Let_def tss_init_def)
  ultimately show ?thesis by blast
qed

definition blank_gdt_state :: gdt_state where
  "blank_gdt_state = \<lparr>gdt = blank_gdt, gdtp_limit = 0, gdtp_base = 0, g_tss = tss_init 0, gdtr = (0, 0), task_reg = 0\<rparr>"

theorem gdt_init_segments_witness:
  "desc_dpl (gdt_bytes (gdt (gdt_init 0x1000 0x2000 0x3000 blank_gdt_state) ! 3)) = 3 \<and>
   desc_base (gdt_bytes (gdt (gdt_init 0x1000 0x2000 0x3000 blank_gdt_state) ! 5)) = 0x2000"
  using gdt_init_segments [of blank_gdt_state "0x1000" "0x2000" "0x3000", OF _ refl] by (simp add: blank_gdt_state_def blank_gdt_def)

end
