(* ===== verification/Terminal.thy ===== *)
theory Terminal
  imports Thuos_Prelude
begin

text \<open>
  The abstract text terminal that both character consoles of the kernel implement, the 80x25
  text mode (\<open>vga.c\<close>) and the graphical console (\<open>gconsole.c\<close>). Its state is the document
  written so far, as lines; a screen shows the last lines of it. A locale states what a console
  promises with respect to the document, and what follows for whole texts.
\<close>

section \<open>Documents\<close>

record doc =
  done_lines :: "char list list"
  cur_line :: "char list"

definition empty_doc :: doc where
  "empty_doc = \<lparr>done_lines = [], cur_line = []\<rparr>"

definition break_line :: "doc \<Rightarrow> doc" where
  "break_line d = \<lparr>done_lines = done_lines d @ [cur_line d], cur_line = []\<rparr>"

definition type_char :: "char \<Rightarrow> doc \<Rightarrow> doc" where
  "type_char c d = d\<lparr>cur_line := cur_line d @ [c]\<rparr>"

definition pad_line :: "nat \<Rightarrow> doc \<Rightarrow> doc" where
  "pad_line n d = d\<lparr>cur_line := cur_line d @ replicate n (CHR '' '')\<rparr>"

text \<open>
  A newline ends the line, a tab pads it to the next multiple of four, a backspace takes its last
  character back, anything else is added; a line that reaches the width is ended.
\<close>

definition doc_putc :: "nat \<Rightarrow> char \<Rightarrow> doc \<Rightarrow> doc" where
  "doc_putc w c d =
     (if c = CHR 0x0A then break_line d
      else if c = CHR 0x09 then
        (if w \<le> 4 * ((length (cur_line d) + 4) div 4) then break_line d
         else pad_line (4 * ((length (cur_line d) + 4) div 4) - length (cur_line d)) d)
      else if c = CHR 0x08 then d\<lparr>cur_line := butlast (cur_line d)\<rparr>
      else if w \<le> Suc (length (cur_line d)) then break_line (type_char c d)
      else type_char c d)"

definition layout :: "nat \<Rightarrow> char list \<Rightarrow> doc" where
  "layout w s = fold (doc_putc w) s empty_doc"

definition doc_ok :: "nat \<Rightarrow> doc \<Rightarrow> bool" where
  "doc_ok w d \<longleftrightarrow> length (cur_line d) < w \<and> (\<forall>l \<in> set (done_lines d). length l \<le> w)"

lemma doc_putc_ok: "doc_ok w d \<Longrightarrow> doc_ok w (doc_putc w c d)"
  by (auto simp: doc_ok_def doc_putc_def break_line_def type_char_def pad_line_def)

section \<open>The window on the document\<close>

text \<open>With \<open>h\<close> rows the screen shows the last \<open>h\<close> lines, blank after the end of each.\<close>

definition top_line :: "nat \<Rightarrow> doc \<Rightarrow> nat" where
  "top_line h d = Suc (length (done_lines d)) - h"

definition cur_row :: "nat \<Rightarrow> doc \<Rightarrow> nat" where
  "cur_row h d = length (done_lines d) - top_line h d"

definition line_at :: "nat \<Rightarrow> doc \<Rightarrow> char list" where
  "line_at i d = (if i < length (done_lines d) then done_lines d ! i
     else if i = length (done_lines d) then cur_line d else [])"

definition char_at :: "nat \<Rightarrow> doc \<Rightarrow> nat \<Rightarrow> nat \<Rightarrow> char" where
  "char_at h d r c =
     (let l = line_at (top_line h d + r) d in if c < length l then l ! c else CHR '' '')"

lemma cur_row_less: "0 < h \<Longrightarrow> cur_row h d < h"
  by (auto simp: cur_row_def top_line_def)

lemma char_at_empty [simp]: "char_at h empty_doc r c = CHR '' ''" "cur_row h empty_doc = 0" "cur_line empty_doc = []"
  by (simp_all add: char_at_def line_at_def empty_doc_def cur_row_def)

lemma char_at_cursor: "0 < h \<Longrightarrow> length (cur_line d) \<le> c \<Longrightarrow> char_at h d (cur_row h d) c = CHR '' ''"
  by (auto simp: char_at_def line_at_def cur_row_def top_line_def)

lemma char_at_type:
  assumes "0 < h"
  shows "char_at h (type_char x d) r c =
    (if r = cur_row h d \<and> c = length (cur_line d) then x else char_at h d r c)"
  using assms by (auto simp: char_at_def line_at_def cur_row_def top_line_def type_char_def nth_append Let_def)

lemma char_at_pad: "char_at h (pad_line n d) r c = char_at h d r c"
  by (auto simp: char_at_def line_at_def top_line_def pad_line_def nth_append Let_def)

lemma char_at_butlast:
  assumes "0 < h" "cur_line d \<noteq> []"
  shows "char_at h (d\<lparr>cur_line := butlast (cur_line d)\<rparr>) r c =
    (if r = cur_row h d \<and> c = length (cur_line d) - 1 then CHR '' '' else char_at h d r c)"
  using assms by (auto simp: char_at_def line_at_def cur_row_def top_line_def nth_butlast Let_def)

lemma char_at_break:
  assumes "r < h"
  shows "char_at h (break_line d) r c =
    (if Suc (cur_row h d) < h then char_at h d r c else if Suc r < h then char_at h d (Suc r) c else CHR '' '')"
proof -
  define n where "n = length (done_lines d)"
  have l: "line_at i (break_line d) = (if i \<le> n then line_at i d else [])" for i
    by (auto simp: line_at_def break_line_def nth_append n_def)
  have "line_at i d = []" if "n < i" for i using that by (simp add: line_at_def n_def)
  moreover have "Suc (cur_row h d) < h \<longleftrightarrow> Suc n < h"
    "top_line h (break_line d) = (if Suc n < h then top_line h d else Suc (top_line h d))"
    "top_line h d = Suc n - h"
    using assms by (auto simp: cur_row_def top_line_def break_line_def n_def)
  ultimately show ?thesis using assms by (auto simp: char_at_def l Let_def)
qed

lemma doc_nil: "cur_line d = [] \<Longrightarrow> d\<lparr>cur_line := []\<rparr> = d"
  by simp

lemma cur_row_ops [simp]:
  "cur_row h (type_char x d) = cur_row h d" "cur_row h (pad_line n d) = cur_row h d"
  "cur_row h (d\<lparr>cur_line := l\<rparr>) = cur_row h d"
  "cur_line (type_char x d) = cur_line d @ [x]" "cur_line (break_line d) = []"
  "cur_line (pad_line n d) = cur_line d @ replicate n (CHR '' '')"
  by (simp_all add: cur_row_def top_line_def type_char_def break_line_def pad_line_def)

lemma cur_row_break: "0 < h \<Longrightarrow> cur_row h (break_line d) = (if Suc (cur_row h d) < h then Suc (cur_row h d) else h - 1)"
  by (auto simp: cur_row_def top_line_def break_line_def)

section \<open>What a console promises\<close>

text \<open>
  \<open>displays s d\<close>: the console state \<open>s\<close> displays the document \<open>d\<close>. A console that keeps this for
  every character displays the layout of every text. The carriage return, which moves back without
  ending the line, is no operation on documents.
\<close>

locale text_console =
  fixes width :: nat and displays :: "'s \<Rightarrow> doc \<Rightarrow> bool" and putc :: "char \<Rightarrow> 's \<Rightarrow> 's"
  assumes putc_shows: "displays s d \<Longrightarrow> c \<noteq> CHR 0x0D \<Longrightarrow> displays (putc c s) (doc_putc width c d)"
begin

lemma write_shows: "displays s d \<Longrightarrow> CHR 0x0D \<notin> set cs \<Longrightarrow> displays (fold putc cs s) (fold (doc_putc width) cs d)"
  by (induction cs arbitrary: s d) (auto simp: putc_shows)

lemma text_shows: "displays s empty_doc \<Longrightarrow> CHR 0x0D \<notin> set cs \<Longrightarrow> displays (fold putc cs s) (layout width cs)"
  unfolding layout_def by (rule write_shows)

end

text \<open>A text of ordinary characters without newlines fills lines of exactly the width.\<close>

definition plain_char :: "char \<Rightarrow> bool" where
  "plain_char c \<longleftrightarrow> c \<noteq> CHR 0x0A \<and> c \<noteq> CHR 0x09 \<and> c \<noteq> CHR 0x08"

lemma layout_plain:
  assumes "0 < w" "list_all plain_char s"
  shows "concat (done_lines (layout w s)) @ cur_line (layout w s) = s \<and>
    (\<forall>l \<in> set (done_lines (layout w s)). length l = w) \<and> length (cur_line (layout w s)) < w"
  using assms(2)
proof (induction s rule: rev_induct)
  case Nil
  then show ?case using assms(1) by (simp add: layout_def empty_doc_def)
next
  case (snoc c s)
  then have "plain_char c" by simp
  then have "layout w (s @ [c]) = (let d = layout w s in if w \<le> Suc (length (cur_line d)) then break_line (type_char c d) else type_char c d)"
    by (auto simp: layout_def doc_putc_def plain_char_def Let_def)
  then show ?case using snoc by (auto simp: Let_def break_line_def type_char_def)
qed

end
