(* ===== verification/Vga.thy ===== *)
theory Vga
  imports Port_Io Terminal
begin

text \<open>
  The 80x25 text console (\<open>kernel/drivers/vga.c\<close>). The text memory at 0xB8000 is the list of
  its 2000 cells; the cursor position is also sent to the controller's ports. \<open>size_t\<close> values
  are naturals: \<open>vga_ok\<close> keeps them far below the width. The lemmas show that every store stays
  inside the text memory, what scrolling does and which part of a text is on the screen.
\<close>

definition VGA_WIDTH :: nat where "VGA_WIDTH = 80"
definition VGA_HEIGHT :: nat where "VGA_HEIGHT = 25"
definition VGA_BLACK :: u8 where "VGA_BLACK = 0"
definition VGA_RED :: u8 where "VGA_RED = 4"
definition VGA_LIGHT_GREY :: u8 where "VGA_LIGHT_GREY = 7"
definition VGA_LIGHT_GREEN :: u8 where "VGA_LIGHT_GREEN = 10"
definition VGA_LIGHT_CYAN :: u8 where "VGA_LIGHT_CYAN = 11"
definition VGA_WHITE :: u8 where "VGA_WHITE = 15"

lemmas vga_dims = VGA_WIDTH_def VGA_HEIGHT_def

record vga =
  vga_cells :: "u16 list"
  vga_row :: nat
  vga_col :: nat
  vga_color :: u8
  vga_io :: io

text \<open>\<open>char\<close> is signed on this target: the conversion to \<open>uint16_t\<close> extends the sign.\<close>

definition vga_entry :: "char \<Rightarrow> u8 \<Rightarrow> u16" where
  "vga_entry c color = scast (of_char c :: u8) OR push_bit 8 (ucast color)"

definition vga_move_cursor :: "vga \<Rightarrow> vga" where
  "vga_move_cursor v =
     (let pos = (word_of_nat (vga_row v * VGA_WIDTH + vga_col v) :: u16);
          tr = outb 0x3D4 0x0F (vga_io v);
          tr = outb 0x3D5 (ucast (pos AND 0xFF)) tr;
          tr = outb 0x3D4 0x0E tr;
          tr = outb 0x3D5 (ucast (drop_bit 8 pos AND 0xFF)) tr
      in v\<lparr>vga_io := tr\<rparr>)"

definition vga_set_color :: "u8 \<Rightarrow> u8 \<Rightarrow> vga \<Rightarrow> vga" where
  "vga_set_color fg bg v = v\<lparr>vga_color := fg OR push_bit 4 bg\<rparr>"

text \<open>The nested loops over rows and columns visit \<open>y * 80 + x\<close> in increasing order.\<close>

definition vga_clear :: "vga \<Rightarrow> vga" where
  "vga_clear v =
     (let cs = fold (\<lambda>y. fold (\<lambda>x cs. cs[y * VGA_WIDTH + x := vga_entry (CHR '' '') (vga_color v)]) [0..<VGA_WIDTH])
                 [0..<VGA_HEIGHT] (vga_cells v)
      in vga_move_cursor (v\<lparr>vga_cells := cs, vga_row := 0, vga_col := 0\<rparr>))"

definition vga_init :: "vga \<Rightarrow> vga" where
  "vga_init v = vga_clear (vga_set_color VGA_LIGHT_GREY VGA_BLACK v)"

definition vga_scroll :: "vga \<Rightarrow> vga" where
  "vga_scroll v =
     (let cs = fold (\<lambda>y. fold (\<lambda>x cs. cs[(y - 1) * VGA_WIDTH + x := cs ! (y * VGA_WIDTH + x)]) [0..<VGA_WIDTH])
                 [1..<VGA_HEIGHT] (vga_cells v);
          cs = fold (\<lambda>x cs. cs[(VGA_HEIGHT - 1) * VGA_WIDTH + x := vga_entry (CHR '' '') (vga_color v)])
                 [0..<VGA_WIDTH] cs
      in v\<lparr>vga_cells := cs, vga_row := VGA_HEIGHT - 1\<rparr>)"

definition vga_put_at :: "nat \<Rightarrow> char \<Rightarrow> vga \<Rightarrow> vga" where
  "vga_put_at p c v = v\<lparr>vga_cells := (vga_cells v)[p := vga_entry c (vga_color v)]\<rparr>"

definition vga_putc :: "char \<Rightarrow> vga \<Rightarrow> vga" where
  "vga_putc c v =
     (let v =
        (if c = CHR 0x0A then v\<lparr>vga_col := 0, vga_row := vga_row v + 1\<rparr>
         else if c = CHR 0x0D then v\<lparr>vga_col := 0\<rparr>
         else if c = CHR 0x09 then v\<lparr>vga_col := 4 * ((vga_col v + 4) div 4)\<rparr>
         else if c = CHR 0x08 then
           (if vga_col v > 0
            then let v = v\<lparr>vga_col := vga_col v - 1\<rparr>
                 in vga_put_at (vga_row v * VGA_WIDTH + vga_col v) (CHR '' '') v
            else v)
         else (vga_put_at (vga_row v * VGA_WIDTH + vga_col v) c v)\<lparr>vga_col := vga_col v + 1\<rparr>);
          v = (if vga_col v \<ge> VGA_WIDTH then v\<lparr>vga_col := 0, vga_row := vga_row v + 1\<rparr> else v);
          v = (if vga_row v \<ge> VGA_HEIGHT then vga_scroll v else v)
      in vga_move_cursor v)"

definition vga_write :: "char list \<Rightarrow> vga \<Rightarrow> vga" where
  "vga_write s v = fold vga_putc (cstr s) v"

section \<open>Loops over the text memory\<close>

text \<open>A nested loop over rows \<open>a \<dots> b - 1\<close> of \<open>w\<close> cells is one loop over the cell numbers.\<close>

lemma fold_rows:
  assumes "a \<le> b"
  shows "fold (\<lambda>y. fold (\<lambda>x. f (y * w + x)) [0..<w]) [a..<b] s = fold f [a * w..<b * w] s"
  using assms
proof (induction b)
  case (Suc b)
  have shift: "fold (\<lambda>x. f (k + x)) [0..<w] t = fold f [k..<k + w] t" for t k
    by (induction w) auto
  show ?case
  proof (cases "a \<le> b")
    case True
    have "[a * w..<Suc b * w] = [a * w..<b * w] @ [b * w..<b * w + w]"
      using True by (metis add.commute mult_Suc mult_le_mono1 upt_add_eq_append)
    then show ?thesis using Suc True by (simp add: shift)
  next
    case False
    then show ?thesis using Suc.prems by (simp add: le_Suc_eq)
  qed
qed simp

lemma fold_fill:
  assumes "b \<le> length cs" "a \<le> b"
  shows "fold (\<lambda>i cs. cs[i := e]) [a..<b] cs = take a cs @ replicate (b - a) e @ drop b cs"
  using assms
proof (induction b)
  case (Suc b)
  show ?case
  proof (cases "a \<le> b")
    case True
    have "drop b cs = cs ! b # drop (Suc b) cs" using Suc.prems by (simp add: Cons_nth_drop_Suc)
    then show ?thesis using True Suc
      by (simp add: list_update_append Suc_diff_le replicate_append_same min_def)
  qed (use Suc.prems in \<open>simp add: le_Suc_eq\<close>)
qed simp

text \<open>Copying down by \<open>w\<close> in increasing order reads each cell before it is overwritten.\<close>

lemma fold_copy_down:
  assumes "w \<le> b" "b \<le> length cs" "0 < w"
  shows "fold (\<lambda>i cs. cs[i - w := cs ! i]) [w..<b] cs = take (b - w) (drop w cs) @ drop (b - w) cs"
  using assms
proof (induction b)
  case (Suc b)
  show ?case
  proof (cases "w \<le> b")
    case True
    have d: "drop (b - w) cs = cs ! (b - w) # drop (Suc (b - w)) cs"
      using Suc.prems True by (simp add: Cons_nth_drop_Suc)
    have "(take (b - w) (drop w cs) @ drop (b - w) cs) ! b = cs ! b"
      using Suc.prems True by (simp add: nth_append) linarith
    moreover have "take (Suc (b - w)) (drop w cs) = take (b - w) (drop w cs) @ [cs ! b]"
      using Suc.prems True by (simp add: take_Suc_conv_app_nth)
    ultimately show ?thesis using True Suc d by (simp add: list_update_append Suc_diff_le)
  qed (use Suc.prems in \<open>simp add: le_Suc_eq\<close>)
qed simp

lemma vga_clear_cells:
  "length (vga_cells v) = 2000 \<Longrightarrow> vga_cells (vga_clear v) = replicate 2000 (vga_entry (CHR '' '') (vga_color v))"
  using fold_rows [of 0 25 "\<lambda>i cs. cs[i := vga_entry (CHR '' '') (vga_color v)]" 80 "vga_cells v"]
  by (simp add: vga_clear_def vga_move_cursor_def Let_def vga_dims fold_fill del: upt_rec_numeral)

lemma vga_scroll_cells:
  assumes "length (vga_cells v) = 2000"
  shows "vga_cells (vga_scroll v) = drop 80 (vga_cells v) @ replicate 80 (vga_entry (CHR '' '') (vga_color v))"
proof -
  let ?e = "vga_entry (CHR '' '') (vga_color v)"
  have cong: "fold (\<lambda>y. fold (\<lambda>x cs. cs[(y - 1) * 80 + x := cs ! (y * 80 + x)]) [0..<80]) [1..<25] cs =
      fold (\<lambda>y. fold (\<lambda>x cs. cs[y * 80 + x - 80 := cs ! (y * 80 + x)]) [0..<80]) [1..<25] cs" for cs :: "u16 list"
    by (intro fold_cong refl ext) (auto simp: diff_mult_distrib)
  have copy: "fold (\<lambda>y. fold (\<lambda>x cs. cs[(y - 1) * 80 + x := cs ! (y * 80 + x)]) [0..<80]) [1..<25] (vga_cells v) =
      take 1920 (drop 80 (vga_cells v)) @ drop 1920 (vga_cells v)"
    unfolding cong using fold_rows [of 1 25 "\<lambda>i cs. cs[i - 80 := cs ! i]" 80 "vga_cells v"]
      fold_copy_down [of 80 2000 "vga_cells v"] assms by (simp del: upt_rec_numeral)
  have shift: "fold (\<lambda>x cs. cs[1920 + x := ?e]) [0..<80] cs = fold (\<lambda>i cs. cs[i := ?e]) [1920..<2000] cs" for cs
    using fold_rows [of 24 25 "\<lambda>i cs. cs[i := ?e]" 80 cs] by (simp del: upt_rec_numeral add: upt_conv_Cons)
  show ?thesis using assms
    by (simp add: vga_scroll_def vga_dims copy [unfolded One_nat_def] shift fold_fill Let_def del: upt_rec_numeral
        cong: if_cong)
qed

section \<open>The screen invariant\<close>

definition vga_ok :: "vga \<Rightarrow> bool" where
  "vga_ok v \<longleftrightarrow> length (vga_cells v) = 2000 \<and> vga_row v < VGA_HEIGHT \<and> vga_col v < VGA_WIDTH"

lemma vga_ok_position: "vga_ok v \<Longrightarrow> vga_row v * VGA_WIDTH + vga_col v < length (vga_cells v)"
  by (simp add: vga_ok_def vga_dims)

lemma vga_move_cursor_fields [simp]:
  "vga_cells (vga_move_cursor v) = vga_cells v" "vga_row (vga_move_cursor v) = vga_row v"
  "vga_col (vga_move_cursor v) = vga_col v" "vga_color (vga_move_cursor v) = vga_color v"
  by (simp_all add: vga_move_cursor_def Let_def)

lemma vga_scroll_fields [simp]:
  "vga_row (vga_scroll v) = 24" "vga_col (vga_scroll v) = vga_col v" "vga_color (vga_scroll v) = vga_color v"
  by (simp_all add: vga_scroll_def Let_def vga_dims)

lemma vga_clear_ok: "length (vga_cells v) = 2000 \<Longrightarrow> vga_ok (vga_clear v)"
  using vga_clear_cells [of v] by (simp add: vga_ok_def vga_clear_def Let_def vga_dims)

lemma vga_putc_ok: "vga_ok v \<Longrightarrow> vga_ok (vga_putc c v)"
  by (auto simp: vga_ok_def vga_putc_def Let_def vga_dims vga_put_at_def vga_scroll_cells)


section \<open>The text on the screen\<close>

text \<open>
  The screen shows a document of the abstract terminal: each cell is the character the window
  has there in the current colour. The console displays it when the cursor stands after its last
  character, too.
\<close>

definition vga_shows :: "u8 \<Rightarrow> vga \<Rightarrow> doc \<Rightarrow> bool" where
  "vga_shows color v d \<longleftrightarrow> length (vga_cells v) = 2000 \<and> vga_color v = color \<and> vga_row v = cur_row 25 d \<and>
     (\<forall>r < 25. \<forall>c < 80. vga_cells v ! (r * 80 + c) = vga_entry (char_at 25 d r c) color)"

definition vga_displays :: "u8 \<Rightarrow> vga \<Rightarrow> doc \<Rightarrow> bool" where
  "vga_displays color v d \<longleftrightarrow> vga_shows color v d \<and> doc_ok 80 d \<and> vga_col v = length (cur_line d)"

lemma cell_eq: "c < 80 \<Longrightarrow> c' < 80 \<Longrightarrow> (r * 80 + c = r' * 80 + c') \<longleftrightarrow> r = r' \<and> c = (c' :: nat)"
  by (metis add_left_cancel div_mult_self3 div_less add.right_neutral zero_neq_numeral)

lemma vga_displays_ok: "vga_displays color v d \<Longrightarrow> vga_ok v"
  by (simp add: vga_displays_def vga_shows_def vga_ok_def vga_dims cur_row_less doc_ok_def)

text \<open>A line feed in the driver: the row moves on, and past the last one the screen scrolls.\<close>

definition vga_newline :: "vga \<Rightarrow> vga" where
  "vga_newline v = (let v = v\<lparr>vga_col := 0, vga_row := vga_row v + 1\<rparr> in if vga_row v \<ge> VGA_HEIGHT then vga_scroll v else v)"

lemma vga_shows_newline:
  assumes "vga_shows color v d"
  shows "vga_shows color (vga_newline v) (break_line d) \<and> vga_col (vga_newline v) = 0"
proof -
  have v: "length (vga_cells v) = 2000" "vga_row v = cur_row 25 d" "vga_color v = color"
    and cells: "\<And>r c. r < 25 \<Longrightarrow> c < 80 \<Longrightarrow> vga_cells v ! (r * 80 + c) = vga_entry (char_at 25 d r c) color"
    using assms by (auto simp: vga_shows_def)
  show ?thesis
  proof (cases "Suc (cur_row 25 d) < 25")
    case True
    then show ?thesis using v cells
      by (simp add: vga_shows_def vga_newline_def vga_dims Let_def cur_row_break char_at_break)
  next
    case False
    have scr: "vga_cells (vga_newline v) = drop 80 (vga_cells v) @ replicate 80 (vga_entry (CHR '' '') color)"
      using False v vga_scroll_cells [of "v\<lparr>vga_col := 0, vga_row := Suc (vga_row v)\<rparr>"]
      by (simp add: vga_newline_def vga_dims Let_def)
    have "vga_cells (vga_newline v) ! (r * 80 + c) = vga_entry (char_at 25 (break_line d) r c) color" if rc: "r < 25" "c < 80" for r c
      using rc v(1) False cells [of "Suc r" c] by (auto simp: scr char_at_break nth_append ac_simps)
    moreover have "length (vga_cells (vga_newline v)) = 2000" using scr v(1) by simp
    ultimately show ?thesis using False v by (simp add: vga_shows_def vga_newline_def vga_dims Let_def cur_row_break)
  qed
qed

lemma vga_shows_put:
  assumes "vga_shows color v d" "k < 80" "cur_row 25 d' = cur_row 25 d"
    and "\<And>r c. char_at 25 d' r c = (if r = cur_row 25 d \<and> c = k then x else char_at 25 d r c)"
  shows "vga_shows color (vga_put_at (vga_row v * 80 + k) x v) d'"
proof -
  have row: "cur_row 25 d < 25" by (simp add: cur_row_less)
  have "r * 80 + c < 2000" if "r < 25" "c < 80" for r c :: nat using that by linarith
  then show ?thesis using assms row by (auto simp: vga_shows_def vga_put_at_def nth_list_update cell_eq)
qed

lemma vga_shows_col [simp]: "vga_shows color (v\<lparr>vga_col := k\<rparr>) d \<longleftrightarrow> vga_shows color v d"
  by (simp add: vga_shows_def)

lemma vga_shows_move [simp]: "vga_shows color (vga_move_cursor v) d \<longleftrightarrow> vga_shows color v d"
  by (simp add: vga_shows_def)

lemma vga_newline_col [simp]: "vga_newline (v\<lparr>vga_col := k\<rparr>) = vga_newline v"
  by (simp add: vga_newline_def)

text \<open>\<open>vga_putc\<close> as a choice of document operations, the cursor update aside.\<close>

lemma vga_putc_cases:
  assumes "vga_ok v" "c \<noteq> CHR 0x0D"
  shows "vga_putc c v = vga_move_cursor
    (if c = CHR 0x0A then vga_newline v
     else if c = CHR 0x09 then
       (if 80 \<le> 4 * ((vga_col v + 4) div 4) then vga_newline v else v\<lparr>vga_col := 4 * ((vga_col v + 4) div 4)\<rparr>)
     else if c = CHR 0x08 then
       (if vga_col v > 0 then (vga_put_at (vga_row v * 80 + (vga_col v - 1)) (CHR '' '') v)\<lparr>vga_col := vga_col v - 1\<rparr> else v)
     else if 80 \<le> Suc (vga_col v) then vga_newline (vga_put_at (vga_row v * 80 + vga_col v) c v)
     else (vga_put_at (vga_row v * 80 + vga_col v) c v)\<lparr>vga_col := Suc (vga_col v)\<rparr>)"
  using assms by (cases v) (auto simp: vga_putc_def vga_newline_def vga_ok_def vga_dims Let_def vga_put_at_def)

lemma vga_putc_displays:
  assumes "vga_displays color v d" "c \<noteq> CHR 0x0D"
  shows "vga_displays color (vga_putc c v) (doc_putc 80 c d)"
proof -
  let ?k = "length (cur_line d)"
  have v: "vga_shows color v d" "doc_ok 80 d" "vga_col v = ?k" "vga_ok v" "?k < 80"
    using assms(1) vga_displays_ok by (auto simp: vga_displays_def doc_ok_def)
  note cases = vga_putc_cases [OF v(4) assms(2), unfolded v(3)]
  have break_ok: "vga_displays color (vga_move_cursor (vga_newline w)) (break_line e)" if "vga_shows color w e" "doc_ok 80 (break_line e)" for w e
    using vga_shows_newline [OF that(1)] that(2) by (simp add: vga_displays_def)
  have typed: "vga_shows color (vga_put_at (vga_row v * 80 + ?k) c v) (type_char c d)"
    by (rule vga_shows_put [OF v(1,5)]) (simp_all add: char_at_type)
  have padded: "vga_shows color v (pad_line n d)" for n using v(1) by (simp add: vga_shows_def char_at_pad)
  have erased: "vga_shows color (vga_put_at (vga_row v * 80 + (?k - 1)) (CHR '' '') v) (d\<lparr>cur_line := butlast (cur_line d)\<rparr>)"
    if "0 < ?k" by (rule vga_shows_put [OF v(1)]) (use v(5) that in \<open>auto simp: char_at_butlast\<close>)
  have ok: "doc_ok 80 (doc_putc 80 c d)" using v(2) by (rule doc_putc_ok)
  consider "c = CHR 0x0A" | "c = CHR 0x09" | "c = CHR 0x08" | "c \<noteq> CHR 0x0A" "c \<noteq> CHR 0x09" "c \<noteq> CHR 0x08" by blast
  then show ?thesis
  proof cases
    case 1
    then show ?thesis unfolding cases using break_ok [OF v(1)] ok by (simp add: doc_putc_def)
  next
    case 2
    then show ?thesis unfolding cases using break_ok [OF v(1)] ok padded
      by (auto simp: doc_putc_def vga_displays_def split: if_splits)
  next
    case 3
    then show ?thesis unfolding cases using v ok erased by (auto simp: doc_putc_def vga_displays_def doc_nil)
  next
    case 4
    then show ?thesis unfolding cases using break_ok [OF typed] ok typed
      by (auto simp: doc_putc_def vga_displays_def split: if_splits)
  qed
qed

interpretation vga_text: text_console 80 "vga_displays color" vga_putc
  by unfold_locales (rule vga_putc_displays)

lemma vga_clear_displays:
  assumes "length (vga_cells v) = 2000"
  shows "vga_displays (vga_color v) (vga_clear v) empty_doc"
proof -
  have "r * 80 + c < 2000" if "r < 25" "c < 80" for r c :: nat using that by linarith
  moreover have "vga_row (vga_clear v) = 0" "vga_col (vga_clear v) = 0" "vga_color (vga_clear v) = vga_color v"
    by (simp_all add: vga_clear_def Let_def)
  ultimately show ?thesis
    using vga_clear_cells [OF assms] by (simp add: vga_displays_def vga_shows_def doc_ok_def) (simp add: empty_doc_def)
qed

lemma vga_init_color: "vga_color (vga_set_color VGA_LIGHT_GREY VGA_BLACK v) = 7"
  by (simp add: vga_set_color_def VGA_LIGHT_GREY_def VGA_BLACK_def)

lemma vga_init_displays: "length (vga_cells v) = 2000 \<Longrightarrow> vga_displays 7 (vga_init v) empty_doc"
  using vga_clear_displays [of "vga_set_color VGA_LIGHT_GREY VGA_BLACK v"]
  unfolding vga_init_def vga_init_color by (simp add: vga_set_color_def)

lemma vga_write_ok:
  assumes "length (vga_cells v) = 2000"
  shows "vga_ok (vga_write s (vga_init v))"
proof -
  have "vga_ok (vga_init v)" using assms by (auto simp: vga_init_def vga_set_color_def intro!: vga_clear_ok)
  moreover have "vga_ok w \<Longrightarrow> vga_ok (fold vga_putc t w)" for t w
    by (induction t arbitrary: w) (auto simp: vga_putc_ok)
  ultimately show ?thesis by (simp add: vga_write_def)
qed

text \<open>
  C28: A text written to a freshly initialised console, newlines, tabs and backspaces included: the text
  memory shows the last 25 lines of its layout at width 80, light grey on black, blanks after
  the end of each line.
\<close>

theorem vga_write_shows_text:
  assumes "length (vga_cells v) = 2000" "CHR 0x0D \<notin> set s" "NUL \<notin> set s" "r < 25" "c < 80"
  shows "vga_cells (vga_write s (vga_init v)) ! (r * 80 + c) = vga_entry (char_at 25 (layout 80 s) r c) 7"
  using vga_text.text_shows [OF vga_init_displays [OF assms(1)] assms(2)] assms(3-5)
  by (simp add: vga_write_def cstr_id vga_displays_def vga_shows_def)

theorem vga_write_shows_text_witness:
  "vga_cells (vga_write (''thu'' @ [CHR 0x0A, CHR 0x09] @ ''os'')
     (vga_init \<lparr>vga_cells = replicate 2000 0, vga_row = 3, vga_col = 5, vga_color = 0, vga_io = []\<rparr>)) ! (1 * 80 + 5) = 0x0773"
proof -
  have "char_at 25 (layout 80 (''thu'' @ [CHR 0x0A, CHR 0x09] @ ''os'')) 1 5 = CHR ''s''" by code_simp
  then show ?thesis
    using vga_write_shows_text [where r = 1 and c = 5 and s = "''thu'' @ [CHR 0x0A, CHR 0x09] @ ''os''" and
      v = "\<lparr>vga_cells = replicate 2000 0, vga_row = 3, vga_col = 5, vga_color = 0, vga_io = []\<rparr>"]
    by (simp add: vga_entry_def)
qed

text \<open>
  A character of the upper half of the code page has its sign extended over the attribute
  byte: it appears bright white on white (blinking), whatever colour is set.
\<close>

lemma vga_entry_high: "128 \<le> (of_char c :: u8) \<Longrightarrow> drop_bit 8 (vga_entry c color) = 0xFF"
proof -
  assume "128 \<le> (of_char c :: u8)"
  moreover have "take_bit 7 (of_char c :: u8) = of_char c" if "\<not> bit (of_char c :: u8) 7"
    by (rule bit_word_eqI) (use that in \<open>auto simp: bit_take_bit_iff less_Suc_eq numeral_eq_Suc\<close>)
  ultimately have "bit (of_char c :: u8) 7"
    using take_bit_nat_less_exp [of 7 "unat (of_char c :: u8)"] unsigned_take_bit_eq [of 7 "of_char c :: u8", where 'a = nat]
    by (fastforce simp: word_le_nat_alt)
  then have "drop_bit 8 (vga_entry c color) = mask 8"
    by (auto simp: vga_entry_def bit_simps intro!: bit_word_eqI)
  then show ?thesis by (simp add: mask_eq_exp_minus_1)
qed

end
