(* ===== verification/Interrupts.thy ===== *)
theory Interrupts
  imports Descriptors Vga Kprintf "HOL-Library.Monad_Syntax"
begin

text \<open>
  Interrupt routing: the 8259 controllers (\<open>kernel/arch/x86/pic.c\<close>), exception and IRQ
  gates and their dispatchers (\<open>isr.c\<close>, \<open>irq.c\<close>), the crash reports (\<open>isr.c\<close>, \<open>panic.c\<close>) and the timer (\<open>pit.c\<close>). The tables hold
  function pointers; \<open>run\<close> says what the function behind a pointer does to the rest of the
  kernel state \<open>'s\<close> and the port trace. The entry stubs of \<open>isr_stubs.S\<close> are known by their
  addresses only, a parameter.
\<close>

section \<open>The 8259 controllers (pic.c)\<close>

definition PIC1_CMD :: u16 where "PIC1_CMD = 0x20"
definition PIC1_DATA :: u16 where "PIC1_DATA = 0x21"
definition PIC2_CMD :: u16 where "PIC2_CMD = 0xA0"
definition PIC2_DATA :: u16 where "PIC2_DATA = 0xA1"
definition PIC_EOI :: u8 where "PIC_EOI = 0x20"
definition ICW1_INIT :: u8 where "ICW1_INIT = 0x10"
definition ICW1_ICW4 :: u8 where "ICW1_ICW4 = 0x01"
definition ICW4_8086 :: u8 where "ICW4_8086 = 0x01"
definition PIC1_OFFSET :: u8 where "PIC1_OFFSET = 0x20"
definition PIC2_OFFSET :: u8 where "PIC2_OFFSET = 0x28"

definition pic_remap :: "devices \<Rightarrow> io \<Rightarrow> io" where
  "pic_remap dev tr =
     (let (mask1, tr) = inb dev PIC1_DATA tr;
          (mask2, tr) = inb dev PIC2_DATA tr;
          tr = io_wait (outb PIC1_CMD (ICW1_INIT OR ICW1_ICW4) tr);
          tr = io_wait (outb PIC2_CMD (ICW1_INIT OR ICW1_ICW4) tr);
          tr = io_wait (outb PIC1_DATA PIC1_OFFSET tr);
          tr = io_wait (outb PIC2_DATA PIC2_OFFSET tr);
          tr = io_wait (outb PIC1_DATA 0x04 tr);
          tr = io_wait (outb PIC2_DATA 0x02 tr);
          tr = io_wait (outb PIC1_DATA ICW4_8086 tr);
          tr = io_wait (outb PIC2_DATA ICW4_8086 tr);
          tr = outb PIC1_DATA mask1 tr
      in outb PIC2_DATA mask2 tr)"

definition pic_send_eoi :: "u8 \<Rightarrow> io \<Rightarrow> io" where
  "pic_send_eoi irq tr =
     (let tr = (if irq \<ge> 8 then outb PIC2_CMD PIC_EOI tr else tr)
      in outb PIC1_CMD PIC_EOI tr)"

section \<open>Register frames and handlers (isr.h)\<close>

record registers =
  r_ds :: u32
  r_edi :: u32
  r_esi :: u32
  r_ebp :: u32
  r_esp :: u32
  r_ebx :: u32
  r_edx :: u32
  r_ecx :: u32
  r_eax :: u32
  r_int_no :: u32
  r_err_code :: u32
  r_eip :: u32
  r_cs :: u32
  r_eflags :: u32
  r_useresp :: u32
  r_ss :: u32

text \<open>The handlers the kernel registers, as function pointers, and what they do.\<close>

datatype handler_fn = Pit_callback | Keyboard_callback | Mouse_cb

type_synonym handlers = "handler_fn option list"

type_synonym 's run = "handler_fn \<Rightarrow> registers \<Rightarrow> 's \<times> io \<Rightarrow> 's \<times> io"

section \<open>Exceptions (isr.c)\<close>

definition exception_names :: "string list" where
  "exception_names =
     [''Divide-by-zero'', ''Debug'', ''Non-maskable interrupt'', ''Breakpoint'', ''Overflow'', ''Bound range exceeded'',
      ''Invalid opcode'', ''Device not available'', ''Double fault'', ''Coprocessor segment overrun'', ''Invalid TSS'',
      ''Segment not present'', ''Stack-segment fault'', ''General protection fault'', ''Page fault'', ''Reserved'',
      ''x87 floating-point exception'', ''Alignment check'', ''Machine check'', ''SIMD floating-point exception'',
      ''Virtualization exception'', ''Control protection exception''] @ replicate 10 ''Reserved''"

definition isr_register_handler :: "u8 \<Rightarrow> handler_fn \<Rightarrow> handlers \<Rightarrow> handlers" where
  "isr_register_handler n h hs = (if n < 32 then hs[unat n := Some h] else hs)"

text \<open>
  The crash report: the screen is cleared in white on red and the report goes to the console.
  The last thing it does is halt for good.
\<close>

definition isr_report :: "registers \<Rightarrow> vga \<times> console \<Rightarrow> (vga \<times> console) option" where
  "isr_report r scr = do {
     let (v, c) = scr;
     let n = r_int_no r;
     let v = vga_clear (vga_set_color VGA_WHITE VGA_RED v);
     c \<leftarrow> kprintf (NL @ ''  *** THUOS CPU EXCEPTION ***'' @ NL @ NL) [] c;
     c \<leftarrow> kprintf (''  #%u  %s'' @ NL) [KNum n, KStr (Some (if n < 32 then exception_names ! unat n else ''Unknown''))] c;
     c \<leftarrow> kprintf (''  error code : 0x%08x'' @ NL) [KNum (r_err_code r)] c;
     c \<leftarrow> kprintf (''  eip        : 0x%08x'' @ NL) [KNum (r_eip r)] c;
     c \<leftarrow> kprintf (''  cs         : 0x%08x'' @ NL) [KNum (r_cs r)] c;
     c \<leftarrow> kprintf (''  eflags     : 0x%08x'' @ NL) [KNum (r_eflags r)] c;
     c \<leftarrow> kprintf (''  eax=0x%08x ebx=0x%08x ecx=0x%08x edx=0x%08x'' @ NL)
       [KNum (r_eax r), KNum (r_ebx r), KNum (r_ecx r), KNum (r_edx r)] c;
     c \<leftarrow> kprintf (NL @ ''  System halted.'' @ NL) [] c;
     Some (v, c)
   }"

text \<open>
  An exception goes to its registered handler (\<open>Inr\<close>); without one the report is printed and
  the machine halts (\<open>Inl\<close>, with the final screen).
\<close>

definition isr_handler :: "'s run \<Rightarrow> handlers \<Rightarrow> registers \<Rightarrow> 's \<times> io \<Rightarrow> vga \<times> console \<Rightarrow>
    (vga \<times> console) option + ('s \<times> io)" where
  "isr_handler run hs r st scr =
     (let n = r_int_no r
      in case (if n < 32 then hs ! unat n else None) of
           Some h \<Rightarrow> Inr (run h r st)
         | None \<Rightarrow> Inl (isr_report r scr))"

text \<open>\<open>panic\<close> (\<open>kernel/core/panic.c\<close>) reports in the same way and halts.\<close>

definition panic :: "char list \<Rightarrow> char list \<Rightarrow> u32 \<Rightarrow> vga \<times> console \<Rightarrow> (vga \<times> console) option" where
  "panic message file line scr = do {
     let (v, c) = scr;
     let v = vga_clear (vga_set_color VGA_WHITE VGA_RED v);
     c \<leftarrow> kprintf NL [] c;
     c \<leftarrow> kprintf (''  *** THUOS KERNEL PANIC ***'' @ NL @ NL) [] c;
     c \<leftarrow> kprintf (''  %s'' @ NL @ NL) [KStr (Some message)] c;
     c \<leftarrow> kprintf (''  at %s:%d'' @ NL @ NL) [KStr (Some file), KNum line] c;
     c \<leftarrow> kprintf (''  The system has been halted to prevent damage.'' @ NL) [] c;
     c \<leftarrow> kprintf (''  This is an honest stop, not a fake recovery.'' @ NL) [] c;
     Some (v, c)
   }"

definition isr_init :: "(nat \<Rightarrow> u32) \<Rightarrow> idt_entry list \<Rightarrow> idt_entry list" where
  "isr_init isr_stub idt = fold (\<lambda>n. idt_set_gate (word_of_nat n) (isr_stub n) 0x08 0x8E) [0..<32] idt"

section \<open>Hardware interrupts (irq.c)\<close>

definition irq_register_handler :: "u8 \<Rightarrow> handler_fn \<Rightarrow> handlers \<Rightarrow> handlers" where
  "irq_register_handler irq h hs = (if irq < 16 then hs[unat irq := Some h] else hs)"

definition irq_handler :: "'s run \<Rightarrow> handlers \<Rightarrow> registers \<Rightarrow> 's \<times> io \<Rightarrow> 's \<times> io" where
  "irq_handler run hs r st =
     (let irq = (ucast (r_int_no r - 32) :: u8);
          (s, tr) = (case (if irq < 16 then hs ! unat irq else None) of Some h \<Rightarrow> run h r st | None \<Rightarrow> st)
      in (s, pic_send_eoi irq tr))"

definition irq_init :: "devices \<Rightarrow> (nat \<Rightarrow> u32) \<Rightarrow> idt_entry list \<times> io \<Rightarrow> idt_entry list \<times> io" where
  "irq_init dev irq_stub st =
     (let (idt, tr) = st
      in (fold (\<lambda>n. idt_set_gate (word_of_nat (32 + n)) (irq_stub n) 0x08 0x8E) [0..<16] idt, pic_remap dev tr))"

section \<open>The timer (pit.c)\<close>

definition PIT_CHANNEL0 :: u16 where "PIT_CHANNEL0 = 0x40"
definition PIT_COMMAND :: u16 where "PIT_COMMAND = 0x43"
definition PIT_BASE_HZ :: u32 where "PIT_BASE_HZ = 1193182"

record pit =
  ticks :: u32
  freq_hz :: u32

definition pit_callback :: "pit \<Rightarrow> pit" where
  "pit_callback p = p\<lparr>ticks := ticks p + 1\<rparr>"

definition pit_init :: "u32 \<Rightarrow> pit \<times> handlers \<times> io \<Rightarrow> pit \<times> handlers \<times> io" where
  "pit_init frequency_hz st =
     (let (p, hs, tr) = st;
          f = (if frequency_hz = 0 then 100 else frequency_hz);
          p = p\<lparr>freq_hz := f, ticks := 0\<rparr>;
          divisor = PIT_BASE_HZ div f;
          divisor = (if divisor > 0xFFFF then 0xFFFF else divisor);
          tr = outb PIT_COMMAND 0x36 tr;
          tr = outb PIT_CHANNEL0 (ucast (divisor AND 0xFF)) tr;
          tr = outb PIT_CHANNEL0 (ucast (drop_bit 8 divisor AND 0xFF)) tr
      in (p, irq_register_handler 0 Pit_callback hs, tr))"

definition pit_seconds :: "pit \<Rightarrow> u32" where
  "pit_seconds p = (if freq_hz p \<noteq> 0 then ticks p div freq_hz p else 0)"

section \<open>Gates\<close>

definition gate :: "u32 \<Rightarrow> u16 \<Rightarrow> u8 \<Rightarrow> idt_entry" where
  "gate h sel fl = \<lparr>i_base_low = ucast (h AND 0xFFFF), i_selector = sel, i_always0 = 0, i_flags = fl,
     i_base_high = ucast (drop_bit 16 h AND 0xFFFF)\<rparr>"

lemma gate_fields [simp]: "gate_offset (gate h sel fl) = h" "i_selector (gate h sel fl) = sel" "i_flags (gate h sel fl) = fl"
  by (simp_all add: gate_def gate_offset_set)

lemma idt_set_gate_gate: "idt_set_gate v h sel fl idt = idt[unat v := gate h sel fl]"
  by (simp add: idt_set_gate_def gate_def)

lemma unat_vector: "n < 256 \<Longrightarrow> unat (word_of_nat n :: u8) = n"
  by (simp add: unat_of_nat)

lemma idt_gates:
  assumes "b + k \<le> 256" "length idt = 256" "i < 256"
  shows "fold (\<lambda>n. idt_set_gate (word_of_nat (b + n)) (f n) sel fl) [0..<k] idt ! i =
      (if b \<le> i \<and> i < b + k then gate (f (i - b)) sel fl else idt ! i) \<and>
    length (fold (\<lambda>n. idt_set_gate (word_of_nat (b + n)) (f n) sel fl) [0..<k] idt) = 256"
  using assms
proof (induction k)
  case (Suc k)
  then have "unat (word_of_nat (b + k) :: u8) = b + k" by (intro unat_vector) simp
  then show ?case using Suc by (auto simp: idt_set_gate_gate nth_list_update simp del: of_nat_add)
qed auto

text \<open>Every interrupt is acknowledged, whatever its handler did, the second controller first.\<close>

lemma irq_acknowledged:
  "\<exists>tr. snd (irq_handler run hs r st) = tr @ (if ucast (r_int_no r - 32) \<ge> (8 :: u8) then [Outb PIC2_CMD PIC_EOI] else []) @
     [Outb PIC1_CMD PIC_EOI]"
proof -
  obtain s tr where "(case (if (ucast (r_int_no r - 32) :: u8) < 16 then hs ! unat (ucast (r_int_no r - 32) :: u8) else None) of
      Some h \<Rightarrow> run h r st | None \<Rightarrow> st) = (s, tr)" by fastforce
  then show ?thesis by (auto simp: irq_handler_def pic_send_eoi_def outb_def Let_def)
qed

lemma irq_dispatch:
  assumes "irq < 16" "length hs = 16" "r_int_no r = word_of_nat (32 + irq)"
  shows "fst (irq_handler run hs r st) = (case hs ! irq of Some h \<Rightarrow> fst (run h r st) | None \<Rightarrow> fst st)"
proof -
  have "(ucast (r_int_no r - 32) :: u8) = word_of_nat irq"
    using assms(1) by (simp add: assms(3) word_unat_eq_iff unsigned_ucast_eq take_bit_eq_mod unat_of_nat_u32 unat_of_nat)
  moreover have "unat (word_of_nat irq :: u8) = irq" using assms(1) by (intro unat_vector) simp
  ultimately show ?thesis using assms(1)
    by (auto simp: irq_handler_def Let_def word_less_nat_alt split: option.splits prod.splits)
qed


section \<open>Faults always reach the report\<close>

lemma isr_report_returns: "returns (isr_report r scr) (\<lambda>(v, c). vga_color v = 0x4F)"
  unfolding isr_report_def Let_def
  by (cases scr) (auto intro!: returns_intros simp: vga_clear_def vga_set_color_def VGA_WHITE_def VGA_RED_def Let_def NL_def)

end
