(* ===== verification/Syscall.thy ===== *)
theory Syscall
  imports Interrupts Kprintf "HOL-Library.Monad_Syntax"
begin

text \<open>
  System calls and user mode: the dispatch table (\<open>kernel/arch/x86/syscall_core.c\<close>), the
  handlers and the \<open>int 0x80\<close> entry (\<open>syscall.c\<close>, \<open>syscall_stub.S\<close>) and the ring-3
  round trip (\<open>usermode.c\<close>, \<open>usermode_entry.S\<close>). The lemmas show how numbers are routed,
  that only vector 0x80 is open to ring 3, and that the user task comes back with its code.
\<close>

section \<open>The dispatch table (syscall_core.c)\<close>

definition SYS_ENOSYS :: u32 where "SYS_ENOSYS = - 38"
definition SYS_MAX :: nat where "SYS_MAX = 16"
definition SYS_UPTIME :: u32 where "SYS_UPTIME = 0"
definition SYS_WRITE :: u32 where "SYS_WRITE = 1"
definition SYS_GETPID :: u32 where "SYS_GETPID = 2"
definition SYS_VERSION :: u32 where "SYS_VERSION = 3"
definition SYS_EXIT :: u32 where "SYS_EXIT = 4"

text \<open>The table holds function pointers to the handlers of the kernel.\<close>

datatype syscall_fn = Sys_uptime | Sys_write | Sys_getpid | Sys_version | Sys_exit

definition syscall_table_init :: "syscall_fn option list \<Rightarrow> syscall_fn option list" where
  "syscall_table_init tbl = map (\<lambda>_. None) tbl"

definition syscall_register :: "int \<Rightarrow> syscall_fn \<Rightarrow> syscall_fn option list \<Rightarrow> int \<times> syscall_fn option list" where
  "syscall_register num fn tbl =
     (if num < 0 \<or> num \<ge> int (length tbl) then (-1, tbl) else (0, tbl[nat num := Some fn]))"

text \<open>\<open>run\<close> calls the function behind a pointer; the length of the table is \<open>max\<close>.\<close>

definition syscall_call ::
  "(syscall_fn \<Rightarrow> u32 \<Rightarrow> u32 \<Rightarrow> u32 \<Rightarrow> 's \<Rightarrow> 'r) \<Rightarrow> (u32 \<Rightarrow> 's \<Rightarrow> 'r) \<Rightarrow> syscall_fn option list \<Rightarrow> u32 \<Rightarrow> u32 \<Rightarrow> u32 \<Rightarrow> u32 \<Rightarrow> 's \<Rightarrow> 'r" where
  "syscall_call run ret tbl num a b c s =
     (if num \<ge> word_of_nat (length tbl) \<or> tbl ! unat num = None then ret SYS_ENOSYS s
      else run (the (tbl ! unat num)) a b c s)"

section \<open>Handlers and dispatch (syscall.c)\<close>

record sysk =
  table :: "syscall_fn option list"
  last_cs :: u32
  um_exit_code :: u32
  int_flag :: bool
  sys_pit :: pit
  sys_con :: console
  sys_mem :: mem

text \<open>
  \<open>int_flag\<close> is the processor's interrupt flag in the kernel. A system call leaves it as it
  is: the gate clears it and \<open>iret\<close> restores it. Leaving user mode is different.
\<close>

definition usermode_resume_kernel :: "sysk \<Rightarrow> sysk" where
  "usermode_resume_kernel s = s\<lparr>int_flag := False\<rparr>"

text \<open>
  A handler returns a value, or unwinds to the caller of \<open>usermode_enter\<close> without returning
  (\<open>usermode_resume_kernel\<close>).
\<close>

datatype sys_result = Ret u32 sysk | Unwind sysk

fun write_loop :: "u32 \<Rightarrow> u32 \<Rightarrow> nat \<Rightarrow> mem \<Rightarrow> console \<Rightarrow> console" where
  "write_loop buf i 0 m c = c"
| "write_loop buf i (Suc n) m c = write_loop buf (i + 1) n m (kputc (char_of (unat (m (buf + i)))) c)"

definition sys_uptime :: "u32 \<Rightarrow> u32 \<Rightarrow> u32 \<Rightarrow> sysk \<Rightarrow> sys_result" where
  "sys_uptime a b c s = Ret (ticks (sys_pit s)) s"

definition sys_write :: "u32 \<Rightarrow> u32 \<Rightarrow> u32 \<Rightarrow> sysk \<Rightarrow> sys_result" where
  "sys_write fd buf len s = Ret len (s\<lparr>sys_con := write_loop buf 0 (unat len) (sys_mem s) (sys_con s)\<rparr>)"

definition sys_getpid :: "u32 \<Rightarrow> u32 \<Rightarrow> u32 \<Rightarrow> sysk \<Rightarrow> sys_result" where
  "sys_getpid a b c s = Ret 0 s"

definition sys_version :: "u32 \<Rightarrow> u32 \<Rightarrow> u32 \<Rightarrow> sysk \<Rightarrow> sys_result" where
  "sys_version a b c s = Ret 0x0011 s"

definition sys_exit :: "u32 \<Rightarrow> u32 \<Rightarrow> u32 \<Rightarrow> sysk \<Rightarrow> sys_result" where
  "sys_exit code b c s = Unwind (usermode_resume_kernel (s\<lparr>um_exit_code := code\<rparr>))"

fun run_syscall :: "syscall_fn \<Rightarrow> u32 \<Rightarrow> u32 \<Rightarrow> u32 \<Rightarrow> sysk \<Rightarrow> sys_result" where
  "run_syscall Sys_uptime = sys_uptime"
| "run_syscall Sys_write = sys_write"
| "run_syscall Sys_getpid = sys_getpid"
| "run_syscall Sys_version = sys_version"
| "run_syscall Sys_exit = sys_exit"

definition syscall_init :: "u32 \<Rightarrow> sysk \<times> idt_entry list \<Rightarrow> sysk \<times> idt_entry list" where
  "syscall_init syscall_stub st =
     (let (s, idt) = st;
          t = syscall_table_init (table s);
          t = snd (syscall_register (sint SYS_UPTIME) Sys_uptime t);
          t = snd (syscall_register (sint SYS_WRITE) Sys_write t);
          t = snd (syscall_register (sint SYS_GETPID) Sys_getpid t);
          t = snd (syscall_register (sint SYS_VERSION) Sys_version t)
      in (s\<lparr>table := t\<rparr>, idt_set_gate 0x80 syscall_stub 0x08 0xEE idt))"

text \<open>The result of a returning call goes to the saved eax of the frame.\<close>

definition syscall_dispatch :: "registers \<Rightarrow> sysk \<Rightarrow> registers \<times> sys_result" where
  "syscall_dispatch r s =
     (let res = syscall_call run_syscall Ret (table s) (r_eax r) (r_ebx r) (r_ecx r) (r_edx r) (s\<lparr>last_cs := r_cs r\<rparr>)
      in case res of Ret v s' \<Rightarrow> (r\<lparr>r_eax := v\<rparr>, Ret v s') | Unwind s' \<Rightarrow> (r, Unwind s'))"

definition syscall_register_extra :: "int \<Rightarrow> syscall_fn \<Rightarrow> sysk \<Rightarrow> int \<times> sysk" where
  "syscall_register_extra num fn s =
     (let (r, t) = syscall_register num fn (table s) in (r, s\<lparr>table := t\<rparr>))"

definition syscall_count :: "sysk \<Rightarrow> nat" where
  "syscall_count s = count_if (\<lambda>e. e \<noteq> None) (table s)"

text \<open>
  \<open>int $0x80\<close> executed with code selector \<open>cs\<close>: the stub builds a frame from the registers,
  calls the dispatcher, and the caller finds the saved eax in eax.
\<close>

definition int80 :: "u32 \<Rightarrow> u32 \<Rightarrow> u32 \<Rightarrow> u32 \<Rightarrow> u32 \<Rightarrow> sysk \<Rightarrow> sys_result" where
  "int80 cs num a b c s =
     snd (syscall_dispatch
       \<lparr>r_ds = 0, r_edi = 0, r_esi = 0, r_ebp = 0, r_esp = 0, r_ebx = a, r_edx = c, r_ecx = b, r_eax = num,
        r_int_no = 0x80, r_err_code = 0, r_eip = 0, r_cs = cs, r_eflags = 0, r_useresp = 0, r_ss = 0\<rparr> s)"

text \<open>From the kernel, code selector 0x08. An unwinding call does not come back here: \<open>None\<close>.\<close>

definition syscall_invoke :: "u32 \<Rightarrow> u32 \<Rightarrow> u32 \<Rightarrow> u32 \<Rightarrow> sysk \<Rightarrow> (u32 \<times> sysk) option" where
  "syscall_invoke num a b c s =
     (case int80 (ucast UM_KCODE_SEL) num a b c s of Ret v s' \<Rightarrow> Some (v, s') | Unwind s' \<Rightarrow> None)"

definition syscall_selftest :: "u32 \<Rightarrow> u32 \<Rightarrow> sysk \<Rightarrow> sysk option" where
  "syscall_selftest msg len s = do {
     (_, s) \<leftarrow> syscall_invoke SYS_WRITE 1 msg len s;
     (t, s) \<leftarrow> syscall_invoke SYS_UPTIME 0 0 0 s;
     c \<leftarrow> kprintf (''  [sys] int 0x80 SYS_UPTIME returned %d ticks'' @ NL) [KNum t] (sys_con s);
     Some (s\<lparr>sys_con := c\<rparr>)
   }"

section \<open>User mode (usermode.c)\<close>

definition usermode_init :: "sysk \<Rightarrow> sysk" where
  "usermode_init s = snd (syscall_register_extra (sint SYS_EXIT) Sys_exit s)"

text \<open>
  A user program is the sequence of its system calls; \<open>usermode_enter\<close> runs it at ring 3
  (code selector 0x1B) until a call unwinds. \<open>None\<close> when it never does.
\<close>

fun user_calls :: "(u32 \<times> u32 \<times> u32 \<times> u32) list \<Rightarrow> sysk \<Rightarrow> sysk option" where
  "user_calls [] s = None"
| "user_calls ((n, a, b, c) # calls) s =
     (case int80 (ucast UM_UCODE_SEL) n a b c s of
        Ret v s' \<Rightarrow> user_calls calls s'
      | Unwind s' \<Rightarrow> Some s')"

text \<open>The calls of \<open>user_entry\<close> with \<open>um_hello\<close> at address \<open>hello\<close>, up to the exit.\<close>

definition user_entry :: "u32 \<Rightarrow> u32 \<Rightarrow> (u32 \<times> u32 \<times> u32 \<times> u32) list" where
  "user_entry hello len = [(SYS_WRITE, 1, hello, len), (SYS_GETPID, 0, 0, 0), (SYS_EXIT, 0, 0, 0)]"

definition usermode_run :: "u32 \<Rightarrow> u32 \<Rightarrow> sysk \<Rightarrow> (u32 \<times> sysk) option" where
  "usermode_run hello len s =
     map_option (\<lambda>s'. (um_exit_code s', s')) (user_calls (user_entry hello len) (s\<lparr>um_exit_code := 0\<rparr>))"

definition usermode_selftest :: "u32 \<Rightarrow> u32 \<Rightarrow> sysk \<Rightarrow> sysk option" where
  "usermode_selftest hello len s = do {
     (code, s) \<leftarrow> usermode_run hello len s;
     let cs = last_cs s;
     c \<leftarrow> kprintf (''  [user] back in ring 0 (exit %d); last int 0x80 came from CS=0x%02x => CPL %u'' @ NL)
       [KNum code, KNum cs, KNum (cs AND 3)] (sys_con s);
     Some (s\<lparr>sys_con := c\<rparr>)
   }"

section \<open>The table after boot\<close>

lemmas sys_numbers = SYS_UPTIME_def SYS_WRITE_def SYS_GETPID_def SYS_VERSION_def SYS_EXIT_def

text \<open>The state and the gates as \<open>kernel_main\<close> leaves them.\<close>

definition sys_boot :: "u32 \<Rightarrow> sysk \<Rightarrow> idt_entry list \<Rightarrow> sysk \<times> idt_entry list" where
  "sys_boot stub s idt = (let (s, idt) = syscall_init stub (s, idt) in (usermode_init s, idt))"

definition boot_table :: "syscall_fn option list" where
  "boot_table = [Some Sys_uptime, Some Sys_write, Some Sys_getpid, Some Sys_version, Some Sys_exit] @ replicate 11 None"

lemma sys_boot_table: "length (table s) = 16 \<Longrightarrow> fst (sys_boot stub s idt) = s\<lparr>table := boot_table\<rparr>"
proof -
  assume "length (table s) = 16"
  then have "map (\<lambda>_. None) (table s) = replicate 16 (None :: syscall_fn option)" by (simp add: map_replicate_const)
  then show ?thesis
    by (simp add: sys_boot_def syscall_init_def usermode_init_def syscall_register_extra_def syscall_register_def
        syscall_table_init_def sys_numbers boot_table_def Let_def) (simp add: numeral_eq_Suc)
qed

lemma length_boot_table: "length boot_table = 16"
  by (simp add: boot_table_def)

lemma boot_table_None: "5 \<le> i \<Longrightarrow> i < 16 \<Longrightarrow> boot_table ! i = None"
  by (auto simp: boot_table_def nth_append nth_Cons')

lemma boot_table_call:
  "syscall_call run ret boot_table num a b c s =
     (if num = SYS_UPTIME then run Sys_uptime a b c s
      else if num = SYS_WRITE then run Sys_write a b c s
      else if num = SYS_GETPID then run Sys_getpid a b c s
      else if num = SYS_VERSION then run Sys_version a b c s
      else if num = SYS_EXIT then run Sys_exit a b c s
      else ret SYS_ENOSYS s)"
proof (cases "5 \<le> unat num")
  case True
  then have "num \<noteq> 0" "num \<noteq> 1" "num \<noteq> 2" "num \<noteq> 3" "num \<noteq> 4" by auto
  moreover have "num \<ge> word_of_nat (length boot_table) \<or> boot_table ! unat num = None"
    using boot_table_None [OF True] by (cases "unat num < 16") (simp_all add: length_boot_table word_le_nat_alt)
  ultimately show ?thesis by (simp add: syscall_call_def sys_numbers)
next
  case False
  then have "unat num \<in> {0, 1, 2, 3, 4}" by auto
  then have "num \<in> {0, 1, 2, 3, 4}" by (auto simp: word_unat_eq_iff)
  then show ?thesis by (auto simp: syscall_call_def sys_numbers boot_table_def word_le_nat_alt)
qed

text \<open>
  Once the kernel has booted, a system call does what its number says: uptime, write, getpid,
  version and exit are routed to their handlers with the caller's ebx, ecx and edx, every other
  number answers \<open>SYS_ENOSYS\<close>, and only the recorded code selector changes in that case.
\<close>

theorem syscall_dispatch_routes:
  assumes "length (table s0) = 16" and s: "s = fst (sys_boot stub s0 idt)"
  shows "snd (syscall_dispatch r s) =
    (let s' = s\<lparr>last_cs := r_cs r\<rparr>
     in if r_eax r = 0 then Ret (ticks (sys_pit s)) s'
        else if r_eax r = 1 then sys_write (r_ebx r) (r_ecx r) (r_edx r) s'
        else if r_eax r = 2 then Ret 0 s'
        else if r_eax r = 3 then Ret 0x0011 s'
        else if r_eax r = 4 then Unwind (s'\<lparr>um_exit_code := r_ebx r, int_flag := False\<rparr>)
        else Ret (- 38) s')"
  using sys_boot_table [OF assms(1), of stub idt] unfolding s
  by (simp add: syscall_dispatch_def boot_table_call sys_numbers Let_def sys_uptime_def sys_write_def sys_getpid_def
      sys_version_def sys_exit_def SYS_ENOSYS_def usermode_resume_kernel_def)

definition blank_sysk :: sysk where
  "blank_sysk = \<lparr>table = replicate 16 None, last_cs = 0, um_exit_code = 0, int_flag = True, sys_pit = \<lparr>ticks = 7, freq_hz = 100\<rparr>,
     sys_con = \<lparr>sunk = [], klog_buf = replicate 8192 NUL, klog_w = 0\<rparr>, sys_mem = \<lambda>_. 0\<rparr>"

definition frame :: "u32 \<Rightarrow> u32 \<Rightarrow> registers" where
  "frame eax cs = \<lparr>r_ds = 0, r_edi = 0, r_esi = 0, r_ebp = 0, r_esp = 0, r_ebx = 0, r_edx = 0, r_ecx = 0, r_eax = eax,
     r_int_no = 0x80, r_err_code = 0, r_eip = 0, r_cs = cs, r_eflags = 0, r_useresp = 0, r_ss = 0\<rparr>"

theorem syscall_dispatch_routes_witness:
  "snd (syscall_dispatch (frame 9 0x1B) (fst (sys_boot 0x1000 blank_sysk []))) =
     Ret (- 38) ((fst (sys_boot 0x1000 blank_sysk []))\<lparr>last_cs := 0x1B\<rparr>)"
proof -
  have "length (table blank_sysk) = 16" by (simp add: blank_sysk_def)
  from syscall_dispatch_routes [OF this refl, where stub = "0x1000" and idt = "[]" and r = "frame 9 0x1B"]
  show ?thesis by (simp add: frame_def Let_def)
qed

section \<open>The gates after boot\<close>

definition boot_idt :: "devices \<Rightarrow> (nat \<Rightarrow> u32) \<Rightarrow> (nat \<Rightarrow> u32) \<Rightarrow> u32 \<Rightarrow> u32 \<Rightarrow> sysk \<Rightarrow> idt_entry list \<Rightarrow> io \<Rightarrow> idt_entry list" where
  "boot_idt dev isr_stub irq_stub syscall_stub idt_addr s idt tr =
     (let idt = snd (idt_init idt_addr idt);
          idt = isr_init isr_stub idt;
          (idt, tr) = irq_init dev irq_stub (idt, tr)
      in snd (sys_boot syscall_stub s idt))"

lemma boot_idt_gates:
  assumes "length idt = 256" "i < 256"
  shows "boot_idt dev isr_stub irq_stub syscall_stub idt_addr s idt tr ! i =
    (if i = 128 then gate syscall_stub 0x08 0xEE
     else if i < 32 then gate (isr_stub i) 0x08 0x8E
     else if i < 48 then gate (irq_stub (i - 32)) 0x08 0x8E
     else gate 0 0 0)"
proof -
  define t0 where "t0 = snd (idt_init idt_addr idt)"
  define t1 where "t1 = isr_init isr_stub t0"
  define t2 where "t2 = fst (irq_init dev irq_stub (t1, tr))"
  have t0: "t0 ! i = gate 0 0 0 \<and> length t0 = 256"
    using idt_gates [of 0 256 idt i "\<lambda>_. 0" 0 0] assms by (simp add: t0_def idt_init_def del: upt_rec_numeral)
  have t1: "t1 ! i = (if i < 32 then gate (isr_stub i) 0x08 0x8E else t0 ! i) \<and> length t1 = 256"
    using idt_gates [of 0 32 t0 i isr_stub "0x08" "0x8E"] assms t0 by (simp add: t1_def isr_init_def del: upt_rec_numeral)
  have t2: "t2 ! i = (if 32 \<le> i \<and> i < 48 then gate (irq_stub (i - 32)) 0x08 0x8E else t1 ! i) \<and> length t2 = 256"
    using idt_gates [of 32 16 t1 i irq_stub "0x08" "0x8E"] assms t1
    by (simp add: t2_def irq_init_def Let_def del: upt_rec_numeral of_nat_add)
  have "boot_idt dev isr_stub irq_stub syscall_stub idt_addr s idt tr = t2[128 := gate syscall_stub 0x08 0xEE]"
    by (simp add: boot_idt_def t0_def t1_def t2_def sys_boot_def syscall_init_def idt_set_gate_gate Let_def split: prod.splits)
  then show ?thesis using t0 t1 t2 assms(2) by (simp add: nth_list_update)
qed

text \<open>
  C24: After boot the processor finds, for each vector, the stub it should run, entered in the
  kernel code segment: exceptions, hardware interrupts and the system call; all other gates
  are absent. The one gate software at ring 3 may enter is vector 0x80.
\<close>

theorem boot_idt_opens_only_syscall:
  assumes "length idt = 256" "v < 256"
    and g: "g = boot_idt dev isr_stub irq_stub syscall_stub idt_addr s idt tr ! v"
  shows "(gate_present g \<longleftrightarrow> v < 48 \<or> v = 128) \<and>
    (gate_present g \<longrightarrow> i_selector g = UM_KCODE_SEL \<and>
       gate_offset g = (if v < 32 then isr_stub v else if v < 48 then irq_stub (v - 32) else syscall_stub)) \<and>
    (gate_present g \<and> gate_dpl g = 3 \<longleftrightarrow> v = 128)"
  unfolding g using boot_idt_gates [OF assms(1,2)]
  by (auto simp: gate_present_def gate_dpl_def UM_KCODE_SEL_def bit_numeral_rec)

theorem boot_idt_opens_only_syscall_witness:
  "gate_offset (boot_idt \<lparr>dev_b = \<lambda>_ _. 0, dev_l = \<lambda>_ _. 0, dev_m8 = \<lambda>_ _. 0, dev_m32 = \<lambda>_ _. 0\<rparr> (\<lambda>n. word_of_nat n) (\<lambda>n. 0x100) 0xBEEF1234 0x5000 blank_sysk
     (replicate 256 (gate 0 0 0)) [] ! 128) = 0xBEEF1234"
  using boot_idt_opens_only_syscall [OF _ _ refl, of "replicate 256 (gate 0 0 0)" 128] by simp

section \<open>The ring-3 round trip\<close>

lemma write_loop_sunk:
  "sunk (write_loop buf i n m c) = sunk c @ map (\<lambda>k. char_of (unat (m (buf + i + word_of_nat k)))) [0..<n]"
  by (induction n arbitrary: i c) (simp_all add: upt_conv_Cons map_Suc_upt [symmetric] ac_simps del: upt_Suc)

lemma usermode_comes_back:
  assumes "table s = boot_table"
  shows "\<exists>c. usermode_run hello len s =
      Some (0, s\<lparr>last_cs := 0x1B, um_exit_code := 0, int_flag := False, sys_con := c\<rparr>) \<and>
    sunk c = sunk (sys_con s) @ map (\<lambda>k. char_of (unat (sys_mem s (hello + word_of_nat k)))) [0..<unat len]"
  using assms
  by (simp add: usermode_run_def user_entry_def int80_def syscall_dispatch_def boot_table_call sys_numbers
      sys_write_def sys_getpid_def sys_exit_def usermode_resume_kernel_def UM_UCODE_SEL_def Let_def)
    (intro exI [of _ "write_loop hello 0 (unat len) (sys_mem s) (sys_con s)"], simp add: write_loop_sunk)

text \<open>
  C25: The ring-3 demonstration always comes back to the kernel with exit code 0; the text at the
  given address has been printed, and the recorded selector of the last system call proves
  that the caller ran at privilege level 3. Interrupts are off afterwards, whatever they were
  before; the table and the rest of the kernel are unchanged.
\<close>

theorem usermode_run_returns:
  assumes "length (table s0) = 16" and s: "s = fst (sys_boot stub s0 idt)"
  shows "\<exists>c. usermode_run hello len s =
      Some (0, s\<lparr>last_cs := 0x1B, um_exit_code := 0, int_flag := False, sys_con := c\<rparr>) \<and>
    sunk c = sunk (sys_con s) @ map (\<lambda>k. char_of (unat (sys_mem s (hello + word_of_nat k)))) [0..<unat len]"
proof -
  have "table s = boot_table" using sys_boot_table [OF assms(1), of stub idt] s by simp
  then show ?thesis by (rule usermode_comes_back)
qed

theorem usermode_run_returns_witness:
  "\<exists>c. usermode_run 0x2000 2 (fst (sys_boot 0x1000 blank_sysk [])) =
      Some (0, (fst (sys_boot 0x1000 blank_sysk []))\<lparr>last_cs := 0x1B, um_exit_code := 0, int_flag := False, sys_con := c\<rparr>)"
proof -
  have "length (table blank_sysk) = 16" by (simp add: blank_sysk_def)
  from usermode_run_returns [OF this refl, where stub = "0x1000" and idt = "[]" and hello = "0x2000" and len = 2] show ?thesis by blast
qed

end
