(* ===== verification/Serial.thy ===== *)
theory Serial
  imports Port_Io
begin

text \<open>
  The COM1 debug channel (\<open>kernel/drivers/serial.c\<close>). Transmission waits in a loop for the
  holding register to become empty, so it may not return: the loop is a partial function,
  and that it returns is proved from the UART's documented behaviour that the register
  drains. The main lemma says which bytes go out.
\<close>

definition COM1 :: u16 where "COM1 = 0x3F8"

definition serial_transmit_empty :: "devices \<Rightarrow> io \<Rightarrow> bool \<times> io" where
  "serial_transmit_empty dev tr = (let (v, tr) = inb dev (COM1 + 5) tr in (v AND 0x20 \<noteq> 0, tr))"

definition serial_init :: "devices \<Rightarrow> io \<Rightarrow> int \<times> io" where
  "serial_init dev tr =
     (let tr = outb (COM1 + 1) 0x00 tr;
          tr = outb (COM1 + 3) 0x80 tr;
          tr = outb (COM1 + 0) 0x03 tr;
          tr = outb (COM1 + 1) 0x00 tr;
          tr = outb (COM1 + 3) 0x03 tr;
          tr = outb (COM1 + 2) 0xC7 tr;
          tr = outb (COM1 + 4) 0x0B tr;
          tr = outb (COM1 + 4) 0x1E tr;
          tr = outb (COM1 + 0) 0xAE tr;
          (v, tr) = inb dev (COM1 + 0) tr
      in if v \<noteq> 0xAE then (-1, tr) else (0, outb (COM1 + 4) 0x0F tr))"

text \<open>\<open>while (!serial_transmit_empty()) { }\<close>.\<close>

partial_function (option) serial_wait :: "devices \<Rightarrow> io \<Rightarrow> io option" where
  "serial_wait dev tr =
     (let (empty, tr) = serial_transmit_empty dev tr in if empty then Some tr else serial_wait dev tr)"

declare serial_wait.simps [code]

definition serial_send :: "devices \<Rightarrow> char \<Rightarrow> io \<Rightarrow> io option" where
  "serial_send dev c tr = map_option (outb COM1 (of_char c)) (serial_wait dev tr)"

definition serial_write_char :: "devices \<Rightarrow> char \<Rightarrow> io \<Rightarrow> io option" where
  "serial_write_char dev c tr =
     (if c = CHR 0x0A then Option.bind (serial_send dev (CHR 0x0D) tr) (serial_send dev c) else serial_send dev c tr)"

fun serial_write_loop :: "devices \<Rightarrow> char list \<Rightarrow> io \<Rightarrow> io option" where
  "serial_write_loop dev [] tr = Some tr"
| "serial_write_loop dev (c # s) tr = Option.bind (serial_write_char dev c tr) (serial_write_loop dev s)"

definition serial_write :: "devices \<Rightarrow> char list \<Rightarrow> io \<Rightarrow> io option" where
  "serial_write dev s tr = serial_write_loop dev (cstr s) tr"

section \<open>What is sent\<close>

text \<open>The bytes written to the transmit register, in order.\<close>

fun sent :: "io \<Rightarrow> u8 list" where
  "sent [] = []"
| "sent (Outb p v # tr) = (if p = COM1 then v # sent tr else sent tr)"
| "sent (e # tr) = sent tr"

lemma sent_append [simp]: "sent (tr @ tr') = sent tr @ sent tr'"
  by (induction tr rule: sent.induct) auto

fun crlf :: "char list \<Rightarrow> char list" where
  "crlf [] = []"
| "crlf (c # s) = (if c = CHR 0x0A then [CHR 0x0D, c] else [c]) @ crlf s"

text \<open>
  The transmit holding register becomes empty after finitely many polls, whatever happened
  before (16550 data sheet).
\<close>

definition uart_drains :: "devices \<Rightarrow> bool" where
  "uart_drains dev \<longleftrightarrow>
     (\<forall>tr. \<exists>k. fst (serial_transmit_empty dev (((\<lambda>t. snd (serial_transmit_empty dev t)) ^^ k) tr)))"

lemma serial_poll_sent: "sent (snd (serial_transmit_empty dev tr)) = sent tr"
  by (simp add: serial_transmit_empty_def inb_def Let_def)

lemma serial_wait_returns:
  "fst (serial_transmit_empty dev (((\<lambda>t. snd (serial_transmit_empty dev t)) ^^ k) tr)) \<Longrightarrow>
    \<exists>tr'. serial_wait dev tr = Some tr' \<and> sent tr' = sent tr"
proof (induction k arbitrary: tr)
  case 0
  then show ?case using serial_poll_sent [of dev tr]
    by (auto simp: serial_wait.simps [of dev tr] split: prod.splits)
next
  case (Suc k)
  obtain e t where e: "serial_transmit_empty dev tr = (e, t)" by fastforce
  have s: "sent t = sent tr" using serial_poll_sent [of dev tr] e by simp
  show ?case
  proof (cases e)
    case True
    then show ?thesis using e s by (simp add: serial_wait.simps [of dev tr])
  next
    case False
    have "\<exists>tr'. serial_wait dev t = Some tr' \<and> sent tr' = sent t"
      using Suc.IH [of t] Suc.prems e by (simp add: funpow_Suc_right del: funpow.simps)
    then show ?thesis using e s False by (simp add: serial_wait.simps [of dev tr])
  qed
qed

lemma serial_send_sends:
  assumes "uart_drains dev"
  shows "\<exists>tr'. serial_send dev c tr = Some tr' \<and> sent tr' = sent tr @ [of_char c]"
proof -
  obtain k where "fst (serial_transmit_empty dev (((\<lambda>t. snd (serial_transmit_empty dev t)) ^^ k) tr))"
    using assms by (auto simp: uart_drains_def)
  from serial_wait_returns [OF this] show ?thesis by (auto simp: serial_send_def outb_def)
qed

lemma serial_write_char_sends:
  assumes "uart_drains dev"
  shows "\<exists>tr'. serial_write_char dev c tr = Some tr' \<and> sent tr' = sent tr @ map of_char (crlf [c])"
proof (cases "c = CHR 0x0A")
  case True
  obtain t where t: "serial_send dev (CHR 0x0D) tr = Some t" "sent t = sent tr @ [of_char (CHR 0x0D)]"
    using serial_send_sends [OF assms] by blast
  show ?thesis using serial_send_sends [OF assms, of c t] t True by (auto simp: serial_write_char_def)
qed (use serial_send_sends [OF assms, of c tr] in \<open>simp add: serial_write_char_def\<close>)

lemma crlf_Cons: "crlf (c # s) = crlf [c] @ crlf s"
  by simp

lemma serial_write_loop_sends:
  assumes "uart_drains dev"
  shows "\<exists>tr'. serial_write_loop dev s tr = Some tr' \<and> sent tr' = sent tr @ map of_char (crlf s)"
proof (induction s arbitrary: tr)
  case (Cons c s)
  obtain t where t: "serial_write_char dev c tr = Some t" "sent t = sent tr @ map of_char (crlf [c])"
    using serial_write_char_sends [OF assms] by blast
  then show ?case using Cons.IH [of t] by (auto simp: crlf_Cons [of c s] simp del: crlf.simps)
qed simp

text \<open>
  On a UART whose transmit register drains, writing a string returns, and the bytes sent are
  those of the string up to its terminator, each newline preceded by a carriage return.
\<close>

theorem serial_write_sends:
  assumes "uart_drains dev"
  shows "\<exists>tr'. serial_write dev s tr = Some tr' \<and> sent tr' = sent tr @ map of_char (crlf (cstr s))"
  unfolding serial_write_def by (rule serial_write_loop_sends [OF assms])

definition ready_uart :: devices where
  "ready_uart = \<lparr>dev_b = \<lambda>_ _. 0x20, dev_l = \<lambda>_ _. 0, dev_m8 = \<lambda>_ _. 0, dev_m32 = \<lambda>_ _. 0\<rparr>"

lemma ready_uart_drains: "uart_drains ready_uart"
  unfolding uart_drains_def by (intro allI exI [of _ 0]) (simp add: serial_transmit_empty_def inb_def ready_uart_def)

theorem serial_write_sends_witness:
  "\<exists>tr'. serial_write ready_uart (''ok'' @ [CHR 0x0A]) [] = Some tr' \<and> sent tr' = [0x6F, 0x6B, 0x0D, 0x0A]"
proof -
  from serial_write_sends [OF ready_uart_drains, of "''ok'' @ [CHR 0x0A]" "[]"] show ?thesis by simp
qed

end
