(* ===== verification/Keyboard.thy ===== *)
theory Keyboard
  imports Interrupts
begin

text \<open>
  The PS/2 keyboard driver (\<open>kernel/drivers/keyboard.c\<close>): scancodes are translated and put
  in a ring of 128 bytes that the shell and the desktop drain. The contract of a bounded
  queue is the locale \<open>bounded_queue\<close>; the ring implements it with 127 places.
\<close>

section \<open>Bounded queues\<close>

locale bounded_queue =
  fixes inv :: "'s \<Rightarrow> bool"
    and contents :: "'s \<Rightarrow> 'a list"
    and cap :: nat
    and put :: "'a \<Rightarrow> 's \<Rightarrow> 's"
    and get :: "'s \<Rightarrow> ('a \<times> 's) option"
  assumes put_inv: "inv s \<Longrightarrow> inv (put a s)"
    and put_contents: "inv s \<Longrightarrow>
      contents (put a s) = (if length (contents s) < cap then contents s @ [a] else contents s)"
    and get_empty: "inv s \<Longrightarrow> get s = None \<longleftrightarrow> contents s = []"
    and get_first: "inv s \<Longrightarrow> get s = Some (a, s') \<Longrightarrow> inv s' \<and> contents s = a # contents s'"
begin

text \<open>What does not fit is dropped; what is already queued stays in order.\<close>

lemma puts:
  assumes "inv s" "length (contents s) \<le> cap"
  shows "inv (fold put xs s) \<and> contents (fold put xs s) = take cap (contents s @ xs)"
  using assms
proof (induction xs arbitrary: s)
  case (Cons x xs)
  have "length (contents (put x s)) \<le> cap" using Cons.prems put_contents [of s x] by simp
  then have "inv (fold put xs (put x s)) \<and> contents (fold put xs (put x s)) = take cap (contents (put x s) @ xs)"
    using Cons.IH put_inv Cons.prems by blast
  then show ?case using put_contents [of s x] Cons.prems by (auto simp: take_Cons')
qed simp

primrec gets :: "nat \<Rightarrow> 's \<Rightarrow> 'a list" where
  "gets 0 s = []"
| "gets (Suc n) s = (case get s of None \<Rightarrow> [] | Some (a, s') \<Rightarrow> a # gets n s')"

lemma gets_contents: "inv s \<Longrightarrow> gets n s = take n (contents s)"
proof (induction n arbitrary: s)
  case (Suc n)
  show ?case
  proof (cases "get s")
    case None
    then have "contents s = []" using get_empty [OF Suc.prems] by blast
    then show ?thesis using None by simp
  next
    case (Some p)
    then obtain a s' where p: "get s = Some (a, s')" by (cases p) auto
    then show ?thesis using get_first [OF Suc.prems p] Suc.IH [of s'] by simp
  qed
qed simp

end

section \<open>The driver (keyboard.c)\<close>

definition KBD_DATA :: u16 where "KBD_DATA = 0x60"
definition BUF_SIZE :: u32 where "BUF_SIZE = 128"

record kbd =
  buffer :: "char list"
  head :: u32
  tail :: u32
  shift_down :: bool

definition keymap :: "char list \<Rightarrow> char list" where
  "keymap m = m @ replicate (128 - length m) NUL"

definition scancode_map :: "char list" where
  "scancode_map = keymap
     ([NUL, CHR 0x1B] @ ''1234567890-='' @ [CHR 0x08] @
      [CHR 0x09] @ ''qwertyuiop[]'' @ [CHR 0x0A] @
      [NUL] @ ''asdfghjkl;'' @ [CHR 0x27, CHR 0x60] @
      [NUL, CHR 0x5C] @ ''zxcvbnm,./'' @ [NUL] @
      ''*'' @ [NUL] @ '' '')"

definition scancode_map_shift :: "char list" where
  "scancode_map_shift = keymap
     ([NUL, CHR 0x1B] @ ''!@#$%^&*()_+'' @ [CHR 0x08] @
      [CHR 0x09] @ ''QWERTYUIOP{}'' @ [CHR 0x0A] @
      [NUL] @ ''ASDFGHJKL:'' @ [CHR 0x22] @ ''~'' @
      [NUL] @ ''|ZXCVBNM<>?'' @ [NUL] @
      ''*'' @ [NUL] @ '' '')"

definition buffer_push :: "char \<Rightarrow> kbd \<Rightarrow> kbd" where
  "buffer_push c k =
     (let nxt = (head k + 1) mod BUF_SIZE
      in if nxt \<noteq> tail k then k\<lparr>buffer := (buffer k)[unat (head k) := c], head := nxt\<rparr> else k)"

definition keyboard_inject :: "char \<Rightarrow> kbd \<Rightarrow> kbd" where
  "keyboard_inject c k = (if c \<noteq> NUL then buffer_push c k else k)"

text \<open>The body of \<open>keyboard_callback\<close> once the scancode has been read from the port.\<close>

definition keyboard_scancode :: "u8 \<Rightarrow> kbd \<Rightarrow> kbd" where
  "keyboard_scancode scancode k =
     (if scancode = 0x2A \<or> scancode = 0x36 then k\<lparr>shift_down := True\<rparr>
      else if scancode = 0xAA \<or> scancode = 0xB6 then k\<lparr>shift_down := False\<rparr>
      else if scancode AND 0x80 \<noteq> 0 then k
      else if scancode \<ge> 128 then k
      else let c = (if shift_down k then scancode_map_shift else scancode_map) ! unat scancode
           in if c \<noteq> NUL then buffer_push c k else k)"

definition keyboard_callback :: "devices \<Rightarrow> kbd \<times> io \<Rightarrow> kbd \<times> io" where
  "keyboard_callback dev st =
     (let (k, tr) = st; (scancode, tr) = inb dev KBD_DATA tr in (keyboard_scancode scancode k, tr))"

definition keyboard_init :: "kbd \<times> handlers \<Rightarrow> kbd \<times> handlers" where
  "keyboard_init st =
     (let (k, hs) = st
      in (k\<lparr>head := 0, tail := 0, shift_down := False\<rparr>, irq_register_handler 1 Keyboard_callback hs))"

definition keyboard_haskey :: "kbd \<Rightarrow> bool" where
  "keyboard_haskey k \<longleftrightarrow> head k \<noteq> tail k"

definition keyboard_take :: "kbd \<Rightarrow> char \<times> kbd" where
  "keyboard_take k = (buffer k ! unat (tail k), k\<lparr>tail := (tail k + 1) mod BUF_SIZE\<rparr>)"

definition keyboard_trygetchar :: "kbd \<Rightarrow> char \<times> kbd" where
  "keyboard_trygetchar k = (if head k = tail k then (NUL, k) else keyboard_take k)"

text \<open>
  \<open>keyboard_getchar\<close> sleeps until an interrupt fills the buffer: \<open>scs\<close> are the scancodes the
  controller will raise interrupts for. When they run out it sleeps for good (\<open>None\<close>).
\<close>

fun keyboard_getchar :: "u8 list \<Rightarrow> kbd \<Rightarrow> (char \<times> kbd \<times> u8 list) option" where
  "keyboard_getchar scs k =
     (if head k = tail k
      then case scs of [] \<Rightarrow> None | sc # rest \<Rightarrow> keyboard_getchar rest (keyboard_scancode sc k)
      else let (c, k) = keyboard_take k in Some (c, k, scs))"

declare keyboard_getchar.simps [simp del]

section \<open>The ring is a bounded queue\<close>

definition kbd_inv :: "kbd \<Rightarrow> bool" where
  "kbd_inv k \<longleftrightarrow> length (buffer k) = 128 \<and> head k < 128 \<and> tail k < 128"

definition kbd_len :: "kbd \<Rightarrow> nat" where
  "kbd_len k = (unat (head k) + 128 - unat (tail k)) mod 128"

definition kbd_keys :: "kbd \<Rightarrow> char list" where
  "kbd_keys k = map (\<lambda>i. buffer k ! ((unat (tail k) + i) mod 128)) [0..<kbd_len k]"

definition kbd_get :: "kbd \<Rightarrow> (char \<times> kbd) option" where
  "kbd_get k = (if keyboard_haskey k then Some (keyboard_trygetchar k) else None)"

lemma unat_next: "(x :: u32) < 128 \<Longrightarrow> unat ((x + 1) mod BUF_SIZE) = (unat x + 1) mod 128"
  by (simp add: BUF_SIZE_def unat_mod unat_Suc_u32 word_less_nat_alt)

lemma kbd_len_lt: "kbd_len k < 128"
  by (simp add: kbd_len_def)

lemma kbd_len_alt: "head k < 128 \<Longrightarrow> tail k < 128 \<Longrightarrow>
    kbd_len k = (if unat (tail k) \<le> unat (head k) then unat (head k) - unat (tail k) else unat (head k) + 128 - unat (tail k))"
  by (auto simp: kbd_len_def word_less_nat_alt mod_if)

lemma ring_index:
  assumes "h < 128" "t < 128"
  shows "(t + (h + 128 - t) mod 128) mod 128 = h" "i < (h + 128 - t) mod 128 \<Longrightarrow> (t + i) mod 128 \<noteq> (h :: nat)"
proof -
  consider "t \<le> h" "(h + 128 - t) mod 128 = h - t" | "h < t" "(h + 128 - t) mod 128 = h + 128 - t"
    using assms by (cases "t \<le> h") (auto simp: le_mod_geq)
  note l = this
  show "(t + (h + 128 - t) mod 128) mod 128 = h" by (rule l) (use assms in auto)
  show "(t + i) mod 128 \<noteq> h" if "i < (h + 128 - t) mod 128"
  proof (rule l)
    assume "h < t" "(h + 128 - t) mod 128 = h + 128 - t"
    then show ?thesis using that assms by (cases "t + i < 128") (auto simp: le_mod_geq)
  qed (use that assms in auto)
qed

lemma buffer_push_full:
  assumes "kbd_inv k"
  shows "(head k + 1) mod BUF_SIZE = tail k \<longleftrightarrow> kbd_len k = 127"
proof -
  have "(head k + 1) mod BUF_SIZE = tail k \<longleftrightarrow> (unat (head k) + 1) mod 128 = unat (tail k)"
    using assms unat_next [of "head k"] by (simp add: kbd_inv_def word_unat_eq_iff)
  then show ?thesis using assms by (auto simp: kbd_inv_def kbd_len_alt word_less_nat_alt mod_if)
qed

lemma buffer_push_inv: "kbd_inv k \<Longrightarrow> kbd_inv (buffer_push c k)"
  using unat_next [of "head k"]
  by (auto simp: kbd_inv_def buffer_push_def Let_def word_less_nat_alt)

lemma kbd_keys_push:
  assumes "kbd_inv k" "kbd_len k < 127"
  shows "kbd_keys (buffer_push c k) = kbd_keys k @ [c]"
proof -
  let ?h = "unat (head k)" and ?t = "unat (tail k)" and ?k = "buffer_push c k"
  have b: "?h < 128" "?t < 128" "length (buffer k) = 128" using assms(1) by (auto simp: kbd_inv_def word_less_nat_alt)
  have ne: "(head k + 1) mod BUF_SIZE \<noteq> tail k" using buffer_push_full [OF assms(1)] assms(2) by simp
  then have f: "buffer ?k = (buffer k)[?h := c]" "tail ?k = tail k" "unat (head ?k) = (?h + 1) mod 128"
    using assms(1) unat_next [of "head k"] by (auto simp: buffer_push_def Let_def kbd_inv_def)
  have hk: "head ?k < 128" "tail ?k < 128" using buffer_push_inv [OF assms(1), of c] by (auto simp: kbd_inv_def)
  have len: "kbd_len ?k = Suc (kbd_len k)"
    using assms b f(2,3) hk by (auto simp: kbd_len_def mod_if)
  note at = ring_index [OF b(1,2), folded kbd_len_def]
  have "map (\<lambda>i. (buffer k)[?h := c] ! ((?t + i) mod 128)) [0..<kbd_len k] = kbd_keys k"
    unfolding kbd_keys_def by (intro map_cong refl nth_list_update_neq) (metis at(2) atLeastLessThan_iff set_upt)
  then show ?thesis using b at(1) by (simp add: kbd_keys_def [of ?k] len f)
qed

lemma keyboard_take_keys:
  assumes "kbd_inv k" "keyboard_haskey k"
  shows "kbd_inv (snd (keyboard_take k)) \<and> kbd_keys k = fst (keyboard_take k) # kbd_keys (snd (keyboard_take k))"
proof -
  let ?k = "snd (keyboard_take k)"
  have b: "unat (head k) < 128" "unat (tail k) < 128" "unat (head k) \<noteq> unat (tail k)"
    using assms by (auto simp: kbd_inv_def keyboard_haskey_def word_less_nat_alt word_unat_eq_iff)
  have f: "buffer ?k = buffer k" "head ?k = head k" "unat (tail ?k) = (unat (tail k) + 1) mod 128"
    using assms(1) unat_next [of "tail k"] by (auto simp: keyboard_take_def kbd_inv_def)
  have len: "kbd_len k = Suc (kbd_len ?k)" using b f by (auto simp: kbd_len_def mod_if)
  have "map (\<lambda>i. buffer k ! ((unat (tail k) + i) mod 128)) [0..<Suc (kbd_len ?k)] =
      buffer k ! (unat (tail k) mod 128) # map (\<lambda>i. buffer k ! ((unat (tail k) + Suc i) mod 128)) [0..<kbd_len ?k]"
    by (simp add: upt_conv_Cons map_Suc_upt [symmetric] del: upt_Suc)
  then have "kbd_keys k = fst (keyboard_take k) # kbd_keys ?k"
    using b f by (simp add: kbd_keys_def len keyboard_take_def mod_add_left_eq del: upt_Suc)
  then show ?thesis using assms(1) f by (simp add: kbd_inv_def word_less_nat_alt)
qed

interpretation keys: bounded_queue kbd_inv kbd_keys 127 buffer_push kbd_get
proof
  show "kbd_inv (buffer_push a s)" if "kbd_inv s" for s a using that by (rule buffer_push_inv)
  show "kbd_keys (buffer_push a s) = (if length (kbd_keys s) < 127 then kbd_keys s @ [a] else kbd_keys s)"
    if "kbd_inv s" for s a
    using kbd_keys_push [OF that] buffer_push_full [OF that] kbd_len_lt [of s]
    by (auto simp: kbd_keys_def buffer_push_def Let_def)
  show "kbd_get s = None \<longleftrightarrow> kbd_keys s = []" if "kbd_inv s" for s
    using that by (auto simp: kbd_get_def keyboard_haskey_def kbd_keys_def kbd_len_alt kbd_inv_def word_unat_eq_iff
        word_less_nat_alt split: if_splits)
  show "kbd_inv s' \<and> kbd_keys s = a # kbd_keys s'" if "kbd_inv s" "kbd_get s = Some (a, s')" for s a s'
    using keyboard_take_keys [OF that(1)] that(2)
    by (auto simp: kbd_get_def keyboard_trygetchar_def keyboard_haskey_def split: if_splits)
qed

section \<open>What is typed\<close>

text \<open>The reference decoder: the characters a sequence of scancodes stands for.\<close>

fun typed :: "bool \<Rightarrow> u8 list \<Rightarrow> char list" where
  "typed shift [] = []"
| "typed shift (sc # scs) =
     (if sc = 0x2A \<or> sc = 0x36 then typed True scs
      else if sc = 0xAA \<or> sc = 0xB6 then typed False scs
      else if sc < 128 \<and> (if shift then scancode_map_shift else scancode_map) ! unat sc \<noteq> NUL
      then (if shift then scancode_map_shift else scancode_map) ! unat sc # typed shift scs
      else typed shift scs)"

lemma release_bit: "(sc :: u8) AND 0x80 \<noteq> 0 \<Longrightarrow> \<not> sc < 128"
proof
  assume a: "sc AND 0x80 \<noteq> 0" "sc < 128"
  have "take_bit 7 (unat sc) = unat sc" using a(2) by (simp add: take_bit_nat_eq_self_iff word_less_nat_alt)
  then have "\<not> bit (unat sc) 7" using bit_take_bit_iff [of 7 "unat sc" 7] by simp
  then have "\<not> bit sc 7" by (simp add: bit_unsigned_iff)
  then show False using a(1) and_exp_eq_0_iff_not_bit [of sc 7] by simp
qed

lemma keyboard_scancodes:
  "\<exists>b. fold keyboard_scancode scs k = (fold buffer_push (typed (shift_down k) scs) k)\<lparr>shift_down := b\<rparr>"
proof (induction scs arbitrary: k)
  case Nil
  then show ?case by (intro exI [of _ "shift_down k"]) simp
next
  case (Cons sc scs)
  have shift: "buffer_push c (k\<lparr>shift_down := b\<rparr>) = (buffer_push c k)\<lparr>shift_down := b\<rparr>" for c k b
    by (simp add: buffer_push_def Let_def)
  have shifts: "fold buffer_push cs (k\<lparr>shift_down := b\<rparr>) = (fold buffer_push cs k)\<lparr>shift_down := b\<rparr>" for cs k b
    by (induction cs arbitrary: k) (simp_all add: shift)
  have keep: "shift_down (buffer_push c k) = shift_down k" for c by (simp add: buffer_push_def Let_def)
  show ?case using Cons.IH [of "keyboard_scancode sc k"] release_bit [of sc]
    by (auto simp: keyboard_scancode_def Let_def shifts keep split: if_splits)
qed

lemma kbd_keys_shift [simp]: "kbd_keys (k\<lparr>shift_down := b\<rparr>) = kbd_keys k" "kbd_inv (k\<lparr>shift_down := b\<rparr>) = kbd_inv k"
  by (simp_all add: kbd_keys_def kbd_len_def kbd_inv_def)

text \<open>
  C26: From a fresh driver, the keys waiting after any sequence of keyboard interrupts are the
  characters typed, shift taken into account, in the order they were typed; the first 127 of
  them if nobody reads.
\<close>

theorem keyboard_queues_typed_keys:
  assumes "length (buffer k) = 128"
  shows "kbd_keys (fold keyboard_scancode scs (fst (keyboard_init (k, hs)))) = take 127 (typed False scs)"
proof -
  let ?k = "k\<lparr>head := 0, tail := 0, shift_down := False\<rparr>"
  have "kbd_inv ?k" "kbd_keys ?k = []" using assms by (simp_all add: kbd_inv_def kbd_keys_def kbd_len_def)
  moreover obtain b where "fold keyboard_scancode scs ?k = (fold buffer_push (typed False scs) ?k)\<lparr>shift_down := b\<rparr>"
    using keyboard_scancodes [of scs ?k] by auto
  ultimately show ?thesis using keys.puts [of ?k "typed False scs"] by (simp add: keyboard_init_def)
qed

definition blank_kbd :: kbd where
  "blank_kbd = \<lparr>buffer = replicate 128 NUL, head = 5, tail = 9, shift_down = True\<rparr>"

theorem keyboard_queues_typed_keys_witness:
  "kbd_keys (fold keyboard_scancode [0x2A, 0x23, 0xA3, 0xAA, 0x17, 0x97] (fst (keyboard_init (blank_kbd, replicate 16 None)))) = ''Hi''"
proof -
  have "length (buffer blank_kbd) = 128" by (simp add: blank_kbd_def)
  from keyboard_queues_typed_keys [OF this, of "[0x2A, 0x23, 0xA3, 0xAA, 0x17, 0x97]" "replicate 16 None"]
  show ?thesis by (simp add: scancode_map_def scancode_map_shift_def keymap_def)
qed

text \<open>Reading returns the waiting keys in that order.\<close>

lemma keyboard_getchar_waiting:
  assumes "kbd_inv k" "kbd_keys k = c # cs"
  shows "\<exists>k'. keyboard_getchar scs k = Some (c, k', scs) \<and> kbd_keys k' = cs \<and> kbd_inv k'"
proof -
  have has: "keyboard_haskey k" using keys.get_empty [OF assms(1)] assms(2) by (auto simp: kbd_get_def split: if_splits)
  show ?thesis using keyboard_take_keys [OF assms(1) has] assms(2) has
    by (auto simp: keyboard_getchar.simps [of scs k] keyboard_haskey_def split: prod.splits)
qed

end
