(* ===== verification/Mouse.thy ===== *)
theory Mouse
  imports Interrupts "HOL-Library.Signed_Division"
begin

text \<open>
  The PS/2 mouse driver (\<open>kernel/drivers/mouse.c\<close>): the controller handshake, the three-byte
  packet machine and the pointer. C's \<open>int\<close> is \<open>int\<close> here: coordinates stay inside the screen
  and a step is at most 256, so nothing wraps.
\<close>

definition PS2_DATA :: u16 where "PS2_DATA = 0x60"
definition PS2_CMD :: u16 where "PS2_CMD = 0x64"

record mouse =
  gx :: int
  gy :: int
  gbtn :: int
  gdirty :: bool
  sw :: int
  sh :: int
  pkt :: "u8 list"
  idx :: nat

text \<open>The polling loops give up after 100000 reads of the status port.\<close>

fun ps2_poll :: "devices \<Rightarrow> (u8 \<Rightarrow> bool) \<Rightarrow> nat \<Rightarrow> io \<Rightarrow> io" where
  "ps2_poll dev ready 0 tr = tr"
| "ps2_poll dev ready (Suc n) tr =
     (let (v, tr) = inb dev PS2_CMD tr in if ready v then tr else ps2_poll dev ready n tr)"

definition ps2_wait_write :: "devices \<Rightarrow> io \<Rightarrow> io" where
  "ps2_wait_write dev tr = ps2_poll dev (\<lambda>v. v AND 2 = 0) 100000 tr"

definition ps2_wait_read :: "devices \<Rightarrow> io \<Rightarrow> io" where
  "ps2_wait_read dev tr = ps2_poll dev (\<lambda>v. v AND 1 \<noteq> 0) 100000 tr"

definition mouse_cmd :: "devices \<Rightarrow> u8 \<Rightarrow> io \<Rightarrow> io" where
  "mouse_cmd dev v tr =
     (let tr = outb PS2_CMD 0xD4 (ps2_wait_write dev tr);
          tr = outb PS2_DATA v (ps2_wait_write dev tr);
          (ack, tr) = inb dev PS2_DATA (ps2_wait_read dev tr)
      in tr)"

text \<open>The four comparisons that keep the pointer on the screen.\<close>

definition mouse_clamp :: "mouse \<Rightarrow> mouse" where
  "mouse_clamp m =
     (let m = (if gx m < 0 then m\<lparr>gx := 0\<rparr> else m);
          m = (if gx m > sw m - 1 then m\<lparr>gx := sw m - 1\<rparr> else m);
          m = (if gy m < 0 then m\<lparr>gy := 0\<rparr> else m)
      in if gy m > sh m - 1 then m\<lparr>gy := sh m - 1\<rparr> else m)"

text \<open>The body of \<open>mouse_cb\<close> once the byte has been read from the port.\<close>

definition mouse_byte :: "u8 \<Rightarrow> mouse \<Rightarrow> mouse" where
  "mouse_byte b m =
     (if idx m = 0 \<and> b AND 0x08 = 0 then m
      else let m = m\<lparr>pkt := (pkt m)[idx m := b], idx := idx m + 1\<rparr>
           in if idx m < 3 then m
              else let m = m\<lparr>idx := 0\<rparr>;
                       dx = uint (pkt m ! 1) - (if pkt m ! 0 AND 0x10 \<noteq> 0 then 256 else 0);
                       dy = uint (pkt m ! 2) - (if pkt m ! 0 AND 0x20 \<noteq> 0 then 256 else 0);
                       m = mouse_clamp (m\<lparr>gx := gx m + dx, gy := gy m - dy\<rparr>)
                   in m\<lparr>gbtn := uint (pkt m ! 0 AND 0x07), gdirty := True\<rparr>)"

definition mouse_cb :: "devices \<Rightarrow> mouse \<times> io \<Rightarrow> mouse \<times> io" where
  "mouse_cb dev st = (let (m, tr) = st; (b, tr) = inb dev PS2_DATA tr in (mouse_byte b m, tr))"

definition mouse_init :: "devices \<Rightarrow> int \<Rightarrow> int \<Rightarrow> mouse \<times> handlers \<times> io \<Rightarrow> mouse \<times> handlers \<times> io" where
  "mouse_init dev screen_w screen_h st =
     (let (m, hs, tr) = st;
          m = m\<lparr>sw := screen_w, sh := screen_h\<rparr>;
          m = m\<lparr>gx := sw m sdiv 2, gy := sh m sdiv 2, gbtn := 0, idx := 0, gdirty := True\<rparr>;
          tr = outb PS2_CMD 0xA8 (ps2_wait_write dev tr);
          tr = outb PS2_CMD 0x20 (ps2_wait_write dev tr);
          (cfg, tr) = inb dev PS2_DATA (ps2_wait_read dev tr);
          cfg = (cfg OR 0x02) AND NOT 0x20;
          tr = outb PS2_CMD 0x60 (ps2_wait_write dev tr);
          tr = outb PS2_DATA cfg (ps2_wait_write dev tr);
          tr = mouse_cmd dev 0xF6 tr;
          tr = mouse_cmd dev 0xF4 tr;
          (m2, tr) = inb dev 0xA1 tr;
          tr = outb 0xA1 (m2 AND NOT 0x10) tr;
          (m1, tr) = inb dev 0x21 tr;
          tr = outb 0x21 (m1 AND NOT 0x04) tr
      in (m, irq_register_handler 12 Mouse_cb hs, tr))"

definition mouse_left :: "mouse \<Rightarrow> bool" where
  "mouse_left m \<longleftrightarrow> gbtn m AND 1 \<noteq> 0"

definition mouse_take_event :: "mouse \<Rightarrow> bool \<times> mouse" where
  "mouse_take_event m = (if \<not> gdirty m then (False, m) else (True, m\<lparr>gdirty := False\<rparr>))"

definition mouse_inject :: "int \<Rightarrow> int \<Rightarrow> int \<Rightarrow> mouse \<Rightarrow> mouse" where
  "mouse_inject dx dy buttons m =
     (if sw m \<le> 0 \<or> sh m \<le> 0 then m
      else let m = mouse_clamp (m\<lparr>gx := gx m + dx, gy := gy m + dy\<rparr>)
           in m\<lparr>gbtn := buttons AND 0x07, gdirty := True\<rparr>)"

section \<open>The pointer stays on the screen\<close>

inductive mouse_reach :: "int \<Rightarrow> int \<Rightarrow> mouse \<Rightarrow> bool" for w h where
  init: "length (pkt m) = 3 \<Longrightarrow> mouse_reach w h (fst (mouse_init dev w h (m, hs, tr)))"
| byte: "mouse_reach w h m \<Longrightarrow> mouse_reach w h (mouse_byte b m)"
| usb: "mouse_reach w h m \<Longrightarrow> mouse_reach w h (mouse_inject dx dy buttons m)"
| taken: "mouse_reach w h m \<Longrightarrow> mouse_reach w h (snd (mouse_take_event m))"

definition mouse_inv :: "int \<Rightarrow> int \<Rightarrow> mouse \<Rightarrow> bool" where
  "mouse_inv w h m \<longleftrightarrow> sw m = w \<and> sh m = h \<and> 0 \<le> gx m \<and> gx m < w \<and> 0 \<le> gy m \<and> gy m < h \<and>
     0 \<le> gbtn m \<and> gbtn m < 8 \<and> idx m < 3 \<and> length (pkt m) = 3"

lemma mouse_clamp_simp:
  assumes "0 < sw m" "0 < sh m"
  shows "mouse_clamp m = m\<lparr>gx := min (max (gx m) 0) (sw m - 1), gy := min (max (gy m) 0) (sh m - 1)\<rparr>"
  using assms by (auto simp: mouse_clamp_def Let_def min_def max_def)

lemma and_7_bound: "0 \<le> (x :: int) AND 7" "(x :: int) AND 7 < 8"
proof -
  have "x AND 7 = take_bit 3 x" using take_bit_eq_mask [of 3 x] by (simp add: mask_eq_exp_minus_1)
  then show "0 \<le> x AND 7" "x AND 7 < 8" using take_bit_int_less_exp [of 3 x] by simp_all
qed

lemma uint_and_7: "uint (b AND 7 :: u8) = uint b AND 7"
  by (simp add: unsigned_and_eq)

lemma mouse_byte_inv:
  assumes "mouse_inv w h m" "0 < w" "0 < h"
  shows "mouse_inv w h (mouse_byte b m)"
proof -
  have "idx m = 0 \<or> idx m = 1 \<or> idx m = 2" using assms(1) by (auto simp: mouse_inv_def)
  then show ?thesis using assms and_7_bound
    by (auto simp: mouse_inv_def mouse_byte_def Let_def mouse_clamp_simp uint_and_7)
qed

lemma mouse_inject_inv: "mouse_inv w h m \<Longrightarrow> 0 < w \<Longrightarrow> 0 < h \<Longrightarrow> mouse_inv w h (mouse_inject dx dy buttons m)"
  using and_7_bound by (auto simp: mouse_inv_def mouse_inject_def Let_def mouse_clamp_simp)

lemma mouse_reach_inv:
  assumes "mouse_reach w h m" "0 < w" "0 < h"
  shows "mouse_inv w h m"
  using assms
proof (induction rule: mouse_reach.induct)
  case (init m dev hs tr)
  then show ?case by (auto simp: mouse_init_def Let_def mouse_inv_def signed_divide_int_def split: prod.splits)
next
  case (taken m)
  then show ?case by (auto simp: mouse_take_event_def mouse_inv_def)
qed (simp_all add: mouse_byte_inv mouse_inject_inv)

text \<open>
  C27: Whatever bytes the mouse sends, whatever USB reports are injected and whenever events are
  taken, the pointer is inside the screen, the buttons fit three bits and the packet index
  stays inside the packet buffer.
\<close>

theorem mouse_pointer_on_screen:
  assumes "mouse_reach w h m" "0 < w" "0 < h"
  shows "0 \<le> gx m \<and> gx m < w \<and> 0 \<le> gy m \<and> gy m < h \<and> 0 \<le> gbtn m \<and> gbtn m < 8 \<and> idx m < length (pkt m)"
  using mouse_reach_inv [OF assms] by (simp add: mouse_inv_def)

definition blank_mouse :: mouse where
  "blank_mouse = \<lparr>gx = 0, gy = 0, gbtn = 0, gdirty = False, sw = 0, sh = 0, pkt = [0, 0, 0], idx = 0\<rparr>"

definition dead_ports :: devices where
  "dead_ports = \<lparr>dev_b = \<lambda>_ _. 0, dev_l = \<lambda>_ _. 0, dev_m8 = \<lambda>_ _. 0, dev_m32 = \<lambda>_ _. 0\<rparr>"

theorem mouse_pointer_on_screen_witness:
  "gx (mouse_inject 5000 (- 5000) 9 (fst (mouse_init dead_ports 1024 768 (blank_mouse, replicate 16 None, [])))) < 1024"
proof -
  have "mouse_reach 1024 768 (mouse_inject 5000 (- 5000) 9 (fst (mouse_init dead_ports 1024 768 (blank_mouse, replicate 16 None, []))))"
    by (intro mouse_reach.usb mouse_reach.init) (simp add: blank_mouse_def)
  from mouse_pointer_on_screen [OF this] show ?thesis by simp
qed

section \<open>Packets\<close>

text \<open>A coordinate of a packet is a nine-bit two's-complement number: its sign is in the first byte.\<close>

definition packet_delta :: "bool \<Rightarrow> u8 \<Rightarrow> int" where
  "packet_delta neg b = sint (word_of_int (256 * of_bool neg + uint b) :: 9 word)"

lemma packet_delta_eq: "packet_delta neg b = uint b - (if neg then 256 else 0)"
proof -
  have b: "0 \<le> uint b" "uint b < 256" using uint_bounded [of b] by simp_all
  have "(word_of_int (256 * of_bool neg + uint b) :: 9 word) = word_of_int (uint b - (if neg then 256 else 0))"
    by (cases neg) (simp_all add: word_of_int_eq_iff take_bit_eq_mod mod_diff_eq [symmetric] mod_eq_dvd_iff)
  moreover have "signed_take_bit 8 (uint b - (if neg then 256 else 0)) = uint b - (if neg then 256 else 0)"
    using b by (auto simp: signed_take_bit_int_eq_self_iff intro: order_trans [of _ 0])
  ultimately show ?thesis
    unfolding packet_delta_def using sint_sbintrunc' [where 'a = 9, of "uint b - (if neg then 256 else 0)"]
    by (simp del: of_int_add of_int_diff)
qed

lemma bit_test: "(b :: u8) AND 0x10 \<noteq> 0 \<longleftrightarrow> bit b 4" "b AND 0x20 \<noteq> 0 \<longleftrightarrow> bit b 5" "b AND 0x08 = 0 \<longleftrightarrow> \<not> bit b 3"
  using and_exp_eq_0_iff_not_bit [of b 4] and_exp_eq_0_iff_not_bit [of b 5] and_exp_eq_0_iff_not_bit [of b 3] by simp_all

lemma mouse_resync: "idx m = 0 \<Longrightarrow> list_all (\<lambda>b. \<not> bit b 3) junk \<Longrightarrow> fold mouse_byte junk m = m"
  by (induction junk) (simp_all add: mouse_byte_def bit_test)

text \<open>
  Bytes that cannot start a packet are skipped; then a packet moves the pointer by its two
  signed nine-bit steps, upwards for a positive second one, as far as the screen allows, takes
  over the three buttons and marks an event.
\<close>

theorem mouse_packet_moves:
  assumes "idx m = 0" "length (pkt m) = 3" "0 < sw m" "0 < sh m" "list_all (\<lambda>b. \<not> bit b 3) junk" "bit b0 3"
  shows "fold mouse_byte (junk @ [b0, b1, b2]) m =
    m\<lparr>pkt := [b0, b1, b2], idx := 0,
      gx := min (max (gx m + packet_delta (bit b0 4) b1) 0) (sw m - 1),
      gy := min (max (gy m - packet_delta (bit b0 5) b2) 0) (sh m - 1),
      gbtn := uint b0 AND 7, gdirty := True\<rparr>"
proof -
  obtain p q r where p: "pkt m = [p, q, r]" using assms(2) by (auto simp: length_Suc_conv numeral_3_eq_3)
  show ?thesis using assms p
    by (simp add: mouse_resync mouse_byte_def Let_def mouse_clamp_simp uint_and_7 packet_delta_eq bit_test)
qed

theorem mouse_packet_moves_witness:
  "gx (fold mouse_byte ([0x01] @ [0x19, 0xFE, 0x00]) (blank_mouse\<lparr>sw := 640, sh := 480, gx := 100\<rparr>)) = 98"
  by (subst mouse_packet_moves) (simp_all add: blank_mouse_def packet_delta_eq bit_numeral_rec)

end
