(* ===== verification/Lib_String.thy ===== *)
theory Lib_String
  imports Thuos_Prelude
begin

text \<open>
  The freestanding memory and string helpers (\<open>kernel/lib/string.c\<close>) over byte memory, with
  32-bit pointers. Counted loops are folds over their indices; loops that look for a
  terminator are partial functions. The lemmas show that \<open>memmove\<close> is right for every
  overlap and that \<open>strcmp\<close> decides the lexicographic order of the strings.
\<close>

section \<open>Memory blocks\<close>

definition memset :: "u32 \<Rightarrow> u32 \<Rightarrow> u32 \<Rightarrow> mem \<Rightarrow> mem" where
  "memset dst val n m = fold (\<lambda>i m. m(dst + word_of_nat i := ucast val)) [0..<unat n] m"

definition copy_byte :: "u32 \<Rightarrow> u32 \<Rightarrow> nat \<Rightarrow> mem \<Rightarrow> mem" where
  "copy_byte d s i m = m(d + word_of_nat i := m (s + word_of_nat i))"

definition memcpy :: "u32 \<Rightarrow> u32 \<Rightarrow> u32 \<Rightarrow> mem \<Rightarrow> mem" where
  "memcpy dst src n m = fold (copy_byte dst src) [0..<unat n] m"

definition memmove :: "u32 \<Rightarrow> u32 \<Rightarrow> u32 \<Rightarrow> mem \<Rightarrow> mem" where
  "memmove dst src n m =
     (if dst = src \<or> n = 0 then m
      else if dst < src then fold (copy_byte dst src) [0..<unat n] m
      else fold (copy_byte dst src) (rev [0..<unat n]) m)"

fun memcmp_loop :: "u32 \<Rightarrow> u32 \<Rightarrow> nat list \<Rightarrow> mem \<Rightarrow> int" where
  "memcmp_loop a b [] m = 0"
| "memcmp_loop a b (i # is) m =
     (if m (a + word_of_nat i) \<noteq> m (b + word_of_nat i) then uint (m (a + word_of_nat i)) - uint (m (b + word_of_nat i))
      else memcmp_loop a b is m)"

definition memcmp :: "u32 \<Rightarrow> u32 \<Rightarrow> u32 \<Rightarrow> mem \<Rightarrow> int" where
  "memcmp a b n m = memcmp_loop a b [0..<unat n] m"

section \<open>Strings\<close>

partial_function (option) strlen_loop :: "u32 \<Rightarrow> u32 \<Rightarrow> mem \<Rightarrow> u32 option" where
  "strlen_loop s n m = (if m (s + n) \<noteq> 0 then strlen_loop s (n + 1) m else Some n)"

definition strlen :: "u32 \<Rightarrow> mem \<Rightarrow> u32 option" where
  "strlen s m = strlen_loop s 0 m"

partial_function (option) strcmp :: "u32 \<Rightarrow> u32 \<Rightarrow> mem \<Rightarrow> int option" where
  "strcmp a b m =
     (if m a \<noteq> 0 \<and> m a = m b then strcmp (a + 1) (b + 1) m else Some (uint (m a) - uint (m b)))"

fun strncmp_loop :: "u32 \<Rightarrow> u32 \<Rightarrow> nat list \<Rightarrow> mem \<Rightarrow> int" where
  "strncmp_loop a b [] m = 0"
| "strncmp_loop a b (i # is) m =
     (if m (a + word_of_nat i) \<noteq> m (b + word_of_nat i) \<or> m (a + word_of_nat i) = 0
      then uint (m (a + word_of_nat i)) - uint (m (b + word_of_nat i))
      else strncmp_loop a b is m)"

definition strncmp :: "u32 \<Rightarrow> u32 \<Rightarrow> u32 \<Rightarrow> mem \<Rightarrow> int" where
  "strncmp a b n m = strncmp_loop a b [0..<unat n] m"

partial_function (option) strcpy :: "u32 \<Rightarrow> u32 \<Rightarrow> mem \<Rightarrow> mem option" where
  "strcpy d s m =
     (let m' = m(d := m s) in if m s \<noteq> 0 then strcpy (d + 1) (s + 1) m' else Some m')"

fun strncpy_fill :: "u32 \<Rightarrow> nat list \<Rightarrow> mem \<Rightarrow> mem" where
  "strncpy_fill d [] m = m"
| "strncpy_fill d (i # is) m = strncpy_fill d is (m(d + word_of_nat i := 0))"

text \<open>\<open>i\<close> runs through the copying loop and goes on in the filling loop.\<close>

fun strncpy_copy :: "u32 \<Rightarrow> u32 \<Rightarrow> nat list \<Rightarrow> mem \<Rightarrow> mem" where
  "strncpy_copy d s [] m = m"
| "strncpy_copy d s (i # is) m =
     (if m (s + word_of_nat i) \<noteq> 0 then strncpy_copy d s is (m(d + word_of_nat i := m (s + word_of_nat i)))
      else strncpy_fill d (i # is) m)"

definition strncpy :: "u32 \<Rightarrow> u32 \<Rightarrow> u32 \<Rightarrow> mem \<Rightarrow> mem" where
  "strncpy dst src n m = strncpy_copy dst src [0..<unat n] m"

text \<open>The result 0 is the null pointer.\<close>

partial_function (option) strchr :: "u32 \<Rightarrow> u32 \<Rightarrow> mem \<Rightarrow> u32 option" where
  "strchr s c m =
     (if m s \<noteq> 0 then (if m s = ucast c then Some s else strchr (s + 1) c m)
      else Some (if c = 0 then s else 0))"

declare strlen_loop.simps [code] strcmp.simps [code] strcpy.simps [code] strchr.simps [code]

section \<open>Moving blocks\<close>

lemma unat_offset: "unat (a - b :: u32) = (if unat b \<le> unat a then unat a - unat b else unat a + 4294967296 - unat b)"
  by (simp add: unat_sub_if')

lemma at_index: "i < 4294967296 \<Longrightarrow> (x :: u32) = d + word_of_nat i \<longleftrightarrow> unat (x - d) = i"
proof -
  assume i: "i < 4294967296"
  have "x = d + word_of_nat i \<longleftrightarrow> x - d = word_of_nat i" by (auto simp: algebra_simps)
  also have "\<dots> \<longleftrightarrow> unat (x - d) = i" using i by (rule u32_eq_of_nat_iff)
  finally show ?thesis .
qed

lemma unat_index: "unat (s :: u32) + i < 4294967296 \<Longrightarrow> unat (s + word_of_nat i) = unat s + i"
  by (subst unat_add_u32) (auto simp: unat_of_nat_u32)

text \<open>The copying loop in increasing order, towards lower addresses.\<close>

lemma copy_up:
  assumes "unat d < unat s" "unat s + n \<le> 4294967296"
  shows "fold (copy_byte d s) [0..<n] m x = (if unat (x - d) < n then m (s + (x - d)) else m x)"
  using assms(2)
proof (induction n arbitrary: x)
  case (Suc n)
  have "\<not> unat (s + word_of_nat n - d) < n"
    using assms(1) Suc.prems unat_index [of s n] by (simp add: unat_offset)
  then show ?case using Suc at_index [of n x d]
    by (auto simp: copy_byte_def less_Suc_eq)
qed simp

text \<open>In decreasing order, towards higher addresses.\<close>

lemma copy_down:
  assumes "unat s < unat d" "unat d + n \<le> 4294967296" "i \<le> n"
  shows "fold (copy_byte d s) (rev [i..<n]) m x = (if i \<le> unat (x - d) \<and> unat (x - d) < n then m (s + (x - d)) else m x)"
  using assms(3)
proof (induction "n - i" arbitrary: i x)
  case (Suc k)
  have i: "i < n" "k = n - Suc i" "[i..<n] = i # [Suc i..<n]" using Suc.hyps(2) by (auto simp: upt_conv_Cons)
  have "\<not> (Suc i \<le> unat (s + word_of_nat i - d) \<and> unat (s + word_of_nat i - d) < n)"
    using assms(1,2) i(1) unat_index [of s i] by (auto simp: unat_offset)
  then show ?case using Suc.hyps(1) [OF i(2)] i at_index [of i x d] assms(2)
    by (auto simp: copy_byte_def Suc_le_eq)
qed auto

text \<open>
  \<open>memmove\<close> copies the block as it was before the call, however source and destination
  overlap, and changes nothing else.
\<close>

theorem memmove_copies:
  assumes "unat dst + unat n \<le> 4294967296" "unat src + unat n \<le> 4294967296"
  shows "memmove dst src n m x = (if x - dst < n then m (src + (x - dst)) else m x)"
proof (cases "dst = src \<or> n = 0")
  case False
  then show ?thesis
    using copy_up [of dst src "unat n"] copy_down [of src dst "unat n" 0] assms
    by (auto simp: memmove_def word_less_nat_alt word_unat_eq_iff [of dst src])
qed (auto simp: memmove_def)

theorem memmove_copies_witness:
  "map (memmove 0x1002 0x1000 4 ((\<lambda>_. 0)(0x1000 := 1, 0x1001 := 2, 0x1002 := 3, 0x1003 := 4))) [0x1000, 0x1002, 0x1003, 0x1004, 0x1005] =
     [1, 1, 2, 3, 4]"
  by (simp add: memmove_copies)

section \<open>Comparing strings\<close>

text \<open>The string at an address: its bytes, none of them 0, and the terminator.\<close>

fun cstring :: "mem \<Rightarrow> u32 \<Rightarrow> u8 list \<Rightarrow> bool" where
  "cstring m p [] \<longleftrightarrow> m p = 0"
| "cstring m p (b # s) \<longleftrightarrow> m p = b \<and> b \<noteq> 0 \<and> cstring m (p + 1) s"

lemma strlen_cstring: "cstring m (p + n) s \<Longrightarrow> strlen_loop p n m = Some (n + word_of_nat (length s))"
proof (induction s arbitrary: n)
  case (Cons b s)
  then show ?case using Cons.IH [of "n + 1"] by (simp add: strlen_loop.simps [of p n] ac_simps)
qed (subst strlen_loop.simps, simp)

lemma uint_pos: "0 < uint (b :: u8) \<longleftrightarrow> b \<noteq> 0"
  by (metis uint_0_iff uint_ge_0 order_less_le)

text \<open>
  Comparing two strings ends; the result is zero exactly for equal strings and negative
  exactly when the first comes first in the order of unsigned bytes.
\<close>

theorem strcmp_orders:
  assumes "cstring m a s" "cstring m b t"
  shows "\<exists>r. strcmp a b m = Some r \<and> (r = 0 \<longleftrightarrow> s = t) \<and> (r < 0 \<longleftrightarrow> ord_class.lexordp s t)"
  using assms
proof (induction s arbitrary: a b t)
  case Nil
  then show ?case using uint_pos [of "m b"]
    by (cases t) (auto simp: strcmp.simps [of a b])
next
  case (Cons c s)
  show ?case
  proof (cases t)
    case Nil
    then show ?thesis using Cons.prems uint_pos [of "m a"] by (auto simp: strcmp.simps [of a b])
  next
    case (Cons d t')
    then show ?thesis using Cons.IH [of "a + 1" "b + 1" t'] Cons.prems
      by (cases "c = d") (auto simp: strcmp.simps [of a b] word_less_def word_uint_eq_iff)
  qed
qed

theorem strcmp_orders_witness:
  "\<exists>r. strcmp 0x10 0x20 ((\<lambda>_. 0)(0x10 := 0x41, 0x20 := 0xC1)) = Some r \<and> r < 0"
proof -
  let ?m = "(\<lambda>_. 0)(0x10 := 0x41, 0x20 := 0xC1) :: mem"
  have "cstring ?m 0x10 [0x41]" "cstring ?m 0x20 [0xC1]" by simp_all
  from strcmp_orders [OF this] show ?thesis by auto
qed

end
