(* ===== verification/Features.thy ===== *)
theory Features
  imports Kprintf "HOL-Library.Monad_Syntax"
begin

text \<open>
  The feature registry and the \<open>features\<close> command (\<open>kernel/os/feature_registry.c\<close>,
  \<open>kernel/os/osreport.c\<close>). The lemmas show that the report prints every registered feature
  once, whole, under the heading of its own status.
\<close>

section \<open>The registry (feature_registry.c)\<close>

definition FEAT_NAME_MAX :: nat where "FEAT_NAME_MAX = 40"
definition FEAT_MAX :: nat where "FEAT_MAX = 80"

datatype feat_status = FEAT_IMPLEMENTED | FEAT_HOST_TESTED | FEAT_COMPILE_ONLY | FEAT_DESIGN_ONLY | FEAT_NOT_VERIFIED

record feature =
  f_name :: "char list"
  f_status :: feat_status
  f_used :: bool

record feature_registry =
  items :: "feature list"
  feat_n :: nat

definition cp :: "char list \<Rightarrow> char list option \<Rightarrow> nat \<Rightarrow> char list" where
  "cp d s mx = (if mx = 0 then d else case s of None \<Rightarrow> d[0 := NUL] | Some t \<Rightarrow> cstr_copy d t 0 (mx - 1))"

definition feat_init :: "feature_registry \<Rightarrow> feature_registry" where
  "feat_init r = r\<lparr>feat_n := 0, items := map (\<lambda>f. f\<lparr>f_used := False\<rparr>) (items r)\<rparr>"

definition feat_add :: "char list \<Rightarrow> feat_status \<Rightarrow> feature_registry \<Rightarrow> int \<times> feature_registry" where
  "feat_add name st r =
     (if feat_n r \<ge> FEAT_MAX then (-1, r)
      else let f = items r ! feat_n r;
               f = f\<lparr>f_name := cp (f_name f) (Some name) FEAT_NAME_MAX, f_status := st, f_used := True\<rparr>
           in (int (feat_n r), r\<lparr>items := (items r)[feat_n r := f], feat_n := feat_n r + 1\<rparr>))"

definition feat_count :: "feature_registry \<Rightarrow> nat" where
  "feat_count r = feat_n r"

definition feat_count_by :: "feat_status \<Rightarrow> feature_registry \<Rightarrow> nat" where
  "feat_count_by st r = count_if (\<lambda>f. f_status f = st) (take (feat_n r) (items r))"

definition feat_get :: "int \<Rightarrow> feature_registry \<Rightarrow> feature option" where
  "feat_get idx r = (if idx < 0 \<or> idx \<ge> int (feat_n r) then None else Some (items r ! nat idx))"

fun feat_status_label :: "feat_status \<Rightarrow> char list" where
  "feat_status_label FEAT_IMPLEMENTED = ''implemented''"
| "feat_status_label FEAT_HOST_TESTED = ''host-tested''"
| "feat_status_label FEAT_COMPILE_ONLY = ''compile-only''"
| "feat_status_label FEAT_DESIGN_ONLY = ''design-only''"
| "feat_status_label FEAT_NOT_VERIFIED = ''not-verified-here''"

section \<open>The report (osreport.c)\<close>

definition feature_list :: "(char list \<times> feat_status) list" where
  "feature_list =
     [(''Multiboot boot + 1 MiB load'', FEAT_IMPLEMENTED),
      (''VGA text + COM1 serial + kprintf'', FEAT_IMPLEMENTED),
      (''GDT/IDT/exceptions/PIC/IRQ/PIT'', FEAT_IMPLEMENTED),
      (''PS/2 keyboard + mouse'', FEAT_IMPLEMENTED),
      (''USB xHCI + USB-HID keyboard/mouse'', FEAT_IMPLEMENTED),
      (''Paging enabled (CR0.PG)'', FEAT_IMPLEMENTED),
      (''Cooperative multitasking'', FEAT_IMPLEMENTED),
      (''In-RAM filesystem (ls/cat/write)'', FEAT_IMPLEMENTED),
      (''int 0x80 syscalls + ring-3 user mode'', FEAT_IMPLEMENTED),
      (''1024x768 desktop + apps'', FEAT_IMPLEMENTED),
      (''Interactive shell (thuos>)'', FEAT_IMPLEMENTED),
      (''Kernel log + dmesg'', FEAT_IMPLEMENTED),
      (''AI shell namespace (ai ...)'', FEAT_IMPLEMENTED),
      (''PMM / heap / paging core'', FEAT_HOST_TESTED),
      (''Scheduler / fs / syscall / usermode'', FEAT_HOST_TESTED),
      (''AI core: registry/policy/task/audit'', FEAT_HOST_TESTED),
      (''OS feature/status registry'', FEAT_HOST_TESTED),
      (''Thunity AI bridge (to local server)'', FEAT_DESIGN_ONLY),
      (''AI model runtime / inference'', FEAT_DESIGN_ONLY),
      (''TCP/IP networking'', FEAT_DESIGN_ONLY),
      (''Storage / disk driver'', FEAT_DESIGN_ONLY),
      (''ELF loader (apps from files)'', FEAT_DESIGN_ONLY),
      (''Window manager (movable windows)'', FEAT_DESIGN_ONLY),
      (''Multi-user accounts / sessions'', FEAT_DESIGN_ONLY),
      (''Package manager (real install)'', FEAT_DESIGN_ONLY),
      (''UEFI boot path (grub-efi)'', FEAT_DESIGN_ONLY),
      (''Boot on real physical hardware'', FEAT_NOT_VERIFIED)]"

definition feat_adds :: "(char list \<times> feat_status) list \<Rightarrow> feature_registry \<Rightarrow> feature_registry" where
  "feat_adds fs r = fold (\<lambda>(name, st) r. snd (feat_add name st r)) fs r"

definition build :: "feature_registry \<Rightarrow> feature_registry" where
  "build r = feat_adds feature_list (feat_init r)"

definition feat_statuses :: "feat_status list" where
  "feat_statuses = [FEAT_IMPLEMENTED, FEAT_HOST_TESTED, FEAT_COMPILE_ONLY, FEAT_DESIGN_ONLY, FEAT_NOT_VERIFIED]"

definition print_feature :: "feat_status \<Rightarrow> feature option \<Rightarrow> console \<Rightarrow> console option" where
  "print_feature st fo c =
     (case fo of None \<Rightarrow> Some c | Some f \<Rightarrow> if f_status f = st then kprintf (''  - %s'' @ NL) [ks (f_name f)] c else Some c)"

definition print_group :: "feature_registry \<Rightarrow> feat_status \<Rightarrow> console \<Rightarrow> console option" where
  "print_group r st c =
     (if feat_count_by st r = 0 then Some c
      else do {
        c \<leftarrow> kprintf (''[%s]'' @ NL) [ks (feat_status_label st)] c;
        each (\<lambda>i. print_feature st (feat_get (int i) r)) [0..<feat_count r] c
      })"

definition osreport_lines :: "feature_registry \<Rightarrow> console \<Rightarrow> console option" where
  "osreport_lines r c = do {
     c \<leftarrow> kprintf (''THUOS feature map - honest status (one source of truth)'' @ NL) [] c;
     c \<leftarrow> kprintf (''  implemented=%d host-tested=%d compile-only=%d design-only=%d not-verified=%d'' @ NL)
       [ki (int (feat_count_by FEAT_IMPLEMENTED r)), ki (int (feat_count_by FEAT_HOST_TESTED r)),
        ki (int (feat_count_by FEAT_COMPILE_ONLY r)), ki (int (feat_count_by FEAT_DESIGN_ONLY r)),
        ki (int (feat_count_by FEAT_NOT_VERIFIED r))] c;
     c \<leftarrow> each (print_group r) feat_statuses c;
     kprintf (''Legend: implemented=boot-verified  host-tested=make test  design-only=no runtime path yet'' @ NL) [] c
   }"

definition osreport_print :: "feature_registry \<Rightarrow> console \<Rightarrow> (feature_registry \<times> console) option" where
  "osreport_print r c = (let r = build r in map_option (Pair r) (osreport_lines r c))"

section \<open>What the registry holds\<close>

definition feat_ok :: "feature_registry \<Rightarrow> bool" where
  "feat_ok r \<longleftrightarrow> length (items r) = FEAT_MAX \<and> (\<forall>f \<in> set (items r). length (f_name f) = FEAT_NAME_MAX) \<and> feat_n r \<le> FEAT_MAX"

definition feat_view :: "feature_registry \<Rightarrow> (char list \<times> feat_status) list" where
  "feat_view r = map (\<lambda>f. (cstr (f_name f), f_status f)) (take (feat_n r) (items r))"

lemma feat_add_view:
  assumes "feat_ok r" "feat_n r < FEAT_MAX"
  shows "feat_view (snd (feat_add name st r)) = feat_view r @ [(take 39 (cstr name), st)] \<and>
    fst (feat_add name st r) = int (length (feat_view r)) \<and> feat_ok (snd (feat_add name st r)) \<and>
    feat_n (snd (feat_add name st r)) = feat_n r + 1"
proof -
  have i: "feat_n r < length (items r)" "length (f_name (items r ! feat_n r)) = 40"
    using assms by (auto simp: feat_ok_def FEAT_NAME_MAX_def)
  have "cstr (cp (f_name (items r ! feat_n r)) (Some name) 40) = take 39 (cstr name)"
    using i by (simp add: cp_def cstr_cstr_copy)
  moreover have "length (cp d (Some name) 40) = length d" for d by (simp add: cp_def)
  ultimately show ?thesis using assms i
    by (auto simp: feat_add_def feat_view_def feat_ok_def Let_def take_Suc_conv_app_nth FEAT_NAME_MAX_def
        dest!: set_update_subset_insert [THEN subsetD])
qed

lemma feat_adds_view:
  assumes "feat_ok r" "feat_n r + length fs \<le> FEAT_MAX" "\<forall>(name, st) \<in> set fs. NUL \<notin> set name \<and> length name < 40"
  shows "feat_view (feat_adds fs r) = feat_view r @ fs \<and> feat_ok (feat_adds fs r) \<and> feat_n (feat_adds fs r) = feat_n r + length fs"
  using assms
proof (induction fs arbitrary: r)
  case (Cons p fs)
  obtain name st where p: "p = (name, st)" by fastforce
  let ?r = "snd (feat_add name st r)"
  have "feat_n r < FEAT_MAX" "take 39 (cstr name) = name" using Cons.prems p by (auto simp: cstr_id)
  then have "feat_view ?r = feat_view r @ [p]" "feat_ok ?r" "feat_n ?r = feat_n r + 1"
    using feat_add_view [OF Cons.prems(1), of name st] p by auto
  then show ?case using Cons.IH [of ?r] Cons.prems p by (simp add: feat_adds_def)
qed (simp add: feat_adds_def)

lemma build_view: "feat_ok r \<Longrightarrow> feat_view (build r) = feature_list \<and> feat_n (build r) = 27 \<and> feat_ok (build r)"
proof -
  assume "feat_ok r"
  then have ok: "feat_ok (feat_init r)" "feat_n (feat_init r) = 0" "feat_view (feat_init r) = []"
    by (auto simp: feat_ok_def feat_init_def feat_view_def)
  have "\<forall>(name, st) \<in> set feature_list. NUL \<notin> set name \<and> length name < 40" by code_simp
  moreover have "length feature_list = 27" by (simp add: feature_list_def)
  ultimately show ?thesis using feat_adds_view [OF ok(1), of feature_list] ok by (simp add: build_def FEAT_MAX_def)
qed

section \<open>What the report prints\<close>

definition feature_line :: "feat_status \<Rightarrow> char list \<times> feat_status \<Rightarrow> char list" where
  "feature_line st p = (if snd p = st then ''  - '' @ fst p @ NL else [])"

definition group_text :: "(char list \<times> feat_status) list \<Rightarrow> feat_status \<Rightarrow> char list" where
  "group_text fs st =
     (if \<exists>p \<in> set fs. snd p = st
      then ''['' @ feat_status_label st @ '']'' @ NL @ concat (map (feature_line st) fs) else [])"

definition count_st :: "(char list \<times> feat_status) list \<Rightarrow> feat_status \<Rightarrow> nat" where
  "count_st fs st = count_if (\<lambda>p. snd p = st) fs"

definition report_text :: "(char list \<times> feat_status) list \<Rightarrow> char list" where
  "report_text fs =
     ''THUOS feature map - honest status (one source of truth)'' @ NL @
     ''  implemented='' @ dtext (of_nat (count_st fs FEAT_IMPLEMENTED)) @ '' host-tested='' @ dtext (of_nat (count_st fs FEAT_HOST_TESTED)) @
     '' compile-only='' @ dtext (of_nat (count_st fs FEAT_COMPILE_ONLY)) @ '' design-only='' @ dtext (of_nat (count_st fs FEAT_DESIGN_ONLY)) @
     '' not-verified='' @ dtext (of_nat (count_st fs FEAT_NOT_VERIFIED)) @ NL @
     concat (map (group_text fs) feat_statuses) @
     ''Legend: implemented=boot-verified  host-tested=make test  design-only=no runtime path yet'' @ NL"

lemma label_no_NUL: "cstr (feat_status_label st) = feat_status_label st"
  by (cases st) simp_all

lemma count_by_view: "feat_count_by st r = count_st (feat_view r) st"
  by (simp add: feat_count_by_def count_st_def feat_view_def count_if_def filter_map comp_def)

lemma outputs_feature:
  assumes "i < feat_n r" "feat_n r \<le> length (items r)"
  shows "outputs (print_feature st (feat_get (int i) r)) (feature_line st (feat_view r ! i))"
proof (cases "f_status (items r ! i) = st")
  case True
  have "outputs (kprintf (''  - %s'' @ NL) [ks (f_name (items r ! i))]) (''  - '' @ cstr (f_name (items r ! i)) @ NL)"
    by (rule outputs_kprintf) (simp add: kformat_rules NL_def)
  then show ?thesis using assms True by (simp add: print_feature_def feat_get_def feature_line_def feat_view_def outputs_def)
next
  case False
  then show ?thesis using assms outputs_Some
    by (simp add: print_feature_def feat_get_def feature_line_def feat_view_def outputs_def)
qed

lemma outputs_group:
  assumes "feat_n r \<le> length (items r)"
  shows "outputs (print_group r st) (group_text (feat_view r) st)"
proof (cases "count_st (feat_view r) st = 0")
  case True
  then have "\<not> (\<exists>p \<in> set (feat_view r). snd p = st)" by (auto simp: count_st_def count_if_def filter_empty_conv)
  then show ?thesis using True by (simp add: print_group_def group_text_def count_by_view outputs_def)
next
  case False
  then have ex: "\<exists>p \<in> set (feat_view r). snd p = st" by (auto simp: count_st_def count_if_def filter_empty_conv)
  have n: "feat_n r = length (feat_view r)" using assms by (simp add: feat_view_def)
  have "outputs (each (\<lambda>i. print_feature st (feat_get (int i) r)) [0..<feat_count r])
      (concat (map (\<lambda>i. feature_line st (feat_view r ! i)) [0..<feat_n r]))"
    unfolding feat_count_def by (rule outputs_each) (use assms in \<open>auto intro: outputs_feature\<close>)
  moreover have "map (\<lambda>i. feature_line st (feat_view r ! i)) [0..<feat_n r] = map (feature_line st) (feat_view r)"
    unfolding n by (rule nth_equalityI) simp_all
  moreover have "outputs (kprintf (''[%s]'' @ NL) [ks (feat_status_label st)]) (''['' @ feat_status_label st @ '']'' @ NL)"
    by (rule outputs_kprintf) (simp add: kformat_rules NL_def label_no_NUL)
  ultimately have "outputs (\<lambda>c. Option.bind (kprintf (''[%s]'' @ NL) [ks (feat_status_label st)] c)
      (each (\<lambda>i. print_feature st (feat_get (int i) r)) [0..<feat_count r])) (group_text (feat_view r) st)"
    using outputs_bind ex by (fastforce simp: group_text_def)
  then show ?thesis using False by (simp add: print_group_def count_by_view outputs_def)
qed

lemma outputs_report:
  assumes "feat_n r \<le> length (items r)"
  shows "outputs (osreport_lines r) (report_text (feat_view r))"
proof -
  let ?k = "\<lambda>st. ki (int (feat_count_by st r))"
  have a: "outputs (kprintf (''THUOS feature map - honest status (one source of truth)'' @ NL) [])
      (''THUOS feature map - honest status (one source of truth)'' @ NL)"
    by (rule outputs_kprintf) (simp add: kformat_rules NL_def)
  have b: "outputs (kprintf (''  implemented=%d host-tested=%d compile-only=%d design-only=%d not-verified=%d'' @ NL)
      [?k FEAT_IMPLEMENTED, ?k FEAT_HOST_TESTED, ?k FEAT_COMPILE_ONLY, ?k FEAT_DESIGN_ONLY, ?k FEAT_NOT_VERIFIED])
      (''  implemented='' @ dtext (of_nat (count_st (feat_view r) FEAT_IMPLEMENTED)) @ '' host-tested='' @
       dtext (of_nat (count_st (feat_view r) FEAT_HOST_TESTED)) @ '' compile-only='' @ dtext (of_nat (count_st (feat_view r) FEAT_COMPILE_ONLY)) @
       '' design-only='' @ dtext (of_nat (count_st (feat_view r) FEAT_DESIGN_ONLY)) @ '' not-verified='' @
       dtext (of_nat (count_st (feat_view r) FEAT_NOT_VERIFIED)) @ NL)"
    by (rule outputs_kprintf) (simp add: kformat_rules NL_def count_by_view)
  have c: "outputs (each (print_group r) feat_statuses) (concat (map (group_text (feat_view r)) feat_statuses))"
    by (rule outputs_each) (rule outputs_group [OF assms])
  have d: "outputs (kprintf (''Legend: implemented=boot-verified  host-tested=make test  design-only=no runtime path yet'' @ NL) [])
      (''Legend: implemented=boot-verified  host-tested=make test  design-only=no runtime path yet'' @ NL)"
    by (rule outputs_kprintf) (simp add: kformat_rules NL_def)
  from outputs_bind [OF a outputs_bind [OF b outputs_bind [OF c d]]] show ?thesis
    by (simp add: outputs_def osreport_lines_def report_text_def)
qed

lemma osreport_returns:
  assumes "feat_ok r"
  shows "\<exists>c'. osreport_print r c = Some (build r, c') \<and> sunk c' = sunk c @ report_text feature_list"
proof -
  have v: "feat_view (build r) = feature_list" "feat_n (build r) = 27" using build_view [OF assms] by auto
  then have "length feature_list = min 27 (length (items (build r)))"
    unfolding v(1) [symmetric] by (simp add: feat_view_def v(2) min.commute)
  then have "27 \<le> length (items (build r))" by (simp add: feature_list_def min_def split: if_splits)
  then show ?thesis using outputs_report [of "build r"] v
    by (auto simp: outputs_def osreport_print_def Let_def dest: spec [of _ c])
qed

text \<open>
  The \<open>features\<close> command returns, with the registry holding the 27 features in order, and
  prints the summary and, under the heading of each status that occurs, the features that
  have it: each feature once, with its whole name.
\<close>

theorem osreport_prints_every_feature:
  assumes "feat_ok r"
  shows "\<exists>r' c'. osreport_print r c = Some (r', c') \<and> feat_view r' = feature_list \<and>
    sunk c' = sunk c @ report_text feature_list"
  using osreport_returns [OF assms] build_view [OF assms] by blast

definition blank_registry :: feature_registry where
  "blank_registry = \<lparr>items = replicate 80 \<lparr>f_name = replicate 40 NUL, f_status = FEAT_IMPLEMENTED, f_used = False\<rparr>, feat_n = 3\<rparr>"

theorem osreport_prints_every_feature_witness:
  "\<exists>r' c'. osreport_print blank_registry \<lparr>sunk = [], klog_buf = replicate 8192 NUL, klog_w = 0\<rparr> = Some (r', c') \<and>
     sunk c' = report_text feature_list"
proof -
  have "feat_ok blank_registry" by (simp add: feat_ok_def blank_registry_def FEAT_MAX_def FEAT_NAME_MAX_def)
  from osreport_prints_every_feature [OF this, of "\<lparr>sunk = [], klog_buf = replicate 8192 NUL, klog_w = 0\<rparr>"]
  show ?thesis by auto
qed

end
