(* ===== verification/Gfx.thy ===== *)
theory Gfx
  imports Thuos_Prelude
begin

text \<open>
  The embedded 8x16 font (\<open>kernel/drivers/gfx.c\<close>): one list of sixteen rows per character,
  sixteen characters per definition, the leftmost pixel in the highest bit.
\<close>

definition font_00 :: "u8 list list" where
  "font_00 =
     [[0, 0, 0, 0, 0, 0, 0, 0, 0, 0, 0, 0, 0, 0, 0, 0],
      [0, 0, 0x7E, 0x81, 0xA5, 0x81, 0x81, 0xBD, 0x99, 0x81, 0x81, 0x7E, 0, 0, 0, 0],
      [0, 0, 0x7E, 0xFF, 0xDB, 0xFF, 0xFF, 0xC3, 0xE7, 0xFF, 0xFF, 0x7E, 0, 0, 0, 0],
      [0, 0, 0, 0, 0x6C, 0xFE, 0xFE, 0xFE, 0xFE, 0x7C, 0x38, 0x10, 0, 0, 0, 0],
      [0, 0, 0, 0, 0x10, 0x38, 0x7C, 0xFE, 0x7C, 0x38, 0x10, 0, 0, 0, 0, 0],
      [0, 0, 0, 0x18, 0x3C, 0x3C, 0xE7, 0xE7, 0xE7, 0x18, 0x18, 0x3C, 0, 0, 0, 0],
      [0, 0, 0, 0x18, 0x3C, 0x7E, 0xFF, 0xFF, 0x7E, 0x18, 0x18, 0x3C, 0, 0, 0, 0],
      [0, 0, 0, 0, 0, 0, 0x18, 0x3C, 0x3C, 0x18, 0, 0, 0, 0, 0, 0],
      [0xFF, 0xFF, 0xFF, 0xFF, 0xFF, 0xFF, 0xE7, 0xC3, 0xC3, 0xE7, 0xFF, 0xFF, 0xFF, 0xFF, 0xFF, 0xFF],
      [0, 0, 0, 0, 0, 0x3C, 0x66, 0x42, 0x42, 0x66, 0x3C, 0, 0, 0, 0, 0],
      [0xFF, 0xFF, 0xFF, 0xFF, 0xFF, 0xC3, 0x99, 0xBD, 0xBD, 0x99, 0xC3, 0xFF, 0xFF, 0xFF, 0xFF, 0xFF],
      [0, 0, 0x1E, 0x0E, 0x1A, 0x32, 0x78, 0xCC, 0xCC, 0xCC, 0xCC, 0x78, 0, 0, 0, 0],
      [0, 0, 0x3C, 0x66, 0x66, 0x66, 0x66, 0x3C, 0x18, 0x7E, 0x18, 0x18, 0, 0, 0, 0],
      [0, 0, 0x3F, 0x33, 0x3F, 0x30, 0x30, 0x30, 0x30, 0x70, 0xF0, 0xE0, 0, 0, 0, 0],
      [0, 0, 0x7F, 0x63, 0x7F, 0x63, 0x63, 0x63, 0x63, 0x67, 0xE7, 0xE6, 0xC0, 0, 0, 0],
      [0, 0, 0, 0x18, 0x18, 0xDB, 0x3C, 0xE7, 0x3C, 0xDB, 0x18, 0x18, 0, 0, 0, 0]]"

definition font_10 :: "u8 list list" where
  "font_10 =
     [[0, 0x80, 0xC0, 0xE0, 0xF0, 0xF8, 0xFE, 0xF8, 0xF0, 0xE0, 0xC0, 0x80, 0, 0, 0, 0],
      [0, 2, 6, 0x0E, 0x1E, 0x3E, 0xFE, 0x3E, 0x1E, 0x0E, 6, 2, 0, 0, 0, 0],
      [0, 0, 0x18, 0x3C, 0x7E, 0x18, 0x18, 0x18, 0x7E, 0x3C, 0x18, 0, 0, 0, 0, 0],
      [0, 0, 0x66, 0x66, 0x66, 0x66, 0x66, 0x66, 0x66, 0, 0x66, 0x66, 0, 0, 0, 0],
      [0, 0, 0x7F, 0xDB, 0xDB, 0xDB, 0x7B, 0x1B, 0x1B, 0x1B, 0x1B, 0x1B, 0, 0, 0, 0],
      [0, 0x7C, 0xC6, 0x60, 0x38, 0x6C, 0xC6, 0xC6, 0x6C, 0x38, 0x0C, 0xC6, 0x7C, 0, 0, 0],
      [0, 0, 0, 0, 0, 0, 0, 0, 0xFE, 0xFE, 0xFE, 0xFE, 0, 0, 0, 0],
      [0, 0, 0x18, 0x3C, 0x7E, 0x18, 0x18, 0x18, 0x7E, 0x3C, 0x18, 0x7E, 0, 0, 0, 0],
      [0, 0, 0x18, 0x3C, 0x7E, 0x18, 0x18, 0x18, 0x18, 0x18, 0x18, 0x18, 0, 0, 0, 0],
      [0, 0, 0x18, 0x18, 0x18, 0x18, 0x18, 0x18, 0x18, 0x7E, 0x3C, 0x18, 0, 0, 0, 0],
      [0, 0, 0, 0, 0, 0x18, 0x0C, 0xFE, 0x0C, 0x18, 0, 0, 0, 0, 0, 0],
      [0, 0, 0, 0, 0, 0x30, 0x60, 0xFE, 0x60, 0x30, 0, 0, 0, 0, 0, 0],
      [0, 0, 0, 0, 0, 0, 0xC0, 0xC0, 0xC0, 0xFE, 0, 0, 0, 0, 0, 0],
      [0, 0, 0, 0, 0, 0x24, 0x66, 0xFF, 0x66, 0x24, 0, 0, 0, 0, 0, 0],
      [0, 0, 0, 0, 0x10, 0x38, 0x38, 0x7C, 0x7C, 0xFE, 0xFE, 0, 0, 0, 0, 0],
      [0, 0, 0, 0, 0xFE, 0xFE, 0x7C, 0x7C, 0x38, 0x38, 0x10, 0, 0, 0, 0, 0]]"

definition font_20 :: "u8 list list" where
  "font_20 =
     [[0, 0, 0, 0, 0, 0, 0, 0, 0, 0, 0, 0, 0, 0, 0, 0],
      [0, 0, 0x18, 0x3C, 0x3C, 0x3C, 0x18, 0x18, 0x18, 0, 0x18, 0x18, 0, 0, 0, 0],
      [0, 0x66, 0x66, 0x66, 0x24, 0, 0, 0, 0, 0, 0, 0, 0, 0, 0, 0],
      [0, 0, 0, 0x6C, 0x6C, 0xFE, 0x6C, 0x6C, 0x6C, 0xFE, 0x6C, 0x6C, 0, 0, 0, 0],
      [0x18, 0x18, 0x7C, 0xC6, 0xC2, 0xC0, 0x7C, 6, 6, 0x86, 0xC6, 0x7C, 0x18, 0x18, 0, 0],
      [0, 0, 0, 0, 0xC2, 0xC6, 0x0C, 0x18, 0x30, 0x60, 0xC6, 0x86, 0, 0, 0, 0],
      [0, 0, 0x38, 0x6C, 0x6C, 0x38, 0x76, 0xDC, 0xCC, 0xCC, 0xCC, 0x76, 0, 0, 0, 0],
      [0, 0x30, 0x30, 0x30, 0x60, 0, 0, 0, 0, 0, 0, 0, 0, 0, 0, 0],
      [0, 0, 0x0C, 0x18, 0x30, 0x30, 0x30, 0x30, 0x30, 0x30, 0x18, 0x0C, 0, 0, 0, 0],
      [0, 0, 0x30, 0x18, 0x0C, 0x0C, 0x0C, 0x0C, 0x0C, 0x0C, 0x18, 0x30, 0, 0, 0, 0],
      [0, 0, 0, 0, 0, 0x66, 0x3C, 0xFF, 0x3C, 0x66, 0, 0, 0, 0, 0, 0],
      [0, 0, 0, 0, 0, 0x18, 0x18, 0x7E, 0x18, 0x18, 0, 0, 0, 0, 0, 0],
      [0, 0, 0, 0, 0, 0, 0, 0, 0, 0x18, 0x18, 0x18, 0x30, 0, 0, 0],
      [0, 0, 0, 0, 0, 0, 0, 0xFE, 0, 0, 0, 0, 0, 0, 0, 0],
      [0, 0, 0, 0, 0, 0, 0, 0, 0, 0, 0x18, 0x18, 0, 0, 0, 0],
      [0, 0, 0, 0, 2, 6, 0x0C, 0x18, 0x30, 0x60, 0xC0, 0x80, 0, 0, 0, 0]]"

definition font_30 :: "u8 list list" where
  "font_30 =
     [[0, 0, 0x3C, 0x66, 0xC3, 0xC3, 0xDB, 0xDB, 0xC3, 0xC3, 0x66, 0x3C, 0, 0, 0, 0],
      [0, 0, 0x18, 0x38, 0x78, 0x18, 0x18, 0x18, 0x18, 0x18, 0x18, 0x7E, 0, 0, 0, 0],
      [0, 0, 0x7C, 0xC6, 6, 0x0C, 0x18, 0x30, 0x60, 0xC0, 0xC6, 0xFE, 0, 0, 0, 0],
      [0, 0, 0x7C, 0xC6, 6, 6, 0x3C, 6, 6, 6, 0xC6, 0x7C, 0, 0, 0, 0],
      [0, 0, 0x0C, 0x1C, 0x3C, 0x6C, 0xCC, 0xFE, 0x0C, 0x0C, 0x0C, 0x1E, 0, 0, 0, 0],
      [0, 0, 0xFE, 0xC0, 0xC0, 0xC0, 0xFC, 6, 6, 6, 0xC6, 0x7C, 0, 0, 0, 0],
      [0, 0, 0x38, 0x60, 0xC0, 0xC0, 0xFC, 0xC6, 0xC6, 0xC6, 0xC6, 0x7C, 0, 0, 0, 0],
      [0, 0, 0xFE, 0xC6, 6, 6, 0x0C, 0x18, 0x30, 0x30, 0x30, 0x30, 0, 0, 0, 0],
      [0, 0, 0x7C, 0xC6, 0xC6, 0xC6, 0x7C, 0xC6, 0xC6, 0xC6, 0xC6, 0x7C, 0, 0, 0, 0],
      [0, 0, 0x7C, 0xC6, 0xC6, 0xC6, 0x7E, 6, 6, 6, 0x0C, 0x78, 0, 0, 0, 0],
      [0, 0, 0, 0, 0x18, 0x18, 0, 0, 0, 0x18, 0x18, 0, 0, 0, 0, 0],
      [0, 0, 0, 0, 0x18, 0x18, 0, 0, 0, 0x18, 0x18, 0x30, 0, 0, 0, 0],
      [0, 0, 0, 6, 0x0C, 0x18, 0x30, 0x60, 0x30, 0x18, 0x0C, 6, 0, 0, 0, 0],
      [0, 0, 0, 0, 0, 0x7E, 0, 0, 0x7E, 0, 0, 0, 0, 0, 0, 0],
      [0, 0, 0, 0x60, 0x30, 0x18, 0x0C, 6, 0x0C, 0x18, 0x30, 0x60, 0, 0, 0, 0],
      [0, 0, 0x7C, 0xC6, 0xC6, 0x0C, 0x18, 0x18, 0x18, 0, 0x18, 0x18, 0, 0, 0, 0]]"

definition font_40 :: "u8 list list" where
  "font_40 =
     [[0, 0, 0, 0x7C, 0xC6, 0xC6, 0xDE, 0xDE, 0xDE, 0xDC, 0xC0, 0x7C, 0, 0, 0, 0],
      [0, 0, 0x10, 0x38, 0x6C, 0xC6, 0xC6, 0xFE, 0xC6, 0xC6, 0xC6, 0xC6, 0, 0, 0, 0],
      [0, 0, 0xFC, 0x66, 0x66, 0x66, 0x7C, 0x66, 0x66, 0x66, 0x66, 0xFC, 0, 0, 0, 0],
      [0, 0, 0x3C, 0x66, 0xC2, 0xC0, 0xC0, 0xC0, 0xC0, 0xC2, 0x66, 0x3C, 0, 0, 0, 0],
      [0, 0, 0xF8, 0x6C, 0x66, 0x66, 0x66, 0x66, 0x66, 0x66, 0x6C, 0xF8, 0, 0, 0, 0],
      [0, 0, 0xFE, 0x66, 0x62, 0x68, 0x78, 0x68, 0x60, 0x62, 0x66, 0xFE, 0, 0, 0, 0],
      [0, 0, 0xFE, 0x66, 0x62, 0x68, 0x78, 0x68, 0x60, 0x60, 0x60, 0xF0, 0, 0, 0, 0],
      [0, 0, 0x3C, 0x66, 0xC2, 0xC0, 0xC0, 0xDE, 0xC6, 0xC6, 0x66, 0x3A, 0, 0, 0, 0],
      [0, 0, 0xC6, 0xC6, 0xC6, 0xC6, 0xFE, 0xC6, 0xC6, 0xC6, 0xC6, 0xC6, 0, 0, 0, 0],
      [0, 0, 0x3C, 0x18, 0x18, 0x18, 0x18, 0x18, 0x18, 0x18, 0x18, 0x3C, 0, 0, 0, 0],
      [0, 0, 0x1E, 0x0C, 0x0C, 0x0C, 0x0C, 0x0C, 0xCC, 0xCC, 0xCC, 0x78, 0, 0, 0, 0],
      [0, 0, 0xE6, 0x66, 0x66, 0x6C, 0x78, 0x78, 0x6C, 0x66, 0x66, 0xE6, 0, 0, 0, 0],
      [0, 0, 0xF0, 0x60, 0x60, 0x60, 0x60, 0x60, 0x60, 0x62, 0x66, 0xFE, 0, 0, 0, 0],
      [0, 0, 0xC3, 0xE7, 0xFF, 0xFF, 0xDB, 0xC3, 0xC3, 0xC3, 0xC3, 0xC3, 0, 0, 0, 0],
      [0, 0, 0xC6, 0xE6, 0xF6, 0xFE, 0xDE, 0xCE, 0xC6, 0xC6, 0xC6, 0xC6, 0, 0, 0, 0],
      [0, 0, 0x7C, 0xC6, 0xC6, 0xC6, 0xC6, 0xC6, 0xC6, 0xC6, 0xC6, 0x7C, 0, 0, 0, 0]]"

definition font_50 :: "u8 list list" where
  "font_50 =
     [[0, 0, 0xFC, 0x66, 0x66, 0x66, 0x7C, 0x60, 0x60, 0x60, 0x60, 0xF0, 0, 0, 0, 0],
      [0, 0, 0x7C, 0xC6, 0xC6, 0xC6, 0xC6, 0xC6, 0xC6, 0xD6, 0xDE, 0x7C, 0x0C, 0x0E, 0, 0],
      [0, 0, 0xFC, 0x66, 0x66, 0x66, 0x7C, 0x6C, 0x66, 0x66, 0x66, 0xE6, 0, 0, 0, 0],
      [0, 0, 0x7C, 0xC6, 0xC6, 0x60, 0x38, 0x0C, 6, 0xC6, 0xC6, 0x7C, 0, 0, 0, 0],
      [0, 0, 0xFF, 0xDB, 0x99, 0x18, 0x18, 0x18, 0x18, 0x18, 0x18, 0x3C, 0, 0, 0, 0],
      [0, 0, 0xC6, 0xC6, 0xC6, 0xC6, 0xC6, 0xC6, 0xC6, 0xC6, 0xC6, 0x7C, 0, 0, 0, 0],
      [0, 0, 0xC3, 0xC3, 0xC3, 0xC3, 0xC3, 0xC3, 0xC3, 0x66, 0x3C, 0x18, 0, 0, 0, 0],
      [0, 0, 0xC3, 0xC3, 0xC3, 0xC3, 0xC3, 0xDB, 0xDB, 0xFF, 0x66, 0x66, 0, 0, 0, 0],
      [0, 0, 0xC3, 0xC3, 0x66, 0x3C, 0x18, 0x18, 0x3C, 0x66, 0xC3, 0xC3, 0, 0, 0, 0],
      [0, 0, 0xC3, 0xC3, 0xC3, 0x66, 0x3C, 0x18, 0x18, 0x18, 0x18, 0x3C, 0, 0, 0, 0],
      [0, 0, 0xFF, 0xC3, 0x86, 0x0C, 0x18, 0x30, 0x60, 0xC1, 0xC3, 0xFF, 0, 0, 0, 0],
      [0, 0, 0x3C, 0x30, 0x30, 0x30, 0x30, 0x30, 0x30, 0x30, 0x30, 0x3C, 0, 0, 0, 0],
      [0, 0, 0, 0x80, 0xC0, 0xE0, 0x70, 0x38, 0x1C, 0x0E, 6, 2, 0, 0, 0, 0],
      [0, 0, 0x3C, 0x0C, 0x0C, 0x0C, 0x0C, 0x0C, 0x0C, 0x0C, 0x0C, 0x3C, 0, 0, 0, 0],
      [0x10, 0x38, 0x6C, 0xC6, 0, 0, 0, 0, 0, 0, 0, 0, 0, 0, 0, 0],
      [0, 0, 0, 0, 0, 0, 0, 0, 0, 0, 0, 0, 0, 0xFF, 0, 0]]"

definition font_60 :: "u8 list list" where
  "font_60 =
     [[0x30, 0x30, 0x18, 0, 0, 0, 0, 0, 0, 0, 0, 0, 0, 0, 0, 0],
      [0, 0, 0, 0, 0, 0x78, 0x0C, 0x7C, 0xCC, 0xCC, 0xCC, 0x76, 0, 0, 0, 0],
      [0, 0, 0xE0, 0x60, 0x60, 0x78, 0x6C, 0x66, 0x66, 0x66, 0x66, 0x7C, 0, 0, 0, 0],
      [0, 0, 0, 0, 0, 0x7C, 0xC6, 0xC0, 0xC0, 0xC0, 0xC6, 0x7C, 0, 0, 0, 0],
      [0, 0, 0x1C, 0x0C, 0x0C, 0x3C, 0x6C, 0xCC, 0xCC, 0xCC, 0xCC, 0x76, 0, 0, 0, 0],
      [0, 0, 0, 0, 0, 0x7C, 0xC6, 0xFE, 0xC0, 0xC0, 0xC6, 0x7C, 0, 0, 0, 0],
      [0, 0, 0x38, 0x6C, 0x64, 0x60, 0xF0, 0x60, 0x60, 0x60, 0x60, 0xF0, 0, 0, 0, 0],
      [0, 0, 0, 0, 0, 0x76, 0xCC, 0xCC, 0xCC, 0xCC, 0xCC, 0x7C, 0x0C, 0xCC, 0x78, 0],
      [0, 0, 0xE0, 0x60, 0x60, 0x6C, 0x76, 0x66, 0x66, 0x66, 0x66, 0xE6, 0, 0, 0, 0],
      [0, 0, 0x18, 0x18, 0, 0x38, 0x18, 0x18, 0x18, 0x18, 0x18, 0x3C, 0, 0, 0, 0],
      [0, 0, 6, 6, 0, 0x0E, 6, 6, 6, 6, 6, 6, 0x66, 0x66, 0x3C, 0],
      [0, 0, 0xE0, 0x60, 0x60, 0x66, 0x6C, 0x78, 0x78, 0x6C, 0x66, 0xE6, 0, 0, 0, 0],
      [0, 0, 0x38, 0x18, 0x18, 0x18, 0x18, 0x18, 0x18, 0x18, 0x18, 0x3C, 0, 0, 0, 0],
      [0, 0, 0, 0, 0, 0xE6, 0xFF, 0xDB, 0xDB, 0xDB, 0xDB, 0xDB, 0, 0, 0, 0],
      [0, 0, 0, 0, 0, 0xDC, 0x66, 0x66, 0x66, 0x66, 0x66, 0x66, 0, 0, 0, 0],
      [0, 0, 0, 0, 0, 0x7C, 0xC6, 0xC6, 0xC6, 0xC6, 0xC6, 0x7C, 0, 0, 0, 0]]"

definition font_70 :: "u8 list list" where
  "font_70 =
     [[0, 0, 0, 0, 0, 0xDC, 0x66, 0x66, 0x66, 0x66, 0x66, 0x7C, 0x60, 0x60, 0xF0, 0],
      [0, 0, 0, 0, 0, 0x76, 0xCC, 0xCC, 0xCC, 0xCC, 0xCC, 0x7C, 0x0C, 0x0C, 0x1E, 0],
      [0, 0, 0, 0, 0, 0xDC, 0x76, 0x66, 0x60, 0x60, 0x60, 0xF0, 0, 0, 0, 0],
      [0, 0, 0, 0, 0, 0x7C, 0xC6, 0x60, 0x38, 0x0C, 0xC6, 0x7C, 0, 0, 0, 0],
      [0, 0, 0x10, 0x30, 0x30, 0xFC, 0x30, 0x30, 0x30, 0x30, 0x36, 0x1C, 0, 0, 0, 0],
      [0, 0, 0, 0, 0, 0xCC, 0xCC, 0xCC, 0xCC, 0xCC, 0xCC, 0x76, 0, 0, 0, 0],
      [0, 0, 0, 0, 0, 0xC3, 0xC3, 0xC3, 0xC3, 0x66, 0x3C, 0x18, 0, 0, 0, 0],
      [0, 0, 0, 0, 0, 0xC3, 0xC3, 0xC3, 0xDB, 0xDB, 0xFF, 0x66, 0, 0, 0, 0],
      [0, 0, 0, 0, 0, 0xC3, 0x66, 0x3C, 0x18, 0x3C, 0x66, 0xC3, 0, 0, 0, 0],
      [0, 0, 0, 0, 0, 0xC6, 0xC6, 0xC6, 0xC6, 0xC6, 0xC6, 0x7E, 6, 0x0C, 0xF8, 0],
      [0, 0, 0, 0, 0, 0xFE, 0xCC, 0x18, 0x30, 0x60, 0xC6, 0xFE, 0, 0, 0, 0],
      [0, 0, 0x0E, 0x18, 0x18, 0x18, 0x70, 0x18, 0x18, 0x18, 0x18, 0x0E, 0, 0, 0, 0],
      [0, 0, 0x18, 0x18, 0x18, 0x18, 0, 0x18, 0x18, 0x18, 0x18, 0x18, 0, 0, 0, 0],
      [0, 0, 0x70, 0x18, 0x18, 0x18, 0x0E, 0x18, 0x18, 0x18, 0x18, 0x70, 0, 0, 0, 0],
      [0, 0, 0x76, 0xDC, 0, 0, 0, 0, 0, 0, 0, 0, 0, 0, 0, 0],
      [0, 0, 0, 0, 0x10, 0x38, 0x6C, 0xC6, 0xC6, 0xC6, 0xFE, 0, 0, 0, 0, 0]]"

definition font_80 :: "u8 list list" where
  "font_80 =
     [[0, 0, 0x3C, 0x66, 0xC2, 0xC0, 0xC0, 0xC0, 0xC2, 0x66, 0x3C, 0x0C, 6, 0x7C, 0, 0],
      [0, 0, 0xCC, 0, 0, 0xCC, 0xCC, 0xCC, 0xCC, 0xCC, 0xCC, 0x76, 0, 0, 0, 0],
      [0, 0x0C, 0x18, 0x30, 0, 0x7C, 0xC6, 0xFE, 0xC0, 0xC0, 0xC6, 0x7C, 0, 0, 0, 0],
      [0, 0x10, 0x38, 0x6C, 0, 0x78, 0x0C, 0x7C, 0xCC, 0xCC, 0xCC, 0x76, 0, 0, 0, 0],
      [0, 0, 0xCC, 0, 0, 0x78, 0x0C, 0x7C, 0xCC, 0xCC, 0xCC, 0x76, 0, 0, 0, 0],
      [0, 0x60, 0x30, 0x18, 0, 0x78, 0x0C, 0x7C, 0xCC, 0xCC, 0xCC, 0x76, 0, 0, 0, 0],
      [0, 0x38, 0x6C, 0x38, 0, 0x78, 0x0C, 0x7C, 0xCC, 0xCC, 0xCC, 0x76, 0, 0, 0, 0],
      [0, 0, 0, 0, 0x3C, 0x66, 0x60, 0x60, 0x66, 0x3C, 0x0C, 6, 0x3C, 0, 0, 0],
      [0, 0x10, 0x38, 0x6C, 0, 0x7C, 0xC6, 0xFE, 0xC0, 0xC0, 0xC6, 0x7C, 0, 0, 0, 0],
      [0, 0, 0xC6, 0, 0, 0x7C, 0xC6, 0xFE, 0xC0, 0xC0, 0xC6, 0x7C, 0, 0, 0, 0],
      [0, 0x60, 0x30, 0x18, 0, 0x7C, 0xC6, 0xFE, 0xC0, 0xC0, 0xC6, 0x7C, 0, 0, 0, 0],
      [0, 0, 0x66, 0, 0, 0x38, 0x18, 0x18, 0x18, 0x18, 0x18, 0x3C, 0, 0, 0, 0],
      [0, 0x18, 0x3C, 0x66, 0, 0x38, 0x18, 0x18, 0x18, 0x18, 0x18, 0x3C, 0, 0, 0, 0],
      [0, 0x60, 0x30, 0x18, 0, 0x38, 0x18, 0x18, 0x18, 0x18, 0x18, 0x3C, 0, 0, 0, 0],
      [0, 0xC6, 0, 0x10, 0x38, 0x6C, 0xC6, 0xC6, 0xFE, 0xC6, 0xC6, 0xC6, 0, 0, 0, 0],
      [0x38, 0x6C, 0x38, 0, 0x38, 0x6C, 0xC6, 0xC6, 0xFE, 0xC6, 0xC6, 0xC6, 0, 0, 0, 0]]"

definition font_90 :: "u8 list list" where
  "font_90 =
     [[0x18, 0x30, 0x60, 0, 0xFE, 0x66, 0x60, 0x7C, 0x60, 0x60, 0x66, 0xFE, 0, 0, 0, 0],
      [0, 0, 0, 0, 0, 0x6E, 0x3B, 0x1B, 0x7E, 0xD8, 0xDC, 0x77, 0, 0, 0, 0],
      [0, 0, 0x3E, 0x6C, 0xCC, 0xCC, 0xFE, 0xCC, 0xCC, 0xCC, 0xCC, 0xCE, 0, 0, 0, 0],
      [0, 0x10, 0x38, 0x6C, 0, 0x7C, 0xC6, 0xC6, 0xC6, 0xC6, 0xC6, 0x7C, 0, 0, 0, 0],
      [0, 0, 0xC6, 0, 0, 0x7C, 0xC6, 0xC6, 0xC6, 0xC6, 0xC6, 0x7C, 0, 0, 0, 0],
      [0, 0x60, 0x30, 0x18, 0, 0x7C, 0xC6, 0xC6, 0xC6, 0xC6, 0xC6, 0x7C, 0, 0, 0, 0],
      [0, 0x30, 0x78, 0xCC, 0, 0xCC, 0xCC, 0xCC, 0xCC, 0xCC, 0xCC, 0x76, 0, 0, 0, 0],
      [0, 0x60, 0x30, 0x18, 0, 0xCC, 0xCC, 0xCC, 0xCC, 0xCC, 0xCC, 0x76, 0, 0, 0, 0],
      [0, 0, 0xC6, 0, 0, 0xC6, 0xC6, 0xC6, 0xC6, 0xC6, 0xC6, 0x7E, 6, 0x0C, 0x78, 0],
      [0, 0xC6, 0, 0x7C, 0xC6, 0xC6, 0xC6, 0xC6, 0xC6, 0xC6, 0xC6, 0x7C, 0, 0, 0, 0],
      [0, 0xC6, 0, 0xC6, 0xC6, 0xC6, 0xC6, 0xC6, 0xC6, 0xC6, 0xC6, 0x7C, 0, 0, 0, 0],
      [0, 0x18, 0x18, 0x7E, 0xC3, 0xC0, 0xC0, 0xC0, 0xC3, 0x7E, 0x18, 0x18, 0, 0, 0, 0],
      [0, 0x38, 0x6C, 0x64, 0x60, 0xF0, 0x60, 0x60, 0x60, 0x60, 0xE6, 0xFC, 0, 0, 0, 0],
      [0, 0, 0xC3, 0x66, 0x3C, 0x18, 0xFF, 0x18, 0xFF, 0x18, 0x18, 0x18, 0, 0, 0, 0],
      [0, 0xFC, 0x66, 0x66, 0x7C, 0x62, 0x66, 0x6F, 0x66, 0x66, 0x66, 0xF3, 0, 0, 0, 0],
      [0, 0x0E, 0x1B, 0x18, 0x18, 0x18, 0x7E, 0x18, 0x18, 0x18, 0x18, 0x18, 0xD8, 0x70, 0, 0]]"

definition font_a0 :: "u8 list list" where
  "font_a0 =
     [[0, 0x18, 0x30, 0x60, 0, 0x78, 0x0C, 0x7C, 0xCC, 0xCC, 0xCC, 0x76, 0, 0, 0, 0],
      [0, 0x0C, 0x18, 0x30, 0, 0x38, 0x18, 0x18, 0x18, 0x18, 0x18, 0x3C, 0, 0, 0, 0],
      [0, 0x18, 0x30, 0x60, 0, 0x7C, 0xC6, 0xC6, 0xC6, 0xC6, 0xC6, 0x7C, 0, 0, 0, 0],
      [0, 0x18, 0x30, 0x60, 0, 0xCC, 0xCC, 0xCC, 0xCC, 0xCC, 0xCC, 0x76, 0, 0, 0, 0],
      [0, 0, 0x76, 0xDC, 0, 0xDC, 0x66, 0x66, 0x66, 0x66, 0x66, 0x66, 0, 0, 0, 0],
      [0x76, 0xDC, 0, 0xC6, 0xE6, 0xF6, 0xFE, 0xDE, 0xCE, 0xC6, 0xC6, 0xC6, 0, 0, 0, 0],
      [0, 0x3C, 0x6C, 0x6C, 0x3E, 0, 0x7E, 0, 0, 0, 0, 0, 0, 0, 0, 0],
      [0, 0x38, 0x6C, 0x6C, 0x38, 0, 0x7C, 0, 0, 0, 0, 0, 0, 0, 0, 0],
      [0, 0, 0x30, 0x30, 0, 0x30, 0x30, 0x60, 0xC0, 0xC6, 0xC6, 0x7C, 0, 0, 0, 0],
      [0, 0, 0, 0, 0, 0, 0xFE, 0xC0, 0xC0, 0xC0, 0xC0, 0, 0, 0, 0, 0],
      [0, 0, 0, 0, 0, 0, 0xFE, 6, 6, 6, 6, 0, 0, 0, 0, 0],
      [0, 0xC0, 0xC0, 0xC2, 0xC6, 0xCC, 0x18, 0x30, 0x60, 0xCE, 0x9B, 6, 0x0C, 0x1F, 0, 0],
      [0, 0xC0, 0xC0, 0xC2, 0xC6, 0xCC, 0x18, 0x30, 0x66, 0xCE, 0x96, 0x3E, 6, 6, 0, 0],
      [0, 0, 0x18, 0x18, 0, 0x18, 0x18, 0x18, 0x3C, 0x3C, 0x3C, 0x18, 0, 0, 0, 0],
      [0, 0, 0, 0, 0, 0x36, 0x6C, 0xD8, 0x6C, 0x36, 0, 0, 0, 0, 0, 0],
      [0, 0, 0, 0, 0, 0xD8, 0x6C, 0x36, 0x6C, 0xD8, 0, 0, 0, 0, 0, 0]]"

definition font_b0 :: "u8 list list" where
  "font_b0 =
     [[0x11, 0x44, 0x11, 0x44, 0x11, 0x44, 0x11, 0x44, 0x11, 0x44, 0x11, 0x44, 0x11, 0x44, 0x11, 0x44],
      [0x55, 0xAA, 0x55, 0xAA, 0x55, 0xAA, 0x55, 0xAA, 0x55, 0xAA, 0x55, 0xAA, 0x55, 0xAA, 0x55, 0xAA],
      [0xDD, 0x77, 0xDD, 0x77, 0xDD, 0x77, 0xDD, 0x77, 0xDD, 0x77, 0xDD, 0x77, 0xDD, 0x77, 0xDD, 0x77],
      [0x18, 0x18, 0x18, 0x18, 0x18, 0x18, 0x18, 0x18, 0x18, 0x18, 0x18, 0x18, 0x18, 0x18, 0x18, 0x18],
      [0x18, 0x18, 0x18, 0x18, 0x18, 0x18, 0x18, 0xF8, 0x18, 0x18, 0x18, 0x18, 0x18, 0x18, 0x18, 0x18],
      [0x18, 0x18, 0x18, 0x18, 0x18, 0xF8, 0x18, 0xF8, 0x18, 0x18, 0x18, 0x18, 0x18, 0x18, 0x18, 0x18],
      [0x36, 0x36, 0x36, 0x36, 0x36, 0x36, 0x36, 0xF6, 0x36, 0x36, 0x36, 0x36, 0x36, 0x36, 0x36, 0x36],
      [0, 0, 0, 0, 0, 0, 0, 0xFE, 0x36, 0x36, 0x36, 0x36, 0x36, 0x36, 0x36, 0x36],
      [0, 0, 0, 0, 0, 0xF8, 0x18, 0xF8, 0x18, 0x18, 0x18, 0x18, 0x18, 0x18, 0x18, 0x18],
      [0x36, 0x36, 0x36, 0x36, 0x36, 0xF6, 6, 0xF6, 0x36, 0x36, 0x36, 0x36, 0x36, 0x36, 0x36, 0x36],
      [0x36, 0x36, 0x36, 0x36, 0x36, 0x36, 0x36, 0x36, 0x36, 0x36, 0x36, 0x36, 0x36, 0x36, 0x36, 0x36],
      [0, 0, 0, 0, 0, 0xFE, 6, 0xF6, 0x36, 0x36, 0x36, 0x36, 0x36, 0x36, 0x36, 0x36],
      [0x36, 0x36, 0x36, 0x36, 0x36, 0xF6, 6, 0xFE, 0, 0, 0, 0, 0, 0, 0, 0],
      [0x36, 0x36, 0x36, 0x36, 0x36, 0x36, 0x36, 0xFE, 0, 0, 0, 0, 0, 0, 0, 0],
      [0x18, 0x18, 0x18, 0x18, 0x18, 0xF8, 0x18, 0xF8, 0, 0, 0, 0, 0, 0, 0, 0],
      [0, 0, 0, 0, 0, 0, 0, 0xF8, 0x18, 0x18, 0x18, 0x18, 0x18, 0x18, 0x18, 0x18]]"

definition font_c0 :: "u8 list list" where
  "font_c0 =
     [[0x18, 0x18, 0x18, 0x18, 0x18, 0x18, 0x18, 0x1F, 0, 0, 0, 0, 0, 0, 0, 0],
      [0x18, 0x18, 0x18, 0x18, 0x18, 0x18, 0x18, 0xFF, 0, 0, 0, 0, 0, 0, 0, 0],
      [0, 0, 0, 0, 0, 0, 0, 0xFF, 0x18, 0x18, 0x18, 0x18, 0x18, 0x18, 0x18, 0x18],
      [0x18, 0x18, 0x18, 0x18, 0x18, 0x18, 0x18, 0x1F, 0x18, 0x18, 0x18, 0x18, 0x18, 0x18, 0x18, 0x18],
      [0, 0, 0, 0, 0, 0, 0, 0xFF, 0, 0, 0, 0, 0, 0, 0, 0],
      [0x18, 0x18, 0x18, 0x18, 0x18, 0x18, 0x18, 0xFF, 0x18, 0x18, 0x18, 0x18, 0x18, 0x18, 0x18, 0x18],
      [0x18, 0x18, 0x18, 0x18, 0x18, 0x1F, 0x18, 0x1F, 0x18, 0x18, 0x18, 0x18, 0x18, 0x18, 0x18, 0x18],
      [0x36, 0x36, 0x36, 0x36, 0x36, 0x36, 0x36, 0x37, 0x36, 0x36, 0x36, 0x36, 0x36, 0x36, 0x36, 0x36],
      [0x36, 0x36, 0x36, 0x36, 0x36, 0x37, 0x30, 0x3F, 0, 0, 0, 0, 0, 0, 0, 0],
      [0, 0, 0, 0, 0, 0x3F, 0x30, 0x37, 0x36, 0x36, 0x36, 0x36, 0x36, 0x36, 0x36, 0x36],
      [0x36, 0x36, 0x36, 0x36, 0x36, 0xF7, 0, 0xFF, 0, 0, 0, 0, 0, 0, 0, 0],
      [0, 0, 0, 0, 0, 0xFF, 0, 0xF7, 0x36, 0x36, 0x36, 0x36, 0x36, 0x36, 0x36, 0x36],
      [0x36, 0x36, 0x36, 0x36, 0x36, 0x37, 0x30, 0x37, 0x36, 0x36, 0x36, 0x36, 0x36, 0x36, 0x36, 0x36],
      [0, 0, 0, 0, 0, 0xFF, 0, 0xFF, 0, 0, 0, 0, 0, 0, 0, 0],
      [0x36, 0x36, 0x36, 0x36, 0x36, 0xF7, 0, 0xF7, 0x36, 0x36, 0x36, 0x36, 0x36, 0x36, 0x36, 0x36],
      [0x18, 0x18, 0x18, 0x18, 0x18, 0xFF, 0, 0xFF, 0, 0, 0, 0, 0, 0, 0, 0]]"

definition font_d0 :: "u8 list list" where
  "font_d0 =
     [[0x36, 0x36, 0x36, 0x36, 0x36, 0x36, 0x36, 0xFF, 0, 0, 0, 0, 0, 0, 0, 0],
      [0, 0, 0, 0, 0, 0xFF, 0, 0xFF, 0x18, 0x18, 0x18, 0x18, 0x18, 0x18, 0x18, 0x18],
      [0, 0, 0, 0, 0, 0, 0, 0xFF, 0x36, 0x36, 0x36, 0x36, 0x36, 0x36, 0x36, 0x36],
      [0x36, 0x36, 0x36, 0x36, 0x36, 0x36, 0x36, 0x3F, 0, 0, 0, 0, 0, 0, 0, 0],
      [0x18, 0x18, 0x18, 0x18, 0x18, 0x1F, 0x18, 0x1F, 0, 0, 0, 0, 0, 0, 0, 0],
      [0, 0, 0, 0, 0, 0x1F, 0x18, 0x1F, 0x18, 0x18, 0x18, 0x18, 0x18, 0x18, 0x18, 0x18],
      [0, 0, 0, 0, 0, 0, 0, 0x3F, 0x36, 0x36, 0x36, 0x36, 0x36, 0x36, 0x36, 0x36],
      [0x36, 0x36, 0x36, 0x36, 0x36, 0x36, 0x36, 0xFF, 0x36, 0x36, 0x36, 0x36, 0x36, 0x36, 0x36, 0x36],
      [0x18, 0x18, 0x18, 0x18, 0x18, 0xFF, 0x18, 0xFF, 0x18, 0x18, 0x18, 0x18, 0x18, 0x18, 0x18, 0x18],
      [0x18, 0x18, 0x18, 0x18, 0x18, 0x18, 0x18, 0xF8, 0, 0, 0, 0, 0, 0, 0, 0],
      [0, 0, 0, 0, 0, 0, 0, 0x1F, 0x18, 0x18, 0x18, 0x18, 0x18, 0x18, 0x18, 0x18],
      [0xFF, 0xFF, 0xFF, 0xFF, 0xFF, 0xFF, 0xFF, 0xFF, 0xFF, 0xFF, 0xFF, 0xFF, 0xFF, 0xFF, 0xFF, 0xFF],
      [0, 0, 0, 0, 0, 0, 0, 0xFF, 0xFF, 0xFF, 0xFF, 0xFF, 0xFF, 0xFF, 0xFF, 0xFF],
      [0xF0, 0xF0, 0xF0, 0xF0, 0xF0, 0xF0, 0xF0, 0xF0, 0xF0, 0xF0, 0xF0, 0xF0, 0xF0, 0xF0, 0xF0, 0xF0],
      [0x0F, 0x0F, 0x0F, 0x0F, 0x0F, 0x0F, 0x0F, 0x0F, 0x0F, 0x0F, 0x0F, 0x0F, 0x0F, 0x0F, 0x0F, 0x0F],
      [0xFF, 0xFF, 0xFF, 0xFF, 0xFF, 0xFF, 0xFF, 0, 0, 0, 0, 0, 0, 0, 0, 0]]"

definition font_e0 :: "u8 list list" where
  "font_e0 =
     [[0, 0, 0, 0, 0, 0x76, 0xDC, 0xD8, 0xD8, 0xD8, 0xDC, 0x76, 0, 0, 0, 0],
      [0, 0, 0x78, 0xCC, 0xCC, 0xCC, 0xD8, 0xCC, 0xC6, 0xC6, 0xC6, 0xCC, 0, 0, 0, 0],
      [0, 0, 0xFE, 0xC6, 0xC6, 0xC0, 0xC0, 0xC0, 0xC0, 0xC0, 0xC0, 0xC0, 0, 0, 0, 0],
      [0, 0, 0, 0, 0xFE, 0x6C, 0x6C, 0x6C, 0x6C, 0x6C, 0x6C, 0x6C, 0, 0, 0, 0],
      [0, 0, 0, 0xFE, 0xC6, 0x60, 0x30, 0x18, 0x30, 0x60, 0xC6, 0xFE, 0, 0, 0, 0],
      [0, 0, 0, 0, 0, 0x7E, 0xD8, 0xD8, 0xD8, 0xD8, 0xD8, 0x70, 0, 0, 0, 0],
      [0, 0, 0, 0, 0x66, 0x66, 0x66, 0x66, 0x66, 0x7C, 0x60, 0x60, 0xC0, 0, 0, 0],
      [0, 0, 0, 0, 0x76, 0xDC, 0x18, 0x18, 0x18, 0x18, 0x18, 0x18, 0, 0, 0, 0],
      [0, 0, 0, 0x7E, 0x18, 0x3C, 0x66, 0x66, 0x66, 0x3C, 0x18, 0x7E, 0, 0, 0, 0],
      [0, 0, 0, 0x38, 0x6C, 0xC6, 0xC6, 0xFE, 0xC6, 0xC6, 0x6C, 0x38, 0, 0, 0, 0],
      [0, 0, 0x38, 0x6C, 0xC6, 0xC6, 0xC6, 0x6C, 0x6C, 0x6C, 0x6C, 0xEE, 0, 0, 0, 0],
      [0, 0, 0x1E, 0x30, 0x18, 0x0C, 0x3E, 0x66, 0x66, 0x66, 0x66, 0x3C, 0, 0, 0, 0],
      [0, 0, 0, 0, 0, 0x7E, 0xDB, 0xDB, 0xDB, 0x7E, 0, 0, 0, 0, 0, 0],
      [0, 0, 0, 3, 6, 0x7E, 0xDB, 0xDB, 0xF3, 0x7E, 0x60, 0xC0, 0, 0, 0, 0],
      [0, 0, 0x1C, 0x30, 0x60, 0x60, 0x7C, 0x60, 0x60, 0x60, 0x30, 0x1C, 0, 0, 0, 0],
      [0, 0, 0, 0x7C, 0xC6, 0xC6, 0xC6, 0xC6, 0xC6, 0xC6, 0xC6, 0xC6, 0, 0, 0, 0]]"

definition font_f0 :: "u8 list list" where
  "font_f0 =
     [[0, 0, 0, 0, 0xFE, 0, 0, 0xFE, 0, 0, 0xFE, 0, 0, 0, 0, 0],
      [0, 0, 0, 0, 0x18, 0x18, 0x7E, 0x18, 0x18, 0, 0, 0xFF, 0, 0, 0, 0],
      [0, 0, 0, 0x30, 0x18, 0x0C, 6, 0x0C, 0x18, 0x30, 0, 0x7E, 0, 0, 0, 0],
      [0, 0, 0, 0x0C, 0x18, 0x30, 0x60, 0x30, 0x18, 0x0C, 0, 0x7E, 0, 0, 0, 0],
      [0, 0, 0x0E, 0x1B, 0x1B, 0x18, 0x18, 0x18, 0x18, 0x18, 0x18, 0x18, 0x18, 0x18, 0x18, 0x18],
      [0x18, 0x18, 0x18, 0x18, 0x18, 0x18, 0x18, 0x18, 0xD8, 0xD8, 0xD8, 0x70, 0, 0, 0, 0],
      [0, 0, 0, 0, 0x18, 0x18, 0, 0x7E, 0, 0x18, 0x18, 0, 0, 0, 0, 0],
      [0, 0, 0, 0, 0, 0x76, 0xDC, 0, 0x76, 0xDC, 0, 0, 0, 0, 0, 0],
      [0, 0x38, 0x6C, 0x6C, 0x38, 0, 0, 0, 0, 0, 0, 0, 0, 0, 0, 0],
      [0, 0, 0, 0, 0, 0, 0, 0x18, 0x18, 0, 0, 0, 0, 0, 0, 0],
      [0, 0, 0, 0, 0, 0, 0, 0, 0x18, 0, 0, 0, 0, 0, 0, 0],
      [0, 0x0F, 0x0C, 0x0C, 0x0C, 0x0C, 0x0C, 0xEC, 0x6C, 0x6C, 0x3C, 0x1C, 0, 0, 0, 0],
      [0, 0xD8, 0x6C, 0x6C, 0x6C, 0x6C, 0x6C, 0, 0, 0, 0, 0, 0, 0, 0, 0],
      [0, 0x70, 0xD8, 0x30, 0x60, 0xC8, 0xF8, 0, 0, 0, 0, 0, 0, 0, 0, 0],
      [0, 0, 0, 0, 0x7C, 0x7C, 0x7C, 0x7C, 0x7C, 0x7C, 0x7C, 0, 0, 0, 0, 0],
      [0, 0, 0, 0, 0, 0, 0, 0, 0, 0, 0, 0, 0, 0, 0, 0]]"

definition font :: "u8 list list" where
  "font = font_00 @ font_10 @ font_20 @ font_30 @ font_40 @ font_50 @ font_60 @ font_70 @ font_80 @ font_90 @ font_a0 @ font_b0 @ font_c0 @ font_d0 @ font_e0 @ font_f0"

definition gfx_glyph :: "u8 \<Rightarrow> u8 list" where
  "gfx_glyph ch = font ! unat ch"

lemmas font_defs =
  font_00_def font_10_def font_20_def font_30_def font_40_def font_50_def font_60_def font_70_def
  font_80_def font_90_def font_a0_def font_b0_def font_c0_def font_d0_def font_e0_def font_f0_def

lemma font_block_lengths:
  "length font_00 = 16"
  "length font_10 = 16"
  "length font_20 = 16"
  "length font_30 = 16"
  "length font_40 = 16"
  "length font_50 = 16"
  "length font_60 = 16"
  "length font_70 = 16"
  "length font_80 = 16"
  "length font_90 = 16"
  "length font_a0 = 16"
  "length font_b0 = 16"
  "length font_c0 = 16"
  "length font_d0 = 16"
  "length font_e0 = 16"
  "length font_f0 = 16"
  by (simp_all add: font_defs)

lemma length_font: "length font = 256"
  by (simp add: font_def font_block_lengths)

text \<open>Every glyph has its sixteen rows.\<close>

lemma font_rows: "\<forall>g \<in> set font. length g = 16"
proof -
  have
    "\<forall>g \<in> set font_00. length g = 16"
    "\<forall>g \<in> set font_10. length g = 16"
    "\<forall>g \<in> set font_20. length g = 16"
    "\<forall>g \<in> set font_30. length g = 16"
    "\<forall>g \<in> set font_40. length g = 16"
    "\<forall>g \<in> set font_50. length g = 16"
    "\<forall>g \<in> set font_60. length g = 16"
    "\<forall>g \<in> set font_70. length g = 16"
    "\<forall>g \<in> set font_80. length g = 16"
    "\<forall>g \<in> set font_90. length g = 16"
    "\<forall>g \<in> set font_a0. length g = 16"
    "\<forall>g \<in> set font_b0. length g = 16"
    "\<forall>g \<in> set font_c0. length g = 16"
    "\<forall>g \<in> set font_d0. length g = 16"
    "\<forall>g \<in> set font_e0. length g = 16"
    "\<forall>g \<in> set font_f0. length g = 16"
    by (simp_all add: font_defs)
  then show ?thesis unfolding font_def by auto
qed

lemma gfx_glyph_rows: "length (gfx_glyph ch) = 16"
proof -
  have "unat ch < length font" using unsigned_less [of ch] by (simp add: length_font)
  then show ?thesis unfolding gfx_glyph_def using font_rows nth_mem by blast
qed

text \<open>The blank of the console erases: its glyph has no pixel set.\<close>

lemma glyph_space: "gfx_glyph 0x20 = replicate 16 0"
proof -
  have "gfx_glyph 0x20 = font_20 ! 0"
    unfolding gfx_glyph_def font_def by (simp add: nth_append font_block_lengths)
  also have "\<dots> = replicate 16 0" unfolding font_20_def by (simp add: numeral_eq_Suc)
  finally show ?thesis .
qed

end
