(* ===== verification/Lfb.thy ===== *)
theory Lfb
  imports Gfx Port_Io "HOL-Library.Signed_Division"
begin

text \<open>
  Drawing into the linear framebuffer (\<open>kernel/drivers/lfb.c\<close>). The framebuffer is a function
  from the pixel index relative to \<open>fbp\<close>; C's \<open>int\<close> is \<open>int\<close>, with coordinates far below the
  width in all uses. The lemmas show that clipped drawing changes exactly the visible part of
  its rectangle, that nothing else of the framebuffer memory is ever touched, that lines end at
  their end point, and what scrolling and saving a rectangle do.
\<close>

section \<open>The framebuffer and its primitives (lfb.c)\<close>

record lfb =
  fb_pix :: "int \<Rightarrow> u32"
  fbp :: u32
  fbW :: int
  fbH :: int
  pitch_px :: int
  fb_active :: bool

text \<open>\<open>for (int i = 0; i < n; i++)\<close>.\<close>

definition for_int :: "int \<Rightarrow> (int \<Rightarrow> 's \<Rightarrow> 's) \<Rightarrow> 's \<Rightarrow> 's" where
  "for_int n f s = fold (\<lambda>i. f (int i)) [0..<nat n] s"

definition put_pix :: "int \<Rightarrow> u32 \<Rightarrow> lfb \<Rightarrow> lfb" where
  "put_pix k rgb s = s\<lparr>fb_pix := (fb_pix s)(k := rgb)\<rparr>"

text \<open>\<open>(unsigned)a < (unsigned)b\<close>: a negative \<open>int\<close> becomes its value plus \<open>2 ^ 32\<close>.\<close>

definition unsigned_int :: "int \<Rightarrow> int" where
  "unsigned_int a = (if a < 0 then a + 4294967296 else a)"

definition uless :: "int \<Rightarrow> int \<Rightarrow> bool" where
  "uless a b \<longleftrightarrow> unsigned_int a < unsigned_int b"

definition lfb_pixel :: "int \<Rightarrow> int \<Rightarrow> u32 \<Rightarrow> lfb \<Rightarrow> lfb" where
  "lfb_pixel x y rgb s = (if uless x (fbW s) \<and> uless y (fbH s) then put_pix (y * pitch_px s + x) rgb s else s)"

definition lfb_clear :: "u32 \<Rightarrow> lfb \<Rightarrow> lfb" where
  "lfb_clear rgb s = for_int (fbW s * fbH s) (\<lambda>i. put_pix i rgb) s"

definition lfb_fill :: "int \<Rightarrow> int \<Rightarrow> int \<Rightarrow> int \<Rightarrow> u32 \<Rightarrow> lfb \<Rightarrow> lfb" where
  "lfb_fill x y w h rgb s =
     (let (w, x) = (if x < 0 then (w + x, 0) else (w, x));
          (h, y) = (if y < 0 then (h + y, 0) else (h, y));
          w = (if x + w > fbW s then fbW s - x else w);
          h = (if y + h > fbH s then fbH s - y else h)
      in for_int h (\<lambda>j s. let row = (y + j) * pitch_px s + x in for_int w (\<lambda>i. put_pix (row + i) rgb) s) s)"

definition lerp :: "u32 \<Rightarrow> u32 \<Rightarrow> int \<Rightarrow> int \<Rightarrow> u32" where
  "lerp a b num den =
     (let ar = uint (drop_bit 16 a AND 0xFF); ag = uint (drop_bit 8 a AND 0xFF); ab = uint (a AND 0xFF);
          br = uint (drop_bit 16 b AND 0xFF); bg = uint (drop_bit 8 b AND 0xFF); bb = uint (b AND 0xFF);
          r = ar + (br - ar) * num sdiv den; g = ag + (bg - ag) * num sdiv den; bl = ab + (bb - ab) * num sdiv den
      in push_bit 16 (word_of_int r) OR push_bit 8 (word_of_int g) OR word_of_int bl)"

definition lfb_gradient_v :: "int \<Rightarrow> int \<Rightarrow> int \<Rightarrow> int \<Rightarrow> u32 \<Rightarrow> u32 \<Rightarrow> lfb \<Rightarrow> lfb" where
  "lfb_gradient_v x y w h top_rgb bot_rgb s =
     for_int h (\<lambda>j. lfb_fill x (y + j) w 1 (lerp top_rgb bot_rgb j (if h > 1 then h - 1 else 1))) s"

definition lfb_rect :: "int \<Rightarrow> int \<Rightarrow> int \<Rightarrow> int \<Rightarrow> u32 \<Rightarrow> lfb \<Rightarrow> lfb" where
  "lfb_rect x y w h rgb s =
     (let s = lfb_fill x y w 1 rgb s;
          s = lfb_fill x (y + h - 1) w 1 rgb s;
          s = lfb_fill x y 1 h rgb s
      in lfb_fill (x + w - 1) y 1 h rgb s)"

function isqrt_loop :: "int \<Rightarrow> int \<Rightarrow> int" where
  "isqrt_loop n x = (if (x + 1) * (x + 1) \<le> n then isqrt_loop n (x + 1) else x)"
  by pat_completeness auto

lemma square_ge: "(x :: int) \<le> x * x"
proof (cases "x \<le> 0")
  case True
  then show ?thesis using zero_le_square [of x] by linarith
next
  case False
  then show ?thesis using mult_left_mono [of 1 x x] by simp
qed

termination isqrt_loop
proof (relation "measure (\<lambda>(n, x). nat (n - x))")
  fix n x :: int
  assume "(x + 1) * (x + 1) \<le> n"
  then have "x + 1 \<le> n" using square_ge [of "x + 1"] by linarith
  then show "((n, x + 1), n, x) \<in> measure (\<lambda>(n, x). nat (n - x))" by simp
qed simp

declare isqrt_loop.simps [simp del]

definition isqrt :: "int \<Rightarrow> int" where
  "isqrt n = isqrt_loop n 0"

definition corner_inset :: "int \<Rightarrow> int \<Rightarrow> int \<Rightarrow> int" where
  "corner_inset j h r =
     (let dy = (if j < r then r - j else if j \<ge> h - r then r - (h - 1 - j) else -1)
      in if dy < 0 then 0 else r - isqrt (r * r - dy * dy))"

definition lfb_round_fill :: "int \<Rightarrow> int \<Rightarrow> int \<Rightarrow> int \<Rightarrow> int \<Rightarrow> u32 \<Rightarrow> lfb \<Rightarrow> lfb" where
  "lfb_round_fill x y w h r rgb s =
     (let r = (if r * 2 > h then h sdiv 2 else r);
          r = (if r * 2 > w then w sdiv 2 else r)
      in for_int h (\<lambda>j. let ins = corner_inset j h r in lfb_fill (x + ins) (y + j) (w - 2 * ins) 1 rgb) s)"

definition lfb_disc :: "int \<Rightarrow> int \<Rightarrow> int \<Rightarrow> u32 \<Rightarrow> lfb \<Rightarrow> lfb" where
  "lfb_disc cx cy r rgb s =
     fold (\<lambda>dy. let half = isqrt (r * r - dy * dy) in lfb_fill (cx - half) (cy + dy) (2 * half + 1) 1 rgb) [- r..r] s"

partial_function (option) line_loop ::
  "int \<Rightarrow> int \<Rightarrow> int \<Rightarrow> int \<Rightarrow> int \<Rightarrow> int \<Rightarrow> u32 \<Rightarrow> int \<Rightarrow> int \<Rightarrow> int \<Rightarrow> lfb \<Rightarrow> lfb option" where
  "line_loop x1 y1 adx ady sx sy rgb x0 y0 err s =
     (let s = lfb_pixel x0 y0 rgb s
      in if x0 = x1 \<and> y0 = y1 then Some s
         else let e2 = err;
                  (err, x0) = (if e2 > - adx then (err - ady, x0 + sx) else (err, x0));
                  (err, y0) = (if e2 < ady then (err + adx, y0 + sy) else (err, y0))
              in line_loop x1 y1 adx ady sx sy rgb x0 y0 err s)"

declare line_loop.simps [code]

definition lfb_line :: "int \<Rightarrow> int \<Rightarrow> int \<Rightarrow> int \<Rightarrow> u32 \<Rightarrow> lfb \<Rightarrow> lfb option" where
  "lfb_line x0 y0 x1 y1 rgb s =
     (let dx = x1 - x0; dy = y1 - y0;
          adx = (if dx < 0 then - dx else dx); ady = (if dy < 0 then - dy else dy);
          sx = (if dx < 0 then -1 else 1); sy = (if dy < 0 then -1 else 1);
          err = (if adx > ady then adx else - ady) sdiv 2
      in line_loop x1 y1 adx ady sx sy rgb x0 y0 err s)"

text \<open>A negative \<open>bg\<close> leaves the background pixels alone.\<close>

definition lfb_char :: "int \<Rightarrow> int \<Rightarrow> char \<Rightarrow> u32 \<Rightarrow> int \<Rightarrow> int \<Rightarrow> lfb \<Rightarrow> lfb" where
  "lfb_char x y ch fg bg sc s =
     (let g = gfx_glyph (of_char ch)
      in for_int 16 (\<lambda>r. let bits = g ! nat r in
           for_int 8 (\<lambda>c s.
             if bits AND drop_bit (nat c) 0x80 \<noteq> 0 then lfb_fill (x + c * sc) (y + r * sc) sc sc fg s
             else if bg \<ge> 0 then lfb_fill (x + c * sc) (y + r * sc) sc sc (word_of_int bg) s
             else s)) s)"

fun text_loop :: "int \<Rightarrow> int \<Rightarrow> char list \<Rightarrow> u32 \<Rightarrow> int \<Rightarrow> int \<Rightarrow> lfb \<Rightarrow> lfb" where
  "text_loop x y [] fg bg sc s = s"
| "text_loop x y (c # str) fg bg sc s = text_loop (x + 8 * sc) y str fg bg sc (lfb_char x y c fg bg sc s)"

definition lfb_text :: "int \<Rightarrow> int \<Rightarrow> char list \<Rightarrow> u32 \<Rightarrow> int \<Rightarrow> int \<Rightarrow> lfb \<Rightarrow> lfb" where
  "lfb_text x y str fg bg sc s = text_loop x y (cstr str) fg bg sc s"

definition lfb_scroll_up :: "int \<Rightarrow> int \<Rightarrow> int \<Rightarrow> int \<Rightarrow> int \<Rightarrow> u32 \<Rightarrow> lfb \<Rightarrow> lfb" where
  "lfb_scroll_up x y w h dy rgb s =
     (let s = for_int (h - dy) (\<lambda>j s.
            let d = (y + j) * pitch_px s + x; sr = (y + j + dy) * pitch_px s + x
            in for_int w (\<lambda>i s. put_pix (d + i) (fb_pix s (sr + i)) s) s) s
      in lfb_fill x (y + h - dy) w dy rgb s)"

definition lfb_blit_get :: "int \<Rightarrow> int \<Rightarrow> int \<Rightarrow> int \<Rightarrow> lfb \<Rightarrow> u32 list \<Rightarrow> u32 list" where
  "lfb_blit_get x y w h s buf =
     for_int h (\<lambda>j. for_int w (\<lambda>i buf.
       let xx = x + i; yy = y + j
       in buf[nat (j * w + i) := (if uless xx (fbW s) \<and> uless yy (fbH s) then fb_pix s (yy * pitch_px s + xx) else 0)])) buf"

definition lfb_blit_put :: "int \<Rightarrow> int \<Rightarrow> int \<Rightarrow> int \<Rightarrow> u32 list \<Rightarrow> lfb \<Rightarrow> lfb" where
  "lfb_blit_put x y w h buf s =
     for_int h (\<lambda>j. for_int w (\<lambda>i s.
       let xx = x + i; yy = y + j
       in if uless xx (fbW s) \<and> uless yy (fbH s) then put_pix (yy * pitch_px s + xx) (buf ! nat (j * w + i)) s else s)) s"

section \<open>Counted loops\<close>

lemma for_int_le_0 [simp]: "n \<le> 0 \<Longrightarrow> for_int n f s = s"
  by (simp add: for_int_def)

lemma for_int_Suc: "0 \<le> n \<Longrightarrow> for_int (n + 1) f s = f n (for_int n f s)"
  by (simp add: for_int_def nat_add_distrib)

lemma for_int_induct [consumes 0, case_names start step]:
  assumes "P 0 s" "\<And>i t. 0 \<le> i \<Longrightarrow> i < n \<Longrightarrow> P i t \<Longrightarrow> P (i + 1) (f i t)" "0 \<le> n"
  shows "P n (for_int n f s)"
proof -
  have "k \<le> nat n \<Longrightarrow> P (int k) (for_int (int k) f s)" for k
  proof (induction k)
    case (Suc k)
    then show ?case using assms(2) [of "int k"] for_int_Suc [of "int k" f s] by (simp add: add.commute)
  qed (simp add: assms(1))
  from this [of "nat n"] show ?thesis using assms(3) by simp
qed

section \<open>Visible pixels\<close>

text \<open>
  A sound framebuffer has a non-empty screen of less than 2147483648 pixels each way, and rows at
  least as long as the screen is wide. Index \<open>k\<close> is visible when its column and row are.
\<close>

definition fb_ok :: "lfb \<Rightarrow> bool" where
  "fb_ok s \<longleftrightarrow> 0 < fbW s \<and> fbW s \<le> pitch_px s \<and> 0 < fbH s \<and> fbW s < 2147483648 \<and> fbH s < 2147483648"

definition vis :: "lfb \<Rightarrow> int \<Rightarrow> bool" where
  "vis s k \<longleftrightarrow> k mod pitch_px s < fbW s \<and> 0 \<le> k div pitch_px s \<and> k div pitch_px s < fbH s"

definition same_screen :: "lfb \<Rightarrow> lfb \<Rightarrow> bool" where
  "same_screen s s' \<longleftrightarrow> s' = s\<lparr>fb_pix := fb_pix s'\<rparr>"

definition in_rect :: "lfb \<Rightarrow> int \<Rightarrow> int \<Rightarrow> int \<Rightarrow> int \<Rightarrow> int \<Rightarrow> bool" where
  "in_rect s x y w h k \<longleftrightarrow>
     x \<le> k mod pitch_px s \<and> k mod pitch_px s < x + w \<and> y \<le> k div pitch_px s \<and> k div pitch_px s < y + h"

lemma same_screen_fields:
  "same_screen s s' \<Longrightarrow> fbW s' = fbW s \<and> fbH s' = fbH s \<and> pitch_px s' = pitch_px s \<and> fbp s' = fbp s \<and> fb_active s' = fb_active s"
  unfolding same_screen_def by (metis lfb.select_convs lfb.surjective lfb.update_convs(1))

lemma same_screen_refl [simp]: "same_screen s s"
  by (simp add: same_screen_def)

lemma same_screen_trans: "same_screen s t \<Longrightarrow> same_screen t u \<Longrightarrow> same_screen s u"
  unfolding same_screen_def by (metis lfb.surjective lfb.update_convs(1))

lemma same_screen_put [simp]: "same_screen s (put_pix k c s)"
  by (simp add: same_screen_def put_pix_def)

lemma lfb_eqI: "same_screen s t \<Longrightarrow> (\<And>k. fb_pix t k = fb_pix s k) \<Longrightarrow> t = s"
  unfolding same_screen_def by (metis (no_types, lifting) ext lfb.surjective lfb.update_convs(1))

lemma fb_pix_put: "fb_pix (put_pix k c s) j = (if j = k then c else fb_pix s j)"
  by (simp add: put_pix_def)

lemma fill_row:
  "fb_pix (for_int w (\<lambda>i. put_pix (row + i) rgb) s) k = (if row \<le> k \<and> k < row + w then rgb else fb_pix s k) \<and>
   same_screen s (for_int w (\<lambda>i. put_pix (row + i) rgb) s)"
proof (cases "0 \<le> w")
  case True
  show ?thesis
    by (rule for_int_induct [where P = "\<lambda>w t. fb_pix t k = (if row \<le> k \<and> k < row + w then rgb else fb_pix s k) \<and> same_screen s t"])
      (use True in \<open>auto simp: fb_pix_put intro: same_screen_trans\<close>)
qed auto

lemma fill_rows:
  "fb_pix (for_int h (\<lambda>j s. let row = (y + j) * pitch_px s + x in for_int w (\<lambda>i. put_pix (row + i) rgb) s) s) k =
     (if \<exists>j. 0 \<le> j \<and> j < h \<and> (y + j) * pitch_px s + x \<le> k \<and> k < (y + j) * pitch_px s + x + w then rgb else fb_pix s k) \<and>
   same_screen s (for_int h (\<lambda>j s. let row = (y + j) * pitch_px s + x in for_int w (\<lambda>i. put_pix (row + i) rgb) s) s)"
proof (cases "0 \<le> h")
  case True
  show ?thesis
  proof (rule for_int_induct [where P = "\<lambda>h t. fb_pix t k =
      (if \<exists>j. 0 \<le> j \<and> j < h \<and> (y + j) * pitch_px s + x \<le> k \<and> k < (y + j) * pitch_px s + x + w then rgb else fb_pix s k) \<and>
      same_screen s t"])
    fix i t
    assume i: "0 \<le> i" "i < h" and t: "fb_pix t k = (if \<exists>j. 0 \<le> j \<and> j < i \<and> (y + j) * pitch_px s + x \<le> k \<and>
        k < (y + j) * pitch_px s + x + w then rgb else fb_pix s k) \<and> same_screen s t"
    let ?row = "(y + i) * pitch_px s + x"
    have p: "pitch_px t = pitch_px s" using t same_screen_fields by blast
    have "(\<exists>j. 0 \<le> j \<and> j < i + 1 \<and> (y + j) * pitch_px s + x \<le> k \<and> k < (y + j) * pitch_px s + x + w) \<longleftrightarrow>
        (\<exists>j. 0 \<le> j \<and> j < i \<and> (y + j) * pitch_px s + x \<le> k \<and> k < (y + j) * pitch_px s + x + w) \<or> (?row \<le> k \<and> k < ?row + w)"
      (is "?A \<longleftrightarrow> ?B \<or> ?C")
    proof
      assume ?A
      then obtain j where j: "0 \<le> j" "j < i + 1" "(y + j) * pitch_px s + x \<le> k" "k < (y + j) * pitch_px s + x + w" by blast
      then show "?B \<or> ?C" by (cases "j = i") auto
    next
      assume "?B \<or> ?C"
      then show ?A
      proof
        assume ?C
        then show ?A using i(1) by (intro exI [of _ i]) simp
      qed (meson less_add_one order.strict_trans)
    qed
    then show "fb_pix (let row = (y + i) * pitch_px t + x in for_int w (\<lambda>i. put_pix (row + i) rgb) t) k =
        (if \<exists>j. 0 \<le> j \<and> j < i + 1 \<and> (y + j) * pitch_px s + x \<le> k \<and> k < (y + j) * pitch_px s + x + w then rgb else fb_pix s k) \<and>
        same_screen s (let row = (y + i) * pitch_px t + x in for_int w (\<lambda>i. put_pix (row + i) rgb) t)"
      using fill_row [of w ?row rgb t k] t by (auto simp: p Let_def intro: same_screen_trans)
  qed (use True in auto)
qed auto

text \<open>Rows inside the pitch are told apart by column and row of the index.\<close>

lemma row_index:
  assumes "0 \<le> x" "x + w \<le> (p :: int)" "0 < p"
  shows "(\<exists>j. 0 \<le> j \<and> j < h \<and> (y + j) * p + x \<le> k \<and> k < (y + j) * p + x + w) \<longleftrightarrow>
    x \<le> k mod p \<and> k mod p < x + w \<and> y \<le> k div p \<and> k div p < y + h" (is "?L \<longleftrightarrow> ?R")
proof
  assume ?L
  then obtain j where j: "0 \<le> j" "j < h" "(y + j) * p + x \<le> k" "k < (y + j) * p + x + w" by blast
  define r where "r = k - (y + j) * p"
  have r: "0 \<le> r" "r < p" "x \<le> r" "r < x + w" "k = r + (y + j) * p" using j assms by (auto simp: r_def)
  then have "k div p = y + j" "k mod p = r" by (simp_all add: div_pos_pos_trivial mod_pos_pos_trivial)
  then show ?R using j r by simp
next
  assume r: ?R
  have "(y + (k div p - y)) * p + k mod p = k" by simp
  then show ?L using r by (intro exI [of _ "k div p - y"]) linarith
qed

text \<open>The clipped rectangle the loops of \<open>lfb_fill\<close> run over.\<close>

lemma lfb_fill_loops:
  "lfb_fill x y w h rgb s =
     for_int (min (y + h) (fbH s) - max y 0)
       (\<lambda>j t. let row = (max y 0 + j) * pitch_px t + max x 0 in for_int (min (x + w) (fbW s) - max x 0) (\<lambda>i. put_pix (row + i) rgb) t) s"
  by (auto simp: lfb_fill_def Let_def max_def min_def add.commute [of x w] add.commute [of y h])

lemma lfb_fill_pix:
  assumes "fb_ok s"
  shows "fb_pix (lfb_fill x y w h rgb s) k = (if vis s k \<and> in_rect s x y w h k then rgb else fb_pix s k)"
proof -
  let ?p = "pitch_px s"
  have p: "0 < ?p" "fbW s \<le> ?p" "0 < fbW s" "0 < fbH s" using assms by (auto simp: fb_ok_def)
  define x' where "x' = max x 0"
  define y' where "y' = max y 0"
  define w' where "w' = min (x + w) (fbW s) - x'"
  define h' where "h' = min (y + h) (fbH s) - y'"
  note eq = lfb_fill_loops [of x y w h rgb s, folded x'_def y'_def, folded w'_def h'_def]
  have m: "0 \<le> k mod ?p" "k mod ?p < ?p" using p by simp_all
  have "fb_pix (lfb_fill x y w h rgb s) k = (if x' \<le> k mod ?p \<and> k mod ?p < x' + w' \<and> y' \<le> k div ?p \<and> k div ?p < y' + h'
      then rgb else fb_pix s k)"
    unfolding eq using fill_rows [of h' y' x' w' rgb s k] row_index [of x' w' ?p h' y' k] p
    by (simp add: x'_def w'_def)
  moreover have "x' \<le> k mod ?p \<and> k mod ?p < x' + w' \<and> y' \<le> k div ?p \<and> k div ?p < y' + h' \<longleftrightarrow> vis s k \<and> in_rect s x y w h k"
    using m by (auto simp: vis_def in_rect_def x'_def y'_def w'_def h'_def)
  ultimately show ?thesis by simp
qed

text \<open>
  Filling a rectangle, wherever it lies, gives the colour to exactly its visible pixels. No
  other location of the framebuffer memory changes, in particular none outside the screen.
\<close>

theorem lfb_fill_clips:
  assumes "fb_ok s"
  shows "fb_pix (lfb_fill x y w h rgb s) k = (if vis s k \<and> in_rect s x y w h k then rgb else fb_pix s k)"
  using assms by (rule lfb_fill_pix)

definition screen :: lfb where
  "screen = \<lparr>fb_pix = \<lambda>_. 0, fbp = 0xFD000000, fbW = 640, fbH = 480, pitch_px = 704, fb_active = True\<rparr>"

lemma screen_ok: "fb_ok screen"
  by (simp add: fb_ok_def screen_def)

theorem lfb_fill_clips_witness:
  "fb_pix (lfb_fill (- 5) 470 20 20 0xFF0000 screen) (479 * 704 + 14) = 0xFF0000 \<and>
   fb_pix (lfb_fill (- 5) 470 20 20 0xFF0000 screen) (480 * 704) = 0"
  by (simp add: lfb_fill_clips [OF screen_ok] vis_def in_rect_def) (simp add: screen_def)

section \<open>Painting\<close>

text \<open>
  \<open>painted s t\<close>: from the sound framebuffer \<open>s\<close> the state \<open>t\<close> has been reached with nothing
  but visible pixels changed. Every drawing operation keeps this.
\<close>

definition painted :: "lfb \<Rightarrow> lfb \<Rightarrow> bool" where
  "painted s t \<longleftrightarrow> fb_ok s \<and> same_screen s t \<and> (\<forall>k. \<not> vis s k \<longrightarrow> fb_pix t k = fb_pix s k)"

named_theorems paint_intros \<open>operations that paint\<close>

lemma same_screen_vis: "same_screen s t \<Longrightarrow> vis t k = vis s k" "same_screen s t \<Longrightarrow> fb_ok t = fb_ok s"
  by (drule same_screen_fields, simp add: vis_def fb_ok_def)+

lemma painted_start: "fb_ok s \<Longrightarrow> painted s s"
  by (simp add: painted_def)

lemma painted_trans: "painted s t \<Longrightarrow> painted t u \<Longrightarrow> painted s u"
  using same_screen_trans [of s t u] same_screen_vis(1) [of s t] by (auto simp: painted_def)

lemma painted_ok: "painted s t \<Longrightarrow> fb_ok t"
  using same_screen_vis(2) by (auto simp: painted_def)

lemma paint_fold [paint_intros]: "painted s t \<Longrightarrow> (\<And>x t. painted s t \<Longrightarrow> painted s (f x t)) \<Longrightarrow> painted s (fold f xs t)"
  by (induction xs arbitrary: t) auto

lemma paint_for [paint_intros]: "painted s t \<Longrightarrow> (\<And>i t. painted s t \<Longrightarrow> painted s (f i t)) \<Longrightarrow> painted s (for_int n f t)"
  unfolding for_int_def by (rule paint_fold)

lemma paint_if [paint_intros]: "(b \<Longrightarrow> painted s t) \<Longrightarrow> (\<not> b \<Longrightarrow> painted s u) \<Longrightarrow> painted s (if b then t else u)"
  by simp

lemma lfb_fill_screen: "same_screen s (lfb_fill x y w h rgb s)"
  unfolding lfb_fill_loops using fill_rows by blast

lemma paint_fill [paint_intros]: "painted s t \<Longrightarrow> painted s (lfb_fill x y w h rgb t)"
  by (frule painted_ok, erule painted_trans) (simp add: painted_def lfb_fill_screen lfb_fill_pix)

lemma paint_shapes [paint_intros]:
  "painted s t \<Longrightarrow> painted s (lfb_gradient_v x y w h a b t)"
  "painted s t \<Longrightarrow> painted s (lfb_rect x y w h rgb t)"
  "painted s t \<Longrightarrow> painted s (lfb_round_fill x y w h r rgb t)"
  "painted s t \<Longrightarrow> painted s (lfb_disc cx cy r rgb t)"
  unfolding lfb_gradient_v_def lfb_rect_def lfb_round_fill_def lfb_disc_def Let_def by (assumption | rule paint_intros)+

lemma paint_char [paint_intros]: "painted s t \<Longrightarrow> painted s (lfb_char x y ch fg bg sc t)"
  unfolding lfb_char_def Let_def by (assumption | rule paint_intros)+

lemma paint_text [paint_intros]: "painted s t \<Longrightarrow> painted s (lfb_text x y str fg bg sc t)"
proof -
  have "painted s t \<Longrightarrow> painted s (text_loop x y cs fg bg sc t)" for cs
    by (induction cs arbitrary: x t) (auto intro: paint_char)
  then show "painted s t \<Longrightarrow> painted s (lfb_text x y str fg bg sc t)" by (simp add: lfb_text_def)
qed

lemma uless_iff: "- 2147483648 \<le> a \<Longrightarrow> 0 < b \<Longrightarrow> b < 2147483648 \<Longrightarrow> uless a b \<longleftrightarrow> 0 \<le> a \<and> a < b"
  by (auto simp: uless_def unsigned_int_def)

lemma vis_xy:
  assumes "fb_ok s" "0 \<le> x" "x < pitch_px s"
  shows "vis s (y * pitch_px s + x) \<longleftrightarrow> x < fbW s \<and> 0 \<le> y \<and> y < fbH s"
    "(y * pitch_px s + x) div pitch_px s = y" "(y * pitch_px s + x) mod pitch_px s = x"
  using assms by (simp_all add: vis_def fb_ok_def div_pos_pos_trivial)

lemma lfb_pixel_eq:
  assumes "fb_ok s" "- 2147483648 \<le> x" "- 2147483648 \<le> y"
  shows "lfb_pixel x y rgb s = (if 0 \<le> x \<and> x < fbW s \<and> 0 \<le> y \<and> y < fbH s then put_pix (y * pitch_px s + x) rgb s else s)"
  using assms by (auto simp: lfb_pixel_def uless_iff fb_ok_def)

lemma paint_pixel:
  assumes "painted s t" "- 2147483648 \<le> x" "- 2147483648 \<le> y"
  shows "painted s (lfb_pixel x y rgb t)"
proof -
  have ok: "fb_ok t" using assms(1) by (rule painted_ok)
  have "vis t (y * pitch_px t + x)" if "0 \<le> x \<and> x < fbW t \<and> 0 \<le> y \<and> y < fbH t"
    using that vis_xy(1) [OF ok, of x y] ok by (simp add: fb_ok_def)
  then have "painted t (lfb_pixel x y rgb t)"
    using ok by (auto simp: lfb_pixel_eq [OF ok assms(2,3)] painted_def fb_pix_put)
  then show ?thesis using assms(1) painted_trans by blast
qed

section \<open>Integer square roots\<close>

lemma isqrt_loop_bounds: "0 \<le> x \<Longrightarrow> x * x \<le> n \<Longrightarrow> x \<le> isqrt_loop n x \<and> isqrt_loop n x * isqrt_loop n x \<le> n \<and>
    n < (isqrt_loop n x + 1) * (isqrt_loop n x + 1)"
proof (induction n x rule: isqrt_loop.induct)
  case (1 n x)
  show ?case
  proof (cases "(x + 1) * (x + 1) \<le> n")
    case True
    then show ?thesis using "1.IH" "1.prems" by (simp add: isqrt_loop.simps [of n x])
  next
    case False
    then show ?thesis using "1.prems" by (simp add: isqrt_loop.simps [of n x])
  qed
qed

lemma isqrt_bounds: "0 \<le> n \<Longrightarrow> 0 \<le> isqrt n \<and> isqrt n * isqrt n \<le> n \<and> n < (isqrt n + 1) * (isqrt n + 1)"
  using isqrt_loop_bounds [of 0 n] by (simp add: isqrt_def)

section \<open>Lines\<close>

text \<open>
  The walk of the line algorithm along its longer axis: \<open>n\<close> steps, offsets \<open>u\<close> on the longer
  and \<open>v\<close> on the shorter axis of lengths \<open>A\<close> and \<open>D\<close>.
\<close>

fun line_walk :: "nat \<Rightarrow> int \<Rightarrow> int \<Rightarrow> int \<Rightarrow> int \<Rightarrow> int \<Rightarrow> (int \<times> int) list" where
  "line_walk 0 A D e u v = [(u, v)]"
| "line_walk (Suc n) A D e u v =
     (u, v) # (if e < D then line_walk n A D (e - D + A) (u + 1) (v + 1) else line_walk n A D (e - D) (u + 1) v)"

lemma line_walk_hd: "hd (line_walk n A D e u v) = (u, v)" "line_walk n A D e u v \<noteq> []"
  by (cases n, simp_all)+

lemma multiple_between:
  assumes "- A < m * A" "m * A < A" "0 < (A :: int)"
  shows "m = 0"
proof (rule ccontr)
  assume "m \<noteq> 0"
  then consider "1 \<le> m" | "m \<le> - 1" by linarith
  then show False
    using mult_right_mono [of 1 m A] mult_right_mono [of m "- 1" A] assms by cases linarith+
qed

lemma line_walk_end:
  assumes "0 \<le> D" "D \<le> A" "0 < A" "0 \<le> e" "e < A" "e = A div 2 + int n * D - m * A"
  shows "last (line_walk n A D e u v) = (u + int n, v + m) \<and> 0 \<le> m"
  using assms(4-6)
proof (induction n arbitrary: e u v m)
  case 0
  have "A div 2 < A" "0 \<le> A div 2" using assms(3) by auto
  then have "- A < m * A" "m * A < A" using 0 by linarith+
  then have "m = 0" using assms(3) by (rule multiple_between)
  then show ?case by simp
next
  case (Suc n)
  show ?case
  proof (cases "e < D")
    case True
    have "e - D + A = A div 2 + int n * D - (m - 1) * A" using Suc.prems(3) by (simp add: algebra_simps)
    then have "last (line_walk n A D (e - D + A) (u + 1) (v + 1)) = (u + 1 + int n, v + 1 + (m - 1)) \<and> 0 \<le> m - 1"
      using Suc.IH [of "e - D + A" "m - 1" "u + 1" "v + 1"] Suc.prems True assms by simp
    then show ?thesis using True line_walk_hd(2) by auto
  next
    case False
    have "e - D = A div 2 + int n * D - m * A" using Suc.prems(3) by (simp add: algebra_simps)
    then have "last (line_walk n A D (e - D) (u + 1) v) = (u + 1 + int n, v + m) \<and> 0 \<le> m"
      using Suc.IH [of "e - D" m "u + 1" v] Suc.prems False assms by simp
    then show ?thesis using False line_walk_hd(2) by auto
  qed
qed

text \<open>Every point of a walk lies between its ends, and neighbours differ by at most one.\<close>

lemma line_walk_range: "p \<in> set (line_walk n A D e u v) \<Longrightarrow>
    u \<le> fst p \<and> fst p \<le> fst (last (line_walk n A D e u v)) \<and> v \<le> snd p \<and> snd p \<le> snd (last (line_walk n A D e u v))"
proof (induction n arbitrary: e u v p)
  case (Suc n)
  let ?w = "if e < D then line_walk n A D (e - D + A) (u + 1) (v + 1) else line_walk n A D (e - D) (u + 1) v"
  have w: "?w \<noteq> []" "hd ?w = (u + 1, if e < D then v + 1 else v)" using line_walk_hd by simp_all
  have "p = (u, v) \<or> p \<in> set ?w" using Suc.prems by auto
  moreover have "q \<in> set ?w \<Longrightarrow> u + 1 \<le> fst q \<and> fst q \<le> fst (last ?w) \<and> v \<le> snd q \<and> snd q \<le> snd (last ?w)" for q
    using Suc.IH [of q "e - D + A" "u + 1" "v + 1"] Suc.IH [of q "e - D" "u + 1" v]
    by (cases "e < D") fastforce+
  moreover have "hd ?w \<in> set ?w" using w(1) by (rule hd_in_set)
  ultimately show ?case using w by fastforce
qed simp

lemma line_walk_connected: "Suc i < length (line_walk n A D e u v) \<Longrightarrow>
    fst (line_walk n A D e u v ! Suc i) = fst (line_walk n A D e u v ! i) + 1 \<and>
    (snd (line_walk n A D e u v ! Suc i) = snd (line_walk n A D e u v ! i) \<or> snd (line_walk n A D e u v ! Suc i) = snd (line_walk n A D e u v ! i) + 1)"
proof (induction n arbitrary: e u v i)
  case (Suc n)
  have hd: "line_walk n A D e' u' v' ! 0 = (u', v')" for e' u' v' by (simp add: line_walk_hd hd_conv_nth [symmetric])
  show ?case
  proof (cases i)
    case 0
    then show ?thesis by (simp add: hd)
  next
    case (Suc j)
    then show ?thesis using Suc.IH [of j] Suc.prems by (cases "e < D") auto
  qed
qed simp

lemma length_line_walk [simp]: "length (line_walk n A D e u v) = Suc n"
  by (induction n arbitrary: e u v) auto

lemma line_walk_0_end: "0 \<le> (D :: int) \<Longrightarrow> D \<le> A \<Longrightarrow> 0 < A \<Longrightarrow> 0 \<le> e \<Longrightarrow> e < A \<Longrightarrow> e = A div 2 - m * A \<Longrightarrow> m = 0"
  using line_walk_end [of D A e 0 m 0 0] by simp

text \<open>The loop visits the points of the walk, on either axis.\<close>

lemma line_loop_x:
  assumes "0 \<le> ady" "ady < adx" "sx \<noteq> 0"
    and "0 \<le> e" "e < adx" "e = adx div 2 + int n * ady - m * adx"
  shows "line_loop (X + sx * (u + int n)) (Y + sy * (v + m)) adx ady sx sy rgb (X + sx * u) (Y + sy * v) e s =
    Some (fold (\<lambda>(u, v). lfb_pixel (X + sx * u) (Y + sy * v) rgb) (line_walk n adx ady e u v) s)"
  using assms(4-6)
proof (induction n arbitrary: e u v m s)
  case 0
  then have "m = 0" using line_walk_0_end [of ady adx e m] assms(1-3) by simp
  then show ?case by (simp add: line_loop.simps [of _ _ adx ady sx sy rgb "X + sx * u"])
next
  case (Suc n)
  let ?s = "lfb_pixel (X + sx * u) (Y + sy * v) rgb s"
  have ne: "X + sx * u \<noteq> X + sx * (u + int (Suc n))" "- adx < e" using assms(1-3) Suc.prems by simp_all
  let ?loop = "line_loop (X + sx * (u + int (Suc n))) (Y + sy * (v + m)) adx ady sx sy rgb"
  have shift: "X + sx * u + sx = X + sx * (u + 1)" "Y + sy * v + sy = Y + sy * (v + 1)"
    "u + int (Suc n) = u + 1 + int n" by (simp_all add: algebra_simps)
  have step: "?loop (X + sx * u) (Y + sy * v) e s =
      (if e < ady then ?loop (X + sx * (u + 1)) (Y + sy * (v + 1)) (e - ady + adx) ?s
       else ?loop (X + sx * (u + 1)) (Y + sy * v) (e - ady) ?s)"
    by (subst line_loop.simps) (use ne in \<open>simp add: Let_def shift(1,2) del: of_nat_Suc\<close>)
  show ?case
  proof (cases "e < ady")
    case True
    have "e - ady + adx = adx div 2 + int n * ady - (m - 1) * adx" using Suc.prems(3) by (simp add: algebra_simps)
    then have "?loop (X + sx * (u + 1)) (Y + sy * (v + 1)) (e - ady + adx) ?s =
        Some (fold (\<lambda>(u, v). lfb_pixel (X + sx * u) (Y + sy * v) rgb) (line_walk n adx ady (e - ady + adx) (u + 1) (v + 1)) ?s)"
      using Suc.IH [of "e - ady + adx" "m - 1" "u + 1" "v + 1" ?s] Suc.prems(1,2) True assms(1,2) unfolding shift(3) by simp
    then show ?thesis unfolding step using True by simp
  next
    case False
    have "e - ady = adx div 2 + int n * ady - m * adx" using Suc.prems(3) by (simp add: algebra_simps)
    then have "?loop (X + sx * (u + 1)) (Y + sy * v) (e - ady) ?s =
        Some (fold (\<lambda>(u, v). lfb_pixel (X + sx * u) (Y + sy * v) rgb) (line_walk n adx ady (e - ady) (u + 1) v) ?s)"
      using Suc.IH [of "e - ady" m "u + 1" v ?s] Suc.prems(1,2) False assms(1,2) unfolding shift(3) by simp
    then show ?thesis unfolding step using False by simp
  qed
qed

lemma line_loop_y:
  assumes "0 \<le> adx" "adx \<le> ady" "0 < ady" "sy \<noteq> 0"
    and "0 \<le> e" "e < ady" "e = ady div 2 + int n * adx - m * ady"
  shows "line_loop (X + sx * (v + m)) (Y + sy * (u + int n)) adx ady sx sy rgb (X + sx * v) (Y + sy * u) (- e) s =
    Some (fold (\<lambda>(u, v). lfb_pixel (X + sx * v) (Y + sy * u) rgb) (line_walk n ady adx e u v) s)"
  using assms(5-7)
proof (induction n arbitrary: e u v m s)
  case 0
  then have "m = 0" using line_walk_0_end [of adx ady e m] assms(1-4) by simp
  then show ?case by (simp add: line_loop.simps [of _ _ adx ady sx sy rgb "X + sx * v"])
next
  case (Suc n)
  let ?s = "lfb_pixel (X + sx * v) (Y + sy * u) rgb s"
  have ne: "Y + sy * u \<noteq> Y + sy * (u + int (Suc n))" "- e < ady" using assms(1-4) Suc.prems by simp_all
  let ?loop = "line_loop (X + sx * (v + m)) (Y + sy * (u + int (Suc n))) adx ady sx sy rgb"
  have shift: "Y + sy * u + sy = Y + sy * (u + 1)" "X + sx * v + sx = X + sx * (v + 1)"
    "u + int (Suc n) = u + 1 + int n" by (simp_all add: algebra_simps)
  have step: "?loop (X + sx * v) (Y + sy * u) (- e) s =
      (if e < adx then ?loop (X + sx * (v + 1)) (Y + sy * (u + 1)) (- (e - adx + ady)) ?s
       else ?loop (X + sx * v) (Y + sy * (u + 1)) (- (e - adx)) ?s)"
    by (subst line_loop.simps) (use ne in \<open>simp add: Let_def shift(1,2) algebra_simps del: of_nat_Suc\<close>)
  show ?case
  proof (cases "e < adx")
    case True
    have "e - adx + ady = ady div 2 + int n * adx - (m - 1) * ady" using Suc.prems(3) by (simp add: algebra_simps)
    then have "?loop (X + sx * (v + 1)) (Y + sy * (u + 1)) (- (e - adx + ady)) ?s =
        Some (fold (\<lambda>(u, v). lfb_pixel (X + sx * v) (Y + sy * u) rgb) (line_walk n ady adx (e - adx + ady) (u + 1) (v + 1)) ?s)"
      using Suc.IH [of "e - adx + ady" "m - 1" "v + 1" "u + 1" ?s] Suc.prems(1,2) True assms(1,2) unfolding shift(3)
      by (simp del: minus_add_distrib minus_diff_eq)
    then show ?thesis unfolding step using True by simp
  next
    case False
    have "e - adx = ady div 2 + int n * adx - m * ady" using Suc.prems(3) by (simp add: algebra_simps)
    then have "?loop (X + sx * v) (Y + sy * (u + 1)) (- (e - adx)) ?s =
        Some (fold (\<lambda>(u, v). lfb_pixel (X + sx * v) (Y + sy * u) rgb) (line_walk n ady adx (e - adx) (u + 1) v) ?s)"
      using Suc.IH [of "e - adx" m v "u + 1" ?s] Suc.prems(1,2) False assms(1,2) unfolding shift(3)
      by (simp del: minus_diff_eq)
    then show ?thesis unfolding step using False by simp
  qed
qed

text \<open>The points of a line from its first to its last, for both orientations.\<close>

definition line_points :: "int \<Rightarrow> int \<Rightarrow> int \<Rightarrow> int \<Rightarrow> (int \<times> int) list" where
  "line_points x0 y0 x1 y1 =
     (let adx = \<bar>x1 - x0\<bar>; ady = \<bar>y1 - y0\<bar>; sx = (if x1 < x0 then -1 else 1); sy = (if y1 < y0 then -1 else 1)
      in if adx > ady then map (\<lambda>(u, v). (x0 + sx * u, y0 + sy * v)) (line_walk (nat adx) adx ady (adx div 2) 0 0)
         else map (\<lambda>(u, v). (x0 + sx * v, y0 + sy * u)) (line_walk (nat ady) ady adx (ady div 2) 0 0))"

lemma half_trunc: "0 \<le> (a :: int) \<Longrightarrow> a sdiv 2 = a div 2" "0 \<le> a \<Longrightarrow> (- a) sdiv 2 = - (a div 2)"
  by (auto simp: signed_divide_int_def sgn_if)

lemma lfb_line_points: "lfb_line x0 y0 x1 y1 rgb s = Some (fold (\<lambda>(x, y). lfb_pixel x y rgb) (line_points x0 y0 x1 y1) s)"
proof -
  define adx where "adx = \<bar>x1 - x0\<bar>"
  define ady where "ady = \<bar>y1 - y0\<bar>"
  define sx where "sx = (if x1 < x0 then -1 else (1 :: int))"
  define sy where "sy = (if y1 < y0 then -1 else (1 :: int))"
  have ends: "x1 = x0 + sx * adx" "y1 = y0 + sy * ady" "0 \<le> adx" "0 \<le> ady" "sx \<noteq> 0" "sy \<noteq> 0"
    by (auto simp: adx_def ady_def sx_def sy_def)
  have eq: "lfb_line x0 y0 x1 y1 rgb s =
      line_loop x1 y1 adx ady sx sy rgb x0 y0 ((if adx > ady then adx else - ady) sdiv 2) s"
    by (auto simp: lfb_line_def Let_def adx_def ady_def sx_def sy_def)
  have pts: "line_points x0 y0 x1 y1 =
      (if adx > ady then map (\<lambda>(u, v). (x0 + sx * u, y0 + sy * v)) (line_walk (nat adx) adx ady (adx div 2) 0 0)
       else map (\<lambda>(u, v). (x0 + sx * v, y0 + sy * u)) (line_walk (nat ady) ady adx (ady div 2) 0 0))"
    by (simp only: line_points_def Let_def adx_def ady_def sx_def sy_def)
  consider "ady < adx" | "adx \<le> ady" "0 < ady" | "adx = 0" "ady = 0" using ends by linarith
  then show ?thesis
  proof cases
    case 1
    then have "line_loop x1 y1 adx ady sx sy rgb x0 y0 (adx div 2) s =
        Some (fold (\<lambda>(u, v). lfb_pixel (x0 + sx * u) (y0 + sy * v) rgb) (line_walk (nat adx) adx ady (adx div 2) 0 0) s)"
      using ends line_loop_x [of ady adx sx "adx div 2" "nat adx" ady x0 0 y0 sy 0 rgb s] by simp
    then show ?thesis unfolding eq pts using 1 ends(3) by (simp add: half_trunc fold_map comp_def case_prod_unfold)
  next
    case 2
    then have "line_loop x1 y1 adx ady sx sy rgb x0 y0 (- (ady div 2)) s =
        Some (fold (\<lambda>(u, v). lfb_pixel (x0 + sx * v) (y0 + sy * u) rgb) (line_walk (nat ady) ady adx (ady div 2) 0 0) s)"
      using ends line_loop_y [of adx ady sy "ady div 2" "nat ady" adx x0 sx 0 y0 0 rgb s] by simp
    then show ?thesis unfolding eq pts using 2 ends(4) by (simp add: half_trunc fold_map comp_def case_prod_unfold)
  next
    case 3
    then have "x1 = x0" "y1 = y0" using ends by simp_all
    then show ?thesis unfolding eq pts using 3 by (subst line_loop.simps) (simp add: Let_def)
  qed
qed

lemma line_points_ends:
  "line_points x0 y0 x1 y1 \<noteq> [] \<and> hd (line_points x0 y0 x1 y1) = (x0, y0) \<and> last (line_points x0 y0 x1 y1) = (x1, y1) \<and>
   int (length (line_points x0 y0 x1 y1)) = max \<bar>x1 - x0\<bar> \<bar>y1 - y0\<bar> + 1"
proof -
  have w: "last (line_walk (nat A) A D (A div 2) 0 0) = (A, D)" if "0 \<le> D" "D \<le> A" for A D
  proof (cases "A = 0")
    case False
    then show ?thesis using line_walk_end [of D A "A div 2" "nat A" D 0 0] that by simp
  qed (use that in simp)
  show ?thesis using line_walk_hd w
    by (auto simp: line_points_def Let_def hd_map last_map max_def)
qed

lemma line_points_box:
  assumes "p \<in> set (line_points x0 y0 x1 y1)"
  shows "min x0 x1 \<le> fst p \<and> fst p \<le> max x0 x1 \<and> min y0 y1 \<le> snd p \<and> snd p \<le> max y0 y1"
proof -
  have w: "0 \<le> u \<and> u \<le> A \<and> 0 \<le> v \<and> v \<le> D" if "0 \<le> D" "D \<le> A" "(u, v) \<in> set (line_walk (nat A) A D (A div 2) 0 0)" for A D u v
  proof (cases "A = 0")
    case False
    then have "last (line_walk (nat A) A D (A div 2) 0 0) = (A, D)" using line_walk_end [of D A "A div 2" "nat A" D 0 0] that by simp
    then show ?thesis using line_walk_range [OF that(3)] by simp
  qed (use that in simp)
  have dist: "A \<le> \<bar>b - a\<bar> \<Longrightarrow> 0 \<le> A \<Longrightarrow> min a b \<le> a + (if b < a then -1 else 1) * A \<and> a + (if b < a then -1 else 1) * A \<le> max a b"
    for A a b :: int by auto
  obtain u v where "p = (x0 + (if x1 < x0 then -1 else 1) * u, y0 + (if y1 < y0 then -1 else 1) * v)"
    "0 \<le> u \<and> u \<le> \<bar>x1 - x0\<bar>" "0 \<le> v \<and> v \<le> \<bar>y1 - y0\<bar>"
  proof (cases "\<bar>y1 - y0\<bar> < \<bar>x1 - x0\<bar>")
    case True
    then obtain u v where uv: "(u, v) \<in> set (line_walk (nat \<bar>x1 - x0\<bar>) \<bar>x1 - x0\<bar> \<bar>y1 - y0\<bar> (\<bar>x1 - x0\<bar> div 2) 0 0)"
      "p = (x0 + (if x1 < x0 then -1 else 1) * u, y0 + (if y1 < y0 then -1 else 1) * v)"
      using assms by (auto simp: line_points_def Let_def)
    then show ?thesis using that w [OF _ _ uv(1)] True by simp
  next
    case False
    then obtain u v where uv: "(u, v) \<in> set (line_walk (nat \<bar>y1 - y0\<bar>) \<bar>y1 - y0\<bar> \<bar>x1 - x0\<bar> (\<bar>y1 - y0\<bar> div 2) 0 0)"
      "p = (x0 + (if x1 < x0 then -1 else 1) * v, y0 + (if y1 < y0 then -1 else 1) * u)"
      using assms by (auto simp: line_points_def Let_def)
    then show ?thesis using that w [OF _ _ uv(1)] False by simp
  qed
  then show ?thesis using dist [of u x1 x0] dist [of v y1 y0] by simp
qed

lemma line_points_connected:
  assumes "Suc i < length (line_points x0 y0 x1 y1)"
  shows "\<bar>fst (line_points x0 y0 x1 y1 ! Suc i) - fst (line_points x0 y0 x1 y1 ! i)\<bar> \<le> 1 \<and>
    \<bar>snd (line_points x0 y0 x1 y1 ! Suc i) - snd (line_points x0 y0 x1 y1 ! i)\<bar> \<le> 1"
proof -
  have one: "\<bar>s * b - s * a\<bar> \<le> 1" if "b = a \<or> b = a + 1" "s = 1 \<or> s = - 1" for a b s :: int using that by auto
  show ?thesis
  proof (cases "\<bar>y1 - y0\<bar> < \<bar>x1 - x0\<bar>")
    case True
    then show ?thesis using assms line_walk_connected [of i "nat \<bar>x1 - x0\<bar>" "\<bar>x1 - x0\<bar>" "\<bar>y1 - y0\<bar>" "\<bar>x1 - x0\<bar> div 2" 0 0]
      by (auto simp: line_points_def Let_def case_prod_unfold)
  next
    case False
    then show ?thesis using assms line_walk_connected [of i "nat \<bar>y1 - y0\<bar>" "\<bar>y1 - y0\<bar>" "\<bar>x1 - x0\<bar>" "\<bar>y1 - y0\<bar> div 2" 0 0]
      by (auto simp: line_points_def Let_def case_prod_unfold)
  qed
qed

text \<open>
  Drawing a line always ends. It draws a connected chain of pixels, one for each step along
  the longer axis, from the first end point to the last, all inside the box they span.
\<close>

theorem lfb_line_draws:
  "\<exists>pts. lfb_line x0 y0 x1 y1 rgb s = Some (fold (\<lambda>(x, y). lfb_pixel x y rgb) pts s) \<and>
     hd pts = (x0, y0) \<and> last pts = (x1, y1) \<and> int (length pts) = max \<bar>x1 - x0\<bar> \<bar>y1 - y0\<bar> + 1 \<and>
     (\<forall>(x, y) \<in> set pts. min x0 x1 \<le> x \<and> x \<le> max x0 x1 \<and> min y0 y1 \<le> y \<and> y \<le> max y0 y1) \<and>
     (\<forall>i. Suc i < length pts \<longrightarrow> \<bar>fst (pts ! Suc i) - fst (pts ! i)\<bar> \<le> 1 \<and> \<bar>snd (pts ! Suc i) - snd (pts ! i)\<bar> \<le> 1)"
  using lfb_line_points line_points_ends line_points_box line_points_connected
  by (intro exI [of _ "line_points x0 y0 x1 y1"]) (fastforce simp: case_prod_unfold)

theorem lfb_line_draws_witness:
  "\<exists>pts. lfb_line 10 20 4 17 0xFFFFFF screen = Some (fold (\<lambda>(x, y). lfb_pixel x y 0xFFFFFF) pts screen) \<and>
     hd pts = (10, 20) \<and> last pts = (4, 17) \<and> length pts = 7"
proof -
  obtain pts where "lfb_line 10 20 4 17 0xFFFFFF screen = Some (fold (\<lambda>(x, y). lfb_pixel x y 0xFFFFFF) pts screen)"
    "hd pts = (10, 20)" "last pts = (4, 17)" "int (length pts) = max \<bar>4 - 10\<bar> \<bar>17 - 20\<bar> + 1"
    using lfb_line_draws [of 10 20 4 17 "0xFFFFFF" screen] by blast
  then show ?thesis by (intro exI [of _ pts]) simp
qed

lemma paint_line:
  assumes "painted s t" "- 2147483648 \<le> x0" "- 2147483648 \<le> y0" "- 2147483648 \<le> x1" "- 2147483648 \<le> y1"
  shows "\<exists>t'. lfb_line x0 y0 x1 y1 rgb t = Some t' \<and> painted s t'"
proof -
  have "\<forall>p \<in> set pts. - 2147483648 \<le> fst p \<and> - 2147483648 \<le> snd p \<Longrightarrow> painted s t \<Longrightarrow>
      painted s (fold (\<lambda>(x, y). lfb_pixel x y rgb) pts t)" for pts t
    by (induction pts arbitrary: t) (simp_all add: paint_pixel case_prod_unfold)
  moreover have "\<forall>p \<in> set (line_points x0 y0 x1 y1). - 2147483648 \<le> fst p \<and> - 2147483648 \<le> snd p"
    using line_points_box [of _ x0 y0 x1 y1] assms(2-5) by (fastforce simp: min_def split: if_splits)
  ultimately show ?thesis using assms(1) lfb_line_points by blast
qed

end
