(* ===== verification/Lfb_Regions.thy ===== *)
theory Lfb_Regions
  imports Lfb
begin

text \<open>
  Scrolling, saving and restoring rectangles of the framebuffer (\<open>lfb_scroll_up\<close>,
  \<open>lfb_blit_get\<close> and \<open>lfb_blit_put\<close> of \<open>kernel/drivers/lfb.c\<close>), and what \<open>lfb_clear\<close> misses.
\<close>

section \<open>Scrolling\<close>

lemma row_index1:
  assumes "0 \<le> x" "x + w \<le> (p :: int)" "0 < p"
  shows "y * p + x \<le> k \<and> k < y * p + x + w \<longleftrightarrow> k div p = y \<and> x \<le> k mod p \<and> k mod p < x + w"
proof -
  have "(\<exists>j. 0 \<le> j \<and> j < 1 \<and> (y + j) * p + x \<le> k \<and> k < (y + j) * p + x + w) \<longleftrightarrow> y * p + x \<le> k \<and> k < y * p + x + w"
    by (metis add.right_neutral int_one_le_iff_zero_less le_less linorder_not_less zero_less_one)
  then show ?thesis using row_index [OF assms, of 1 y k] by auto
qed

lemma copy_row:
  assumes "d + w \<le> sr"
  shows "fb_pix (for_int w (\<lambda>i s. put_pix (d + i) (fb_pix s (sr + i)) s) s) k =
      (if d \<le> k \<and> k < d + w then fb_pix s (k + (sr - d)) else fb_pix s k) \<and>
    same_screen s (for_int w (\<lambda>i s. put_pix (d + i) (fb_pix s (sr + i)) s) s)"
proof (cases "0 \<le> w")
  case True
  have "\<forall>k. fb_pix (for_int w (\<lambda>i s. put_pix (d + i) (fb_pix s (sr + i)) s) s) k =
      (if d \<le> k \<and> k < d + w then fb_pix s (k + (sr - d)) else fb_pix s k) \<and>
    same_screen s (for_int w (\<lambda>i s. put_pix (d + i) (fb_pix s (sr + i)) s) s)"
  proof (rule for_int_induct [where P = "\<lambda>w t. \<forall>k. fb_pix t k = (if d \<le> k \<and> k < d + w then fb_pix s (k + (sr - d)) else fb_pix s k) \<and> same_screen s t"])
    fix i t
    assume i: "0 \<le> i" "i < w" and t: "\<forall>k. fb_pix t k = (if d \<le> k \<and> k < d + i then fb_pix s (k + (sr - d)) else fb_pix s k) \<and> same_screen s t"
    have v: "fb_pix t (sr + i) = fb_pix s (d + i + (sr - d))" using t [rule_format, of "sr + i"] i assms by (auto simp: algebra_simps)
    show "\<forall>k. fb_pix (put_pix (d + i) (fb_pix t (sr + i)) t) k =
        (if d \<le> k \<and> k < d + (i + 1) then fb_pix s (k + (sr - d)) else fb_pix s k) \<and>
        same_screen s (put_pix (d + i) (fb_pix t (sr + i)) t)"
      using t i unfolding v by (auto simp: fb_pix_put intro: same_screen_trans)
  qed (use True in auto)
  then show ?thesis by blast
qed auto

text \<open>The rows of a region moved up by \<open>dy\<close> rows.\<close>

lemma copy_rows:
  assumes "0 \<le> x" "x + w \<le> pitch_px s" "0 < pitch_px s" "0 < dy" "0 \<le> n"
  shows "\<forall>k. fb_pix (for_int n (\<lambda>j s. let d = (y + j) * pitch_px s + x; sr = (y + j + dy) * pitch_px s + x
        in for_int w (\<lambda>i s. put_pix (d + i) (fb_pix s (sr + i)) s) s) s) k =
      (if in_rect s x y w n k then fb_pix s (k + dy * pitch_px s) else fb_pix s k) \<and>
    same_screen s (for_int n (\<lambda>j s. let d = (y + j) * pitch_px s + x; sr = (y + j + dy) * pitch_px s + x
        in for_int w (\<lambda>i s. put_pix (d + i) (fb_pix s (sr + i)) s) s) s)"
proof (rule for_int_induct [where P = "\<lambda>n t. \<forall>k. fb_pix t k = (if in_rect s x y w n k then fb_pix s (k + dy * pitch_px s) else fb_pix s k) \<and>
    same_screen s t"])
  fix j t
  assume j: "0 \<le> j" "j < n" and t: "\<forall>k. fb_pix t k = (if in_rect s x y w j k then fb_pix s (k + dy * pitch_px s) else fb_pix s k) \<and> same_screen s t"
  let ?p = "pitch_px s" and ?d = "(y + j) * pitch_px s + x" and ?sr = "(y + j + dy) * pitch_px s + x"
  have p: "pitch_px t = ?p" using t same_screen_fields by blast
  have far: "?sr - ?d = dy * ?p" by (simp add: algebra_simps)
  have "1 * ?p \<le> dy * ?p" using assms(3,4) by (intro mult_right_mono) auto
  then have le: "?d + w \<le> ?sr" using far assms(1,2) by linarith
  have src: "fb_pix t (k + dy * ?p) = fb_pix s (k + dy * ?p)" if "k div ?p = y + j" for k
    using t [rule_format, of "k + dy * ?p"] that assms(3,4) by (auto simp: in_rect_def)
  define r where "r = for_int w (\<lambda>i s. put_pix (?d + i) (fb_pix s (?sr + i)) s) t"
  have row: "fb_pix r k = (if ?d \<le> k \<and> k < ?d + w then fb_pix t (k + dy * ?p) else fb_pix t k)" "same_screen s r" for k
    using copy_row [OF le, of t k, unfolded far] t same_screen_trans unfolding r_def by blast+
  have "fb_pix r k = (if in_rect s x y w (j + 1) k then fb_pix s (k + dy * ?p) else fb_pix s k)" for k
  proof (cases "?d \<le> k \<and> k < ?d + w")
    case True
    then have "k div ?p = y + j" "in_rect s x y w (j + 1) k"
      using row_index1 [OF assms(1-3), of "y + j" k] j by (auto simp: in_rect_def)
    then show ?thesis using row(1) [of k] True src [of k] by simp
  next
    case False
    then have "in_rect s x y w (j + 1) k = in_rect s x y w j k"
      using row_index1 [OF assms(1-3), of "y + j" k] by (auto simp: in_rect_def)
    then show ?thesis using row(1) [of k] t False by presburger
  qed
  then show "\<forall>k. fb_pix (let d = (y + j) * pitch_px t + x; sr = (y + j + dy) * pitch_px t + x
        in for_int w (\<lambda>i s. put_pix (d + i) (fb_pix s (sr + i)) s) t) k =
      (if in_rect s x y w (j + 1) k then fb_pix s (k + dy * ?p) else fb_pix s k) \<and>
      same_screen s (let d = (y + j) * pitch_px t + x; sr = (y + j + dy) * pitch_px t + x
        in for_int w (\<lambda>i s. put_pix (d + i) (fb_pix s (sr + i)) s) t)"
    using row(2) unfolding p Let_def r_def [symmetric] by blast
qed (use assms in \<open>auto simp: in_rect_def\<close>)

lemma scroll_up_pix:
  assumes "fb_ok s" "0 \<le> x" "x + w \<le> fbW s" "0 \<le> y" "y + h \<le> fbH s" "0 < dy" "dy \<le> h"
  shows "fb_pix (lfb_scroll_up x y w h dy rgb s) k =
    (if in_rect s x y w h k
     then if k div pitch_px s < y + h - dy then fb_pix s (k + dy * pitch_px s) else rgb
     else fb_pix s k)"
proof -
  define t where "t = for_int (h - dy) (\<lambda>j s. let d = (y + j) * pitch_px s + x; sr = (y + j + dy) * pitch_px s + x
        in for_int w (\<lambda>i s. put_pix (d + i) (fb_pix s (sr + i)) s) s) s"
  have p: "x + w \<le> pitch_px s" "0 < pitch_px s" using assms by (auto simp: fb_ok_def)
  have t: "fb_pix t k = (if in_rect s x y w (h - dy) k then fb_pix s (k + dy * pitch_px s) else fb_pix s k)" "same_screen s t"
    using copy_rows [OF assms(2) p assms(6), of "h - dy" y] assms(7) unfolding t_def by auto
  have "fb_ok t" "vis t k = vis s k" "in_rect t x (y + h - dy) w dy k = in_rect s x (y + h - dy) w dy k"
    using t(2) same_screen_vis [OF t(2)] same_screen_fields [OF t(2)] assms(1) by (simp_all add: in_rect_def)
  then have "fb_pix (lfb_scroll_up x y w h dy rgb s) k = (if vis s k \<and> in_rect s x (y + h - dy) w dy k then rgb else fb_pix t k)"
    using lfb_fill_pix [of t x "y + h - dy" w dy rgb k] by (simp only: lfb_scroll_up_def Let_def t_def [symmetric, unfolded Let_def])
  then show ?thesis using t(1) assms by (auto simp: in_rect_def vis_def)
qed

text \<open>
  Scrolling a region that lies on the screen moves its picture up by \<open>dy\<close> rows, gives the
  colour to the rows that come free at the bottom, and leaves everything else alone.
\<close>

theorem lfb_scroll_up_moves:
  assumes "fb_ok s" "0 \<le> x" "x + w \<le> fbW s" "0 \<le> y" "y + h \<le> fbH s" "0 < dy" "dy \<le> h"
  shows "fb_pix (lfb_scroll_up x y w h dy rgb s) k =
    (if in_rect s x y w h k
     then if k div pitch_px s < y + h - dy then fb_pix s (k + dy * pitch_px s) else rgb
     else fb_pix s k)"
  using assms by (rule scroll_up_pix)

theorem lfb_scroll_up_moves_witness:
  "fb_pix (lfb_scroll_up 8 16 64 64 16 0x112233 (put_pix (40 * 704 + 20) 7 screen)) (24 * 704 + 20) = 7"
proof -
  have "fb_ok (put_pix (40 * 704 + 20) 7 screen)" by (simp add: fb_ok_def put_pix_def screen_def)
  from lfb_scroll_up_moves [OF this, of 8 64 16 64 16 "0x112233" "24 * 704 + 20"] show ?thesis
    by (simp add: in_rect_def put_pix_def screen_def)
qed

lemma lfb_scroll_up_screen: "0 \<le> x \<Longrightarrow> x + w \<le> fbW s \<Longrightarrow> fb_ok s \<Longrightarrow> 0 < dy \<Longrightarrow> dy \<le> h \<Longrightarrow> same_screen s (lfb_scroll_up x y w h dy rgb s)"
  using copy_rows [of x w s dy "h - dy" y] same_screen_trans [OF _ lfb_fill_screen]
  by (auto simp: lfb_scroll_up_def fb_ok_def)

text \<open>Scrolling a region on the screen only paints.\<close>

lemma paint_scroll_up:
  assumes "painted s t" "0 \<le> x" "x + w \<le> fbW t" "0 \<le> y" "y + h \<le> fbH t" "0 < dy" "dy \<le> h"
  shows "painted s (lfb_scroll_up x y w h dy rgb t)"
proof -
  have ok: "fb_ok t" using assms(1) by (rule painted_ok)
  have "\<not> vis t k \<Longrightarrow> \<not> in_rect t x y w h k" for k using assms by (auto simp: vis_def in_rect_def)
  then have "painted t (lfb_scroll_up x y w h dy rgb t)"
    using ok assms scroll_up_pix [OF ok assms(2-7)] lfb_scroll_up_screen [OF assms(2,3) ok assms(6,7)]
    by (auto simp: painted_def)
  then show ?thesis using assms(1) painted_trans by blast
qed

section \<open>Saving and restoring a rectangle\<close>

lemma for_int_cong: "(\<And>i t. 0 \<le> i \<Longrightarrow> i < n \<Longrightarrow> f i t = g i t) \<Longrightarrow> for_int n f s = for_int n g s"
  unfolding for_int_def by (rule fold_cong) auto

lemma for_int_add: "0 \<le> a \<Longrightarrow> 0 \<le> b \<Longrightarrow> for_int (a + b) f s = for_int b (\<lambda>i. f (a + i)) (for_int a f s)"
proof -
  assume ab: "0 \<le> a" "0 \<le> b"
  have "for_int (a + int n) f s = for_int (int n) (\<lambda>i. f (a + i)) (for_int a f s)" for n
  proof (induction n)
    case (Suc n)
    then show ?case using ab for_int_Suc [of "a + int n" f s] for_int_Suc [of "int n" "\<lambda>i. f (a + i)" "for_int a f s"]
      by (simp add: ac_simps)
  qed simp
  from this [of "nat b"] show ?thesis using ab by simp
qed

text \<open>A nested loop over \<open>h\<close> rows of \<open>w\<close> columns as one loop over the cells.\<close>

lemma for_int_nested:
  assumes "0 < w" "0 \<le> h"
  shows "for_int h (\<lambda>j. for_int w (g j)) s = for_int (h * w) (\<lambda>k. g (k div w) (k mod w)) s"
proof -
  have "for_int (int n) (\<lambda>j. for_int w (g j)) s = for_int (int n * w) (\<lambda>k. g (k div w) (k mod w)) s" for n
  proof (induction n)
    case (Suc n)
    have len: "int (Suc n) * w = int n * w + w" by (simp add: distrib_right)
    have "for_int (int (Suc n) * w) (\<lambda>k. g (k div w) (k mod w)) s =
        for_int w (\<lambda>i. g ((int n * w + i) div w) ((int n * w + i) mod w)) (for_int (int n * w) (\<lambda>k. g (k div w) (k mod w)) s)"
      unfolding len using assms(1) by (intro for_int_add) simp_all
    also have "\<dots> = for_int w (g (int n)) (for_int (int n * w) (\<lambda>k. g (k div w) (k mod w)) s)"
      by (rule for_int_cong) (simp add: div_pos_pos_trivial)
    finally show ?case using Suc for_int_Suc [of "int n" "\<lambda>j. for_int w (g j)" s] by (simp add: add.commute)
  qed simp
  from this [of "nat h"] show ?thesis using assms(2) by simp
qed

definition blit_at :: "lfb \<Rightarrow> int \<Rightarrow> int \<Rightarrow> int \<Rightarrow> int \<Rightarrow> int" where
  "blit_at s x y w k = (y + k div w) * pitch_px s + (x + k mod w)"

definition blit_on :: "lfb \<Rightarrow> int \<Rightarrow> int \<Rightarrow> int \<Rightarrow> int \<Rightarrow> bool" where
  "blit_on s x y w k \<longleftrightarrow> uless (x + k mod w) (fbW s) \<and> uless (y + k div w) (fbH s)"

lemma blit_get_cells:
  assumes "0 < w" "0 \<le> h" "length buf = nat (h * w)"
  shows "\<forall>k. 0 \<le> k \<and> k < h * w \<longrightarrow>
    lfb_blit_get x y w h s buf ! nat k = (if blit_on s x y w k then fb_pix s (blit_at s x y w k) else 0)"
proof -
  have "\<forall>k. 0 \<le> k \<and> k < n \<longrightarrow> for_int n (\<lambda>k buf. buf[nat k := v k]) buf ! nat k = v k"
    if "0 \<le> n" "n \<le> h * w" for n and v :: "int \<Rightarrow> u32"
  proof -
    have "length (for_int n (\<lambda>k buf. buf[nat k := v k]) buf) = length buf \<and>
        (\<forall>k. 0 \<le> k \<and> k < n \<longrightarrow> for_int n (\<lambda>k buf. buf[nat k := v k]) buf ! nat k = v k)"
      by (rule for_int_induct [where P = "\<lambda>n b. length b = length buf \<and> (\<forall>k. 0 \<le> k \<and> k < n \<longrightarrow> b ! nat k = v k)"])
        (use that assms in \<open>auto simp: nth_list_update eq_nat_nat_iff\<close>)
    then show ?thesis by blast
  qed
  moreover have "lfb_blit_get x y w h s buf =
      for_int (h * w) (\<lambda>k buf. buf[nat k := (if blit_on s x y w k then fb_pix s (blit_at s x y w k) else 0)]) buf"
    unfolding lfb_blit_get_def Let_def blit_on_def blit_at_def by (subst for_int_nested [OF assms(1,2)]) simp
  ultimately show ?thesis using assms(1,2) by simp
qed

lemma blit_put_pixels:
  assumes "0 < w" "0 \<le> h" "same_screen s t"
    and "\<And>k. 0 \<le> k \<Longrightarrow> k < h * w \<Longrightarrow> blit_on s x y w k \<Longrightarrow> buf ! nat k = fb_pix s (blit_at s x y w k)"
  shows "same_screen s (lfb_blit_put x y w h buf t) \<and>
    fb_pix (lfb_blit_put x y w h buf t) q =
      (if \<exists>k. 0 \<le> k \<and> k < h * w \<and> blit_on s x y w k \<and> blit_at s x y w k = q then fb_pix s q else fb_pix t q)"
proof -
  define step where "step = (\<lambda>k u. if blit_on s x y w k then put_pix (blit_at s x y w k) (buf ! nat k) u else u)"
  have loop: "lfb_blit_put x y w h buf t = for_int (h * w) (\<lambda>k u. if uless (x + k mod w) (fbW u) \<and> uless (y + k div w) (fbH u)
      then put_pix ((y + k div w) * pitch_px u + (x + k mod w)) (buf ! nat (k div w * w + k mod w)) u else u) t"
    unfolding lfb_blit_put_def Let_def using assms(1,2) by (rule for_int_nested)
  define body where "body = (\<lambda>k u. if uless (x + k mod w) (fbW u) \<and> uless (y + k div w) (fbH u)
      then put_pix ((y + k div w) * pitch_px u + (x + k mod w)) (buf ! nat (k div w * w + k mod w)) u else u)"
  have body: "body k u = step k u" if "same_screen s u" for k u
    using same_screen_fields [OF that] by (simp add: body_def step_def blit_on_def blit_at_def)
  have "same_screen s (for_int (h * w) body t) \<and> fb_pix (for_int (h * w) body t) q =
      (if \<exists>k. 0 \<le> k \<and> k < h * w \<and> blit_on s x y w k \<and> blit_at s x y w k = q then fb_pix s q else fb_pix t q)"
  proof (rule for_int_induct [where P = "\<lambda>n u. same_screen s u \<and> fb_pix u q =
      (if \<exists>k. 0 \<le> k \<and> k < n \<and> blit_on s x y w k \<and> blit_at s x y w k = q then fb_pix s q else fb_pix t q)"])
    fix i u
    assume i: "0 \<le> i" "i < h * w" and u: "same_screen s u \<and> fb_pix u q =
      (if \<exists>k. 0 \<le> k \<and> k < i \<and> blit_on s x y w k \<and> blit_at s x y w k = q then fb_pix s q else fb_pix t q)"
    have lt: "k < i + 1 \<longleftrightarrow> k < i \<or> k = i" for k :: int by auto
    have ex: "(\<exists>k. 0 \<le> k \<and> k < i + 1 \<and> blit_on s x y w k \<and> blit_at s x y w k = q) \<longleftrightarrow>
        (\<exists>k. 0 \<le> k \<and> k < i \<and> blit_on s x y w k \<and> blit_at s x y w k = q) \<or> (blit_on s x y w i \<and> blit_at s x y w i = q)"
      using i(1) lt by blast
    have "same_screen s (step i u)" using u same_screen_trans [OF _ same_screen_put] by (auto simp: step_def)
    then show "same_screen s (body i u) \<and> fb_pix (body i u) q =
      (if \<exists>k. 0 \<le> k \<and> k < i + 1 \<and> blit_on s x y w k \<and> blit_at s x y w k = q then fb_pix s q else fb_pix t q)"
      unfolding ex using u assms(4) [OF i] body [of u i] by (auto simp: step_def fb_pix_put)
  qed (use assms in auto)
  then show ?thesis unfolding loop body_def [symmetric] .
qed

lemma blit_put_get:
  assumes "fb_ok s" "- 2147483648 \<le> x" "- 2147483648 \<le> y" "0 < w" "0 \<le> h" "length buf = nat (h * w)"
    and "same_screen s t" "\<forall>k. \<not> (vis s k \<and> in_rect s x y w h k) \<longrightarrow> fb_pix t k = fb_pix s k"
  shows "lfb_blit_put x y w h (lfb_blit_get x y w h s buf) t = s"
proof (rule lfb_eqI)
  let ?b = "lfb_blit_get x y w h s buf"
  note put = blit_put_pixels [OF assms(4,5,7), of x y ?b]
  have b: "?b ! nat k = fb_pix s (blit_at s x y w k)" if "0 \<le> k" "k < h * w" "blit_on s x y w k" for k
    using blit_get_cells [OF assms(4-6), of x y s] that by simp
  show "same_screen s (lfb_blit_put x y w h ?b t)" using put b by blast
  fix q
  let ?p = "pitch_px s"
  have "\<exists>k. 0 \<le> k \<and> k < h * w \<and> blit_on s x y w k \<and> blit_at s x y w k = q" if q: "vis s q" "in_rect s x y w h q"
  proof -
    define i where "i = q mod ?p - x"
    define j where "j = q div ?p - y"
    have m: "0 \<le> q mod ?p" using assms(1) by (simp add: fb_ok_def)
    have ij: "0 \<le> i" "i < w" "0 \<le> j" "j < h" using q(2) by (auto simp: in_rect_def i_def j_def)
    then have d: "(j * w + i) div w = j" "(j * w + i) mod w = i" by (simp_all add: div_pos_pos_trivial)
    have "j * w + i < h * w" using mult_right_mono [of "j + 1" h w] ij by (simp add: distrib_right)
    moreover have "0 \<le> j * w" using ij assms(4) by simp
    moreover have "blit_on s x y w (j * w + i)"
      unfolding blit_on_def d using q(1) assms(1-3) m
      by (auto simp: i_def j_def uless_def unsigned_int_def vis_def fb_ok_def)
    moreover have "blit_at s x y w (j * w + i) = q" unfolding blit_at_def d by (simp add: i_def j_def)
    ultimately show ?thesis using ij(1) by (intro exI [of _ "j * w + i"]) simp
  qed
  then show "fb_pix (lfb_blit_put x y w h ?b t) q = fb_pix s q"
    using put [of q] b assms(8) by (cases "vis s q \<and> in_rect s x y w h q") (auto split: if_splits)
qed

text \<open>
  C29: Restoring a saved rectangle undoes whatever was drawn inside it: the whole framebuffer is
  as it was when the rectangle was saved, also where it hangs over the edge of the screen.
\<close>

theorem lfb_blit_restores:
  assumes "fb_ok s" "- 2147483648 \<le> x" "- 2147483648 \<le> y" "0 < w" "0 \<le> h" "length buf = nat (h * w)"
    and "same_screen s t" "\<forall>k. \<not> (vis s k \<and> in_rect s x y w h k) \<longrightarrow> fb_pix t k = fb_pix s k"
  shows "lfb_blit_put x y w h (lfb_blit_get x y w h s buf) t = s"
  using assms by (rule blit_put_get)

theorem lfb_blit_restores_witness:
  "lfb_blit_put 630 (- 3) 12 19 (lfb_blit_get 630 (- 3) 12 19 screen (replicate 228 0)) (put_pix (2 * 704 + 635) 9 screen) = screen"
proof (rule lfb_blit_restores)
  show "\<forall>k. \<not> (vis screen k \<and> in_rect screen 630 (- 3) 12 19 k) \<longrightarrow> fb_pix (put_pix (2 * 704 + 635) 9 screen) k = fb_pix screen k"
    by (simp add: fb_pix_put) (simp add: screen_def vis_def in_rect_def)
qed (simp_all add: screen_ok)

section \<open>Clearing\<close>

text \<open>
  \<open>lfb_clear\<close> runs over the first \<open>W * H\<close> pixels of the memory without regard to the pitch. On
  a framebuffer with longer rows the last rows of the screen keep their old contents.
\<close>

lemma lfb_clear_pix: "fb_pix (lfb_clear rgb s) k = (if 0 \<le> k \<and> k < fbW s * fbH s then rgb else fb_pix s k)"
  using fill_row [of "fbW s * fbH s" 0 rgb s k] by (simp add: lfb_clear_def)

lemma lfb_clear_misses:
  assumes "fb_ok s" "1 < fbH s" "fbW s < pitch_px s"
  shows "vis s ((fbH s - 1) * pitch_px s + (fbW s - 1)) \<and>
    fb_pix (lfb_clear rgb s) ((fbH s - 1) * pitch_px s + (fbW s - 1)) = fb_pix s ((fbH s - 1) * pitch_px s + (fbW s - 1))"
proof -
  have "vis s ((fbH s - 1) * pitch_px s + (fbW s - 1))" using vis_xy(1) [OF assms(1), of "fbW s - 1" "fbH s - 1"] assms by (simp add: fb_ok_def)
  moreover have "fbW s * fbH s \<le> (fbH s - 1) * pitch_px s + (fbW s - 1)"
    using mult_right_mono [of 1 "fbH s - 1" "pitch_px s - fbW s"] assms(2,3) by (simp add: algebra_simps)
  ultimately show ?thesis by (simp add: lfb_clear_pix)
qed

end
