(* ===== verification/Lfb_Init.thy ===== *)
theory Lfb_Init
  imports Lfb_Regions Vmm Pmm Kprintf "HOL-Library.Monad_Syntax"
begin

text \<open>
  Finding and mapping a framebuffer (\<open>kernel/drivers/lfb.c\<close>): the PCI scan, the Bochs VBE
  registers, the framebuffer the boot loader reports, and the choice between them. The main
  lemma says that an accepted boot loader framebuffer is sound and mapped wherever the screen is.
\<close>

section \<open>PCI and VBE\<close>

definition pci_cfg_read :: "devices \<Rightarrow> u8 \<Rightarrow> u8 \<Rightarrow> u8 \<Rightarrow> u8 \<Rightarrow> io \<Rightarrow> u32 \<times> io" where
  "pci_cfg_read dev bus slot func off tr =
     (let addr = 0x80000000 OR push_bit 16 (ucast bus) OR push_bit 11 (ucast slot) OR push_bit 8 (ucast func) OR
                 ucast (off AND 0xFC)
      in inl dev 0xCFC (outl 0xCF8 addr tr))"

fun find_vga_loop :: "devices \<Rightarrow> nat list \<Rightarrow> io \<Rightarrow> u32 \<times> io" where
  "find_vga_loop dev [] tr = (0xFD000000, tr)"
| "find_vga_loop dev (slot # slots) tr =
     (let (id, tr) = pci_cfg_read dev 0 (word_of_nat slot) 0 0x00 tr
      in if id = 0xFFFFFFFF then find_vga_loop dev slots tr
         else let (cls, tr) = pci_cfg_read dev 0 (word_of_nat slot) 0 0x08 tr
              in if drop_bit 24 cls = 0x03
                 then let (bar0, tr) = pci_cfg_read dev 0 (word_of_nat slot) 0 0x10 tr
                      in if bar0 AND 1 = 0 then (bar0 AND 0xFFFFFFF0, tr) else find_vga_loop dev slots tr
                 else find_vga_loop dev slots tr)"

definition pci_find_vga_lfb :: "devices \<Rightarrow> io \<Rightarrow> u32 \<times> io" where
  "pci_find_vga_lfb dev tr = find_vga_loop dev [0..<32] tr"

definition VBE_INDEX :: u16 where "VBE_INDEX = 0x01CE"
definition VBE_DATA :: u16 where "VBE_DATA = 0x01CF"
definition DISPI_XRES :: u16 where "DISPI_XRES = 1"
definition DISPI_YRES :: u16 where "DISPI_YRES = 2"
definition DISPI_BPP :: u16 where "DISPI_BPP = 3"
definition DISPI_ENABLE :: u16 where "DISPI_ENABLE = 4"
definition DISPI_ENABLED :: u16 where "DISPI_ENABLED = 0x01"
definition DISPI_LFB :: u16 where "DISPI_LFB = 0x40"

definition dispi_write :: "u16 \<Rightarrow> u16 \<Rightarrow> io \<Rightarrow> io" where
  "dispi_write idx val tr = outw VBE_DATA val (outw VBE_INDEX idx tr)"

section \<open>Initialisation\<close>

text \<open>\<open>fbp\<close>, \<open>W\<close>, \<open>H\<close>, \<open>pitch_px\<close> and \<open>active\<close> are set, then the screen is cleared.\<close>

definition lfb_set :: "u32 \<Rightarrow> int \<Rightarrow> int \<Rightarrow> int \<Rightarrow> lfb \<Rightarrow> lfb" where
  "lfb_set addr w h pitch s = lfb_clear 0 (s\<lparr>fbp := addr, fbW := w, fbH := h, pitch_px := pitch, fb_active := True\<rparr>)"

definition lfb_init :: "vmm_layout \<Rightarrow> devices \<Rightarrow> int \<Rightarrow> int \<Rightarrow> lfb \<times> vmm \<times> io \<Rightarrow> bool \<times> lfb \<times> vmm \<times> io" where
  "lfb_init L dev w h st =
     (let (s, vm, tr) = st;
          (a, tr) = pci_find_vga_lfb dev tr
      in if a = 0 then (False, s, vm, tr)
         else let (ok, vm) = vmm_map_lfb L a (word_of_int w * word_of_int h * 4 + 0x1000) vm
              in if \<not> ok then (False, s, vm, tr)
                 else let tr = dispi_write DISPI_ENABLE 0 tr;
                          tr = dispi_write DISPI_XRES (word_of_int w) tr;
                          tr = dispi_write DISPI_YRES (word_of_int h) tr;
                          tr = dispi_write DISPI_BPP 32 tr;
                          tr = dispi_write DISPI_ENABLE (DISPI_ENABLED OR DISPI_LFB) tr
                      in (True, lfb_set a w h w s, vm, tr))"

definition lfb_init_fb :: "vmm_layout \<Rightarrow> u32 \<Rightarrow> u32 \<Rightarrow> u32 \<Rightarrow> u32 \<Rightarrow> u32 \<Rightarrow> lfb \<times> vmm \<Rightarrow> bool \<times> lfb \<times> vmm" where
  "lfb_init_fb L addr pitch_bytes w h bpp st =
     (let (s, vm) = st
      in if addr = 0 \<or> bpp \<noteq> 32 \<or> w = 0 \<or> h = 0 \<or> pitch_bytes < w * 4 then (False, s, vm)
         else let cap = vmm_lfb_capacity;
                  need = pitch_bytes * h + 0x1000;
                  h = (if need > cap then (cap - 0x1000) div pitch_bytes else h)
              in if h = 0 then (False, s, vm)
                 else let (ok, vm) = vmm_map_lfb L addr (pitch_bytes * h + 0x1000) vm
                      in if \<not> ok then (False, s, vm)
                         else (True, lfb_set addr (sint w) (sint h) (sint (pitch_bytes div 4)) s, vm))"

definition MB_FLAG_FB :: u32 where "MB_FLAG_FB = 0x1000"
definition MB_FB_TYPE_RGB :: u8 where "MB_FB_TYPE_RGB = 1"

text \<open>The framebuffer fields of the Multiboot information at \<open>a\<close>.\<close>

record mb_fb =
  mb_fb_addr :: u64
  mb_fb_pitch :: u32
  mb_fb_width :: u32
  mb_fb_height :: u32
  mb_fb_bpp :: u8
  mb_fb_type :: u8

definition read_mb_fb :: "mem \<Rightarrow> u32 \<Rightarrow> mb_fb" where
  "read_mb_fb m a = \<lparr>mb_fb_addr = rd64 m (a + 88), mb_fb_pitch = rd32 m (a + 96), mb_fb_width = rd32 m (a + 100),
     mb_fb_height = rd32 m (a + 104), mb_fb_bpp = m (a + 108), mb_fb_type = m (a + 109)\<rparr>"

definition lfb_init_auto :: "vmm_layout \<Rightarrow> devices \<Rightarrow> u32 \<Rightarrow> lfb \<times> vmm \<times> io \<times> console \<Rightarrow>
    (bool \<times> lfb \<times> vmm \<times> io \<times> console) option" where
  "lfb_init_auto L dev mb_info_addr st = do {
     let (s, vm, tr, c) = st;
     let mbi = read_mbi (vm_mem vm) mb_info_addr;
     let fb = read_mb_fb (vm_mem vm) mb_info_addr;
     let vbe = (\<lambda>s vm tr c. do {
        c \<leftarrow> kprintf (''  [lfb] no Multiboot framebuffer; using Bochs/QEMU VBE (1024x768x32)'' @ NL) [] c;
        let (ok, s, vm, tr) = lfb_init L dev 1024 768 (s, vm, tr);
        Some (ok, s, vm, tr, c)
      });
     if mb_info_addr \<noteq> 0 \<and> mbi_flags mbi AND MB_FLAG_FB \<noteq> 0 \<and> mb_fb_type fb = MB_FB_TYPE_RGB then do {
       c \<leftarrow> kprintf (''  [lfb] bootloader framebuffer %ux%u x%ubpp pitch=%u @0x%x type=%u'' @ NL)
         [KNum (mb_fb_width fb), KNum (mb_fb_height fb), KNum (ucast (mb_fb_bpp fb)), KNum (mb_fb_pitch fb),
          KNum (ucast (mb_fb_addr fb)), KNum (ucast (mb_fb_type fb))] c;
       let (ok, s, vm) = lfb_init_fb L (ucast (mb_fb_addr fb)) (mb_fb_pitch fb) (mb_fb_width fb) (mb_fb_height fb)
                           (ucast (mb_fb_bpp fb)) (s, vm);
       if ok then Some (True, s, vm, tr, c)
       else do {
         c \<leftarrow> kprintf (''  [lfb] that framebuffer is unusable here (need 32bpp RGB); trying VBE'' @ NL) [] c;
         vbe s vm tr c
       }
     } else vbe s vm tr c
   }"

section \<open>An accepted framebuffer\<close>

lemma sint_small: "unat (x :: u32) < 2147483648 \<Longrightarrow> sint x = int (unat x)"
proof -
  assume "unat x < 2147483648"
  then have "uint x < 2147483648" by (metis of_nat_less_iff of_nat_numeral uint_nat)
  moreover have "0 \<le> uint x" by simp
  ultimately have "signed_take_bit 31 (uint x) = uint x" by (intro signed_take_bit_int_eq_self; linarith?) (simp_all add: order_trans [of _ 0])
  then show ?thesis by (simp add: sint_uint)
qed

lemma unat_mult_u32: "unat (x :: u32) * unat y < 4294967296 \<Longrightarrow> unat (x * y) = unat x * unat y"
  by (simp add: unat_word_ariths)

lemma lfb_set_fields:
  "fbp (lfb_set a w h p s) = a" "fbW (lfb_set a w h p s) = w" "fbH (lfb_set a w h p s) = h"
  "pitch_px (lfb_set a w h p s) = p" "fb_active (lfb_set a w h p s)"
proof -
  have "same_screen t (lfb_clear 0 t)" for t using fill_row [of "fbW t * fbH t" 0 0 t] by (simp add: lfb_clear_def)
  from same_screen_fields [OF this] show "fbp (lfb_set a w h p s) = a" "fbW (lfb_set a w h p s) = w" "fbH (lfb_set a w h p s) = h"
    "pitch_px (lfb_set a w h p s) = p" "fb_active (lfb_set a w h p s)" by (auto simp: lfb_set_def)
qed

text \<open>The height that is used, and what it is good for.\<close>

definition fb_height :: "u32 \<Rightarrow> u32 \<Rightarrow> u32" where
  "fb_height pitch h = (if pitch * h + 0x1000 > vmm_lfb_capacity then (vmm_lfb_capacity - 0x1000) div pitch else h)"

lemma fb_height_fits:
  assumes "unat pitch * unat h + 4096 < 4294967296" "pitch \<noteq> 0"
  shows "unat pitch * unat (fb_height pitch h) + 4096 \<le> 33554432" "unat (fb_height pitch h) \<le> unat h"
proof -
  have cap: "unat vmm_lfb_capacity = 33554432" by (simp add: vmm_lfb_capacity_def VMM_LFB_NPTS_def)
  have "unat (pitch * h) = unat pitch * unat h" using assms(1) by (intro unat_mult_u32) simp
  then have need: "unat (pitch * h + 0x1000) = unat pitch * unat h + 4096" using assms(1) by (simp add: unat_add_u32)
  have d: "unat ((vmm_lfb_capacity - 0x1000) div pitch) = 33550336 div unat pitch"
    by (simp add: unat_div vmm_lfb_capacity_def VMM_LFB_NPTS_def)
  have p: "0 < unat pitch" using assms(2) by (simp add: unat_gt_0)
  have m: "unat pitch * (33550336 div unat pitch) \<le> 33550336" by simp
  have "33550336 div unat pitch \<le> unat h" if "33554432 < unat pitch * unat h + 4096"
    using that p by (intro less_imp_le) (simp add: div_less_iff_less_mult mult.commute)
  then show "unat pitch * unat (fb_height pitch h) + 4096 \<le> 33554432" "unat (fb_height pitch h) \<le> unat h"
    using need cap d m unfolding fb_height_def by (auto simp: word_less_nat_alt)
qed

lemma lfb_init_fb_ok:
  assumes "lfb_init_fb L addr pitch w h bpp (s, vm) = (True, s', vm')"
  shows "pitch \<noteq> 0 \<or> w * 4 = 0" "w \<noteq> 0" "w * 4 \<le> pitch" "fb_height pitch h \<noteq> 0"
    "vmm_map_lfb L addr (pitch * fb_height pitch h + 0x1000) vm = (True, vm')"
    "s' = lfb_set addr (sint w) (sint (fb_height pitch h)) (sint (pitch div 4)) s"
  using assms unfolding lfb_init_fb_def Let_def fb_height_def [symmetric]
  by (auto split: if_splits prod.splits simp: not_less)

text \<open>
  C30: Suppose the boot loader's framebuffer starts on a 4 MiB boundary and its size, like its
  row length, does not overflow 32 bits. If it is accepted, the screen is sound and every byte of
  every visible pixel is mapped to itself, so no drawing operation can fault.
\<close>

theorem lfb_init_fb_maps_screen:
  assumes "layout_ok L" "unat addr mod 4194304 = 0" "unat addr + 33554432 \<le> 4294967296"
    and "unat pitch * unat h + 4096 < 4294967296" "unat w < 1073741824" "unat h < 2147483648"
    and "lfb_init_fb L addr pitch w h bpp (s, vmm_init L vm) = (True, s', vm')"
  shows "fb_ok s' \<and> fbp s' = addr \<and> fbH s' \<le> int (unat h) \<and>
    (\<forall>k b. vis s' k \<longrightarrow> 0 \<le> b \<and> b < 4 \<longrightarrow>
       walk (page_dir L) (addr + word_of_int (4 * k + b)) (vm_mem vm') = Some (addr + word_of_int (4 * k + b)))"
proof -
  let ?h = "fb_height pitch h"
  note r = lfb_init_fb_ok [OF assms(7)]
  have w: "unat (w * 4) = unat w * 4" "0 < unat w" using assms(5) r(2) unat_mult_u32 [of w 4] by (simp_all add: unat_gt_0)
  have pw: "unat w * 4 \<le> unat pitch" using r(3) w(1) by (simp add: word_le_nat_alt)
  then have p0: "pitch \<noteq> 0" using w(2) by auto
  note hf = fb_height_fits [OF assms(4) p0]
  have h0: "0 < unat ?h" using r(4) by (simp add: unat_gt_0)
  have pb: "unat pitch * 1 \<le> unat pitch * unat ?h" using h0 by (intro mult_le_mono) auto
  have geo: "fbW s' = int (unat w)" "fbH s' = int (unat ?h)" "pitch_px s' = int (unat pitch div 4)" "fbp s' = addr"
    using r(6) lfb_set_fields [of addr "sint w" "sint ?h" "sint (pitch div 4)" s] assms(5,6) hf pb
    by (auto simp: sint_small unat_div)
  have ok: "fb_ok s'" unfolding fb_ok_def geo using w(2) pw h0 hf(1,2) assms(5,6) by linarith
  have sz: "unat (pitch * ?h + 0x1000) = unat pitch * unat ?h + 4096"
    using hf(1) unat_mult_u32 [of pitch ?h] by (simp add: unat_add_u32)
  obtain s2 where s2: "vmm_map_lfb L addr (pitch * ?h + 0x1000) (vmm_init L vm) = (True, s2)"
    "\<forall>va. unat addr \<le> unat va \<longrightarrow> unat va < unat addr + unat (pitch * ?h + 0x1000) \<longrightarrow>
        unat va < unat addr div 4194304 * 4194304 + unat vmm_lfb_capacity \<longrightarrow> walk (page_dir L) va (vm_mem s2) = Some va"
    using lfb_window_identity [OF assms(1), of "pitch * ?h + 0x1000" addr vm] assms(2) sz hf(1) by (auto simp: word_unat_eq_iff)
  have base: "unat addr div 4194304 * 4194304 = unat addr" using assms(2) by (metis add.right_neutral div_mult_mod_eq)
  have cap: "unat vmm_lfb_capacity = 33554432" by (simp add: vmm_lfb_capacity_def VMM_LFB_NPTS_def)
  have "walk (page_dir L) (addr + word_of_int (4 * k + b)) (vm_mem vm') = Some (addr + word_of_int (4 * k + b))"
    if k: "vis s' k" "0 \<le> b" "b < 4" for k b
  proof -
    have p4: "0 < unat pitch div 4" using pw w(2) by linarith
    have "0 \<le> k" using k(1) p4 by (simp add: vis_def geo pos_imp_zdiv_nonneg_iff)
    moreover have "k < int (unat pitch div 4) * int (unat ?h)"
    proof -
      let ?p = "int (unat pitch div 4)"
      have "k div ?p + 1 \<le> int (unat ?h)" using k(1) by (simp add: vis_def geo)
      then have "?p * (k div ?p + 1) \<le> ?p * int (unat ?h)" by (intro mult_left_mono) auto
      moreover have "k < ?p * (k div ?p + 1)"
      proof -
        have "0 < ?p" using p4 by simp
        then have "k mod ?p < ?p" by (rule pos_mod_bound)
        then show ?thesis using mult_div_mod_eq [of ?p k] unfolding distrib_left by linarith
      qed
      ultimately show ?thesis by linarith
    qed
    ultimately have "4 * k + b < 4 * (int (unat pitch div 4) * int (unat ?h))" "0 \<le> 4 * k + b" using k by auto
    moreover have "4 * (unat pitch div 4 * unat ?h) \<le> unat pitch * unat ?h"
      by (metis mult.assoc mult_le_mono1 mult.commute div_times_less_eq_dividend)
    then have "4 * (int (unat pitch div 4) * int (unat ?h)) \<le> int (unat pitch * unat ?h)"
      by (metis of_nat_le_iff of_nat_mult of_nat_numeral)
    ultimately have n: "nat (4 * k + b) < unat pitch * unat ?h" "0 \<le> 4 * k + b" by linarith+
    have "(word_of_int (4 * k + b) :: u32) = word_of_nat (nat (4 * k + b))" using n(2) by (simp add: word_of_nat_eq_iff of_nat_nat)
    then have va: "unat (addr + word_of_int (4 * k + b)) = unat addr + nat (4 * k + b)"
      using n(1) hf(1) assms(3) by (simp add: unat_add_u32 unat_of_nat_u32)
    show ?thesis using s2(2) [rule_format, of "addr + word_of_int (4 * k + b)"] va n(1) hf(1) sz base cap r(5) s2(1) by simp
  qed
  moreover have "fbH s' \<le> int (unat h)" unfolding geo using hf(2) by linarith
  ultimately show ?thesis using ok geo(4) by blast
qed

theorem lfb_init_fb_maps_screen_witness:
  "\<exists>s' vm'. lfb_init_fb demo_layout 0xE0000000 4096 1000 768 32 (screen, vmm_init demo_layout demo_vmm) = (True, s', vm') \<and>
     walk (page_dir demo_layout) (0xE0000000 + word_of_int (4 * 5000)) (vm_mem vm') = Some (0xE0000000 + word_of_int (4 * 5000))"
proof -
  obtain vm' where vm: "vmm_map_lfb demo_layout 0xE0000000 0x301000 (vmm_init demo_layout demo_vmm) = (True, vm')"
    using lfb_window_identity [OF demo_layout_ok, of "0x301000" "0xE0000000" demo_vmm] by auto
  define s' where "s' = lfb_set 0xE0000000 1000 768 1024 screen"
  have sd: "sint (1000 :: u32) = 1000" "sint (768 :: u32) = 768" "sint (1024 :: u32) = 1024" by simp_all
  have r: "lfb_init_fb demo_layout 0xE0000000 4096 1000 768 32 (screen, vmm_init demo_layout demo_vmm) = (True, s', vm')"
    by (simp add: lfb_init_fb_def Let_def vmm_lfb_capacity_def VMM_LFB_NPTS_def vm s'_def sd)
  have "vis s' 5000" by (simp add: s'_def vis_def lfb_set_fields)
  moreover have "\<forall>k b. vis s' k \<longrightarrow> 0 \<le> b \<and> b < 4 \<longrightarrow> walk (page_dir demo_layout) (0xE0000000 + word_of_int (4 * k + b)) (vm_mem vm') =
      Some (0xE0000000 + word_of_int (4 * k + b))"
    using lfb_init_fb_maps_screen [OF demo_layout_ok _ _ _ _ _ r] by simp
  from this [rule_format, of 5000 0] show ?thesis using r calculation by auto
qed

text \<open>
  The alignment matters: a framebuffer of 31 MiB that starts 3 MiB above a 4 MiB boundary is
  accepted whole, but its last pixels lie beyond the eight tables of the window.
\<close>

lemma lfb_init_fb_unaligned:
  "\<exists>s' vm'. lfb_init_fb demo_layout 0xE0300000 8192 2048 3968 32 (screen, vmm_init demo_layout demo_vmm) = (True, s', vm') \<and>
     vis s' (3967 * 2048 + 2047) \<and>
     walk (page_dir demo_layout) (0xE0300000 + word_of_int (4 * (3967 * 2048 + 2047))) (vm_mem vm') = None"
proof -
  let ?va = "0xE0300000 + word_of_int (4 * (3967 * 2048 + 2047)) :: u32"
  note init = vmm_init_walk [OF demo_layout_ok, where s = demo_vmm]
  define k where "k = lfb_tables 0xE0300000 0x1F01000"
  have k: "k = 8" by (simp add: k_def lfb_tables_def window_tables_needed_def window_base_def FOURMB_def unat_div)
  obtain vm' where vm: "vmm_map_lfb demo_layout 0xE0300000 0x1F01000 (vmm_init demo_layout demo_vmm) = (True, vm')"
    "vm_mem vm' = window_map (page_dir demo_layout) (lfb_tabs demo_layout) (window_base 0xE0300000) (PTE_RW OR PTE_PRESENT) k
      (vm_mem (vmm_init demo_layout demo_vmm))"
    using vmm_map_lfb_eq [OF init(1), of demo_layout "0xE0300000" "0x1F01000"]
    by (auto simp: k_def window_tables_needed_def window_base_def FOURMB_def)
  define s' where "s' = lfb_set 0xE0300000 2048 3968 2048 screen"
  have r: "lfb_init_fb demo_layout 0xE0300000 8192 2048 3968 32 (screen, vmm_init demo_layout demo_vmm) = (True, s', vm')"
    by (simp add: lfb_init_fb_def Let_def vmm_lfb_capacity_def VMM_LFB_NPTS_def vm(1) s'_def)
  have "t < 8 \<Longrightarrow> t \<in> {0, 1, 2, 3, 4, 5, 6, 7}" for t :: nat by auto
  then have "\<not> in_window (window_base 0xE0300000) k ?va"
    by (fastforce simp: k in_window_def window_base_def FOURMB_def vmm_pde_index_def)
  then have "walk (page_dir demo_layout) ?va (vm_mem vm') = walk (page_dir demo_layout) ?va (vm_mem (vmm_init demo_layout demo_vmm))"
    using lfb_walk(1) [OF demo_layout_ok, of k] init(3) k vm(2) by simp
  moreover have "vis s' (3967 * 2048 + 2047)" by (simp add: s'_def vis_def lfb_set_fields)
  ultimately show ?thesis using r init(2) by auto
qed

end
