(* ===== verification/Gconsole.thy ===== *)
theory Gconsole
  imports Lfb_Regions Terminal
begin

text \<open>
  The graphical text console (\<open>kernel/gui/gconsole.c\<close>): characters drawn as scaled glyphs in a
  grid of cells on the framebuffer, with an underline cursor, wrapping and scrolling. The lemmas
  show that it displays the abstract terminal's document pixel by pixel, that its cursor stays in
  the grid, and that it draws nowhere but in its rectangle.
\<close>

section \<open>The console (gconsole.c)\<close>

record gcon =
  gcon_active :: bool
  ox :: int
  oy :: int
  cols :: int
  rows :: int
  scale :: int
  cw :: int
  ch :: int
  cx :: int
  cy :: int
  fg :: u32
  bg :: u32

definition accent :: u32 where "accent = 0x6cc7ff"

text \<open>The state before \<open>gcon_init\<close>: the static initialisers.\<close>

definition gcon_static :: gcon where
  "gcon_static = \<lparr>gcon_active = False, ox = 0, oy = 0, cols = 0, rows = 0, scale = 0, cw = 0, ch = 0,
     cx = 0, cy = 0, fg = 0x9defb0, bg = 0x0b0e14\<rparr>"

type_synonym gscreen = "gcon \<times> lfb"

definition cursor_draw :: "gscreen \<Rightarrow> gscreen" where
  "cursor_draw = (\<lambda>(g, s). (g, lfb_fill (ox g + cx g * cw g) (oy g + cy g * ch g + ch g - 2 * scale g) (cw g) (2 * scale g) accent s))"

definition cursor_erase :: "gscreen \<Rightarrow> gscreen" where
  "cursor_erase = (\<lambda>(g, s). (g, lfb_fill (ox g + cx g * cw g) (oy g + cy g * ch g + ch g - 2 * scale g) (cw g) (2 * scale g) (bg g) s))"

definition gcon_init :: "int \<Rightarrow> int \<Rightarrow> int \<Rightarrow> int \<Rightarrow> int \<Rightarrow> u32 \<Rightarrow> u32 \<Rightarrow> gscreen \<Rightarrow> gscreen" where
  "gcon_init x y c r s f b = (\<lambda>(g, t).
     let g = g\<lparr>ox := x, oy := y, cols := c, rows := r, scale := s\<rparr>;
         g = g\<lparr>cw := 8 * s, ch := 16 * s\<rparr>;
         g = g\<lparr>cx := 0, cy := 0, fg := f, bg := b\<rparr>;
         t = lfb_fill (ox g) (oy g) (cols g * cw g) (rows g * ch g) (bg g) t;
         g = g\<lparr>gcon_active := True\<rparr>
     in cursor_draw (g, t))"

definition gcon_set_active :: "bool \<Rightarrow> gscreen \<Rightarrow> gscreen" where
  "gcon_set_active on = (\<lambda>(g, s). (g\<lparr>gcon_active := on\<rparr>, s))"

definition gcon_set_color :: "u32 \<Rightarrow> int \<Rightarrow> gscreen \<Rightarrow> gscreen" where
  "gcon_set_color f b = (\<lambda>(g, s).
     let g = g\<lparr>fg := f\<rparr> in (if b \<ge> 0 then g\<lparr>bg := word_of_int b\<rparr> else g, s))"

definition gcon_clear :: "gscreen \<Rightarrow> gscreen" where
  "gcon_clear = (\<lambda>(g, s).
     let s = lfb_fill (ox g) (oy g) (cols g * cw g) (rows g * ch g) (bg g) s
     in cursor_draw (g\<lparr>cx := 0, cy := 0\<rparr>, s))"

definition newline :: "gscreen \<Rightarrow> gscreen" where
  "newline = (\<lambda>(g, s).
     let g = g\<lparr>cx := 0, cy := cy g + 1\<rparr>
     in if cy g \<ge> rows g
        then (g\<lparr>cy := rows g - 1\<rparr>, lfb_scroll_up (ox g) (oy g) (cols g * cw g) (rows g * ch g) (ch g) (bg g) s)
        else (g, s))"

text \<open>\<open>bg\<close> is passed as a \<open>long\<close>; \<open>(cx + 4) & ~3\<close> clears the two low bits.\<close>

definition cell_char :: "char \<Rightarrow> gscreen \<Rightarrow> gscreen" where
  "cell_char c = (\<lambda>(g, s). (g, lfb_char (ox g + cx g * cw g) (oy g + cy g * ch g) c (fg g) (sint (bg g)) (scale g) s))"

definition gcon_putc :: "char \<Rightarrow> gscreen \<Rightarrow> gscreen" where
  "gcon_putc c gs =
     (if \<not> gcon_active (fst gs) then gs
      else let (g, s) = cursor_erase gs;
               gs =
                 (if c = CHR 0x0A then newline (g, s)
                  else if c = CHR 0x0D then (g\<lparr>cx := 0\<rparr>, s)
                  else if c = CHR 0x09 then
                    (let g = g\<lparr>cx := (cx g + 4) AND NOT 3\<rparr> in if cx g \<ge> cols g then newline (g, s) else (g, s))
                  else if c = CHR 0x08 then
                    (if cx g > 0 then cell_char (CHR '' '') (g\<lparr>cx := cx g - 1\<rparr>, s) else (g, s))
                  else let (g, s) = cell_char c (g, s);
                           g = g\<lparr>cx := cx g + 1\<rparr>
                       in if cx g \<ge> cols g then newline (g, s) else (g, s))
           in cursor_draw gs)"

section \<open>A character on the screen\<close>

definition glyph_bit :: "char \<Rightarrow> int \<Rightarrow> int \<Rightarrow> bool" where
  "glyph_bit c r k \<longleftrightarrow> gfx_glyph (of_char c) ! nat r AND drop_bit (nat k) 0x80 \<noteq> 0"

lemma int_div_iff: "0 < sc \<Longrightarrow> d div sc = i \<longleftrightarrow> i * sc \<le> d \<and> d < i * sc + (sc :: int)"
proof -
  assume sc: "0 < sc"
  have "d div sc * sc \<le> d" "d < d div sc * sc + sc"
    using div_mult_mod_eq [of d sc] pos_mod_sign [OF sc, of d] pos_mod_bound [OF sc, of d] by linarith+
  moreover have "d div sc = i" if "i * sc \<le> d" "d < i * sc + sc"
  proof -
    have "(d - i * sc) div sc = 0" using that sc by (simp add: div_pos_pos_trivial)
    then show ?thesis using sc div_mult_self1 [of sc "d - i * sc" i] by simp
  qed
  ultimately show ?thesis by blast
qed

lemma int_div_range:
  assumes "0 < (sc :: int)"
  shows "0 \<le> d div sc \<and> d div sc < n \<longleftrightarrow> 0 \<le> d \<and> d < n * sc"
proof -
  have "d div sc < n \<longleftrightarrow> d < n * sc" using assms pos_imp_zdiv_neg_iff [of sc "d - n * sc"] div_mult_self1 [of sc d "- n"] by simp
  then show ?thesis using assms by (simp add: pos_imp_zdiv_nonneg_iff)
qed

text \<open>
  A loop whose \<open>i\<close>-th step paints the pixel \<open>k\<close> exactly when its index \<open>d\<close> is \<open>i\<close> and a
  condition common to all steps holds.
\<close>

lemma indexed_paint:
  assumes "\<And>i t. 0 \<le> i \<Longrightarrow> i < n \<Longrightarrow> same_screen s t \<Longrightarrow>
      same_screen s (f i t) \<and> fb_pix (f i t) k = (if b \<and> d = i then col i else fb_pix t k)" and "0 \<le> n"
  shows "same_screen s (for_int n f s) \<and>
    fb_pix (for_int n f s) k = (if b \<and> 0 \<le> d \<and> d < n then col d else fb_pix s k)"
  by (rule for_int_induct [where P = "\<lambda>n t. same_screen s t \<and> fb_pix t k = (if b \<and> 0 \<le> d \<and> d < n then col d else fb_pix s k)"])
    (use assms in auto)

lemma char_pix:
  assumes "fb_ok s" "0 < sc" "0 \<le> b"
  shows "same_screen s (lfb_char x y c f b sc s) \<and> fb_pix (lfb_char x y c f b sc s) k =
    (if vis s k \<and> in_rect s x y (8 * sc) (16 * sc) k
     then if glyph_bit c ((k div pitch_px s - y) div sc) ((k mod pitch_px s - x) div sc) then f else word_of_int b
     else fb_pix s k)"
proof -
  define X where "X = (k mod pitch_px s - x) div sc"
  define Y where "Y = (k div pitch_px s - y) div sc"
  define col where "col r q = (if glyph_bit c r q then f else word_of_int b)" for r q
  have block: "in_rect s (x + q * sc) (y + r * sc) sc sc k \<longleftrightarrow> X = q \<and> Y = r" for q r
    unfolding X_def Y_def int_div_iff [OF assms(2)] by (auto simp: in_rect_def)
  have whole: "in_rect s x y (8 * sc) (16 * sc) k \<longleftrightarrow> (0 \<le> X \<and> X < 8) \<and> 0 \<le> Y \<and> Y < 16"
    unfolding X_def Y_def int_div_range [OF assms(2)] by (auto simp: in_rect_def)
  have fill: "same_screen s (lfb_fill (x + q * sc) (y + r * sc) sc sc z t) \<and>
      fb_pix (lfb_fill (x + q * sc) (y + r * sc) sc sc z t) k = (if (vis s k \<and> Y = r) \<and> X = q then z else fb_pix t k)"
    if "same_screen s t" for t q r z
  proof -
    have "fb_ok t" "vis t k = vis s k" "in_rect t (x + q * sc) (y + r * sc) sc sc k = in_rect s (x + q * sc) (y + r * sc) sc sc k"
      using that assms(1) same_screen_vis same_screen_fields [OF that] by (auto simp: in_rect_def)
    then show ?thesis using same_screen_trans [OF that lfb_fill_screen] lfb_fill_pix [of t] block by auto
  qed
  have row: "same_screen s (for_int 8 (\<lambda>q. lfb_fill (x + q * sc) (y + r * sc) sc sc (col r q)) t) \<and>
      fb_pix (for_int 8 (\<lambda>q. lfb_fill (x + q * sc) (y + r * sc) sc sc (col r q)) t) k =
        (if (vis s k \<and> 0 \<le> X \<and> X < 8) \<and> Y = r then col r X else fb_pix t k)" if t: "same_screen s t" for r t
  proof -
    have "same_screen t (lfb_fill (x + q * sc) (y + r * sc) sc sc (col r q) u) \<and>
        fb_pix (lfb_fill (x + q * sc) (y + r * sc) sc sc (col r q) u) k = (if (vis s k \<and> Y = r) \<and> X = q then col r q else fb_pix u k)"
      if "same_screen t u" for q u
      using fill [OF same_screen_trans [OF t that]] same_screen_trans [OF that lfb_fill_screen] by blast
    from indexed_paint [where n = 8 and d = X, OF this] same_screen_trans [OF t] show ?thesis by auto
  qed
  have char: "lfb_char x y c f b sc s = for_int 16 (\<lambda>r. for_int 8 (\<lambda>q. lfb_fill (x + q * sc) (y + r * sc) sc sc (col r q))) s"
    using assms(3) unfolding lfb_char_def Let_def col_def glyph_bit_def by (intro arg_cong [where f = "\<lambda>g. for_int 16 g s"] ext for_int_cong) simp
  show ?thesis
    unfolding char whole X_def [symmetric] Y_def [symmetric]
    using indexed_paint [where n = 16 and d = Y and col = "\<lambda>r. col r X", OF row] by (auto simp: col_def)
qed

section \<open>The picture of a document\<close>

text \<open>A console whose rectangle lies on the screen.\<close>

definition gcon_ok :: "gcon \<Rightarrow> lfb \<Rightarrow> bool" where
  "gcon_ok g s \<longleftrightarrow> fb_ok s \<and> 0 < scale g \<and> cw g = 8 * scale g \<and> ch g = 16 * scale g \<and> 0 < cols g \<and> 0 < rows g \<and>
     0 \<le> ox g \<and> ox g + cols g * cw g \<le> fbW s \<and> 0 \<le> oy g \<and> oy g + rows g * ch g \<le> fbH s \<and> 0 \<le> sint (bg g)"

definition in_grid :: "gcon \<Rightarrow> lfb \<Rightarrow> int \<Rightarrow> bool" where
  "in_grid g s k \<longleftrightarrow> in_rect s (ox g) (oy g) (cols g * cw g) (rows g * ch g) k"

text \<open>Column and row of the cell of pixel \<open>k\<close>, and what the cell's character gives the pixel.\<close>

definition cell_col :: "gcon \<Rightarrow> lfb \<Rightarrow> int \<Rightarrow> int" where
  "cell_col g s k = (k mod pitch_px s - ox g) div cw g"

definition cell_row :: "gcon \<Rightarrow> lfb \<Rightarrow> int \<Rightarrow> int" where
  "cell_row g s k = (k div pitch_px s - oy g) div ch g"

definition cell_pix :: "gcon \<Rightarrow> lfb \<Rightarrow> char \<Rightarrow> int \<Rightarrow> u32" where
  "cell_pix g s c k =
     (if glyph_bit c ((k div pitch_px s - oy g) mod ch g div scale g) ((k mod pitch_px s - ox g) mod cw g div scale g)
      then fg g else bg g)"

definition doc_pix :: "gcon \<Rightarrow> lfb \<Rightarrow> doc \<Rightarrow> int \<Rightarrow> u32" where
  "doc_pix g s d k = cell_pix g s (char_at (nat (rows g)) d (nat (cell_row g s k)) (nat (cell_col g s k))) k"

text \<open>The picture \<open>t\<close> shows \<open>d\<close> in the rectangle and is \<open>s\<close> elsewhere.\<close>

definition pictures :: "gcon \<Rightarrow> lfb \<Rightarrow> lfb \<Rightarrow> doc \<Rightarrow> bool" where
  "pictures g s t d \<longleftrightarrow> same_screen s t \<and> (\<forall>k. fb_pix t k = (if in_grid g s k then doc_pix g s d k else fb_pix s k))"

lemma in_grid_cell:
  assumes "gcon_ok g s"
  shows "in_grid g s k \<longleftrightarrow> (0 \<le> cell_col g s k \<and> cell_col g s k < cols g) \<and> 0 \<le> cell_row g s k \<and> cell_row g s k < rows g"
proof -
  have "0 < cw g" "0 < ch g" using assms by (auto simp: gcon_ok_def)
  then show ?thesis unfolding in_grid_def in_rect_def cell_col_def cell_row_def
    using int_div_range [of "cw g" "k mod pitch_px s - ox g" "cols g"] int_div_range [of "ch g" "k div pitch_px s - oy g" "rows g"]
    by auto
qed

lemma in_grid_vis: "gcon_ok g s \<Longrightarrow> in_grid g s k \<Longrightarrow> vis s k"
  by (auto simp: gcon_ok_def in_grid_def in_rect_def vis_def)

lemma in_cell:
  assumes "gcon_ok g s"
  shows "in_rect s (ox g + i * cw g) (oy g + j * ch g) (cw g) (ch g) k \<longleftrightarrow> cell_col g s k = i \<and> cell_row g s k = j"
proof -
  have "0 < cw g" "0 < ch g" using assms by (auto simp: gcon_ok_def)
  then show ?thesis unfolding in_rect_def cell_col_def cell_row_def by (auto simp: int_div_iff)
qed

lemma cell_pix_blank:
  assumes "gcon_ok g s"
  shows "cell_pix g s (CHR '' '') k = bg g"
proof -
  define q where "q = (k div pitch_px s - oy g) mod ch g div scale g"
  have sc: "0 < scale g" "ch g = 16 * scale g" using assms by (auto simp: gcon_ok_def)
  have "0 \<le> q \<and> q < 16" unfolding q_def int_div_range [OF sc(1)] using sc by simp
  then have "nat q < 16" by linarith
  then have "gfx_glyph 0x20 ! nat q = 0" by (simp only: glyph_space nth_replicate)
  then have "\<not> glyph_bit (CHR '' '') q i" for i by (simp add: glyph_bit_def)
  then show ?thesis by (simp add: cell_pix_def q_def)
qed

lemma same_screen_sym: "same_screen s t \<Longrightarrow> same_screen t s"
  unfolding same_screen_def by (metis lfb.surjective lfb.update_convs(1))

lemma pictures_unique: "pictures g s t d \<Longrightarrow> pictures g s u d \<Longrightarrow> t = u"
  by (rule lfb_eqI) (auto simp: pictures_def intro: same_screen_trans same_screen_sym)

lemma pictures_frame:
  assumes "pictures g s t d"
  shows "fbW t = fbW s" "fbH t = fbH s" "pitch_px t = pitch_px s" "fb_ok t = fb_ok s" "vis t k = vis s k"
    "in_rect t x y w h k = in_rect s x y w h k"
  using assms same_screen_fields [of s t] same_screen_vis [of s t] by (auto simp: pictures_def in_rect_def)

text \<open>Drawing a character in cell \<open>(j, i)\<close> of the grid.\<close>

lemma char_in_cell:
  assumes "gcon_ok g s" "same_screen s t" "0 \<le> i" "i < cols g" "0 \<le> j" "j < rows g"
  shows "same_screen s (lfb_char (ox g + i * cw g) (oy g + j * ch g) c (fg g) (sint (bg g)) (scale g) t) \<and>
    fb_pix (lfb_char (ox g + i * cw g) (oy g + j * ch g) c (fg g) (sint (bg g)) (scale g) t) k =
      (if cell_col g s k = i \<and> cell_row g s k = j then cell_pix g s c k else fb_pix t k)"
proof -
  have g: "0 < scale g" "cw g = 8 * scale g" "ch g = 16 * scale g" "0 \<le> sint (bg g)" "fb_ok s"
    using assms(1) by (auto simp: gcon_ok_def)
  have t: "fb_ok t" "vis t k = vis s k" "pitch_px t = pitch_px s"
    using assms(2) g(5) same_screen_vis same_screen_fields by auto
  have cell: "in_rect t (ox g + i * cw g) (oy g + j * ch g) (8 * scale g) (16 * scale g) k \<longleftrightarrow> cell_col g s k = i \<and> cell_row g s k = j"
    using in_cell [OF assms(1), of i j k] by (simp add: in_rect_def t(3) flip: g(2,3))
  have on: "vis s k" if "cell_col g s k = i" "cell_row g s k = j"
    using that assms in_grid_cell [OF assms(1)] by (auto intro: in_grid_vis)
  have "glyph_bit c ((k div pitch_px s - (oy g + j * ch g)) div scale g) ((k mod pitch_px s - (ox g + i * cw g)) div scale g) \<longleftrightarrow>
      glyph_bit c ((k div pitch_px s - oy g) mod ch g div scale g) ((k mod pitch_px s - ox g) mod cw g div scale g)"
    if "cell_col g s k = i" "cell_row g s k = j"
  proof -
    have "k div pitch_px s - (oy g + j * ch g) = (k div pitch_px s - oy g) mod ch g"
      "k mod pitch_px s - (ox g + i * cw g) = (k mod pitch_px s - ox g) mod cw g"
      using that minus_div_mult_eq_mod [of "k div pitch_px s - oy g" "ch g"] minus_div_mult_eq_mod [of "k mod pitch_px s - ox g" "cw g"]
      unfolding cell_col_def cell_row_def by (simp_all only: diff_diff_eq)
    then show ?thesis by simp
  qed
  then show ?thesis
    using char_pix [OF t(1) g(1,4), of "ox g + i * cw g" "oy g + j * ch g" c "fg g" k] on same_screen_trans [OF assms(2)]
    unfolding cell t(2,3) by (auto simp: cell_pix_def)
qed

text \<open>Putting a character changes the picture as the document changes.\<close>

lemma pictures_put:
  assumes "gcon_ok g s" "pictures g s t d" "0 \<le> i" "i < cols g" "j = int (cur_row (nat (rows g)) d)"
    and "\<And>r c. char_at (nat (rows g)) e r c = (if r = cur_row (nat (rows g)) d \<and> c = nat i then x else char_at (nat (rows g)) d r c)"
  shows "pictures g s (lfb_char (ox g + i * cw g) (oy g + j * ch g) x (fg g) (sint (bg g)) (scale g) t) e"
proof -
  have j: "0 \<le> j" "j < rows g" using assms(1) cur_row_less [of "nat (rows g)" d] unfolding assms(5) gcon_ok_def by auto
  have st: "same_screen s t" using assms(2) by (simp add: pictures_def)
  have "(nat (cell_row g s k) = cur_row (nat (rows g)) d \<and> nat (cell_col g s k) = nat i) \<longleftrightarrow> cell_col g s k = i \<and> cell_row g s k = j"
    if "in_grid g s k" for k using that assms(3) unfolding in_grid_cell [OF assms(1)] assms(5) by auto
  moreover have "in_grid g s k" if "cell_col g s k = i" "cell_row g s k = j" for k
    using that assms(3,4) j in_grid_cell [OF assms(1)] by simp
  ultimately show ?thesis
    using char_in_cell [OF assms(1) st assms(3,4) j, of x] assms(2) by (auto simp: pictures_def doc_pix_def assms(6))
qed

lemma pictures_blank:
  assumes "gcon_ok g s"
  shows "pictures g s (lfb_fill (ox g) (oy g) (cols g * cw g) (rows g * ch g) (bg g) s) empty_doc"
  using assms lfb_fill_pix [of s "ox g" "oy g" "cols g * cw g" "rows g * ch g" "bg g"] lfb_fill_screen
    in_grid_vis [OF assms] cell_pix_blank [OF assms]
  by (auto simp: pictures_def doc_pix_def in_grid_def gcon_ok_def)

text \<open>Scrolling by one row of cells.\<close>

lemma pictures_scroll:
  assumes "gcon_ok g s" "pictures g s t d" "\<not> Suc (cur_row (nat (rows g)) d) < nat (rows g)"
  shows "pictures g s (lfb_scroll_up (ox g) (oy g) (cols g * cw g) (rows g * ch g) (ch g) (bg g) t) (break_line d)"
proof -
  let ?p = "pitch_px s" and ?h = "nat (rows g)"
  let ?u = "lfb_scroll_up (ox g) (oy g) (cols g * cw g) (rows g * ch g) (ch g) (bg g) t"
  have g: "0 < scale g" "cw g = 8 * scale g" "ch g = 16 * scale g" "fb_ok s" "0 < rows g" "0 < cols g"
    "0 \<le> ox g" "ox g + cols g * cw g \<le> fbW s" "0 \<le> oy g" "oy g + rows g * ch g \<le> fbH s" "0 < ?p" "0 < ch g"
    using assms(1) by (auto simp: gcon_ok_def fb_ok_def)
  note fr = pictures_frame [OF assms(2)]
  have hh: "ch g \<le> rows g * ch g" using mult_right_mono [of 1 "rows g" "ch g"] g by simp
  have "fb_ok t" using g(4) fr(4) by simp
  note scr = scroll_up_pix [OF this, of "ox g" "cols g * cw g" "oy g" "rows g * ch g" "ch g" "bg g", unfolded fr, OF g(7-10,12) hh]
  have "same_screen s ?u"
    using lfb_scroll_up_screen [of "ox g" "cols g * cw g" t "ch g" "rows g * ch g" "oy g" "bg g"] fr(1,4) g hh assms(2)
      same_screen_trans [of s t ?u] by (simp add: pictures_def)
  moreover have "fb_pix ?u k = (if in_grid g s k then doc_pix g s (break_line d) k else fb_pix s k)" for k
  proof (cases "in_grid g s k")
    case False
    then show ?thesis using scr [of k] assms(2) by (simp add: in_grid_def pictures_def)
  next
    case True
    note cell = True [unfolded in_grid_cell [OF assms(1)]]
    have last: "k div ?p < oy g + rows g * ch g - ch g \<longleftrightarrow> cell_row g s k + 1 < rows g"
      using int_div_range [OF g(12), of "k div ?p - oy g" "rows g - 1"] cell True
      by (auto simp: cell_row_def left_diff_distrib in_grid_def in_rect_def)
    show ?thesis
    proof (cases "cell_row g s k + 1 < rows g")
      case False
      then have "\<not> Suc (nat (cell_row g s k)) < ?h" "nat (cell_row g s k) < ?h" using cell by auto
      then show ?thesis using scr [of k] True last False assms(3) cell_pix_blank [OF assms(1)]
        by (simp add: in_grid_def doc_pix_def char_at_break)
    next
      case less: True
      let ?k = "k + ch g * ?p"
      have k: "?k mod ?p = k mod ?p" "?k div ?p = k div ?p + ch g" using g(11) by simp_all
      have e: "k div ?p + ch g - oy g = (k div ?p - oy g) + ch g" by simp
      have row: "cell_row g s ?k = cell_row g s k + 1"
        using g(12) div_add_self2 [of "ch g" "k div ?p - oy g"] unfolding cell_row_def k e by simp
      have col: "cell_col g s ?k = cell_col g s k" by (simp add: cell_col_def k)
      have pix: "cell_pix g s c ?k = cell_pix g s c k" for c unfolding cell_pix_def k e by simp
      have "in_grid g s ?k" using cell less row col in_grid_cell [OF assms(1), of ?k] by simp
      then have "fb_pix t ?k = doc_pix g s d ?k" using assms(2) by (simp add: pictures_def)
      also have "\<dots> = doc_pix g s (break_line d) k"
      proof -
        have "nat (cell_row g s k + 1) = Suc (nat (cell_row g s k))" "nat (cell_row g s k) < ?h" "Suc (nat (cell_row g s k)) < ?h"
          using cell less by linarith+
        then show ?thesis unfolding doc_pix_def row col pix using assms(3) by (simp add: char_at_break)
      qed
      finally have "fb_pix t ?k = doc_pix g s (break_line d) k" .
      then show ?thesis using scr [of k] True last less by (simp add: in_grid_def)
    qed
  qed
  ultimately show ?thesis by (simp add: pictures_def)
qed

section \<open>The console displays the document\<close>

text \<open>
  The console that started as \<open>g0\<close> on screen \<open>s\<close> displays \<open>d\<close>: its geometry and colours are
  those of \<open>g0\<close>, the cursor stands after the last character, and the screen is the picture of
  \<open>d\<close> with the cursor drawn on it.
\<close>

definition same_console :: "gcon \<Rightarrow> gcon \<Rightarrow> bool" where
  "same_console g0 g \<longleftrightarrow> g = g0\<lparr>cx := cx g, cy := cy g\<rparr>"

definition gcon_shows :: "gcon \<Rightarrow> lfb \<Rightarrow> gscreen \<Rightarrow> doc \<Rightarrow> bool" where
  "gcon_shows g0 s = (\<lambda>(g, t) d. same_console g0 g \<and> pictures g0 s t d \<and> cy g = int (cur_row (nat (rows g0)) d))"

definition gcon_displays :: "gcon \<Rightarrow> lfb \<Rightarrow> gscreen \<Rightarrow> doc \<Rightarrow> bool" where
  "gcon_displays g0 s gs d \<longleftrightarrow> gcon_ok g0 s \<and> gcon_active g0 \<and> doc_ok (nat (cols g0)) d \<and>
     (\<exists>g t. gs = cursor_draw (g, t) \<and> gcon_shows g0 s (g, t) d \<and> cx g = int (length (cur_line d)))"

lemma same_console_fields:
  assumes "same_console g0 g"
  shows "ox g = ox g0" "oy g = oy g0" "cols g = cols g0" "rows g = rows g0" "scale g = scale g0" "cw g = cw g0"
    "ch g = ch g0" "fg g = fg g0" "bg g = bg g0" "gcon_active g = gcon_active g0"
  using assms unfolding same_console_def by (metis gcon.select_convs gcon.surjective gcon.update_convs(9,10))+

lemma same_console_move [simp]:
  "same_console g0 (g\<lparr>cx := i\<rparr>) \<longleftrightarrow> same_console g0 g" "same_console g0 (g\<lparr>cy := j\<rparr>) \<longleftrightarrow> same_console g0 g"
  unfolding same_console_def by (cases g0, cases g, simp)+

lemma gcon_shows_move [simp]: "gcon_shows g0 s (g\<lparr>cx := i\<rparr>, t) d \<longleftrightarrow> gcon_shows g0 s (g, t) d"
  by (simp add: gcon_shows_def)

text \<open>Erasing the cursor gives back the picture: the cell under the cursor is blank.\<close>

lemma erase_draw:
  assumes "gcon_ok g0 s" "gcon_shows g0 s (g, t) d" "cx g = int (length (cur_line d))" "doc_ok (nat (cols g0)) d"
  shows "cursor_erase (cursor_draw (g, t)) = (g, t)"
proof -
  let ?h = "nat (rows g0)"
  have g: "0 < scale g0" "cw g0 = 8 * scale g0" "ch g0 = 16 * scale g0" "fb_ok s" "0 < rows g0" using assms(1) by (auto simp: gcon_ok_def)
  have sh: "pictures g0 s t d" "cy g = int (cur_row ?h d)" "same_console g0 g" using assms(2) by (auto simp: gcon_shows_def)
  note f = same_console_fields [OF sh(3)] and fr = pictures_frame [OF sh(1)]
  define x where "x = ox g0 + cx g * cw g0"
  define y where "y = oy g0 + cy g * ch g0 + ch g0 - 2 * scale g0"
  define u where "u = lfb_fill x y (cw g0) (2 * scale g0) accent t"
  have u: "same_screen t u" unfolding u_def by (rule lfb_fill_screen)
  have ok: "fb_ok t" "fb_ok u" using fr(4) g(4) u same_screen_vis(2) by auto
  have "lfb_fill x y (cw g0) (2 * scale g0) (bg g0) u = t"
  proof (rule lfb_eqI)
    show "same_screen t (lfb_fill x y (cw g0) (2 * scale g0) (bg g0) u)" using u same_screen_trans lfb_fill_screen by blast
    fix k
    have in_u: "in_rect u x y (cw g0) (2 * scale g0) k = in_rect s x y (cw g0) (2 * scale g0) k" "vis u k = vis s k"
      using same_screen_fields [OF u] same_screen_vis(1) [OF u] fr by (auto simp: in_rect_def)
    have "fb_pix t k = bg g0" if "in_rect s x y (cw g0) (2 * scale g0) k"
    proof -
      have "in_rect s x (oy g0 + cy g * ch g0) (cw g0) (ch g0) k" using that g(1,3) by (auto simp: in_rect_def y_def)
      then have c: "cell_col g0 s k = cx g" "cell_row g0 s k = cy g" using in_cell [OF assms(1)] by (auto simp: x_def)
      moreover have "cx g < cols g0" "cy g < rows g0" using assms(3,4) sh(2) cur_row_less [of ?h d] g(5) by (auto simp: doc_ok_def)
      ultimately have "in_grid g0 s k" using assms(3) sh(2) by (simp add: in_grid_cell [OF assms(1)])
      then show ?thesis using sh(1,2) c assms(3) g(5) by (simp add: pictures_def doc_pix_def char_at_cursor cell_pix_blank [OF assms(1)])
    qed
    then show "fb_pix (lfb_fill x y (cw g0) (2 * scale g0) (bg g0) u) k = fb_pix t k"
      unfolding lfb_fill_pix [OF ok(2)] in_u using lfb_fill_pix [OF ok(1), of x y "cw g0" "2 * scale g0" accent k] fr
      by (auto simp: u_def)
  qed
  then show ?thesis by (simp add: cursor_erase_def cursor_draw_def f x_def y_def u_def)
qed

lemma newline_shows:
  assumes "gcon_ok g0 s" "gcon_shows g0 s (g, t) d"
  shows "gcon_shows g0 s (newline (g, t)) (break_line d) \<and> cx (fst (newline (g, t))) = 0"
proof -
  let ?h = "nat (rows g0)"
  have h: "0 < ?h" using assms(1) by (simp add: gcon_ok_def)
  have sh: "pictures g0 s t d" "cy g = int (cur_row ?h d)" "same_console g0 g" using assms(2) by (auto simp: gcon_shows_def)
  note f = same_console_fields [OF sh(3)]
  have roll: "cy g + 1 \<ge> rows g0 \<longleftrightarrow> \<not> Suc (cur_row ?h d) < ?h" using sh(2) by auto
  show ?thesis
  proof (cases "Suc (cur_row ?h d) < ?h")
    case True
    have "pictures g0 s t (break_line d)"
      using sh(1) True in_grid_cell [OF assms(1)] by (auto simp: pictures_def doc_pix_def char_at_break)
    then show ?thesis using True sh h roll by (simp add: newline_def gcon_shows_def f cur_row_break)
  next
    case False
    have "rows g0 - 1 = int (?h - 1)" using h by simp
    then show ?thesis using False sh h roll pictures_scroll [OF assms(1) sh(1) False]
      by (simp add: newline_def gcon_shows_def f cur_row_break)
  qed
qed

lemma cell_char_shows:
  assumes "gcon_ok g0 s" "gcon_shows g0 s (g, t) d" "cx g = int i" "int i < cols g0" "cur_row (nat (rows g0)) e = cur_row (nat (rows g0)) d"
    and "\<And>r c. char_at (nat (rows g0)) e r c = (if r = cur_row (nat (rows g0)) d \<and> c = i then x else char_at (nat (rows g0)) d r c)"
  shows "gcon_shows g0 s (cell_char x (g, t)) e \<and> fst (cell_char x (g, t)) = g"
proof -
  have sh: "pictures g0 s t d" "cy g = int (cur_row (nat (rows g0)) d)" "same_console g0 g" using assms(2) by (auto simp: gcon_shows_def)
  show ?thesis
    using pictures_put [OF assms(1) sh(1) _ assms(4) sh(2), of e x] assms(3,5,6) sh(2,3)
    by (simp add: cell_char_def gcon_shows_def same_console_fields [OF sh(3)])
qed

lemma and_not_3: "(a :: int) AND NOT 3 = 4 * (a div 4)"
proof -
  have "a AND NOT (mask m) = push_bit m (drop_bit m a)" for m by (rule bit_eqI) (auto simp: bit_simps)
  from this [of 2] show ?thesis by (simp add: mask_eq_exp_minus_1 push_bit_eq_mult drop_bit_eq_div)
qed

text \<open>\<open>gcon_putc\<close> between erasing and redrawing the cursor.\<close>

lemma gcon_putc_cases:
  assumes "gcon_active g" "cursor_erase gs = (g, t)" "gcon_active (fst gs)" "c \<noteq> CHR 0x0D"
  shows "gcon_putc c gs = cursor_draw
    (if c = CHR 0x0A then newline (g, t)
     else if c = CHR 0x09 then
       (let g1 = g\<lparr>cx := 4 * ((cx g + 4) div 4)\<rparr> in if cx g1 \<ge> cols g then newline (g1, t) else (g1, t))
     else if c = CHR 0x08 then (if cx g > 0 then cell_char (CHR '' '') (g\<lparr>cx := cx g - 1\<rparr>, t) else (g, t))
     else let t1 = snd (cell_char c (g, t)); g1 = g\<lparr>cx := cx g + 1\<rparr> in if cx g1 \<ge> cols g then newline (g1, t1) else (g1, t1))"
  using assms(2-4) and_not_3 [of "cx g + 4"] by (simp add: gcon_putc_def Let_def cell_char_def)

lemma newline_move [simp]: "newline (g\<lparr>cx := i\<rparr>, t) = newline (g, t)"
  by (simp add: newline_def)

lemma gcon_putc_displays:
  assumes "gcon_displays g0 s gs d" "c \<noteq> CHR 0x0D"
  shows "gcon_displays g0 s (gcon_putc c gs) (doc_putc (nat (cols g0)) c d)"
proof -
  let ?w = "nat (cols g0)" and ?h = "nat (rows g0)" and ?k = "length (cur_line d)"
  obtain g t where gs: "gs = cursor_draw (g, t)" and sh: "gcon_shows g0 s (g, t) d" and k: "cx g = int ?k"
    and ok: "gcon_ok g0 s" "gcon_active g0" "doc_ok ?w d" using assms(1) by (auto simp: gcon_displays_def)
  have h: "0 < ?h" "0 < cols g0" using ok(1) by (auto simp: gcon_ok_def)
  have same: "same_console g0 g" using sh by (simp add: gcon_shows_def)
  note f = same_console_fields [OF same]
  have w: "?k < ?w" "int ?k < cols g0" using ok(3) by (auto simp: doc_ok_def)
  have act: "gcon_active g" "gcon_active (fst gs)" using ok(2) f(10) by (simp_all add: gs cursor_draw_def)
  have "cursor_erase gs = (g, t)" unfolding gs by (rule erase_draw [OF ok(1) sh k ok(3)])
  then have cases: "gcon_putc c gs = cursor_draw
    (if c = CHR 0x0A then newline (g, t)
     else if c = CHR 0x09 then (if ?w \<le> 4 * ((?k + 4) div 4) then newline (g, t) else (g\<lparr>cx := int (4 * ((?k + 4) div 4))\<rparr>, t))
     else if c = CHR 0x08 then (if 0 < ?k then cell_char (CHR '' '') (g\<lparr>cx := int (?k - 1)\<rparr>, t) else (g, t))
     else if ?w \<le> Suc ?k then newline (g, snd (cell_char c (g, t))) else (g\<lparr>cx := int (Suc ?k)\<rparr>, snd (cell_char c (g, t))))"
    using gcon_putc_cases [of g gs t c] act assms(2) w(1)
    by (auto simp: k f(3) Let_def zdiv_int nat_le_iff add.commute of_nat_diff Suc_le_eq)
  have shown: "gcon_displays g0 s (cursor_draw gt) e" if "gcon_shows g0 s gt e" "cx (fst gt) = int (length (cur_line e))" "doc_ok ?w e" for gt e
    using that ok unfolding gcon_displays_def by (metis prod.collapse)
  have break_ok: "gcon_displays g0 s (cursor_draw (newline (g, u))) (break_line e)"
    if "gcon_shows g0 s (g, u) e" "doc_ok ?w (break_line e)" for u e
    using newline_shows [OF ok(1) that(1)] shown that(2) by simp
  have typed: "gcon_shows g0 s (g, snd (cell_char c (g, t))) (type_char c d)"
    using cell_char_shows [OF ok(1) sh k w(2), of "type_char c d" c] h(1) by (simp add: char_at_type) (metis prod.collapse)
  have padded: "gcon_shows g0 s (g, t) (pad_line n d)" for n
    using sh by (simp add: gcon_shows_def pictures_def doc_pix_def char_at_pad)
  have erased: "gcon_shows g0 s (cell_char (CHR '' '') (g\<lparr>cx := int (?k - 1)\<rparr>, t)) (d\<lparr>cur_line := butlast (cur_line d)\<rparr>) \<and>
      cx (fst (cell_char (CHR '' '') (g\<lparr>cx := int (?k - 1)\<rparr>, t))) = int (?k - 1)" if "0 < ?k"
    using cell_char_shows [OF ok(1), of "g\<lparr>cx := int (?k - 1)\<rparr>" t d "?k - 1" "d\<lparr>cur_line := butlast (cur_line d)\<rparr>" "CHR '' ''"]
      sh w h(1) that by (auto simp: char_at_butlast of_nat_diff Suc_le_eq)
  have okd: "doc_ok ?w (doc_putc ?w c d)" using ok(3) by (rule doc_putc_ok)
  consider "c = CHR 0x0A" | "c = CHR 0x09" | "c = CHR 0x08" | "c \<noteq> CHR 0x0A" "c \<noteq> CHR 0x09" "c \<noteq> CHR 0x08" by blast
  then show ?thesis
  proof cases
    case 1
    then show ?thesis unfolding cases using break_ok [OF sh] okd by (simp add: doc_putc_def)
  next
    case 2
    then show ?thesis unfolding cases using break_ok [OF sh] okd padded by (auto simp: doc_putc_def intro!: shown split: if_splits)
  next
    case 3
    then show ?thesis unfolding cases using sh k okd erased by (auto simp: doc_putc_def doc_nil intro!: shown)
  next
    case 4
    then show ?thesis unfolding cases using break_ok [OF typed] okd typed by (auto simp: doc_putc_def intro!: shown split: if_splits)
  qed
qed

interpretation gcon_text: text_console "nat (cols g0)" "gcon_displays g0 s" gcon_putc for g0 s
  by unfold_locales (rule gcon_putc_displays)

lemma gcon_init_displays:
  assumes "gcon_init x y c r sc f b (g, s) = (g1, s1)" "fb_ok s" "0 < sc" "0 < c" "0 < r" "0 \<le> x" "x + c * (8 * sc) \<le> fbW s"
    "0 \<le> y" "y + r * (16 * sc) \<le> fbH s" "0 \<le> sint b"
  shows "gcon_displays g1 s (g1, s1) empty_doc" "gcon_active g1" "cx g1 = 0" "cy g1 = 0" "ox g1 = x" "oy g1 = y" "cols g1 = c"
    "rows g1 = r" "scale g1 = sc" "cw g1 = 8 * sc" "ch g1 = 16 * sc" "fg g1 = f" "bg g1 = b"
proof -
  define t where "t = lfb_fill x y (c * (8 * sc)) (r * (16 * sc)) b s"
  have eq: "(g1, s1) = cursor_draw (g1, t)" and f: "gcon_active g1" "cx g1 = 0" "cy g1 = 0" "ox g1 = x" "oy g1 = y" "cols g1 = c"
    "rows g1 = r" "scale g1 = sc" "cw g1 = 8 * sc" "ch g1 = 16 * sc" "fg g1 = f" "bg g1 = b"
    using assms(1) by (auto simp: gcon_init_def cursor_draw_def Let_def t_def)
  then show "gcon_active g1" "cx g1 = 0" "cy g1 = 0" "ox g1 = x" "oy g1 = y" "cols g1 = c"
    "rows g1 = r" "scale g1 = sc" "cw g1 = 8 * sc" "ch g1 = 16 * sc" "fg g1 = f" "bg g1 = b" by simp_all
  have ok: "gcon_ok g1 s" using assms f by (simp add: gcon_ok_def)
  have "pictures g1 s t empty_doc" using pictures_blank [OF ok] by (simp add: t_def f)
  then have "gcon_shows g1 s (g1, t) empty_doc" using f by (simp add: gcon_shows_def same_console_def)
  moreover have "doc_ok (nat (cols g1)) empty_doc" using assms(4) f by (simp add: doc_ok_def empty_doc_def)
  ultimately show "gcon_displays g1 s (g1, s1) empty_doc" using eq f ok unfolding gcon_displays_def by (intro conjI exI) auto
qed

text \<open>What a displayed document means for a pixel.\<close>

lemma gcon_displays_pix:
  assumes "gcon_displays g0 s (g, t) d"
  shows "same_screen s t" "cx g = int (length (cur_line d))" "cy g = int (cur_row (nat (rows g0)) d)"
    "fb_pix t k =
      (if \<not> in_grid g0 s k then fb_pix s k
       else if in_rect s (ox g0 + cx g * cw g0) (oy g0 + cy g * ch g0 + 14 * scale g0) (cw g0) (2 * scale g0) k then accent
       else doc_pix g0 s d k)"
proof -
  obtain u where u: "(g, t) = cursor_draw (g, u)" "gcon_shows g0 s (g, u) d" "cx g = int (length (cur_line d))"
    and ok: "gcon_ok g0 s" "doc_ok (nat (cols g0)) d"
    using assms by (auto simp: gcon_displays_def cursor_draw_def)
  have sh: "pictures g0 s u d" "cy g = int (cur_row (nat (rows g0)) d)" "same_console g0 g" using u(2) by (auto simp: gcon_shows_def)
  note f = same_console_fields [OF sh(3)] and fr = pictures_frame [OF sh(1)]
  have g: "0 < scale g0" "cw g0 = 8 * scale g0" "ch g0 = 16 * scale g0" "0 < rows g0" "fb_ok s" using ok(1) by (auto simp: gcon_ok_def)
  let ?x = "ox g0 + cx g * cw g0" and ?y = "oy g0 + cy g * ch g0 + 14 * scale g0"
  have t: "t = lfb_fill ?x ?y (cw g0) (2 * scale g0) accent u" using u(1) g(3) by (simp add: cursor_draw_def f add.commute)
  show "cx g = int (length (cur_line d))" "cy g = int (cur_row (nat (rows g0)) d)" using u(3) sh(2) by simp_all
  show "same_screen s t" unfolding t using sh(1) same_screen_trans lfb_fill_screen by (auto simp: pictures_def)
  have "cell_col g0 s k = cx g \<and> cell_row g0 s k = cy g" if "in_rect s ?x ?y (cw g0) (2 * scale g0) k"
    using that in_cell [OF ok(1), of "cx g" "cy g" k] g by (auto simp: in_rect_def)
  moreover have "cx g < cols g0" "cy g < rows g0" "0 \<le> cx g" "0 \<le> cy g"
    using u(3) ok(2) sh(2) cur_row_less [of "nat (rows g0)" d] g(4) by (auto simp: doc_ok_def)
  ultimately have "in_grid g0 s k" if "in_rect s ?x ?y (cw g0) (2 * scale g0) k"
    using that in_grid_cell [OF ok(1)] by auto
  then show "fb_pix t k = (if \<not> in_grid g0 s k then fb_pix s k
       else if in_rect s ?x ?y (cw g0) (2 * scale g0) k then accent else doc_pix g0 s d k)"
    unfolding t using lfb_fill_pix [of u ?x ?y "cw g0" "2 * scale g0" accent k] fr g(5) sh(1) in_grid_vis [OF ok(1)]
    by (auto simp: pictures_def)
qed

section \<open>Drawing stays on the screen\<close>

text \<open>
  Whatever is written, the carriage return included, an active console keeps its cursor in its grid
  and only paints visible pixels.
\<close>

definition gcon_inv :: "gcon \<Rightarrow> lfb \<Rightarrow> bool" where
  "gcon_inv g s \<longleftrightarrow> (gcon_active g \<longrightarrow> gcon_ok g s \<and> 0 \<le> cx g \<and> cx g < cols g \<and> 0 \<le> cy g \<and> cy g < rows g)"

definition gcon_paints :: "lfb \<Rightarrow> gscreen \<Rightarrow> bool" where
  "gcon_paints s gs \<longleftrightarrow> painted s (snd gs) \<and> gcon_inv (fst gs) s"

lemma painted_cursor:
  "painted s (snd gs) \<Longrightarrow> painted s (snd (cursor_draw gs)) \<and> fst (cursor_draw gs) = fst gs"
  "painted s (snd gs) \<Longrightarrow> painted s (snd (cursor_erase gs)) \<and> fst (cursor_erase gs) = fst gs"
  by (cases gs, simp add: cursor_draw_def cursor_erase_def paint_fill)+

lemma painted_cell_char: "painted s t \<Longrightarrow> painted s (snd (cell_char c (g, t))) \<and> fst (cell_char c (g, t)) = g"
  by (simp add: cell_char_def paint_char)

lemma newline_paints:
  assumes "painted s t" "gcon_ok g s" "0 \<le> cy g" "cy g < rows g"
  shows "painted s (snd (newline (g, t))) \<and> gcon_inv (fst (newline (g, t))) s"
proof -
  have f: "fbW t = fbW s" "fbH t = fbH s" using assms(1) same_screen_fields by (auto simp: painted_def)
  have g: "0 < scale g" "cw g = 8 * scale g" "ch g = 16 * scale g" "0 < rows g" "0 < cols g"
    "0 \<le> ox g" "ox g + cols g * cw g \<le> fbW s" "0 \<le> oy g" "oy g + rows g * ch g \<le> fbH s"
    using assms(2) by (auto simp: gcon_ok_def)
  have "ch g \<le> rows g * ch g" using mult_right_mono [of 1 "rows g" "ch g"] g by simp
  then have "painted s (lfb_scroll_up (ox g) (oy g) (cols g * cw g) (rows g * ch g) (ch g) (bg g) t)"
    using g f by (intro paint_scroll_up assms(1)) auto
  then show ?thesis using assms g by (auto simp: newline_def gcon_inv_def gcon_ok_def Let_def)
qed

lemma gcon_putc_paints:
  assumes "gcon_paints s gs"
  shows "gcon_paints s (gcon_putc c gs)"
proof (cases "gcon_active (fst gs)")
  case True
  obtain g t where er: "cursor_erase gs = (g, t)" by (metis surj_pair)
  have g: "g = fst gs" "painted s t" using painted_cursor(2) [of s gs] assms er by (auto simp: gcon_paints_def)
  have inv: "gcon_ok g s" "0 \<le> cx g" "cx g < cols g" "0 \<le> cy g" "cy g < rows g" "gcon_active g"
    using assms True g(1) by (auto simp: gcon_paints_def gcon_inv_def)
  have nl: "gcon_paints s (newline (g, u))" if "painted s u" for u
    using newline_paints [OF that inv(1,4,5)] by (simp add: gcon_paints_def)
  have stay: "gcon_paints s (g\<lparr>cx := i\<rparr>, u)" if "painted s u" "0 \<le> i" "i < cols g" for i u
    using that inv by (auto simp: gcon_paints_def gcon_inv_def gcon_ok_def)
  have draw: "gcon_paints s (cursor_draw gt)" if "gcon_paints s gt" for gt
    using painted_cursor(1) [of s gt] that by (simp add: gcon_paints_def)
  obtain u where u: "cell_char c (g, t) = (g, u)" "painted s u" using painted_cell_char [OF g(2), of c g] by (metis prod.collapse)
  obtain v where v: "cell_char (CHR '' '') (g\<lparr>cx := cx g - 1\<rparr>, t) = (g\<lparr>cx := cx g - 1\<rparr>, v)" "painted s v"
    using painted_cell_char [OF g(2), of "CHR '' ''" "g\<lparr>cx := cx g - 1\<rparr>"] by (metis prod.collapse)
  have tab: "0 \<le> (cx g + 4) AND NOT 3" using inv(2) unfolding and_not_3 by simp
  have t: "gcon_paints s (g, t)" using stay [OF g(2) inv(2,3)] by simp
  have "gcon_putc c gs = cursor_draw
      (if c = CHR 0x0A then newline (g\<lparr>cx := cx g\<rparr>, t)
       else if c = CHR 0x0D then (g\<lparr>cx := 0\<rparr>, t)
       else if c = CHR 0x09 then
         (if (cx g + 4) AND NOT 3 \<ge> cols g then newline (g\<lparr>cx := (cx g + 4) AND NOT 3\<rparr>, t) else (g\<lparr>cx := (cx g + 4) AND NOT 3\<rparr>, t))
       else if c = CHR 0x08 then (if cx g > 0 then (g\<lparr>cx := cx g - 1\<rparr>, v) else (g, t))
       else if cx g + 1 \<ge> cols g then newline (g\<lparr>cx := cx g + 1\<rparr>, u) else (g\<lparr>cx := cx g + 1\<rparr>, u))"
    using True u(1) v(1) by (simp add: gcon_putc_def er Let_def)
  then show ?thesis using nl [OF g(2)] stay [OF g(2)] nl [OF u(2)] stay [OF u(2)] stay [OF v(2)] t inv tab
    by (auto intro!: draw)
next
  case False
  then show ?thesis using assms by (simp add: gcon_putc_def)
qed

lemma gcon_clear_paints: "gcon_paints s gs \<Longrightarrow> gcon_paints s (gcon_clear gs)"
  by (cases gs) (auto simp: gcon_clear_def gcon_paints_def gcon_inv_def gcon_ok_def cursor_draw_def Let_def intro!: paint_fill)

lemma gcon_init_paints:
  assumes "painted s t" "0 < sc" "0 < c" "0 < r" "0 \<le> x" "x + c * (8 * sc) \<le> fbW s" "0 \<le> y" "y + r * (16 * sc) \<le> fbH s" "0 \<le> sint b"
  shows "gcon_paints s (gcon_init x y c r sc f b (g, t))"
proof -
  have "fb_ok s" using assms(1) by (simp add: painted_def)
  then show ?thesis using assms
    by (auto simp: gcon_init_def gcon_paints_def gcon_inv_def gcon_ok_def cursor_draw_def Let_def intro!: paint_fill)
qed

section \<open>Texts\<close>

text \<open>
  C31: A text written to a freshly opened graphical console, newlines, tabs and backspaces included:
  every pixel of its rectangle is the pixel of the glyph of the character that the last lines of
  the text's layout have in that cell, in the console's colours, except for the underline at the
  cursor; every pixel outside the rectangle is what it was.
\<close>

theorem gcon_shows_text:
  assumes "fb_ok s" "0 < sc" "0 < c" "0 < r" "0 \<le> x" "x + c * (8 * sc) \<le> fbW s" "0 \<le> y" "y + r * (16 * sc) \<le> fbH s" "0 \<le> sint b"
    and "CHR 0x0D \<notin> set txt" and "fold gcon_putc txt (gcon_init x y c r sc f b (g, s)) = (g2, t2)"
    and "X = k mod pitch_px s - x" "Y = k div pitch_px s - y" "d = layout (nat c) txt"
  shows "fb_pix t2 k =
    (if \<not> in_rect s x y (c * (8 * sc)) (r * (16 * sc)) k then fb_pix s k
     else if X div (8 * sc) = int (length (cur_line d)) \<and> Y div (16 * sc) = int (cur_row (nat r) d) \<and> 14 * sc \<le> Y mod (16 * sc)
     then accent
     else if glyph_bit (char_at (nat r) d (nat (Y div (16 * sc))) (nat (X div (8 * sc)))) (Y mod (16 * sc) div sc) (X mod (8 * sc) div sc)
     then f else b)"
proof -
  obtain g1 s1 where i: "gcon_init x y c r sc f b (g, s) = (g1, s1)" by (metis surj_pair)
  note init = gcon_init_displays [OF i assms(1-9)]
  have disp: "gcon_displays g1 s (g2, t2) d"
    using gcon_text.text_shows [OF init(1) assms(10)] assms(11) i by (simp add: assms(14) init)
  note pix = gcon_displays_pix [OF disp]
  have ok: "gcon_ok g1 s" using disp by (simp add: gcon_displays_def)
  have cell: "cell_col g1 s k = X div (8 * sc)" "cell_row g1 s k = Y div (16 * sc)"
    by (simp_all add: cell_col_def cell_row_def assms(12,13) init)
  have cursor: "in_rect s (ox g1 + cx g2 * cw g1) (oy g1 + cy g2 * ch g1 + 14 * scale g1) (cw g1) (2 * scale g1) k \<longleftrightarrow>
      X div (8 * sc) = int (length (cur_line d)) \<and> Y div (16 * sc) = int (cur_row (nat r) d) \<and> 14 * sc \<le> Y mod (16 * sc)"
  proof -
    have "Y mod (16 * sc) = k div pitch_px s - (y + Y div (16 * sc) * (16 * sc))"
      using minus_div_mult_eq_mod [of Y "16 * sc"] by (simp add: assms(13))
    moreover have "in_rect s (ox g1 + cx g2 * cw g1) (oy g1 + cy g2 * ch g1 + 14 * scale g1) (cw g1) (2 * scale g1) k \<longleftrightarrow>
        in_rect s (ox g1 + cx g2 * cw g1) (oy g1 + cy g2 * ch g1) (cw g1) (ch g1) k \<and> y + cy g2 * (16 * sc) + 14 * sc \<le> k div pitch_px s"
      using assms(2) by (auto simp: in_rect_def init)
    ultimately show ?thesis unfolding in_cell [OF ok] cell pix(2,3) using init(8) by auto
  qed
  show ?thesis using pix(4) [of k] unfolding cursor
    by (simp add: in_grid_def doc_pix_def cell_pix_def cell init flip: assms(12,13))
qed

theorem gcon_shows_text_witness:
  "fb_pix (snd (fold gcon_putc (''a'' @ [CHR 0x0A] @ ''T'') (gcon_init 8 8 20 10 2 0x9defb0 0x0a0f1a (gcon_static, screen))))
     ((8 + 32 + 6) * 704 + (8 + 6)) = 0x9defb0"
proof -
  let ?txt = "''a'' @ [CHR 0x0A] @ ''T''"
  obtain g2 t2 where f: "fold gcon_putc ?txt (gcon_init 8 8 20 10 2 0x9defb0 0x0a0f1a (gcon_static, screen)) = (g2, t2)"
    by (metis surj_pair)
  have "gfx_glyph (of_char (CHR ''T'')) = font_50 ! 4"
    unfolding gfx_glyph_def font_def by (simp add: nth_append font_block_lengths)
  then have "gfx_glyph (of_char (CHR ''T'')) ! 3 = 0xDB" by (simp add: font_50_def numeral_eq_Suc)
  then have bit: "glyph_bit (CHR ''T'') 3 3" by (simp add: glyph_bit_def)
  have doc: "char_at 10 (layout 20 ?txt) 1 0 = CHR ''T''" "length (cur_line (layout 20 ?txt)) = 1" by code_simp+
  have s: "pitch_px screen = 704" "fbW screen = 640" "fbH screen = 480" by (simp_all add: screen_def)
  from gcon_shows_text [where k = "(8 + 32 + 6) * 704 + (8 + 6)" and d = "layout 20 ?txt" and X = 6 and Y = 38,
      OF screen_ok, of 2 20 10 8 8 "0x0a0f1a" ?txt "0x9defb0" gcon_static g2 t2] bit doc f
  have "fb_pix t2 ((8 + 32 + 6) * 704 + (8 + 6)) = 0x9defb0" by (simp add: s in_rect_def)
  then show ?thesis unfolding f by simp
qed

end
