(* ===== verification/Console.thy ===== *)
theory Console
  imports Gconsole Vga Serial Kprintf "HOL-Library.Monad_Syntax"
begin

text \<open>
  Where console characters go (\<open>raw_putc\<close> in \<open>kernel/core/kprintf.c\<close>): to the graphical console
  when it is active and to the text-mode screen otherwise, and to the serial port while mirroring
  is on. The lemmas join the three drivers: a text appears on the screen in front and leaves the
  serial port in full.
\<close>

record display =
  d_vga :: vga
  d_gcon :: gcon
  d_lfb :: lfb
  d_mirror :: bool
  d_uart :: io

definition k_serial_mirror :: "bool \<Rightarrow> display \<Rightarrow> display" where
  "k_serial_mirror enabled d = d\<lparr>d_mirror := enabled\<rparr>"

definition show_char :: "devices \<Rightarrow> char \<Rightarrow> display \<Rightarrow> display option" where
  "show_char dev c d =
     (let d = (if gcon_active (d_gcon d)
               then let (g, s) = gcon_putc c (d_gcon d, d_lfb d) in d\<lparr>d_gcon := g, d_lfb := s\<rparr>
               else d\<lparr>d_vga := vga_putc c (d_vga d)\<rparr>)
      in if d_mirror d then map_option (\<lambda>tr. d\<lparr>d_uart := tr\<rparr>) (serial_write_char dev c (d_uart d)) else Some d)"

fun show_text :: "devices \<Rightarrow> char list \<Rightarrow> display \<Rightarrow> display option" where
  "show_text dev [] d = Some d"
| "show_text dev (c # cs) d = Option.bind (show_char dev c d) (show_text dev cs)"

lemma gcon_putc_active [simp]: "gcon_active (fst (gcon_putc c (g, s))) = gcon_active g"
  by (auto simp: gcon_putc_def cursor_draw_def cursor_erase_def newline_def cell_char_def Let_def)

text \<open>The screen part of one character, the serial mirror aside.\<close>

definition on_screen :: "char \<Rightarrow> display \<Rightarrow> display" where
  "on_screen c d =
     (if gcon_active (d_gcon d)
      then d\<lparr>d_gcon := fst (gcon_putc c (d_gcon d, d_lfb d)), d_lfb := snd (gcon_putc c (d_gcon d, d_lfb d))\<rparr>
      else d\<lparr>d_vga := vga_putc c (d_vga d)\<rparr>)"

lemma on_screen_fields [simp]: "d_uart (on_screen c d) = d_uart d" "d_mirror (on_screen c d) = d_mirror d"
    "gcon_active (d_gcon (on_screen c d)) = gcon_active (d_gcon d)"
    "on_screen c (d\<lparr>d_uart := tr\<rparr>) = (on_screen c d)\<lparr>d_uart := tr\<rparr>"
  by (simp_all add: on_screen_def)

text \<open>If the serial port drains, a text is shown: the call returns.\<close>

lemma show_char_returns:
  assumes "uart_drains dev"
  shows "\<exists>tr. show_char dev c d = Some ((on_screen c d)\<lparr>d_uart := tr\<rparr>) \<and>
     sent tr = sent (d_uart d) @ (if d_mirror d then map of_char (crlf [c]) else [])"
proof -
  have sc: "show_char dev c d = (if d_mirror d then map_option (\<lambda>tr. (on_screen c d)\<lparr>d_uart := tr\<rparr>) (serial_write_char dev c (d_uart d))
      else Some (on_screen c d))"
    by (simp add: show_char_def on_screen_def Let_def case_prod_unfold)
  obtain tr where "serial_write_char dev c (d_uart d) = Some tr" "sent tr = sent (d_uart d) @ map of_char (crlf [c])"
    using serial_write_char_sends [OF assms] by blast
  then show ?thesis unfolding sc
    by (cases "d_mirror d") (auto intro: exI [of _ "d_uart d"])
qed

lemma show_text_returns:
  assumes "uart_drains dev"
  shows "\<exists>tr. show_text dev cs d = Some ((fold on_screen cs d)\<lparr>d_uart := tr\<rparr>) \<and>
    sent tr = sent (d_uart d) @ (if d_mirror d then map of_char (crlf cs) else [])"
proof (induction cs arbitrary: d)
  case Nil
  have "d = d\<lparr>d_uart := d_uart d\<rparr>" by simp
  then show ?case by (metis append_Nil2 crlf.simps(1) fold_simps(1) list.simps(8) show_text.simps(1))
next
  case (Cons c cs)
  obtain tr where tr: "show_char dev c d = Some ((on_screen c d)\<lparr>d_uart := tr\<rparr>)"
      "sent tr = sent (d_uart d) @ (if d_mirror d then map of_char (crlf [c]) else [])"
    using show_char_returns [OF assms] by blast
  have "fold on_screen cs (e\<lparr>d_uart := t\<rparr>) = (fold on_screen cs e)\<lparr>d_uart := t\<rparr>" for e t
    by (induction cs arbitrary: e) simp_all
  then show ?case using Cons.IH [of "(on_screen c d)\<lparr>d_uart := tr\<rparr>"] tr crlf_Cons [of c cs]
    by (auto simp del: crlf.simps)
qed

lemma fold_on_screen_gcon:
  assumes "gcon_active (d_gcon d)"
  shows "d_vga (fold on_screen cs d) = d_vga d \<and> gcon_active (d_gcon (fold on_screen cs d)) \<and>
    (d_gcon (fold on_screen cs d), d_lfb (fold on_screen cs d)) = fold gcon_putc cs (d_gcon d, d_lfb d)"
  using assms by (induction cs arbitrary: d) (auto simp: on_screen_def)

lemma fold_on_screen_vga:
  assumes "\<not> gcon_active (d_gcon d)"
  shows "d_vga (fold on_screen cs d) = fold vga_putc cs (d_vga d) \<and> d_gcon (fold on_screen cs d) = d_gcon d \<and>
    d_lfb (fold on_screen cs d) = d_lfb d"
  using assms by (induction cs arbitrary: d) (auto simp: on_screen_def)

text \<open>
  C32: A text sent to the console returns once the serial port takes it; the screen in front, the
  graphical console when it is active and the text-mode screen otherwise, goes on from the
  document it displays, the screen behind is untouched, and the serial port has sent the text
  with carriage returns before its newlines.
\<close>

theorem console_shows_text:
  assumes "uart_drains dev" "d_mirror d" "CHR 0x0D \<notin> set cs"
    and "if gcon_active (d_gcon d) then gcon_displays g0 s (d_gcon d, d_lfb d) e else vga_displays col (d_vga d) e"
  shows "\<exists>d'. show_text dev cs d = Some d' \<and> sent (d_uart d') = sent (d_uart d) @ map of_char (crlf cs) \<and>
    (if gcon_active (d_gcon d)
     then gcon_displays g0 s (d_gcon d', d_lfb d') (fold (doc_putc (nat (cols g0))) cs e) \<and> d_vga d' = d_vga d
     else vga_displays col (d_vga d') (fold (doc_putc 80) cs e) \<and> d_lfb d' = d_lfb d)"
proof -
  obtain tr where tr: "show_text dev cs d = Some ((fold on_screen cs d)\<lparr>d_uart := tr\<rparr>)" "sent tr = sent (d_uart d) @ map of_char (crlf cs)"
    using show_text_returns [OF assms(1), of cs d] assms(2) by auto
  show ?thesis
  proof (cases "gcon_active (d_gcon d)")
    case True
    then show ?thesis using tr gcon_text.write_shows [of g0 s "(d_gcon d, d_lfb d)" e cs] fold_on_screen_gcon [OF True, of cs] assms(3,4)
      by auto
  next
    case False
    then show ?thesis using tr vga_text.write_shows [of col "d_vga d" e cs] fold_on_screen_vga [OF False, of cs] assms(3,4) by auto
  qed
qed

definition boot_display :: display where
  "boot_display = \<lparr>d_vga = vga_init \<lparr>vga_cells = replicate 2000 0, vga_row = 0, vga_col = 0, vga_color = 0, vga_io = []\<rparr>,
     d_gcon = gcon_static, d_lfb = screen, d_mirror = True, d_uart = []\<rparr>"

theorem console_shows_text_witness:
  "\<exists>d'. show_text ready_uart ''ok'' boot_display = Some d' \<and> sent (d_uart d') = [0x6F, 0x6B] \<and>
     vga_displays 7 (d_vga d') (fold (doc_putc 80) ''ok'' empty_doc) \<and> d_lfb d' = screen"
proof -
  from console_shows_text [OF ready_uart_drains, of boot_display "''ok''" _ _ empty_doc 7] show ?thesis
    by (simp add: boot_display_def gcon_static_def vga_init_displays)
qed

end
