(* ===== verification/Calculator.thy ===== *)
theory Calculator
  imports Lfb Kprintf
begin

text \<open>
  The Calculator of the desktop (\<open>kernel/gui/apps.c\<close>, helpers and the Calculator section). C's
  \<open>long\<close> has 32 bits on this target: sums and products are taken modulo \<open>2 ^ 32\<close> as the
  compiled code computes them, and the one division the processor refuses, \<open>LONG_MIN / -1\<close>,
  is the result \<open>None\<close>. The lemmas say what number a sequence of keys shows and which buttons
  the mouse reaches.
\<close>

section \<open>Helpers\<close>

definition slen_int :: "char list \<Rightarrow> int" where
  "slen_int s = int (cstrlen s)"

text \<open>\<open>while (u) { tmp[i++] = '0' + u % 10; u /= 10; }\<close>: the digits, last one first.\<close>

function itoa_loop :: "u32 \<Rightarrow> char list \<Rightarrow> char list" where
  "itoa_loop u tmp = (if u = 0 then tmp else itoa_loop (u div 10) (tmp @ [char_of (unat (48 + u mod 10))]))"
  by pat_completeness auto

termination itoa_loop
proof (relation "measure (\<lambda>(u, tmp). unat u)")
  fix u :: u32 and tmp :: "char list"
  assume "u \<noteq> 0"
  then have "unat (u div 10) < unat u" using unat_div_less [of u 10] by (simp add: word_gt_0)
  then show "((u div 10, tmp @ [char_of (unat (48 + u mod 10))]), u, tmp) \<in> measure (\<lambda>(u, tmp). unat u)" by simp
qed simp

declare itoa_loop.simps [simp del]

definition itoa_l :: "int \<Rightarrow> char list" where
  "itoa_l v =
     (let neg = v < 0;
          u = (if neg then word_of_int (- (v + 1)) + 1 else word_of_int v :: u32);
          tmp = (if u = 0 then ''0'' else []);
          tmp = itoa_loop u tmp
      in (if neg then ''-'' else []) @ rev tmp)"

definition PANEL_BG :: u32 where "PANEL_BG = 0x0a0f1a"
definition CARD_BG :: u32 where "CARD_BG = 0x121a2b"
definition CARD2 :: u32 where "CARD2 = 0x1b263d"
definition TXT_HI :: u32 where "TXT_HI = 0xe8eefc"
definition TXT_LO :: u32 where "TXT_LO = 0x8aa0c0"
definition ACCENT :: u32 where "ACCENT = 0x6cc7ff"
definition GOOD :: u32 where "GOOD = 0x47d18a"
definition WARN :: u32 where "WARN = 0xffbd2e"
definition BAD :: u32 where "BAD = 0xff6b6b"

section \<open>The calculator\<close>

record calc =
  cc_x :: int
  cc_y :: int
  cc_w :: int
  cc_h :: int
  cc_bx :: int
  cc_by :: int
  cc_cw :: int
  cc_ch :: int
  cc_gap :: int
  cc_acc :: int
  cc_cur :: int
  cc_op :: char
  cc_fresh :: bool
  cc_disp :: int

text \<open>The zero-initialised statics.\<close>

definition calc_static :: calc where
  "calc_static = \<lparr>cc_x = 0, cc_y = 0, cc_w = 0, cc_h = 0, cc_bx = 0, cc_by = 0, cc_cw = 0, cc_ch = 0, cc_gap = 0,
     cc_acc = 0, cc_cur = 0, cc_op = NUL, cc_fresh = False, cc_disp = 0\<rparr>"

definition CALC_LBL :: "char list list" where
  "CALC_LBL = [''789/'', ''456*'', ''123-'', ''0=+C'']"

definition calc_draw_display :: "calc \<Rightarrow> lfb \<Rightarrow> lfb" where
  "calc_draw_display k s =
     (let s = lfb_round_fill (cc_x k + 14) (cc_y k + 14) (cc_w k - 28) 56 8 0x05080f s;
          buf = itoa_l (cc_disp k)
      in lfb_text (cc_x k + cc_w k - 28 - slen_int buf * 16) (cc_y k + 30) buf GOOD (-1) 2 s)"

definition calc_draw_buttons :: "calc \<Rightarrow> lfb \<Rightarrow> lfb" where
  "calc_draw_buttons k =
     for_int 4 (\<lambda>r. for_int 4 (\<lambda>c s.
       let bx = cc_bx k + c * (cc_cw k + cc_gap k); by = cc_by k + r * (cc_ch k + cc_gap k);
           bgc = (if c = 3 then 0x2a3a5e else CARD2);
           bgc = (if r = 3 \<and> c = 1 then ACCENT else bgc);
           bgc = (if r = 3 \<and> c = 3 then 0x5a2a3a else bgc);
           s = lfb_round_fill bx by (cc_cw k) (cc_ch k) 8 bgc s;
           fgc = (if r = 3 \<and> c = 1 then 0x06121f else TXT_HI)
       in lfb_text (bx + (cc_cw k - 16) sdiv 2) (by + (cc_ch k - 32) sdiv 2) [CALC_LBL ! nat r ! nat c] fgc (-1) 2 s))"

definition app_calc_open :: "int \<Rightarrow> int \<Rightarrow> int \<Rightarrow> int \<Rightarrow> calc \<times> lfb \<Rightarrow> calc \<times> lfb" where
  "app_calc_open x y w h = (\<lambda>(k, s).
     let s = lfb_fill x y w h PANEL_BG s;
         k = k\<lparr>cc_w := 300, cc_h := 400\<rparr>;
         k = k\<lparr>cc_x := x + (w - cc_w k) sdiv 2, cc_y := y + (h - cc_h k) sdiv 2\<rparr>;
         k = (if cc_y k < y + 12 then k\<lparr>cc_y := y + 12\<rparr> else k);
         s = lfb_round_fill (cc_x k) (cc_y k) (cc_w k) (cc_h k) 14 CARD_BG s;
         s = lfb_text (cc_x k + 14) (cc_y k - 26) ''Calculator'' TXT_LO (-1) 1 s;
         k = k\<lparr>cc_gap := 10, cc_bx := cc_x k + 14, cc_by := cc_y k + 84\<rparr>;
         k = k\<lparr>cc_cw := (cc_w k - 28 - 3 * cc_gap k) sdiv 4, cc_ch := (cc_h k - 84 - 14 - 3 * cc_gap k) sdiv 4\<rparr>;
         k = k\<lparr>cc_acc := 0, cc_cur := 0, cc_op := NUL, cc_fresh := True, cc_disp := 0\<rparr>;
         s = calc_draw_display k s
     in (k, calc_draw_buttons k s))"

definition wrap_long :: "int \<Rightarrow> int" where
  "wrap_long v = sint (word_of_int v :: u32)"

definition calc_apply :: "int \<Rightarrow> char \<Rightarrow> int \<Rightarrow> int option" where
  "calc_apply a op b =
     (if op = CHR ''+'' then Some (wrap_long (a + b))
      else if op = CHR ''-'' then Some (wrap_long (a - b))
      else if op = CHR ''*'' then Some (wrap_long (a * b))
      else if op = CHR ''/'' then
        (if b = 0 then Some 0 else if a = - 2147483648 \<and> b = -1 then None else Some (a sdiv b))
      else Some b)"

definition calc_total :: "calc \<Rightarrow> int option" where
  "calc_total k = (if cc_op k \<noteq> NUL then calc_apply (cc_acc k) (cc_op k) (cc_cur k) else Some (cc_cur k))"

text \<open>The state change of \<open>app_calc_key\<close>; the flag tells whether the display is redrawn.\<close>

definition calc_key :: "char \<Rightarrow> calc \<Rightarrow> (bool \<times> calc) option" where
  "calc_key c k =
     (if is_digit c then
        let k = (if cc_fresh k then k\<lparr>cc_cur := 0, cc_fresh := False\<rparr> else k);
            k = k\<lparr>cc_cur := wrap_long (cc_cur k * 10 + (of_char c - 48))\<rparr>
        in Some (True, k\<lparr>cc_disp := cc_cur k\<rparr>)
      else if c = CHR ''+'' \<or> c = CHR ''-'' \<or> c = CHR ''*'' \<or> c = CHR ''/'' then
        map_option (\<lambda>v. (True, k\<lparr>cc_acc := v, cc_op := c, cc_fresh := True, cc_disp := v\<rparr>)) (calc_total k)
      else if c = CHR ''='' \<or> c = CHR 0x0A then
        map_option (\<lambda>v. (True, k\<lparr>cc_acc := v, cc_op := NUL, cc_disp := v, cc_cur := v, cc_fresh := True\<rparr>)) (calc_total k)
      else if c = CHR ''c'' \<or> c = CHR ''C'' then
        Some (True, k\<lparr>cc_acc := 0, cc_cur := 0, cc_op := NUL, cc_fresh := True, cc_disp := 0\<rparr>)
      else Some (False, k))"

definition app_calc_key :: "char \<Rightarrow> calc \<times> lfb \<Rightarrow> (calc \<times> lfb) option" where
  "app_calc_key c = (\<lambda>(k, s). map_option (\<lambda>(redraw, k). (k, if redraw then calc_draw_display k s else s)) (calc_key c k))"

text \<open>The loops of \<open>app_calc_click\<close> look for the first button that holds the point.\<close>

definition calc_hit :: "calc \<Rightarrow> int \<Rightarrow> int \<Rightarrow> (int \<times> int) option" where
  "calc_hit k mx my =
     List.find (\<lambda>(r, c). let bx = cc_bx k + c * (cc_cw k + cc_gap k); by = cc_by k + r * (cc_ch k + cc_gap k)
       in mx \<ge> bx \<and> mx < bx + cc_cw k \<and> my \<ge> by \<and> my < by + cc_ch k) (List.product [0..3] [0..3])"

definition app_calc_click :: "int \<Rightarrow> int \<Rightarrow> calc \<times> lfb \<Rightarrow> (calc \<times> lfb) option" where
  "app_calc_click mx my = (\<lambda>(k, s).
     case calc_hit k mx my of
       None \<Rightarrow> Some (k, s)
     | Some (r, c) \<Rightarrow> map_option (\<lambda>(k, s). (k, calc_draw_buttons k s)) (app_calc_key (CALC_LBL ! nat r ! nat c) (k, s)))"

section \<open>Numbers as text\<close>

lemma itoa_digit: "char_of (unat (48 + u mod 10 :: u32)) = digit_char False (u mod 10)"
proof -
  define d where "d = unat (u mod 10)"
  have d: "d < 10" unfolding d_def by (simp add: unat_mod)
  then have "unat (48 + u mod 10) = 48 + d" by (simp add: d_def unat_add_u32)
  moreover have "\<forall>d \<in> set [0..<10]. char_of (48 + d :: nat) = ''0123456789abcdef'' ! d" by code_simp
  ultimately show ?thesis using d by (simp add: digit_char_def flip: d_def)
qed

lemma itoa_loop_digits: "itoa_loop u tmp = digit_loop 10 False u tmp"
proof (induction u tmp rule: itoa_loop.induct)
  case (1 u tmp)
  then show ?case by (simp add: itoa_loop.simps [of u tmp] digit_loop.simps [of 10 False u tmp] itoa_digit word_gt_0)
qed

text \<open>\<open>itoa_l\<close> agrees with the \<open>%d\<close> conversion of \<open>kprintf\<close>.\<close>

lemma itoa_l_dtext: "itoa_l (sint (v :: u32)) = dtext v"
proof -
  have pos: "rev (itoa_loop u (if u = 0 then ''0'' else [])) = the (print_uint u 10 False 0)" for u
    using print_uint_Some [of 10 0 u False]
    by (auto simp: print_uint_def itoa_loop_digits Let_def digit_loop.simps [of 10 False 0] split: if_splits)
  have neg: "word_of_int (- (sint v + 1)) + 1 = (word_of_int (- sint v) :: u32)" by simp
  show ?thesis
    using print_uint_Some [of 10 0 "word_of_int (- sint v)" False]
    by (auto simp: itoa_l_def dtext_def print_int_def Let_def pos neg simp del: of_int_minus)
qed

section \<open>Evaluation\<close>

fun type_keys :: "char list \<Rightarrow> calc \<times> lfb \<Rightarrow> (calc \<times> lfb) option" where
  "type_keys [] st = Some st"
| "type_keys (c # cs) st = Option.bind (app_calc_key c st) (type_keys cs)"

text \<open>
  The reference, in terms of integers only. Values are the integers of 32 bits with sign, and a
  result that does not fit is reduced to the one that differs from it by a multiple of \<open>2 ^ 32\<close>.
  Division drops the fraction; dividing by zero gives zero. The one quotient that does not fit
  has no value: there the processor faults.
\<close>

definition signed32 :: "int \<Rightarrow> int" where
  "signed32 v = (v + 2147483648) mod 4294967296 - 2147483648"

definition trunc_div :: "int \<Rightarrow> int \<Rightarrow> int" where
  "trunc_div a b = (if b = 0 then 0 else if (0 \<le> a) = (0 < b) then \<bar>a\<bar> div \<bar>b\<bar> else - (\<bar>a\<bar> div \<bar>b\<bar>))"

fun arith :: "char \<Rightarrow> int \<Rightarrow> int \<Rightarrow> int option" where
  "arith c a b =
     (if c = CHR ''+'' then Some (signed32 (a + b))
      else if c = CHR ''-'' then Some (signed32 (a - b))
      else if c = CHR ''*'' then Some (signed32 (a * b))
      else if trunc_div a b \<le> 2147483647 then Some (trunc_div a b) else None)"

fun digits_value :: "int \<Rightarrow> char list \<Rightarrow> int" where
  "digits_value n [] = n"
| "digits_value n (d # ds) = digits_value (10 * n + (of_char d - of_char (CHR ''0''))) ds"

definition calc_number :: "char list \<Rightarrow> int" where
  "calc_number ds = signed32 (digits_value 0 ds)"

fun calc_chain :: "int \<Rightarrow> (char \<times> int) list \<Rightarrow> int option" where
  "calc_chain v [] = Some v"
| "calc_chain v ((c, n) # rest) = Option.bind (arith c v n) (\<lambda>v. calc_chain v rest)"

definition number_keys :: "char list \<Rightarrow> bool" where
  "number_keys ds \<longleftrightarrow> ds \<noteq> [] \<and> list_all is_digit ds"

definition op_key :: "char \<Rightarrow> bool" where
  "op_key c \<longleftrightarrow> c \<in> set ''+-*/''"

definition fits32 :: "int \<Rightarrow> bool" where
  "fits32 v \<longleftrightarrow> - 2147483648 \<le> v \<and> v < 2147483648"

lemma wrap_long_signed32: "wrap_long v = signed32 v"
  unfolding wrap_long_def signed32_def by (simp add: sint_sbintrunc' signed_take_bit_eq_take_bit_shift take_bit_eq_mod)

lemma signed32_fits [simp]: "fits32 (signed32 v)"
  using pos_mod_bound [of 4294967296 "v + 2147483648"] pos_mod_sign [of 4294967296 "v + 2147483648"]
  by (simp add: fits32_def signed32_def del: pos_mod_bound pos_mod_sign)

lemma wrap_long_step: "wrap_long (wrap_long a * 10 + b) = wrap_long (a * 10 + b)"
  by (simp add: wrap_long_def)

lemma sdiv_trunc_div: "b \<noteq> 0 \<Longrightarrow> a sdiv b = trunc_div a b"
  by (auto simp: signed_divide_int_def trunc_div_def sgn_if)

lemma trunc_div_fits:
  assumes "fits32 a"
  shows "- 2147483648 \<le> trunc_div a b" "2147483647 < trunc_div a b \<longleftrightarrow> a = - 2147483648 \<and> b = - 1"
proof -
  have le: "\<bar>a\<bar> div \<bar>b\<bar> \<le> \<bar>a\<bar>" if "b \<noteq> 0" using zdiv_mono2 [of "\<bar>a\<bar>" 1 "\<bar>b\<bar>"] that by simp
  have half: "\<bar>a\<bar> div \<bar>b\<bar> \<le> \<bar>a\<bar> div 2" if "2 \<le> \<bar>b\<bar>" using zdiv_mono2 [of "\<bar>a\<bar>" 2 "\<bar>b\<bar>"] that by simp
  have nn: "0 \<le> \<bar>a\<bar> div \<bar>b\<bar>" by (simp add: div_int_pos_iff)
  show "- 2147483648 \<le> trunc_div a b" using le nn assms by (auto simp: trunc_div_def fits32_def)
  show "2147483647 < trunc_div a b \<longleftrightarrow> a = - 2147483648 \<and> b = - 1"
  proof (cases "b = 0 \<or> b = 1 \<or> b = - 1")
    case True
    then show ?thesis using assms by (auto simp: trunc_div_def fits32_def)
  next
    case False
    then have "2 \<le> \<bar>b\<bar>" by linarith
    then show ?thesis using half nn assms False by (auto simp: trunc_div_def fits32_def)
  qed
qed

text \<open>The code's operation is the reference's.\<close>

lemma calc_apply_arith:
  assumes "op_key c" "fits32 a"
  shows "calc_apply a c b = arith c a b"
  using assms trunc_div_fits [OF assms(2), of b]
  by (auto simp: op_key_def calc_apply_def wrap_long_signed32 sdiv_trunc_div trunc_div_def [of _ 0] not_le)

lemma arith_fits: "fits32 a \<Longrightarrow> arith c a b = Some v \<Longrightarrow> fits32 v"
  using trunc_div_fits(1) [of a b] by (auto split: if_splits) (simp add: fits32_def)

lemma digits_fold: "fold (\<lambda>d n. n * 10 + (of_char d - 48)) ds n = digits_value n ds"
  by (induction ds arbitrary: n) (simp_all add: mult.commute)

lemma calc_number_fold: "calc_number ds = wrap_long (fold (\<lambda>d n. n * 10 + (of_char d - 48)) ds 0)"
  by (simp only: calc_number_def wrap_long_signed32 digits_fold)

text \<open>The keys without the drawing.\<close>

fun run_keys :: "char list \<Rightarrow> calc \<Rightarrow> calc option" where
  "run_keys [] k = Some k"
| "run_keys (c # cs) k = Option.bind (calc_key c k) (\<lambda>(_, k). run_keys cs k)"

lemma type_keys_run: "map_option fst (type_keys cs (k, s)) = run_keys cs k"
proof (induction cs arbitrary: k s)
  case (Cons c cs)
  then show ?case by (cases "calc_key c k") (auto simp: app_calc_key_def)
qed simp

lemma run_keys_append: "run_keys (cs @ ds) k = Option.bind (run_keys cs k) (run_keys ds)"
  by (induction cs arbitrary: k) (auto split: Option.bind_splits)

lemma run_digits:
  assumes "list_all is_digit ds" "\<not> cc_fresh k" "cc_cur k = wrap_long n" "cc_disp k = wrap_long n"
  shows "\<exists>k'. run_keys ds k = Some k' \<and> cc_acc k' = cc_acc k \<and> cc_op k' = cc_op k \<and> \<not> cc_fresh k' \<and> cc_disp k' = cc_cur k' \<and>
    cc_cur k' = wrap_long (fold (\<lambda>d n. n * 10 + (of_char d - 48)) ds n)"
  using assms
proof (induction ds arbitrary: k n)
  case (Cons d ds)
  define k1 where "k1 = k\<lparr>cc_cur := wrap_long (cc_cur k * 10 + (of_char d - 48)), cc_disp := wrap_long (cc_cur k * 10 + (of_char d - 48))\<rparr>"
  have "calc_key d k = Some (True, k1)" using Cons.prems(1,2) by (simp add: calc_key_def k1_def)
  moreover have "\<not> cc_fresh k1" "cc_cur k1 = wrap_long (n * 10 + (of_char d - 48))" "cc_disp k1 = wrap_long (n * 10 + (of_char d - 48))"
    using Cons.prems(2,3) by (simp_all add: k1_def wrap_long_step)
  ultimately show ?case using Cons.IH [of k1] Cons.prems(1) by (simp add: k1_def)
qed simp

lemma run_number:
  assumes "number_keys ds" "cc_fresh k"
  shows "\<exists>k'. run_keys ds k = Some k' \<and> cc_acc k' = cc_acc k \<and> cc_op k' = cc_op k \<and> \<not> cc_fresh k' \<and>
    cc_cur k' = calc_number ds \<and> cc_disp k' = calc_number ds"
proof -
  obtain d es where ds: "ds = d # es" "is_digit d" "list_all is_digit es" using assms(1) by (cases ds) (auto simp: number_keys_def)
  define k1 where "k1 = k\<lparr>cc_cur := wrap_long (of_char d - 48), cc_fresh := False, cc_disp := wrap_long (of_char d - 48)\<rparr>"
  have "calc_key d k = Some (True, k1)" using ds(2) assms(2) by (cases k) (simp add: calc_key_def k1_def)
  then show ?thesis using run_digits [OF ds(3), of k1 "of_char d - 48"] ds(1) by (auto simp: k1_def calc_number_fold)
qed

text \<open>An operator or the equals sign works out what has been entered so far.\<close>

lemma run_operator:
  assumes "op_key c"
  shows "run_keys [c] k = map_option (\<lambda>v. k\<lparr>cc_acc := v, cc_op := c, cc_fresh := True, cc_disp := v\<rparr>) (calc_total k)"
  using assms by (cases "calc_total k") (auto simp: op_key_def calc_key_def is_digit_def)

lemma run_equals:
  "run_keys ''='' k = map_option (\<lambda>v. k\<lparr>cc_acc := v, cc_op := NUL, cc_disp := v, cc_cur := v, cc_fresh := True\<rparr>) (calc_total k)"
  by (cases "calc_total k") (auto simp: calc_key_def is_digit_def)

definition chain_keys :: "(char \<times> char list) list \<Rightarrow> char list" where
  "chain_keys rest = concat (map (\<lambda>(op, ds). op # ds) rest) @ ''=''"

lemma run_chain:
  assumes "\<forall>(op, ds) \<in> set rest. op_key op \<and> number_keys ds" "\<not> cc_fresh k" "\<And>v. calc_total k = Some v \<Longrightarrow> fits32 v"
  shows "map_option cc_disp (run_keys (chain_keys rest) k) =
    Option.bind (calc_total k) (\<lambda>v. calc_chain v (map (\<lambda>(op, ds). (op, calc_number ds)) rest))"
  using assms
proof (induction rest arbitrary: k)
  case Nil
  then show ?case using run_equals [of k] by (cases "calc_total k") (simp_all add: chain_keys_def)
next
  case (Cons e rest)
  obtain op ds where e: "e = (op, ds)" "op_key op" "number_keys ds" using Cons.prems(1) by auto
  have keys: "chain_keys (e # rest) = [op] @ ds @ chain_keys rest" by (simp add: chain_keys_def e(1))
  show ?case
  proof (cases "calc_total k")
    case None
    then show ?thesis unfolding keys run_keys_append run_operator [OF e(2)] by simp
  next
    case (Some v)
    define k1 where "k1 = k\<lparr>cc_acc := v, cc_op := op, cc_fresh := True, cc_disp := v\<rparr>"
    obtain k2 where k2: "run_keys ds k1 = Some k2" "cc_acc k2 = v" "cc_op k2 = op" "\<not> cc_fresh k2" "cc_cur k2 = calc_number ds"
      using run_number [OF e(3), of k1] by (auto simp: k1_def)
    have "op \<noteq> NUL" using e(2) by (auto simp: op_key_def)
    then have tot: "calc_total k2 = arith op v (calc_number ds)"
      using k2 calc_apply_arith [OF e(2) Cons.prems(3) [OF Some]] by (simp add: calc_total_def)
    then have "fits32 u" if "calc_total k2 = Some u" for u using arith_fits [OF Cons.prems(3) [OF Some]] that by simp
    from Cons.IH [OF _ k2(4) this] show ?thesis using Cons.prems(1) Some k2(1) tot
      unfolding keys run_keys_append run_operator [OF e(2)] by (simp add: k1_def [symmetric] e(1))
  qed
qed

lemma calc_keys_value:
  assumes "number_keys ds" "\<forall>(op, es) \<in> set rest. op_key op \<and> number_keys es"
  shows "map_option (\<lambda>(k, s). cc_disp k) (type_keys (ds @ chain_keys rest) (app_calc_open x y w h (k, s))) =
    calc_chain (calc_number ds) (map (\<lambda>(op, es). (op, calc_number es)) rest)"
proof -
  obtain k0 s0 where opened: "app_calc_open x y w h (k, s) = (k0, s0)" by (metis surj_pair)
  then have k0: "cc_fresh k0" "cc_op k0 = NUL" by (auto simp: app_calc_open_def Let_def)
  obtain k1 where k1: "run_keys ds k0 = Some k1" "cc_op k1 = NUL" "\<not> cc_fresh k1" "cc_cur k1 = calc_number ds"
    using run_number [OF assms(1) k0(1)] k0(2) by auto
  have "map_option (\<lambda>(k, s). cc_disp k) (type_keys cs (k0, s0)) = map_option cc_disp (run_keys cs k0)" for cs
    unfolding type_keys_run [symmetric, of _ _ s0] by (simp add: option.map_comp comp_def case_prod_unfold)
  moreover have "calc_total k1 = Some (calc_number ds)" using k1 by (simp add: calc_total_def)
  ultimately show ?thesis using run_chain [OF assms(2) k1(3)] k1(1) by (simp add: opened run_keys_append calc_number_def)
qed

text \<open>
  C33: Typing a number, any chain of operators and numbers and the equals sign into the freshly opened
  calculator displays the value of the chain, worked out from left to right without precedence in
  32-bit two's complement: numbers, sums, differences and products are taken modulo \<open>2 ^ 32\<close>,
  division truncates towards zero and by zero gives 0. The keys stop the machine exactly when a
  quotient does not fit, which is \<open>LONG_MIN / -1\<close>.
\<close>

theorem calc_evaluates:
  assumes "number_keys ds" "\<forall>(op, es) \<in> set rest. op_key op \<and> number_keys es"
  shows "map_option (\<lambda>(k, s). cc_disp k) (type_keys (ds @ chain_keys rest) (app_calc_open x y w h (k, s))) =
    calc_chain (calc_number ds) (map (\<lambda>(op, es). (op, calc_number es)) rest)"
  using assms by (rule calc_keys_value)

theorem calc_evaluates_witness:
  "map_option (\<lambda>(k, s). cc_disp k) (type_keys ''12+3*4-7/2='' (app_calc_open 0 0 700 500 (calc_static, screen))) = Some 26"
proof -
  have keys: "''12+3*4-7/2='' = ''12'' @ chain_keys [(CHR ''+'', ''3''), (CHR ''*'', ''4''), (CHR ''-'', ''7''), (CHR ''/'', ''2'')]"
    by (simp add: chain_keys_def)
  have "calc_chain (calc_number ''12'') (map (\<lambda>(op, es). (op, calc_number es))
      [(CHR ''+'', ''3''), (CHR ''*'', ''4''), (CHR ''-'', ''7''), (CHR ''/'', ''2'')]) = Some 26" by code_simp
  then show ?thesis unfolding keys by (subst calc_evaluates) (auto simp: number_keys_def op_key_def is_digit_def)
qed

text \<open>The numbers are reduced modulo \<open>2 ^ 32\<close>, so that \<open>LONG_MIN\<close> and \<open>-1\<close> can be typed.\<close>

lemma calc_division_faults:
  "type_keys ''2147483648/4294967295='' (app_calc_open x y w h (k, s)) = None"
proof -
  have keys: "''2147483648/4294967295='' = ''2147483648'' @ chain_keys [(CHR ''/'', ''4294967295'')]" by (simp add: chain_keys_def)
  have "calc_number ''2147483648'' = - 2147483648" "calc_number ''4294967295'' = -1" by code_simp+
  then have "map_option (\<lambda>(k, s). cc_disp k) (type_keys ''2147483648/4294967295='' (app_calc_open x y w h (k, s))) = None"
    unfolding keys by (subst calc_keys_value) (auto simp: number_keys_def op_key_def is_digit_def trunc_div_def)
  then show ?thesis by simp
qed

section \<open>The buttons\<close>

lemma find_unique:
  assumes "x \<in> set xs" "P x" "\<And>y. P y \<Longrightarrow> y = x"
  shows "List.find P xs = Some x"
proof (cases "List.find P xs")
  case None
  then show ?thesis using assms(1,2) by (simp add: find_None_iff)
next
  case (Some y)
  then have "P y" by (auto simp: find_Some_iff)
  then show ?thesis using Some assms(3) by simp
qed

text \<open>A click inside the button in row \<open>r\<close>, column \<open>c\<close> of the opened calculator is the key on its label.\<close>

lemma calc_hit_button:
  assumes "app_calc_open x y w h (k, s) = (k0, s0)" "0 \<le> r" "r \<le> 3" "0 \<le> c" "c \<le> 3"
    and "cc_bx k0 + c * 70 \<le> mx" "mx < cc_bx k0 + c * 70 + 60" "cc_by k0 + r * 78 \<le> my" "my < cc_by k0 + r * 78 + 68"
  shows "calc_hit k0 mx my = Some (r, c)"
proof -
  have "k0 = fst (app_calc_open x y w h (k, s))" by (simp add: assms(1))
  then have k0: "cc_cw k0 = 60" "cc_ch k0 = 68" "cc_gap k0 = 10" by (simp_all add: app_calc_open_def Let_def)
  show ?thesis unfolding calc_hit_def
  proof (rule find_unique)
    show "(r, c) \<in> set (List.product [0..3] [0..3])" using assms(2-5) by simp
  next
    fix e
    assume "case e of (r, c) \<Rightarrow> let bx = cc_bx k0 + c * (cc_cw k0 + cc_gap k0); by = cc_by k0 + r * (cc_ch k0 + cc_gap k0)
       in mx \<ge> bx \<and> mx < bx + cc_cw k0 \<and> my \<ge> by \<and> my < by + cc_ch k0"
    then show "e = (r, c)" using assms(6-9) by (cases e) (auto simp: k0 Let_def)
  qed (use assms(6-9) in \<open>simp add: k0\<close>)
qed

section \<open>Drawing\<close>

lemma paint_calc [paint_intros]:
  "painted s t \<Longrightarrow> painted s (calc_draw_display k t)"
  "painted s t \<Longrightarrow> painted s (calc_draw_buttons k t)"
  unfolding calc_draw_display_def calc_draw_buttons_def Let_def by (assumption | rule paint_intros)+

lemma paint_calc_app:
  "painted s t \<Longrightarrow> painted s (snd (app_calc_open x y w h (k, t)))"
  "painted s t \<Longrightarrow> app_calc_key c (k, t) = Some (k', t') \<Longrightarrow> painted s t'"
  "painted s t \<Longrightarrow> app_calc_click mx my (k, t) = Some (k', t') \<Longrightarrow> painted s t'"
proof -
  show "painted s (snd (app_calc_open x y w h (k, t)))" if "painted s t"
    using that unfolding app_calc_open_def Let_def by (auto intro!: paint_intros)
  show key: "painted s t'" if "painted s t" "app_calc_key c (k, t) = Some (k', t')" for c k t k' t'
    using that by (auto simp: app_calc_key_def intro: paint_calc split: if_splits)
  show "painted s t'" if "painted s t" "app_calc_click mx my (k, t) = Some (k', t')"
    using that key by (auto simp: app_calc_click_def intro!: paint_calc split: option.splits)
qed

end
