(* ===== verification/Version.thy ===== *)
theory Version
  imports Thuos_Prelude
begin

text \<open>
  The identity strings of the system (\<open>kernel/include/version.h\<close>). The compiler's date and time
  stamps are arguments of the two commands that print them.
\<close>

definition THUOS_NAME :: "char list" where "THUOS_NAME = ''THUOS''"
definition THUOS_KERNEL_NAME :: "char list" where "THUOS_KERNEL_NAME = ''THU Kernel''"
definition THUOS_DESKTOP_NAME :: "char list" where "THUOS_DESKTOP_NAME = ''THU Desktop''"
definition THUOS_VERSION :: "char list" where "THUOS_VERSION = ''0.20.0''"
definition THUOS_CODENAME :: "char list" where "THUOS_CODENAME = ''AI-Native''"
definition THUOS_ARCH :: "char list" where "THUOS_ARCH = ''x86 (i386, 32-bit)''"

definition THUOS_MILESTONE :: "char list" where
  "THUOS_MILESTONE = ''Milestone 0.20 (founder tag 0.6G) - AI-Native General OS Foundation: in-kernel AI service/model/task/permission/audit core (host-tested) + '' @
     [CHR 0x27] @ ''ai'' @ [CHR 0x27] @ '' shell namespace + OS feature/status registry + dmesg/history; Thunity AI bridge is DESIGN-ONLY (no networking/inference/Docker/Python in THUOS yet); boot-verified (QEMU)''"

lemmas version_strings = THUOS_NAME_def THUOS_KERNEL_NAME_def THUOS_DESKTOP_NAME_def THUOS_VERSION_def
  THUOS_CODENAME_def THUOS_ARCH_def THUOS_MILESTONE_def

end
