(* ===== verification/Apps.thy ===== *)
theory Apps
  imports Calculator Ramfs Version
begin

text \<open>
  The other desktop applications (\<open>kernel/gui/apps.c\<close>): the Files viewer, the Notes editor that
  saves itself to the RAM filesystem, Paint and the panes of Settings. Each keeps its own statics
  and draws with the framebuffer primitives. The lemmas show what Notes stores and reads back,
  when its saving fails, which colour and canvas Paint reaches, and that all drawing stays on the
  screen.
\<close>

section \<open>Text blocks\<close>

fun text_block_loop :: "int \<Rightarrow> int \<Rightarrow> char list \<Rightarrow> u32 \<Rightarrow> int \<Rightarrow> int \<times> int \<times> int \<Rightarrow> lfb \<Rightarrow> int \<times> lfb" where
  "text_block_loop x cols [] fgc sc (y, cx, col) s = (y, s)"
| "text_block_loop x cols (c # str) fgc sc (y, cx, col) s =
     (let lh = 16 * sc; cw = 8 * sc
      in if c = CHR 0x0A then text_block_loop x cols str fgc sc (y + lh, x, 0) s
         else let (y, cx, col) = (if col \<ge> cols then (y + lh, x, 0) else (y, cx, col))
              in text_block_loop x cols str fgc sc (y, cx + cw, col + 1) (lfb_char cx y c fgc (-1) sc s))"

definition text_block :: "int \<Rightarrow> int \<Rightarrow> int \<Rightarrow> char list \<Rightarrow> u32 \<Rightarrow> int \<Rightarrow> lfb \<Rightarrow> int \<times> lfb" where
  "text_block x y w str fgc sc s =
     (let (y, s) = text_block_loop x (w sdiv (8 * sc)) (cstr str) fgc sc (y, x, 0) s in (y + 16 * sc, s))"

section \<open>Files\<close>

record files_app =
  fa_x :: int
  fa_y :: int
  fa_w :: int
  fa_h :: int
  fa_rowy :: int
  fa_rowh :: int
  fa_listx :: int
  fa_listw :: int

text \<open>One turn of the loop over the file table; \<open>shown\<close> counts the files listed.\<close>

definition files_row :: "files_app \<Rightarrow> ramfs \<Rightarrow> nat \<Rightarrow> int \<times> lfb \<Rightarrow> int \<times> lfb" where
  "files_row a fs i = (\<lambda>(shown, s).
     case kfs_name (int i) fs of
       None \<Rightarrow> (shown, s)
     | Some nm \<Rightarrow>
         let ry = fa_rowy a + shown * fa_rowh a;
             s = lfb_round_fill (fa_listx a) ry (fa_listw a) (fa_rowh a - 6) 6 CARD2 s
         in (shown + 1, lfb_text (fa_listx a + 10) (ry + 3) nm TXT_HI (-1) 1 s))"

definition app_files_open :: "int \<Rightarrow> int \<Rightarrow> int \<Rightarrow> int \<Rightarrow> ramfs \<Rightarrow> files_app \<times> lfb \<Rightarrow> files_app \<times> lfb" where
  "app_files_open x y w h fs = (\<lambda>(a, s).
     let a = a\<lparr>fa_x := x, fa_y := y, fa_w := w, fa_h := h\<rparr>;
         s = lfb_fill x y w h PANEL_BG s;
         s = lfb_text (x + 16) (y + 12) ''Files'' TXT_HI (-1) 2 s;
         s = lfb_text (x + 16) (y + 44) ''ramfs - click a file to view'' TXT_LO (-1) 1 s;
         buf = itoa_l (sint (kfs_bytes_used fs));
         s = lfb_text (x + 16) (y + 62) buf TXT_LO (-1) 1 s;
         s = lfb_text (x + 16 + slen_int buf * 8 + 8) (y + 62) ''bytes used'' TXT_LO (-1) 1 s;
         a = a\<lparr>fa_listx := x + 16, fa_listw := (w - 32) sdiv 2, fa_rowy := y + 90, fa_rowh := 28\<rparr>;
         (shown, s) = fold (files_row a fs) [0..<kfs_max_files] (0, s);
         s = (if shown = 0 then lfb_text (fa_listx a) (fa_rowy a) ''(no files)'' TXT_LO (-1) 1 s else s);
         s = lfb_round_fill (x + 16 + fa_listw a + 12) (y + 90) (w - 32 - fa_listw a - 12) (h - 100) 8 0x05080f s
     in (a, lfb_text (x + 16 + fa_listw a + 24) (y + 100) ''select a file ->'' TXT_LO (-1) 1 s))"

text \<open>The file in the \<open>row\<close>-th place of the list.\<close>

fun nth_file :: "ramfs \<Rightarrow> int \<Rightarrow> int \<Rightarrow> nat list \<Rightarrow> char list option" where
  "nth_file fs row shown [] = None"
| "nth_file fs row shown (i # is) =
     (case kfs_name (int i) fs of
        None \<Rightarrow> nth_file fs row shown is
      | Some nm \<Rightarrow> if shown = row then Some nm else nth_file fs row (shown + 1) is)"

text \<open>\<open>char tmp[512]\<close> takes at most 511 bytes of the file.\<close>

definition file_text :: "ramfs \<Rightarrow> u32 \<times> u32 \<Rightarrow> char list" where
  "file_text fs = (\<lambda>(off, n). map (\<lambda>j. char_of (unat (arena fs (off + of_nat j)))) [0..<min (unat n) 511])"

definition files_row_at :: "files_app \<Rightarrow> int \<Rightarrow> int \<Rightarrow> int option" where
  "files_row_at a mx my =
     (if mx < fa_listx a \<or> mx > fa_listx a + fa_listw a then None
      else let row = (my - fa_rowy a) sdiv fa_rowh a in if row < 0 then None else Some row)"

definition app_files_click :: "int \<Rightarrow> int \<Rightarrow> ramfs \<Rightarrow> files_app \<times> lfb \<Rightarrow> files_app \<times> lfb" where
  "app_files_click mx my fs = (\<lambda>(a, s).
     case Option.bind (files_row_at a mx my) (\<lambda>row. nth_file fs row 0 [0..<kfs_max_files]) of
       None \<Rightarrow> (a, s)
     | Some nm \<Rightarrow>
         let vx = fa_x a + 16 + fa_listw a + 12; vy = fa_y a + 90;
             vw = fa_w a - 32 - fa_listw a - 12; vh = fa_h a - 100;
             s = lfb_round_fill vx vy vw vh 8 0x05080f s;
             s = lfb_text (vx + 12) (vy + 10) nm ACCENT (-1) 1 s
         in case kfs_read nm fs of
              None \<Rightarrow> (a, s)
            | Some d \<Rightarrow> (a, snd (text_block (vx + 12) (vy + 34) (vw - 24) (file_text fs d) TXT_HI 1 s)))"

section \<open>Notes\<close>

record notes_app =
  no_tx :: int
  no_ty :: int
  no_tw :: int
  no_th :: int
  no_buf :: "char list"
  no_len :: nat

definition notes_render :: "notes_app \<times> lfb \<Rightarrow> notes_app \<times> lfb" where
  "notes_render = (\<lambda>(n, s).
     let s = lfb_round_fill (no_tx n) (no_ty n) (no_tw n) (no_th n) 8 0x05080f s;
         n = n\<lparr>no_buf := (no_buf n)[no_len n := NUL]\<rparr>
     in (n, snd (text_block (no_tx n + 12) (no_ty n + 10) (no_tw n - 24) (no_buf n) TXT_HI 2 s)))"

text \<open>The loop that loads the file: at most 1023 of its bytes.\<close>

definition notes_load :: "ramfs \<Rightarrow> u32 \<times> u32 \<Rightarrow> notes_app \<Rightarrow> notes_app" where
  "notes_load fs = (\<lambda>(off, len) n.
     fold (\<lambda>i n. if no_len n < 1023
        then n\<lparr>no_buf := (no_buf n)[no_len n := char_of (unat (arena fs (off + of_nat i)))], no_len := no_len n + 1\<rparr>
        else n) [0..<unat len] n)"

definition notes_name :: "char list" where "notes_name = ''notes.txt''"

definition app_notes_open :: "int \<Rightarrow> int \<Rightarrow> int \<Rightarrow> int \<Rightarrow> ramfs \<Rightarrow> notes_app \<times> lfb \<Rightarrow> notes_app \<times> lfb" where
  "app_notes_open x y w h fs = (\<lambda>(n, s).
     let s = lfb_fill x y w h PANEL_BG s;
         s = lfb_text (x + 16) (y + 12) ''Notes'' TXT_HI (-1) 2 s;
         s = lfb_text (x + 16) (y + 44) ''type to edit - autosaved to notes.txt'' TXT_LO (-1) 1 s;
         n = n\<lparr>no_tx := x + 16, no_ty := y + 70, no_tw := w - 32, no_th := h - 86\<rparr>;
         d = kfs_read notes_name fs;
         n = n\<lparr>no_len := 0\<rparr>;
         n = (case d of None \<Rightarrow> n | Some d \<Rightarrow> notes_load fs d n)
     in notes_render (n, s))"

text \<open>\<open>char\<close> is signed: \<open>c >= ' '\<close> holds for the codes 32 to 127.\<close>

definition typable :: "char \<Rightarrow> bool" where
  "typable c \<longleftrightarrow> 32 \<le> (of_char c :: nat) \<and> (of_char c :: nat) < 128"

definition notes_edit :: "char \<Rightarrow> notes_app \<Rightarrow> notes_app option" where
  "notes_edit c n =
     (if c = CHR 0x08 then Some (if no_len n > 0 then n\<lparr>no_len := no_len n - 1\<rparr> else n)
      else if c = CHR 0x0A \<or> typable c then
        Some (if no_len n < 1023 then n\<lparr>no_buf := (no_buf n)[no_len n := c], no_len := no_len n + 1\<rparr> else n)
      else None)"

definition app_notes_key :: "char \<Rightarrow> notes_app \<times> lfb \<times> ramfs \<Rightarrow> notes_app \<times> lfb \<times> ramfs" where
  "app_notes_key c = (\<lambda>(n, s, fs).
     case notes_edit c n of
       None \<Rightarrow> (n, s, fs)
     | Some n \<Rightarrow>
         let fs = snd (kfs_write notes_name (text_bytes (no_buf n)) (of_nat (no_len n)) fs);
             (n, s) = notes_render (n, s)
         in (n, s, fs))"

section \<open>Paint\<close>

record paint =
  pa_cx :: int
  pa_cy :: int
  pa_cw :: int
  pa_ch :: int
  pa_px :: int
  pa_py :: int
  pa_sw :: int
  pa_gap :: int
  pa_col :: u32
  pa_clrx :: int
  pa_clry :: int
  pa_clrw :: int
  pa_clrh :: int
  pa_lx :: int
  pa_ly :: int

definition PA_PAL :: "u32 list" where
  "PA_PAL = [0xffffff, 0xff5f56, 0xffbd2e, 0x27c93f, 0x6cc7ff, 0xb18cff, 0x0a0f1a]"

definition pa_in_canvas :: "int \<Rightarrow> int \<Rightarrow> paint \<Rightarrow> bool" where
  "pa_in_canvas x y p \<longleftrightarrow> x \<ge> pa_cx p + 4 \<and> x < pa_cx p + pa_cw p - 4 \<and> y \<ge> pa_cy p + 4 \<and> y < pa_cy p + pa_ch p - 4"

definition app_paint_open :: "int \<Rightarrow> int \<Rightarrow> int \<Rightarrow> int \<Rightarrow> paint \<times> lfb \<Rightarrow> paint \<times> lfb" where
  "app_paint_open x y w h = (\<lambda>(p, s).
     let p = p\<lparr>pa_lx := -1, pa_ly := -1\<rparr>;
         s = lfb_fill x y w h PANEL_BG s;
         s = lfb_text (x + 16) (y + 12) ''Paint'' TXT_HI (-1) 2 s;
         s = lfb_text (x + 16) (y + 44) ''drag on the canvas to draw - pick a colour below'' TXT_LO (-1) 1 s;
         p = p\<lparr>pa_cx := x + 16, pa_cy := y + 70, pa_cw := w - 32, pa_ch := h - 70 - 70\<rparr>;
         s = lfb_round_fill (pa_cx p) (pa_cy p) (pa_cw p) (pa_ch p) 8 0xf3f5fa s;
         p = p\<lparr>pa_sw := 40, pa_gap := 12, pa_px := x + 16, pa_py := pa_cy p + pa_ch p + 14\<rparr>;
         s = for_int 7 (\<lambda>i s.
               let sx = pa_px p + i * (pa_sw p + pa_gap p);
                   s = lfb_round_fill sx (pa_py p) (pa_sw p) (pa_sw p) 8 (PA_PAL ! nat i) s
               in if i = 6 then lfb_rect sx (pa_py p) (pa_sw p) (pa_sw p) 0x445 s else s) s;
         p = p\<lparr>pa_col := PA_PAL ! 6\<rparr>;
         p = p\<lparr>pa_clrw := 90, pa_clrh := 40, pa_clrx := x + w - 16 - 90, pa_clry := pa_py p\<rparr>;
         s = lfb_round_fill (pa_clrx p) (pa_clry p) (pa_clrw p) (pa_clrh p) 8 CARD2 s
     in (p, lfb_text (pa_clrx p + 16) (pa_clry p + 4) ''Clear'' TXT_HI (-1) 2 s))"

definition app_paint_motion :: "int \<Rightarrow> int \<Rightarrow> paint \<times> lfb \<Rightarrow> paint \<times> lfb" where
  "app_paint_motion mx my = (\<lambda>(p, s).
     if \<not> pa_in_canvas mx my p then (p\<lparr>pa_lx := -1\<rparr>, s)
     else if pa_lx p < 0 then (p\<lparr>pa_lx := mx, pa_ly := my\<rparr>, lfb_disc mx my 3 (pa_col p) s)
     else let dx = mx - pa_lx p; dy = my - pa_ly p;
              steps = (if dx < 0 then - dx else dx); ady = (if dy < 0 then - dy else dy);
              steps = (if ady > steps then ady else steps);
              steps = (if steps < 1 then 1 else steps);
              s = for_int (steps + 1) (\<lambda>i. lfb_disc (pa_lx p + dx * i sdiv steps) (pa_ly p + dy * i sdiv steps) 3 (pa_col p)) s
          in (p\<lparr>pa_lx := mx, pa_ly := my\<rparr>, s))"

definition pal_hit :: "paint \<Rightarrow> int \<Rightarrow> int \<Rightarrow> int option" where
  "pal_hit p mx my =
     List.find (\<lambda>i. let sx = pa_px p + i * (pa_sw p + pa_gap p)
       in mx \<ge> sx \<and> mx < sx + pa_sw p \<and> my \<ge> pa_py p \<and> my < pa_py p + pa_sw p) [0..6]"

definition app_paint_click :: "int \<Rightarrow> int \<Rightarrow> paint \<times> lfb \<Rightarrow> paint \<times> lfb" where
  "app_paint_click mx my = (\<lambda>(p, s).
     let p = p\<lparr>pa_lx := -1\<rparr>
     in case pal_hit p mx my of
          Some i \<Rightarrow> (p\<lparr>pa_col := PA_PAL ! nat i\<rparr>, s)
        | None \<Rightarrow>
            if mx \<ge> pa_clrx p \<and> mx < pa_clrx p + pa_clrw p \<and> my \<ge> pa_clry p \<and> my < pa_clry p + pa_clrh p
            then (p, lfb_round_fill (pa_cx p) (pa_cy p) (pa_cw p) (pa_ch p) 8 0xf3f5fa s)
            else app_paint_motion mx my (p, s))"

section \<open>Settings\<close>

record theme =
  th_name :: "char list"
  th_top :: u32
  th_bot :: u32
  th_acc :: u32

record settings =
  set_cat :: nat
  set_x :: int
  set_y :: int
  set_w :: int
  set_h :: int
  set_sw :: int
  set_rowh :: int
  set_cx :: int
  set_cy :: int
  set_cw :: int
  set_ch :: int
  set_sw_x :: "int list"
  set_sw_y :: "int list"

definition SET_CAT :: "char list list" where
  "SET_CAT = [''Appearance'', ''Display'', ''Date & Time'', ''Devices'', ''About'']"

definition THEMES :: "theme list" where
  "THEMES =
     [\<lparr>th_name = ''Midnight'', th_top = 0x0a1020, th_bot = 0x18243f, th_acc = 0x6cc7ff\<rparr>,
      \<lparr>th_name = ''Forest'', th_top = 0x081a14, th_bot = 0x12301f, th_acc = 0x47d18a\<rparr>,
      \<lparr>th_name = ''Sunset'', th_top = 0x1c0f18, th_bot = 0x2e1622, th_acc = 0xff7b54\<rparr>,
      \<lparr>th_name = ''Grape'', th_top = 0x140a24, th_bot = 0x241640, th_acc = 0xb18cff\<rparr>,
      \<lparr>th_name = ''Slate'', th_top = 0x0e1116, th_bot = 0x1a2230, th_acc = 0x9fb3d8\<rparr>]"

definition set_sw_w :: int where "set_sw_w = 150"
definition set_sw_h :: int where "set_sw_h = 64"

text \<open>One theme swatch; \<open>acc\<close> is the accent colour of the desktop.\<close>

definition swatch :: "u32 \<Rightarrow> int \<Rightarrow> int \<Rightarrow> nat \<Rightarrow> settings \<times> lfb \<Rightarrow> settings \<times> lfb" where
  "swatch acc x y i = (\<lambda>(c, s).
     let sx = x + int (i mod 3) * (set_sw_w + 16); sy = y + int (i div 3) * (set_sw_h + 16);
         c = c\<lparr>set_sw_x := (set_sw_x c)[i := sx], set_sw_y := (set_sw_y c)[i := sy]\<rparr>;
         th = THEMES ! i;
         s = lfb_round_fill sx sy set_sw_w set_sw_h 8 (th_top th) s;
         s = lfb_round_fill sx (sy + set_sw_h sdiv 2) set_sw_w (set_sw_h sdiv 2) 8 (th_bot th) s;
         s = lfb_disc (sx + 18) (sy + set_sw_h sdiv 2) 9 (th_acc th) s;
         s = lfb_text (sx + 36) (sy + set_sw_h sdiv 2 - 8) (th_name th) TXT_HI (-1) 1 s
     in (c, if th_acc th = acc then lfb_rect (sx - 2) (sy - 2) (set_sw_w + 4) (set_sw_h + 4) 0xffffff s else s))"

definition set_devices :: "(char list \<times> char list \<times> u32) list" where
  "set_devices =
     [(''Display '', ''1024x768x32 (Bochs VBE)  OK'', GOOD),
      (''Keyboard'', ''PS/2  OK'', GOOD),
      (''Mouse   '', ''PS/2  OK'', GOOD),
      (''Storage '', ''RAM filesystem (volatile)  OK'', GOOD),
      (''Timer   '', ''PIT 100 Hz  OK'', GOOD),
      (''Network '', ''emulated NIC may exist; no driver yet'', WARN),
      (''Camera  '', ''none (no device on this machine)'', BAD),
      (''Wi-Fi   '', ''not supported (needs vendor firmware)'', BAD),
      (''Bluetooth'', ''not supported'', BAD)]"

definition about_text :: "char list" where
  "about_text = THUOS_ARCH @ [CHR 0x0A, CHR 0x0A] @
     ''A from-scratch OS: a real x86 kernel in C + assembly,'' @ [CHR 0x0A] @
     ''booting in QEMU and verified in CI over serial.'' @ [CHR 0x0A, CHR 0x0A] @
     ''Apps: Terminal, Files, Notes, Calculator, Paint,'' @ [CHR 0x0A] @
     ''Settings. Click the dock; Esc returns to terminal.''"

definition about_line :: "char list" where
  "about_line = THUOS_NAME @ '' '' @ THUOS_VERSION @ '' '' @ [CHR 0x22] @ THUOS_CODENAME @ [CHR 0x22]"

text \<open>The panes; \<open>secs\<close> is \<open>pit_seconds()\<close>.\<close>

definition settings_content :: "u32 \<Rightarrow> u32 \<Rightarrow> settings \<times> lfb \<Rightarrow> settings \<times> lfb" where
  "settings_content acc secs = (\<lambda>(c, s).
     let s = lfb_fill (set_cx c) (set_cy c) (set_cw c) (set_ch c) PANEL_BG s;
         x = set_cx c + 18; y = set_cy c + 14;
         s = lfb_text x y (SET_CAT ! set_cat c) TXT_HI (-1) 2 s;
         y = y + 44
     in if set_cat c = 0 then
          (let s = lfb_text x y ''Theme - click to apply'' TXT_LO (-1) 1 s; y = y + 26
           in fold (swatch acc x y) [0..<5] (c, s))
        else if set_cat c = 1 then
          (let s = lfb_text x y ''Resolution : 1024 x 768'' TXT_HI (-1) 1 s; y = y + 22;
               s = lfb_text x y ''Colour     : 32-bit truecolor'' TXT_HI (-1) 1 s; y = y + 22;
               s = lfb_text x y ''Driver     : Bochs VBE linear framebuffer'' TXT_HI (-1) 1 s; y = y + 22
           in (c, lfb_text x y ''Backend    : QEMU std VGA (PCI BAR)'' TXT_LO (-1) 1 s))
        else if set_cat c = 2 then
          (let s = lfb_text x y ''Uptime : '' TXT_HI (-1) 1 s;
               b = itoa_l (sint secs);
               s = lfb_text (x + 80) y b TXT_HI (-1) 1 s;
               s = lfb_text (x + 80 + slen_int b * 8 + 4) y ''seconds'' TXT_HI (-1) 1 s; y = y + 22;
               s = lfb_text x y ''Tick   : PIT @ 100 Hz'' TXT_HI (-1) 1 s; y = y + 22;
               s = lfb_text x y ''Clock  : mm:ss shown in the top bar'' TXT_LO (-1) 1 s; y = y + 22
           in (c, lfb_text x y ''(no battery-backed RTC wired yet)'' TXT_LO (-1) 1 s))
        else if set_cat c = 3 then
          (c, snd (fold (\<lambda>(n, st, col) (y, s).
             let s = lfb_fill x (y + 5) 8 8 col s;
                 s = lfb_text (x + 16) y n TXT_HI (-1) 1 s
             in (y + 20, lfb_text (x + 16 + 9 * 8) y st TXT_LO (-1) 1 s)) set_devices (y, s)))
        else if set_cat c = 4 then
          (let s = lfb_text x y about_line ACCENT (-1) 1 s; y = y + 24
           in (c, snd (text_block x y (set_cw c - 36) about_text TXT_LO 1 s)))
        else (c, s))"

definition settings_sidebar :: "settings \<Rightarrow> lfb \<Rightarrow> lfb" where
  "settings_sidebar c s =
     (let s = lfb_fill (set_x c) (set_y c) (set_sw c) (set_h c) 0x0d1424 s;
          s = lfb_fill (set_x c + set_sw c) (set_y c) 1 (set_h c) 0x223456 s;
          s = lfb_text (set_x c + 16) (set_y c + 14) ''Settings'' TXT_HI (-1) 2 s
      in for_int 5 (\<lambda>i s.
           let ry = set_y c + 56 + i * set_rowh c;
               s = (if i = int (set_cat c) then lfb_round_fill (set_x c + 8) ry (set_sw c - 16) (set_rowh c - 6) 6 0x1c2740 s else s)
           in lfb_text (set_x c + 18) (ry + (set_rowh c - 6 - 16) sdiv 2) (SET_CAT ! nat i)
                (if i = int (set_cat c) then TXT_HI else TXT_LO) (-1) 1 s) s)"

definition app_settings_open :: "int \<Rightarrow> int \<Rightarrow> int \<Rightarrow> int \<Rightarrow> u32 \<Rightarrow> u32 \<Rightarrow> settings \<times> lfb \<Rightarrow> settings \<times> lfb" where
  "app_settings_open x y w h acc secs = (\<lambda>(c, s).
     let c = c\<lparr>set_x := x, set_y := y, set_w := w, set_h := h\<rparr>;
         c = c\<lparr>set_sw := 190, set_rowh := 34\<rparr>;
         c = c\<lparr>set_cx := x + set_sw c + 1, set_cy := y, set_cw := w - set_sw c - 1, set_ch := h\<rparr>;
         s = lfb_fill x y w h PANEL_BG s;
         s = settings_sidebar c s
     in settings_content acc secs (c, s))"

text \<open>What a click hits: a category of the sidebar, or a theme swatch.\<close>

definition cat_hit :: "settings \<Rightarrow> int \<Rightarrow> nat option" where
  "cat_hit c my = List.find (\<lambda>i. let ry = set_y c + 56 + int i * set_rowh c in my \<ge> ry \<and> my < ry + set_rowh c - 6) [0..<5]"

definition theme_hit :: "settings \<Rightarrow> int \<Rightarrow> int \<Rightarrow> nat option" where
  "theme_hit c mx my =
     List.find (\<lambda>i. mx \<ge> set_sw_x c ! i \<and> mx < set_sw_x c ! i + set_sw_w \<and> my \<ge> set_sw_y c ! i \<and> my < set_sw_y c ! i + set_sw_h) [0..<5]"

section \<open>Drawing stays on the screen\<close>

lemma paint_text_block_loop: "painted s t \<Longrightarrow> painted s (snd (text_block_loop x cols str fgc sc (y, cx, col) t))"
  by (induction str arbitrary: y cx col t) (simp_all add: Let_def paint_char)

lemma paint_text_block [paint_intros]: "painted s t \<Longrightarrow> painted s (snd (text_block x y w str fgc sc t))"
  unfolding text_block_def Let_def case_prod_unfold using paint_text_block_loop by simp

text \<open>Folds whose state carries more than the framebuffer.\<close>

lemma paint_fold_snd: "painted s (snd p) \<Longrightarrow> (\<And>x p. painted s (snd p) \<Longrightarrow> painted s (snd (f x p))) \<Longrightarrow> painted s (snd (fold f xs p))"
  by (induction xs arbitrary: p) auto

lemma paint_files_row: "painted s (snd p) \<Longrightarrow> painted s (snd (files_row a fs i p))"
  by (auto simp: files_row_def Let_def case_prod_unfold intro!: paint_intros split: option.splits)

lemma paint_files:
  "painted s t \<Longrightarrow> painted s (snd (app_files_open x y w h fs (a, t)))"
  "painted s t \<Longrightarrow> painted s (snd (app_files_click mx my fs (a, t)))"
  by (auto simp: app_files_open_def app_files_click_def Let_def case_prod_unfold split: option.splits
      intro!: paint_intros paint_fold_snd paint_files_row)

lemma paint_notes:
  "painted s t \<Longrightarrow> painted s (snd (notes_render (n, t)))"
  "painted s t \<Longrightarrow> painted s (snd (app_notes_open x y w h fs (n, t)))"
  "painted s t \<Longrightarrow> painted s (fst (snd (app_notes_key c (n, t, fs))))"
  by (auto simp: notes_render_def app_notes_open_def app_notes_key_def Let_def case_prod_unfold split: option.splits intro!: paint_intros)

lemma paint_paint:
  "painted s t \<Longrightarrow> painted s (snd (app_paint_open x y w h (p, t)))"
  "painted s t \<Longrightarrow> painted s (snd (app_paint_motion mx my (p, t)))"
  "painted s t \<Longrightarrow> painted s (snd (app_paint_click mx my (p, t)))"
  by (auto simp: app_paint_open_def app_paint_motion_def app_paint_click_def Let_def case_prod_unfold split: option.splits
      intro!: paint_intros)

lemma paint_swatch: "painted s (snd p) \<Longrightarrow> painted s (snd (swatch acc x y i p))"
  by (auto simp: swatch_def Let_def case_prod_unfold intro!: paint_intros)

lemma paint_settings:
  "painted s t \<Longrightarrow> painted s (snd (settings_content acc secs (c, t)))"
  "painted s t \<Longrightarrow> painted s (settings_sidebar c t)"
  "painted s t \<Longrightarrow> painted s (snd (app_settings_open x y w h acc secs (c, t)))"
proof -
  show content: "painted s (snd (settings_content acc secs (c, t)))" if "painted s t" for c t
    using that unfolding settings_content_def Let_def
    by (auto simp: case_prod_unfold intro!: paint_intros paint_fold_snd paint_swatch simp del: upt_rec_numeral)
  show bar: "painted s (settings_sidebar c t)" if "painted s t" for c t
    using that unfolding settings_sidebar_def Let_def by (auto intro!: paint_intros)
  show "painted s (snd (app_settings_open x y w h acc secs (c, t)))" if "painted s t"
    using that unfolding app_settings_open_def Let_def by (auto intro!: content bar paint_intros)
qed

section \<open>What Notes stores\<close>

definition notes_ok :: "notes_app \<Rightarrow> bool" where
  "notes_ok n \<longleftrightarrow> length (no_buf n) = 1024 \<and> no_len n \<le> 1023"

definition notes_text :: "notes_app \<Rightarrow> char list" where
  "notes_text n = take (no_len n) (no_buf n)"

definition bytes_of :: "char list \<Rightarrow> u8 list" where
  "bytes_of cs = map (\<lambda>c. of_nat (of_char c)) cs"

lemma notes_render_text [simp]: "notes_text (fst (notes_render (n, s))) = notes_text n" "notes_ok (fst (notes_render (n, s))) = notes_ok n"
  by (simp_all add: notes_render_def notes_text_def notes_ok_def Let_def)

lemma notes_length: "notes_ok n \<Longrightarrow> length (notes_text n) = no_len n"
  by (simp add: notes_ok_def notes_text_def)

text \<open>A key that types appends to the text while there is room in the buffer.\<close>

lemma notes_edit_types:
  assumes "notes_ok n" "c = CHR 0x0A \<or> typable c"
  shows "\<exists>n'. notes_edit c n = Some n' \<and> notes_ok n' \<and>
    notes_text n' = (if length (notes_text n) < 1023 then notes_text n @ [c] else notes_text n)"
proof -
  have "c \<noteq> CHR 0x08" using assms(2) by (auto simp: typable_def)
  then show ?thesis using assms by (auto simp: notes_edit_def notes_ok_def notes_text_def take_Suc_conv_app_nth)
qed

lemma notes_bytes:
  assumes "notes_ok n"
  shows "data_bytes (text_bytes (no_buf n)) (of_nat (no_len n)) = bytes_of (notes_text n)" "unat (of_nat (no_len n) :: u32) = no_len n"
proof -
  show len: "unat (of_nat (no_len n) :: u32) = no_len n" using assms by (simp add: notes_ok_def unat_of_nat_u32)
  show "data_bytes (text_bytes (no_buf n)) (of_nat (no_len n)) = bytes_of (notes_text n)"
    unfolding data_bytes_def len bytes_of_def notes_text_def
    using assms by (intro nth_equalityI) (auto simp: notes_ok_def text_bytes_def cget_def unat_of_nat_u32)
qed

text \<open>The effect of one typed key: the text grows, and it is saved when the filesystem has room for all of it.\<close>

lemma notes_key_saves:
  assumes "notes_ok n" "c = CHR 0x0A \<or> typable c" "length (notes_text n) < 1023" "ramfs_inv fs" "unat (arena_sz fs) = 65536"
    and "fs_map fs notes_name \<noteq> None \<or> (\<exists>f \<in> set (files fs). \<not> f_used f)" "app_notes_key c (n, s, fs) = (n', s', fs')"
  shows "notes_ok n' \<and> notes_text n' = notes_text n @ [c]"
    "unat (arena_used fs) + Suc (length (notes_text n)) \<le> 65536 \<Longrightarrow>
       ramfs_inv fs' \<and> unat (arena_sz fs') = 65536 \<and> fs_map fs' notes_name = Some (bytes_of (notes_text n @ [c])) \<and>
       unat (arena_used fs') = unat (arena_used fs) + Suc (length (notes_text n))"
    "65536 < unat (arena_used fs) + Suc (length (notes_text n)) \<Longrightarrow> fs' = fs"
proof -
  obtain n1 where n1: "notes_edit c n = Some n1" "notes_ok n1" "notes_text n1 = notes_text n @ [c]"
    using notes_edit_types [OF assms(1,2)] assms(3) by auto
  have nlen: "no_len n1 = Suc (length (notes_text n))" using notes_length [OF n1(2)] n1(3) by simp
  have eq: "n' = fst (notes_render (n1, s))" "fs' = snd (kfs_write notes_name (text_bytes (no_buf n1)) (of_nat (no_len n1)) fs)"
    using assms(7) n1(1) by (auto simp: app_notes_key_def Let_def case_prod_unfold)
  show "notes_ok n' \<and> notes_text n' = notes_text n @ [c]" using n1 by (simp add: eq)
  have short: "short_name notes_name" by (simp add: short_name_def notes_name_def RFS_NAME_MAX_def)
  define len where "len = (of_nat (no_len n1) :: u32)"
  have bytes: "data_bytes (text_bytes (no_buf n1)) len = bytes_of (notes_text n @ [c])" "unat len = Suc (length (notes_text n))"
    using notes_bytes [OF n1(2)] n1(3) nlen by (simp_all add: len_def)
  have fs': "fs' = snd (ramfs_write notes_name (text_bytes (no_buf n1)) len fs)" using eq(2) by (simp add: len_def kfs_write_def)
  have wrap: "unat (arena_used fs) + unat len < 4294967296"
    using assms(3-5) bytes(2) by (simp add: ramfs_inv_def word_le_nat_alt)
  show "ramfs_inv fs' \<and> unat (arena_sz fs') = 65536 \<and> fs_map fs' notes_name = Some (bytes_of (notes_text n @ [c])) \<and>
       unat (arena_used fs') = unat (arena_used fs) + Suc (length (notes_text n))"
    if "unat (arena_used fs) + Suc (length (notes_text n)) \<le> 65536"
    using assms(4) short wrap
  proof (cases rule: ramfs_write_cases [where data = "text_bytes (no_buf n1)"])
    case refused
    then show ?thesis using that assms(5,6) bytes(2) by auto
  next
    case (written f)
    then show ?thesis using assms(5) wrap bytes by (simp add: fs' unat_add_u32)
  qed
  show "fs' = fs" if "65536 < unat (arena_used fs) + Suc (length (notes_text n))"
    using assms(4) short wrap
  proof (cases rule: ramfs_write_cases [where data = "text_bytes (no_buf n1)"])
    case refused
    then show ?thesis by (simp add: fs')
  next
    case (written f)
    then show ?thesis using that assms(5) bytes(2) by simp
  qed
qed

text \<open>
  From a filesystem with \<open>u\<close> bytes in use the \<open>j\<close>-th key needs another \<open>j\<close> bytes: the file holds
  the longest part of the text for which all these still fit.
\<close>

definition tri :: "nat \<Rightarrow> nat" where
  "tri m = m * (m + 1) div 2"

lemma tri_Suc: "tri (Suc m) = tri m + Suc m"
proof -
  have "Suc m * (Suc m + 1) = m * (m + 1) + Suc m * 2" by (simp add: algebra_simps)
  then show ?thesis unfolding tri_def by (simp only: div_mult_self1)
qed

lemma tri_mono: "m \<le> n \<Longrightarrow> tri m \<le> tri n"
  unfolding tri_def by (intro div_le_mono mult_le_mono) simp_all

lemma tri_360: "tri 359 = 64620" "tri 360 = 64980" "tri 0 = 0"
  by (simp_all add: tri_def)

lemma notes_typed:
  assumes "notes_ok n" "notes_text n = []" "ramfs_inv fs" "unat (arena_sz fs) = 65536" "unat (arena_used fs) = 277"
    "\<exists>f \<in> set (files fs). \<not> f_used f" "list_all (\<lambda>c. c = CHR 0x0A \<or> typable c) cs" "length cs \<le> 1023"
    "fold app_notes_key cs (n, s, fs) = (n', s', fs')"
  shows "notes_ok n' \<and> notes_text n' = cs \<and> ramfs_inv fs' \<and> unat (arena_sz fs') = 65536 \<and>
    (cs \<noteq> [] \<longrightarrow> fs_map fs' notes_name = Some (bytes_of (take 360 cs))) \<and> (cs = [] \<longrightarrow> fs' = fs) \<and>
    unat (arena_used fs') = 277 + tri (min 360 (length cs))"
  using assms(7-9)
proof (induction cs arbitrary: n' s' fs' rule: rev_induct)
  case Nil
  then show ?case using assms(1-5) by (simp add: tri_360)
next
  case (snoc c cs)
  obtain n1 s1 fs1 where f: "fold app_notes_key cs (n, s, fs) = (n1, s1, fs1)" by (metis surj_pair)
  then have step: "app_notes_key c (n1, s1, fs1) = (n', s', fs')" using snoc.prems(3) by simp
  define m where "m = min 360 (length cs)"
  have IH: "notes_ok n1" "notes_text n1 = cs" "ramfs_inv fs1" "unat (arena_sz fs1) = 65536"
      "cs \<noteq> [] \<Longrightarrow> fs_map fs1 notes_name = Some (bytes_of (take 360 cs))" "cs = [] \<Longrightarrow> fs1 = fs"
      "unat (arena_used fs1) = 277 + tri m"
    using snoc.IH [OF _ _ f] snoc.prems(1,2) by (auto simp: m_def)
  have "fs_map fs1 notes_name \<noteq> None \<or> (\<exists>f \<in> set (files fs1). \<not> f_used f)" using IH(5,6) assms(6) by (cases "cs = []") auto
  note key = notes_key_saves [OF IH(1) _ _ IH(3,4) this step, unfolded IH(2)]
  have c: "c = CHR 0x0A \<or> typable c" "length cs < 1023" using snoc.prems(1,2) by auto
  show ?case
  proof (cases "length cs < 360")
    case True
    then have m: "m = length cs" "min 360 (length (cs @ [c])) = Suc m" by (simp_all add: m_def)
    then have "tri m \<le> 64620" using True tri_mono [of m 359] by (simp add: tri_360)
    then show ?thesis using key(1,2) c IH(7) True m by (simp add: tri_Suc)
  next
    case False
    then have "m = 360" "65536 < unat (arena_used fs1) + Suc (length cs)" using IH(7) by (simp_all add: m_def tri_360)
    moreover have "cs \<noteq> []" using False by auto
    ultimately show ?thesis using key(1,3) c IH False by (auto simp: min_def)
  qed
qed

text \<open>Opening the editor loads the file, up to the size of the buffer.\<close>

lemma notes_load_text:
  assumes "length (no_buf n) = 1024" "no_len n = 0" "unat len \<le> 1023"
  shows "length (no_buf (notes_load fs (off, len) n)) = 1024 \<and> no_len (notes_load fs (off, len) n) = unat len \<and>
    notes_text (notes_load fs (off, len) n) = map (\<lambda>b. char_of (unat b)) (content fs off len)"
proof -
  define step where "step = (\<lambda>i (n :: notes_app). if no_len n < 1023
        then n\<lparr>no_buf := (no_buf n)[no_len n := char_of (unat (arena fs (off + of_nat i)))], no_len := no_len n + 1\<rparr> else n)"
  have "length (no_buf (fold step [0..<m] n)) = 1024 \<and> no_len (fold step [0..<m] n) = m \<and>
      notes_text (fold step [0..<m] n) = map (\<lambda>i. char_of (unat (arena fs (off + of_nat i)))) [0..<m]" if "m \<le> 1023" for m
    using that
  proof (induction m)
    case 0
    then show ?case using assms by (simp add: notes_text_def)
  next
    case (Suc m)
    define q where "q = fold step [0..<m] n"
    have q: "length (no_buf q) = 1024" "no_len q = m"
        "notes_text q = map (\<lambda>i. char_of (unat (arena fs (off + of_nat i)))) [0..<m]"
      using Suc by (auto simp: q_def)
    have "fold step [0..<Suc m] n = q\<lparr>no_buf := (no_buf q)[m := char_of (unat (arena fs (off + of_nat m)))], no_len := m + 1\<rparr>"
    proof -
      have "fold step [0..<Suc m] n = step m q" by (simp add: q_def)
      then show ?thesis using Suc.prems q(2) by (simp add: step_def)
    qed
    then show ?case using q Suc.prems by (simp add: notes_text_def take_Suc_conv_app_nth)
  qed
  from this [OF assms(3)] show ?thesis by (simp add: notes_load_def step_def content_def comp_def)
qed

lemma notes_open_text:
  assumes "length (no_buf n) = 1024" "app_notes_open x y w h fs (n, s) = (n', s')"
    "fs_map fs notes_name = None \<and> cs = [] \<or> fs_map fs notes_name = Some (bytes_of cs) \<and> length cs \<le> 1023"
  shows "notes_ok n' \<and> notes_text n' = cs"
proof -
  define n0 where "n0 = n\<lparr>no_tx := x + 16, no_ty := y + 70, no_tw := w - 32, no_th := h - 86, no_len := 0\<rparr>"
  define n1 where "n1 = (case kfs_read notes_name fs of None \<Rightarrow> n0 | Some d \<Rightarrow> notes_load fs d n0)"
  define t where "t = lfb_text (x + 16) (y + 44) ''type to edit - autosaved to notes.txt'' TXT_LO (-1) 1
      (lfb_text (x + 16) (y + 12) ''Notes'' TXT_HI (-1) 2 (lfb_fill x y w h PANEL_BG s))"
  have "app_notes_open x y w h fs (n, s) = notes_render (n1, t)"
    by (simp add: app_notes_open_def n1_def n0_def t_def Let_def split: option.split)
  then have n': "n' = fst (notes_render (n1, t))" using assms(2) by (metis fst_conv)
  have n0: "length (no_buf n0) = 1024" "no_len n0 = 0" using assms(1) by (simp_all add: n0_def)
  have decode: "map (\<lambda>b. char_of (unat b)) (bytes_of cs) = cs"
    by (induction cs) (simp_all add: bytes_of_def unat_of_nat take_bit_eq_mod)
  have "notes_ok n1 \<and> notes_text n1 = cs"
  proof (cases "kfs_read notes_name fs")
    case None
    then show ?thesis using assms(3) n0 by (simp add: fs_map_def kfs_read_def n1_def notes_ok_def notes_text_def)
  next
    case (Some d)
    obtain off len where d: "d = (off, len)" by (cases d)
    have "content fs off len = bytes_of cs" "length cs \<le> 1023" using assms(3) Some by (auto simp: fs_map_def kfs_read_def d)
    moreover have "unat len = length cs" using arg_cong [OF calculation(1), of length] by (simp add: content_def bytes_of_def)
    ultimately show ?thesis using notes_load_text [OF n0, of len fs off] Some decode by (simp add: n1_def d notes_ok_def)
  qed
  then show ?thesis by (simp add: n')
qed

text \<open>
  C34: A text typed into Notes on the freshly initialised system is what the editor shows; reopening
  Notes gives back the first 360 characters of it. The whole text is saved again at every key, in
  fresh space of the 64 KiB arena: with the two built-in files in it there is room for the first
  360 savings, and every later one fails without notice.
\<close>

theorem notes_reopens_with_360:
  assumes "length kfiles = KFS_MAX_FILES" "\<forall>f \<in> set kfiles. length (f_name f) = RFS_NAME_MAX"
    and "length (no_buf n) = 1024" "list_all (\<lambda>c. c = CHR 0x0A \<or> typable c) cs" "length cs \<le> 1023"
    and "app_notes_open x y w h (kfs_init kfiles karena) (n, s) = (n1, s1)"
    and "fold app_notes_key cs (n1, s1, kfs_init kfiles karena) = (n2, s2, fs2)"
    and "app_notes_open x y w h fs2 (n2, s2) = (n3, s3)"
  shows "notes_text n2 = cs \<and> notes_text n3 = take 360 cs"
proof -
  define fs where "fs = kfs_init kfiles karena"
  note init = kfs_init_files [OF assms(1,2), of karena, folded fs_def]
  have fs: "ramfs_inv fs" "unat (arena_sz fs) = 65536" "unat (arena_used fs) = 277" "fs_map fs notes_name = None"
      "fcount fs = 2" "length (files fs) = 32"
    using init by (auto simp: KFS_ARENA_def KFS_MAX_FILES_def kfs_bytes_used_def ramfs_bytes_used_def kfs_count_def ramfs_count_def notes_name_def)
  have free: "\<exists>f \<in> set (files fs). \<not> f_used f"
  proof (rule ccontr)
    assume "\<not> ?thesis"
    then have "count_if f_used (files fs) = length (files fs)" by (simp add: count_if_def)
    then show False using fs by (simp add: ramfs_inv_def)
  qed
  have n1: "notes_ok n1" "notes_text n1 = []"
    using notes_open_text [OF assms(3,6) [folded fs_def], of "[]"] fs(4) by auto
  have typed: "notes_ok n2" "notes_text n2 = cs" "cs \<noteq> [] \<Longrightarrow> fs_map fs2 notes_name = Some (bytes_of (take 360 cs))" "cs = [] \<Longrightarrow> fs2 = fs"
    using notes_typed [OF n1 fs(1-3) free assms(4,5) assms(7) [folded fs_def]] by blast+
  have "length (no_buf n2) = 1024" using typed(1) by (simp add: notes_ok_def)
  then have "notes_text n3 = take 360 cs"
    using notes_open_text [OF _ assms(8), of "take 360 cs"] typed(3,4) fs(4) assms(5) by (cases "cs = []") auto
  then show ?thesis using typed(2) by simp
qed

definition notes_static :: notes_app where
  "notes_static = \<lparr>no_tx = 0, no_ty = 0, no_tw = 0, no_th = 0, no_buf = replicate 1024 NUL, no_len = 0\<rparr>"

theorem notes_reopens_with_360_witness:
  "\<exists>n2 s2 fs2 n3 s3.
     fold app_notes_key (replicate 361 (CHR ''a'')) (case app_notes_open 0 0 700 500 (kfs_init (replicate 32 blank_file) (\<lambda>_. 0))
       (notes_static, screen) of (n1, s1) \<Rightarrow> (n1, s1, kfs_init (replicate 32 blank_file) (\<lambda>_. 0))) = (n2, s2, fs2) \<and>
     app_notes_open 0 0 700 500 fs2 (n2, s2) = (n3, s3) \<and>
     notes_text n2 = replicate 361 (CHR ''a'') \<and> notes_text n3 = replicate 360 (CHR ''a'')"
proof -
  define fs where "fs = kfs_init (replicate 32 blank_file) (\<lambda>_. 0)"
  obtain n1 s1 where o1: "app_notes_open 0 0 700 500 fs (notes_static, screen) = (n1, s1)" by (metis surj_pair)
  obtain n2 s2 fs2 where k: "fold app_notes_key (replicate 361 (CHR ''a'')) (n1, s1, fs) = (n2, s2, fs2)" by (metis surj_pair)
  obtain n3 s3 where o3: "app_notes_open 0 0 700 500 fs2 (n2, s2) = (n3, s3)" by (metis surj_pair)
  have "notes_text n2 = replicate 361 (CHR ''a'') \<and> notes_text n3 = take 360 (replicate 361 (CHR ''a''))"
    using notes_reopens_with_360 [OF _ _ _ _ _ o1 [unfolded fs_def] k [unfolded fs_def] o3]
    by (simp add: KFS_MAX_FILES_def blank_file_def notes_static_def typable_def list_all_iff)
  then show ?thesis using o1 k o3 by (simp add: fs_def [symmetric])
qed

section \<open>Clicks in the Files list\<close>

text \<open>
  The row of a click is found with C's division, which rounds towards zero: a click up to 27 pixels
  above the first row opens the first file, too.
\<close>

lemma files_click_row:
  assumes "fa_rowh a = 28" "fa_listx a \<le> mx" "mx \<le> fa_listx a + fa_listw a"
  shows "0 \<le> r \<Longrightarrow> fa_rowy a + r * 28 \<le> my \<Longrightarrow> my < fa_rowy a + r * 28 + 28 \<Longrightarrow> files_row_at a mx my = Some r"
    "fa_rowy a - 28 < my \<Longrightarrow> my < fa_rowy a \<Longrightarrow> files_row_at a mx my = Some 0"
proof -
  show "files_row_at a mx my = Some r" if "0 \<le> r" "fa_rowy a + r * 28 \<le> my" "my < fa_rowy a + r * 28 + 28"
  proof -
    have "(my - fa_rowy a) div 28 = r" using that by auto
    moreover have "0 \<le> my - fa_rowy a" using that by auto
    ultimately show ?thesis using assms that(1) by (auto simp: files_row_at_def Let_def signed_divide_int_def sgn_if)
  qed
  show "files_row_at a mx my = Some 0" if "fa_rowy a - 28 < my" "my < fa_rowy a"
    using assms that by (simp add: files_row_at_def Let_def signed_divide_int_def sgn_if div_pos_pos_trivial)
qed

end
