(* ===== verification/Desktop.thy ===== *)
theory Desktop
  imports Console Apps Syscall
begin

text \<open>
  The THU Desktop's drawing (\<open>kernel/gui/desktop.c\<close>): pointer, icons, dock, clock, window chrome
  and the switching of applications, over the state of the whole kernel. The lemmas show that
  the pointer leaves the picture under it intact, that everything the desktop draws stays on the
  screen, and where the dock's icons are.
\<close>

section \<open>The state of the kernel the desktop and the shell work on\<close>

definition APP_TERMINAL :: nat where "APP_TERMINAL = 0"
definition APP_FILES :: nat where "APP_FILES = 1"
definition APP_NOTES :: nat where "APP_NOTES = 2"
definition APP_CALC :: nat where "APP_CALC = 3"
definition APP_PAINT :: nat where "APP_PAINT = 4"
definition APP_SETTINGS :: nat where "APP_SETTINGS = 5"

lemmas app_ids = APP_TERMINAL_def APP_FILES_def APP_NOTES_def APP_CALC_def APP_PAINT_def APP_SETTINGS_def

definition NAPP :: nat where "NAPP = 6"
definition ds :: int where "ds = 52"
definition dgap :: int where "dgap = 18"
definition CUR_W :: int where "CUR_W = 12"
definition CUR_H :: int where "CUR_H = 19"

record desk =
  dW :: int
  dH :: int
  wx :: int
  wy :: int
  ww :: int
  wh :: int
  th :: int
  px :: int
  py :: int
  pw :: int
  ph :: int
  gcx :: int
  gcy :: int
  gcols :: int
  grows :: int
  dbx :: int
  dby :: int
  dbw :: int
  dbh :: int
  g_app :: nat
  g_wall_top :: u32
  g_wall_bot :: u32
  g_accent :: u32
  cur_save :: "u32 list"
  cur_x :: int
  cur_y :: int
  cur_vis :: bool

record gui =
  k_disp :: display
  k_con :: console
  k_pit :: pit
  k_fs :: ramfs
  k_desk :: desk
  k_calc :: calc
  k_files :: files_app
  k_notes :: notes_app
  k_paint :: paint
  k_set :: settings
  s_line :: "char list"
  s_len :: nat

text \<open>Drawing, and output of the console: \<open>kprintf\<close> hands its characters to the display in order.\<close>

definition draw :: "(lfb \<Rightarrow> lfb) \<Rightarrow> 'a gui_scheme \<Rightarrow> 'a gui_scheme" where
  "draw f k = k\<lparr>k_disp := (k_disp k)\<lparr>d_lfb := f (d_lfb (k_disp k))\<rparr>\<rparr>"

definition fb :: "'a gui_scheme \<Rightarrow> lfb" where
  "fb k = d_lfb (k_disp k)"

definition say :: "devices \<Rightarrow> (console \<Rightarrow> console option) \<Rightarrow> 'a gui_scheme \<Rightarrow> 'a gui_scheme option" where
  "say dev out k = do {
     c \<leftarrow> out ((k_con k)\<lparr>sunk := []\<rparr>);
     d \<leftarrow> show_text dev (sunk c) (k_disp k);
     Some (k\<lparr>k_con := c\<lparr>sunk := sunk (k_con k) @ sunk c\<rparr>, k_disp := d\<rparr>)
   }"

section \<open>The pointer\<close>

definition arrow :: "char list list" where
  "arrow =
    [''o...........'', ''oo..........'', ''oXo.........'', ''oXXo........'',
     ''oXXXo.......'', ''oXXXXo......'', ''oXXXXXo.....'', ''oXXXXXXo....'',
     ''oXXXXXXXo...'', ''oXXXXXXXXo..'', ''oXXXXXXXXXo.'', ''oXXXXXoooooo'',
     ''oXXoXXo.....'', ''oXo.oXXo....'', ''oo..oXXo....'', ''o....oXXo...'',
     ''.....oXXo...'', ''......oo....'', ''............'']"

definition cursor_hide :: "'a gui_scheme \<Rightarrow> 'a gui_scheme" where
  "cursor_hide k =
     (let c = k_desk k
      in if cur_vis c
         then (draw (lfb_blit_put (cur_x c) (cur_y c) CUR_W CUR_H (cur_save c)) k)\<lparr>k_desk := c\<lparr>cur_vis := False\<rparr>\<rparr>
         else k)"

definition draw_arrow :: "int \<Rightarrow> int \<Rightarrow> lfb \<Rightarrow> lfb" where
  "draw_arrow x y =
     for_int CUR_H (\<lambda>r. for_int CUR_W (\<lambda>c s.
       let p = arrow ! nat r ! nat c
       in if p = CHR ''X'' then lfb_pixel (x + c) (y + r) 0xffffff s
          else if p = CHR ''o'' then lfb_pixel (x + c) (y + r) 0x0a0f1a s
          else s))"

definition cursor_show :: "int \<Rightarrow> int \<Rightarrow> 'a gui_scheme \<Rightarrow> 'a gui_scheme" where
  "cursor_show x y k =
     (let k = (if cur_vis (k_desk k) then cursor_hide k else k);
          saved = lfb_blit_get x y CUR_W CUR_H (fb k) (cur_save (k_desk k));
          k = k\<lparr>k_desk := (k_desk k)\<lparr>cur_save := saved\<rparr>\<rparr>;
          k = draw (draw_arrow x y) k
      in k\<lparr>k_desk := (k_desk k)\<lparr>cur_x := x, cur_y := y, cur_vis := True\<rparr>\<rparr>)"

section \<open>Icons, dock and clock\<close>

definition icon_terminal :: "int \<Rightarrow> int \<Rightarrow> int \<Rightarrow> lfb \<Rightarrow> lfb option" where
  "icon_terminal bx by s t =
     (let t = lfb_round_fill bx by s s 4 0x0a1020 t; g = 0x5be58a; my = by + s sdiv 2
      in do {
        t \<leftarrow> lfb_line (bx + 6) (by + 7) (bx + 6 + 8) my g t;
        t \<leftarrow> lfb_line (bx + 6) (by + 8) (bx + 6 + 8) (my + 1) g t;
        t \<leftarrow> lfb_line (bx + 6) (by + s - 7) (bx + 6 + 8) my g t;
        t \<leftarrow> lfb_line (bx + 6) (by + s - 8) (bx + 6 + 8) (my - 1) g t;
        Some (lfb_fill (bx + s sdiv 2) (by + s - 10) 10 2 g t)
      })"

definition icon_files :: "int \<Rightarrow> int \<Rightarrow> int \<Rightarrow> lfb \<Rightarrow> lfb" where
  "icon_files bx by s t =
     (let t = lfb_round_fill bx (by + 5) (s * 5 sdiv 9) 6 2 0xdbe7f7 t;
          t = lfb_round_fill bx (by + 8) s (s - 11) 3 0xffffff t
      in lfb_round_fill bx (by + s sdiv 2) s (s sdiv 2 - 3) 3 0xeaf2ff t)"

definition icon_notes :: "int \<Rightarrow> int \<Rightarrow> int \<Rightarrow> lfb \<Rightarrow> lfb" where
  "icon_notes bx by s t =
     (let t = lfb_round_fill (bx + 2) by (s - 4) s 3 0xffffff t
      in for_int 4 (\<lambda>i. lfb_fill (bx + 7) (by + 7 + i * 6) (s - 14 - (if i = 3 then 8 else 0)) 2 0x9fb3d8) t)"

definition icon_calc :: "int \<Rightarrow> int \<Rightarrow> int \<Rightarrow> lfb \<Rightarrow> lfb" where
  "icon_calc bx by s t =
     (let t = lfb_round_fill bx by s s 4 0xffffff t;
          t = lfb_fill (bx + 4) (by + 4) (s - 8) 8 0x2d3650 t;
          g = 3; n = 3; bs = (s - 8 - (n - 1) * g) sdiv n
      in for_int n (\<lambda>r. for_int n (\<lambda>c.
           lfb_round_fill (bx + 4 + c * (bs + g)) (by + 16 + r * (bs + g)) bs bs 1
             (if r = n - 1 \<and> c = n - 1 then 0xff9f1c else 0x2d3650))) t)"

definition icon_paint :: "int \<Rightarrow> int \<Rightarrow> int \<Rightarrow> lfb \<Rightarrow> lfb" where
  "icon_paint bx by s t =
     (let t = lfb_round_fill bx by s s (s sdiv 2) 0xffffff t;
          t = lfb_disc (bx + s sdiv 3) (by + s sdiv 3) 3 0xff5f56 t;
          t = lfb_disc (bx + 2 * s sdiv 3) (by + s sdiv 3) 3 0xffbd2e t;
          t = lfb_disc (bx + s sdiv 3) (by + 2 * s sdiv 3) 3 0x27c93f t
      in lfb_disc (bx + 2 * s sdiv 3) (by + 2 * s sdiv 3) 3 0x6cc7ff t)"

definition icon_settings :: "int \<Rightarrow> int \<Rightarrow> int \<Rightarrow> lfb \<Rightarrow> lfb" where
  "icon_settings bx by s t =
     (let kx = [bx + s - 9, bx + 8, bx + s sdiv 2]
      in for_int 3 (\<lambda>i t.
           let yy = by + 5 + i * ((s - 8) sdiv 2);
               t = lfb_round_fill bx yy s 4 2 0xe7ecf5 t;
               t = lfb_disc (kx ! nat i) (yy + 2) 4 0xffffff t
           in lfb_disc (kx ! nat i) (yy + 2) 2 0x7c8aa0 t) t)"

definition icon_glyph :: "nat \<Rightarrow> int \<Rightarrow> int \<Rightarrow> int \<Rightarrow> lfb \<Rightarrow> lfb option" where
  "icon_glyph app bx by s t =
     (if app = APP_TERMINAL then icon_terminal bx by s t
      else if app = APP_FILES then Some (icon_files bx by s t)
      else if app = APP_NOTES then Some (icon_notes bx by s t)
      else if app = APP_CALC then Some (icon_calc bx by s t)
      else if app = APP_PAINT then Some (icon_paint bx by s t)
      else if app = APP_SETTINGS then Some (icon_settings bx by s t)
      else Some t)"

definition APPNAME :: "char list list" where
  "APPNAME = [''THU Terminal'', ''Files'', ''Notes'', ''Calculator'', ''Paint'', ''Settings'']"

definition TILE :: "u32 list" where
  "TILE = [0x2d3650, 0x3d8bdc, 0x2bb5a0, 0xff9f1c, 0xff6f91, 0x7c8aa0]"

fun dock_icons :: "desk \<Rightarrow> nat list \<Rightarrow> lfb \<Rightarrow> lfb option" where
  "dock_icons c [] t = Some t"
| "dock_icons c (i # is) t =
     (let ax = dbx c + 14 + int i * (ds + dgap); ay = dby c + 10; pad = 11;
          t = lfb_round_fill ax ay ds ds 13 (TILE ! i) t
      in do {
        t \<leftarrow> icon_glyph i (ax + pad) (ay + pad) (ds - 2 * pad) t;
        dock_icons c is (if i = g_app c then lfb_disc (ax + ds sdiv 2) (dby c + dbh c - 5) 2 (g_accent c) t else t)
      })"

definition draw_dock :: "desk \<Rightarrow> lfb \<Rightarrow> lfb option" where
  "draw_dock c t =
     (let t = lfb_round_fill (dbx c + 4) (dby c + 6) (dbw c) (dbh c) 20 0x05080f t;
          t = lfb_round_fill (dbx c) (dby c) (dbw c) (dbh c) 20 0x161f33 t
      in dock_icons c [0..<NAPP] t)"

text \<open>The five characters of the clock: minutes modulo 100 and seconds.\<close>

definition clock_text :: "u32 \<Rightarrow> char list" where
  "clock_text t =
     (let mm = (t div 60) mod 100; ss = t mod 60; d = (\<lambda>v. char_of (unat (48 + v)))
      in [d (mm div 10), d (mm mod 10), CHR '':'', d (ss div 10), d (ss mod 10)])"

definition draw_clock :: "desk \<Rightarrow> u32 \<Rightarrow> lfb \<Rightarrow> lfb" where
  "draw_clock c secs t =
     (let tw = 5 * 16; t = lfb_fill (dW c - tw - 18) 3 (tw + 14) 30 0x0e1626 t
      in lfb_text (dW c - tw - 14) 6 (clock_text secs) 0xaec2e6 (-1) 2 t)"

section \<open>Window chrome and applications\<close>

definition draw_opt :: "(lfb \<Rightarrow> lfb option) \<Rightarrow> 'a gui_scheme \<Rightarrow> 'a gui_scheme option" where
  "draw_opt f k = map_option (\<lambda>t. draw (\<lambda>_. t) k) (f (fb k))"

definition set_desk :: "(desk \<Rightarrow> desk) \<Rightarrow> 'a gui_scheme \<Rightarrow> 'a gui_scheme" where
  "set_desk f k = k\<lparr>k_desk := f (k_desk k)\<rparr>"

definition desktop_window :: "desk \<Rightarrow> desk" where
  "desktop_window c = (let c = c\<lparr>ww := 820, wh := 552\<rparr> in c\<lparr>wx := (dW c - ww c) sdiv 2, wy := 84, th := 40\<rparr>)"

definition desktop_regions :: "desk \<Rightarrow> desk" where
  "desktop_regions c =
     (let pad = 16;
          c = c\<lparr>px := wx c + pad, py := wy c + th c + pad, pw := ww c - 2 * pad, ph := wh c - th c - 2 * pad\<rparr>;
          c = c\<lparr>gcx := px c + 10, gcy := py c + 8, gcols := (pw c - 20) sdiv 16, grows := (ph c - 16) sdiv 32\<rparr>;
          c = c\<lparr>dbw := int NAPP * ds + (int NAPP - 1) * dgap + 28, dbh := ds + 20\<rparr>
      in c\<lparr>dbx := (dW c - dbw c) sdiv 2, dby := dH c - dbh c - 14\<rparr>)"

definition desktop_chrome :: "desk \<Rightarrow> lfb \<Rightarrow> lfb" where
  "desktop_chrome c t =
     (let t = lfb_round_fill (wx c + 10) (wy c + 12) (ww c) (wh c) 18 0x05080f t;
          t = lfb_round_fill (wx c) (wy c) (ww c) (wh c) 18 0x0f1626 t;
          t = lfb_round_fill (wx c) (wy c) (ww c) (th c) 18 0x1d2b46 t;
          t = lfb_fill (wx c) (wy c + th c - 18) (ww c) 18 0x1d2b46 t;
          t = lfb_fill (wx c + 1) (wy c + th c) (ww c - 2) 1 0x2a3b5e t;
          t = lfb_fill (wx c + 20) (wy c + 15) 12 12 0xff5f56 t;
          t = lfb_fill (wx c + 44) (wy c + 15) 12 12 0xffbd2e t
      in lfb_fill (wx c + 68) (wy c + 15) 12 12 0x27c93f t)"

definition desktop_draw :: "'a gui_scheme \<Rightarrow> 'a gui_scheme option" where
  "desktop_draw k =
     (let k = set_desk (\<lambda>c. c\<lparr>dW := fbW (fb k), dH := fbH (fb k)\<rparr>) k;
          c = k_desk k; W = dW c; tb = 38;
          k = draw (lfb_gradient_v 0 0 W (dH c) (g_wall_top c) (g_wall_bot c)) k;
          k = draw (lfb_fill 0 0 W tb 0x0e1626) k;
          k = draw (lfb_fill 0 tb W 2 0x223456) k;
          k = draw (lfb_round_fill 16 11 16 16 4 (g_accent c)) k;
          k = draw (lfb_text 42 6 (THUOS_NAME @ '' '' @ THUOS_VERSION) 0xe8eefc (-1) 2) k;
          k = draw (draw_clock c (pit_seconds (k_pit k))) k;
          k = set_desk desktop_window k;
          k = draw (desktop_chrome (k_desk k)) k;
          k = set_desk desktop_regions k
      in draw_opt (draw_dock (k_desk k)) k)"

definition titlebar_name :: "nat \<Rightarrow> desk \<Rightarrow> lfb \<Rightarrow> lfb" where
  "titlebar_name app c t =
     (let t = lfb_fill (wx c + 96) (wy c + 2) 280 36 0x1d2b46 t
      in lfb_text (wx c + 104) (wy c + 5) (APPNAME ! app) 0xe8eefc (-1) 2 t)"

definition welcome_line :: "console \<Rightarrow> console option" where
  "welcome_line =
     kprintf (''Welcome to %s %s '' @ [CHR 0x22] @ ''%s'' @ [CHR 0x22] @ ''.'' @ NL) [ks THUOS_NAME, ks THUOS_VERSION, ks THUOS_CODENAME]"

definition shell_prompt :: "devices \<Rightarrow> 'a gui_scheme \<Rightarrow> 'a gui_scheme option" where
  "shell_prompt dev = say dev (kprintf ''thuos> '' [])"

definition shell_start :: "devices \<Rightarrow> 'a gui_scheme \<Rightarrow> 'a gui_scheme option" where
  "shell_start dev k = do {
     k \<leftarrow> say dev (kprintf (''Type '' @ [CHR 0x27] @ ''help'' @ [CHR 0x27] @ '' to begin.'' @ NL @ NL) []) (k\<lparr>s_len := 0\<rparr>);
     shell_prompt dev k
   }"

definition with_gcon :: "(gscreen \<Rightarrow> gscreen) \<Rightarrow> 'a gui_scheme \<Rightarrow> 'a gui_scheme" where
  "with_gcon f k = (let (g, s) = f (d_gcon (k_disp k), fb k) in k\<lparr>k_disp := (k_disp k)\<lparr>d_gcon := g, d_lfb := s\<rparr>\<rparr>)"

text \<open>The \<open>switch\<close> of \<open>desktop_open_app\<close>: each application opens on its own statics.\<close>

definition open_pane :: "nat \<Rightarrow> 'a gui_scheme \<Rightarrow> 'a gui_scheme" where
  "open_pane app k =
     (let c = k_desk k; x = px c; y = py c; w = pw c; h = ph c
      in if app = APP_FILES then (let (a, t) = app_files_open x y w h (k_fs k) (k_files k, fb k) in draw (\<lambda>_. t) (k\<lparr>k_files := a\<rparr>))
         else if app = APP_NOTES then (let (a, t) = app_notes_open x y w h (k_fs k) (k_notes k, fb k) in draw (\<lambda>_. t) (k\<lparr>k_notes := a\<rparr>))
         else if app = APP_CALC then (let (a, t) = app_calc_open x y w h (k_calc k, fb k) in draw (\<lambda>_. t) (k\<lparr>k_calc := a\<rparr>))
         else if app = APP_PAINT then (let (a, t) = app_paint_open x y w h (k_paint k, fb k) in draw (\<lambda>_. t) (k\<lparr>k_paint := a\<rparr>))
         else if app = APP_SETTINGS
         then (let (a, t) = app_settings_open x y w h (g_accent c) (pit_seconds (k_pit k)) (k_set k, fb k) in draw (\<lambda>_. t) (k\<lparr>k_set := a\<rparr>))
         else k)"

definition desktop_open_app :: "devices \<Rightarrow> nat \<Rightarrow> 'a gui_scheme \<Rightarrow> 'a gui_scheme option" where
  "desktop_open_app dev app k =
     (let k = set_desk (\<lambda>c. c\<lparr>g_app := app\<rparr>) k; c = k_desk k;
          k = draw (titlebar_name app c) k
      in do {
        k \<leftarrow> (if app = APP_TERMINAL
              then let k = draw (lfb_round_fill (px c) (py c) (pw c) (ph c) 8 0x0a0f1a) k;
                       k = with_gcon (gcon_init (gcx c) (gcy c) (gcols c) (grows c) 2 0x9defb0 0x0a0f1a) k
                   in do { k \<leftarrow> say dev welcome_line k; shell_start dev k }
              else Some (open_pane app (with_gcon (gcon_set_active False) k)));
        draw_opt (draw_dock (k_desk k)) k
      })"

definition desktop_set_theme :: "devices \<Rightarrow> u32 \<Rightarrow> u32 \<Rightarrow> u32 \<Rightarrow> 'a gui_scheme \<Rightarrow> 'a gui_scheme option" where
  "desktop_set_theme dev wall_top wall_bot acc k =
     (let k = set_desk (\<lambda>c. c\<lparr>g_wall_top := wall_top, g_wall_bot := wall_bot, g_accent := acc\<rparr>) k
      in do { k \<leftarrow> desktop_draw k; desktop_open_app dev (g_app (k_desk k)) k })"

definition desktop_accent :: "'a gui_scheme \<Rightarrow> u32" where
  "desktop_accent k = g_accent (k_desk k)"

definition dock_hit :: "desk \<Rightarrow> int \<Rightarrow> int \<Rightarrow> nat option" where
  "dock_hit c mx my =
     List.find (\<lambda>i. let ax = dbx c + 14 + int i * (ds + dgap); ay = dby c + 10
       in mx \<ge> ax \<and> mx < ax + ds \<and> my \<ge> ay \<and> my < ay + ds) [0..<NAPP]"

definition in_panel :: "desk \<Rightarrow> int \<Rightarrow> int \<Rightarrow> bool" where
  "in_panel c mx my \<longleftrightarrow> mx \<ge> px c \<and> mx < px c + pw c \<and> my \<ge> py c \<and> my < py c + ph c"

definition app_settings_click :: "devices \<Rightarrow> int \<Rightarrow> int \<Rightarrow> 'a gui_scheme \<Rightarrow> 'a gui_scheme option" where
  "app_settings_click dev mx my k =
     (let c = k_set k
      in if mx < set_x c + set_sw c then
           (case cat_hit c my of
              None \<Rightarrow> Some k
            | Some i \<Rightarrow>
                let c = c\<lparr>set_cat := i\<rparr>; t = settings_sidebar c (fb k);
                    (c, t) = settings_content (desktop_accent k) (pit_seconds (k_pit k)) (c, t)
                in Some (draw (\<lambda>_. t) (k\<lparr>k_set := c\<rparr>)))
         else if set_cat c = 0 then
           (case theme_hit c mx my of
              None \<Rightarrow> Some k
            | Some i \<Rightarrow> desktop_set_theme dev (th_top (THEMES ! i)) (th_bot (THEMES ! i)) (th_acc (THEMES ! i)) k)
         else Some k)"

section \<open>The pointer leaves the picture intact\<close>

lemma draw_fields [simp]:
  "fb (draw f k) = f (fb k)" "k_desk (draw f k) = k_desk k" "k_pit (draw f k) = k_pit k" "k_fs (draw f k) = k_fs k"
  "k_con (draw f k) = k_con k" "d_gcon (k_disp (draw f k)) = d_gcon (k_disp k)" "s_line (draw f k) = s_line k" "s_len (draw f k) = s_len k"
  "k_calc (draw f k) = k_calc k" "k_files (draw f k) = k_files k" "k_notes (draw f k) = k_notes k" "k_paint (draw f k) = k_paint k"
  "k_set (draw f k) = k_set k"
  by (simp_all add: draw_def fb_def)

lemma fb_desk [simp]: "fb (k\<lparr>k_desk := c\<rparr>) = fb k"
  by (simp add: fb_def)

text \<open>What may be drawn over a saved rectangle: visible pixels inside it.\<close>

definition drawn_in :: "int \<Rightarrow> int \<Rightarrow> int \<Rightarrow> int \<Rightarrow> lfb \<Rightarrow> lfb \<Rightarrow> bool" where
  "drawn_in x y w h s t \<longleftrightarrow> same_screen s t \<and> (\<forall>k. \<not> (vis s k \<and> in_rect s x y w h k) \<longrightarrow> fb_pix t k = fb_pix s k)"

lemma drawn_in_pixel:
  assumes "fb_ok s" "drawn_in x y w h s t" "- 2147483648 \<le> x" "- 2147483648 \<le> y" "0 \<le> c" "c < w" "0 \<le> r" "r < h"
  shows "drawn_in x y w h s (lfb_pixel (x + c) (y + r) rgb t)"
proof -
  have ss: "same_screen s t" using assms(2) by (simp add: drawn_in_def)
  then have t: "fb_ok t" "fbW t = fbW s" "fbH t = fbH s" "pitch_px t = pitch_px s"
    using assms(1) same_screen_vis(2) same_screen_fields by auto
  have "vis s q \<and> in_rect s x y w h q" if "0 \<le> x + c" "x + c < fbW s" "0 \<le> y + r" "y + r < fbH s" "q = (y + r) * pitch_px s + (x + c)" for q
    using vis_xy [OF assms(1), of "x + c" "y + r"] that assms(1,5-8) by (auto simp: in_rect_def fb_ok_def)
  then show ?thesis using assms(2-8) same_screen_trans [OF ss same_screen_put]
    by (auto simp: lfb_pixel_eq [OF t(1)] t(2-4) drawn_in_def fb_pix_put)
qed

lemma draw_arrow_inside:
  assumes "fb_ok s" "- 2147483648 \<le> x" "- 2147483648 \<le> y"
  shows "drawn_in x y CUR_W CUR_H s (draw_arrow x y s)"
  unfolding draw_arrow_def Let_def
  by (intro for_int_induct [where P = "\<lambda>_. drawn_in x y CUR_W CUR_H s"])
    (auto intro!: drawn_in_pixel assms simp: CUR_W_def CUR_H_def, simp_all add: drawn_in_def)

lemma pointer_hidden:
  assumes "fb_ok (fb k)" "- 2147483648 \<le> x" "- 2147483648 \<le> y" "\<not> cur_vis (k_desk k)" "length (cur_save (k_desk k)) = 228"
  shows "fb (cursor_hide (cursor_show x y k)) = fb k"
proof -
  have "lfb_blit_put x y CUR_W CUR_H (lfb_blit_get x y CUR_W CUR_H (fb k) (cur_save (k_desk k))) (draw_arrow x y (fb k)) = fb k"
    using draw_arrow_inside [OF assms(1-3)] assms(5)
    by (intro blit_put_get assms(1-3)) (simp_all add: drawn_in_def CUR_W_def CUR_H_def)
  then show ?thesis using assms(4) by (simp add: cursor_show_def cursor_hide_def Let_def)
qed

lemma length_blit_get [simp]: "length (lfb_blit_get x y w h s buf) = length buf"
  unfolding lfb_blit_get_def Let_def for_int_def
  by (intro fold_invariant [where P = "\<lambda>b. length b = length buf" and Q = "\<lambda>_. True"]) simp_all

lemma cursor_show_hide: "cursor_show x y k = cursor_show x y (cursor_hide k)"
  by (simp add: cursor_show_def cursor_hide_def Let_def)

lemma cursor_hide_simps [simp]:
  "cur_vis (k_desk (cursor_hide k)) = False" "cur_save (k_desk (cursor_hide k)) = cur_save (k_desk k)"
  by (simp_all add: cursor_hide_def Let_def)

lemma cursor_show_save [simp]: "length (cur_save (k_desk (cursor_show x y k))) = length (cur_save (k_desk k))"
  by (simp add: cursor_show_def cursor_hide_def Let_def)

lemma pointer_moves:
  assumes "fb_ok (fb (cursor_hide k))" "length (cur_save (k_desk k)) = 228" "\<forall>(x, y) \<in> set ps. - 2147483648 \<le> x \<and> - 2147483648 \<le> y"
  shows "fb (cursor_hide (fold (\<lambda>(x, y). cursor_show x y) ps k)) = fb (cursor_hide k)"
  using assms
proof (induction ps arbitrary: k)
  case (Cons p ps)
  obtain x y where p: "p = (x, y)" "- 2147483648 \<le> x" "- 2147483648 \<le> y" using Cons.prems(3) by auto
  have "fb (cursor_hide (cursor_show x y k)) = fb (cursor_hide k)"
    unfolding cursor_show_hide [of x y k] using Cons.prems(1,2) p(2,3) by (intro pointer_hidden) simp_all
  then show ?case using Cons.IH [of "cursor_show x y k"] Cons.prems p by simp
qed simp

text \<open>
  C35: Showing the pointer at any sequence of positions, also ones where it hangs over the edge of the
  screen, and hiding it gives back exactly the picture there was before it was shown.
\<close>

theorem pointer_restores:
  assumes "fb_ok (fb k)" "\<not> cur_vis (k_desk k)" "length (cur_save (k_desk k)) = 228"
    and "\<forall>(x, y) \<in> set ps. - 2147483648 \<le> x \<and> - 2147483648 \<le> y"
  shows "fb (cursor_hide (fold (\<lambda>(x, y). cursor_show x y) ps k)) = fb k"
proof -
  have "cursor_hide k = k" using assms(2) by (simp add: cursor_hide_def Let_def)
  then show ?thesis using pointer_moves [of k ps] assms by simp
qed

definition desk_static :: desk where
  "desk_static = \<lparr>dW = 0, dH = 0, wx = 0, wy = 0, ww = 0, wh = 0, th = 0, px = 0, py = 0, pw = 0, ph = 0, gcx = 0, gcy = 0, gcols = 0,
     grows = 0, dbx = 0, dby = 0, dbw = 0, dbh = 0, g_app = APP_TERMINAL, g_wall_top = 0x0a1020, g_wall_bot = 0x18243f,
     g_accent = 0x6cc7ff, cur_save = replicate 228 0, cur_x = 0, cur_y = 0, cur_vis = False\<rparr>"

definition gui_static :: "lfb \<Rightarrow> gui" where
  "gui_static s = \<lparr>k_disp = boot_display\<lparr>d_lfb := s\<rparr>, k_con = \<lparr>sunk = [], klog_buf = replicate 8192 NUL, klog_w = 0\<rparr>,
     k_pit = \<lparr>ticks = 0, freq_hz = 100\<rparr>, k_fs = kfs_init (replicate 32 blank_file) (\<lambda>_. 0), k_desk = desk_static, k_calc = calc_static,
     k_files = \<lparr>fa_x = 0, fa_y = 0, fa_w = 0, fa_h = 0, fa_rowy = 0, fa_rowh = 0, fa_listx = 0, fa_listw = 0\<rparr>, k_notes = notes_static,
     k_paint = \<lparr>pa_cx = 0, pa_cy = 0, pa_cw = 0, pa_ch = 0, pa_px = 0, pa_py = 0, pa_sw = 0, pa_gap = 0, pa_col = 0, pa_clrx = 0,
       pa_clry = 0, pa_clrw = 0, pa_clrh = 0, pa_lx = -1, pa_ly = -1\<rparr>,
     k_set = \<lparr>set_cat = 0, set_x = 0, set_y = 0, set_w = 0, set_h = 0, set_sw = 0, set_rowh = 0, set_cx = 0, set_cy = 0, set_cw = 0,
       set_ch = 0, set_sw_x = replicate 5 0, set_sw_y = replicate 5 0\<rparr>,
     s_line = replicate 128 NUL, s_len = 0\<rparr>"

theorem pointer_restores_witness:
  "fb (cursor_hide (fold (\<lambda>(x, y). cursor_show x y) [(10, 20), (635, 470), (- 4, 0)] (gui_static screen))) = screen"
proof -
  have "fb (gui_static screen) = screen" "k_desk (gui_static screen) = desk_static" by (simp_all add: gui_static_def fb_def)
  then show ?thesis using pointer_restores [of "gui_static screen" "[(10, 20), (635, 470), (- 4, 0)]"]
    by (simp add: desk_static_def screen_ok)
qed

section \<open>Everything the desktop draws stays on the screen\<close>

text \<open>
  \<open>gui_paints s k\<close>: the kernel \<open>k\<close> was reached from the framebuffer \<open>s\<close> by painting visible pixels
  only, and the graphical console, when active, fits the screen.
\<close>

definition gui_paints :: "lfb \<Rightarrow> 'a gui_scheme \<Rightarrow> bool" where
  "gui_paints s k \<longleftrightarrow> gcon_paints s (d_gcon (k_disp k), fb k)"

lemma gui_paints_iff: "gui_paints s k \<longleftrightarrow> painted s (fb k) \<and> gcon_inv (d_gcon (k_disp k)) s"
  by (simp add: gui_paints_def gcon_paints_def)

lemma draw_paints: "gui_paints s k \<Longrightarrow> (\<And>t. painted s t \<Longrightarrow> painted s (f t)) \<Longrightarrow> gui_paints s (draw f k)"
  by (simp add: gui_paints_iff)

lemma draw_opt_paints:
  assumes "gui_paints s k" "\<And>t. painted s t \<Longrightarrow> returns (f t) (painted s)"
  shows "returns (draw_opt f k) (\<lambda>k'. gui_paints s k' \<and> (\<exists>t. k' = draw (\<lambda>_. t) k))"
proof -
  obtain t where "f (fb k) = Some t" "painted s t" using assms by (auto simp: gui_paints_iff returns_def)
  then show ?thesis using assms(1) by (auto simp: returns_def draw_opt_def gui_paints_iff)
qed

lemma desk_paints [simp]: "gui_paints s (k\<lparr>k_desk := c\<rparr>) = gui_paints s k" "gui_paints s (set_desk f k) = gui_paints s k"
  by (simp_all add: gui_paints_iff set_desk_def)

text \<open>The desktop's layout is the one \<open>desktop_draw\<close> works out for the screen.\<close>

definition desk_laid :: "lfb \<Rightarrow> desk \<Rightarrow> bool" where
  "desk_laid s c \<longleftrightarrow> gcx c = (fbW s - 820) sdiv 2 + 26 \<and> gcy c = 148 \<and> gcols c = 48 \<and> grows c = 14 \<and>
     px c = (fbW s - 820) sdiv 2 + 16 \<and> py c = 140 \<and> pw c = 788 \<and> ph c = 480 \<and>
     dbx c = (fbW s - 430) sdiv 2 \<and> dby c = fbH s - 86 \<and> dbw c = 430 \<and> dbh c = 72"

definition screen_fits :: "lfb \<Rightarrow> bool" where
  "screen_fits s \<longleftrightarrow> fb_ok s \<and> 768 \<le> fbW s \<and> 596 \<le> fbH s"

lemma sdiv_2: "(a :: int) sdiv 2 = (if a < 0 then - ((- a) div 2) else a div 2)"
  by (simp add: signed_divide_int_def sgn_if)

lemma paint_icon_terminal:
  assumes "painted s t" "- 2147480000 \<le> bx" "- 2147480000 \<le> by"
  shows "returns (icon_terminal bx by 30 t) (painted s)"
proof -
  have line: "returns (lfb_line x0 y0 x1 y1 rgb t) Q"
    if "painted s t" "- 2147483648 \<le> x0" "- 2147483648 \<le> y0" "- 2147483648 \<le> x1" "- 2147483648 \<le> y1" "\<And>t'. painted s t' \<Longrightarrow> Q t'"
    for x0 y0 x1 y1 rgb t Q
    using paint_line [OF that(1-5), of rgb] that(6) by (auto simp: returns_def)
  show ?thesis unfolding icon_terminal_def Let_def sdiv_2
    by (intro returns_bind line returns_Some paint_intros assms(1)) (use assms in auto)
qed

lemma paint_icon:
  assumes "painted s t" "- 2147480000 \<le> bx" "- 2147480000 \<le> by"
  shows "returns (icon_glyph app bx by 30 t) (painted s)"
proof -
  have "painted s (icon_files bx by 30 t)" "painted s (icon_notes bx by 30 t)" "painted s (icon_calc bx by 30 t)"
    "painted s (icon_paint bx by 30 t)" "painted s (icon_settings bx by 30 t)"
    unfolding icon_files_def icon_notes_def icon_calc_def icon_paint_def icon_settings_def Let_def
    by (intro paint_intros assms(1) | assumption)+
  then show ?thesis using paint_icon_terminal [OF assms] assms(1)
    by (auto simp: icon_glyph_def intro!: returns_Some)
qed

lemma paint_dock:
  assumes "painted s t" "- 2147480000 \<le> dbx c" "- 2147480000 \<le> dby c"
  shows "returns (draw_dock c t) (painted s)"
proof -
  have "returns (dock_icons c is t) (painted s)" if "painted s t" for "is" t
    using that
  proof (induction "is" arbitrary: t)
    case (Cons i "is")
    show ?case unfolding dock_icons.simps Let_def
    proof (rule returns_bind, rule returns_mono)
      show "returns (icon_glyph i (dbx c + 14 + int i * (ds + dgap) + 11) (dby c + 10 + 11) (ds - 2 * 11)
          (lfb_round_fill (dbx c + 14 + int i * (ds + dgap)) (dby c + 10) ds ds 13 (TILE ! i) t)) (painted s)"
        using paint_icon [of s "lfb_round_fill (dbx c + 14 + int i * (ds + dgap)) (dby c + 10) ds ds 13 (TILE ! i) t"
            "dbx c + 14 + int i * (ds + dgap) + 11" "dby c + 10 + 11" i] Cons.prems assms(2,3)
        by (simp add: ds_def dgap_def paint_intros)
    qed (auto intro!: Cons.IH paint_intros)
  qed (simp add: returns_Some)
  then show ?thesis unfolding draw_dock_def Let_def using assms(1) by (simp add: paint_intros)
qed

text \<open>Output and drawing change the console and the display only.\<close>

definition shown :: "'a gui_scheme \<Rightarrow> 'a gui_scheme \<Rightarrow> bool" where
  "shown k k' \<longleftrightarrow> k' = k\<lparr>k_disp := k_disp k', k_con := k_con k'\<rparr>"

lemma shown_refl [simp]: "shown k k"
  by (simp add: shown_def)

lemma shown_trans: "shown k k' \<Longrightarrow> shown k' k'' \<Longrightarrow> shown k k''"
  by (cases k; cases k'; cases k'') (simp add: shown_def)

lemma shown_draw [simp]: "shown k (draw f k)"
  by (simp add: shown_def draw_def)

lemma shown_fields:
  assumes "shown k k'"
  shows "k_desk k' = k_desk k" "k_pit k' = k_pit k" "k_fs k' = k_fs k" "k_set k' = k_set k" "s_line k' = s_line k" "s_len k' = s_len k"
    "k_notes k' = k_notes k" "k_calc k' = k_calc k" "k_paint k' = k_paint k" "k_files k' = k_files k" "gui.more k' = gui.more k"
  by (subst assms [unfolded shown_def], simp)+

lemma fold_on_screen_paints:
  "gcon_paints s (d_gcon d, d_lfb d) \<Longrightarrow> gcon_paints s (d_gcon (fold on_screen cs d), d_lfb (fold on_screen cs d))"
proof (induction cs arbitrary: d)
  case (Cons c cs)
  have "gcon_paints s (d_gcon (on_screen c d), d_lfb (on_screen c d))"
    using gcon_putc_paints [OF Cons.prems, of c] Cons.prems by (simp add: on_screen_def)
  then show ?case using Cons.IH by simp
qed simp

definition prints :: "(console \<Rightarrow> console option) \<Rightarrow> bool" where
  "prints out \<longleftrightarrow> (\<forall>c. returns (out c) (\<lambda>_. True))"

lemma prints_kprintf: "fmt_ok f args \<Longrightarrow> prints (kprintf f args)"
  by (auto simp: prints_def intro: returns_kprintf)

lemma say_returns:
  assumes "uart_drains dev" "prints out"
  shows "returns (say dev out k) (\<lambda>k'. shown k k' \<and> (\<forall>s. gui_paints s k \<longrightarrow> gui_paints s k'))"
proof -
  obtain c where c: "out ((k_con k)\<lparr>sunk := []\<rparr>) = Some c" using assms(2) by (auto simp: prints_def returns_def)
  obtain tr where "show_text dev (sunk c) (k_disp k) = Some ((fold on_screen (sunk c) (k_disp k))\<lparr>d_uart := tr\<rparr>)"
    using show_text_returns [OF assms(1)] by blast
  then have k': "say dev out k = Some (k\<lparr>k_con := c\<lparr>sunk := sunk (k_con k) @ sunk c\<rparr>, k_disp := (fold on_screen (sunk c) (k_disp k))\<lparr>d_uart := tr\<rparr>\<rparr>)"
    by (simp add: say_def c)
  have "gui_paints s (k\<lparr>k_con := c\<lparr>sunk := sunk (k_con k) @ sunk c\<rparr>, k_disp := (fold on_screen (sunk c) (k_disp k))\<lparr>d_uart := tr\<rparr>\<rparr>)"
    if "gui_paints s k" for s
    using that fold_on_screen_paints [of s "k_disp k" "sunk c"] by (simp add: gui_paints_def fb_def)
  then show ?thesis unfolding k' by (simp add: returns_Some shown_def)
qed

lemma shell_start_returns:
  assumes "uart_drains dev"
  shows "returns (shell_start dev k) (\<lambda>k'. shown (k\<lparr>s_len := 0\<rparr>) k' \<and> (\<forall>s. gui_paints s k \<longrightarrow> gui_paints s k'))"
proof -
  have p: "gui_paints s (k\<lparr>s_len := 0\<rparr>) = gui_paints s k" for s by (simp add: gui_paints_iff fb_def)
  have "prints (kprintf (''Type '' @ [CHR 0x27] @ ''help'' @ [CHR 0x27] @ '' to begin.'' @ NL @ NL) [])" "prints (kprintf ''thuos> '' [])"
    by (rule prints_kprintf, simp add: NL_def)+
  then show ?thesis unfolding shell_start_def shell_prompt_def
    by (intro returns_bind returns_mono [OF say_returns [OF assms]]) (auto simp: p intro: shown_trans)
qed

lemma with_gcon_simps [simp]:
  "k_desk (with_gcon f k) = k_desk k" "k_pit (with_gcon f k) = k_pit k" "k_fs (with_gcon f k) = k_fs k" "shown k (with_gcon f k)"
  by (simp_all add: with_gcon_def Let_def case_prod_unfold shown_def)

lemma with_gcon_paints: "gcon_paints s (f (d_gcon (k_disp k), fb k)) \<Longrightarrow> gui_paints s (with_gcon f k)"
  by (simp add: gui_paints_def with_gcon_def Let_def case_prod_unfold fb_def)

lemma paint_clock: "painted s t \<Longrightarrow> painted s (draw_clock c secs t)"
  unfolding draw_clock_def Let_def by (intro paint_intros)

lemma paint_titlebar: "painted s t \<Longrightarrow> painted s (titlebar_name app c t)"
  unfolding titlebar_name_def Let_def by (intro paint_intros)

lemma desk_laid_dock: "desk_laid s c \<Longrightarrow> screen_fits s \<Longrightarrow> - 2147480000 \<le> dbx c \<and> - 2147480000 \<le> dby c"
  by (auto simp: desk_laid_def screen_fits_def sdiv_2)

lemma dock_paints:
  assumes "gui_paints s k" "desk_laid s (k_desk k)" "screen_fits s"
  shows "returns (draw_opt (draw_dock (k_desk k)) k) (\<lambda>k'. gui_paints s k' \<and> shown k k')"
  by (rule returns_mono [OF draw_opt_paints [OF assms(1)]])
    (use desk_laid_dock [OF assms(2,3)] paint_dock in auto)

lemma desktop_regions_laid: "desk_laid s (desktop_regions (desktop_window (c\<lparr>dW := fbW s, dH := fbH s\<rparr>)))"
  by (simp add: desk_laid_def desktop_regions_def desktop_window_def Let_def NAPP_def ds_def dgap_def signed_divide_int_def)

lemma set_desk_simps [simp]: "k_desk (set_desk f k) = f (k_desk k)" "fb (set_desk f k) = fb k" "k_pit (set_desk f k) = k_pit k"
  by (simp_all add: set_desk_def)

lemma desktop_draw_paints:
  assumes "gui_paints s k" "screen_fits s"
  shows "returns (desktop_draw k) (\<lambda>k'. gui_paints s k' \<and> desk_laid s (k_desk k') \<and> g_app (k_desk k') = g_app (k_desk k))"
proof -
  have ss: "fbW (fb k) = fbW s" "fbH (fb k) = fbH s" using assms(1) same_screen_fields by (auto simp: gui_paints_iff painted_def)
  let ?c = "(k_desk k)\<lparr>dW := fbW s, dH := fbH s\<rparr>"
  define k1 where "k1 = set_desk desktop_regions (draw (desktop_chrome (desktop_window ?c)) (set_desk desktop_window
    (draw (draw_clock ?c (pit_seconds (k_pit k))) (draw (lfb_text 42 6 (THUOS_NAME @ '' '' @ THUOS_VERSION) 0xe8eefc (-1) 2)
    (draw (lfb_round_fill 16 11 16 16 4 (g_accent ?c)) (draw (lfb_fill 0 38 (fbW s) 2 0x223456) (draw (lfb_fill 0 0 (fbW s) 38 0x0e1626)
    (draw (lfb_gradient_v 0 0 (fbW s) (fbH s) (g_wall_top ?c) (g_wall_bot ?c))
      (set_desk (\<lambda>c. c\<lparr>dW := fbW s, dH := fbH s\<rparr>) k)))))))))"
  have eq: "desktop_draw k = draw_opt (draw_dock (k_desk k1)) k1"
    by (simp add: desktop_draw_def k1_def Let_def ss)
  have "painted s t \<Longrightarrow> painted s (desktop_chrome (desktop_window ?c) t)" for t
    unfolding desktop_chrome_def Let_def by (intro paint_intros)
  then have p: "gui_paints s k1" unfolding k1_def desk_paints using assms(1)
    by (simp add: draw_paints paint_clock paint_intros)
  have c: "k_desk k1 = desktop_regions (desktop_window ?c)" by (simp add: k1_def)
  then have laid: "desk_laid s (k_desk k1)" using desktop_regions_laid [of s "k_desk k"] by simp
  have app: "g_app (k_desk k1) = g_app (k_desk k)" unfolding c by (simp add: desktop_regions_def desktop_window_def Let_def)
  show ?thesis unfolding eq
    by (rule returns_mono [OF dock_paints [OF p laid assms(2)]]) (use laid app in \<open>auto dest: shown_fields(1)\<close>)
qed

text \<open>The records of the applications and the desktop apart, opening an application keeps the kernel's state.\<close>

lemma open_pane_paints:
  assumes "gui_paints s k"
  shows "gui_paints s (open_pane app k)" "k_desk (open_pane app k) = k_desk k" "k_fs (open_pane app k) = k_fs k"
proof -
  have p: "painted s (fb k)" using assms by (simp add: gui_paints_iff)
  have q: "gui_paints s (draw (\<lambda>_. t) (k\<lparr>k_files := a\<rparr>)) = (gui_paints s (draw (\<lambda>_. t) k))"
    "gui_paints s (draw (\<lambda>_. t) (k\<lparr>k_notes := b\<rparr>)) = (gui_paints s (draw (\<lambda>_. t) k))"
    "gui_paints s (draw (\<lambda>_. t) (k\<lparr>k_calc := c\<rparr>)) = (gui_paints s (draw (\<lambda>_. t) k))"
    "gui_paints s (draw (\<lambda>_. t) (k\<lparr>k_paint := d\<rparr>)) = (gui_paints s (draw (\<lambda>_. t) k))"
    "gui_paints s (draw (\<lambda>_. t) (k\<lparr>k_set := e\<rparr>)) = (gui_paints s (draw (\<lambda>_. t) k))" for t a b c d e
    by (simp_all add: gui_paints_iff)
  show "gui_paints s (open_pane app k)"
    unfolding open_pane_def Let_def case_prod_unfold using assms
    by (auto simp: q intro!: draw_paints paint_files(1) paint_notes(2) paint_calc_app(1) paint_paint(1) paint_settings(3) p)
  show "k_desk (open_pane app k) = k_desk k" "k_fs (open_pane app k) = k_fs k"
    by (simp_all add: open_pane_def Let_def case_prod_unfold)
qed

lemma terminal_paints:
  assumes "gui_paints s k" "desk_laid s (k_desk k)" "screen_fits s"
  shows "gui_paints s (with_gcon (gcon_init (gcx (k_desk k)) (gcy (k_desk k)) (gcols (k_desk k)) (grows (k_desk k)) 2 0x9defb0 0x0a0f1a) k)"
  using assms by (intro with_gcon_paints gcon_init_paints) (auto simp: gui_paints_iff desk_laid_def screen_fits_def sdiv_2)

definition opens :: "lfb \<Rightarrow> nat \<Rightarrow> desk \<Rightarrow> 'a gui_scheme \<Rightarrow> bool" where
  "opens s app c k \<longleftrightarrow> gui_paints s k \<and> k_desk k = c\<lparr>g_app := app\<rparr>"

lemma desktop_open_app_paints:
  assumes "gui_paints s k" "desk_laid s (k_desk k)" "screen_fits s" "uart_drains dev"
  shows "returns (desktop_open_app dev app k) (\<lambda>k'. opens s app (k_desk k) k' \<and> k_fs k' = k_fs k \<and> k_pit k' = k_pit k)"
proof -
  define c where "c = (k_desk k)\<lparr>g_app := app\<rparr>"
  define k1 where "k1 = draw (titlebar_name app c) (set_desk (\<lambda>c. c\<lparr>g_app := app\<rparr>) k)"
  have laid: "desk_laid s c" using assms(2) by (simp add: c_def desk_laid_def)
  have k1: "gui_paints s k1" "k_desk k1 = c" "k_fs k1 = k_fs k" "k_pit k1 = k_pit k"
    using assms(1) by (simp_all add: k1_def c_def draw_paints paint_titlebar set_desk_def)
  define k2 where "k2 = (if app = APP_TERMINAL
    then do { k \<leftarrow> say dev welcome_line (with_gcon (gcon_init (gcx c) (gcy c) (gcols c) (grows c) 2 0x9defb0 0x0a0f1a)
                (draw (lfb_round_fill (px c) (py c) (pw c) (ph c) 8 0x0a0f1a) k1)); shell_start dev k }
    else Some (open_pane app (with_gcon (gcon_set_active False) k1)))"
  have eq: "desktop_open_app dev app k = Option.bind k2 (\<lambda>k. draw_opt (draw_dock (k_desk k)) k)"
    by (simp add: desktop_open_app_def k2_def k1_def c_def Let_def set_desk_def)
  have "returns k2 (\<lambda>k2. gui_paints s k2 \<and> k_desk k2 = c \<and> k_fs k2 = k_fs k \<and> k_pit k2 = k_pit k)"
  proof (cases "app = APP_TERMINAL")
    case True
    define k0 where "k0 = with_gcon (gcon_init (gcx c) (gcy c) (gcols c) (grows c) 2 0x9defb0 0x0a0f1a)
      (draw (lfb_round_fill (px c) (py c) (pw c) (ph c) 8 0x0a0f1a) k1)"
    have "gui_paints s (draw (lfb_round_fill (px c) (py c) (pw c) (ph c) 8 0x0a0f1a) k1)"
      using k1(1) by (intro draw_paints paint_intros)
    from terminal_paints [OF this _ assms(3)] have k0: "gui_paints s k0" "k_desk k0 = c" "k_fs k0 = k_fs k" "k_pit k0 = k_pit k"
      using laid k1 by (simp_all add: k0_def)
    have "prints welcome_line" unfolding welcome_line_def by (rule prints_kprintf) (simp add: NL_def)
    then have "returns (do { k \<leftarrow> say dev welcome_line k0; shell_start dev k })
        (\<lambda>k2. gui_paints s k2 \<and> k_desk k2 = c \<and> k_fs k2 = k_fs k \<and> k_pit k2 = k_pit k)"
    proof (intro returns_bind returns_mono [OF say_returns [OF assms(4)]], goal_cases)
      case (2 x)
      then show ?case using k0 shown_fields(1-3) [of k0 x]
        by (intro returns_mono [OF shell_start_returns [OF assms(4)]]) (auto dest: shown_fields(1-3))
    qed
    then show ?thesis using True by (simp add: k2_def k0_def)
  next
    case False
    have "gui_paints s (with_gcon (gcon_set_active False) k1)"
      using k1(1) by (intro with_gcon_paints) (simp add: gui_paints_iff gcon_paints_def gcon_inv_def gcon_set_active_def)
    from open_pane_paints(1) [OF this] have "gui_paints s (open_pane app (with_gcon (gcon_set_active False) k1))" .
    then show ?thesis using False k1 by (simp add: k2_def returns_Some open_pane_def Let_def case_prod_unfold)
  qed
  then show ?thesis unfolding eq
  proof (intro returns_bind, elim returns_mono, goal_cases)
    case (1 x)
    then show ?case using laid
      by (intro returns_mono [OF dock_paints [OF _ _ assms(3)]]) (auto simp: opens_def c_def dest: shown_fields(1-3))
  qed
qed

lemma desktop_set_theme_paints:
  assumes "gui_paints s k" "screen_fits s" "uart_drains dev"
  shows "returns (desktop_set_theme dev t b a k) (\<lambda>k'. gui_paints s k' \<and> desk_laid s (k_desk k'))"
proof -
  let ?k = "set_desk (\<lambda>c. c\<lparr>g_wall_top := t, g_wall_bot := b, g_accent := a\<rparr>) k"
  have "gui_paints s ?k" using assms(1) by simp
  then show ?thesis unfolding desktop_set_theme_def Let_def
  proof (intro returns_bind, rule_tac returns_mono [OF desktop_draw_paints [OF _ assms(2)]], goal_cases)
    case (2 x)
    then show ?case
      by (intro returns_mono [OF desktop_open_app_paints [OF _ _ assms(2,3)]]) (auto simp: opens_def desk_laid_def)
  qed
qed

lemma app_settings_click_paints:
  assumes "gui_paints s k" "desk_laid s (k_desk k)" "screen_fits s" "uart_drains dev"
  shows "returns (app_settings_click dev mx my k) (\<lambda>k'. gui_paints s k' \<and> desk_laid s (k_desk k'))"
proof -
  have "gui_paints s (draw (\<lambda>_. t) (k\<lparr>k_set := c\<rparr>))" if "painted s t" for t c
    using assms(1) that by (simp add: gui_paints_iff)
  moreover have "painted s (fb k)" using assms(1) by (simp add: gui_paints_iff)
  ultimately show ?thesis using assms desktop_set_theme_paints [OF assms(1,3,4)]
    by (auto simp: app_settings_click_def Let_def case_prod_unfold split: option.split intro!: returns_Some paint_settings)
qed

section \<open>What the desktop's drawing keeps\<close>

text \<open>
  \<open>gui_keeps k k'\<close>: everything but the display, the console and the statics of desktop and
  applications is as it was; the edited line is as it was or starts afresh.
\<close>

definition cursor_of :: "desk \<Rightarrow> u32 list \<times> int \<times> int \<times> bool" where
  "cursor_of c = (cur_save c, cur_x c, cur_y c, cur_vis c)"

definition gui_keeps :: "'a gui_scheme \<Rightarrow> 'a gui_scheme \<Rightarrow> bool" where
  "gui_keeps k k' \<longleftrightarrow> gui.more k' = gui.more k \<and> k_fs k' = k_fs k \<and> k_pit k' = k_pit k \<and> s_line k' = s_line k \<and> s_len k' \<le> s_len k \<and>
     (notes_ok (k_notes k) \<longrightarrow> notes_ok (k_notes k')) \<and> cursor_of (k_desk k') = cursor_of (k_desk k)"

lemma gui_keeps_refl [simp]: "gui_keeps k k"
  by (simp add: gui_keeps_def)

lemma gui_keeps_trans: "gui_keeps k k' \<Longrightarrow> gui_keeps k' k'' \<Longrightarrow> gui_keeps k k''"
  by (auto simp: gui_keeps_def)

lemma shown_keeps: "shown k k' \<Longrightarrow> gui_keeps k k'"
  by (simp add: gui_keeps_def shown_fields)

lemma draw_keeps [simp]: "gui_keeps k (draw f k)" "gui_keeps k (with_gcon g k)"
  by (simp_all add: shown_keeps)

lemma gui_keeps_iff [simp]: "gui_keeps k (draw f k') = gui_keeps k k'" "gui_keeps k (with_gcon g k') = gui_keeps k k'"
    "gui_keeps k (set_desk (\<lambda>c. c\<lparr>g_app := app\<rparr>) k') = gui_keeps k k'"
    "gui_keeps k (set_desk (\<lambda>c. c\<lparr>g_wall_top := wt, g_wall_bot := wb, g_accent := wa\<rparr>) k') = gui_keeps k k'"
  by (simp_all add: gui_keeps_def shown_fields [OF shown_draw] draw_def with_gcon_def set_desk_def cursor_of_def Let_def case_prod_unfold)

lemma say_shown: "say dev out k = Some k' \<Longrightarrow> shown k k'"
  by (auto simp: say_def shown_def split: Option.bind_splits)

lemma draw_opt_shown: "draw_opt f k = Some k' \<Longrightarrow> shown k k'"
  by (auto simp: draw_opt_def)

lemma shell_start_keeps: "shell_start dev k = Some k' \<Longrightarrow> gui_keeps k k'"
proof -
  assume "shell_start dev k = Some k'"
  then obtain k1 where "say dev (kprintf (''Type '' @ [CHR 0x27] @ ''help'' @ [CHR 0x27] @ '' to begin.'' @ NL @ NL) []) (k\<lparr>s_len := 0\<rparr>) = Some k1"
      "shell_prompt dev k1 = Some k'" by (auto simp: shell_start_def split: Option.bind_splits)
  then have "gui_keeps (k\<lparr>s_len := 0\<rparr>) k'" unfolding shell_prompt_def by (blast intro: gui_keeps_trans shown_keeps dest: say_shown)
  then show ?thesis by (simp add: gui_keeps_def)
qed

lemma notes_load_ok: "length (no_buf n) = 1024 \<Longrightarrow> no_len n \<le> 1023 \<Longrightarrow> notes_ok (notes_load fs d n)"
proof -
  assume n: "length (no_buf n) = 1024" "no_len n \<le> 1023"
  have "notes_ok (fold (\<lambda>i n. if no_len n < 1023 then n\<lparr>no_buf := (no_buf n)[no_len n := g i], no_len := no_len n + 1\<rparr> else n) xs n)"
    if "notes_ok n" for g :: "nat \<Rightarrow> char" and xs n
    using that by (induction xs arbitrary: n) (auto simp: notes_ok_def)
  then show ?thesis using n by (simp add: notes_load_def case_prod_unfold notes_ok_def)
qed

lemma notes_open_ok: "notes_ok n \<Longrightarrow> notes_ok (fst (app_notes_open x y w h fs (n, t)))"
  unfolding app_notes_open_def Let_def prod.case notes_render_text
  by (auto simp: notes_ok_def notes_load_ok [unfolded notes_ok_def] split: option.split)

lemma open_pane_keeps: "gui_keeps k (open_pane app k)"
  using notes_open_ok [of "k_notes k"]
  by (auto simp: open_pane_def Let_def case_prod_unfold gui_keeps_def draw_def)

lemma desktop_open_app_keeps: "desktop_open_app dev app k = Some k' \<Longrightarrow> gui_keeps k k'"
proof -
  assume k': "desktop_open_app dev app k = Some k'"
  have dock: "gui_keeps k k'" if "draw_opt (draw_dock c) k2 = Some k'" "gui_keeps k k2" for c k2
    using that draw_opt_shown shown_keeps gui_keeps_trans by blast
  show ?thesis
  proof (cases "app = APP_TERMINAL")
    case True
    then obtain k3 k4 k5 where k3: "gui_keeps k k3" "say dev welcome_line k3 = Some k4" "shell_start dev k4 = Some k5"
        "draw_opt (draw_dock (k_desk k5)) k5 = Some k'"
      using k' by (simp add: desktop_open_app_def Let_def bind_eq_Some_conv) (metis gui_keeps_iff gui_keeps_refl)
    then show ?thesis using shown_keeps [OF say_shown [OF k3(2)]] shell_start_keeps [OF k3(3)] dock gui_keeps_trans by blast
  next
    case False
    then have "draw_opt (draw_dock (k_desk (open_pane app (with_gcon (gcon_set_active False) (draw (titlebar_name app ((k_desk k)\<lparr>g_app := app\<rparr>)) (set_desk (\<lambda>c. c\<lparr>g_app := app\<rparr>) k))))))
        (open_pane app (with_gcon (gcon_set_active False) (draw (titlebar_name app ((k_desk k)\<lparr>g_app := app\<rparr>)) (set_desk (\<lambda>c. c\<lparr>g_app := app\<rparr>) k)))) = Some k'"
      using k' by (simp add: desktop_open_app_def Let_def)
    then show ?thesis by (rule dock) (rule gui_keeps_trans [OF _ open_pane_keeps], simp)
  qed
qed

lemma desktop_draw_keeps: "desktop_draw k = Some k' \<Longrightarrow> gui_keeps k k'"
proof -
  have "gui_keeps k k2" if "draw_opt f k1 = Some k2" "gui_keeps k k1" for f k1 k2
    using that draw_opt_shown shown_keeps gui_keeps_trans by blast
  moreover have "cursor_of (desktop_regions c) = cursor_of c" "cursor_of (desktop_window c) = cursor_of c" for c
    by (simp_all add: desktop_regions_def desktop_window_def Let_def cursor_of_def)
  ultimately show "desktop_draw k = Some k' \<Longrightarrow> gui_keeps k k'"
    by (auto simp: desktop_draw_def Let_def gui_keeps_def draw_def set_desk_def cursor_of_def)
qed

lemma desktop_set_theme_keeps: "desktop_set_theme dev t b a k = Some k' \<Longrightarrow> gui_keeps k k'"
proof -
  assume "desktop_set_theme dev t b a k = Some k'"
  then obtain k1 where "desktop_draw (set_desk (\<lambda>c. c\<lparr>g_wall_top := t, g_wall_bot := b, g_accent := a\<rparr>) k) = Some k1"
      "desktop_open_app dev (g_app (k_desk k1)) k1 = Some k'" by (auto simp: desktop_set_theme_def split: Option.bind_splits)
  then show ?thesis
    using gui_keeps_trans [OF gui_keeps_trans [OF _ desktop_draw_keeps] desktop_open_app_keeps] by (metis gui_keeps_iff(4) gui_keeps_refl)
qed

lemma app_settings_click_keeps: "app_settings_click dev mx my k = Some k' \<Longrightarrow> gui_keeps k k'"
  using desktop_set_theme_keeps
  by (auto simp: app_settings_click_def Let_def case_prod_unfold split: if_splits option.splits) (simp add: gui_keeps_def draw_def)

end
