(* ===== verification/Shell_Text.thy ===== *)
theory Shell_Text
  imports Kprintf
begin

text \<open>
  The text handling of the shell (\<open>kernel/shell/shell.c\<close>): the numbers in its arguments, the
  history of commands, the line being edited and its split into a command and its arguments. The
  lemmas show that printed numbers are read back, that the history holds the latest commands, and
  that the line is the text a user sees.
\<close>

section \<open>Numbers\<close>

text \<open>A digit of \<open>parse_hex\<close>; \<open>None\<close> is the branch that returns false.\<close>

definition hex_digit :: "char \<Rightarrow> u32 option" where
  "hex_digit c =
     (let n = of_char c :: nat
      in if of_char (CHR ''0'') \<le> n \<and> n \<le> of_char (CHR ''9'') then Some (of_char c - 48)
         else if of_char (CHR ''a'') \<le> n \<and> n \<le> of_char (CHR ''f'') then Some (of_char c - 97 + 10)
         else if of_char (CHR ''A'') \<le> n \<and> n \<le> of_char (CHR ''F'') then Some (of_char c - 65 + 10)
         else None)"

fun hex_loop :: "char list \<Rightarrow> u32 \<Rightarrow> bool \<Rightarrow> u32 option" where
  "hex_loop [] v seen = (if seen then Some v else None)"
| "hex_loop (c # s) v seen = Option.bind (hex_digit c) (\<lambda>d. hex_loop s (push_bit 4 v OR d) True)"

text \<open>The result of \<open>parse_hex\<close>: the value when it returns true.\<close>

definition parse_hex :: "char list \<Rightarrow> u32 option" where
  "parse_hex s =
     (let s = cstr s;
          s = (if cget s 0 = CHR ''0'' \<and> (cget s 1 = CHR ''x'' \<or> cget s 1 = CHR ''X'') then drop 2 s else s)
      in hex_loop s 0 False)"

fun uint_loop :: "char list \<Rightarrow> u32 \<Rightarrow> bool \<Rightarrow> u32 option" where
  "uint_loop [] v seen = (if seen then Some v else None)"
| "uint_loop (c # s) v seen =
     (if is_digit c then uint_loop s (v * 10 + (of_char c - 48)) True
      else if seen then Some v else None)"

definition parse_uint :: "char list \<Rightarrow> u32 option" where
  "parse_uint s = uint_loop (cstr s) 0 False"

section \<open>The command history\<close>

definition LINE_MAX :: nat where "LINE_MAX = 128"
definition HIST_MAX :: u32 where "HIST_MAX = 16"

record history =
  hist :: "char list list"
  hist_n :: u32

definition hist_push :: "char list \<Rightarrow> history \<Rightarrow> history" where
  "hist_push line h =
     (let i = unat (hist_n h mod HIST_MAX)
      in h\<lparr>hist := (hist h)[i := cstr_copy (hist h ! i) line 0 (LINE_MAX - 1)], hist_n := hist_n h + 1\<rparr>)"

definition hist_record :: "char list \<Rightarrow> history \<Rightarrow> history" where
  "hist_record line h = (if cget line 0 = NUL then h else hist_push line h)"

fun history_loop :: "history \<Rightarrow> nat \<Rightarrow> nat \<Rightarrow> console \<Rightarrow> console option" where
  "history_loop h i 0 c = Some c"
| "history_loop h i (Suc n) c =
     Option.bind (kprintf (''  %u  %s'' @ NL) [KNum (of_nat i + 1), ks (hist h ! unat (of_nat i mod HIST_MAX))] c) (history_loop h (Suc i) n)"

definition cmd_history :: "history \<Rightarrow> console \<Rightarrow> console option" where
  "cmd_history h c =
     (let start = (if hist_n h > HIST_MAX then hist_n h - HIST_MAX else 0)
      in if hist_n h = 0 then kprintf (''(no commands yet)'' @ NL) [] c
         else history_loop h (unat start) (unat (hist_n h - start)) c)"

section \<open>The line editor\<close>

text \<open>The edit state is \<open>s_line\<close> and \<open>s_len\<close>; the result says what \<open>kputc\<close> echoes. \<open>char\<close> is signed.\<close>

definition printable :: "char \<Rightarrow> bool" where
  "printable c \<longleftrightarrow> 32 \<le> (of_char c :: nat) \<and> (of_char c :: nat) < 128"

definition line_edit :: "char \<Rightarrow> char list \<times> nat \<Rightarrow> char option \<times> char list \<times> nat" where
  "line_edit c = (\<lambda>(line, len).
     if c = CHR 0x08 then (if len > 0 then (Some (CHR 0x08), line, len - 1) else (None, line, len))
     else if len < LINE_MAX - 1 \<and> printable c then (Some c, line[len := c], len + 1)
     else (None, line, len))"

text \<open>The split at the head of \<open>execute\<close>: the command, and the arguments after the spaces.\<close>

definition split_line :: "char list \<Rightarrow> char list \<times> char list" where
  "split_line line =
     (let s = cstr line; cmd = takeWhile (\<lambda>c. c \<noteq> CHR '' '') s
      in (cmd, dropWhile (\<lambda>c. c = CHR '' '') (drop (length cmd) s)))"

section \<open>Printed numbers are read back\<close>

lemma hex_digit_char: "d < 16 \<Longrightarrow> hex_digit (digit_char upper (word_of_nat d)) = Some (word_of_nat d)"
proof -
  have "\<forall>d < 16. hex_digit (digit_char True (word_of_nat d)) = Some (word_of_nat d) \<and>
      hex_digit (digit_char False (word_of_nat d)) = Some (word_of_nat d)" by code_simp
  then show "d < 16 \<Longrightarrow> ?thesis" by (cases upper) simp_all
qed

lemma hex_step: "d < 16 \<Longrightarrow> push_bit 4 (v :: u32) OR word_of_nat d = v * 16 + word_of_nat d"
proof -
  assume d: "d < 16"
  have "push_bit 4 v OR word_of_nat d = push_bit 4 v + (word_of_nat d :: u32)"
  proof (rule disjunctive_add [symmetric])
    fix n
    have "\<not> bit d n" if "4 \<le> n"
    proof -
      have "d < 2 ^ n" using d power_increasing [OF that, of "2 :: nat"] by simp
      then show ?thesis by (simp add: bit_iff_odd)
    qed
    then show "\<not> bit (push_bit 4 v) n \<or> \<not> bit (word_of_nat d :: u32) n" by (auto simp: bit_simps)
  qed
  then show ?thesis by (simp add: push_bit_eq_mult)
qed

lemma hex_loop_digits:
  assumes "\<forall>d \<in> set ds. d < 16"
  shows "hex_loop (map (\<lambda>d. digit_char upper (word_of_nat d)) ds) v seen =
    (if seen \<or> ds \<noteq> [] then Some (foldl (\<lambda>v d. v * 16 + word_of_nat d) v ds) else None)"
  using assms by (induction ds arbitrary: v seen) (simp_all add: hex_digit_char hex_step)

lemma uint_loop_digits:
  assumes "\<forall>d \<in> set ds. d < 10"
  shows "uint_loop (map (\<lambda>d. digit_char upper (word_of_nat d)) ds) v seen =
    (if seen \<or> ds \<noteq> [] then Some (foldl (\<lambda>v d. v * 10 + word_of_nat d) v ds) else None)"
proof -
  have dec: "is_digit (digit_char upper (word_of_nat d))" "of_char (digit_char upper (word_of_nat d)) - 48 = (word_of_nat d :: u32)"
    if "d < 10" for d
  proof -
    have "\<forall>u \<in> {True, False}. \<forall>d < 10. is_digit (digit_char u (word_of_nat d)) \<and> of_char (digit_char u (word_of_nat d)) - 48 = (word_of_nat d :: u32)"
      by code_simp
    then show "is_digit (digit_char upper (word_of_nat d))" "of_char (digit_char upper (word_of_nat d)) - 48 = (word_of_nat d :: u32)"
      using that by (cases upper; simp)+
  qed
  show ?thesis using assms by (induction ds arbitrary: v seen) (simp_all add: dec)
qed

lemma foldl_horner: "foldl (\<lambda>v d. v * word_of_nat b + word_of_nat d) 0 (rev ds) = (word_of_nat (horner b ds) :: u32)"
  by (induction ds) (simp_all add: ac_simps)

lemma digit_char_ascii:
  assumes "d < 16"
  shows "digit_char upper (word_of_nat d) \<notin> {NUL, CHR ''x'', CHR ''X''}"
proof -
  have "\<forall>u \<in> {True, False}. \<forall>d < 16. digit_char u (word_of_nat d) \<notin> set [NUL, CHR ''x'', CHR ''X'']" by code_simp
  then show ?thesis using assms by (cases upper) simp_all
qed

lemma parse_hex_digits:
  assumes "\<forall>d \<in> set ds. d < 16" "ds \<noteq> []"
  shows "parse_hex (rev (map (\<lambda>d. digit_char upper (word_of_nat d)) ds)) = Some (word_of_nat (horner 16 ds))"
    "parse_hex (''0x'' @ rev (map (\<lambda>d. digit_char upper (word_of_nat d)) ds)) = Some (word_of_nat (horner 16 ds))"
proof -
  let ?t = "map (\<lambda>d. digit_char upper (word_of_nat d)) (rev ds)"
  have no: "c \<in> set ?t \<Longrightarrow> c \<notin> {NUL, CHR ''x'', CHR ''X''}" for c using digit_char_ascii assms(1) by auto
  then have "NUL \<notin> set ?t" by blast
  then have c: "cstr ?t = ?t" "cstr (''0x'' @ ?t) = ''0x'' @ ?t" by (simp_all add: cstr_id)
  have "cget ?t 1 \<notin> {CHR ''x'', CHR ''X''}" using no [of "?t ! 1"] nth_mem [of 1 ?t] by (auto simp: cget_def)
  moreover have v: "hex_loop ?t 0 False = Some (word_of_nat (horner 16 ds))"
    using hex_loop_digits [of "rev ds" upper 0 False] assms foldl_horner [of 16 ds] by simp
  ultimately show "parse_hex (rev (map (\<lambda>d. digit_char upper (word_of_nat d)) ds)) = Some (word_of_nat (horner 16 ds))"
    unfolding parse_hex_def Let_def rev_map c by auto
  show "parse_hex (''0x'' @ rev (map (\<lambda>d. digit_char upper (word_of_nat d)) ds)) = Some (word_of_nat (horner 16 ds))"
    unfolding parse_hex_def Let_def rev_map c using v by (simp add: cget_def)
qed

lemma parse_hex_xtext:
  assumes "pad \<le> 32"
  shows "parse_hex (xtext pad v) = Some v" "parse_hex (''0x'' @ xtext pad v) = Some v"
proof -
  obtain ds where "\<forall>d \<in> set ds. d < unat (16 :: u32)" "horner (unat (16 :: u32)) ds = unat v" "ds \<noteq> []"
      "print_uint v 16 False pad = Some (rev (map (\<lambda>d. digit_char False (word_of_nat d)) ds))"
    by (rule print_uint_text [of 16 pad v False]) (use assms in auto)
  then have ds: "\<forall>d \<in> set ds. d < 16" "horner 16 ds = unat v" "ds \<noteq> []"
      "print_uint v 16 False pad = Some (rev (map (\<lambda>d. digit_char False (word_of_nat d)) ds))" by auto
  then show "parse_hex (xtext pad v) = Some v" "parse_hex (''0x'' @ xtext pad v) = Some v"
    using parse_hex_digits [OF ds(1,3)] by (simp_all add: xtext_def)
qed

lemma xtext_no_NUL:
  assumes "pad \<le> 32"
  shows "NUL \<notin> set (xtext pad v)"
proof -
  obtain ds where "\<forall>d \<in> set ds. d < unat (16 :: u32)"
      "print_uint v 16 False pad = Some (rev (map (\<lambda>d. digit_char False (word_of_nat d)) ds))"
    by (rule print_uint_text [of 16 pad v False]) (use assms in auto)
  moreover have "NUL \<noteq> digit_char False (word_of_nat e)" if "e < 16" for e using digit_char_ascii [OF that, of False] by auto
  ultimately show ?thesis by (fastforce simp: xtext_def)
qed

lemma utext_digits:
  obtains ds where "\<forall>d \<in> set ds. d < 10" "horner 10 ds = unat v" "ds \<noteq> []"
    "utext v = map (\<lambda>d. digit_char False (word_of_nat d)) (rev ds)"
proof -
  obtain ds where "\<forall>d \<in> set ds. d < unat (10 :: u32)" "horner (unat (10 :: u32)) ds = unat v" "ds \<noteq> []"
      "print_uint v 10 False 0 = Some (rev (map (\<lambda>d. digit_char False (word_of_nat d)) ds))"
    by (rule print_uint_text [of 10 0 v False]) auto
  then show thesis using that [of ds] by (simp add: utext_def rev_map)
qed

lemma utext_no_NUL: "NUL \<notin> set (utext v)"
proof -
  obtain ds where ds: "\<forall>d \<in> set ds. d < 10" "utext v = map (\<lambda>d. digit_char False (word_of_nat d)) (rev ds)" by (rule utext_digits)
  have "NUL \<noteq> digit_char False (word_of_nat e)" if "e \<in> set ds" for e
    using digit_char_ascii [of e False] bspec [OF ds(1) that] by auto
  then show ?thesis unfolding ds(2) by fastforce
qed

lemma utext_starts: "utext v = [] \<or> hd (utext v) \<noteq> CHR '' ''"
proof -
  obtain ds where ds: "\<forall>d \<in> set ds. d < 10" "ds \<noteq> []" "utext v = map (\<lambda>d. digit_char False (word_of_nat d)) (rev ds)" by (rule utext_digits)
  have "\<forall>d < 10. digit_char False (word_of_nat d) \<noteq> CHR '' ''" by code_simp
  then show ?thesis using ds by (simp add: hd_map hd_rev)
qed

lemma parse_uint_utext: "parse_uint (utext v) = Some v"
proof -
  obtain ds where ds: "\<forall>d \<in> set ds. d < 10" "horner 10 ds = unat v" "ds \<noteq> []"
      "utext v = map (\<lambda>d. digit_char False (word_of_nat d)) (rev ds)" by (rule utext_digits)
  have "uint_loop (utext v) 0 False = Some v"
    unfolding ds(4) using uint_loop_digits [of "rev ds" False 0 False] ds(1-3) foldl_horner [of 10 ds] by simp
  then show ?thesis by (simp add: parse_uint_def cstr_id utext_no_NUL)
qed

section \<open>The history lists the latest commands\<close>

definition hist_inv :: "history \<Rightarrow> bool" where
  "hist_inv h \<longleftrightarrow> length (hist h) = 16 \<and> (\<forall>r \<in> set (hist h). length r = 128)"

lemma unat_mod_hist: "unat (w mod HIST_MAX) = unat w mod 16"
  by (simp add: HIST_MAX_def unat_mod)

interpretation cmds: ring_log 16 4294967295 hist_inv "\<lambda>h. unat (hist_n h)" "\<lambda>h j. cstr (hist h ! j)" "\<lambda>l n. take 127 (cstr l)" hist_push
proof unfold_locales
  fix h :: history and l :: "char list"
  assume inv: "hist_inv h" and lim: "unat (hist_n h) < 4294967295"
  then show "unat (hist_n (hist_push l h)) = Suc (unat (hist_n h))" by (simp add: hist_push_def Let_def unat_Suc_u32)
  have row: "length (hist h ! (unat (hist_n h) mod 16)) = 128" using inv by (simp add: hist_inv_def)
  show "hist_inv (hist_push l h)" using inv row
    by (auto simp: hist_inv_def hist_push_def Let_def unat_mod_hist dest!: set_update_subset_insert [THEN subsetD])
  show "cstr (hist (hist_push l h) ! j) = (if j = unat (hist_n h) mod 16 then take 127 (cstr l) else cstr (hist h ! j))" if "j < 16" for j
    using that inv row take_cstr_copy [of 0 127 "hist h ! (unat (hist_n h) mod 16)" l]
    by (simp add: hist_push_def Let_def unat_mod_hist nth_list_update hist_inv_def LINE_MAX_def)
qed simp

lemma fold_hist_record: "fold hist_record ls h = fold hist_push (filter (\<lambda>l. cget l 0 \<noteq> NUL) ls) h"
  by (induction ls arbitrary: h) (simp_all add: hist_record_def)

definition history_line :: "char list list \<Rightarrow> nat \<Rightarrow> char list" where
  "history_line ls i = ''  '' @ utext (of_nat (Suc i)) @ ''  '' @ take 127 (cstr (ls ! i)) @ NL"

lemma history_loop_outputs:
  assumes "\<And>j. i \<le> j \<Longrightarrow> j < i + n \<Longrightarrow> cstr (hist h ! (j mod 16)) = take 127 (cstr (ls ! j))" "i + n \<le> 4294967295"
  shows "outputs (history_loop h i n) (concat (map (history_line ls) [i..<i + n]))"
  using assms
proof (induction n arbitrary: i)
  case 0
  have "history_loop h i 0 = Some" by (rule ext) simp
  then show ?case by (simp add: outputs_Some)
next
  case (Suc n)
  have u: "unat (of_nat i mod HIST_MAX :: u32) = i mod 16" using Suc.prems(2) by (simp add: unat_mod_hist unat_of_nat_u32)
  have "outputs (kprintf (''  %u  %s'' @ NL) [KNum (of_nat i + 1), ks (hist h ! (i mod 16))]) (history_line ls i)"
    using Suc.prems(1) [of i] by (intro outputs_kprintf) (simp add: kformat_rules NL_def history_line_def ac_simps)
  moreover have "outputs (history_loop h (Suc i) n) (concat (map (history_line ls) [Suc i..<Suc i + n]))"
    using Suc.prems by (intro Suc.IH) auto
  moreover have "history_loop h i (Suc n) = (\<lambda>c. Option.bind (kprintf (''  %u  %s'' @ NL) [KNum (of_nat i + 1), ks (hist h ! (i mod 16))] c) (history_loop h (Suc i) n))"
    by (rule ext) (simp add: u)
  moreover have "[i..<i + Suc n] = i # [Suc i..<Suc i + n]" by (simp add: upt_conv_Cons)
  ultimately show ?case by (simp add: outputs_bind)
qed

lemma history_outputs:
  assumes "hist_inv h" "hist_n h = 0" "ls \<noteq> []" "length ls \<le> 4294967295"
  shows "outputs (cmd_history (fold hist_push ls h)) (concat (map (history_line ls) [length ls - 16..<length ls]))"
proof -
  define g where "g = fold hist_push ls h"
  have n: "unat (hist_n g) = length ls" using cmds.pushes [OF assms(1), of ls] assms(2,4) by (simp add: g_def)
  have slots: "cstr (hist g ! (j mod 16)) = take 127 (cstr (ls ! j))" if "j < length ls" "length ls \<le> j + 16" for j
    using cmds.recent [OF assms(1) _ assms(4) that] assms(2) by (simp add: g_def)
  define start where "start = (if hist_n g > HIST_MAX then hist_n g - HIST_MAX else 0)"
  have start: "unat start = length ls - 16" "unat (hist_n g - start) = length ls - (length ls - 16)"
    using n by (auto simp: start_def HIST_MAX_def word_less_nat_alt unat_sub_if')
  have "hist_n g \<noteq> 0" using n assms(3) by auto
  then have "cmd_history g = history_loop g (length ls - 16) (length ls - (length ls - 16))"
    by (intro ext) (simp add: cmd_history_def Let_def start flip: start_def)
  moreover have "outputs (history_loop g (length ls - 16) (length ls - (length ls - 16)))
      (concat (map (history_line ls) [length ls - 16..<length ls - 16 + (length ls - (length ls - 16))]))"
    using assms(4) by (intro history_loop_outputs slots) auto
  ultimately show ?thesis unfolding g_def by simp
qed

text \<open>
  After any sequence of lines the \<open>history\<close> command prints the latest sixteen that were not empty,
  oldest first, each with its number and at most 127 characters of it.
\<close>

theorem history_lists_newest:
  assumes "hist_inv h" "hist_n h = 0" "cmds = filter (\<lambda>l. cget l 0 \<noteq> NUL) ls" "cmds \<noteq> []" "length cmds \<le> 4294967295"
  shows "outputs (cmd_history (fold hist_record ls h)) (concat (map (history_line cmds) [length cmds - 16..<length cmds]))"
  unfolding fold_hist_record assms(3) [symmetric] using assms by (intro history_outputs)

definition hist_static :: history where
  "hist_static = \<lparr>hist = replicate 16 (replicate 128 NUL), hist_n = 0\<rparr>"

theorem history_lists_newest_witness:
  "outputs (cmd_history (fold hist_record [''ls'', [], ''cat readme''] hist_static))
     (''  1  ls'' @ NL @ ''  2  cat readme'' @ NL)"
proof -
  have "utext 1 = ''1''" "utext 2 = ''2''" by code_simp+
  then show ?thesis
    using history_lists_newest [of hist_static "[''ls'', ''cat readme'']" "[''ls'', [], ''cat readme'']"]
    by (simp add: hist_static_def hist_inv_def cget_def history_line_def upt_rec)
qed

section \<open>The line is the edited text\<close>

text \<open>What a key does to the text in front of the cursor.\<close>

definition text_edit :: "char \<Rightarrow> char list \<Rightarrow> char list" where
  "text_edit c s = (if c = CHR 0x08 then butlast s else if length s < 127 \<and> printable c then s @ [c] else s)"

definition line_ok :: "char list \<times> nat \<Rightarrow> bool" where
  "line_ok = (\<lambda>(line, len). length line = 128 \<and> len \<le> 127 \<and> NUL \<notin> set (take len line))"

definition line_text :: "char list \<times> nat \<Rightarrow> char list" where
  "line_text = (\<lambda>(line, len). take len line)"

lemma line_edit_text:
  assumes "line_ok st"
  shows "line_ok (snd (line_edit c st))" "line_text (snd (line_edit c st)) = text_edit c (line_text st)"
proof -
  obtain line len where st: "st = (line, len)" by (cases st)
  have ok: "length line = 128" "len \<le> 127" "NUL \<notin> set (take len line)" using assms by (auto simp: line_ok_def st)
  have bs: "butlast (take len line) = take (len - 1) line" using ok by (simp add: butlast_take)
  have ap: "take (Suc len) (line[len := c]) = take len line @ [c]" using ok by (simp add: take_Suc_conv_app_nth)
  have "set (take (len - 1) line) \<subseteq> set (take len line)" by (rule set_take_subset_set_take) simp
  moreover have "printable c \<Longrightarrow> c \<noteq> NUL" by (auto simp: printable_def)
  ultimately show "line_ok (snd (line_edit c st))" using ok ap
    by (auto simp: st line_edit_def line_ok_def LINE_MAX_def)
  show "line_text (snd (line_edit c st)) = text_edit c (line_text st)" using ok ap bs
    by (auto simp: st line_edit_def line_text_def text_edit_def LINE_MAX_def)
qed

text \<open>The string \<open>execute\<close> gets: the line up to the NUL put after its last character.\<close>

lemma line_string: "line_ok (line, len) \<Longrightarrow> cstr (line[len := NUL]) = line_text (line, len)"
proof -
  assume "line_ok (line, len)"
  then have "line[len := NUL] = take len line @ NUL # drop (Suc len) line" "NUL \<notin> set (take len line)"
    by (auto simp: line_ok_def upd_conv_take_nth_drop)
  then show ?thesis by (simp add: line_text_def cstr_id)
qed

lemma split_line_text:
  assumes "CHR '' '' \<notin> set cmd" "NUL \<notin> set cmd" "NUL \<notin> set args" "args = [] \<or> hd args \<noteq> CHR '' ''"
  shows "cstr l = cmd @ replicate (Suc n) (CHR '' '') @ args \<Longrightarrow> split_line l = (cmd, args)"
    "cstr l = cmd \<Longrightarrow> split_line l = (cmd, [])"
proof -
  have tw: "takeWhile (\<lambda>c. c \<noteq> CHR '' '') (cmd @ CHR '' '' # s) = cmd" for s
    using assms(1) by (subst takeWhile_append2) auto
  have "dropWhile (\<lambda>c. c = CHR '' '') (replicate k (CHR '' '') @ args) = args" for k
    using assms(4) by (induction k) (cases args; simp)+
  then show "split_line l = (cmd, args)" if "cstr l = cmd @ replicate (Suc n) (CHR '' '') @ args"
    using that tw [of "replicate n (CHR '' '') @ args"] by (simp add: split_line_def Let_def)
  show "split_line l = (cmd, [])" if "cstr l = cmd"
  proof -
    have tw0: "takeWhile (\<lambda>c. c \<noteq> CHR '' '') cmd = cmd" using assms(1) by (auto simp: takeWhile_eq_all_conv)
    show ?thesis unfolding split_line_def Let_def that tw0 by simp
  qed
qed

end
