(* ===== verification/Reports.thy ===== *)
theory Reports
  imports Pmm Coop Kheap Kprintf "HOL-Library.Monad_Syntax"
begin

text \<open>
  What the memory manager and the scheduler print about themselves: the memory map and frame
  statistics (\<open>kernel/mm/pmm.c\<close>), the task table and the round-robin demo (\<open>kernel/sched/sched.c\<close>)
  and the cooperative demo (\<open>kernel/sched/coop.c\<close>). The lemmas give the printed text.
\<close>

section \<open>Memory\<close>

definition MB_MEMORY_ACPI_RECLAIMABLE :: u32 where "MB_MEMORY_ACPI_RECLAIMABLE = 3"
definition MB_MEMORY_NVS :: u32 where "MB_MEMORY_NVS = 4"
definition MB_MEMORY_BADRAM :: u32 where "MB_MEMORY_BADRAM = 5"

definition mmap_type_name :: "u32 \<Rightarrow> char list" where
  "mmap_type_name ty =
     (if ty = MB_MEMORY_AVAILABLE then ''available''
      else if ty = MB_MEMORY_ACPI_RECLAIMABLE then ''ACPI-reclaim''
      else if ty = MB_MEMORY_NVS then ''ACPI-NVS''
      else if ty = MB_MEMORY_BADRAM then ''bad RAM''
      else ''reserved'')"

definition print_entry :: "mmap_entry \<Rightarrow> console \<Rightarrow> console option" where
  "print_entry e =
     kprintf (''  0x%08x  0x%08x  %s'' @ NL) [KNum (ucast (e_addr e)), KNum (ucast (e_len e)), ks (mmap_type_name (e_type e))]"

partial_function (option) print_mmap_loop :: "mem \<Rightarrow> u32 \<Rightarrow> u32 \<Rightarrow> console \<Rightarrow> console option" where
  "print_mmap_loop m p q c =
     (if p < q then Option.bind (print_entry (read_entry m p) c) (print_mmap_loop m (p + (e_size (read_entry m p) + 4)) q) else Some c)"

declare print_mmap_loop.simps [code]

definition pmm_print_mmap :: "mem \<Rightarrow> pmm \<Rightarrow> console \<Rightarrow> console option" where
  "pmm_print_mmap m p c =
     (if mmap_len_saved p = 0 then do {
        c \<leftarrow> kprintf (''No Multiboot memory map was provided by the bootloader.'' @ NL) [] c;
        if mem_upper_kb p \<noteq> 0
        then kprintf (''Fallback hint: %u KiB low, %u KiB high.'' @ NL) [KNum (mem_lower_kb p), KNum (mem_upper_kb p)] c
        else Some c
      }
      else do {
        c \<leftarrow> kprintf (''Multiboot memory map (base / length / type):'' @ NL) [] c;
        print_mmap_loop m (mmap_addr_saved p) (mmap_addr_saved p + mmap_len_saved p) c
      })"

definition pmm_print_stats :: "pmm \<Rightarrow> console \<Rightarrow> console option" where
  "pmm_print_stats p c =
     (if total_frames p = 0 then kprintf (''PMM inactive (no usable memory map).'' @ NL) [] c
      else let free_f = pmm_free_frames p
           in do {
             c \<leftarrow> kprintf (''Physical memory (4 KiB frames):'' @ NL) [] c;
             c \<leftarrow> kprintf (''  usable RAM : ~%u KiB (%u frames)'' @ NL) [KNum (usable_bytes p div 1024), KNum (usable_frames p)] c;
             c \<leftarrow> kprintf (''  reserved   : %u frames (low 1 MiB + kernel + boot structs)'' @ NL) [KNum (reserved_frames p)] c;
             c \<leftarrow> kprintf (''  free       : %u frames (~%u KiB)'' @ NL) [KNum free_f, KNum (free_f * 4)] c;
             kprintf (''  used       : %u frames (reserved + allocated)'' @ NL) [KNum (usable_frames p - free_f)] c
           })"

definition kheap_total :: "kheap \<Rightarrow> u32" where "kheap_total h = heap_total h"
definition kheap_used :: "kheap \<Rightarrow> mem \<Rightarrow> u32 option" where "kheap_used h m = heap_used h m"
definition kheap_free :: "kheap \<Rightarrow> mem \<Rightarrow> u32 option" where "kheap_free h m = heap_free_bytes h m"
definition kheap_blocks :: "kheap \<Rightarrow> mem \<Rightarrow> u32 option" where "kheap_blocks h m = heap_blocks h m"
definition kheap_check :: "kheap \<Rightarrow> mem \<Rightarrow> bool option" where "kheap_check h m = heap_check h m"

section \<open>Tasks\<close>

definition sched_kcurrent :: "sched \<Rightarrow> int" where "sched_kcurrent s = sched_current s"
definition sched_krunnable :: "sched \<Rightarrow> nat" where "sched_krunnable s = sched_runnable s"

definition print_task :: "sched_task \<Rightarrow> console \<Rightarrow> console option" where
  "print_task t c =
     (if t_state t = TASK_UNUSED then Some c
      else kprintf (''  task %d  state %s  quantum %u/%u  ran %u'' @ NL)
             [ki (t_id t), ks (sched_state_name (t_state t)), KNum (t_quantum t), KNum (t_reload t), KNum (t_ran t)] c)"

definition sched_klist :: "sched \<Rightarrow> console \<Rightarrow> console option" where
  "sched_klist s c = do {
     c \<leftarrow> kprintf (''Scheduler (round-robin policy core; context switch staged):'' @ NL) [] c;
     c \<leftarrow> each print_task (tasks s) c;
     kprintf (''  runnable %d, current %d'' @ NL) [ki (int (sched_runnable s)), ki (sched_current s)] c
   }"

text \<open>The output of \<open>sched_kdemo\<close>: the identifiers picked in its ten rounds, \<open>[idle]\<close> where it stops early.\<close>

definition print_kdemo :: "sched \<Rightarrow> console \<Rightarrow> (sched \<times> console) option" where
  "print_kdemo s c = do {
     c \<leftarrow> kprintf ''Live round-robin pick order (real policy): '' [] c;
     (ids, s) \<leftarrow> sched_kdemo s;
     c \<leftarrow> each (\<lambda>i. kprintf ''%d '' [ki i]) ids c;
     c \<leftarrow> (if length ids < 10 then kprintf ''[idle]'' [] c else Some c);
     c \<leftarrow> kprintf (NL @ ''(this is the host-tested scheduler running in-kernel; no CPU'' @ NL) [] c;
     c \<leftarrow> kprintf (''context switch yet - that is staged until paging is boot-verified)'' @ NL) [] c;
     Some (s, c)
   }"

definition print_event :: "coop_event \<Rightarrow> console \<Rightarrow> console option" where
  "print_event e =
     (case e of
        EvTick me i \<Rightarrow> kprintf (''  [task %d] tick %d (own stack, via scheduler)'' @ NL) [ki me, ki (int i)]
      | EvDone me \<Rightarrow> kprintf (''  [task %d] done'' @ NL) [ki me])"

definition print_coop_demo :: "console \<Rightarrow> console option" where
  "print_coop_demo c = do {
     c \<leftarrow> kprintf (''  [coop] starting %d cooperative tasks...'' @ NL) [ki (int NCOOP)] c;
     r \<leftarrow> coop_run_demo;
     c \<leftarrow> each print_event (printed r) c;
     kprintf (''  [coop] all tasks finished, back in kernel main'' @ NL) [] c
   }"

section \<open>The printed text\<close>

lemma kformat_x8 [kformat_rules]:
  "kformat (CHR ''%'' # CHR ''0'' # CHR ''8'' # CHR ''x'' # f) (KNum v # args) = map_option (append (xtext 8 v)) (kformat f args)"
proof -
  obtain t where t: "print_uint v 16 False 8 = Some t" using print_uint_Some [of 16 8 v False] by auto
  have "parse_width (CHR ''0'' # CHR ''8'' # CHR ''x'' # f) = (8, CHR ''x'' # f)" by (simp add: parse_width_def is_digit_def)
  then show ?thesis using t
    by (simp add: kformat.simps [of "CHR ''%'' # CHR ''0'' # CHR ''8'' # CHR ''x'' # f"] convert_def xtext_def)
qed

definition entry_line :: "mmap_entry \<Rightarrow> char list" where
  "entry_line e = ''  0x'' @ xtext 8 (ucast (e_addr e)) @ ''  0x'' @ xtext 8 (ucast (e_len e)) @ ''  '' @ mmap_type_name (e_type e) @ NL"

lemma mmap_type_name_text: "cstr (mmap_type_name ty) = mmap_type_name ty"
  by (simp add: mmap_type_name_def)

lemma print_mmap_loop_outputs: "entries_at m p q es \<Longrightarrow> outputs (print_mmap_loop m p q) (concat (map entry_line es))"
proof (induction es arbitrary: p)
  case Nil
  then have "print_mmap_loop m p q = Some" by (intro ext) (subst print_mmap_loop.simps, simp)
  then show ?case by (simp add: outputs_Some)
next
  case (Cons e es)
  then have e: "p < q" "read_entry m p = e" "entries_at m (p + (e_size e + 4)) q es" by auto
  have "outputs (print_entry e) (entry_line e)"
    unfolding print_entry_def by (rule outputs_kprintf) (simp add: kformat_rules NL_def entry_line_def mmap_type_name_text)
  moreover have "print_mmap_loop m p q = (\<lambda>c. Option.bind (print_entry e c) (print_mmap_loop m (p + (e_size e + 4)) q))"
    by (intro ext) (subst print_mmap_loop.simps, simp add: e)
  ultimately show ?case using Cons.IH [OF e(3)] by (simp add: outputs_bind)
qed

end
