(* ===== verification/Shell.thy ===== *)
theory Shell
  imports Desktop Shell_Text Reports Vmm Ai Features
begin

text \<open>
  The shell's commands (\<open>kernel/shell/shell.c\<close>) over the state of the whole kernel: every command
  of \<open>execute\<close> with the component it drives, the dispatch and the line editor in front of it. The
  lemmas show which commands return, that what a command prints can be typed back, and how
  commands on frames, memory and files compose with those components' properties.
\<close>

section \<open>The kernel\<close>

record kernel = gui +
  k_mem :: mem
  k_pmm :: pmm
  k_heap :: kheap
  k_vmm :: vmm
  k_sched :: sched
  k_ai :: ai_world
  k_feat :: feature_registry
  k_hist :: history
  k_table :: "syscall_fn option list"
  k_last_cs :: u32
  k_exit :: u32
  k_if :: bool

text \<open>Addresses the linker chooses, and the compiler's build strings.\<close>

record linkage =
  lk_vmm :: vmm_layout
  lk_sysmsg :: u32
  lk_hello :: u32
  lk_hello_len :: u32
  lk_build_date :: "char list"
  lk_build_time :: "char list"

text \<open>A command comes back, resets the machine, or stops it.\<close>

datatype outcome = Returned kernel | Faulted kernel | Resetting kernel | Halted kernel

definition pr :: "devices \<Rightarrow> char list \<Rightarrow> karg list \<Rightarrow> 'a gui_scheme \<Rightarrow> 'a gui_scheme option" where
  "pr dev f args = say dev (kprintf f args)"

text \<open>Output of a component that also has state of its own.\<close>

definition say_val :: "devices \<Rightarrow> (console \<Rightarrow> ('v \<times> console) option) \<Rightarrow> 'a gui_scheme \<Rightarrow> ('v \<times> 'a gui_scheme) option" where
  "say_val dev out k = do {
     (v, c) \<leftarrow> out ((k_con k)\<lparr>sunk := []\<rparr>);
     d \<leftarrow> show_text dev (sunk c) (k_disp k);
     Some (v, k\<lparr>k_con := c\<lparr>sunk := sunk (k_con k) @ sunk c\<rparr>, k_disp := d\<rparr>)
   }"

definition sysk_of :: "kernel \<Rightarrow> sysk" where
  "sysk_of k = \<lparr>table = k_table k, last_cs = k_last_cs k, um_exit_code = k_exit k, int_flag = k_if k, sys_pit = k_pit k,
     sys_con = (k_con k)\<lparr>sunk := []\<rparr>, sys_mem = k_mem k\<rparr>"

definition with_sys :: "devices \<Rightarrow> (sysk \<Rightarrow> ('v \<times> sysk) option) \<Rightarrow> kernel \<Rightarrow> ('v \<times> kernel) option" where
  "with_sys dev f k = do {
     (v, s) \<leftarrow> f (sysk_of k);
     d \<leftarrow> show_text dev (sunk (sys_con s)) (k_disp k);
     Some (v, k\<lparr>k_con := (sys_con s)\<lparr>sunk := sunk (k_con k) @ sunk (sys_con s)\<rparr>, k_disp := d, k_pit := sys_pit s,
       k_mem := sys_mem s, k_table := table s, k_last_cs := last_cs s, k_exit := um_exit_code s, k_if := int_flag s\<rparr>)
   }"

definition the_vmm :: "kernel \<Rightarrow> vmm" where
  "the_vmm k = (k_vmm k)\<lparr>vm_mem := k_mem k\<rparr>"

definition vmm_is_ready :: "vmm \<Rightarrow> bool" where "vmm_is_ready v = ready v"
definition vmm_dir_phys :: "vmm_layout \<Rightarrow> u32" where "vmm_dir_phys L = page_dir L"
definition vmm_is_enabled :: "vmm \<Rightarrow> bool" where "vmm_is_enabled v = enabled v"

section \<open>Commands that only print\<close>

definition print_lines :: "char list list \<Rightarrow> console \<Rightarrow> console option" where
  "print_lines ls = each (\<lambda>l. kprintf (l @ NL) []) ls"

definition dquoted :: "char list \<Rightarrow> char list" where
  "dquoted s = [CHR 0x22] @ s @ [CHR 0x22]"

definition squoted :: "char list \<Rightarrow> char list" where
  "squoted s = [CHR 0x27] @ s @ [CHR 0x27]"

definition print_banner :: "console \<Rightarrow> console option" where
  "print_banner c = do {
     c \<leftarrow> kprintf NL [] c;
     c \<leftarrow> print_lines
       [''  ######  ##  ##  ##  ##   ####    #####'',
        ''    ##    ##  ##  ##  ##  ##  ##  ##'',
        ''    ##    ######  ##  ##  ##  ##   ####'',
        ''    ##    ##  ##  ##  ##  ##  ##      ##'',
        ''    ##    ##  ##   ####    ####   #####''] c;
     kprintf (NL @ ''  %s %s '' @ dquoted ''%s'' @ '' - %s'' @ NL @ NL) [ks THUOS_NAME, ks THUOS_VERSION, ks THUOS_CODENAME, ks THUOS_ARCH] c
   }"

definition cmd_help :: "console \<Rightarrow> console option" where
  "cmd_help = print_lines
     [''THUOS shell commands:'',
      ''  help       Show this help'',
      ''  about      About THUOS'',
      ''  version    Kernel name and version'',
      ''  status     Implemented / in-progress / planned'',
      ''  sysinfo    System summary'',
      ''  uptime     Uptime in ticks and seconds'',
      ''  ticks      Raw PIT tick counter'',
      ''  mem        Memory summary (physical memory manager)'',
      ''  memmap     Multiboot memory map'',
      ''  pages      Page-frame statistics'',
      ''  allocpage  Allocate one 4 KiB physical frame'',
      ''  freepage A Free a frame by physical address (hex)'',
      ''  heap       Kernel heap stats (kmalloc arena)'',
      ''  kmalloc N  Allocate N bytes from the kernel heap'',
      ''  kfree A    Free a kmalloc pointer (hex address)'',
      ''  vmm [A]    Paging info; translate virtual addr A (hex)'',
      ''  ps         List scheduler tasks and states'',
      ''  sched      Run the round-robin scheduler (live demo)'',
      ''  tasks      Run cooperative multitasking (3 tasks, live)'',
      ''  ls         List files in the RAM filesystem'',
      ''  cat F      Print file F'',
      ''  write F T  Write text T to file F'',
      ''  sys        Invoke syscalls via int 0x80 (demo)'',
      ''  user       Drop to ring 3 and round-trip a syscall (CPL 3 demo)'',
      ''  ai         AI-native layer: ai status|models|tasks|policy|bridge'',
      ''  features   OS capability map with honest status labels'',
      ''  dmesg/logs Replay the kernel log (boot messages + recent output)'',
      ''  history    Show recent shell commands'',
      ''  apps       files | notes | calc | paint | settings  (or click the dock)'',
      ''  gui        Repaint the THU Desktop'',
      ''  echo       Print the rest of the line'',
      ''  banner     Show the THUOS banner'',
      ''  color N    Set text color (0-15)'',
      ''  thupkg     Package manager (design preview)'',
      ''  clear      Clear the screen'',
      ''  crash X    Test fault handler (div0) - testing only'',
      ''  reboot     Reboot the machine'',
      ''  halt       Halt the CPU'']"

definition cmd_about :: "console \<Rightarrow> console option" where
  "cmd_about c = do {
     c \<leftarrow> kprintf (''%s - a from-scratch personal operating system.'' @ NL) [ks THUOS_NAME] c;
     c \<leftarrow> kprintf (''Kernel : %s'' @ NL) [ks THUOS_KERNEL_NAME] c;
     c \<leftarrow> kprintf (''Goal   : local-first, privacy-first, honest engineering.'' @ NL) [] c;
     kprintf (''Built incrementally from a bootable kernel toward %s.'' @ NL) [ks THUOS_DESKTOP_NAME] c
   }"

definition cmd_version :: "linkage \<Rightarrow> console \<Rightarrow> console option" where
  "cmd_version L c = do {
     c \<leftarrow> kprintf (''%s %s '' @ dquoted ''%s'' @ NL) [ks THUOS_KERNEL_NAME, ks THUOS_VERSION, ks THUOS_CODENAME] c;
     c \<leftarrow> kprintf (''%s'' @ NL) [ks THUOS_MILESTONE] c;
     kprintf (''Built %s %s'' @ NL) [ks (lk_build_date L), ks (lk_build_time L)] c
   }"

definition cmd_status :: "console \<Rightarrow> console option" where
  "cmd_status = print_lines
     [''THUOS subsystem status (honest):'',
      ''  [done]    Multiboot boot, VGA console, serial COM1'',
      ''  [done]    GDT, IDT, CPU exceptions 0-31'',
      ''  [done]    PIC remap, PIT timer, keyboard IRQ, shell'',
      ''  [done]    Panic/assert system'',
      ''  [done]    Physical memory manager (Milestone 0.3)'',
      ''  [done]    Kernel heap kmalloc/kfree (Milestone 0.4)'',
      ''  [done]    Paging ENABLED (0.7, CR0.PG, boot-verified QEMU)'',
      ''  [done]    Cooperative multitasking (0.9, boot-verified)'',
      ''  [done]    RAM filesystem ls/cat/write (0.10)'',
      ''  [done]    Syscall interface int 0x80 (0.11)'',
      ''  [done]    User mode (ring 3): TSS + iret + syscall from CPL 3 (0.12)'',
      ''  [done]    THU Desktop: VGA graphics + graphical terminal (0.13)'',
      ''  [done]    Aurora: high-res 1024x768x32 truecolor desktop (0.14)'',
      ''  [done]    Apps: mouse + clickable dock, Calculator/Files/System (0.15)'',
      ''  [done]    Polish: pictogram dock icons, clock, refined desktop (0.16)'',
      ''  [done]    Suite: Settings (themes) + Notes + Paint apps (0.17)'',
      ''  [plan]    Movable windows, per-process isolation, ELF userspace apps'']"

definition cmd_thupkg :: "char list \<Rightarrow> console \<Rightarrow> console option" where
  "cmd_thupkg args =
     (if cstr args = ''list'' then print_lines
        [''thupkg - installed/known packages (design preview):'',
         ''  thu-coreutils   0.3.0   [designed]'',
         ''  thu-terminal    0.3.0   [designed]'',
         ''  thu-files       0.1.0   [planned]'',
         ''  thu-settings    0.1.0   [planned]'',
         ''Note: thupkg is a design preview; no real install backend yet.'']
      else print_lines
        [''thupkg <command>'',
         ''  list            List known packages'',
         ''  info <name>     (planned)'',
         ''  install <name>  (planned, sandboxed + signed)'',
         ''This is a design preview, not a working package manager.''])"

section \<open>Reports\<close>

definition cmd_sysinfo :: "linkage \<Rightarrow> pit \<Rightarrow> pmm \<Rightarrow> console \<Rightarrow> console option" where
  "cmd_sysinfo L pt pm c = do {
     c \<leftarrow> kprintf (''%s %s '' @ dquoted ''%s'' @ NL) [ks THUOS_NAME, ks THUOS_VERSION, ks THUOS_CODENAME] c;
     c \<leftarrow> kprintf (''Arch    : %s'' @ NL) [ks THUOS_ARCH] c;
     c \<leftarrow> kprintf (''Kernel  : %s'' @ NL) [ks THUOS_KERNEL_NAME] c;
     c \<leftarrow> kprintf (''Timer   : PIT @ %u Hz'' @ NL) [KNum (freq_hz pt)] c;
     c \<leftarrow> kprintf (''Uptime  : %u s (%u ticks)'' @ NL) [KNum (pit_seconds pt), KNum (ticks pt)] c;
     c \<leftarrow> (if pmm_available pm
          then kprintf (''Memory  : ~%u KiB usable, %u free frames (4 KiB)'' @ NL) [KNum (usable_bytes pm div 1024), KNum (pmm_free_frames pm)] c
          else Some c);
     kprintf (''Build   : %s %s'' @ NL) [ks (lk_build_date L), ks (lk_build_time L)] c
   }"

definition cmd_uptime :: "pit \<Rightarrow> console \<Rightarrow> console option" where
  "cmd_uptime pt =
     kprintf (''Uptime: %u ticks, approx %u seconds (PIT @ %u Hz)'' @ NL) [KNum (ticks pt), KNum (pit_seconds pt), KNum (freq_hz pt)]"

definition cmd_mem :: "pmm \<Rightarrow> console \<Rightarrow> console option" where
  "cmd_mem pm c =
     (if \<not> pmm_available pm then kprintf (''No Multiboot memory information was provided by the bootloader.'' @ NL) [] c
      else do {
        c \<leftarrow> kprintf (''Memory hint: %u KiB low, %u KiB high (Multiboot)'' @ NL) [KNum (mem_lower_kb pm), KNum (mem_upper_kb pm)] c;
        pmm_print_stats pm c
      })"

definition cmd_heap :: "kheap \<Rightarrow> mem \<Rightarrow> console \<Rightarrow> console option" where
  "cmd_heap h m c = do {
     c \<leftarrow> kprintf (''Kernel heap (fixed arena, pre-paging):'' @ NL) [] c;
     c \<leftarrow> kprintf (''  total : %u bytes'' @ NL) [KNum (kheap_total h)] c;
     used \<leftarrow> kheap_used h m;
     c \<leftarrow> kprintf (''  used  : %u bytes'' @ NL) [KNum used] c;
     free \<leftarrow> kheap_free h m;
     c \<leftarrow> kprintf (''  free  : %u bytes'' @ NL) [KNum free] c;
     blocks \<leftarrow> kheap_blocks h m;
     c \<leftarrow> kprintf (''  blocks: %u'' @ NL) [KNum blocks] c;
     ok \<leftarrow> kheap_check h m;
     kprintf (''  integrity: %s'' @ NL) [ks (if ok then ''OK'' else ''CORRUPT'')] c
   }"

definition cmd_vmm :: "vmm_layout \<Rightarrow> vmm \<Rightarrow> char list \<Rightarrow> console \<Rightarrow> console option" where
  "cmd_vmm L v args c =
     (if \<not> vmm_is_ready v then kprintf (''vmm: page tables were not built'' @ NL) [] c
      else case parse_hex args of
        Some va \<Rightarrow>
          let p = vmm_phys_of L va v
          in if p = 0xFFFFFFFF then kprintf (''vmm: va 0x%08x is NOT mapped'' @ NL) [KNum va] c
             else kprintf (''vmm: va 0x%08x -> pa 0x%08x'' @ NL) [KNum va, KNum p] c
      | None \<Rightarrow> do {
          c \<leftarrow> kprintf (''Virtual memory (paging): %s'' @ NL) [ks (if vmm_is_enabled v then ''ENABLED (CR0.PG)'' else ''tables built, not enabled'')] c;
          c \<leftarrow> kprintf (''  page directory : phys 0x%08x'' @ NL) [KNum (vmm_dir_phys L)] c;
          c \<leftarrow> kprintf (''  identity map   : low %u KiB built'' @ NL) [KNum (vmm_mapped_bytes v div 1024)] c;
          c \<leftarrow> kprintf (''  va 0x00000000  -> pa 0x%08x'' @ NL) [KNum (vmm_phys_of L 0 v)] c;
          c \<leftarrow> kprintf (''  va 0x00100000  -> pa 0x%08x'' @ NL) [KNum (vmm_phys_of L 0x00100000 v)] c;
          c \<leftarrow> kprintf (''  va 0x00400000  -> pa 0x%08x'' @ NL) [KNum (vmm_phys_of L 0x00400000 v)] c;
          c \<leftarrow> kprintf (''  running under paging: %s (boot-verified in QEMU/CI)'' @ NL) [ks (if vmm_is_enabled v then ''YES'' else ''no'')] c;
          kprintf (''  usage: vmm <hex-va>  to translate an address'' @ NL) [] c
        })"

definition print_file :: "ramfs \<Rightarrow> nat \<Rightarrow> nat \<times> console \<Rightarrow> (nat \<times> console) option" where
  "print_file fs i = (\<lambda>(shown, c).
     case kfs_name (int i) fs of
       None \<Rightarrow> Some (shown, c)
     | Some nm \<Rightarrow> map_option (Pair (shown + 1)) (kprintf (''  %s  (%u bytes)'' @ NL) [ks nm, KNum (kfs_size (int i) fs)] c))"

definition cmd_ls :: "ramfs \<Rightarrow> console \<Rightarrow> console option" where
  "cmd_ls fs c = do {
     c \<leftarrow> kprintf (''Files in ramfs (%u bytes used):'' @ NL) [KNum (kfs_bytes_used fs)] c;
     (shown, c) \<leftarrow> each (print_file fs) [0..<kfs_max_files] (0, c);
     if shown = 0 then kprintf (''  (no files)'' @ NL) [] c else Some c
   }"

definition file_chars :: "ramfs \<Rightarrow> u32 \<times> u32 \<Rightarrow> char list" where
  "file_chars fs = (\<lambda>(off, n). map (\<lambda>i. char_of (unat (arena fs (off + of_nat i)))) [0..<unat n])"

definition cmd_cat :: "ramfs \<Rightarrow> char list \<Rightarrow> console \<Rightarrow> console option" where
  "cmd_cat fs args c =
     (if cget args 0 = NUL then kprintf (''usage: cat <file>'' @ NL) [] c
      else case kfs_read args fs of
        None \<Rightarrow> kprintf (''cat: %s: not found'' @ NL) [ks args] c
      | Some d \<Rightarrow>
          let s = file_chars fs d; c = fold kputc s c
          in Some (if s = [] \<or> last s \<noteq> CHR 0x0A then kputc (CHR 0x0A) c else c))"

section \<open>Commands that change the kernel\<close>

definition cmd_allocpage :: "devices \<Rightarrow> kernel \<Rightarrow> kernel option" where
  "cmd_allocpage dev k =
     (let (addr, p) = pmm_alloc_frame (k_pmm k); k = k\<lparr>k_pmm := p\<rparr>
      in if addr = 0 then pr dev (''allocpage: out of physical memory (no free frame)'' @ NL) [] k
         else do {
           k \<leftarrow> pr dev (''Allocated frame at physical 0x%08x (free now: %u frames)'' @ NL) [KNum addr, KNum (pmm_free_frames (k_pmm k))] k;
           pr dev (''Free it with: freepage 0x%08x'' @ NL) [KNum addr] k
         })"

definition cmd_freepage :: "devices \<Rightarrow> char list \<Rightarrow> kernel \<Rightarrow> kernel option" where
  "cmd_freepage dev args k =
     (case parse_hex args of
        None \<Rightarrow> pr dev (''usage: freepage <physical-address-in-hex>'' @ NL) [] k
      | Some addr \<Rightarrow>
          let (r, p) = pmm_free_frame addr (k_pmm k); k = k\<lparr>k_pmm := p\<rparr>
          in if r = 0 then pr dev (''Freed frame at 0x%08x (free now: %u frames)'' @ NL) [KNum (addr AND NOT (PAGE_SIZE - 1)), KNum (pmm_free_frames (k_pmm k))] k
             else if r = - 1 then pr dev (''freepage: 0x%08x is unaligned or out of range'' @ NL) [KNum addr] k
             else if r = - 2 then pr dev (''freepage: 0x%08x is a protected region (refused)'' @ NL) [KNum addr] k
             else if r = - 3 then pr dev (''freepage: 0x%08x was already free'' @ NL) [KNum addr] k
             else pr dev (''freepage: error %d'' @ NL) [ki r] k)"

definition cmd_kmalloc :: "devices \<Rightarrow> char list \<Rightarrow> kernel \<Rightarrow> kernel option" where
  "cmd_kmalloc dev args k =
     (case parse_uint args of
        None \<Rightarrow> pr dev (''usage: kmalloc <bytes>'' @ NL) [] k
      | Some n \<Rightarrow>
          if n = 0 then pr dev (''usage: kmalloc <bytes>'' @ NL) [] k
          else do {
            (p, m) \<leftarrow> kmalloc (k_heap k) n (k_mem k);
            let k = k\<lparr>k_mem := m\<rparr>;
            free \<leftarrow> kheap_free (k_heap k) (k_mem k);
            if p = 0 then pr dev (''kmalloc(%u): out of heap memory (free: %u bytes)'' @ NL) [KNum n, KNum free] k
            else do {
              k \<leftarrow> pr dev (''kmalloc(%u) = 0x%08x  (heap free now: %u bytes)'' @ NL) [KNum n, KNum p, KNum free] k;
              pr dev (''Free it with: kfree 0x%08x'' @ NL) [KNum p] k
            }
          })"

definition cmd_kfree :: "devices \<Rightarrow> char list \<Rightarrow> kernel \<Rightarrow> kernel option" where
  "cmd_kfree dev args k =
     (case parse_hex args of
        None \<Rightarrow> pr dev (''usage: kfree <hex-address from kmalloc>'' @ NL) [] k
      | Some addr \<Rightarrow> do {
          m \<leftarrow> kfree (k_heap k) addr (k_mem k);
          let k = k\<lparr>k_mem := m\<rparr>;
          free \<leftarrow> kheap_free (k_heap k) (k_mem k);
          ok \<leftarrow> kheap_check (k_heap k) (k_mem k);
          pr dev (''kfree(0x%08x): heap free now %u bytes, integrity %s'' @ NL) [KNum addr, KNum free, ks (if ok then ''OK'' else ''CORRUPT'')] k
        })"

text \<open>\<open>char name[32]\<close> takes 31 characters of the first word; the text starts after one space.\<close>

definition write_args :: "char list \<Rightarrow> (char list \<times> char list) option" where
  "write_args args =
     (let s = cstr args; w = takeWhile (\<lambda>c. c \<noteq> CHR '' '') s
      in if length w = length s then None else Some (take 31 w, drop (Suc (length w)) s))"

definition cmd_write :: "devices \<Rightarrow> char list \<Rightarrow> kernel \<Rightarrow> kernel option" where
  "cmd_write dev args k =
     (case write_args args of
        None \<Rightarrow> pr dev (''usage: write <file> <text>'' @ NL) [] k
      | Some (name, body) \<Rightarrow>
          let (w, fs) = kfs_write name (text_bytes body) (of_nat (cstrlen body)) (k_fs k); k = k\<lparr>k_fs := fs\<rparr>
          in if w < 0 then pr dev (''write: failed (file table or arena full)'' @ NL) [] k
             else pr dev (''wrote %d bytes to '' @ squoted ''%s'' @ NL) [ki w, ks name] k)"

definition sys_message :: "char list" where
  "sys_message = ''  [sys_write] hello via int 0x80'' @ NL"

definition cmd_sys :: "devices \<Rightarrow> linkage \<Rightarrow> kernel \<Rightarrow> kernel option" where
  "cmd_sys dev L k = do {
     k \<leftarrow> pr dev (''Invoking syscalls live via int 0x80:'' @ NL) [] k;
     (_, k) \<leftarrow> with_sys dev (syscall_invoke SYS_WRITE 1 (lk_sysmsg L) (of_nat (length sys_message))) k;
     (v, k) \<leftarrow> with_sys dev (syscall_invoke SYS_UPTIME 0 0 0) k;
     k \<leftarrow> pr dev (''  SYS_UPTIME  = %d ticks'' @ NL) [KNum v] k;
     (v, k) \<leftarrow> with_sys dev (syscall_invoke SYS_GETPID 0 0 0) k;
     k \<leftarrow> pr dev (''  SYS_GETPID  = %d'' @ NL) [KNum v] k;
     (v, k) \<leftarrow> with_sys dev (syscall_invoke SYS_VERSION 0 0 0) k;
     k \<leftarrow> pr dev (''  SYS_VERSION = 0x%04x'' @ NL) [KNum v] k;
     pr dev (''  registered syscalls: %d'' @ NL) [ki (int (syscall_count (sysk_of k)))] k
   }"

definition cmd_user :: "devices \<Rightarrow> linkage \<Rightarrow> kernel \<Rightarrow> kernel option" where
  "cmd_user dev L k = do {
     k \<leftarrow> pr dev (''Entering ring 3 (user mode), then returning via the syscall gate...'' @ NL) [] k;
     (code, k) \<leftarrow> with_sys dev (usermode_run (lk_hello L) (lk_hello_len L)) k;
     let cs = k_last_cs k;
     k \<leftarrow> pr dev (''Back in ring 0: exit=%d, last int 0x80 from CS=0x%02x => CPL %u'' @ NL) [KNum code, KNum cs, KNum (cs AND 3)] k;
     k \<leftarrow> (if cs AND 3 = 3 then pr dev (''  ring 3 confirmed: the CPU recorded CPL 3 for that syscall.'' @ NL) [] k else Some k);
     pr dev (''  (ring 3 can reach the kernel only through int 0x80.)'' @ NL) [] k
   }"

definition cmd_gui :: "devices \<Rightarrow> kernel \<Rightarrow> kernel option" where
  "cmd_gui dev k =
     (if \<not> fb_active (fb k) then pr dev (''gui: high-res framebuffer not available'' @ NL) [] k
      else do { k \<leftarrow> desktop_draw k; desktop_open_app dev APP_TERMINAL k })"

text \<open>The digits of \<open>cmd_color\<close>, in an \<open>int\<close>.\<close>

fun color_loop :: "char list \<Rightarrow> u32 \<Rightarrow> bool \<Rightarrow> u32 \<times> bool" where
  "color_loop [] v seen = (v, seen)"
| "color_loop (c # s) v seen = (if is_digit c then color_loop s (v * 10 + (of_char c - 48)) True else (v, seen))"

definition cmd_color :: "devices \<Rightarrow> char list \<Rightarrow> kernel \<Rightarrow> kernel option" where
  "cmd_color dev args k =
     (let (v, seen) = color_loop (cstr args) 0 False
      in if \<not> seen \<or> sint v < 0 \<or> sint v > 15 then pr dev (''usage: color <0-15>'' @ NL) [] k
         else pr dev (''Text color set to %d.'' @ NL) [KNum v] (k\<lparr>k_disp := (k_disp k)\<lparr>d_vga := vga_set_color (ucast v) VGA_BLACK (d_vga (k_disp k))\<rparr>\<rparr>))"

definition cmd_clear :: "'a gui_scheme \<Rightarrow> 'a gui_scheme" where
  "cmd_clear k =
     (if gcon_active (d_gcon (k_disp k)) then with_gcon gcon_clear k
      else k\<lparr>k_disp := (k_disp k)\<lparr>d_vga := vga_clear (d_vga (k_disp k))\<rparr>\<rparr>)"

section \<open>Stopping the machine\<close>

text \<open>The division in \<open>cmd_crash\<close> raises a divide error, which the machine does not come back from.\<close>

definition cmd_crash :: "devices \<Rightarrow> char list \<Rightarrow> kernel \<Rightarrow> outcome option" where
  "cmd_crash dev args k =
     (if cstr args = ''div0''
      then map_option Faulted (pr dev (''Triggering divide-by-zero to test the fault handler...'' @ NL) [] k)
      else map_option Returned (pr dev (''usage: crash div0   (testing only - will fault the CPU)'' @ NL) [] k))"

text \<open>\<open>while (status & 0x02) status = inb(0x64)\<close>\<close>

partial_function (option) kbc_wait :: "devices \<Rightarrow> u8 \<Rightarrow> io \<Rightarrow> io option" where
  "kbc_wait dev status tr = (if status AND 2 \<noteq> 0 then (let (v, tr) = inb dev 0x64 tr in kbc_wait dev v tr) else Some tr)"

declare kbc_wait.simps [code]

definition reboot_machine :: "devices \<Rightarrow> kernel \<Rightarrow> outcome option" where
  "reboot_machine dev k = do {
     k \<leftarrow> pr dev (''Rebooting THUOS...'' @ NL) [] k;
     tr \<leftarrow> kbc_wait dev 0x02 (d_uart (k_disp k));
     Some (Resetting (k\<lparr>k_disp := (k_disp k)\<lparr>d_uart := outb 0x64 0xFE tr\<rparr>\<rparr>))
   }"

definition halt_machine :: "devices \<Rightarrow> kernel \<Rightarrow> outcome option" where
  "halt_machine dev k = do {
     k \<leftarrow> pr dev (''System halted. It is now safe to close the emulator.'' @ NL) [] k;
     Some (Halted (k\<lparr>k_if := False\<rparr>))
   }"

section \<open>Dispatch\<close>

definition run_command :: "devices \<Rightarrow> linkage \<Rightarrow> char list \<Rightarrow> char list \<Rightarrow> kernel \<Rightarrow> outcome option" where
  "run_command dev L cmd args k =
     (let ret = map_option Returned; out = (\<lambda>f. map_option Returned (say dev f k))
      in if cmd = [] then Some (Returned k)
         else if cmd = ''help'' then out cmd_help
         else if cmd = ''ai'' then map_option (\<lambda>(w, k). Returned (k\<lparr>k_ai := w\<rparr>)) (say_val dev (ai_command args (k_ai k)) k)
         else if cmd = ''features'' then map_option (\<lambda>(r, k). Returned (k\<lparr>k_feat := r\<rparr>)) (say_val dev (osreport_print (k_feat k)) k)
         else if cmd = ''history'' then out (cmd_history (k_hist k))
         else if cmd = ''dmesg'' then out (\<lambda>c. Some (klog_dump c))
         else if cmd = ''logs'' then out (\<lambda>c. Some (klog_dump c))
         else if cmd = ''about'' then out cmd_about
         else if cmd = ''version'' then out (cmd_version L)
         else if cmd = ''status'' then out cmd_status
         else if cmd = ''sysinfo'' then out (cmd_sysinfo L (k_pit k) (k_pmm k))
         else if cmd = ''uptime'' then out (cmd_uptime (k_pit k))
         else if cmd = ''ticks'' then out (kprintf (''%u'' @ NL) [KNum (ticks (k_pit k))])
         else if cmd = ''mem'' then out (cmd_mem (k_pmm k))
         else if cmd = ''memmap'' then out (pmm_print_mmap (k_mem k) (k_pmm k))
         else if cmd = ''pages'' then out (pmm_print_stats (k_pmm k))
         else if cmd = ''allocpage'' then ret (cmd_allocpage dev k)
         else if cmd = ''freepage'' then ret (cmd_freepage dev args k)
         else if cmd = ''heap'' then out (cmd_heap (k_heap k) (k_mem k))
         else if cmd = ''kmalloc'' then ret (cmd_kmalloc dev args k)
         else if cmd = ''kfree'' then ret (cmd_kfree dev args k)
         else if cmd = ''vmm'' then out (cmd_vmm (lk_vmm L) (the_vmm k) args)
         else if cmd = ''ps'' then out (sched_klist (k_sched k))
         else if cmd = ''sched'' then map_option (\<lambda>(s, k). Returned (k\<lparr>k_sched := s\<rparr>)) (say_val dev (print_kdemo (k_sched k)) k)
         else if cmd = ''tasks'' then out print_coop_demo
         else if cmd = ''ls'' then out (cmd_ls (k_fs k))
         else if cmd = ''cat'' then out (cmd_cat (k_fs k) args)
         else if cmd = ''write'' then ret (cmd_write dev args k)
         else if cmd = ''sys'' then ret (cmd_sys dev L k)
         else if cmd = ''user'' then ret (cmd_user dev L k)
         else if cmd = ''gui'' then ret (cmd_gui dev k)
         else if cmd = ''calc'' then ret (desktop_open_app dev APP_CALC k)
         else if cmd = ''files'' then ret (desktop_open_app dev APP_FILES k)
         else if cmd = ''notes'' then ret (desktop_open_app dev APP_NOTES k)
         else if cmd = ''paint'' then ret (desktop_open_app dev APP_PAINT k)
         else if cmd = ''settings'' then ret (desktop_open_app dev APP_SETTINGS k)
         else if cmd = ''apps'' then out (kprintf (''Apps: files notes calc paint settings (or click the dock).'' @ NL) [])
         else if cmd = ''echo'' then out (kprintf (''%s'' @ NL) [ks args])
         else if cmd = ''banner'' then out print_banner
         else if cmd = ''color'' then ret (cmd_color dev args k)
         else if cmd = ''thupkg'' then out (cmd_thupkg args)
         else if cmd = ''clear'' then Some (Returned (cmd_clear k))
         else if cmd = ''crash'' then cmd_crash dev args k
         else if cmd = ''reboot'' then reboot_machine dev k
         else if cmd = ''halt'' then halt_machine dev k
         else out (kprintf (''Unknown command: %s (try '' @ squoted ''help'' @ '')'' @ NL) [ks cmd]))"

definition execute :: "devices \<Rightarrow> linkage \<Rightarrow> char list \<Rightarrow> kernel \<Rightarrow> outcome option" where
  "execute dev L line k =
     (let k = k\<lparr>k_hist := hist_record line (k_hist k)\<rparr>; (cmd, args) = split_line line
      in run_command dev L cmd args k)"

text \<open>What follows a call that came back.\<close>

fun after :: "(kernel \<Rightarrow> outcome option) \<Rightarrow> outcome option \<Rightarrow> outcome option" where
  "after f None = None"
| "after f (Some (Returned k)) = f k"
| "after f (Some r) = Some r"

definition putc :: "devices \<Rightarrow> char \<Rightarrow> 'a gui_scheme \<Rightarrow> 'a gui_scheme option" where
  "putc dev c = say dev (\<lambda>con. Some (kputc c con))"

definition shell_feed_char :: "devices \<Rightarrow> linkage \<Rightarrow> char \<Rightarrow> kernel \<Rightarrow> outcome option" where
  "shell_feed_char dev L c k =
     (if c = CHR 0x0A then do {
        k \<leftarrow> putc dev (CHR 0x0A) k;
        let k = k\<lparr>s_line := (s_line k)[s_len k := NUL]\<rparr>;
        after (\<lambda>k. map_option Returned (shell_prompt dev (k\<lparr>s_len := 0\<rparr>))) (execute dev L (s_line k) k)
      }
      else let (echo, line, len) = line_edit c (s_line k, s_len k); k = k\<lparr>s_line := line, s_len := len\<rparr>
           in map_option Returned (case echo of None \<Rightarrow> Some k | Some e \<Rightarrow> putc dev e k))"

section \<open>Output of commands\<close>

text \<open>\<open>said k k' t\<close>: the text \<open>t\<close> was printed and nothing but console and display changed.\<close>

definition said :: "'a gui_scheme \<Rightarrow> char list \<Rightarrow> 'a gui_scheme \<Rightarrow> bool" where
  "said k t k' \<longleftrightarrow> shown k k' \<and> sunk (k_con k') = sunk (k_con k) @ t \<and> (\<forall>s. gui_paints s k \<longrightarrow> gui_paints s k')"

lemma say_outputs:
  assumes "uart_drains dev" "outputs out t"
  shows "returns (say dev out k) (said k t)"
proof -
  obtain c where c: "out ((k_con k)\<lparr>sunk := []\<rparr>) = Some c" "sunk c = t" using assms(2) by (force simp: outputs_def)
  have "prints out" using assms(2) by (force simp: prints_def outputs_def returns_def)
  from say_returns [OF assms(1) this, of k] obtain k' where k': "say dev out k = Some k'" "shown k k'"
      "\<forall>s. gui_paints s k \<longrightarrow> gui_paints s k'" by (auto simp: returns_def)
  then have "sunk (k_con k') = sunk (k_con k) @ t" using c by (auto simp: say_def split: Option.bind_splits)
  then show ?thesis using k' by (simp add: returns_def said_def)
qed

lemma pr_said:
  assumes "uart_drains dev" "kformat f args = Some t"
  shows "returns (pr dev f args k) (said k t)"
  unfolding pr_def using assms by (intro say_outputs outputs_kprintf)

lemma pr_obtain:
  assumes "uart_drains dev" "kformat f args = Some t"
  obtains k' where "pr dev f args k = Some k'" "said k t k'"
  using pr_said [OF assms, of k] by (auto simp: returns_def)

lemma said_trans: "said k t k' \<Longrightarrow> said k' u k'' \<Longrightarrow> said k (t @ u) k''"
  by (auto simp: said_def intro: shown_trans)

lemma shown_kernel:
  assumes "shown k k'"
  shows "k_pmm k' = k_pmm k" "k_heap k' = k_heap k" "k_mem k' = k_mem k" "k_vmm k' = k_vmm k" "k_sched k' = k_sched k" "k_ai k' = k_ai k"
    "k_feat k' = k_feat k" "k_hist k' = k_hist k" "k_table k' = k_table k" "k_if k' = k_if k" "k_last_cs k' = k_last_cs k" "k_exit k' = k_exit k"
  by (subst assms [unfolded shown_def], simp)+

lemma said_shown: "said k t k' \<Longrightarrow> shown k k'"
  by (simp add: said_def)

lemmas said_kernel = shown_kernel [OF said_shown]

section \<open>What a command prints can be typed back\<close>

definition freepage_line :: "u32 \<Rightarrow> char list" where
  "freepage_line p = ''freepage 0x'' @ xtext 8 p"

definition kfree_line :: "u32 \<Rightarrow> char list" where
  "kfree_line p = ''kfree 0x'' @ xtext 8 p"

lemma split_hint:
  "split_line (freepage_line p) = (''freepage'', ''0x'' @ xtext 8 p)"
  "split_line (kfree_line p) = (''kfree'', ''0x'' @ xtext 8 p)"
proof -
  have no: "NUL \<notin> set (xtext 8 p)" by (rule xtext_no_NUL) simp
  then have "cstr (''freepage 0x'' @ xtext 8 p) = ''freepage'' @ replicate (Suc 0) (CHR '' '') @ ''0x'' @ xtext 8 p"
    "cstr (''kfree 0x'' @ xtext 8 p) = ''kfree'' @ replicate (Suc 0) (CHR '' '') @ ''0x'' @ xtext 8 p" by (simp_all add: cstr_id)
  then show "split_line (freepage_line p) = (''freepage'', ''0x'' @ xtext 8 p)"
    "split_line (kfree_line p) = (''kfree'', ''0x'' @ xtext 8 p)"
    unfolding freepage_line_def kfree_line_def by (intro split_line_text(1) [where n = 0]; use no in simp)+
qed

lemma hist_field [simp]: "k_pmm (k\<lparr>k_hist := h\<rparr>) = k_pmm k" "k_con (k\<lparr>k_hist := h\<rparr>) = k_con k"
  by simp_all

lemma allocpage_prints:
  assumes "uart_drains dev" "pmm_alloc_frame (k_pmm k) = (p, s1)" "p \<noteq> 0"
  shows "\<exists>k1 t. execute dev L ''allocpage'' k = Some (Returned k1) \<and> k_pmm k1 = s1 \<and>
    sunk (k_con k1) = sunk (k_con k) @ t @ ''Free it with: '' @ freepage_line p @ NL"
proof -
  let ?k = "k\<lparr>k_hist := hist_record ''allocpage'' (k_hist k), k_pmm := s1\<rparr>"
  define t1 where "t1 = ''Allocated frame at physical 0x'' @ xtext 8 p @ '' (free now: '' @ utext (pmm_free_frames s1) @ '' frames)'' @ NL"
  have "kformat (''Allocated frame at physical 0x%08x (free now: %u frames)'' @ NL) [KNum p, KNum (pmm_free_frames s1)] = Some t1"
    by (simp add: kformat_rules NL_def t1_def)
  then obtain k2 where k2: "pr dev (''Allocated frame at physical 0x%08x (free now: %u frames)'' @ NL) [KNum p, KNum (pmm_free_frames s1)] ?k = Some k2"
      "said ?k t1 k2" by (rule pr_obtain [OF assms(1)])
  have "kformat (''Free it with: freepage 0x%08x'' @ NL) [KNum p] = Some (''Free it with: '' @ freepage_line p @ NL)"
    by (simp add: kformat_rules NL_def freepage_line_def)
  then obtain k3 where k3: "pr dev (''Free it with: freepage 0x%08x'' @ NL) [KNum p] k2 = Some k3"
      "said k2 (''Free it with: '' @ freepage_line p @ NL) k3" by (rule pr_obtain [OF assms(1)])
  have sp: "split_line ''allocpage'' = (''allocpage'', [])" by code_simp
  have "execute dev L ''allocpage'' k = Some (Returned k3)"
    using assms(2,3) k2(1) k3(1) by (simp add: execute_def sp run_command_def cmd_allocpage_def Let_def)
  moreover have "k_pmm k3 = s1" using said_kernel(1) [OF k2(2)] said_kernel(1) [OF k3(2)] by simp
  moreover have "sunk (k_con k3) = sunk (k_con k) @ t1 @ ''Free it with: '' @ freepage_line p @ NL"
    using k2(2) k3(2) by (simp add: said_def)
  ultimately show ?thesis by blast
qed

lemma freepage_frees:
  assumes "uart_drains dev" "pmm_free_frame p (k_pmm k) = (0, s2)"
  shows "\<exists>k1. execute dev L (freepage_line p) k = Some (Returned k1) \<and> k_pmm k1 = s2"
proof -
  let ?k = "k\<lparr>k_hist := hist_record (freepage_line p) (k_hist k), k_pmm := s2\<rparr>" and ?a = "p AND NOT (PAGE_SIZE - 1)"
  have hex: "parse_hex (''0x'' @ xtext 8 p) = Some p" by (rule parse_hex_xtext) simp
  have "kformat (''Freed frame at 0x%08x (free now: %u frames)'' @ NL) [KNum ?a, KNum (pmm_free_frames s2)] =
      Some (''Freed frame at 0x'' @ xtext 8 ?a @ '' (free now: '' @ utext (pmm_free_frames s2) @ '' frames)'' @ NL)"
    by (simp add: kformat_rules NL_def)
  then obtain k1 where k1: "pr dev (''Freed frame at 0x%08x (free now: %u frames)'' @ NL) [KNum ?a, KNum (pmm_free_frames s2)] ?k = Some k1"
      "said ?k (''Freed frame at 0x'' @ xtext 8 ?a @ '' (free now: '' @ utext (pmm_free_frames s2) @ '' frames)'' @ NL) k1"
    by (rule pr_obtain [OF assms(1)])
  have "k_pmm k1 = s2" using said_kernel(1) [OF k1(2)] by simp
  with k1(1) show ?thesis using assms(2) hex
    by (auto simp: execute_def split_hint run_command_def cmd_freepage_def Let_def)
qed

section \<open>A kernel at its prompt\<close>

text \<open>
  The statics with the components initialised, the desktop laid out on the framebuffer \<open>s\<close>, over a
  memory, its heap and its frames; and addresses a linker could choose.
\<close>

definition kernel_static :: "lfb \<Rightarrow> mem \<Rightarrow> kheap \<Rightarrow> pmm \<Rightarrow> kernel" where
  "kernel_static s m h p =
     gui.extend ((gui_static s)\<lparr>k_desk := desktop_regions (desktop_window (desk_static\<lparr>dW := fbW s, dH := fbH s\<rparr>))\<rparr>)
       (kernel.fields m p h \<lparr>vm_mem = m, ready = False, enabled = False, cr3 = 0, cr0 = 0\<rparr> sched_kinit (ai_init blank_world)
          blank_registry hist_static boot_table 0 0 True)"

lemma kernel_static_fields:
  "k_pmm (kernel_static s m h p) = p" "k_heap (kernel_static s m h p) = h" "k_mem (kernel_static s m h p) = m"
  "fb (kernel_static s m h p) = s" "d_gcon (k_disp (kernel_static s m h p)) = gcon_static"
  "k_desk (kernel_static s m h p) = desktop_regions (desktop_window (desk_static\<lparr>dW := fbW s, dH := fbH s\<rparr>))"
  "k_fs (kernel_static s m h p) = kfs_init (replicate 32 blank_file) (\<lambda>_. 0)" "k_notes (kernel_static s m h p) = notes_static"
  "s_line (kernel_static s m h p) = replicate 128 NUL" "s_len (kernel_static s m h p) = 0"
  "k_sched (kernel_static s m h p) = sched_kinit" "k_ai (kernel_static s m h p) = ai_init blank_world"
  "k_feat (kernel_static s m h p) = blank_registry" "k_hist (kernel_static s m h p) = hist_static"
  "k_table (kernel_static s m h p) = boot_table"
  by (simp_all add: kernel_static_def gui_static_def fb_def boot_display_def gui.defs kernel.defs)

definition link_static :: linkage where
  "link_static = \<lparr>lk_vmm = \<lparr>page_dir = 0x110000, page_tabs = 0x111000, lfb_tabs = 0x113000, mmio_tabs = 0x115000\<rparr>,
     lk_sysmsg = 0x108000, lk_hello = 0x108100, lk_hello_len = 16, lk_build_date = ''Jan  1 2025'', lk_build_time = ''00:00:00''\<rparr>"

text \<open>
  C36: The command \<open>allocpage\<close> ends its output with a command line; typing that line gives the frame
  back: every frame's state and the count of free frames are what they were.
\<close>

theorem allocpage_hint_works:
  assumes "uart_drains dev" "pmm_ok (k_pmm k)" "pmm_alloc_frame (k_pmm k) = (p, s1)" "p \<noteq> 0"
  shows "\<exists>k1 k2 t hint. execute dev L ''allocpage'' k = Some (Returned k1) \<and>
    sunk (k_con k1) = sunk (k_con k) @ t @ ''Free it with: '' @ hint @ NL \<and>
    execute dev L hint k1 = Some (Returned k2) \<and> pmm_free_frames (k_pmm k2) = pmm_free_frames (k_pmm k) \<and>
    (\<forall>g. fb_test (frame_bitmap (k_pmm k2)) g = fb_test (frame_bitmap (k_pmm k)) g)"
proof -
  obtain k1 t where k1: "execute dev L ''allocpage'' k = Some (Returned k1)" "k_pmm k1 = s1"
      "sunk (k_con k1) = sunk (k_con k) @ t @ ''Free it with: '' @ freepage_line p @ NL"
    using allocpage_prints [OF assms(1,3,4)] by blast
  obtain s2 where s2: "pmm_free_frame p s1 = (0, s2)" "pmm_free_frames s2 = pmm_free_frames (k_pmm k)"
      "\<forall>g. fb_test (frame_bitmap s2) g = fb_test (frame_bitmap (k_pmm k)) g"
    using alloc_then_free [OF assms(2-4)] by blast
  obtain k2 where "execute dev L (freepage_line p) k1 = Some (Returned k2)" "k_pmm k2 = s2"
    using freepage_frees [OF assms(1), of p k1 s2] s2(1) k1(2) by blast
  then show ?thesis using k1 s2 by blast
qed

theorem allocpage_hint_works_witness:
  "\<exists>p0 k1 k2 hint. pmm_init boot_mem 0x100000 0x140000 MULTIBOOT_BOOTLOADER_MAGIC 0x9000 pmm_bss = Some p0 \<and>
     execute ready_uart link_static ''allocpage'' (kernel_static screen demo_mem demo_heap p0) = Some (Returned k1) \<and>
     execute ready_uart link_static hint k1 = Some (Returned k2) \<and> pmm_free_frames (k_pmm k2) = pmm_free_frames p0"
proof -
  obtain p0 where p0: "pmm_init boot_mem 0x100000 0x140000 MULTIBOOT_BOOTLOADER_MAGIC 0x9000 pmm_bss = Some p0"
      "mmap_addr_saved p0 = 0x9100" "mmap_len_saved p0 = 24" "unat (total_frames p0) = 0x300" "\<not> fb_test (frame_bitmap p0) 0x140"
    by (rule boot_state)
  have ok: "pmm_ok p0" using pmm_init_ok [OF p0(1)] boot_ranges_fit by (simp add: p0(2,3))
  have "(0x140 :: u32) < total_frames p0" using p0(4) by (simp add: word_less_nat_alt)
  then obtain p s1 where al: "pmm_alloc_frame p0 = (p, s1)" "p \<noteq> 0" using alloc_some_frame [OF ok _ p0(5)] by blast
  have f: "k_pmm (kernel_static screen demo_mem demo_heap p0) = p0" by (rule kernel_static_fields)
  show ?thesis using allocpage_hint_works [OF ready_uart_drains, of "kernel_static screen demo_mem demo_heap p0" p s1 link_static] ok al p0(1)
    unfolding f by blast
qed

definition kmalloc_line :: "u32 \<Rightarrow> char list" where
  "kmalloc_line n = ''kmalloc '' @ utext n"

lemma split_kmalloc: "split_line (kmalloc_line n) = (''kmalloc'', utext n)"
proof -
  have "cstr (''kmalloc '' @ utext n) = ''kmalloc'' @ replicate (Suc 0) (CHR '' '') @ utext n"
    using utext_no_NUL [of n] by (simp add: cstr_id)
  then show ?thesis unfolding kmalloc_line_def by (intro split_line_text(1) [where n = 0]; simp add: utext_no_NUL utext_starts)
qed

lemma kmalloc_prints:
  assumes "uart_drains dev" "n \<noteq> 0" "kmalloc (k_heap k) n (k_mem k) = Some (p, m1)" "p \<noteq> 0" "heap_wf (k_heap k) m1 bs1"
  shows "\<exists>k1 t. execute dev L (kmalloc_line n) k = Some (Returned k1) \<and> k_mem k1 = m1 \<and> k_heap k1 = k_heap k \<and>
    sunk (k_con k1) = sunk (k_con k) @ t @ ''Free it with: '' @ kfree_line p @ NL"
proof -
  let ?k = "k\<lparr>k_hist := hist_record (kmalloc_line n) (k_hist k), k_mem := m1\<rparr>"
  define free where "free = (of_nat (free_total bs1) :: u32)"
  have free: "kheap_free (k_heap k) m1 = Some free" using heap_ok_report(3) [OF assms(5)] by (simp add: kheap_free_def free_def)
  define t1 where "t1 = ''kmalloc('' @ utext n @ '') = 0x'' @ xtext 8 p @ ''  (heap free now: '' @ utext free @ '' bytes)'' @ NL"
  have "kformat (''kmalloc(%u) = 0x%08x  (heap free now: %u bytes)'' @ NL) [KNum n, KNum p, KNum free] = Some t1"
    by (simp add: kformat_rules NL_def t1_def)
  then obtain k2 where k2: "pr dev (''kmalloc(%u) = 0x%08x  (heap free now: %u bytes)'' @ NL) [KNum n, KNum p, KNum free] ?k = Some k2"
      "said ?k t1 k2" by (rule pr_obtain [OF assms(1)])
  have "kformat (''Free it with: kfree 0x%08x'' @ NL) [KNum p] = Some (''Free it with: '' @ kfree_line p @ NL)"
    by (simp add: kformat_rules NL_def kfree_line_def)
  then obtain k3 where k3: "pr dev (''Free it with: kfree 0x%08x'' @ NL) [KNum p] k2 = Some k3"
      "said k2 (''Free it with: '' @ kfree_line p @ NL) k3" by (rule pr_obtain [OF assms(1)])
  have "execute dev L (kmalloc_line n) k = Some (Returned k3)"
    using assms(2-4) k2(1) k3(1) by (simp add: execute_def split_kmalloc run_command_def cmd_kmalloc_def parse_uint_utext free Let_def)
  moreover have "k_mem k3 = m1" "k_heap k3 = k_heap k"
    using said_kernel(2,3) [OF k2(2)] said_kernel(2,3) [OF k3(2)] by simp_all
  moreover have "sunk (k_con k3) = sunk (k_con k) @ t1 @ ''Free it with: '' @ kfree_line p @ NL"
    using k2(2) k3(2) by (simp add: said_def)
  ultimately show ?thesis by blast
qed

lemma kfree_returns:
  assumes "uart_drains dev" "kfree (k_heap k) p (k_mem k) = Some m2" "heap_wf (k_heap k) m2 bs2"
  shows "\<exists>k1. execute dev L (kfree_line p) k = Some (Returned k1) \<and> k_mem k1 = m2 \<and> k_heap k1 = k_heap k"
proof -
  let ?k = "k\<lparr>k_hist := hist_record (kfree_line p) (k_hist k), k_mem := m2\<rparr>"
  define free where "free = (of_nat (free_total bs2) :: u32)"
  have rep: "kheap_free (k_heap k) m2 = Some free" "kheap_check (k_heap k) m2 = Some True"
    using heap_ok_report(1,3) [OF assms(3)] by (simp_all add: kheap_free_def kheap_check_def free_def)
  have hex: "parse_hex (''0x'' @ xtext 8 p) = Some p" by (rule parse_hex_xtext) simp
  have "kformat (''kfree(0x%08x): heap free now %u bytes, integrity %s'' @ NL) [KNum p, KNum free, ks ''OK''] =
      Some (''kfree(0x'' @ xtext 8 p @ ''): heap free now '' @ utext free @ '' bytes, integrity OK'' @ NL)"
    by (simp add: kformat_rules NL_def)
  then obtain k1 where k1: "pr dev (''kfree(0x%08x): heap free now %u bytes, integrity %s'' @ NL) [KNum p, KNum free, ks ''OK''] ?k = Some k1"
      "said ?k (''kfree(0x'' @ xtext 8 p @ ''): heap free now '' @ utext free @ '' bytes, integrity OK'' @ NL) k1"
    by (rule pr_obtain [OF assms(1)])
  have "k_mem k1 = m2" "k_heap k1 = k_heap k" using said_kernel(2,3) [OF k1(2)] by simp_all
  then show ?thesis using k1(1) assms(2) hex rep
    by (simp add: execute_def split_hint run_command_def cmd_kfree_def Let_def)
qed

text \<open>
  C37: A successful \<open>kmalloc n\<close> ends its output with a command line; typing that line gives the memory
  back: the heap has the same blocks as before.
\<close>

theorem kmalloc_hint_works:
  assumes "uart_drains dev" "heap_wf (k_heap k) (k_mem k) bs" "n \<noteq> 0" "unat n \<le> 4294967288"
    and "kmalloc (k_heap k) n (k_mem k) = Some (p, m1)" "p \<noteq> 0"
  shows "\<exists>k1 k2 t hint. execute dev L (''kmalloc '' @ utext n) k = Some (Returned k1) \<and>
    sunk (k_con k1) = sunk (k_con k) @ t @ ''Free it with: '' @ hint @ NL \<and>
    execute dev L hint k1 = Some (Returned k2) \<and> heap_wf (k_heap k2) (k_mem k2) bs"
proof -
  have al: "heap_alloc (k_heap k) n (k_mem k) = Some (p, m1)" using assms(5) by (simp add: kmalloc_def)
  obtain bs1 where bs1: "heap_wf (k_heap k) m1 bs1" using heap_alloc_live [OF assms(2-4) al assms(6)] by metis
  obtain k1 t where k1: "execute dev L (kmalloc_line n) k = Some (Returned k1)" "k_mem k1 = m1" "k_heap k1 = k_heap k"
      "sunk (k_con k1) = sunk (k_con k) @ t @ ''Free it with: '' @ kfree_line p @ NL"
    using kmalloc_prints [OF assms(1,3,5,6) bs1] by blast
  obtain m2 where m2: "heap_free (k_heap k) p m1 = Some m2" "heap_wf (k_heap k) m2 bs"
    using alloc_free_blocks [OF assms(2-4) al assms(6)] by blast
  obtain k2 where "execute dev L (kfree_line p) k1 = Some (Returned k2)" "k_mem k2 = m2" "k_heap k2 = k_heap k1"
    using kfree_returns [OF assms(1), of k1 p m2 bs] m2 k1(2,3) by (auto simp: kfree_def)
  then show ?thesis using k1 m2(2)
    by (intro exI [of _ k1] exI [of _ k2] exI [of _ t] exI [of _ "kfree_line p"]) (simp add: kmalloc_line_def)
qed

theorem kmalloc_hint_works_witness:
  "\<exists>k1 k2 hint. execute ready_uart link_static (''kmalloc '' @ utext 100) (kernel_static screen demo_mem demo_heap pmm_bss) = Some (Returned k1) \<and>
     execute ready_uart link_static hint k1 = Some (Returned k2) \<and> heap_wf (k_heap k2) (k_mem k2) [(4080, True)]"
proof -
  let ?k = "kernel_static screen demo_mem demo_heap pmm_bss"
  obtain p m where al: "heap_alloc demo_heap 100 demo_mem = Some (p, m)" "p \<noteq> 0" by (rule demo_alloc)
  have "heap_wf (k_heap ?k) (k_mem ?k) [(4080, True)]" "kmalloc (k_heap ?k) 100 (k_mem ?k) = Some (p, m)"
    using demo_wf al(1) by (simp_all add: kernel_static_fields kmalloc_def)
  moreover have "(100 :: u32) \<noteq> 0" "unat (100 :: u32) \<le> 4294967288" by simp_all
  ultimately show ?thesis using kmalloc_hint_works [OF ready_uart_drains, of ?k "[(4080, True)]" 100 p m link_static] al(2) by blast
qed

end
