(* ===== verification/Shell_Safe.thy ===== *)
theory Shell_Safe
  imports Shell
begin

text \<open>
  The shell as a whole: in a kernel whose components are in order, every command line returns an
  outcome, and a command that comes back leaves every component in order. The proof composes the
  components' own theorems: frames, heap, filesystem, scheduler, system calls, AI policy, feature
  registry, consoles and desktop.
\<close>

section \<open>Commands that print\<close>

named_theorems prints_intros \<open>commands that only print\<close>

lemma prints_iff: "prints out \<longleftrightarrow> (\<forall>c. returns (out c) (\<lambda>_. True))"
  by (rule prints_def)

lemma fmt_ok_line: "CHR ''%'' \<notin> set l \<Longrightarrow> NUL \<notin> set l \<Longrightarrow> fmt_ok (l @ NL) []"
  by (induction l) (auto simp: NL_def)

lemma prints_lines:
  assumes "\<forall>l \<in> set ls. CHR ''%'' \<notin> set l \<and> NUL \<notin> set l"
  shows "prints (print_lines ls)"
  unfolding prints_def print_lines_def using assms
  by (intro allI returns_each) (auto intro!: returns_kprintf fmt_ok_line)

lemma returns_lines:
  assumes "\<forall>l \<in> set ls. CHR ''%'' \<notin> set l \<and> NUL \<notin> set l" "\<And>c. Q c"
  shows "returns (print_lines ls c) Q"
  using prints_lines [OF assms(1)] assms(2) by (auto simp: prints_def returns_def)

lemmas line_fits = NL_def dquoted_def squoted_def

lemma prints_texts [prints_intros]: "prints cmd_help" "prints cmd_status" "prints (cmd_thupkg args)"
  by (auto simp: cmd_help_def cmd_status_def cmd_thupkg_def intro!: prints_lines)

lemma prints_banner [prints_intros]: "prints print_banner"
  unfolding prints_def print_banner_def
  by (intro allI returns_bind returns_kprintf returns_lines) (simp_all add: line_fits)

lemma prints_reports [prints_intros]:
  "prints cmd_about" "prints (cmd_version L)" "prints (cmd_sysinfo L pt pm)" "prints (cmd_uptime pt)"
  unfolding prints_def cmd_about_def cmd_version_def cmd_sysinfo_def cmd_uptime_def
  by (auto simp: line_fits intro!: returns_intros)

lemma returns_stats: "(\<And>c. Q c) \<Longrightarrow> returns (pmm_print_stats p c) Q"
  by (auto simp: pmm_print_stats_def Let_def line_fits intro!: returns_intros)

lemma prints_memory [prints_intros]: "prints (pmm_print_stats p)" "prints (cmd_mem p)"
  by (auto simp: prints_def cmd_mem_def line_fits intro!: returns_intros returns_stats)

lemma prints_mmap:
  assumes "mmap_len_saved p = 0 \<or> entries_at m (mmap_addr_saved p) (mmap_addr_saved p + mmap_len_saved p) es"
  shows "prints (pmm_print_mmap m p)"
proof -
  have "returns (print_mmap_loop m (mmap_addr_saved p) (mmap_addr_saved p + mmap_len_saved p) c) (\<lambda>_. True)"
    if "mmap_len_saved p \<noteq> 0" for c
    using print_mmap_loop_outputs [of m "mmap_addr_saved p" "mmap_addr_saved p + mmap_len_saved p" es] assms that
    by (auto simp: outputs_def returns_def)
  then show ?thesis by (auto simp: prints_def pmm_print_mmap_def line_fits intro!: returns_intros)
qed

lemma prints_heap [prints_intros]:
  assumes "heap_ok h m"
  shows "prints (cmd_heap h m)"
proof -
  obtain bs where "heap_wf h m bs" using assms by (auto simp: heap_ok_def)
  note r = heap_ok_report [OF this]
  show ?thesis unfolding prints_def cmd_heap_def kheap_used_def kheap_free_def kheap_blocks_def kheap_check_def r(1-4)
    by (auto simp: line_fits intro!: returns_intros)
qed

lemma prints_vmm [prints_intros]: "prints (cmd_vmm L v args)"
  by (auto simp: prints_def cmd_vmm_def Let_def line_fits split: option.split intro!: returns_intros)

lemma prints_tasks [prints_intros]: "prints (sched_klist s)"
  unfolding prints_def sched_klist_def print_task_def
  by (auto simp: line_fits intro!: returns_intros)

lemma prints_coop [prints_intros]: "prints print_coop_demo"
proof -
  obtain r where r: "coop_run_demo = Some r" using coop_run_demo_trace by blast
  show ?thesis unfolding prints_def print_coop_demo_def print_event_def r
    by (auto simp: line_fits split: coop_event.split intro!: returns_intros)
qed

lemma prints_files [prints_intros]: "prints (cmd_ls fs)" "prints (cmd_cat fs args)"
  by (auto simp: prints_def cmd_ls_def cmd_cat_def print_file_def Let_def case_prod_unfold line_fits
      split: option.split intro!: returns_intros)

lemma prints_history [prints_intros]: "prints (cmd_history h)"
proof -
  have "returns (history_loop h i n c) (\<lambda>_. True)" for i n c
    by (induction n arbitrary: i c) (auto simp: line_fits intro!: returns_intros)
  then show ?thesis by (auto simp: prints_def cmd_history_def Let_def line_fits intro!: returns_intros)
qed

lemma prints_log [prints_intros]: "prints (\<lambda>c. Some (f c))"
  by (simp add: prints_def returns_def)

lemma prints_kdemo:
  assumes "sched_inv s"
  shows "returns (print_kdemo s c) (\<lambda>(s', c'). sched_inv s')"
proof -
  obtain ids s' where "sched_kdemo s = Some (ids, s')" "sched_inv s'" using sched_kdemo_returns [OF assms] by blast
  then show ?thesis unfolding print_kdemo_def
    by (auto simp: line_fits intro!: returns_intros)
qed

section \<open>A kernel in order\<close>

text \<open>
  \<open>kernel_ok s k\<close>: every component's invariant holds, the desktop is laid out for the screen \<open>s\<close>
  and only visible pixels of it have been painted.
\<close>

definition cursor_ok :: "desk \<Rightarrow> bool" where
  "cursor_ok c \<longleftrightarrow> length (cur_save c) = 228 \<and> - 2147483648 \<le> cur_x c \<and> - 2147483648 \<le> cur_y c"

definition kernel_ok :: "lfb \<Rightarrow> kernel \<Rightarrow> bool" where
  "kernel_ok s k \<longleftrightarrow> screen_fits s \<and> gui_paints s k \<and> desk_laid s (k_desk k) \<and> cursor_ok (k_desk k) \<and>
     line_ok (s_line k, s_len k) \<and> notes_ok (k_notes k) \<and> pmm_ok (k_pmm k) \<and> heap_ok (k_heap k) (k_mem k) \<and>
     ramfs_inv (k_fs k) \<and> arena_sz (k_fs k) = KFS_ARENA \<and> sched_inv (k_sched k) \<and> local_only (k_ai k) \<and> feat_ok (k_feat k) \<and>
     hist_inv (k_hist k) \<and> k_table k = boot_table"

definition outcome_ok :: "lfb \<Rightarrow> outcome \<Rightarrow> bool" where
  "outcome_ok s r \<longleftrightarrow> (case r of Returned k \<Rightarrow> kernel_ok s k | _ \<Rightarrow> True)"

lemma outcome_ok_simps [simp]: "outcome_ok s (Returned k) = kernel_ok s k" "outcome_ok s (Faulted k)" "outcome_ok s (Resetting k)"
    "outcome_ok s (Halted k)"
  by (simp_all add: outcome_ok_def)

lemma kernel_okD:
  assumes "kernel_ok s k"
  shows "screen_fits s" "gui_paints s k" "desk_laid s (k_desk k)" "pmm_ok (k_pmm k)" "heap_ok (k_heap k) (k_mem k)"
    "ramfs_inv (k_fs k)" "arena_sz (k_fs k) = KFS_ARENA" "sched_inv (k_sched k)" "local_only (k_ai k)" "feat_ok (k_feat k)"
    "hist_inv (k_hist k)" "k_table k = boot_table" "line_ok (s_line k, s_len k)" "notes_ok (k_notes k)" "cursor_ok (k_desk k)"
  using assms by (simp_all add: kernel_ok_def)

lemma line_ok_shorter: "line_ok (l, n) \<Longrightarrow> m \<le> n \<Longrightarrow> line_ok (l, m)"
  using set_take_subset_set_take [of m n l] by (auto simp: line_ok_def)

lemma more_kernel:
  assumes "gui.more k' = gui.more k"
  shows "k_pmm k' = k_pmm k" "k_heap k' = k_heap k" "k_mem k' = k_mem k" "k_sched k' = k_sched k" "k_ai k' = k_ai k"
    "k_feat k' = k_feat k" "k_hist k' = k_hist k" "k_table k' = k_table k" "k_if k' = k_if k"
  using assms by (cases k; cases k'; simp)+

lemma keeps_ok:
  assumes "kernel_ok s k" "gui_keeps k k'" "gui_paints s k'" "desk_laid s (k_desk k')"
  shows "kernel_ok s k'"
proof -
  have m: "gui.more k' = gui.more k" using assms(2) by (simp add: gui_keeps_def)
  have "line_ok (s_line k', s_len k')"
    using assms(1,2) line_ok_shorter by (auto simp: gui_keeps_def kernel_ok_def)
  moreover have "cursor_ok (k_desk k') = cursor_ok (k_desk k)" using assms(2) by (simp add: gui_keeps_def cursor_of_def cursor_ok_def)
  ultimately show ?thesis using assms more_kernel [OF m] by (simp add: kernel_ok_def gui_keeps_def)
qed

lemma shown_ok: "kernel_ok s k \<Longrightarrow> shown k k' \<Longrightarrow> gui_paints s k' \<Longrightarrow> kernel_ok s k'"
  by (rule keeps_ok [OF _ shown_keeps]) (simp_all add: shown_fields kernel_ok_def)

lemma hist_record_inv: "hist_inv h \<Longrightarrow> hist_inv (hist_record l h)"
proof -
  assume h: "hist_inv h"
  then have "length (hist h ! (unat (hist_n h) mod 16)) = 128" by (simp add: hist_inv_def)
  then show ?thesis using h set_update_subset_insert [of "hist h" "unat (hist_n h) mod 16"]
    by (fastforce simp: hist_record_def hist_push_def hist_inv_def unat_mod_hist Let_def)
qed

lemma hist_ok: "kernel_ok s k \<Longrightarrow> kernel_ok s (k\<lparr>k_hist := hist_record l (k_hist k)\<rparr>)"
  by (simp add: kernel_ok_def hist_record_inv gui_paints_iff fb_def)

section \<open>Every command\<close>

named_theorems command_rules \<open>commands keep the kernel in order\<close>

lemma returns_if: "(b \<Longrightarrow> returns x Q) \<Longrightarrow> (\<not> b \<Longrightarrow> returns y Q) \<Longrightarrow> returns (if b then x else y) Q"
  by simp

lemma gui_paints_disp:
  "d_gcon (k_disp k') = d_gcon (k_disp k) \<Longrightarrow> d_lfb (k_disp k') = d_lfb (k_disp k) \<Longrightarrow> gui_paints s k' = gui_paints s k"
  by (simp add: gui_paints_def fb_def)

lemma update_ok:
  assumes "kernel_ok s k"
  shows "pmm_ok p \<Longrightarrow> kernel_ok s (k\<lparr>k_pmm := p\<rparr>)"
    and "heap_ok (k_heap k) m \<Longrightarrow> kernel_ok s (k\<lparr>k_mem := m\<rparr>)"
    and "ramfs_inv fs \<Longrightarrow> arena_sz fs = KFS_ARENA \<Longrightarrow> kernel_ok s (k\<lparr>k_fs := fs\<rparr>)"
    and "sched_inv sc \<Longrightarrow> kernel_ok s (k\<lparr>k_sched := sc\<rparr>)"
    and "local_only w \<Longrightarrow> kernel_ok s (k\<lparr>k_ai := w\<rparr>)"
    and "feat_ok r \<Longrightarrow> kernel_ok s (k\<lparr>k_feat := r\<rparr>)"
    and "kernel_ok s (k\<lparr>k_if := i\<rparr>)"
    and "kernel_ok s (k\<lparr>k_disp := (k_disp k)\<lparr>d_vga := v\<rparr>\<rparr>)"
proof -
  note d = kernel_okD [OF assms]
  show "pmm_ok p \<Longrightarrow> kernel_ok s (k\<lparr>k_pmm := p\<rparr>)"
    unfolding kernel_ok_def using d gui_paints_disp [of "k\<lparr>k_pmm := p\<rparr>" k] by simp
  show "heap_ok (k_heap k) m \<Longrightarrow> kernel_ok s (k\<lparr>k_mem := m\<rparr>)"
    unfolding kernel_ok_def using d gui_paints_disp [of "k\<lparr>k_mem := m\<rparr>" k] by simp
  show "ramfs_inv fs \<Longrightarrow> arena_sz fs = KFS_ARENA \<Longrightarrow> kernel_ok s (k\<lparr>k_fs := fs\<rparr>)"
    unfolding kernel_ok_def using d gui_paints_disp [of "k\<lparr>k_fs := fs\<rparr>" k] by simp
  show "sched_inv sc \<Longrightarrow> kernel_ok s (k\<lparr>k_sched := sc\<rparr>)"
    unfolding kernel_ok_def using d gui_paints_disp [of "k\<lparr>k_sched := sc\<rparr>" k] by simp
  show "local_only w \<Longrightarrow> kernel_ok s (k\<lparr>k_ai := w\<rparr>)"
    unfolding kernel_ok_def using d gui_paints_disp [of "k\<lparr>k_ai := w\<rparr>" k] by simp
  show "feat_ok r \<Longrightarrow> kernel_ok s (k\<lparr>k_feat := r\<rparr>)"
    unfolding kernel_ok_def using d gui_paints_disp [of "k\<lparr>k_feat := r\<rparr>" k] by simp
  show "kernel_ok s (k\<lparr>k_if := i\<rparr>)"
    unfolding kernel_ok_def using d gui_paints_disp [of "k\<lparr>k_if := i\<rparr>" k] by simp
  show "kernel_ok s (k\<lparr>k_disp := (k_disp k)\<lparr>d_vga := v\<rparr>\<rparr>)"
    unfolding kernel_ok_def using d gui_paints_disp [of "k\<lparr>k_disp := (k_disp k)\<lparr>d_vga := v\<rparr>\<rparr>" k] by simp
qed

lemma say_ok [command_rules]:
  assumes "uart_drains dev" "kernel_ok s k" "prints out"
  shows "returns (say dev out k) (kernel_ok s)"
  by (rule returns_mono [OF say_returns [OF assms(1,3)]]) (use assms(2) shown_ok kernel_okD(2) in blast)

lemma pr_ok [command_rules]: "uart_drains dev \<Longrightarrow> kernel_ok s k \<Longrightarrow> fmt_ok f args \<Longrightarrow> returns (pr dev f args k) (kernel_ok s)"
  unfolding pr_def by (intro say_ok prints_kprintf)

lemma say_val_ok:
  assumes "uart_drains dev" "kernel_ok s k" "\<And>c. returns (out c) (\<lambda>(v, c'). P v)"
  shows "returns (say_val dev out k) (\<lambda>(v, k'). P v \<and> kernel_ok s k')"
proof -
  obtain v c where c: "out ((k_con k)\<lparr>sunk := []\<rparr>) = Some (v, c)" "P v" using assms(3) by (force simp: returns_def)
  have "returns (say dev (\<lambda>con. map_option snd (out con)) k) (kernel_ok s)"
    using assms(3) by (intro say_ok assms(1,2)) (force simp: prints_def returns_def)
  then show ?thesis using c by (auto simp: say_def say_val_def returns_def split: Option.bind_splits)
qed

lemma returned [command_rules]: "returns x (kernel_ok s) \<Longrightarrow> returns (map_option Returned x) (outcome_ok s)"
  by (auto simp: returns_def)

lemma allocpage_ok [command_rules]:
  assumes "uart_drains dev" "kernel_ok s k"
  shows "returns (cmd_allocpage dev k) (kernel_ok s)"
proof -
  obtain p m where pm: "pmm_alloc_frame (k_pmm k) = (p, m)" by fastforce
  then have "kernel_ok s (k\<lparr>k_pmm := m\<rparr>)"
    using pmm_alloc_ok [OF kernel_okD(4) [OF assms(2)]] update_ok(1) [OF assms(2)] by simp
  then show ?thesis unfolding cmd_allocpage_def pm prod.case Let_def
    by (intro returns_if returns_bind returns_mono [OF pr_ok [OF assms(1)]] pr_ok [OF assms(1)]) (simp_all add: line_fits)
qed

lemma freepage_ok [command_rules]:
  assumes "uart_drains dev" "kernel_ok s k"
  shows "returns (cmd_freepage dev args k) (kernel_ok s)"
proof (cases "parse_hex args")
  case None
  then show ?thesis by (simp add: cmd_freepage_def pr_ok assms line_fits)
next
  case (Some a)
  obtain r m where pm: "pmm_free_frame a (k_pmm k) = (r, m)" by fastforce
  then have "kernel_ok s (k\<lparr>k_pmm := m\<rparr>)"
    using pmm_free_ok [OF kernel_okD(4) [OF assms(2)], of a] update_ok(1) [OF assms(2)] by simp
  then show ?thesis unfolding cmd_freepage_def Some option.case pm prod.case Let_def
    by (intro returns_if pr_ok [OF assms(1)]) (simp_all add: line_fits)
qed

lemma heap_reports:
  assumes "heap_ok h m"
  shows "\<exists>f. kheap_free h m = Some f" "kheap_check h m = Some True"
proof -
  obtain bs where "heap_wf h m bs" using assms by (auto simp: heap_ok_def)
  note r = heap_ok_report [OF this]
  show "\<exists>f. kheap_free h m = Some f" "kheap_check h m = Some True" unfolding kheap_free_def kheap_check_def r by simp_all
qed

lemma kmalloc_ok [command_rules]:
  assumes "uart_drains dev" "kernel_ok s k" "\<And>n. parse_uint args = Some n \<Longrightarrow> unat n \<le> 4294967288"
  shows "returns (cmd_kmalloc dev args k) (kernel_ok s)"
proof (cases "parse_uint args")
  case None
  then show ?thesis by (simp add: cmd_kmalloc_def pr_ok assms line_fits)
next
  case (Some n)
  obtain p m where al: "kmalloc (k_heap k) n (k_mem k) = Some (p, m)" "heap_ok (k_heap k) m"
    using heap_alloc_total [OF kernel_okD(5) [OF assms(2)] assms(3) [OF Some]] by (auto simp: kmalloc_def)
  obtain f where f: "kheap_free (k_heap k) m = Some f" using heap_reports(1) [OF al(2)] by blast
  have "kernel_ok s (k\<lparr>k_mem := m\<rparr>)" using update_ok(2) [OF assms(2) al(2)] .
  then show ?thesis using assms(1,2) f unfolding cmd_kmalloc_def Some option.case Let_def al(1)
    by (auto simp: line_fits intro!: returns_intros pr_ok returns_mono [OF pr_ok])
qed

lemma kfree_ok [command_rules]:
  assumes "uart_drains dev" "kernel_ok s k" "\<And>a. parse_hex args = Some a \<Longrightarrow> freeable (k_heap k) (k_mem k) a"
  shows "returns (cmd_kfree dev args k) (kernel_ok s)"
proof (cases "parse_hex args")
  case None
  then show ?thesis by (simp add: cmd_kfree_def pr_ok assms line_fits)
next
  case (Some a)
  obtain m where m: "kfree (k_heap k) a (k_mem k) = Some m" "heap_ok (k_heap k) m"
    using heap_free_total [OF kernel_okD(5) [OF assms(2)] assms(3) [OF Some]] by (auto simp: kfree_def)
  obtain f where f: "kheap_free (k_heap k) m = Some f" using heap_reports(1) [OF m(2)] by blast
  have "kernel_ok s (k\<lparr>k_mem := m\<rparr>)" using update_ok(2) [OF assms(2) m(2)] .
  then show ?thesis using assms(1) f heap_reports(2) [OF m(2)] unfolding cmd_kfree_def Some option.case Let_def m(1)
    by (auto simp: line_fits intro!: returns_intros pr_ok)
qed

lemma fs_write_ok:
  assumes "ramfs_inv fs" "arena_sz fs = KFS_ARENA" "length (cstr name) < 32" "unat len \<le> 1023"
  shows "ramfs_inv (snd (kfs_write name data len fs)) \<and> arena_sz (snd (kfs_write name data len fs)) = KFS_ARENA"
proof (cases "cget name 0 = NUL")
  case True
  then show ?thesis using assms(1,2) by (simp add: kfs_write_def ramfs_write_def)
next
  case False
  then have short: "short_name name" using assms(3) cstr_empty_iff [of name] by (simp add: short_name_def RFS_NAME_MAX_def)
  have "unat (arena_used fs) \<le> 65536" using assms(1,2) by (simp add: ramfs_inv_def KFS_ARENA_def word_le_nat_alt)
  then have "unat (arena_used fs) + unat len < 4294967296" using assms(4) by simp
  with assms(1) short show ?thesis
    by (cases rule: ramfs_write_cases [where data = data]) (use assms(1,2) in \<open>simp_all add: kfs_write_def\<close>)
qed

lemma write_ok [command_rules]:
  assumes "uart_drains dev" "kernel_ok s k" "length (cstr args) \<le> 127"
  shows "returns (cmd_write dev args k) (kernel_ok s)"
proof (cases "write_args args")
  case None
  then show ?thesis by (simp add: cmd_write_def pr_ok assms line_fits)
next
  case (Some a)
  obtain name body where a: "a = (name, body)" by (cases a)
  have "length name \<le> 31" "length body \<le> 127"
    using Some assms(3) by (auto simp: a write_args_def Let_def split: if_splits)
  moreover have "length (cstr cs) \<le> length cs" for cs by (simp add: cstr_def length_takeWhile_le)
  from this [of name] this [of body] calculation have "length (cstr name) < 32" "length (cstr body) \<le> 127" by linarith+
  then have fs: "ramfs_inv (snd (kfs_write name (text_bytes body) (of_nat (cstrlen body)) (k_fs k))) \<and>
      arena_sz (snd (kfs_write name (text_bytes body) (of_nat (cstrlen body)) (k_fs k))) = KFS_ARENA"
    using kernel_okD(6,7) [OF assms(2)] by (intro fs_write_ok) (simp_all add: unat_of_nat_u32)
  obtain w f where w: "kfs_write name (text_bytes body) (of_nat (cstrlen body)) (k_fs k) = (w, f)" by fastforce
  have "kernel_ok s (k\<lparr>k_fs := f\<rparr>)" using update_ok(3) [OF assms(2), of f] fs w by simp
  then show ?thesis unfolding cmd_write_def Some option.case a prod.case w Let_def
    by (intro returns_if pr_ok [OF assms(1)]) (simp_all add: line_fits)
qed

text \<open>System calls from the kernel with the table of a booted kernel.\<close>

lemma with_sys_ok:
  assumes "uart_drains dev" "kernel_ok s k"
    and f: "\<exists>v c i cs e. f (sysk_of k) = Some (v, (sysk_of k)\<lparr>sys_con := c, int_flag := i, last_cs := cs, um_exit_code := e\<rparr>)"
  shows "returns (with_sys dev f k) (\<lambda>(v, k'). kernel_ok s k')"
proof -
  obtain v c i cs e where f: "f (sysk_of k) = Some (v, (sysk_of k)\<lparr>sys_con := c, int_flag := i, last_cs := cs, um_exit_code := e\<rparr>)"
    using assms(3) by blast
  have "prints (\<lambda>_. Some c)" by (rule prints_log)
  from say_ok [OF assms(1,2) this] obtain d where d: "show_text dev (sunk c) (k_disp k) = Some d"
      "kernel_ok s (k\<lparr>k_con := c\<lparr>sunk := sunk (k_con k) @ sunk c\<rparr>, k_disp := d\<rparr>)"
    by (auto simp: say_def returns_def split: Option.bind_splits)
  let ?k = "k\<lparr>k_con := c\<lparr>sunk := sunk (k_con k) @ sunk c\<rparr>, k_disp := d\<rparr>"
  let ?e = "k\<lparr>k_con := c\<lparr>sunk := sunk (k_con k) @ sunk c\<rparr>, k_disp := d, k_pit := k_pit k, k_mem := k_mem k, k_table := k_table k,
    k_last_cs := cs, k_exit := e, k_if := i\<rparr>"
  have "kernel_ok s ?e" unfolding kernel_ok_def using kernel_okD [OF d(2)] gui_paints_disp [of ?e ?k] by simp
  moreover have "with_sys dev f k = Some (v, ?e)"
    by (simp add: with_sys_def f d(1)) (simp add: sysk_of_def)
  ultimately show ?thesis by (simp add: returns_Some)
qed

lemma invoke_form:
  assumes "table s = boot_table" "num \<in> {SYS_UPTIME, SYS_WRITE, SYS_GETPID, SYS_VERSION}"
  shows "\<exists>v c i cs e. syscall_invoke num x y z s = Some (v, s\<lparr>sys_con := c, int_flag := i, last_cs := cs, um_exit_code := e\<rparr>)"
proof -
  have "\<exists>v c cs. syscall_invoke num x y z s = Some (v, s\<lparr>sys_con := c, last_cs := cs\<rparr>)"
    using assms by (cases s) (auto simp: syscall_invoke_def int80_def syscall_dispatch_def boot_table_call sys_numbers
        sys_write_def sys_getpid_def sys_uptime_def sys_version_def Let_def)
  then obtain v c cs where "syscall_invoke num x y z s = Some (v, s\<lparr>sys_con := c, last_cs := cs\<rparr>)" by blast
  then have "syscall_invoke num x y z s = Some (v, s\<lparr>sys_con := c, int_flag := int_flag s, last_cs := cs, um_exit_code := um_exit_code s\<rparr>)"
    by simp
  then show ?thesis by blast
qed

lemma sys_ok:
  assumes "uart_drains dev" "kernel_ok s k" "num \<in> {SYS_UPTIME, SYS_WRITE, SYS_GETPID, SYS_VERSION}"
  shows "returns (with_sys dev (syscall_invoke num x y z) k) (\<lambda>(v, k'). kernel_ok s k')"
  by (rule with_sys_ok [OF assms(1,2)]) (rule invoke_form [OF _ assms(3)], simp add: sysk_of_def kernel_okD(12) [OF assms(2)])

lemma pr_then:
  assumes "uart_drains dev" "kernel_ok s k" "fmt_ok f args" "\<And>k'. kernel_ok s k' \<Longrightarrow> returns (g k') Q"
  shows "returns (Option.bind (pr dev f args k) g) Q"
  by (rule returns_bind, rule returns_mono [OF pr_ok [OF assms(1-3)]], rule assms(4))

lemma step_then:
  assumes "returns m (\<lambda>(v, k'). kernel_ok s k')" "\<And>v k'. kernel_ok s k' \<Longrightarrow> returns (g (v, k')) Q"
  shows "returns (Option.bind m g) Q"
  by (rule returns_bind, rule returns_mono [OF assms(1)]) (use assms(2) in auto)

lemma cmd_sys_ok [command_rules]:
  assumes "uart_drains dev" "kernel_ok s k"
  shows "returns (cmd_sys dev L k) (kernel_ok s)"
proof -
  note say = pr_then [OF assms(1)] and call = step_then [OF sys_ok [OF assms(1)]]
  show ?thesis unfolding cmd_sys_def
    by (rule say [OF assms(2)], simp add: line_fits, rule call, assumption, simp, simp only: prod.case, rule call, assumption, simp,
        simp only: prod.case, rule say, assumption, simp add: line_fits, rule call, assumption, simp, simp only: prod.case,
        rule say, assumption, simp add: line_fits, rule call, assumption, simp, simp only: prod.case,
        rule say, assumption, simp add: line_fits, rule pr_ok [OF assms(1)], assumption, simp add: line_fits)
qed

lemma cmd_user_ok [command_rules]:
  assumes "uart_drains dev" "kernel_ok s k"
  shows "returns (cmd_user dev L k) (kernel_ok s)"
proof -
  have run: "returns (with_sys dev (usermode_run h l) k1) (\<lambda>(v, k'). kernel_ok s k')" if "kernel_ok s k1" for h l k1
  proof (rule with_sys_ok [OF assms(1) that])
    have "table (sysk_of k1) = boot_table" using kernel_okD(12) [OF that] by (simp add: sysk_of_def)
    then obtain c where "usermode_run h l (sysk_of k1) = Some (0, (sysk_of k1)\<lparr>last_cs := 0x1B, um_exit_code := 0, int_flag := False, sys_con := c\<rparr>)"
      using usermode_comes_back by blast
    then show "\<exists>v c i cs e. usermode_run h l (sysk_of k1) = Some (v, (sysk_of k1)\<lparr>sys_con := c, int_flag := i, last_cs := cs, um_exit_code := e\<rparr>)"
      by (intro exI [of _ 0] exI [of _ c] exI [of _ False] exI [of _ "0x1B"]) simp
  qed
  note say = pr_then [OF assms(1)] and call = step_then [OF run]
  show ?thesis unfolding cmd_user_def Let_def
    by (rule say [OF assms(2)], simp add: line_fits, rule call, assumption, simp only: prod.case, rule say, assumption, simp add: line_fits)
      (auto simp: line_fits intro!: say pr_ok [OF assms(1)])
qed

lemma opens_ok:
  assumes "kernel_ok s k" "desktop_open_app dev app k0 = Some k'" "gui_keeps k k0" "opens s app (k_desk k0) k'" "desk_laid s (k_desk k0)"
  shows "kernel_ok s k'"
proof -
  have "desk_laid s (k_desk k')" using assms(4,5) by (simp add: opens_def desk_laid_def)
  then show ?thesis using assms(1,4) gui_keeps_trans [OF assms(3) desktop_open_app_keeps [OF assms(2)]]
    by (intro keeps_ok [of s k k']) (simp_all add: opens_def)
qed

lemma open_app_ok [command_rules]:
  assumes "uart_drains dev" "kernel_ok s k"
  shows "returns (desktop_open_app dev app k) (kernel_ok s)"
proof -
  obtain k' where "desktop_open_app dev app k = Some k'" "opens s app (k_desk k) k'"
    using desktop_open_app_paints [OF kernel_okD(2,3,1) [OF assms(2)] assms(1), of app] by (auto simp: returns_def)
  then show ?thesis using opens_ok [OF assms(2), of dev app k k'] kernel_okD(3) [OF assms(2)] by (simp add: returns_def)
qed

lemma cmd_gui_ok [command_rules]:
  assumes "uart_drains dev" "kernel_ok s k"
  shows "returns (cmd_gui dev k) (kernel_ok s)"
proof (cases "fb_active (fb k)")
  case False
  then show ?thesis by (simp add: cmd_gui_def pr_ok assms line_fits)
next
  case True
  note d = kernel_okD [OF assms(2)]
  obtain k1 where k1: "desktop_draw k = Some k1" "gui_paints s k1" "desk_laid s (k_desk k1)"
    using desktop_draw_paints [OF d(2,1)] by (auto simp: returns_def)
  obtain k2 where "desktop_open_app dev APP_TERMINAL k1 = Some k2" "opens s APP_TERMINAL (k_desk k1) k2"
    using desktop_open_app_paints [OF k1(2,3) d(1) assms(1), of APP_TERMINAL] by (auto simp: returns_def)
  moreover from this have "kernel_ok s k2"
    using opens_ok [OF assms(2)] desktop_draw_keeps [OF k1(1)] k1(3) by blast
  ultimately show ?thesis using True k1(1) by (simp add: cmd_gui_def returns_def)
qed

lemma cmd_color_ok [command_rules]:
  assumes "uart_drains dev" "kernel_ok s k"
  shows "returns (cmd_color dev args k) (kernel_ok s)"
  unfolding cmd_color_def Let_def case_prod_unfold using update_ok(8) [OF assms(2)]
  by (intro returns_if pr_ok [OF assms(1)]) (simp_all add: line_fits assms(2))

lemma cmd_clear_ok [command_rules]:
  assumes "kernel_ok s k"
  shows "kernel_ok s (cmd_clear k)"
proof -
  have "gui_paints s (with_gcon gcon_clear k)"
    using kernel_okD(2) [OF assms] by (intro with_gcon_paints gcon_clear_paints) (simp add: gui_paints_def)
  then have "kernel_ok s (with_gcon gcon_clear k)" by (intro keeps_ok [OF assms]) (simp_all add: kernel_okD(3) [OF assms])
  then show ?thesis using update_ok(8) [OF assms] by (simp add: cmd_clear_def)
qed

lemma stop_ok [command_rules]:
  assumes "uart_drains dev" "kernel_ok s k"
  shows "returns (cmd_crash dev args k) (outcome_ok s)" "returns (halt_machine dev k) (outcome_ok s)"
  unfolding cmd_crash_def halt_machine_def
  by (auto simp: line_fits intro!: returns_intros returns_mono [OF pr_ok [OF assms]])

definition kbc_ready :: "devices \<Rightarrow> bool" where
  "kbc_ready dev \<longleftrightarrow> (\<forall>tr. fst (inb dev 0x64 tr) AND 2 = 0)"

lemma reboot_ok [command_rules]:
  assumes "uart_drains dev" "kernel_ok s k" "kbc_ready dev"
  shows "returns (reboot_machine dev k) (outcome_ok s)"
proof -
  have "kbc_wait dev (fst (inb dev 0x64 tr)) tr' \<noteq> None" for tr tr'
    by (subst kbc_wait.simps) (use assms(3) in \<open>simp add: kbc_ready_def\<close>)
  then have "kbc_wait dev 2 tr \<noteq> None" for tr
    by (subst kbc_wait.simps) (simp add: Let_def case_prod_unfold)
  then show ?thesis unfolding reboot_machine_def
    by (intro returns_bind returns_mono [OF pr_ok [OF assms(1,2)]]) (auto simp: line_fits returns_def)
qed

lemma say_vals_ok [command_rules]:
  assumes "uart_drains dev" "kernel_ok s k"
  shows "returns (map_option (\<lambda>(w, k). Returned (k\<lparr>k_ai := w\<rparr>)) (say_val dev (ai_command args (k_ai k)) k)) (outcome_ok s)"
    and "returns (map_option (\<lambda>(r, k). Returned (k\<lparr>k_feat := r\<rparr>)) (say_val dev (osreport_print (k_feat k)) k)) (outcome_ok s)"
    and "returns (map_option (\<lambda>(sc, k). Returned (k\<lparr>k_sched := sc\<rparr>)) (say_val dev (print_kdemo (k_sched k)) k)) (outcome_ok s)"
proof -
  note d = kernel_okD [OF assms(2)]
  have report: "returns (osreport_print (k_feat k) c) (\<lambda>(r, c'). feat_ok r)" for c
    using osreport_returns [OF d(10), of c] build_view [OF d(10)] by (auto simp: returns_def)
  show "returns (map_option (\<lambda>(w, k). Returned (k\<lparr>k_ai := w\<rparr>)) (say_val dev (ai_command args (k_ai k)) k)) (outcome_ok s)"
    by (rule returns_map, rule returns_mono [OF say_val_ok [OF assms local_only_command [OF d(9)]]])
      (auto intro: update_ok(5))
  show "returns (map_option (\<lambda>(r, k). Returned (k\<lparr>k_feat := r\<rparr>)) (say_val dev (osreport_print (k_feat k)) k)) (outcome_ok s)"
    by (rule returns_map, rule returns_mono [OF say_val_ok [OF assms report]]) (auto intro: update_ok(6))
  show "returns (map_option (\<lambda>(sc, k). Returned (k\<lparr>k_sched := sc\<rparr>)) (say_val dev (print_kdemo (k_sched k)) k)) (outcome_ok s)"
    by (rule returns_map, rule returns_mono [OF say_val_ok [OF assms prints_kdemo [OF d(8)]]]) (auto intro: update_ok(4))
qed

section \<open>Every line\<close>

text \<open>
  Lines the shell comes back from whatever the state: sizes of \<open>kmalloc\<close> that do not wrap when they
  are rounded up, addresses for \<open>kfree\<close> that are not inside a block, and a memory map that is read to its end.
\<close>

definition line_safe :: "kernel \<Rightarrow> char list \<Rightarrow> bool" where
  "line_safe k line \<longleftrightarrow> (let (cmd, args) = split_line line in
     (cmd = ''kmalloc'' \<longrightarrow> (\<forall>n. parse_uint args = Some n \<longrightarrow> unat n \<le> 4294967288)) \<and>
     (cmd = ''kfree'' \<longrightarrow> (\<forall>a. parse_hex args = Some a \<longrightarrow> freeable (k_heap k) (k_mem k) a)) \<and>
     (cmd = ''memmap'' \<longrightarrow> mmap_len_saved (k_pmm k) = 0 \<or>
        (\<exists>es. entries_at (k_mem k) (mmap_addr_saved (k_pmm k)) (mmap_addr_saved (k_pmm k) + mmap_len_saved (k_pmm k)) es)))"

lemma length_cstr: "length (cstr cs) \<le> length cs"
  by (simp add: cstr_def length_takeWhile_le)

lemma split_line_length: "length (snd (split_line l)) \<le> length (cstr l)"
  unfolding split_line_def Let_def snd_conv by (rule le_trans [OF length_dropWhile_le]) simp

lemma out_ok:
  assumes "uart_drains dev" "kernel_ok s k" "prints out"
  shows "returns (map_option Returned (say dev out k)) (outcome_ok s)"
  by (rule returned, rule say_ok [OF assms])

lemma prints_number [prints_intros]: "prints (kprintf (''%u'' @ NL) [KNum n])" "prints (kprintf (''%s'' @ NL) [ks args])"
    "prints (kprintf (''Apps: files notes calc paint settings (or click the dock).'' @ NL) [])"
    "prints (kprintf (''Unknown command: %s (try '' @ squoted ''help'' @ '')'' @ NL) [ks cmd])"
  by (intro prints_kprintf; simp add: line_fits)+

lemma returns_case: "(cmd = x \<Longrightarrow> returns a Q) \<Longrightarrow> returns b Q \<Longrightarrow> returns (if cmd = x then a else b) Q"
  by simp

lemma run_command_ok:
  assumes "uart_drains dev" "kbc_ready dev" "kernel_ok s k" "length (cstr args) \<le> 127"
    and sizes: "cmd = ''kmalloc'' \<Longrightarrow> \<forall>n. parse_uint args = Some n \<longrightarrow> unat n \<le> 4294967288"
    and addrs: "cmd = ''kfree'' \<Longrightarrow> \<forall>a. parse_hex args = Some a \<longrightarrow> freeable (k_heap k) (k_mem k) a"
    and map: "cmd = ''memmap'' \<Longrightarrow> prints (pmm_print_mmap (k_mem k) (k_pmm k))"
  shows "returns (run_command dev L cmd args k) (outcome_ok s)"
proof -
  note out = out_ok [OF assms(1,3)]
  show ?thesis unfolding run_command_def Let_def
    by (intro returns_case out prints_intros map stop_ok reboot_ok say_vals_ok returned allocpage_ok freepage_ok kmalloc_ok kfree_ok
          write_ok cmd_sys_ok cmd_user_ok cmd_gui_ok open_app_ok cmd_color_ok assms(1-4) kernel_okD(5) [OF assms(3)])
      (use sizes addrs in \<open>simp_all add: returns_Some cmd_clear_ok assms(3)\<close>)
qed

lemma execute_ok:
  assumes "uart_drains dev" "kbc_ready dev" "kernel_ok s k" "length (cstr line) \<le> 127" "line_safe k line"
  shows "returns (execute dev L line k) (outcome_ok s)"
proof -
  obtain cmd args where sp: "split_line line = (cmd, args)" by fastforce
  let ?k = "k\<lparr>k_hist := hist_record line (k_hist k)\<rparr>"
  have "length (cstr args) \<le> 127" using split_line_length [of line] length_cstr [of args] assms(4) by (simp add: sp)
  moreover have "cmd = ''memmap'' \<Longrightarrow> prints (pmm_print_mmap (k_mem ?k) (k_pmm ?k))"
    using assms(5) prints_mmap by (auto simp: line_safe_def sp)
  ultimately show ?thesis using assms(5) run_command_ok [OF assms(1,2) hist_ok [OF assms(3)], of args cmd line]
    by (simp add: execute_def sp line_safe_def)
qed

lemma putc_ok:
  assumes "uart_drains dev" "kernel_ok s k"
  shows "returns (putc dev c k) (kernel_ok s)"
  unfolding putc_def by (rule say_ok [OF assms prints_log])

lemma returns_after:
  "returns x (outcome_ok s) \<Longrightarrow> (\<And>k. kernel_ok s k \<Longrightarrow> returns (f k) (outcome_ok s)) \<Longrightarrow> returns (after f x) (outcome_ok s)"
  by (cases "(f, x)" rule: after.cases) (auto simp: returns_def)

lemma line_update_ok:
  assumes "kernel_ok s k" "line_ok (l, n)"
  shows "kernel_ok s (k\<lparr>s_line := l, s_len := n\<rparr>)"
  unfolding kernel_ok_def using kernel_okD [OF assms(1)] assms(2) gui_paints_disp [of "k\<lparr>s_line := l, s_len := n\<rparr>" k] by simp

lemma terminated_line_ok: "line_ok (l, n) \<Longrightarrow> line_ok (l[n := NUL], n)"
  by (simp add: line_ok_def)

lemma shell_prompt_ok: "uart_drains dev \<Longrightarrow> kernel_ok s k \<Longrightarrow> returns (shell_prompt dev k) (kernel_ok s)"
  unfolding shell_prompt_def by (intro say_ok prints_kprintf) simp_all

lemma line_safe_cong: "cstr l = cstr l' \<Longrightarrow> k_pmm k = k_pmm k' \<Longrightarrow> k_heap k = k_heap k' \<Longrightarrow> k_mem k = k_mem k' \<Longrightarrow> line_safe k l = line_safe k' l'"
  by (simp add: line_safe_def split_line_def)

text \<open>The typed text, and what a newline would hand to \<open>execute\<close>.\<close>

definition typed_text :: "kernel \<Rightarrow> char list" where
  "typed_text k = line_text (s_line k, s_len k)"

lemma typed_line: "line_ok (s_line k, s_len k) \<Longrightarrow> cstr ((s_line k)[s_len k := NUL]) = typed_text k"
  by (simp add: typed_text_def line_string)

lemma shell_feed_ok:
  assumes "uart_drains dev" "kbc_ready dev" "kernel_ok s k" "c = CHR 0x0A \<Longrightarrow> line_safe k (typed_text k)"
  shows "returns (shell_feed_char dev L c k) (outcome_ok s)"
proof -
  note l = kernel_okD(13) [OF assms(3)]
  show ?thesis
  proof (cases "c = CHR 0x0A")
    case True
    obtain k1 where k1: "putc dev (CHR 0x0A) k = Some k1" "kernel_ok s k1"
      using putc_ok [OF assms(1,3)] by (auto simp: returns_def)
    then have sh: "shown k k1" unfolding putc_def using say_shown by blast
    let ?l = "(s_line k1)[s_len k1 := NUL]"
    let ?k = "k1\<lparr>s_line := ?l\<rparr>"
    have sl: "s_line k1 = s_line k" "s_len k1 = s_len k" using shown_fields [OF sh] by simp_all
    have k2: "kernel_ok s ?k"
      using line_update_ok [OF k1(2) terminated_line_ok [of "s_line k1" "s_len k1"]] kernel_okD(13) [OF k1(2)] by (cases k1) simp
    have str: "cstr ?l = typed_text k" using typed_line [OF l] by (simp add: sl)
    have ty: "cstr (typed_text k) = typed_text k" using l by (simp add: typed_text_def line_text_def line_ok_def cstr_id)
    have "length (cstr ?l) \<le> 127" unfolding str using l by (simp add: typed_text_def line_text_def line_ok_def)
    moreover have "line_safe ?k ?l"
      using assms(4) [OF True] line_safe_cong [of ?l "typed_text k" ?k k] shown_kernel(1-3) [OF sh] by (simp add: str ty)
    ultimately have "returns (execute dev L ?l ?k) (outcome_ok s)" by (intro execute_ok [OF assms(1,2) k2])
    moreover have "returns (map_option Returned (shell_prompt dev (k3\<lparr>s_len := 0\<rparr>))) (outcome_ok s)" if "kernel_ok s k3" for k3
      using line_update_ok [OF that, of "s_line k3" 0] kernel_okD(13) [OF that]
      by (intro returned shell_prompt_ok assms(1)) (cases k3, simp add: line_ok_def)
    ultimately show ?thesis using True k1(1) by (simp add: shell_feed_char_def returns_after)
  next
    case False
    obtain e line len where ed: "line_edit c (s_line k, s_len k) = (e, line, len)" by (cases "line_edit c (s_line k, s_len k)")
    have "kernel_ok s (k\<lparr>s_line := line, s_len := len\<rparr>)"
      using line_update_ok [OF assms(3)] line_edit_text(1) [OF l, of c] ed by simp
    then have "returns (case e of None \<Rightarrow> Some (k\<lparr>s_line := line, s_len := len\<rparr>) | Some e \<Rightarrow> putc dev e (k\<lparr>s_line := line, s_len := len\<rparr>))
        (kernel_ok s)"
      using putc_ok [OF assms(1)] by (auto simp: returns_Some split: option.split)
    from returned [OF this] show ?thesis using False ed by (simp add: shell_feed_char_def Let_def)
  qed
qed

text \<open>
  C1: In a kernel whose components are in order, every character typed is handled: the shell does not
  hang or fail, a newline after a safe line runs its command, and when the shell comes back every
  component is in order again.
\<close>

theorem shell_feed_keeps_kernel:
  assumes "uart_drains dev" "kbc_ready dev" "kernel_ok s k" "c = CHR 0x0A \<Longrightarrow> line_safe k (typed_text k)"
  shows "\<exists>r. shell_feed_char dev L c k = Some r \<and> (\<forall>k'. r = Returned k' \<longrightarrow> kernel_ok s k')"
proof -
  have "returns (shell_feed_char dev L c k) (outcome_ok s)" by (rule shell_feed_ok [OF assms])
  then show ?thesis by (auto simp: returns_def)
qed

lemma kernel_static_ok:
  assumes "screen_fits s" "pmm_ok p" "heap_ok h m"
  shows "kernel_ok s (kernel_static s m h p)"
proof -
  have "painted s s" using assms(1) by (simp add: painted_def screen_fits_def same_screen_def)
  moreover have "ramfs_inv (kfs_init (replicate 32 blank_file) (\<lambda>_. 0)) \<and> arena_sz (kfs_init (replicate 32 blank_file) (\<lambda>_. 0)) = KFS_ARENA"
    using kfs_init_files [of "replicate 32 blank_file" "\<lambda>_. 0"] by (simp add: KFS_MAX_FILES_def RFS_NAME_MAX_def blank_file_def)
  moreover have "sched_inv sched_kinit"
    unfolding sched_kinit_def o_apply by (intro sched_add_inv sched_init_inv) (simp add: NTASK_def)
  moreover have "local_only (ai_init blank_world)" by (rule ai_init_local_only) (simp_all add: blank_world_def)
  moreover have "feat_ok blank_registry" by (simp add: feat_ok_def blank_registry_def FEAT_MAX_def FEAT_NAME_MAX_def)
  ultimately show ?thesis using assms desktop_regions_laid [of s desk_static]
    by (simp add: kernel_ok_def kernel_static_fields gui_paints_iff gcon_inv_def gcon_static_def line_ok_def notes_ok_def
        notes_static_def hist_inv_def hist_static_def desktop_regions_def desktop_window_def desk_static_def cursor_ok_def Let_def)
qed

definition wide_screen :: lfb where
  "wide_screen = screen\<lparr>fbW := 1024, fbH := 768, pitch_px := 1024\<rparr>"

lemma ready_kbc: "kbc_ready ready_uart"
  by (simp add: kbc_ready_def inb_def ready_uart_def)

theorem shell_feed_keeps_kernel_witness:
  "\<exists>r. shell_feed_char ready_uart link_static (CHR 0x0A)
       ((kernel_static wide_screen demo_mem demo_heap pmm_bss)\<lparr>s_line := ''kmalloc 100'' @ replicate 117 NUL, s_len := 11\<rparr>) = Some r \<and>
     (\<forall>k'. r = Returned k' \<longrightarrow> kernel_ok wide_screen k')"
proof -
  let ?base = "kernel_static wide_screen demo_mem demo_heap pmm_bss"
  let ?k = "?base\<lparr>s_line := ''kmalloc 100'' @ replicate 117 NUL, s_len := 11\<rparr>"
  have "screen_fits wide_screen" by (simp add: screen_fits_def fb_ok_def wide_screen_def screen_def)
  moreover have "pmm_ok pmm_bss" by (simp add: pmm_ok_def pmm_inv_def base_protected_def pmm_bss_def)
  moreover have "heap_ok demo_heap demo_mem" using demo_wf by (auto simp: heap_ok_def)
  ultimately have "kernel_ok wide_screen ?base" by (rule kernel_static_ok)
  then have "kernel_ok wide_screen ?k" by (rule line_update_ok) (simp add: line_ok_def)
  moreover have "split_line ''kmalloc 100'' = (''kmalloc'', ''100'')" "parse_uint ''100'' = Some 100" by code_simp+
  then have "line_safe ?k (typed_text ?k)" by (simp add: line_safe_def typed_text_def line_text_def)
  ultimately show ?thesis by (intro shell_feed_keeps_kernel ready_uart_drains ready_kbc)
qed

end
