(* ===== verification/Xhci.thy ===== *)
theory Xhci
  imports Keyboard Mouse Vmm Kprintf "HOL-Library.Monad_Syntax"
begin

text \<open>
  The xHCI USB host controller and its HID keyboards and mice (\<open>kernel/drivers/usb/xhci.c\<close>):
  registers, transfer rings, the event ring, control transfers, enumeration of a port, the
  configuration parser, reports and bring-up. Registers and the memory the controller shares
  are accesses in the I/O history; what the controller puts there is the device parameter.
\<close>

unbundle bit_operations_syntax

section \<open>PCI and registers\<close>

definition pci_addr :: "u32 \<Rightarrow> u32 \<Rightarrow> u32 \<Rightarrow> u32 \<Rightarrow> u32" where
  "pci_addr b d f off = 0x80000000 OR push_bit 16 b OR push_bit 11 d OR push_bit 8 f OR (off AND 0xFC)"

definition pci_r32 :: "devices \<Rightarrow> u32 \<Rightarrow> u32 \<Rightarrow> u32 \<Rightarrow> u32 \<Rightarrow> io \<Rightarrow> u32 \<times> io" where
  "pci_r32 dev b d f off tr = inl dev 0xCFC (outl 0xCF8 (pci_addr b d f off) tr)"

definition pci_w32 :: "u32 \<Rightarrow> u32 \<Rightarrow> u32 \<Rightarrow> u32 \<Rightarrow> u32 \<Rightarrow> io \<Rightarrow> io" where
  "pci_w32 b d f off v tr = outl 0xCFC v (outl 0xCF8 (pci_addr b d f off) tr)"

definition OP_USBCMD :: u32 where "OP_USBCMD = 0x00"
definition OP_USBSTS :: u32 where "OP_USBSTS = 0x04"
definition OP_CRCR :: u32 where "OP_CRCR = 0x18"
definition OP_DCBAAP :: u32 where "OP_DCBAAP = 0x30"
definition OP_CONFIG :: u32 where "OP_CONFIG = 0x38"
definition OP_PORTSC :: "u32 \<Rightarrow> u32" where "OP_PORTSC p = 0x400 + (p - 1) * 0x10"
definition CMD_RS :: u32 where "CMD_RS = 1"
definition CMD_HCRST :: u32 where "CMD_HCRST = 2"
definition STS_HCH :: u32 where "STS_HCH = 1"
definition STS_CNR :: u32 where "STS_CNR = 0x800"
definition IR0 :: u32 where "IR0 = 0x20"
definition IR_ERSTSZ :: u32 where "IR_ERSTSZ = 0x08"
definition IR_ERSTBA :: u32 where "IR_ERSTBA = 0x10"
definition IR_ERDP :: u32 where "IR_ERDP = 0x18"
definition P_CCS :: u32 where "P_CCS = 1"
definition P_PED :: u32 where "P_PED = 2"
definition P_PR :: u32 where "P_PR = 0x10"
definition P_RW1C :: u32 where "P_RW1C = 0x00FE0000"

text \<open>TRB types, already shifted to their place in the control word.\<close>

definition TRB_TYPE :: "u32 \<Rightarrow> u32" where "TRB_TYPE t = push_bit 10 t"
definition TRB_NORMAL :: u32 where "TRB_NORMAL = 1"
definition TRB_SETUP :: u32 where "TRB_SETUP = 2"
definition TRB_DATA :: u32 where "TRB_DATA = 3"
definition TRB_STATUS :: u32 where "TRB_STATUS = 4"
definition TRB_LINK :: u32 where "TRB_LINK = 6"
definition TRB_ENABLE_SLOT :: u32 where "TRB_ENABLE_SLOT = 9"
definition TRB_ADDRESS_DEV :: u32 where "TRB_ADDRESS_DEV = 11"
definition TRB_CONFIG_EP :: u32 where "TRB_CONFIG_EP = 12"
definition TRB_NOOP_CMD :: u32 where "TRB_NOOP_CMD = 23"
definition TRB_TRANSFER_EVT :: u32 where "TRB_TRANSFER_EVT = 32"
definition TRB_CMD_COMPLETE :: u32 where "TRB_CMD_COMPLETE = 33"

definition CMD_TRBS :: u32 where "CMD_TRBS = 64"
definition EVT_TRBS :: u32 where "EVT_TRBS = 64"
definition MAX_SCRATCH :: u32 where "MAX_SCRATCH = 32"
definition MAX_DEV :: nat where "MAX_DEV = 4"
definition EP0_TRBS :: u32 where "EP0_TRBS = 16"
definition EPI_TRBS :: u32 where "EPI_TRBS = 16"

text \<open>Where the linker puts the static arrays that the controller reads and writes.\<close>

record xhci_layout =
  dcbaa :: u32
  cmd_ring :: u32
  evt_ring :: u32
  erst :: u32
  scratch_arr :: u32
  scratch_buf :: u32
  dev_ctx_base :: u32
  in_ctx_base :: u32
  ep0_ring_base :: u32
  epi_ring_base :: u32
  ctl_buf_base :: u32
  hid_buf_base :: u32

text \<open>A device. \<open>int slot, port\<close> are kept as the words they are assigned from.\<close>

record usb_dev =
  ud_used :: bool
  ud_slot :: u32
  ud_port :: u32
  ep0_cyc :: u32
  ep0_enq :: u32
  epi_cyc :: u32
  epi_enq :: u32
  is_kbd :: bool
  is_mouse :: bool
  ep_dci :: u8
  ep_len :: u8
  ud_prev :: "u8 list"

record xhci =
  devs :: "usb_dev list"
  capb :: u32
  opb :: u32
  rtb :: u32
  dbb :: u32
  maxports :: u32
  maxslots :: u32
  ctx_size :: u32
  cmd_cyc :: u32
  cmd_enq :: u32
  evt_cyc :: u32
  evt_deq :: u32
  x_present :: bool
  x_io :: io

definition xhci_present :: "xhci \<Rightarrow> bool" where "xhci_present x = x_present x"

definition dev_ctx :: "xhci_layout \<Rightarrow> nat \<Rightarrow> u32" where "dev_ctx L i = dev_ctx_base L + of_nat i * 2048"
definition in_ctx :: "xhci_layout \<Rightarrow> nat \<Rightarrow> u32" where "in_ctx L i = in_ctx_base L + of_nat i * 2112"
definition ep0_ring :: "xhci_layout \<Rightarrow> nat \<Rightarrow> u32" where "ep0_ring L i = ep0_ring_base L + of_nat i * (EP0_TRBS * 16)"
definition epi_ring :: "xhci_layout \<Rightarrow> nat \<Rightarrow> u32" where "epi_ring L i = epi_ring_base L + of_nat i * (EPI_TRBS * 16)"
definition ctl_buf :: "xhci_layout \<Rightarrow> nat \<Rightarrow> u32" where "ctl_buf L i = ctl_buf_base L + of_nat i * 512"
definition hid_buf :: "xhci_layout \<Rightarrow> nat \<Rightarrow> u32" where "hid_buf L i = hid_buf_base L + of_nat i * 8"

definition mr :: "devices \<Rightarrow> u32 \<Rightarrow> u32 \<Rightarrow> xhci \<Rightarrow> u32 \<times> xhci" where
  "mr dev base off x = (let (v, tr) = rd_m32 dev (base + off) (x_io x) in (v, x\<lparr>x_io := tr\<rparr>))"

definition mw :: "u32 \<Rightarrow> u32 \<Rightarrow> u32 \<Rightarrow> xhci \<Rightarrow> xhci" where
  "mw base off v x = x\<lparr>x_io := wr_m32 (base + off) v (x_io x)\<rparr>"

text \<open>Bytes the controller has put in a buffer, as they are at this point of the history.\<close>

definition dma8 :: "devices \<Rightarrow> u32 \<Rightarrow> xhci \<Rightarrow> u32 \<Rightarrow> u8" where
  "dma8 dev buf x off = dev_m8 dev (x_io x) (buf + off)"

fun wait_reg :: "devices \<Rightarrow> u32 \<Rightarrow> u32 \<Rightarrow> (u32 \<Rightarrow> bool) \<Rightarrow> nat \<Rightarrow> xhci \<Rightarrow> bool \<times> xhci" where
  "wait_reg dev b off ok 0 x = (False, x)"
| "wait_reg dev b off ok (Suc n) x =
     (let (v, x) = mr dev b off x in if ok v then (True, x) else wait_reg dev b off ok n x)"

definition wait_clear :: "devices \<Rightarrow> u32 \<Rightarrow> u32 \<Rightarrow> u32 \<Rightarrow> xhci \<Rightarrow> bool \<times> xhci" where
  "wait_clear dev b off m x = wait_reg dev b off (\<lambda>v. v AND m = 0) 2000000 x"

definition wait_set :: "devices \<Rightarrow> u32 \<Rightarrow> u32 \<Rightarrow> u32 \<Rightarrow> xhci \<Rightarrow> bool \<times> xhci" where
  "wait_set dev b off m x = wait_reg dev b off (\<lambda>v. v AND m \<noteq> 0) 2000000 x"

definition ring_doorbell :: "u32 \<Rightarrow> u32 \<Rightarrow> xhci \<Rightarrow> xhci" where
  "ring_doorbell slot target x = mw (dbb x) (slot * 4) target x"

section \<open>Rings\<close>

text \<open>A TRB: four words at its address.\<close>

definition trb_addr :: "u32 \<Rightarrow> u32 \<Rightarrow> u32" where
  "trb_addr ring i = ring + i * 16"

definition trb_zero :: "u32 \<Rightarrow> io \<Rightarrow> io" where
  "trb_zero t tr = wr_m32 t 0 (wr_m32 (t + 4) 0 (wr_m32 (t + 8) 0 (wr_m32 (t + 12) 0 tr)))"

definition ring_zero :: "u32 \<Rightarrow> nat \<Rightarrow> io \<Rightarrow> io" where
  "ring_zero ring n tr = fold (\<lambda>i. trb_zero (trb_addr ring (of_nat i))) [0..<n] tr"

definition link_control :: "u32 \<Rightarrow> u32" where
  "link_control cyc = TRB_TYPE TRB_LINK OR 2 OR cyc"

definition ring_link :: "u32 \<Rightarrow> u32 \<Rightarrow> u32 \<Rightarrow> io \<Rightarrow> io" where
  "ring_link ring n cyc tr =
     (let tr = ring_zero ring (unat n) tr; tr = wr_m32 (trb_addr ring (n - 1)) ring tr
      in wr_m32 (trb_addr ring (n - 1) + 12) (link_control cyc) tr)"

definition ring_push :: "u32 \<Rightarrow> u32 \<Rightarrow> u32 \<Rightarrow> u32 \<Rightarrow> u32 \<Rightarrow> u32 \<Rightarrow> u32 \<times> u32 \<times> io \<Rightarrow> u32 \<times> u32 \<times> io" where
  "ring_push ring n lo hi status ctl = (\<lambda>(enq, cyc, tr).
     let t = trb_addr ring enq;
         tr = wr_m32 (t + 8) status (wr_m32 (t + 4) hi (wr_m32 t lo tr));
         tr = wr_m32 (t + 12) (ctl OR cyc) tr;
         enq = enq + 1
     in if enq = n - 1
        then let tr = wr_m32 (trb_addr ring (n - 1) + 12) (link_control cyc) tr in (0, cyc XOR 1, tr)
        else (enq, cyc, tr))"

definition push_cmd :: "xhci_layout \<Rightarrow> u32 \<Rightarrow> u32 \<Rightarrow> u32 \<Rightarrow> xhci \<Rightarrow> xhci" where
  "push_cmd L lo hi ctl x =
     (let (enq, cyc, tr) = ring_push (cmd_ring L) CMD_TRBS lo hi 0 ctl (cmd_enq x, cmd_cyc x, x_io x)
      in x\<lparr>cmd_enq := enq, cmd_cyc := cyc, x_io := tr\<rparr>)"

definition set_dev :: "nat \<Rightarrow> (usb_dev \<Rightarrow> usb_dev) \<Rightarrow> xhci \<Rightarrow> xhci" where
  "set_dev i f x = x\<lparr>devs := (devs x)[i := f (devs x ! i)]\<rparr>"

definition push_ep0 :: "xhci_layout \<Rightarrow> nat \<Rightarrow> u32 \<Rightarrow> u32 \<Rightarrow> u32 \<Rightarrow> u32 \<Rightarrow> xhci \<Rightarrow> xhci" where
  "push_ep0 L i lo hi status ctl x =
     (let d = devs x ! i;
          (enq, cyc, tr) = ring_push (ep0_ring L i) EP0_TRBS lo hi status ctl (ep0_enq d, ep0_cyc d, x_io x)
      in set_dev i (\<lambda>d. d\<lparr>ep0_enq := enq, ep0_cyc := cyc\<rparr>) (x\<lparr>x_io := tr\<rparr>))"

definition push_epi :: "xhci_layout \<Rightarrow> nat \<Rightarrow> u32 \<Rightarrow> u32 \<Rightarrow> u32 \<Rightarrow> u32 \<Rightarrow> xhci \<Rightarrow> xhci" where
  "push_epi L i lo hi status ctl x =
     (let d = devs x ! i;
          (enq, cyc, tr) = ring_push (epi_ring L i) EPI_TRBS lo hi status ctl (epi_enq d, epi_cyc d, x_io x)
      in set_dev i (\<lambda>d. d\<lparr>epi_enq := enq, epi_cyc := cyc\<rparr>) (x\<lparr>x_io := tr\<rparr>))"

section \<open>Events and commands\<close>

text \<open>The ring position moves past an event, and the controller is told.\<close>

definition evt_next :: "xhci_layout \<Rightarrow> xhci \<Rightarrow> xhci" where
  "evt_next L x =
     (let x = x\<lparr>evt_deq := evt_deq x + 1\<rparr>;
          x = (if evt_deq x = EVT_TRBS then x\<lparr>evt_deq := 0, evt_cyc := evt_cyc x XOR 1\<rparr> else x);
          x = mw (rtb x) (IR0 + IR_ERDP) (trb_addr (evt_ring L) (evt_deq x) OR 8) x
      in mw (rtb x) (IR0 + IR_ERDP + 4) 0 x)"

text \<open>The event at the ring position, if the controller has put one there: its type, completion code and slot.\<close>

definition evt_peek :: "devices \<Rightarrow> xhci_layout \<Rightarrow> xhci \<Rightarrow> (u32 \<times> u32 \<times> u32) option \<times> xhci" where
  "evt_peek dev L x =
     (let e = trb_addr (evt_ring L) (evt_deq x); (control, x) = mr dev e 12 x
      in if control AND 1 = evt_cyc x
         then let (type_word, x) = mr dev e 12 x; (status, x) = mr dev e 8 x; (slot_word, x) = mr dev e 12 x
              in (Some (drop_bit 10 type_word AND 0x3F, drop_bit 24 status AND 0xFF, drop_bit 24 slot_word AND 0xFF), x)
         else (None, x))"

fun wait_event_loop :: "devices \<Rightarrow> xhci_layout \<Rightarrow> u32 \<Rightarrow> nat \<Rightarrow> xhci \<Rightarrow> (u32 \<times> u32) option \<times> xhci" where
  "wait_event_loop dev L want 0 x = (None, x)"
| "wait_event_loop dev L want (Suc n) x =
     (case evt_peek dev L x of
        (Some (type, c, s), x) \<Rightarrow> let x = evt_next L x in if type = want then (Some (c, s), x) else wait_event_loop dev L want n x
      | (None, x) \<Rightarrow> wait_event_loop dev L want n x)"

definition wait_event :: "devices \<Rightarrow> xhci_layout \<Rightarrow> u32 \<Rightarrow> xhci \<Rightarrow> (u32 \<times> u32) option \<times> xhci" where
  "wait_event dev L want x = wait_event_loop dev L want 3000000 x"

text \<open>The completion code, 0 when no completion came; and the slot of the completion.\<close>

definition cmd_submit :: "devices \<Rightarrow> xhci_layout \<Rightarrow> u32 \<Rightarrow> u32 \<Rightarrow> u32 \<Rightarrow> xhci \<Rightarrow> u32 \<times> u32 option \<times> xhci" where
  "cmd_submit dev L lo hi ctl x =
     (let x = push_cmd L lo hi ctl x; x = ring_doorbell 0 0 x
      in case wait_event dev L TRB_CMD_COMPLETE x of
           (None, x) \<Rightarrow> (0, None, x)
         | (Some (cc, slot), x) \<Rightarrow> (if cc \<noteq> 0 then cc else 1, Some slot, x))"

section \<open>Contexts and control transfers\<close>

definition cset :: "u32 \<Rightarrow> u32 \<Rightarrow> u32 \<Rightarrow> u32 \<Rightarrow> xhci \<Rightarrow> xhci" where
  "cset base ci dw v x = x\<lparr>x_io := wr_m32 (base + ci * ctx_size x + dw * 4) v (x_io x)\<rparr>"

definition ctx_zero :: "u32 \<Rightarrow> nat \<Rightarrow> xhci \<Rightarrow> xhci" where
  "ctx_zero base n x = x\<lparr>x_io := fold (\<lambda>i. wr_m8 (base + of_nat i) 0) [0..<n * unat (ctx_size x)] (x_io x)\<rparr>"

definition control_xfer :: "devices \<Rightarrow> xhci_layout \<Rightarrow> nat \<Rightarrow> u8 \<Rightarrow> u8 \<Rightarrow> u16 \<Rightarrow> u16 \<Rightarrow> u16 \<Rightarrow> bool \<Rightarrow> xhci \<Rightarrow> u32 \<times> xhci" where
  "control_xfer dev L i bmRT bReq wVal wIdx wLen dir_in x =
     (let setup_lo = ucast bmRT OR push_bit 8 (ucast bReq) OR push_bit 16 (ucast wVal);
          setup_hi = ucast wIdx OR push_bit 16 (ucast wLen);
          trt = (if wLen \<noteq> 0 then if dir_in then 3 else 2 else 0);
          x = push_ep0 L i setup_lo setup_hi 8 (push_bit 16 trt OR TRB_TYPE TRB_SETUP OR 0x40) x;
          x = (if wLen \<noteq> 0
               then push_ep0 L i (ctl_buf L i) 0 (ucast wLen) (push_bit 16 (if dir_in then 1 else 0) OR TRB_TYPE TRB_DATA) x
               else x);
          x = push_ep0 L i 0 0 0 (push_bit 16 (if wLen \<noteq> 0 \<and> dir_in then 0 else 1) OR TRB_TYPE TRB_STATUS OR 0x20) x;
          x = ring_doorbell (ud_slot (devs x ! i)) 1 x
      in case wait_event dev L TRB_TRANSFER_EVT x of
           (None, x) \<Rightarrow> (0, x)
         | (Some (cc, _), x) \<Rightarrow> (if cc \<noteq> 0 then cc else 1, x))"

definition arm_interrupt :: "xhci_layout \<Rightarrow> nat \<Rightarrow> xhci \<Rightarrow> xhci" where
  "arm_interrupt L i x =
     (let x = push_epi L i (hid_buf L i) 0 (ucast (ep_len (devs x ! i))) (TRB_TYPE TRB_NORMAL OR 0x20) x
      in ring_doorbell (ud_slot (devs x ! i)) (ucast (ep_dci (devs x ! i))) x)"

definition speed_mps0 :: "u32 \<Rightarrow> u32" where
  "speed_mps0 spd = (if spd = 4 then 512 else if spd = 3 then 64 else 8)"

definition port_reset :: "devices \<Rightarrow> u32 \<Rightarrow> xhci \<Rightarrow> u32 \<times> xhci" where
  "port_reset dev p x =
     (let (sc, x) = mr dev (opb x) (OP_PORTSC p) x;
          keep = (\<lambda>sc. sc AND NOT (P_RW1C OR P_PED));
          x = (if sc AND P_PED = 0
               then let x = mw (opb x) (OP_PORTSC p) (keep sc OR P_PR) x;
                        (_, x) = wait_reg dev (opb x) (OP_PORTSC p) (\<lambda>v. v AND P_PED \<noteq> 0) 1000000 x;
                        (sc, x) = mr dev (opb x) (OP_PORTSC p) x
                    in mw (opb x) (OP_PORTSC p) (keep sc OR P_RW1C) x
               else x);
          (sc, x) = mr dev (opb x) (OP_PORTSC p) x
      in if sc AND P_PED = 0 then (0, x) else (drop_bit 10 sc AND 0xF, x))"

section \<open>The configuration descriptor\<close>

text \<open>What the parser finds: interface number, keyboard, mouse, endpoint and report length.\<close>

record hid_conf =
  hc_iface :: int
  hc_kbd :: bool
  hc_mouse :: bool
  hc_dci :: u8
  hc_len :: u8

definition parse_desc :: "(u32 \<Rightarrow> u8) \<Rightarrow> u32 \<Rightarrow> u8 \<Rightarrow> hid_conf \<Rightarrow> hid_conf" where
  "parse_desc cfg off typ p =
     (if typ = 4 then
        let p = p\<lparr>hc_iface := uint (cfg (off + 2))\<rparr>
        in if cfg (off + 5) = 3
           then if cfg (off + 7) = 1 then p\<lparr>hc_kbd := True\<rparr>
                else if cfg (off + 7) = 2 then p\<lparr>hc_mouse := True\<rparr> else p
           else p
      else if typ = 5 \<and> (hc_kbd p \<or> hc_mouse p) then
        let addr = cfg (off + 2); attr = cfg (off + 3)
        in if addr AND 0x80 \<noteq> 0 \<and> attr AND 3 = 3 \<and> hc_dci p = 0
           then let len = cfg (off + 4)
                in p\<lparr>hc_dci := (addr AND 0xF) * 2 + 1, hc_len := (if len = 0 \<or> len > 8 then 8 else len)\<rparr>
           else p
      else p)"

text \<open>
  \<open>for (o = 0; o + 2 <= total; o += len)\<close>. \<open>total\<close> is at most \<open>sizeof ctl_buf[idx]\<close>, so the
  32-bit offset does not wrap; it is a natural number here.
\<close>

function parse_config :: "(u32 \<Rightarrow> u8) \<Rightarrow> nat \<Rightarrow> nat \<Rightarrow> hid_conf \<Rightarrow> hid_conf" where
  "parse_config cfg all off p =
     (if off + 2 \<le> all
      then let len = cfg (of_nat off); typ = cfg (of_nat off + 1)
           in if len = 0 then p else parse_config cfg all (off + unat len) (parse_desc cfg (of_nat off) typ p)
      else p)"
  by pat_completeness auto

lemma offset_advances: "(w :: u8) \<noteq> 0 \<Longrightarrow> off + 2 \<le> all \<Longrightarrow> all - (off + unat w) < all - off"
  by (cases "unat w") (auto simp: unat_0_iff)

termination parse_config
  by (relation "measure (\<lambda>(cfg, all, off, p). all - off)") (use offset_advances in auto)

declare parse_config.simps [simp del]

section \<open>Enumeration of a port\<close>

definition unuse :: "nat \<Rightarrow> xhci \<Rightarrow> xhci" where
  "unuse i x = set_dev i (\<lambda>d. d\<lparr>ud_used := False\<rparr>) x"

text \<open>The device and input contexts for Address Device.\<close>

definition address_contexts :: "xhci_layout \<Rightarrow> nat \<Rightarrow> u32 \<Rightarrow> u32 \<Rightarrow> u32 \<Rightarrow> xhci \<Rightarrow> xhci" where
  "address_contexts L i port spd slot x =
     (let x = ctx_zero (dev_ctx L i) 32 x;
          x = ctx_zero (in_ctx L i) 33 x;
          x = x\<lparr>x_io := wr_m64 (dcbaa L + slot * 8) (ucast (dev_ctx L i)) (x_io x)\<rparr>;
          x = x\<lparr>x_io := ring_link (ep0_ring L i) EP0_TRBS 1 (x_io x)\<rparr>;
          x = set_dev i (\<lambda>d. d\<lparr>ep0_cyc := 1, ep0_enq := 0\<rparr>) x;
          x = cset (in_ctx L i) 0 1 0x3 x;
          x = cset (in_ctx L i) 1 0 (push_bit 27 1 OR push_bit 20 spd) x;
          x = cset (in_ctx L i) 1 1 (push_bit 16 port) x;
          x = cset (in_ctx L i) 2 1 (push_bit 1 3 OR push_bit 3 4 OR push_bit 16 (speed_mps0 spd)) x;
          x = cset (in_ctx L i) 2 2 (ep0_ring L i OR 1) x;
          x = cset (in_ctx L i) 2 3 0 x;
          x = cset (in_ctx L i) 2 4 8 x
      in set_dev i (\<lambda>d. d\<lparr>ud_slot := slot, ud_port := port, ud_used := True\<rparr>) x)"

text \<open>The input context for Configure Endpoint.\<close>

definition endpoint_contexts :: "xhci_layout \<Rightarrow> nat \<Rightarrow> u32 \<Rightarrow> u32 \<Rightarrow> xhci \<Rightarrow> xhci" where
  "endpoint_contexts L i port spd x =
     (let x = x\<lparr>x_io := ring_link (epi_ring L i) EPI_TRBS 1 (x_io x)\<rparr>;
          x = set_dev i (\<lambda>d. d\<lparr>epi_cyc := 1, epi_enq := 0\<rparr>) x;
          dci = ucast (ep_dci (devs x ! i)); len = ucast (ep_len (devs x ! i));
          x = ctx_zero (in_ctx L i) 33 x;
          x = cset (in_ctx L i) 0 1 (1 OR push_bit (unat dci) 1) x;
          x = cset (in_ctx L i) 1 0 (push_bit 27 dci OR push_bit 20 spd) x;
          x = cset (in_ctx L i) 1 1 (push_bit 16 port) x;
          x = cset (in_ctx L i) (dci + 1) 0 (push_bit 16 3) x;
          x = cset (in_ctx L i) (dci + 1) 1 (push_bit 1 3 OR push_bit 3 7 OR push_bit 16 len) x;
          x = cset (in_ctx L i) (dci + 1) 2 (epi_ring L i OR 1) x
      in cset (in_ctx L i) (dci + 1) 4 len x)"

text \<open>The device at \<open>idx\<close> is given up: the message, and the place is free again.\<close>

definition drop_dev :: "nat \<Rightarrow> char list \<Rightarrow> u32 \<Rightarrow> xhci \<times> console \<Rightarrow> (xhci \<times> console) option" where
  "drop_dev i msg port = (\<lambda>(x, c).
     map_option (Pair (unuse i x)) (kprintf (''  [usb] port %u: '' @ msg @ NL) [KNum port] c))"

definition dma16 :: "devices \<Rightarrow> u32 \<Rightarrow> xhci \<Rightarrow> u32 \<Rightarrow> u16" where
  "dma16 dev buf x off = ucast (dma8 dev buf x off) OR push_bit 8 (ucast (dma8 dev buf x (off + 1)))"

text \<open>\<open>sizeof ctl_buf[idx]\<close> is 512.\<close>

definition clip_total :: "u16 \<Rightarrow> u16" where
  "clip_total n = (if n > 512 then 512 else n)"

text \<open>From Set Configuration to the first armed transfer.\<close>

definition configure_hid :: "devices \<Rightarrow> xhci_layout \<Rightarrow> nat \<Rightarrow> u32 \<Rightarrow> u32 \<Rightarrow> u32 \<Rightarrow> u8 \<Rightarrow> int \<Rightarrow> xhci \<times> console \<Rightarrow> (xhci \<times> console) option" where
  "configure_hid dev L i port spd slot cfgval iface = (\<lambda>(x, c).
     case control_xfer dev L i 0x00 9 (ucast cfgval) 0 0 False x of (r, x) \<Rightarrow>
     if r \<noteq> 1 then Some (unuse i x, c)
     else case control_xfer dev L i 0x21 0x0B 0 (word_of_int (if iface < 0 then 0 else iface)) 0 False x of (_, x) \<Rightarrow>
     let x = endpoint_contexts L i port spd x
     in case cmd_submit dev L (in_ctx L i) 0 (TRB_TYPE TRB_CONFIG_EP OR push_bit 24 slot) x of (r, _, x) \<Rightarrow>
     if r \<noteq> 1 then drop_dev i ''Configure Endpoint failed'' port (x, c)
     else let d = devs x ! i in
       map_option (\<lambda>c. (arm_interrupt L i x, c))
         (kprintf (''  [usb] port %u: %s ready (slot %u, ep dci %u)'' @ NL)
            [KNum port, ks (if is_kbd d then ''keyboard'' else ''mouse''), KNum slot, KNum (ucast (ep_dci d))] c))"

definition conf_static :: hid_conf where
  "conf_static = \<lparr>hc_iface = - 1, hc_kbd = False, hc_mouse = False, hc_dci = 0, hc_len = 0\<rparr>"

text \<open>The configuration descriptor is read, first its head, then all of it that fits, and parsed.\<close>

definition read_config :: "devices \<Rightarrow> xhci_layout \<Rightarrow> nat \<Rightarrow> u32 \<Rightarrow> u32 \<Rightarrow> u32 \<Rightarrow> xhci \<times> console \<Rightarrow> (xhci \<times> console) option" where
  "read_config dev L i port spd slot = (\<lambda>(x, c).
     case control_xfer dev L i 0x80 6 0x0200 0 9 True x of (r, x) \<Rightarrow>
     if r \<noteq> 1 then Some (unuse i x, c)
     else let size = clip_total (dma16 dev (ctl_buf L i) x 2); cfgval = dma8 dev (ctl_buf L i) x 5
     in case control_xfer dev L i 0x80 6 0x0200 0 size True x of (r, x) \<Rightarrow>
     if r \<noteq> 1 then Some (unuse i x, c)
     else let p = parse_config (dma8 dev (ctl_buf L i) x) (unat size) 0 (conf_static\<lparr>hc_len := ep_len (devs x ! i)\<rparr>);
              x = set_dev i (\<lambda>d. d\<lparr>is_kbd := hc_kbd p, is_mouse := hc_mouse p, ep_dci := hc_dci p, ep_len := hc_len p\<rparr>) x
     in if hc_dci p = 0 then drop_dev i ''not a HID boot device'' port (x, c)
        else configure_hid dev L i port spd slot cfgval (hc_iface p) (x, c))"

definition read_device :: "devices \<Rightarrow> xhci_layout \<Rightarrow> nat \<Rightarrow> u32 \<Rightarrow> u32 \<Rightarrow> u32 \<Rightarrow> xhci \<times> console \<Rightarrow> (xhci \<times> console) option" where
  "read_device dev L i port spd slot = (\<lambda>(x, c).
     case control_xfer dev L i 0x80 6 0x0100 0 18 True x of (r, x) \<Rightarrow>
     if r \<noteq> 1 then drop_dev i ''GET device descriptor failed'' port (x, c)
     else let dd = dma8 dev (ctl_buf L i) x; vid = dma16 dev (ctl_buf L i) x 8; pid = dma16 dev (ctl_buf L i) x 10
     in Option.bind
          (kprintf (''  [usb] port %u: device %x:%x (USB %x.%x)'' @ NL)
             [KNum port, KNum (ucast vid), KNum (ucast pid), KNum (ucast (dd 3)), KNum (ucast (dd 2))] c)
          (\<lambda>c. read_config dev L i port spd slot (x, c)))"

text \<open>The first place not in use.\<close>

definition free_dev :: "xhci \<Rightarrow> nat option" where
  "free_dev x = List.find (\<lambda>i. \<not> ud_used (devs x ! i)) [0..<MAX_DEV]"

definition enumerate_port :: "devices \<Rightarrow> xhci_layout \<Rightarrow> u32 \<Rightarrow> xhci \<times> console \<Rightarrow> (xhci \<times> console) option" where
  "enumerate_port dev L port = (\<lambda>(x, c).
     case free_dev x of
       None \<Rightarrow> Some (x, c)
     | Some i \<Rightarrow>
         case port_reset dev port x of (spd, x) \<Rightarrow>
         if spd = 0 then Some (x, c)
         else case cmd_submit dev L 0 0 (TRB_TYPE TRB_ENABLE_SLOT) x of (r, got, x) \<Rightarrow>
         let slot = (case got of None \<Rightarrow> 0 | Some s \<Rightarrow> s)
         in if r \<noteq> 1 \<or> slot = 0
            then map_option (Pair x) (kprintf (''  [usb] port %u: Enable Slot failed'' @ NL) [KNum port] c)
            else case cmd_submit dev L (in_ctx L i) 0 (TRB_TYPE TRB_ADDRESS_DEV OR push_bit 24 slot) (address_contexts L i port spd slot x) of
                (r, _, x) \<Rightarrow>
                if r \<noteq> 1 then drop_dev i ''Address Device failed'' port (x, c)
                else read_device dev L i port spd slot (x, c))"

section \<open>Reports\<close>

definition hid_map :: "char list" where
  "hid_map = keymap
     ([NUL, NUL, NUL, NUL] @ ''abcdefghijklmnopqrstuvwxyz'' @ ''1234567890'' @
      [CHR 0x0A, CHR 0x1B, CHR 0x08, CHR 0x09, CHR '' ''] @ ''-=[]'' @ [CHR 0x5C, NUL, CHR '';'', CHR 0x27, CHR 0x60] @ '',./'')"

definition hid_shift :: "char list" where
  "hid_shift = keymap
     ([NUL, NUL, NUL, NUL] @ ''ABCDEFGHIJKLMNOPQRSTUVWXYZ'' @ ''!@#$%^&*()'' @
      [CHR 0x0A, CHR 0x1B, CHR 0x08, CHR 0x09, CHR '' ''] @ ''_+{}'' @ [CHR ''|'', NUL, CHR '':'', CHR 0x22] @ ''~<>?'')"

definition in_prev :: "usb_dev \<Rightarrow> u8 \<Rightarrow> bool" where
  "in_prev d k \<longleftrightarrow> (\<exists>i \<in> {2..<8}. ud_prev d ! i = k)"

text \<open>One key place of a keyboard report: the character for a key that was not down before.\<close>

definition report_key :: "bool \<Rightarrow> usb_dev \<Rightarrow> u8 \<Rightarrow> kbd \<Rightarrow> kbd" where
  "report_key shift d k kb =
     (if k \<noteq> 0 \<and> k < 128 \<and> \<not> in_prev d k
      then let c = (if shift then hid_shift else hid_map) ! unat k
           in if c \<noteq> NUL then keyboard_inject c kb else kb
      else kb)"

text \<open>\<open>hid_handle\<close> on the eight bytes of a report.\<close>

definition hid_report :: "u8 list \<Rightarrow> usb_dev \<times> kbd \<times> mouse \<Rightarrow> usb_dev \<times> kbd \<times> mouse" where
  "hid_report r = (\<lambda>(d, kb, m).
     if is_kbd d
     then let kb = fold (\<lambda>i. report_key (r ! 0 AND 0x22 \<noteq> 0) d (r ! i)) [2..<8] kb in (d\<lparr>ud_prev := r\<rparr>, kb, m)
     else if is_mouse d then (d, kb, mouse_inject (sint (r ! 1)) (sint (r ! 2)) (uint (r ! 0)) m)
     else (d, kb, m))"

definition hid_handle :: "devices \<Rightarrow> xhci_layout \<Rightarrow> nat \<Rightarrow> xhci \<times> kbd \<times> mouse \<Rightarrow> xhci \<times> kbd \<times> mouse" where
  "hid_handle dev L i = (\<lambda>(x, kb, m).
     let r = map (\<lambda>j. dma8 dev (hid_buf L i) x (of_nat j)) [0..<8];
         (d, kb, m) = hid_report r (devs x ! i, kb, m)
     in (set_dev i (\<lambda>_. d) x, kb, m))"

text \<open>The device a transfer event belongs to.\<close>

definition event_dev :: "u32 \<Rightarrow> xhci \<Rightarrow> nat option" where
  "event_dev slot x = List.find (\<lambda>i. let d = devs x ! i in ud_used d \<and> ud_slot d = slot \<and> ep_dci d \<noteq> 0) [0..<MAX_DEV]"

fun usb_poll_loop :: "devices \<Rightarrow> xhci_layout \<Rightarrow> nat \<Rightarrow> xhci \<times> kbd \<times> mouse \<Rightarrow> xhci \<times> kbd \<times> mouse" where
  "usb_poll_loop dev L 0 st = st"
| "usb_poll_loop dev L (Suc n) (x, kb, m) =
     (case evt_peek dev L x of
        (None, x) \<Rightarrow> (x, kb, m)
      | (Some (type, _, slot), x) \<Rightarrow>
          let x = evt_next L x;
              st = (if type = TRB_TRANSFER_EVT
                    then case event_dev slot x of
                           None \<Rightarrow> (x, kb, m)
                         | Some i \<Rightarrow> (case hid_handle dev L i (x, kb, m) of (x, kb, m) \<Rightarrow> (arm_interrupt L i x, kb, m))
                    else (x, kb, m))
          in usb_poll_loop dev L n st)"

definition usb_poll :: "devices \<Rightarrow> xhci_layout \<Rightarrow> xhci \<times> kbd \<times> mouse \<Rightarrow> xhci \<times> kbd \<times> mouse" where
  "usb_poll dev L st = (if \<not> x_present (fst st) then st else usb_poll_loop dev L 64 st)"

section \<open>Bring-up\<close>

text \<open>The loop over the extended capabilities; at most 64 of them.\<close>

fun ownership_loop :: "devices \<Rightarrow> nat \<Rightarrow> u32 \<Rightarrow> xhci \<times> console \<Rightarrow> (xhci \<times> console) option" where
  "ownership_loop dev 0 p st = Some st"
| "ownership_loop dev (Suc g) p (x, c) =
     (let (cap, x) = mr dev p 0 x; ident = cap AND 0xFF; next_cap = drop_bit 8 cap AND 0xFF
      in if ident = 1
         then let x = mw p 0 (cap OR push_bit 24 1) x
              in case wait_clear dev p 0 (push_bit 16 1) x of (ok, x) \<Rightarrow>
                 if ok then Some (x, c)
                 else map_option (Pair x) (kprintf (''  [usb] BIOS did not release controller'' @ NL) [] c)
         else if next_cap = 0 then Some (x, c)
         else ownership_loop dev g (p + next_cap * 4) (x, c))"

definition take_ownership :: "devices \<Rightarrow> u32 \<Rightarrow> xhci \<times> console \<Rightarrow> (xhci \<times> console) option" where
  "take_ownership dev hccparams1 st =
     (let xecp = drop_bit 16 hccparams1 AND 0xFFFF
      in if xecp = 0 then Some st else ownership_loop dev 64 (capb (fst st) + xecp * 4) st)"

definition controller_name :: "u32 \<Rightarrow> char list" where
  "controller_name pi = (if pi = 0x30 then ''xHCI'' else if pi = 0x20 then ''EHCI'' else if pi = 0x10 then ''OHCI'' else ''UHCI'')"

text \<open>The functions of one device; a device whose function 0 does not answer is left.\<close>

fun find_functions :: "devices \<Rightarrow> u32 \<Rightarrow> nat list \<Rightarrow> u32 \<times> io \<times> console \<Rightarrow> (u32 \<times> io \<times> console) option" where
  "find_functions dev d [] st = Some st"
| "find_functions dev d (f # fs) (bar, tr, c) =
     (let (ident, tr) = pci_r32 dev 0 d (of_nat f) 0x00 tr
      in if ident = 0xFFFFFFFF then (if f = 0 then Some (bar, tr, c) else find_functions dev d fs (bar, tr, c))
         else let (cls, tr) = pci_r32 dev 0 d (of_nat f) 0x08 tr
              in if drop_bit 24 cls \<noteq> 0x0C \<or> drop_bit 16 cls AND 0xFF \<noteq> 0x03 then find_functions dev d fs (bar, tr, c)
                 else let pi = drop_bit 8 cls AND 0xFF in do {
                   c \<leftarrow> kprintf (''  [usb] %s controller at %02d:%d'' @ NL) [ks (controller_name pi), KNum d, KNum (of_nat f)] c;
                   let (bar, tr) =
                     (if pi = 0x30 \<and> bar = 0
                      then let (b, tr) = pci_r32 dev 0 d (of_nat f) 0x10 tr;
                               (command, tr) = pci_r32 dev 0 d (of_nat f) 0x04 tr
                           in (b AND NOT 0xF, pci_w32 0 d (of_nat f) 0x04 (command OR 0x6) tr)
                      else (bar, tr));
                   find_functions dev d fs (bar, tr, c)
                 })"

definition pci_find_xhci :: "devices \<Rightarrow> io \<times> console \<Rightarrow> (u32 \<times> io \<times> console) option" where
  "pci_find_xhci dev st = each (\<lambda>d. find_functions dev (of_nat d) [0..<8]) [0..<32] (0, st)"

text \<open>The capability registers.\<close>

definition read_capabilities :: "devices \<Rightarrow> u32 \<Rightarrow> xhci \<Rightarrow> u32 \<times> u32 \<times> xhci" where
  "read_capabilities dev bar x =
     (let x = x\<lparr>capb := bar\<rparr>;
          (caplen, tr) = rd_m8 dev (capb x) (x_io x);
          x = x\<lparr>x_io := tr\<rparr>;
          (hcs1, x) = mr dev (capb x) 0x04 x;
          (hcs2, x) = mr dev (capb x) 0x08 x;
          (hcc1, x) = mr dev (capb x) 0x10 x;
          x = x\<lparr>maxslots := hcs1 AND 0xFF, maxports := drop_bit 24 hcs1 AND 0xFF,
                ctx_size := (if hcc1 AND 4 \<noteq> 0 then 64 else 32), opb := capb x + ucast caplen\<rparr>;
          (rtsoff, x) = mr dev (capb x) 0x18 x;
          x = x\<lparr>rtb := capb x + (rtsoff AND NOT 0x1F)\<rparr>;
          (dboff, x) = mr dev (capb x) 0x14 x
      in (hcs2, hcc1, x\<lparr>dbb := capb x + (dboff AND NOT 0x3)\<rparr>))"

text \<open>\<open>None\<close>: the controller does not stop or reset, with the message.\<close>

definition reset_controller :: "devices \<Rightarrow> xhci \<Rightarrow> char list option \<times> xhci" where
  "reset_controller dev x =
     (case mr dev (opb x) OP_USBCMD x of (command, x) \<Rightarrow>
      case wait_set dev (opb x) OP_USBSTS STS_HCH (mw (opb x) OP_USBCMD (command AND NOT CMD_RS) x) of (halted, x) \<Rightarrow>
      if \<not> halted then (Some ''no halt'', x)
      else case wait_clear dev (opb x) OP_USBCMD CMD_HCRST (mw (opb x) OP_USBCMD CMD_HCRST x) of (ok, x) \<Rightarrow>
      if \<not> ok then (Some ''reset timeout'', x)
      else case wait_clear dev (opb x) OP_USBSTS STS_CNR x of (ok, x) \<Rightarrow>
      if \<not> ok then (Some ''reset timeout'', x) else (None, x))"

text \<open>The slot table, the scratchpad pages, the command ring and the event ring.\<close>

definition setup_slots :: "xhci_layout \<Rightarrow> u32 \<Rightarrow> xhci \<Rightarrow> xhci" where
  "setup_slots L hcs2 x =
     (let x = mw (opb x) OP_CONFIG (if maxslots x > 63 then 63 else maxslots x) x;
          x = x\<lparr>x_io := fold (\<lambda>i. wr_m64 (dcbaa L + of_nat i * 8) 0) [0..<64] (x_io x)\<rparr>;
          nscratch = (drop_bit 21 hcs2 AND 0x1F) OR push_bit 5 (drop_bit 27 hcs2 AND 0x1F);
          n = (if nscratch > MAX_SCRATCH then MAX_SCRATCH else nscratch);
          x = (if nscratch \<noteq> 0
               then let tr = fold (\<lambda>i. wr_m64 (scratch_arr L + of_nat i * 8) (ucast (scratch_buf L + of_nat i * 4096))) [0..<unat n] (x_io x)
                    in x\<lparr>x_io := wr_m64 (dcbaa L) (ucast (scratch_arr L)) tr\<rparr>
               else x);
          x = mw (opb x) OP_DCBAAP (dcbaa L) x
      in mw (opb x) (OP_DCBAAP + 4) 0 x)"

definition setup_rings :: "xhci_layout \<Rightarrow> xhci \<Rightarrow> xhci" where
  "setup_rings L x =
     (let x = x\<lparr>x_io := ring_link (cmd_ring L) CMD_TRBS 1 (x_io x), cmd_enq := 0, cmd_cyc := 1\<rparr>;
          x = mw (opb x) OP_CRCR (cmd_ring L OR 1) x;
          x = mw (opb x) (OP_CRCR + 4) 0 x;
          x = x\<lparr>x_io := ring_zero (evt_ring L) (unat EVT_TRBS) (x_io x), evt_deq := 0, evt_cyc := 1\<rparr>;
          x = x\<lparr>x_io := wr_m32 (erst L + 12) 0 (wr_m32 (erst L + 8) EVT_TRBS (wr_m64 (erst L) (ucast (evt_ring L)) (x_io x)))\<rparr>;
          x = mw (rtb x) (IR0 + IR_ERSTSZ) 1 x;
          x = mw (rtb x) (IR0 + IR_ERDP) (evt_ring L) x;
          x = mw (rtb x) (IR0 + IR_ERDP + 4) 0 x;
          x = mw (rtb x) (IR0 + IR_ERSTBA) (erst L) x
      in mw (rtb x) (IR0 + IR_ERSTBA + 4) 0 x)"

text \<open>Every port with a device; the flag says whether there was one.\<close>

definition enumerate_ports :: "devices \<Rightarrow> xhci_layout \<Rightarrow> xhci \<times> console \<Rightarrow> (bool \<times> xhci \<times> console) option" where
  "enumerate_ports dev L st =
     each (\<lambda>p (found, x, c).
       case mr dev (opb x) (OP_PORTSC (of_nat p)) x of (sc, x) \<Rightarrow>
         if sc AND P_CCS \<noteq> 0 then map_option (Pair True) (enumerate_port dev L (of_nat p) (x, c)) else Some (found, x, c))
       [1..<Suc (unat (maxports (fst st)))] (False, st)"

definition start_controller :: "devices \<Rightarrow> xhci_layout \<Rightarrow> xhci \<times> console \<Rightarrow> (xhci \<times> console) option" where
  "start_controller dev L = (\<lambda>(x, c).
     let say = (\<lambda>msg (x, c). map_option (Pair x) (kprintf (''  [usb] '' @ msg @ NL) [] c)) in
     case mr dev (opb x) OP_USBCMD x of (command, x) \<Rightarrow>
     case wait_clear dev (opb x) OP_USBSTS STS_HCH (mw (opb x) OP_USBCMD (command OR CMD_RS) x) of (started, x) \<Rightarrow>
     if \<not> started then say ''no start'' (x, c)
     else case cmd_submit dev L 0 0 (TRB_TYPE TRB_NOOP_CMD) x of (r, _, x) \<Rightarrow>
     if r \<noteq> 1 then say ''No-Op failed; controller not usable'' (x, c)
     else do {
       (found, st) \<leftarrow> enumerate_ports dev L (x\<lparr>x_present := True\<rparr>, c);
       if found then Some st else say ''no devices attached'' st
     })"

definition xhci_init :: "devices \<Rightarrow> vmm_layout \<Rightarrow> xhci_layout \<Rightarrow> xhci \<times> vmm \<times> console \<Rightarrow> (xhci \<times> vmm \<times> console) option" where
  "xhci_init dev VL L = (\<lambda>(x, vm, c). do {
     (bar, tr, c) \<leftarrow> pci_find_xhci dev (x_io x, c);
     let x = x\<lparr>x_io := tr\<rparr>;
     if bar = 0 then map_option (\<lambda>c. (x, vm, c)) (kprintf (''  [usb] no xHCI controller found'' @ NL) [] c)
     else let (ok, vm) = vmm_map_mmio VL bar 0x10000 vm in
     if \<not> ok then map_option (\<lambda>c. (x, vm, c)) (kprintf (''  [usb] could not map xHCI MMIO'' @ NL) [] c)
     else do {
       let (hcs2, hcc1, x) = read_capabilities dev bar x;
       c \<leftarrow> kprintf (''  [usb] xHCI: %u ports, %u slots, %u-byte contexts'' @ NL) [KNum (maxports x), KNum (maxslots x), KNum (ctx_size x)] c;
       (x, c) \<leftarrow> take_ownership dev hcc1 (x, c);
       let (failure, x) = reset_controller dev x;
       case failure of
         Some msg \<Rightarrow> map_option (\<lambda>c. (x, vm, c)) (kprintf (''  [usb] '' @ msg @ NL) [] c)
       | None \<Rightarrow> map_option (\<lambda>(x, c). (x, vm, c)) (start_controller dev L (setup_rings L (setup_slots L hcs2 x), c))
     }
   })"

end
