(* ===== verification/Usb.thy ===== *)
theory Usb
  imports Xhci
begin

text \<open>
  Properties of the USB driver: the ring discipline of the transfer rings, the reports of HID
  devices and the queue they feed, what the configuration parser accepts, and that the driver,
  from the start of the controller on, comes back and writes only its own memory and registers.
\<close>

unbundle bit_operations_syntax

section \<open>Transfer rings\<close>

text \<open>
  Position and cycle bit after \<open>k\<close> TRBs: the last place of a ring of \<open>n\<close> holds the link, so a
  round is \<open>n - 1\<close> TRBs, and the cycle bit changes with every round.
\<close>

definition round_cycle :: "nat \<Rightarrow> u32" where
  "round_cycle r = (if even r then 1 else 0)"

definition ring_pos :: "nat \<Rightarrow> nat \<Rightarrow> u32 \<times> u32" where
  "ring_pos n k = (of_nat (k mod (n - 1)), round_cycle (k div (n - 1)))"

text \<open>The writes for the \<open>k\<close>-th TRB (from 0): its four words, the control word last, then a fresh link at the end of a round.\<close>

fun trb_writes :: "u32 \<Rightarrow> nat \<Rightarrow> nat \<Rightarrow> u32 \<times> u32 \<times> u32 \<times> u32 \<Rightarrow> io" where
  "trb_writes ring n k (lo, hi, status, ctl) =
     (let t = trb_addr ring (of_nat (k mod (n - 1))); cyc = round_cycle (k div (n - 1))
      in [Wr32 t lo, Wr32 (t + 4) hi, Wr32 (t + 8) status, Wr32 (t + 12) (ctl OR cyc)] @
         (if k mod (n - 1) = n - 2 then [Wr32 (trb_addr ring (of_nat (n - 1)) + 12) (link_control cyc)] else []))"

definition push_all :: "u32 \<Rightarrow> nat \<Rightarrow> (u32 \<times> u32 \<times> u32 \<times> u32) list \<Rightarrow> u32 \<times> u32 \<times> io \<Rightarrow> u32 \<times> u32 \<times> io" where
  "push_all ring n ts st = fold (\<lambda>(lo, hi, status, ctl). ring_push ring (of_nat n) lo hi status ctl) ts st"

lemma round_step:
  "Suc k mod Suc j = (if k mod Suc j = j then 0 else Suc (k mod Suc j))"
  "Suc k div Suc j = (if k mod Suc j = j then Suc (k div Suc j) else k div Suc j)"
  by (simp_all add: mod_Suc div_Suc)

lemma round_cycle_Suc: "round_cycle (Suc r) = round_cycle r XOR 1"
  by (simp add: round_cycle_def)

lemma ring_push_at:
  assumes "2 \<le> n" "n < 4294967296"
  shows "ring_push ring (of_nat n) lo hi status ctl (fst (ring_pos n k), snd (ring_pos n k), tr) =
    (fst (ring_pos n (Suc k)), snd (ring_pos n (Suc k)), tr @ trb_writes ring n k (lo, hi, status, ctl))"
proof -
  obtain j where n: "n = Suc (Suc j)" using assms(1) by (metis add_2_eq_Suc nat_le_iff_add)
  have n1: "(of_nat n :: u32) - 1 = of_nat (Suc j)" by (simp add: n)
  have lt: "k mod Suc j < Suc j" by simp
  have u: "unat (of_nat (Suc (k mod Suc j)) :: u32) = Suc (k mod Suc j)" "unat (of_nat (Suc j) :: u32) = Suc j"
    by (rule unat_of_nat_u32, use lt assms(2) n in linarith)+
  have nx: "(of_nat m :: u32) + 1 = of_nat (Suc m)" for m by (simp add: add.commute)
  have last: "(of_nat (Suc (k mod Suc j)) :: u32) = of_nat (Suc j) \<longleftrightarrow> k mod Suc j = j"
    by (simp only: word_unat_eq_iff u) simp
  have m: "n - 1 = Suc j" "n - 2 = j" by (simp_all add: n)
  show ?thesis unfolding ring_push_def ring_pos_def trb_writes.simps Let_def prod.case n1 nx last m fst_conv snd_conv round_step
    by (simp add: wr_m32_def round_cycle_Suc del: of_nat_Suc)
qed

lemma push_all_at:
  assumes "2 \<le> n" "n < 4294967296"
  shows "push_all ring n ts (fst (ring_pos n k), snd (ring_pos n k), tr) =
    (fst (ring_pos n (k + length ts)), snd (ring_pos n (k + length ts)), tr @ concat (map (\<lambda>(j, t). trb_writes ring n j t) (enumerate k ts)))"
proof (induction ts arbitrary: k tr)
  case (Cons t ts)
  obtain lo hi status ctl where t: "t = (lo, hi, status, ctl)" by (cases t)
  show ?case using Cons.IH [of "Suc k" "tr @ trb_writes ring n k t"]
    by (simp add: push_all_def t ring_push_at [OF assms] del: trb_writes.simps)
qed (simp add: push_all_def)

text \<open>
  C6: TRBs pushed on a fresh ring of n places go to places 0 to n - 2 in turn, never over the
  link; each carries the cycle bit of its round, set by the last of its four writes, and the
  link gets that bit when its round is full. Whatever the number of TRBs.
\<close>

theorem ring_push_schedule:
  assumes "2 \<le> n" "n < 4294967296"
  shows "push_all ring n ts (0, 1, tr) =
    (of_nat (length ts mod (n - 1)), if even (length ts div (n - 1)) then 1 else 0,
     tr @ concat (map (\<lambda>(j, t). trb_writes ring n j t) (enumerate 0 ts)))"
  using push_all_at [OF assms, of ring ts 0 tr] by (simp add: ring_pos_def round_cycle_def)

theorem ring_push_schedule_witness:
  "fst (push_all 0x1000 3 [(1, 2, 3, 0x400), (4, 5, 6, 0x800), (7, 8, 9, 0xC00)] (0, 1, [])) = 1"
  using ring_push_schedule [of 3 "0x1000" "[(1, 2, 3, 0x400), (4, 5, 6, 0x800), (7, 8, 9, 0xC00)]" "[]"] by simp

section \<open>Reports\<close>

text \<open>The characters a keyboard report adds: keys of the six places that were not in the report before.\<close>

definition new_keys :: "u8 list \<Rightarrow> usb_dev \<Rightarrow> char list" where
  "new_keys r d =
     filter (\<lambda>c. c \<noteq> NUL) (map (\<lambda>k. (if r ! 0 AND 0x22 \<noteq> 0 then hid_shift else hid_map) ! unat k)
       (filter (\<lambda>k. k \<noteq> 0 \<and> k < 128 \<and> \<not> in_prev d k) (map ((!) r) [2..<8])))"

lemma report_keys:
  "fold (\<lambda>i. report_key s d (r ! i)) is kb =
     fold buffer_push (filter (\<lambda>c. c \<noteq> NUL) (map (\<lambda>k. (if s then hid_shift else hid_map) ! unat k)
       (filter (\<lambda>k. k \<noteq> 0 \<and> k < 128 \<and> \<not> in_prev d k) (map ((!) r) is)))) kb"
  by (induction "is" arbitrary: kb) (simp_all add: report_key_def keyboard_inject_def Let_def)

lemma hid_report_kbd:
  assumes "is_kbd d"
  shows "hid_report r (d, kb, m) = (d\<lparr>ud_prev := r\<rparr>, fold buffer_push (new_keys r d) kb, m)"
  using assms by (simp only: hid_report_def prod.case report_keys new_keys_def Let_def if_True)

lemma new_keys_held: "new_keys r (d\<lparr>ud_prev := r\<rparr>) = []"
proof -
  have "in_prev (d\<lparr>ud_prev := r\<rparr>) (r ! i)" if "i \<in> {2..<8}" for i using that by (auto simp: in_prev_def)
  then have "filter (\<lambda>k. k \<noteq> 0 \<and> k < 128 \<and> \<not> in_prev (d\<lparr>ud_prev := r\<rparr>) k) (map ((!) r) [2..<8]) = []"
    by (simp add: filter_empty_conv)
  then show ?thesis unfolding new_keys_def by simp
qed

text \<open>
  C38: A report of a USB keyboard queues the characters of the keys that were not down in the
  report before, in the order of their places, as far as the queue has room; the same report
  again queues nothing, so a key that is held is typed once.
\<close>

theorem usb_keys_typed_once:
  assumes "kbd_inv kb" "is_kbd d" "hid_report r (d, kb, m) = (d', kb', m')"
  shows "kbd_keys kb' = take 127 (kbd_keys kb @ new_keys r d) \<and> m' = m \<and> hid_report r (d', kb', m') = (d', kb', m')"
proof -
  have e: "d' = d\<lparr>ud_prev := r\<rparr>" "kb' = fold buffer_push (new_keys r d) kb" "m' = m"
    using assms(2,3) by (simp_all add: hid_report_kbd)
  have "kbd_keys kb' = take 127 (kbd_keys kb @ new_keys r d)"
    using keys.puts [OF assms(1)] kbd_len_lt [of kb] e(2) by (simp add: kbd_keys_def)
  then show ?thesis using e assms(2) hid_report_kbd [of d' r kb' m'] new_keys_held by simp
qed

definition blank_usb :: usb_dev where
  "blank_usb = \<lparr>ud_used = False, ud_slot = 0, ud_port = 0, ep0_cyc = 0, ep0_enq = 0, epi_cyc = 0, epi_enq = 0,
     is_kbd = False, is_mouse = False, ep_dci = 0, ep_len = 0, ud_prev = replicate 8 0\<rparr>"

definition usb_keyboard :: usb_dev where
  "usb_keyboard = blank_usb\<lparr>ud_used := True, is_kbd := True\<rparr>"

theorem usb_keys_typed_once_witness:
  "kbd_keys (fst (snd (hid_report [2, 0, 0x0B, 0x0C, 0, 0, 0, 0] (usb_keyboard, fst (keyboard_init (blank_kbd, [])), blank_mouse)))) = ''HI''"
proof -
  let ?k = "fst (keyboard_init (blank_kbd, []))"
  have k: "kbd_inv ?k" "kbd_keys ?k = []"
    by (simp_all add: keyboard_init_def kbd_inv_def kbd_keys_def kbd_len_def blank_kbd_def)
  obtain d' kb' m' where r: "hid_report [2, 0, 0x0B, 0x0C, 0, 0, 0, 0] (usb_keyboard, ?k, blank_mouse) = (d', kb', m')" by (metis surj_pair)
  have two: "{2..<8 :: nat} = {2, 3, 4, 5, 6, 7}" by auto
  have "new_keys [2, 0, 0x0B, 0x0C, 0, 0, 0, 0] usb_keyboard = ''HI''"
    by (simp add: new_keys_def in_prev_def usb_keyboard_def blank_usb_def upt_rec two hid_shift_def keymap_def)
  then show ?thesis using usb_keys_typed_once [OF k(1) _ r] r k(2) by (simp add: usb_keyboard_def)
qed

section \<open>Polling\<close>

text \<open>
  Ring positions are inside their rings; every device has a report of eight bytes, a slot number of
  eight bits and an endpoint index the contexts have room for.
\<close>

definition usb_dev_ok :: "usb_dev \<Rightarrow> bool" where
  "usb_dev_ok d \<longleftrightarrow> ep0_enq d < EP0_TRBS - 1 \<and> epi_enq d < EPI_TRBS - 1 \<and> length (ud_prev d) = 8 \<and>
     ud_slot d < 256 \<and> ep_dci d < 32"

definition xhci_inv :: "xhci \<Rightarrow> bool" where
  "xhci_inv x \<longleftrightarrow> length (devs x) = MAX_DEV \<and> (\<forall>d \<in> set (devs x). usb_dev_ok d) \<and> evt_deq x < EVT_TRBS \<and> cmd_enq x < CMD_TRBS - 1"

lemma xhci_inv_io [simp]: "xhci_inv (x\<lparr>x_io := tr\<rparr>) = xhci_inv x" "xhci_inv (mw b off v x) = xhci_inv x"
  by (simp_all add: xhci_inv_def mw_def)

lemma mr_keeps: "mr dev b off x = (v, x') \<Longrightarrow> x' = x\<lparr>x_io := x_io x'\<rparr>"
  by (auto simp: mr_def case_prod_unfold Let_def)

lemma evt_peek_keeps: "evt_peek dev L x = (e, x') \<Longrightarrow> x' = x\<lparr>x_io := x_io x'\<rparr>"
  by (auto simp: evt_peek_def mr_def case_prod_unfold Let_def split: if_splits)

lemma evt_next_inv: "xhci_inv x \<Longrightarrow> xhci_inv (evt_next L x)"
proof -
  assume x: "xhci_inv x"
  then have d: "unat (evt_deq x) < 64" by (simp add: xhci_inv_def EVT_TRBS_def word_less_nat_alt)
  then have "unat (evt_deq x + 1) = unat (evt_deq x) + 1" by (simp add: unat_Suc_u32)
  then have "evt_deq x + 1 \<noteq> EVT_TRBS \<Longrightarrow> evt_deq x + 1 < EVT_TRBS"
    using d by (simp add: EVT_TRBS_def word_less_nat_alt word_unat_eq_iff)
  then show ?thesis using x by (auto simp: evt_next_def Let_def xhci_inv_def mw_def EVT_TRBS_def)
qed

lemma set_dev_inv:
  assumes "xhci_inv x" "i < MAX_DEV" "usb_dev_ok (f (devs x ! i))"
  shows "xhci_inv (set_dev i f x)"
  using assms set_update_subset_insert [of "devs x" i "f (devs x ! i)"] by (auto simp: xhci_inv_def set_dev_def)

lemma devs_ok: "xhci_inv x \<Longrightarrow> i < MAX_DEV \<Longrightarrow> usb_dev_ok (devs x ! i)"
  by (simp add: xhci_inv_def)

lemma ring_push_enq:
  assumes "enq < n - 1" "ring_push ring n lo hi status ctl (enq, cyc, tr) = (enq', cyc', tr')"
  shows "enq' < n - 1"
proof -
  have "unat enq < unat (n - 1)" using assms(1) by (simp add: word_less_nat_alt)
  moreover from this have "unat (enq + 1) = Suc (unat enq)"
    by (intro unat_Suc_u32) (use unat_u32_less [of "n - 1"] in linarith)
  ultimately have "enq + 1 \<noteq> n - 1 \<Longrightarrow> enq + 1 < n - 1"
    by (metis Suc_lessI word_less_nat_alt word_unat_eq_iff)
  moreover have "0 < n - 1" using assms(1) by (metis word_not_simps(1) word_gt_0)
  ultimately show ?thesis using assms(2) by (auto simp: ring_push_def Let_def split: if_splits)
qed

lemma push_inv:
  assumes "xhci_inv x"
  shows "i < MAX_DEV \<Longrightarrow> xhci_inv (push_epi L i lo hi st ctl x)" "i < MAX_DEV \<Longrightarrow> xhci_inv (push_ep0 L i lo hi st ctl x)"
    and "xhci_inv (push_cmd L lo hi ctl x)"
proof -
  show "xhci_inv (push_epi L i lo hi st ctl x)" if "i < MAX_DEV"
    using assms devs_ok [OF assms that] that ring_push_enq [of "epi_enq (devs x ! i)" EPI_TRBS]
    by (auto simp: push_epi_def Let_def usb_dev_ok_def split: prod.split intro!: set_dev_inv)
  show "xhci_inv (push_ep0 L i lo hi st ctl x)" if "i < MAX_DEV"
    using assms devs_ok [OF assms that] that ring_push_enq [of "ep0_enq (devs x ! i)" EP0_TRBS]
    by (auto simp: push_ep0_def Let_def usb_dev_ok_def split: prod.split intro!: set_dev_inv)
  show "xhci_inv (push_cmd L lo hi ctl x)"
    using assms ring_push_enq [of "cmd_enq x" CMD_TRBS]
    by (auto simp: push_cmd_def xhci_inv_def split: prod.split)
qed

lemma doorbell_inv [simp]: "xhci_inv (ring_doorbell s t x) = xhci_inv x"
  by (simp add: ring_doorbell_def)

lemma arm_inv: "xhci_inv x \<Longrightarrow> i < MAX_DEV \<Longrightarrow> xhci_inv (arm_interrupt L i x)"
  by (simp add: arm_interrupt_def Let_def push_inv)

text \<open>What the driver hands to the other drivers: keys at the end of the queue, movements of the pointer.\<close>

definition injects :: "(int \<times> int \<times> int) list \<Rightarrow> mouse \<Rightarrow> mouse" where
  "injects = fold (\<lambda>(dx, dy, b). mouse_inject dx dy b)"

definition feeds :: "kbd \<times> mouse \<Rightarrow> kbd \<times> mouse \<Rightarrow> bool" where
  "feeds = (\<lambda>(kb, m) (kb', m'). (\<exists>cs. kb' = fold buffer_push cs kb) \<and> (\<exists>ms. m' = injects ms m))"

lemma feeds_inv:
  assumes "feeds (kb, m) (kb', m')"
  shows "kbd_inv kb \<Longrightarrow> kbd_inv kb'" "mouse_inv w h m \<Longrightarrow> 0 < w \<Longrightarrow> 0 < h \<Longrightarrow> mouse_inv w h m'"
proof -
  obtain cs ms where e: "kb' = fold buffer_push cs kb" "m' = injects ms m" using assms by (auto simp: feeds_def)
  show "kbd_inv kb'" if "kbd_inv kb" using that unfolding e by (induction cs arbitrary: kb) (simp_all add: buffer_push_inv)
  show "mouse_inv w h m'" if "mouse_inv w h m" "0 < w" "0 < h"
    using that unfolding e by (induction ms arbitrary: m) (auto simp: injects_def mouse_inject_inv)
qed

lemma feeds_refl [simp]: "feeds (kb, m) (kb, m)"
  unfolding feeds_def by (auto simp: injects_def intro: exI [of _ "[]"])

lemma feeds_trans:
  assumes "feeds (kb, m) (kb1, m1)" "feeds (kb1, m1) (kb2, m2)"
  shows "feeds (kb, m) (kb2, m2)"
proof -
  obtain cs cs' ms ms' where "kb1 = fold buffer_push cs kb" "kb2 = fold buffer_push cs' kb1" "m1 = injects ms m" "m2 = injects ms' m1"
    using assms by (auto simp: feeds_def)
  then have "kb2 = fold buffer_push (cs @ cs') kb" "m2 = injects (ms @ ms') m" by (simp_all add: injects_def)
  then show ?thesis unfolding feeds_def by blast
qed

lemma hid_report_feeds:
  assumes "hid_report r (d, kb, m) = (d', kb', m')" "length r = 8" "usb_dev_ok d"
  shows "usb_dev_ok d'" "feeds (kb, m) (kb', m')"
proof -
  have "usb_dev_ok d' \<and> feeds (kb, m) (kb', m')"
  proof (cases "is_kbd d")
    case True
    then show ?thesis using assms(1-3) hid_report_kbd [OF True, of r kb m] by (auto simp: usb_dev_ok_def feeds_def injects_def intro: exI [of _ "[]"])
  next
    case False
    then have "d' = d \<and> kb' = kb \<and> (m' = m \<or> m' = mouse_inject (sint (r ! 1)) (sint (r ! 2)) (uint (r ! 0)) m)"
      using assms(1) by (simp add: hid_report_def split: if_splits)
    then show ?thesis using assms(3) by (auto simp: feeds_def injects_def intro: exI [of _ "[]"] exI [of _ "[(sint (r ! 1), sint (r ! 2), uint (r ! 0))]"])
  qed
  then show "usb_dev_ok d'" "feeds (kb, m) (kb', m')" by simp_all
qed

lemma hid_handle_feeds:
  assumes "hid_handle dev L i (x, kb, m) = (x', kb', m')" "xhci_inv x" "i < MAX_DEV"
  shows "xhci_inv x'" "feeds (kb, m) (kb', m')"
proof -
  define r where "r = map (\<lambda>j. dma8 dev (hid_buf L i) x (of_nat j)) [0..<8]"
  obtain d kb1 m1 where h: "hid_report r (devs x ! i, kb, m) = (d, kb1, m1)" by (metis surj_pair)
  have e: "x' = set_dev i (\<lambda>_. d) x" "kb' = kb1" "m' = m1"
    using assms(1) unfolding hid_handle_def prod.case Let_def r_def [symmetric] h by simp_all
  have "length r = 8" by (simp add: r_def)
  note f = hid_report_feeds [OF h this devs_ok [OF assms(2,3)]]
  show "xhci_inv x'" "feeds (kb, m) (kb', m')" using f set_dev_inv [OF assms(2,3)] by (simp_all add: e)
qed

lemma event_dev_bound: "event_dev slot x = Some i \<Longrightarrow> i < MAX_DEV"
  by (auto simp: event_dev_def find_Some_iff)

lemma usb_poll_loop_feeds:
  assumes "xhci_inv x" "usb_poll_loop dev L n (x, kb, m) = (x', kb', m')"
  shows "xhci_inv x' \<and> feeds (kb, m) (kb', m')"
  using assms
proof (induction n arbitrary: x kb m)
  case (Suc n)
  obtain e x1 where p: "evt_peek dev L x = (e, x1)" by fastforce
  have x1: "xhci_inv x1" using Suc.prems(1) evt_peek_keeps [OF p] by (metis xhci_inv_io(1))
  show ?case
  proof (cases e)
    case None
    then show ?thesis using Suc.prems(2) p x1 by simp
  next
    case (Some t)
    obtain type c slot where t: "t = (type, c, slot)" by (cases t)
    let ?x = "evt_next L x1"
    have xn: "xhci_inv ?x" using x1 by (rule evt_next_inv)
    show ?thesis
    proof (cases "type = TRB_TRANSFER_EVT \<and> event_dev slot ?x \<noteq> None")
      case False
      then show ?thesis using Suc.IH [OF xn, of kb m] Suc.prems(2) p Some t by (auto simp: Let_def split: option.splits)
    next
      case True
      then obtain i where i: "event_dev slot ?x = Some i" by auto
      obtain x2 kb2 m2 where h: "hid_handle dev L i (?x, kb, m) = (x2, kb2, m2)" by (metis surj_pair)
      note f = hid_handle_feeds [OF h xn event_dev_bound [OF i]]
      show ?thesis using Suc.IH [OF arm_inv [OF f(1) event_dev_bound [OF i]], of L kb2 m2] Suc.prems(2) p Some t True i h f(2)
          feeds_trans by (auto simp: Let_def)
    qed
  qed
qed simp

lemma usb_poll_feeds:
  assumes "xhci_inv x" "usb_poll dev L (x, kb, m) = (x', kb', m')"
  shows "xhci_inv x'" "feeds (kb, m) (kb', m')"
proof -
  have "xhci_inv x' \<and> feeds (kb, m) (kb', m')"
    using usb_poll_loop_feeds [OF assms(1), of dev L 64 kb m] assms by (auto simp: usb_poll_def split: if_splits)
  then show "xhci_inv x'" "feeds (kb, m) (kb', m')" by simp_all
qed

section \<open>The configuration descriptor\<close>

definition conf_ok :: "hid_conf \<Rightarrow> bool" where
  "conf_ok p \<longleftrightarrow> hc_dci p = 0 \<or> hc_dci p < 32 \<and> bit (hc_dci p) 0 \<and> 0 < hc_len p \<and> hc_len p \<le> 8 \<and> (hc_kbd p \<or> hc_mouse p)"

lemma in_endpoint: "(a AND 0xF) * 2 + 1 < (32 :: u8) \<and> bit ((a AND 0xF) * 2 + 1 :: u8) 0"
proof -
  have "take_bit 4 a = a AND 0xF" using take_bit_eq_mask [of 4 a] by (simp add: mask_eq_exp_minus_1)
  then have "unat (a AND 0xF) < 16" using take_bit_nat_less_exp [of 4 "unat a"] by (metis numeral_code(2) unsigned_take_bit_eq power_numeral pow.simps(1,2) sqr.simps(1,2) num.inject)
  then show ?thesis by (simp add: word_less_nat_alt unat_word_ariths bit_0 even_word_iff)
qed

lemma parse_desc_ok: "conf_ok p \<Longrightarrow> conf_ok (parse_desc cfg off typ p)"
  using in_endpoint [of "cfg (off + 2)"] by (auto simp: parse_desc_def Let_def conf_ok_def word_gt_0)

lemma parse_config_ok: "conf_ok p \<Longrightarrow> conf_ok (parse_config cfg all off p)"
proof (induction cfg all off p rule: parse_config.induct)
  case (1 cfg all off p)
  then show ?case using parse_desc_ok by (subst parse_config.simps) (simp add: Let_def)
qed

text \<open>
  C40: The parser looks at bytes beyond the descriptor it is given: two configurations that agree
  on the 512 bytes of the buffer, read to their end, are classified differently.
\<close>

theorem parse_config_reads_past_buffer:
  "\<exists>cfg cfg'. map (\<lambda>i. cfg (of_nat i)) [0..<512] = map (\<lambda>i. cfg' (of_nat i)) [0..<512] \<and>
     hc_kbd (parse_config cfg 512 0 conf_static) \<noteq> hc_kbd (parse_config cfg' 512 0 conf_static)"
proof -
  define cfg where "cfg = (\<lambda>kind :: u8. (\<lambda>_. 0) (0 := 255, 255 := 255, 510 := 9, 511 := 4, 515 := 3, 517 := kind) :: u32 \<Rightarrow> u8)"
  have p: "hc_kbd (parse_config (cfg kind) 512 0 conf_static) = (kind = 1)" for kind
    by (simp add: parse_config.simps cfg_def parse_desc_def conf_static_def Let_def)
  have "cfg 1 off = cfg 2 off" if "off < 512" for off using that by (auto simp: cfg_def)
  then have "map (\<lambda>i. cfg 1 (of_nat i)) [0..<512] = map (\<lambda>i. cfg 2 (of_nat i)) [0..<512]"
    by (intro map_cong refl) (simp add: word_less_nat_alt unat_of_nat_u32)
  moreover have "hc_kbd (parse_config (cfg 1) 512 0 conf_static) \<noteq> hc_kbd (parse_config (cfg 2) 512 0 conf_static)"
    using p [of 1] p [of 2] by simp
  ultimately show ?thesis by blast
qed

section \<open>What the driver writes for a device\<close>

text \<open>A write of the whole access inside the array of \<open>n\<close> bytes at \<open>b\<close>.\<close>

fun writes_in :: "u32 \<Rightarrow> nat \<Rightarrow> port_event \<Rightarrow> bool" where
  "writes_in b n (Wr8 a v) \<longleftrightarrow> unat (a - b) + 1 \<le> n"
| "writes_in b n (Wr32 a v) \<longleftrightarrow> unat (a - b) + 4 \<le> n"
| "writes_in b n (Wr64 a v) \<longleftrightarrow> unat (a - b) + 8 \<le> n"
| "writes_in b n e \<longleftrightarrow> False"

definition adds :: "(port_event \<Rightarrow> bool) \<Rightarrow> io \<Rightarrow> io \<Rightarrow> bool" where
  "adds P tr tr' \<longleftrightarrow> (\<exists>es. tr' = tr @ es \<and> (\<forall>e \<in> set es. P e))"

lemma adds_refl [simp]: "adds P tr tr"
  by (simp add: adds_def)

lemma adds_one: "adds P tr tr' \<Longrightarrow> P e \<Longrightarrow> adds P tr (tr' @ [e])"
  by (auto simp: adds_def)

lemma adds_wr:
  "adds P tr tr' \<Longrightarrow> P (Wr8 a v8) \<Longrightarrow> adds P tr (wr_m8 a v8 tr')"
  "adds P tr tr' \<Longrightarrow> P (Wr32 a v32) \<Longrightarrow> adds P tr (wr_m32 a v32 tr')"
  "adds P tr tr' \<Longrightarrow> P (Wr64 a v64) \<Longrightarrow> adds P tr (wr_m64 a v64 tr')"
  unfolding wr_m8_def wr_m32_def wr_m64_def by (rule adds_one; assumption)+

lemma adds_fold: "adds P tr tr' \<Longrightarrow> (\<And>i t. i \<in> set is \<Longrightarrow> adds P tr t \<Longrightarrow> adds P tr (f i t)) \<Longrightarrow> adds P tr (fold f is tr')"
  by (induction "is" arbitrary: tr') simp_all

lemma adds_mono: "adds P tr tr' \<Longrightarrow> P \<le> Q \<Longrightarrow> adds Q tr tr'"
  by (auto simp: adds_def)

lemma adds_rd: "adds P tr tr' \<Longrightarrow> P (Rd32 a v) \<Longrightarrow> adds P tr (tr' @ [Rd32 a v])"
  by (rule adds_one)

text \<open>The contexts and rings of the device at \<open>i\<close>.\<close>

definition dev_arrays :: "xhci_layout \<Rightarrow> nat \<Rightarrow> port_event \<Rightarrow> bool" where
  "dev_arrays L i e \<longleftrightarrow> writes_in (in_ctx L i) 2112 e \<or> writes_in (dev_ctx L i) 2048 e \<or> writes_in (ep0_ring L i) 256 e \<or>
     writes_in (epi_ring L i) 256 e"

lemma cset_inside:
  assumes "ctx_size x = 32 \<or> ctx_size x = 64" "unat ci \<le> 32" "unat dw \<le> 4" "dev_arrays L i \<le> P" "adds P tr (x_io x)"
  shows "adds P tr (x_io (cset (in_ctx L i) ci dw v x))"
proof -
  obtain c where c: "ctx_size x = c" "unat c \<le> 64" using assms(1) by auto
  have "unat (ci * c + dw * 4) \<le> unat (ci * c) + unat (dw * 4)" "unat (ci * c) \<le> unat ci * unat c" "unat (dw * 4) \<le> unat dw * 4"
    by (simp_all add: unat_word_ariths)
  moreover have "unat ci * unat c \<le> 32 * 64" using assms(2) c(2) by (rule mult_le_mono)
  ultimately have "unat (ci * c + dw * 4) + 4 \<le> 2112" using assms(3) by linarith
  moreover have "in_ctx L i + ci * c + dw * 4 - in_ctx L i = ci * c + dw * 4" by simp
  ultimately have "dev_arrays L i (Wr32 (in_ctx L i + ci * c + dw * 4) v)" unfolding dev_arrays_def writes_in.simps by metis
  then show ?thesis using assms(4,5) by (auto simp: cset_def c(1) le_fun_def intro!: adds_wr)
qed

lemma inside_array: "k < n \<Longrightarrow> n \<le> 4096 \<Longrightarrow> unat (b + of_nat k - b :: u32) + 1 \<le> n"
  by (simp add: unat_of_nat_u32)

lemma ctx_zero_inside:
  assumes "ctx_size x = 32 \<or> ctx_size x = 64" "dev_arrays L i \<le> P" "adds P tr (x_io x)"
  shows "adds P tr (x_io (ctx_zero (in_ctx L i) 33 x))" "adds P tr (x_io (ctx_zero (dev_ctx L i) 32 x))"
proof -
  have "dev_arrays L i (Wr8 (in_ctx L i + of_nat j) 0)" if "j < 33 * unat (ctx_size x)" for j
    using assms(1) that inside_array [of j 2112 "in_ctx L i"] by (auto simp: dev_arrays_def)
  then show "adds P tr (x_io (ctx_zero (in_ctx L i) 33 x))"
    using assms(2,3) by (auto simp: ctx_zero_def le_fun_def intro!: adds_fold adds_wr)
  have "dev_arrays L i (Wr8 (dev_ctx L i + of_nat j) 0)" if "j < 32 * unat (ctx_size x)" for j
    using assms(1) that inside_array [of j 2048 "dev_ctx L i"] by (auto simp: dev_arrays_def)
  then show "adds P tr (x_io (ctx_zero (dev_ctx L i) 32 x))"
    using assms(2,3) by (auto simp: ctx_zero_def le_fun_def intro!: adds_fold adds_wr)
qed

lemma ring_link_inside:
  assumes "ring = ep0_ring L i \<or> ring = epi_ring L i" "dev_arrays L i \<le> P" "adds P tr tr'"
  shows "adds P tr (ring_link ring 16 cyc tr')"
proof -
  have w: "P (Wr32 (ring + off) v)" if "unat off + 4 \<le> 256" for off v
    using assms(1,2) that by (auto simp: dev_arrays_def le_fun_def)
  have t: "unat (of_nat j * 16 + d :: u32) + 4 \<le> 256" if "j < 16" "unat d \<le> 12" for j d
  proof -
    have "unat (of_nat j * 16 + d :: u32) \<le> unat (of_nat j * 16 :: u32) + unat d" "unat (of_nat j * 16 :: u32) \<le> j * 16"
      using that(1) by (simp_all add: unat_word_ariths unat_of_nat_u32)
    then show ?thesis using that by linarith
  qed
  have z: "adds P tr (trb_zero (trb_addr ring (of_nat j)) tr1)" if "j < 16" "adds P tr tr1" for j tr1
    using w [OF t [OF that(1), of 0]] w [OF t [OF that(1), of 4]] w [OF t [OF that(1), of 8]] w [OF t [OF that(1), of 12]] that(2)
    by (simp add: trb_zero_def trb_addr_def adds_wr add.assoc)
  have "adds P tr (ring_zero ring 16 tr')" unfolding ring_zero_def
    by (rule adds_fold [OF assms(3)]) (use z in simp)
  then show ?thesis using w [of 240] w [of 252]
    by (simp add: ring_link_def trb_addr_def adds_wr Let_def add.assoc)
qed

lemma set_dev_io [simp]: "x_io (set_dev i f x) = x_io x" "ctx_size (set_dev i f x) = ctx_size x"
    "ctx_size (cset b ci dw v x) = ctx_size x" "ctx_size (ctx_zero b n x) = ctx_size x"
    "devs (cset b ci dw v x) = devs x" "devs (ctx_zero b n x) = devs x" "devs (x\<lparr>x_io := tr\<rparr>) = devs x"
  by (simp_all add: set_dev_def cset_def ctx_zero_def)

definition xhci_static :: xhci where
  "xhci_static = \<lparr>devs = replicate 4 blank_usb, capb = 0, opb = 0, rtb = 0, dbb = 0, maxports = 0, maxslots = 0, ctx_size = 0,
     cmd_cyc = 1, cmd_enq = 0, evt_cyc = 1, evt_deq = 0, x_present = False, x_io = []\<rparr>"

definition dma_layout :: xhci_layout where
  "dma_layout = \<lparr>dcbaa = 0x200000, cmd_ring = 0x201000, evt_ring = 0x202000, erst = 0x203000, scratch_arr = 0x204000,
     scratch_buf = 0x205000, dev_ctx_base = 0x230000, in_ctx_base = 0x240000, ep0_ring_base = 0x250000, epi_ring_base = 0x251000,
     ctl_buf_base = 0x252000, hid_buf_base = 0x253000\<rparr>"

section \<open>The driver stays inside its memory and registers\<close>

named_theorems usb_inside \<open>operations that write inside the driver's area\<close>

lemma fmt_ok_x [simp]: "fmt_ok (CHR ''%'' # CHR ''x'' # f) (KNum v # args) = fmt_ok f args"
proof -
  obtain t where "print_uint v 16 False 0 = Some t" using print_uint_Some [of 16 0 v False] by auto
  then show ?thesis by (intro fmt_ok_directive [where t = t]) (simp_all add: convert_def)
qed

lemma fmt_ok_02d [simp]: "fmt_ok (CHR ''%'' # CHR ''0'' # CHR ''2'' # CHR ''d'' # f) (KNum v # args) = fmt_ok f args"
proof -
  obtain t where "print_int v = Some t" using print_int_Some by blast
  moreover have "parse_width (CHR ''0'' # CHR ''2'' # CHR ''d'' # f) = (2, CHR ''d'' # f)"
    by (simp add: parse_width_def is_digit_def)
  ultimately show ?thesis
    by (simp add: fmt_ok_def kformat.simps [of "CHR ''%'' # CHR ''0'' # CHR ''2'' # CHR ''d'' # f"] convert_def)
qed

text \<open>
  What the driver may access: reads; its contexts and rings, a slot table of \<open>n\<close> places, the command ring; the
  command and port registers, the doorbells and the event ring's dequeue pointer.
\<close>

definition usb_area :: "xhci_layout \<Rightarrow> nat \<Rightarrow> xhci \<Rightarrow> port_event \<Rightarrow> bool" where
  "usb_area L n x e \<longleftrightarrow> (\<exists>a v. e = Rd32 a v) \<or> (\<exists>i < MAX_DEV. dev_arrays L i e) \<or> writes_in (dcbaa L) (8 * n) e \<or>
     writes_in (cmd_ring L) 1024 e \<or> writes_in (opb x) 4 e \<or> writes_in (opb x + 0x400) 4080 e \<or> writes_in (dbb x) 1024 e \<or>
     writes_in (rtb x + (IR0 + IR_ERDP)) 8 e"

text \<open>\<open>x\<close> comes from \<open>x0\<close> by accesses inside the area, with the registers where they were.\<close>

definition inside :: "xhci_layout \<Rightarrow> nat \<Rightarrow> xhci \<Rightarrow> xhci \<Rightarrow> bool" where
  "inside L n x0 x \<longleftrightarrow> xhci_inv x \<and> (ctx_size x = 32 \<or> ctx_size x = 64) \<and> opb x = opb x0 \<and> rtb x = rtb x0 \<and> dbb x = dbb x0 \<and>
     maxports x = maxports x0 \<and> adds (usb_area L n x0) (x_io x0) (x_io x)"

lemma dev_area: "i < MAX_DEV \<Longrightarrow> dev_arrays L i \<le> usb_area L n x"
  by (auto simp: usb_area_def)

lemma insideD:
  assumes "inside L n x0 x"
  shows "xhci_inv x" "ctx_size x = 32 \<or> ctx_size x = 64" "opb x = opb x0" "rtb x = rtb x0" "dbb x = dbb x0"
    "adds (usb_area L n x0) (x_io x0) (x_io x)" "maxports x = maxports x0"
  using assms by (simp_all add: inside_def)

lemma inside_io: "inside L n x0 x \<Longrightarrow> adds (usb_area L n x0) (x_io x0) tr \<Longrightarrow> inside L n x0 (x\<lparr>x_io := tr\<rparr>)"
  by (simp add: inside_def)

lemma inside_dev:
  "inside L n x0 x \<Longrightarrow> i < MAX_DEV \<Longrightarrow> (\<And>d. usb_dev_ok d \<Longrightarrow> usb_dev_ok (f d)) \<Longrightarrow> inside L n x0 (set_dev i f x)"
  by (simp add: inside_def set_dev_inv devs_ok) (simp add: set_dev_def)

lemma mr_inside [usb_inside]: "inside L n x0 x \<Longrightarrow> inside L n x0 (snd (mr dev b off x))"
  by (auto simp: mr_def rd_m32_def Let_def usb_area_def intro!: inside_io adds_rd insideD(6))

lemma mw_inside: "inside L n x0 x \<Longrightarrow> usb_area L n x0 (Wr32 (b + off) v) \<Longrightarrow> inside L n x0 (mw b off v x)"
  unfolding mw_def by (intro inside_io adds_wr(2) insideD(6))

lemma wait_reg_inside [usb_inside]: "inside L n x0 x \<Longrightarrow> inside L n x0 (snd (wait_reg dev b off ok k x))"
  by (induction k arbitrary: x) (use mr_inside in \<open>auto simp: Let_def case_prod_unfold\<close>)

lemma evt_peek_inside: "inside L n x0 x \<Longrightarrow> evt_peek dev L' x = (e, x') \<Longrightarrow> inside L n x0 x'"
  unfolding evt_peek_def Let_def case_prod_unfold by (auto split: if_splits intro!: mr_inside)

lemma evt_next_inside [usb_inside]:
  assumes "inside L n x0 x"
  shows "inside L n x0 (evt_next L' x)"
proof -
  have "usb_area L n x0 (Wr32 (rtb x0 + (IR0 + IR_ERDP)) v)" "usb_area L n x0 (Wr32 (rtb x0 + (IR0 + IR_ERDP + 4)) v)" for v
    by (simp_all add: usb_area_def)
  then show ?thesis using insideD [OF assms] evt_next_inv [of x L']
    by (simp add: inside_def) (simp add: evt_next_def mw_def Let_def adds_wr)
qed

lemma wait_event_loop_inside: "inside L n x0 x \<Longrightarrow> inside L n x0 (snd (wait_event_loop dev L' want k x))"
proof (induction k arbitrary: x)
  case (Suc k)
  obtain e x1 where p: "evt_peek dev L' x = (e, x1)" by fastforce
  from evt_peek_inside [OF Suc.prems p] show ?case using Suc.IH evt_next_inside by (auto simp: p Let_def split: option.split)
qed simp

lemma wait_event_inside [usb_inside]: "inside L n x0 x \<Longrightarrow> inside L n x0 (snd (wait_event dev L' want x))"
  unfolding wait_event_def by (rule wait_event_loop_inside)

text \<open>Doorbells of eight-bit slot numbers.\<close>

lemma doorbell_inside:
  assumes "inside L n x0 x" "slot < 256"
  shows "inside L n x0 (ring_doorbell slot t x)"
proof -
  have "unat (slot * 4) + 4 \<le> 1024" using assms(2) by (simp add: unat_word_ariths word_less_nat_alt)
  then have "usb_area L n x0 (Wr32 (dbb x + slot * 4) t)" by (simp add: usb_area_def insideD(5) [OF assms(1)])
  then show ?thesis unfolding ring_doorbell_def by (rule mw_inside [OF assms(1)])
qed

lemma unat_pred: "0 < (p :: u32) \<Longrightarrow> unat (p - 1) = unat p - 1"
  by (simp add: unat_minus_one word_gt_0)

text \<open>A TRB goes to the ring's own bytes.\<close>

lemma ring_push_inside:
  assumes "adds P tr0 tr" "enq < n - 1" "0 < n" "n < 4096" "\<And>off v. unat off + 4 \<le> unat n * 16 \<Longrightarrow> P (Wr32 (ring + off) v)"
    "ring_push ring n lo hi status ctl (enq, cyc, tr) = (enq', cyc', tr')"
  shows "adds P tr0 tr'"
proof -
  have n: "unat n < 4096" "unat (n - 1) = unat n - 1" using assms(3,4) by (simp_all add: unat_pred) (simp add: word_less_nat_alt)
  have w: "P (Wr32 (ring + k * 16 + d) v)" if "unat k < unat n" "unat d \<le> 12" for k d v
  proof -
    have "unat (k * 16 + d) \<le> unat (k * 16) + unat d" "unat (k * 16) \<le> unat k * 16" by (simp_all add: unat_word_ariths)
    then have "unat (k * 16 + d) + 4 \<le> unat n * 16" using that by linarith
    from assms(5) [OF this] show ?thesis by (simp add: add.assoc)
  qed
  have e: "unat enq < unat n" "unat (n - 1) < unat n" using assms(2) n by (simp_all add: word_less_nat_alt)
  have "tr' = (let t = ring + enq * 16; u = wr_m32 (t + 12) (ctl OR cyc) (wr_m32 (t + 8) status (wr_m32 (t + 4) hi (wr_m32 t lo tr)))
      in if enq + 1 = n - 1 then wr_m32 (ring + (n - 1) * 16 + 12) (link_control cyc) u else u)"
    using assms(6) by (auto simp: ring_push_def trb_addr_def Let_def split: if_splits)
  then show ?thesis using w [OF e(1), of 0] w [OF e(1), of 4] w [OF e(1), of 8] w [OF e(1), of 12] w [OF e(2), of 12] assms(1)
    by (simp add: Let_def adds_wr)
qed

lemma push_inside:
  assumes "inside L n x0 x"
  shows "inside L n x0 (push_cmd L lo hi ctl x)"
    and "i < MAX_DEV \<Longrightarrow> inside L n x0 (push_ep0 L i lo hi st ctl x)"
    and "i < MAX_DEV \<Longrightarrow> inside L n x0 (push_epi L i lo hi st ctl x)"
proof -
  note x = insideD [OF assms]
  have c: "usb_area L n x0 (Wr32 (cmd_ring L + off) v)" if "unat off + 4 \<le> 64 * 16" for off v
    using that by (simp add: usb_area_def)
  have "cmd_enq x < CMD_TRBS - 1" using x(1) by (simp add: xhci_inv_def)
  then have "adds (usb_area L n x0) (x_io x0) (x_io (push_cmd L lo hi ctl x))"
    unfolding push_cmd_def
    by (auto split: prod.split intro!: ring_push_inside [where ring = "cmd_ring L" and n = CMD_TRBS, OF x(6)] c simp: CMD_TRBS_def)
  then show "inside L n x0 (push_cmd L lo hi ctl x)" using x push_inv(3) [OF x(1)]
    by (simp add: inside_def) (simp add: push_cmd_def split: prod.split)
  assume i: "i < MAX_DEV"
  have d: "ep0_enq (devs x ! i) < EP0_TRBS - 1" "epi_enq (devs x ! i) < EPI_TRBS - 1"
    using devs_ok [OF x(1) i] by (simp_all add: usb_dev_ok_def)
  have r: "usb_area L n x0 (Wr32 (ring + off) v)" if "unat off + 4 \<le> 16 * 16" "ring = ep0_ring L i \<or> ring = epi_ring L i" for ring off v
    using that i by (auto simp: usb_area_def dev_arrays_def)
  have "adds (usb_area L n x0) (x_io x0) (x_io (push_ep0 L i lo hi st ctl x))"
    unfolding push_ep0_def Let_def using d(1)
    by (auto split: prod.split intro!: ring_push_inside [where ring = "ep0_ring L i" and n = EP0_TRBS, OF x(6)] r simp: EP0_TRBS_def)
  then show "inside L n x0 (push_ep0 L i lo hi st ctl x)" using x push_inv(2) [OF x(1) i]
    by (simp add: inside_def) (simp add: push_ep0_def set_dev_def Let_def split: prod.split)
  have "adds (usb_area L n x0) (x_io x0) (x_io (push_epi L i lo hi st ctl x))"
    unfolding push_epi_def Let_def using d(2)
    by (auto split: prod.split intro!: ring_push_inside [where ring = "epi_ring L i" and n = EPI_TRBS, OF x(6)] r simp: EPI_TRBS_def)
  then show "inside L n x0 (push_epi L i lo hi st ctl x)" using x push_inv(1) [OF x(1) i]
    by (simp add: inside_def) (simp add: push_epi_def set_dev_def Let_def split: prod.split)
qed

lemma cmd_submit_inside [usb_inside]: "inside L n x0 x \<Longrightarrow> inside L n x0 (snd (snd (cmd_submit dev L lo hi ctl x)))"
  using wait_event_inside [of L n x0 "ring_doorbell 0 0 (push_cmd L lo hi ctl x)" dev L TRB_CMD_COMPLETE]
  by (auto simp: cmd_submit_def Let_def push_inside doorbell_inside split: prod.split option.split)

lemma completion_inside:
  "inside L n x0 x \<Longrightarrow>
    inside L n x0 (snd (case wait_event dev L want x of (None, x) \<Rightarrow> (0, x) | (Some (cc, _), x) \<Rightarrow> (if cc \<noteq> 0 then cc else 1 :: u32, x)))"
  using wait_event_inside [of L n x0 x dev L want] by (auto split: prod.split option.split)

lemma inside_slot: "inside L n x0 x \<Longrightarrow> i < MAX_DEV \<Longrightarrow> ud_slot (devs x ! i) < 256"
  using devs_ok [OF insideD(1)] by (simp add: usb_dev_ok_def)

lemma control_xfer_inside [usb_inside]:
  assumes "inside L n x0 x" "i < MAX_DEV"
  shows "inside L n x0 (snd (control_xfer dev L i bmRT bReq wVal wIdx wLen dir x))"
proof -
  have p: "inside L n x0 (ring_doorbell (ud_slot (devs y ! i)) 1 y)" if "inside L n x0 y" for y
    using that inside_slot [OF that assms(2)] by (rule doorbell_inside)
  show ?thesis unfolding control_xfer_def Let_def
    by (rule completion_inside, rule p) (use assms in \<open>simp add: push_inside\<close>)
qed

lemma arm_inside: "inside L n x0 x \<Longrightarrow> i < MAX_DEV \<Longrightarrow> inside L n x0 (arm_interrupt L i x)"
  unfolding arm_interrupt_def Let_def by (rule doorbell_inside; (rule inside_slot)?; (rule push_inside)?; assumption)

text \<open>The ports the controller has are 1 to 255.\<close>

lemma port_reset_inside [usb_inside]:
  assumes "inside L n x0 x" "0 < p" "p < 256"
  shows "inside L n x0 (snd (port_reset dev p x))"
proof -
  define q where "q = p - 1"
  have "unat q < 255" using assms(2,3) unfolding q_def unat_pred [OF assms(2)] by (simp add: word_less_nat_alt)
  moreover have "unat (q * 16) \<le> unat q * 16" by (simp add: unat_word_ariths)
  moreover have e: "opb x0 + OP_PORTSC p - (opb x0 + 0x400) = q * 16" by (simp add: OP_PORTSC_def q_def)
  ultimately have "writes_in (opb x0 + 0x400) 4080 (Wr32 (opb x0 + OP_PORTSC p) v)" for v
    unfolding writes_in.simps e by linarith
  then have a: "usb_area L n x0 (Wr32 (opb x0 + OP_PORTSC p) v)" for v
    unfolding usb_area_def by blast
  have m: "inside L n x0 (mw (opb y) (OP_PORTSC p) v y)" if "inside L n x0 y" for v y
    by (rule mw_inside [OF that]) (simp add: insideD(3) [OF that] a)
  show ?thesis unfolding port_reset_def Let_def case_prod_unfold
    using assms(1) by (auto intro!: mr_inside wait_reg_inside m)
qed

text \<open>The contexts of a device and its ring, for a slot the table has room for.\<close>

lemma cset_step:
  assumes "inside L n x0 x" "i < MAX_DEV" "unat ci \<le> 32" "unat dw \<le> 4"
  shows "inside L n x0 (cset (in_ctx L i) ci dw v x)"
  using insideD [OF assms(1)] cset_inside [OF insideD(2) [OF assms(1)] assms(3,4) dev_area [OF assms(2)] insideD(6) [OF assms(1)]]
  by (simp add: inside_def) (simp add: cset_def)

lemma ctx_zero_step:
  assumes "inside L n x0 x" "i < MAX_DEV"
  shows "inside L n x0 (ctx_zero (in_ctx L i) 33 x)" "inside L n x0 (ctx_zero (dev_ctx L i) 32 x)"
  using insideD [OF assms(1)] ctx_zero_inside [OF insideD(2) [OF assms(1)] dev_area [OF assms(2)] insideD(6) [OF assms(1)]]
  by (simp_all add: inside_def) (simp_all add: ctx_zero_def)

lemma ring_link_step:
  "inside L n x0 x \<Longrightarrow> i < MAX_DEV \<Longrightarrow> ring = ep0_ring L i \<or> ring = epi_ring L i \<Longrightarrow>
    inside L n x0 (x\<lparr>x_io := ring_link ring 16 cyc (x_io x)\<rparr>)"
  by (rule inside_io, assumption, rule ring_link_inside [where i = i, OF _ dev_area insideD(6)])

lemma dev_step:
  assumes "inside L n x0 x" "i < MAX_DEV"
  shows "inside L n x0 (set_dev i (\<lambda>d. d\<lparr>ep0_cyc := 1, ep0_enq := 0\<rparr>) x)"
    "inside L n x0 (set_dev i (\<lambda>d. d\<lparr>epi_cyc := 1, epi_enq := 0\<rparr>) x)"
    "s < 256 \<Longrightarrow> inside L n x0 (set_dev i (\<lambda>d. d\<lparr>ud_slot := s, ud_port := p, ud_used := u\<rparr>) x)"
    "conf_ok c \<Longrightarrow> inside L n x0 (set_dev i (\<lambda>d. d\<lparr>is_kbd := k, is_mouse := m, ep_dci := hc_dci c, ep_len := e\<rparr>) x)"
    "inside L n x0 (unuse i x)"
  unfolding unuse_def
  by (rule inside_dev [OF assms]; auto simp: usb_dev_ok_def conf_ok_def EP0_TRBS_def EPI_TRBS_def)+

lemma address_contexts_inside:
  assumes "inside L n x0 x" "i < MAX_DEV" "unat slot < n" "slot < 256"
  shows "inside L n x0 (address_contexts L i port spd slot x)"
proof -
  have "unat (slot * 8) \<le> unat slot * 8" by (simp add: unat_word_ariths)
  then have "usb_area L n x0 (Wr64 (dcbaa L + slot * 8) v)" for v using assms(3) by (simp add: usb_area_def)
  then have w: "inside L n x0 (y\<lparr>x_io := wr_m64 (dcbaa L + slot * 8) v (x_io y)\<rparr>)" if "inside L n x0 y" for v y
    using that by (intro inside_io adds_wr(3) insideD(6))
  have r: "inside L n x0 (y\<lparr>x_io := ring_link (ep0_ring L i) EP0_TRBS 1 (x_io y)\<rparr>)" if "inside L n x0 y" for y
    using ring_link_step [OF that assms(2)] by (simp add: EP0_TRBS_def)
  show ?thesis unfolding address_contexts_def Let_def
    by (intro dev_step(3) cset_step dev_step(1) r w ctx_zero_step assms) simp_all
qed

lemma endpoint_contexts_inside:
  assumes "inside L n x0 x" "i < MAX_DEV"
  shows "inside L n x0 (endpoint_contexts L i port spd x)"
proof -
  let ?x = "set_dev i (\<lambda>d. d\<lparr>epi_cyc := 1, epi_enq := 0\<rparr>) (x\<lparr>x_io := ring_link (epi_ring L i) EPI_TRBS 1 (x_io x)\<rparr>)"
  have x: "inside L n x0 ?x"
    using ring_link_step [OF assms] by (intro dev_step(2) assms(2)) (simp add: EPI_TRBS_def)
  have "unat (ep_dci (devs ?x ! i)) < 32"
    using devs_ok [OF insideD(1) [OF x] assms(2)] by (simp add: usb_dev_ok_def word_less_nat_alt)
  moreover from this have "unat (ucast (ep_dci (devs ?x ! i)) :: u32) = unat (ep_dci (devs ?x ! i))"
    by (simp add: unsigned_ucast_eq take_bit_nat_eq_self_iff)
  ultimately have d: "unat (ucast (ep_dci (devs ?x ! i)) + 1 :: u32) \<le> 32" by (simp add: unat_Suc_u32)
  show ?thesis unfolding endpoint_contexts_def Let_def
    by (intro cset_step ctx_zero_step(1) x assms(2) d) simp_all
qed

text \<open>The slot numbers the controller puts in its events are below \<open>n\<close>; they are bytes, so 256 is always right.\<close>

definition slots_below :: "devices \<Rightarrow> xhci_layout \<Rightarrow> nat \<Rightarrow> bool" where
  "slots_below dev L n \<longleftrightarrow>
     (\<forall>tr. \<forall>k < 64. unat (drop_bit 24 (dev_m32 dev tr (trb_addr (evt_ring L) k + 12)) AND 0xFF) < n)"

lemma slot_byte: "(w AND 0xFF :: u32) < 256"
  by (rule le_less_trans [OF word_and_le1]) simp

lemma slots_below_256: "slots_below dev L 256"
  using slot_byte by (simp add: slots_below_def word_less_nat_alt)

lemma evt_peek_slot:
  assumes "evt_peek dev L x = (Some (ty, c, s), x')" "slots_below dev L n" "xhci_inv x"
  shows "unat s < n" "s < 256"
proof -
  have k: "evt_deq x < 64" using assms(3) by (simp add: xhci_inv_def EVT_TRBS_def)
  obtain tr where "s = drop_bit 24 (dev_m32 dev tr (trb_addr (evt_ring L) (evt_deq x) + 12)) AND 0xFF"
    using assms(1) by (auto simp: evt_peek_def mr_def rd_m32_def Let_def split: if_splits)
  then show "unat s < n" "s < 256" using assms(2) k slot_byte by (auto simp: slots_below_def)
qed

lemma wait_event_slot:
  assumes "slots_below dev L n" "xhci_inv x" "wait_event dev L want x = (Some (c, s), x')"
  shows "unat s < n" "s < 256"
proof -
  have "unat s < n \<and> s < 256" if "wait_event_loop dev L want k x = (Some (c, s), x')" for k
    using that assms(2)
  proof (induction k arbitrary: x)
    case (Suc k)
    obtain e x1 where p: "evt_peek dev L x = (e, x1)" by fastforce
    have x1: "xhci_inv x1" using Suc.prems(2) evt_peek_keeps [OF p] by (metis xhci_inv_io(1))
    then show ?case using Suc.IH [of x1] Suc.IH [of "evt_next L x1"] Suc.prems p evt_next_inv evt_peek_slot [OF _ assms(1) Suc.prems(2)]
      by (auto simp: Let_def split: option.splits if_splits)
  qed simp
  then show "unat s < n" "s < 256" using assms(3) by (auto simp: wait_event_def)
qed

lemma cmd_submit_slot:
  assumes "slots_below dev L n" "xhci_inv x" "cmd_submit dev L lo hi ctl x = (r, Some s, x')"
  shows "unat s < n" "s < 256"
  using assms wait_event_slot [OF assms(1), of "ring_doorbell 0 0 (push_cmd L lo hi ctl x)" TRB_CMD_COMPLETE]
  by (auto simp: cmd_submit_def Let_def push_inv split: prod.splits option.splits)

text \<open>Enumeration of a port, from the reset to the first armed transfer.\<close>

definition usb_ok :: "xhci_layout \<Rightarrow> nat \<Rightarrow> xhci \<Rightarrow> xhci \<times> console \<Rightarrow> bool" where
  "usb_ok L n x0 = (\<lambda>(x, c). inside L n x0 x)"

lemma drop_dev_inside:
  assumes "inside L n x0 x" "i < MAX_DEV" "fmt_ok (msg @ NL) []"
  shows "returns (drop_dev i msg port (x, c)) (usb_ok L n x0)"
proof -
  have "fmt_ok (''  [usb] port %u: '' @ msg @ NL) [KNum port]" using assms(3) by simp
  then show ?thesis using assms dev_step(5) unfolding drop_dev_def prod.case
    by (intro returns_map returns_kprintf) (simp_all add: usb_ok_def)
qed

lemma configure_hid_inside:
  assumes "inside L n x0 x" "i < MAX_DEV"
  shows "returns (configure_hid dev L i port spd slot cfgval iface (x, c)) (usb_ok L n x0)"
proof -
  obtain r1 x1 where x1: "control_xfer dev L i 0 9 (ucast cfgval) 0 0 False x = (r1, x1)" "inside L n x0 x1"
    using control_xfer_inside [OF assms] by (metis snd_conv surj_pair)
  obtain r2 x2 where x2: "control_xfer dev L i 0x21 0x0B 0 (word_of_int (if iface < 0 then 0 else iface)) 0 False x1 = (r2, x2)"
      "inside L n x0 x2"
    using control_xfer_inside [OF x1(2) assms(2)] by (metis snd_conv surj_pair)
  obtain r3 o3 x3 where x3: "cmd_submit dev L (in_ctx L i) 0 (TRB_TYPE TRB_CONFIG_EP OR push_bit 24 slot) (endpoint_contexts L i port spd x2) = (r3, o3, x3)"
      "inside L n x0 x3"
    using cmd_submit_inside [OF endpoint_contexts_inside [OF x2(2) assms(2)]] by (metis snd_conv surj_pair)
  show ?thesis unfolding configure_hid_def prod.case x1 x2 x3 Let_def
    using x1(2) x2(2) x3(2) assms(2)
    by (auto simp: usb_ok_def dev_step arm_inside NL_def intro!: returns_intros drop_dev_inside [unfolded usb_ok_def])
qed

lemma read_config_inside:
  assumes "inside L n x0 x" "i < MAX_DEV"
  shows "returns (read_config dev L i port spd slot (x, c)) (usb_ok L n x0)"
proof -
  obtain r1 x1 where x1: "control_xfer dev L i 0x80 6 0x0200 0 9 True x = (r1, x1)" "inside L n x0 x1"
    using control_xfer_inside [OF assms] by (metis snd_conv surj_pair)
  define size where "size = clip_total (dma16 dev (ctl_buf L i) x1 2)"
  obtain r2 x2 where x2: "control_xfer dev L i 0x80 6 0x0200 0 size True x1 = (r2, x2)" "inside L n x0 x2"
    using control_xfer_inside [OF x1(2) assms(2)] by (metis snd_conv surj_pair)
  have p: "conf_ok (parse_config (dma8 dev (ctl_buf L i) x2) (unat size) 0 (conf_static\<lparr>hc_len := ep_len (devs x2 ! i)\<rparr>))"
    by (rule parse_config_ok) (simp add: conf_ok_def conf_static_def)
  note c = configure_hid_inside [OF dev_step(4) [OF x2(2) assms(2) p] assms(2)]
    and d = drop_dev_inside [OF dev_step(4) [OF x2(2) assms(2) p] assms(2)]
  show ?thesis unfolding read_config_def prod.case x1(1) Let_def size_def [symmetric] x2(1)
    using x1(2) x2(2) assms(2) c d by (auto simp: usb_ok_def dev_step(5) NL_def intro!: returns_intros)
qed

lemma read_device_inside:
  assumes "inside L n x0 x" "i < MAX_DEV"
  shows "returns (read_device dev L i port spd slot (x, c)) (usb_ok L n x0)"
proof -
  obtain r1 x1 where x1: "control_xfer dev L i 0x80 6 0x0100 0 18 True x = (r1, x1)" "inside L n x0 x1"
    using control_xfer_inside [OF assms] by (metis snd_conv surj_pair)
  show ?thesis unfolding read_device_def prod.case x1(1) Let_def
    using x1(2) assms(2) drop_dev_inside [OF x1(2) assms(2)] read_config_inside [OF x1(2) assms(2)]
    by (auto simp: NL_def intro!: returns_bind returns_kprintf)
qed

lemma free_dev_bound: "free_dev x = Some i \<Longrightarrow> i < MAX_DEV"
  by (auto simp: free_dev_def find_Some_iff)

lemma enumerate_port_inside:
  assumes "inside L n x0 x" "0 < p" "p < 256" "slots_below dev L n"
  shows "returns (enumerate_port dev L p (x, c)) (usb_ok L n x0)"
proof (cases "free_dev x")
  case None
  then show ?thesis using assms(1) by (simp add: enumerate_port_def returns_def usb_ok_def)
next
  case (Some i)
  note i = free_dev_bound [OF Some]
  obtain spd x1 where x1: "port_reset dev p x = (spd, x1)" "inside L n x0 x1"
    using port_reset_inside [OF assms(1-3)] by (metis snd_conv surj_pair)
  obtain r got x2 where x2: "cmd_submit dev L 0 0 (TRB_TYPE TRB_ENABLE_SLOT) x1 = (r, got, x2)" "inside L n x0 x2"
    using cmd_submit_inside [OF x1(2)] by (metis snd_conv surj_pair)
  show ?thesis
  proof (cases "spd = 0 \<or> r \<noteq> 1 \<or> got = None \<or> got = Some 0")
    case True
    then show ?thesis using x1 x2 Some unfolding enumerate_port_def prod.case
      by (auto simp: usb_ok_def NL_def Let_def intro!: returns_intros)
  next
    case False
    then obtain slot where slot: "got = Some slot" by auto
    note s = cmd_submit_slot [OF assms(4) insideD(1) [OF x1(2)] x2(1) [unfolded slot]]
    obtain r3 o3 x3 where x3: "cmd_submit dev L (in_ctx L i) 0 (TRB_TYPE TRB_ADDRESS_DEV OR push_bit 24 slot) (address_contexts L i p spd slot x2) = (r3, o3, x3)"
        "inside L n x0 x3"
      using cmd_submit_inside [OF address_contexts_inside [OF x2(2) i s]] by (metis snd_conv surj_pair)
    show ?thesis unfolding enumerate_port_def prod.case Some option.case x1(1) x2(1) slot Let_def x3(1)
      using False slot drop_dev_inside [OF x3(2) i] read_device_inside [OF x3(2) i] by (auto simp: NL_def)
  qed
qed

lemma enumerate_ports_inside:
  assumes "inside L n x0 x" "unat (maxports x) < 256" "slots_below dev L n"
  shows "returns (enumerate_ports dev L (x, c)) (\<lambda>(found, st). usb_ok L n x0 st)"
  unfolding enumerate_ports_def fst_conv
proof (rule returns_each)
  show "case (False, x, c) of (found, st) \<Rightarrow> usb_ok L n x0 st" using assms(1) by (simp add: usb_ok_def)
  fix p and s :: "bool \<times> xhci \<times> console"
  assume p: "p \<in> set [1..<Suc (unat (maxports x))]" and s: "case s of (found, st) \<Rightarrow> usb_ok L n x0 st"
  have w: "0 < (of_nat p :: u32)" "of_nat p < (256 :: u32)"
    using p assms(2) by (auto simp: word_less_nat_alt unat_of_nat_u32)
  obtain found y c' where y: "s = (found, y, c')" "inside L n x0 y" using s by (cases s) (auto simp: usb_ok_def)
  obtain sc z where z: "mr dev (opb y) (OP_PORTSC (of_nat p)) y = (sc, z)" "inside L n x0 z"
    using mr_inside [OF y(2)] by (metis snd_conv surj_pair)
  show "returns (case s of (found, x, c) \<Rightarrow> case mr dev (opb x) (OP_PORTSC (of_nat p)) x of (sc, x) \<Rightarrow>
      if sc AND P_CCS \<noteq> 0 then map_option (Pair True) (enumerate_port dev L (of_nat p) (x, c)) else Some (found, x, c))
    (\<lambda>(found, st). usb_ok L n x0 st)"
    using enumerate_port_inside [OF z(2) w assms(3), of c'] z(2)
    by (auto simp: y(1) z(1) usb_ok_def intro!: returns_intros)
qed

lemma present_inside [simp]: "inside L n x0 (x\<lparr>x_present := b\<rparr>) = inside L n x0 x"
  by (simp add: inside_def xhci_inv_def)

lemma start_controller_inside:
  assumes "inside L n x0 x" "unat (maxports x) < 256" "slots_below dev L n"
  shows "returns (start_controller dev L (x, c)) (usb_ok L n x0)"
proof -
  have m: "inside L n x0 (mw (opb y) OP_USBCMD v y)" if "inside L n x0 y" for y v
    by (rule mw_inside [OF that]) (simp add: usb_area_def insideD(3) [OF that] OP_USBCMD_def)
  obtain v x1 where x1: "mr dev (opb x) OP_USBCMD x = (v, x1)" "inside L n x0 x1"
    using mr_inside [OF assms(1)] by (metis snd_conv surj_pair)
  obtain ok x2 where x2: "wait_clear dev (opb x1) OP_USBSTS STS_HCH (mw (opb x1) OP_USBCMD (v OR CMD_RS) x1) = (ok, x2)" "inside L n x0 x2"
    using wait_reg_inside [OF m [OF x1(2)]] by (metis snd_conv surj_pair wait_clear_def)
  obtain r got x3 where x3: "cmd_submit dev L 0 0 (TRB_TYPE TRB_NOOP_CMD) x2 = (r, got, x3)" "inside L n x0 x3"
    using cmd_submit_inside [OF x2(2)] by (metis snd_conv surj_pair)
  have "maxports x3 = maxports x" using insideD(7) [OF x3(2)] insideD(7) [OF assms(1)] by simp
  with enumerate_ports_inside [of L n x0 "x3\<lparr>x_present := True\<rparr>" dev c] assms(2,3) x3(2)
  have "returns (enumerate_ports dev L (x3\<lparr>x_present := True\<rparr>, c)) (\<lambda>(found, st). usb_ok L n x0 st)" by simp
  then show ?thesis unfolding start_controller_def prod.case x1(1) x2(1) x3(1) Let_def
    using x2(2) x3(2) by (auto simp: usb_ok_def NL_def intro!: returns_intros elim!: returns_mono)
qed

lemma usb_poll_loop_inside: "inside L n x0 x \<Longrightarrow> inside L n x0 (fst (usb_poll_loop dev L k (x, kb, m)))"
proof (induction k arbitrary: x kb m)
  case (Suc k)
  obtain e x1 where p: "evt_peek dev L x = (e, x1)" by fastforce
  have x1: "inside L n x0 x1" by (rule evt_peek_inside [OF Suc.prems p])
  have xn: "inside L n x0 (evt_next L x1)" by (rule evt_next_inside [OF x1])
  have h: "inside L n x0 (arm_interrupt L i x2)" if "hid_handle dev L i (evt_next L x1, kb, m) = (x2, kb2, m2)" "i < MAX_DEV" for i x2 kb2 m2
  proof -
    have "inside L n x0 x2" using xn hid_handle_feeds(1) [OF that(1) insideD(1) [OF xn] that(2)] that(1)
      by (auto simp: hid_handle_def Let_def case_prod_unfold inside_def) (auto simp: set_dev_def)
    then show ?thesis using that(2) by (rule arm_inside)
  qed
  show ?case using Suc.IH xn x1 h event_dev_bound by (auto simp: p Let_def split: option.split prod.split)
qed simp

lemma usb_poll_inside: "inside L n x0 (fst st) \<Longrightarrow> inside L n x0 (fst (usb_poll dev L st))"
  by (cases st) (simp add: usb_poll_def usb_poll_loop_inside)

lemma usb_polls_inside: "inside L n x0 (fst st) \<Longrightarrow> inside L n x0 (fst ((usb_poll dev L ^^ k) st))"
  by (induction k) (simp_all add: usb_poll_inside)

text \<open>What the hypotheses below ask for holds after the capability registers are read, whatever they hold.\<close>

lemma read_capabilities_ok:
  assumes "xhci_inv x" "read_capabilities dev bar x = (hcs2, hcc1, x')"
  shows "xhci_inv x'" "ctx_size x' = 32 \<or> ctx_size x' = 64" "unat (maxports x') < 256"
  using assms slot_byte by (auto simp: read_capabilities_def mr_def rd_m8_def rd_m32_def Let_def xhci_inv_def word_less_nat_alt split: if_splits)

text \<open>The slot number is not compared with the table: slot 64 writes behind its 64 places (\<open>xhci.c:269\<close>).\<close>

lemma slot_64_behind_table:
  assumes "ctx_size x = 32 \<or> ctx_size x = 64"
  shows "Wr64 (dcbaa L + 512) (ucast (dev_ctx L i)) \<in> set (x_io (address_contexts L i port spd 64 x))"
    "\<not> writes_in (dcbaa L) 512 (Wr64 (dcbaa L + 512) v)"
proof -
  define tr where "tr = wr_m64 (dcbaa L + 512) (ucast (dev_ctx L i)) (x_io (ctx_zero (in_ctx L i) 33 (ctx_zero (dev_ctx L i) 32 x)))"
  have a: "adds (\<lambda>_. True) tr (ring_link (ep0_ring L i) 16 1 tr)" by (rule ring_link_inside) auto
  have "adds (\<lambda>_. True) tr (x_io (address_contexts L i port spd 64 x))"
    unfolding address_contexts_def Let_def EP0_TRBS_def
    using assms a by (simp add: cset_inside [where P = "\<lambda>_. True"] le_fun_def tr_def)
  moreover have "Wr64 (dcbaa L + 512) (ucast (dev_ctx L i)) \<in> set tr" by (simp add: tr_def wr_m64_def)
  ultimately show "Wr64 (dcbaa L + 512) (ucast (dev_ctx L i)) \<in> set (x_io (address_contexts L i port spd 64 x))"
    by (auto simp: adds_def)
qed simp

text \<open>
  C39: From the start of the controller on, through the enumeration of every port and any number of polls
  after it, the driver comes back and writes nothing but its own contexts, rings and slot table and
  the registers it may write, whatever the controller answers and whatever descriptors, endpoint
  addresses, context size and number of ports it reports. The slot table of this statement has as
  many places as the slot numbers in the controller's events ask for: with \<open>n = 64\<close>, a controller
  that keeps to the 63 slots it was given, it is the array \<open>dcbaa\<close>; the driver does not test the
  number, and 256 places always hold it (\<open>slots_below_256\<close>, \<open>slot_64_behind_table\<close>).
\<close>

theorem usb_stays_inside:
  assumes "xhci_inv x" "ctx_size x = 32 \<or> ctx_size x = 64" "unat (maxports x) < 256" "slots_below dev L n"
  shows "returns (start_controller dev L (x, c))
    (\<lambda>(x', c'). \<forall>k kb m. adds (usb_area L n x) (x_io x) (x_io (fst ((usb_poll dev L ^^ k) (x', kb, m)))))"
proof -
  have "inside L n x x" using assms(1,2) by (simp add: inside_def)
  then have "returns (start_controller dev L (x, c)) (usb_ok L n x)" using assms(3,4) by (rule start_controller_inside)
  then show ?thesis
    by (rule returns_mono) (auto simp: usb_ok_def intro!: insideD(6) usb_polls_inside)
qed

text \<open>A controller that completes everything for slot 5, with a device on its one port.\<close>

definition answering_usb :: devices where
  "answering_usb = \<lparr>dev_b = \<lambda>_ _. 0, dev_l = \<lambda>_ _. 0, dev_m8 = \<lambda>_ _. 9, dev_m32 = \<lambda>_ _. 0x05008403\<rparr>"

theorem usb_stays_inside_witness:
  "let x = xhci_static\<lparr>ctx_size := 64, maxports := 1\<rparr>
   in returns (start_controller answering_usb dma_layout (x, \<lparr>sunk = [], klog_buf = replicate 8192 NUL, klog_w = 0\<rparr>))
    (\<lambda>(x', c'). \<forall>k kb m. adds (usb_area dma_layout 64 x) [] (x_io (fst ((usb_poll answering_usb dma_layout ^^ k) (x', kb, m)))))"
proof -
  let ?x = "xhci_static\<lparr>ctx_size := 64, maxports := 1\<rparr>"
  have "xhci_inv ?x" by (simp add: xhci_inv_def xhci_static_def usb_dev_ok_def blank_usb_def MAX_DEV_def EP0_TRBS_def EPI_TRBS_def
      EVT_TRBS_def CMD_TRBS_def)
  moreover have "slots_below answering_usb dma_layout 64" by (simp add: slots_below_def answering_usb_def)
  moreover have "x_io ?x = []" by (simp add: xhci_static_def)
  ultimately show ?thesis using usb_stays_inside [of ?x answering_usb dma_layout 64 "\<lparr>sunk = [], klog_buf = replicate 8192 NUL, klog_w = 0\<rparr>"] by (simp add: Let_def)
qed

end
