(* ===== verification/Shell_Flag.thy ===== *)
theory Shell_Flag
  imports Shell_Safe
begin

text \<open>
  The processor's interrupt flag across the shell (\<open>kernel/shell/shell.c\<close>): \<open>user\<close> goes through the
  \<open>cli\<close> of \<open>usermode_resume_kernel\<close> (\<open>usermode_entry.S\<close>) and leaves the flag cleared; every other
  line that comes back leaves it as it was. The desktop's loop sleeps in \<open>hlt\<close> and needs the flag.
\<close>

section \<open>Output and drawing\<close>

lemma say_if: "say dev out k = Some k' \<Longrightarrow> k_if k' = k_if (k :: kernel)"
  by (rule shown_kernel(10) [OF say_shown])

lemma pr_if: "pr dev f args k = Some k' \<Longrightarrow> k_if k' = k_if (k :: kernel)"
  unfolding pr_def by (rule say_if)

lemma say_val_if: "say_val dev out k = Some (v, k') \<Longrightarrow> k_if k' = k_if (k :: kernel)"
  by (auto simp: say_val_def split: Option.bind_splits)

lemma gui_if: "gui_keeps k k' \<Longrightarrow> k_if k' = k_if (k :: kernel)"
  unfolding gui_keeps_def by (rule more_kernel(9)) simp

lemmas opened_if = gui_if [OF desktop_open_app_keeps]

section \<open>Commands\<close>

text \<open>\<open>flag_after b x\<close>: if \<open>x\<close> is a kernel that came back, its flag is \<open>b\<close>.\<close>

definition flag_after :: "bool \<Rightarrow> outcome option \<Rightarrow> bool" where
  "flag_after b x \<longleftrightarrow> (\<forall>k'. x = Some (Returned k') \<longrightarrow> k_if k' = b)"

named_theorems flag_rules \<open>what commands leave in the flag\<close>

lemma flag_ret: "(\<And>k'. x = Some k' \<Longrightarrow> k_if k' = b) \<Longrightarrow> flag_after b (map_option Returned x)"
  by (auto simp: flag_after_def)

lemma flag_out [flag_rules]: "flag_after (k_if k) (map_option Returned (say dev f k))"
  by (rule flag_ret) (rule say_if)

lemma allocpage_if: "cmd_allocpage dev k = Some k' \<Longrightarrow> k_if k' = k_if k"
  by (auto simp: cmd_allocpage_def Let_def case_prod_unfold bind_eq_Some_conv dest!: pr_if split: if_splits)

lemma freepage_if: "cmd_freepage dev args k = Some k' \<Longrightarrow> k_if k' = k_if k"
  by (auto simp: cmd_freepage_def Let_def case_prod_unfold dest!: pr_if split: if_splits option.splits)

lemma kmalloc_if: "cmd_kmalloc dev args k = Some k' \<Longrightarrow> k_if k' = k_if k"
  by (auto simp: cmd_kmalloc_def Let_def case_prod_unfold bind_eq_Some_conv dest!: pr_if split: if_splits option.splits)

lemma kfree_if: "cmd_kfree dev args k = Some k' \<Longrightarrow> k_if k' = k_if k"
  by (auto simp: cmd_kfree_def Let_def bind_eq_Some_conv dest!: pr_if split: if_splits option.splits)

lemma write_if: "cmd_write dev args k = Some k' \<Longrightarrow> k_if k' = k_if k"
  by (auto simp: cmd_write_def Let_def case_prod_unfold dest!: pr_if split: if_splits option.splits)

lemma color_if: "cmd_color dev args k = Some k' \<Longrightarrow> k_if k' = k_if k"
  by (auto simp: cmd_color_def Let_def case_prod_unfold dest!: pr_if split: if_splits)

lemma gui_cmd_if: "cmd_gui dev k = Some k' \<Longrightarrow> k_if k' = k_if k"
  by (auto simp: cmd_gui_def bind_eq_Some_conv dest!: pr_if opened_if gui_if [OF desktop_draw_keeps] split: if_splits)

lemma clear_if: "k_if (cmd_clear k) = k_if (k :: kernel)"
  using gui_if [OF draw_keeps(2), of gcon_clear k] by (simp add: cmd_clear_def)

text \<open>A system call the boot code registered leaves the flag and the table alone.\<close>

lemma invoke_flag:
  assumes "table s = boot_table" "num \<in> {SYS_UPTIME, SYS_WRITE, SYS_GETPID, SYS_VERSION}" "syscall_invoke num x y z s = Some (v, s')"
  shows "int_flag s' = int_flag s" "table s' = boot_table"
  using assms by (auto simp: syscall_invoke_def int80_def syscall_dispatch_def boot_table_call sys_numbers
        sys_write_def sys_getpid_def sys_uptime_def sys_version_def Let_def)

lemma sys_if:
  assumes "with_sys dev (syscall_invoke num x y z) k = Some (v, k')" "k_table k = boot_table"
    "num \<in> {SYS_UPTIME, SYS_WRITE, SYS_GETPID, SYS_VERSION}"
  shows "k_if k' = k_if k" "k_table k' = boot_table"
  using assms(1) invoke_flag [OF _ assms(3), of "sysk_of k" x y z] assms(2)
  by (auto simp: with_sys_def bind_eq_Some_conv sysk_of_def)

lemma pr_table: "pr dev f args k = Some k' \<Longrightarrow> k_table k' = k_table (k :: kernel)"
  unfolding pr_def by (rule shown_kernel(9) [OF say_shown])

lemma cmd_sys_if:
  assumes "cmd_sys dev L k = Some k'" "k_table k = boot_table"
  shows "k_if k' = k_if k"
proof -
  from assms(1) obtain k1 v2 k2 v3 k3 k4 v5 k5 k6 v7 k7 k8 where
    "pr dev (''Invoking syscalls live via int 0x80:'' @ NL) [] k = Some k1"
    and s: "with_sys dev (syscall_invoke SYS_WRITE 1 (lk_sysmsg L) (of_nat (length sys_message))) k1 = Some (v2, k2)"
      "with_sys dev (syscall_invoke SYS_UPTIME 0 0 0) k2 = Some (v3, k3)"
      "pr dev (''  SYS_UPTIME  = %d ticks'' @ NL) [KNum v3] k3 = Some k4"
      "with_sys dev (syscall_invoke SYS_GETPID 0 0 0) k4 = Some (v5, k5)"
      "pr dev (''  SYS_GETPID  = %d'' @ NL) [KNum v5] k5 = Some k6"
      "with_sys dev (syscall_invoke SYS_VERSION 0 0 0) k6 = Some (v7, k7)"
      "pr dev (''  SYS_VERSION = 0x%04x'' @ NL) [KNum v7] k7 = Some k8"
      "pr dev (''  registered syscalls: %d'' @ NL) [ki (int (syscall_count (sysk_of k8)))] k8 = Some k'"
    by (auto simp: cmd_sys_def bind_eq_Some_conv)
  then have k1: "k_table k1 = boot_table" "k_if k1 = k_if k" using assms(2) by (simp_all add: pr_table pr_if)
  note k2 = sys_if [OF s(1) k1(1)] and k3 = sys_if [OF s(2)]
  have k4: "k_table k4 = boot_table" "k_if k4 = k_if k" using k1 k2 k3 pr_table [OF s(3)] pr_if [OF s(3)] by simp_all
  note k5 = sys_if [OF s(4) k4(1)]
  have k6: "k_table k6 = boot_table" "k_if k6 = k_if k" using k4 k5 pr_table [OF s(5)] pr_if [OF s(5)] by simp_all
  show ?thesis using k6 sys_if [OF s(6) k6(1)] pr_if [OF s(7)] pr_if [OF s(8)] by simp
qed

text \<open>\<open>user\<close> leaves the flag cleared.\<close>

lemma cmd_user_if:
  assumes "cmd_user dev L k = Some k'" "k_table k = boot_table"
  shows "\<not> k_if k'"
proof -
  from assms(1) obtain k1 v k2 where k1: "pr dev (''Entering ring 3 (user mode), then returning via the syscall gate...'' @ NL) [] k = Some k1"
    and k2: "with_sys dev (usermode_run (lk_hello L) (lk_hello_len L)) k1 = Some (v, k2)" and k': "k_if k' = k_if k2"
    by (auto simp: cmd_user_def bind_eq_Some_conv Let_def dest!: pr_if split: if_splits)
  have "table (sysk_of k1) = boot_table" using pr_table [OF k1] assms(2) by (simp add: sysk_of_def)
  then obtain c where "usermode_run (lk_hello L) (lk_hello_len L) (sysk_of k1) =
      Some (0, (sysk_of k1)\<lparr>last_cs := 0x1B, um_exit_code := 0, int_flag := False, sys_con := c\<rparr>)"
    using usermode_comes_back by blast
  then show ?thesis using k2 k' by (auto simp: with_sys_def bind_eq_Some_conv)
qed

lemma flag_commands [flag_rules]:
  "flag_after (k_if k) (map_option Returned (cmd_allocpage dev k))"
  "flag_after (k_if k) (map_option Returned (cmd_freepage dev args k))"
  "flag_after (k_if k) (map_option Returned (cmd_kmalloc dev args k))"
  "flag_after (k_if k) (map_option Returned (cmd_kfree dev args k))"
  "flag_after (k_if k) (map_option Returned (cmd_write dev args k))"
  "flag_after (k_if k) (map_option Returned (cmd_color dev args k))"
  "flag_after (k_if k) (map_option Returned (cmd_gui dev k))"
  "flag_after (k_if k) (map_option Returned (desktop_open_app dev app k))"
  by (rule flag_ret, erule allocpage_if freepage_if kmalloc_if kfree_if write_if color_if gui_cmd_if opened_if)+

lemma flag_vals [flag_rules]:
  "flag_after (k_if k) (map_option (\<lambda>(w, k). Returned (k\<lparr>k_ai := w\<rparr>)) (say_val dev f k))"
  "flag_after (k_if k) (map_option (\<lambda>(r, k). Returned (k\<lparr>k_feat := r\<rparr>)) (say_val dev g k))"
  "flag_after (k_if k) (map_option (\<lambda>(sc, k). Returned (k\<lparr>k_sched := sc\<rparr>)) (say_val dev h k))"
  by (auto simp: flag_after_def dest!: say_val_if)

lemma flag_stops [flag_rules]:
  "flag_after (k_if k) (cmd_crash dev args k)" "flag_after b (reboot_machine dev k)" "flag_after b (halt_machine dev k)"
  by (auto simp: flag_after_def cmd_crash_def reboot_machine_def halt_machine_def bind_eq_Some_conv dest!: pr_if split: if_splits)

lemma flag_case: "(cmd = x \<Longrightarrow> flag_after b y) \<Longrightarrow> (cmd \<noteq> x \<Longrightarrow> flag_after b z) \<Longrightarrow> flag_after b (if cmd = x then y else z)"
  by simp

lemma run_command_if:
  assumes "k_table k = boot_table" "cmd \<noteq> ''user''"
  shows "flag_after (k_if k) (run_command dev L cmd args k)"
proof -
  have "flag_after (k_if k) (map_option Returned (cmd_sys dev L k))"
    by (rule flag_ret) (rule cmd_sys_if [OF _ assms(1)])
  then show ?thesis unfolding run_command_def Let_def
    by (intro flag_case flag_rules) (use assms(2) in \<open>simp_all add: flag_after_def clear_if\<close>)
qed

lemma run_user_if:
  assumes "k_table k = boot_table"
  shows "flag_after False (run_command dev L ''user'' args k)"
proof -
  have "flag_after False (map_option Returned (cmd_user dev L k))"
    by (rule flag_ret) (use cmd_user_if [OF _ assms] in blast)
  then show ?thesis by (simp add: run_command_def)
qed

section \<open>Lines and characters\<close>

definition line_quiet :: "kernel \<Rightarrow> bool" where
  "line_quiet k \<longleftrightarrow> fst (split_line (typed_text k)) \<noteq> ''user''"

lemma after_returned:
  "after f x = Some (Returned k') \<Longrightarrow> (\<And>k. x = Some (Returned k) \<Longrightarrow> f k = Some (Returned k') \<Longrightarrow> P) \<Longrightarrow> P"
  by (cases "(f, x)" rule: after.cases) auto

lemma execute_if:
  assumes "k_table k = boot_table" "execute dev L line k = Some (Returned k')"
  shows "k_if k' \<longleftrightarrow> k_if k \<and> fst (split_line line) \<noteq> ''user''"
proof -
  obtain cmd args where sp: "split_line line = (cmd, args)" by fastforce
  let ?k = "k\<lparr>k_hist := hist_record line (k_hist k)\<rparr>"
  have "run_command dev L cmd args ?k = Some (Returned k')" using assms(2) by (simp add: execute_def sp)
  then show ?thesis using run_command_if [of ?k cmd dev L args] run_user_if [of ?k dev L args] assms(1)
    by (cases "cmd = ''user''") (simp_all add: flag_after_def sp)
qed

lemma shell_feed_if:
  assumes "kernel_ok s k" "shell_feed_char dev L c k = Some (Returned k')"
  shows "k_if k' \<longleftrightarrow> k_if k \<and> (c = CHR 0x0A \<longrightarrow> line_quiet k)"
proof (cases "c = CHR 0x0A")
  case True
  then obtain k1 k2 where k1: "putc dev (CHR 0x0A) k = Some k1"
    and k2: "execute dev L ((s_line k1)[s_len k1 := NUL]) (k1\<lparr>s_line := (s_line k1)[s_len k1 := NUL]\<rparr>) = Some (Returned k2)"
    and k': "shell_prompt dev (k2\<lparr>s_len := 0\<rparr>) = Some k'"
    using assms(2) by (auto simp: shell_feed_char_def bind_eq_Some_conv Let_def elim!: after_returned)
  have sh: "shown k k1" using k1 unfolding putc_def by (rule say_shown)
  have "cstr ((s_line k1)[s_len k1 := NUL]) = typed_text k"
    using typed_line [OF kernel_okD(13) [OF assms(1)]] shown_fields [OF sh] by simp
  then have "split_line ((s_line k1)[s_len k1 := NUL]) = split_line (typed_text k)"
    using kernel_okD(13) [OF assms(1)] by (simp add: split_line_def typed_text_def line_text_def line_ok_def cstr_id)
  then show ?thesis using execute_if [OF _ k2] shown_kernel(9,10) [OF sh] kernel_okD(12) [OF assms(1)] say_if [OF k' [unfolded shell_prompt_def]] True
    by (simp add: line_quiet_def)
next
  case False
  then show ?thesis using assms(2)
    by (auto simp: shell_feed_char_def Let_def putc_def split: option.splits prod.splits dest!: say_if)
qed

end
