(* ===== verification/Desktop_Loop.thy ===== *)
theory Desktop_Loop
  imports Shell_Flag Usb Lfb_Init
begin

text \<open>
  The event loop of the desktop (\<open>desktop_run\<close> of \<open>kernel/gui/desktop.c\<close>): the routing of keys and
  clicks to the application in front, one turn of the loop from its \<open>hlt\<close> on, and the runs of the
  loop over the interrupts that wake it. The main theorem says when a turn wakes and that it then
  comes back, with all keys handled, every component of the kernel in order and the interrupt flag
  set unless a line \<open>user\<close> was run. An interrupt that arrives while the loop is at work is taken
  before its next \<open>hlt\<close>.
\<close>

section \<open>Keys and clicks\<close>

text \<open>The calculator divides: \<open>None\<close> there is a divide error, which the machine does not come back from.\<close>

definition to_calc :: "(calc \<times> lfb \<Rightarrow> (calc \<times> lfb) option) \<Rightarrow> kernel \<Rightarrow> outcome" where
  "to_calc f k =
     (case f (k_calc k, fb k) of
        None \<Rightarrow> Faulted k
      | Some (c, t) \<Rightarrow> Returned (draw (\<lambda>_. t) (k\<lparr>k_calc := c\<rparr>)))"

definition to_notes :: "char \<Rightarrow> kernel \<Rightarrow> kernel" where
  "to_notes c k =
     (let (n, t, fs) = app_notes_key c (k_notes k, fb k, k_fs k) in draw (\<lambda>_. t) (k\<lparr>k_notes := n, k_fs := fs\<rparr>))"

definition to_files :: "int \<Rightarrow> int \<Rightarrow> kernel \<Rightarrow> kernel" where
  "to_files mx my k =
     (let (a, t) = app_files_click mx my (k_fs k) (k_files k, fb k) in draw (\<lambda>_. t) (k\<lparr>k_files := a\<rparr>))"

definition to_paint :: "(paint \<times> lfb \<Rightarrow> paint \<times> lfb) \<Rightarrow> kernel \<Rightarrow> kernel" where
  "to_paint f k = (let (p, t) = f (k_paint k, fb k) in draw (\<lambda>_. t) (k\<lparr>k_paint := p\<rparr>))"

definition route_key :: "devices \<Rightarrow> linkage \<Rightarrow> char \<Rightarrow> kernel \<Rightarrow> outcome option" where
  "route_key dev L c k =
     (let app = g_app (k_desk k)
      in if c = CHR 0x1B then (if app \<noteq> APP_TERMINAL then map_option Returned (desktop_open_app dev APP_TERMINAL k) else Some (Returned k))
         else if app = APP_TERMINAL then shell_feed_char dev L c k
         else if app = APP_CALC then Some (to_calc (app_calc_key c) k)
         else if app = APP_NOTES then Some (Returned (to_notes c k))
         else Some (Returned k))"

definition handle_click :: "devices \<Rightarrow> int \<Rightarrow> int \<Rightarrow> kernel \<Rightarrow> outcome option" where
  "handle_click dev mx my k =
     (case dock_hit (k_desk k) mx my of
        Some a \<Rightarrow> map_option Returned (desktop_open_app dev a k)
      | None \<Rightarrow>
          if \<not> in_panel (k_desk k) mx my then Some (Returned k)
          else let app = g_app (k_desk k)
          in if app = APP_CALC then Some (to_calc (app_calc_click mx my) k)
             else if app = APP_FILES then Some (Returned (to_files mx my k))
             else if app = APP_PAINT then Some (Returned (to_paint (app_paint_click mx my) k))
             else if app = APP_SETTINGS then map_option Returned (app_settings_click dev mx my k)
             else Some (Returned k))"

section \<open>The loop\<close>

text \<open>The kernel with the input drivers and the two locals of \<open>desktop_run\<close>.\<close>

record machine =
  m_k :: kernel
  m_kbd :: kbd
  m_mouse :: mouse
  m_usb :: xhci
  m_handlers :: handlers
  m_prevl :: bool
  m_last :: u32

datatype turn = Running machine | Asleep | Stopped outcome

text \<open>
  \<open>while (keyboard_haskey())\<close>. The flag is \<open>evt\<close>: the pointer is hidden before the first change of
  the picture. The outcome says whether the machine is still running.
\<close>

partial_function (option) keys_loop :: "devices \<Rightarrow> linkage \<Rightarrow> bool \<Rightarrow> kbd \<Rightarrow> kernel \<Rightarrow> (bool \<times> kbd \<times> outcome) option" where
  "keys_loop dev L evt kb k =
     (if \<not> keyboard_haskey kb then Some (evt, kb, Returned k)
      else let k = (if \<not> evt then cursor_hide k else k); (c, kb) = keyboard_trygetchar kb
      in Option.bind (route_key dev L c k) (\<lambda>r.
           case r of Returned k \<Rightarrow> keys_loop dev L True kb k | _ \<Rightarrow> Some (True, kb, r)))"

declare keys_loop.simps [code]

text \<open>USB reports, and the I/O history they are read from.\<close>

definition take_reports :: "devices \<Rightarrow> xhci_layout \<Rightarrow> machine \<Rightarrow> machine" where
  "take_reports dev XL m =
     (let k = m_k m;
          (x, kb, mo) = usb_poll dev XL ((m_usb m)\<lparr>x_io := d_uart (k_disp k)\<rparr>, m_kbd m, m_mouse m)
      in m\<lparr>m_k := k\<lparr>k_disp := (k_disp k)\<lparr>d_uart := x_io x\<rparr>\<rparr>, m_kbd := kb, m_mouse := mo, m_usb := x\<rparr>)"

text \<open>The clock is drawn when its second changes.\<close>

definition tell_time :: "machine \<Rightarrow> bool \<times> machine" where
  "tell_time m =
     (let k = m_k m; s = pit_seconds (k_pit k)
      in if s \<noteq> m_last m
         then (True, m\<lparr>m_last := s, m_k := draw (draw_clock (k_desk k) s) (cursor_hide k)\<rparr>)
         else (False, m))"

definition mouse_event :: "devices \<Rightarrow> machine \<Rightarrow> kernel \<Rightarrow> outcome option" where
  "mouse_event dev m k =
     (let mo = m_mouse m; l = mouse_left mo
      in if l \<and> \<not> m_prevl m then handle_click dev (gx mo) (gy mo) k
         else if l \<and> g_app (k_desk k) = APP_PAINT \<and> in_panel (k_desk k) (gx mo) (gy mo)
         then Some (Returned (to_paint (app_paint_motion (gx mo) (gy mo)) k))
         else Some (Returned k))"

text \<open>The end of a turn: the pointer is shown again if it was hidden.\<close>

definition end_turn :: "bool \<Rightarrow> machine \<Rightarrow> outcome \<Rightarrow> turn" where
  "end_turn evt m r =
     (case r of
        Returned k \<Rightarrow> Running (m\<lparr>m_k := (if evt then cursor_show (gx (m_mouse m)) (gy (m_mouse m)) k else k)\<rparr>)
      | _ \<Rightarrow> Stopped r)"

text \<open>The body of the loop after \<open>hlt\<close>.\<close>

definition desktop_pass :: "devices \<Rightarrow> linkage \<Rightarrow> xhci_layout \<Rightarrow> machine \<Rightarrow> turn option" where
  "desktop_pass dev L XL m =
     (let (evt, m) = tell_time (take_reports dev XL m)
      in Option.bind (keys_loop dev L evt (m_kbd m) (m_k m)) (\<lambda>(evt, kb, r).
         let m = m\<lparr>m_kbd := kb\<rparr>
         in case r of
              Returned k \<Rightarrow>
                let (moved, mo) = mouse_take_event (m_mouse m); m = m\<lparr>m_mouse := mo\<rparr>
                in if \<not> moved then Some (end_turn evt m r)
                   else map_option (end_turn True (m\<lparr>m_prevl := mouse_left mo\<rparr>))
                          (mouse_event dev m (if \<not> evt then cursor_hide k else k))
            | _ \<Rightarrow> Some (Stopped r)))"

text \<open>Before the loop: the mouse, the terminal and the pointer.\<close>

definition desktop_run_start :: "devices \<Rightarrow> machine \<Rightarrow> machine option" where
  "desktop_run_start dev m =
     (let k = m_k m; w = fbW (fb k); h = fbH (fb k);
          k = k\<lparr>k_desk := (k_desk k)\<lparr>dW := w, dH := h\<rparr>\<rparr>;
          (mo, hs, tr) = mouse_init dev w h (m_mouse m, m_handlers m, d_uart (k_disp k));
          k = k\<lparr>k_disp := (k_disp k)\<lparr>d_uart := tr\<rparr>\<rparr>
      in map_option (\<lambda>k. m\<lparr>m_k := cursor_show (gx mo) (gy mo) k, m_mouse := mo, m_handlers := hs, m_prevl := False, m_last := 0xFFFFFFFF\<rparr>)
           (desktop_open_app dev APP_TERMINAL k))"

text \<open>\<open>desktop_start\<close> with the framebuffer that \<open>lfb_init_auto\<close> chose; without one the screen stays in text mode.\<close>

definition desktop_start :: "vmm_layout \<Rightarrow> devices \<Rightarrow> u32 \<Rightarrow> kernel \<Rightarrow> kernel option" where
  "desktop_start VL dev mb_info_addr k = do {
     (ok, s, vm, tr, c) \<leftarrow> lfb_init_auto VL dev mb_info_addr (fb k, the_vmm k, d_uart (k_disp k), (k_con k)\<lparr>sunk := []\<rparr>);
     let k = k\<lparr>k_mem := vm_mem vm, k_vmm := vm, k_disp := (k_disp k)\<lparr>d_uart := tr\<rparr>\<rparr>;
     d \<leftarrow> show_text dev (sunk c) (k_disp k);
     let k = k\<lparr>k_con := c\<lparr>sunk := sunk (k_con k) @ sunk c\<rparr>, k_disp := d\<lparr>d_lfb := s\<rparr>\<rparr>;
     if ok then desktop_draw k else Some k
   }"

text \<open>What wakes the loop from \<open>hlt\<close>: a byte of the keyboard or the mouse, or the timer.\<close>

datatype arrival = Scancode u8 | Mouse_data u8 | Tick

fun arrive :: "arrival \<Rightarrow> machine \<Rightarrow> machine" where
  "arrive (Scancode b) m = m\<lparr>m_kbd := keyboard_scancode b (m_kbd m)\<rparr>"
| "arrive (Mouse_data b) m = m\<lparr>m_mouse := mouse_byte b (m_mouse m)\<rparr>"
| "arrive Tick m = m\<lparr>m_k := (m_k m)\<lparr>k_pit := pit_callback (k_pit (m_k m))\<rparr>\<rparr>"

text \<open>
  \<open>hlt\<close> sleeps until an interrupt arrives, and none does while the interrupt flag is clear:
  \<open>None\<close> is a processor that stays asleep.
\<close>

definition hlt :: "arrival list \<Rightarrow> machine \<Rightarrow> machine option" where
  "hlt as m = (if k_if (m_k m) \<and> as \<noteq> [] then Some (fold arrive as m) else None)"

text \<open>One turn of \<open>for (;;)\<close>, with the interrupts that wake it.\<close>

definition desktop_turn :: "devices \<Rightarrow> linkage \<Rightarrow> xhci_layout \<Rightarrow> arrival list \<Rightarrow> machine \<Rightarrow> turn option" where
  "desktop_turn dev L XL as m = (case hlt as m of None \<Rightarrow> Some Asleep | Some m \<Rightarrow> desktop_pass dev L XL m)"

section \<open>The pointer keeps the kernel in order\<close>

lemma paint_blit_put:
  assumes "painted s t" "- 2147483648 \<le> x" "- 2147483648 \<le> y" "0 \<le> w" "0 \<le> h"
  shows "painted s (lfb_blit_put x y w h buf t)"
proof -
  have cell: "painted s (if uless (x + i) (fbW u) \<and> uless (y + j) (fbH u) then put_pix ((y + j) * pitch_px u + (x + i)) v u else u)"
    if "painted s u" "0 \<le> i" "0 \<le> j" for u i j v
    using paint_pixel [OF that(1), of "x + i" "y + j" v] assms(2,3) that(2,3) by (simp add: lfb_pixel_def)
  show ?thesis unfolding lfb_blit_put_def Let_def
    by (intro for_int_induct [where P = "\<lambda>_. painted s"] assms cell) simp_all
qed

lemma kernel_ok_desk:
  assumes "kernel_ok s k" "desk_laid s c" "cursor_ok c"
  shows "kernel_ok s (k\<lparr>k_desk := c\<rparr>)"
  unfolding kernel_ok_def using kernel_okD [OF assms(1)] assms(2,3) gui_paints_disp [of "k\<lparr>k_desk := c\<rparr>" k] by simp

lemma kernel_ok_uart:
  assumes "kernel_ok s k"
  shows "kernel_ok s (k\<lparr>k_disp := (k_disp k)\<lparr>d_uart := tr\<rparr>\<rparr>)"
  unfolding kernel_ok_def using kernel_okD [OF assms] gui_paints_disp [of "k\<lparr>k_disp := (k_disp k)\<lparr>d_uart := tr\<rparr>\<rparr>" k] by simp

lemma kernel_ok_pit:
  assumes "kernel_ok s k"
  shows "kernel_ok s (k\<lparr>k_pit := pt\<rparr>)"
  unfolding kernel_ok_def using kernel_okD [OF assms] gui_paints_disp [of "k\<lparr>k_pit := pt\<rparr>" k] by simp

lemma kernel_ok_draw:
  assumes "kernel_ok s k" "\<And>t. painted s t \<Longrightarrow> painted s (f t)"
  shows "kernel_ok s (draw f k)"
  using shown_ok [OF assms(1) shown_draw] draw_paints [OF kernel_okD(2) [OF assms(1)] assms(2)] by simp

lemma kernel_painted: "kernel_ok s k \<Longrightarrow> painted s (fb k)"
  using kernel_okD(2) by (simp add: gui_paints_iff)

lemma cursor_hide_ok:
  assumes "kernel_ok s k"
  shows "kernel_ok s (cursor_hide k)"
proof (cases "cur_vis (k_desk k)")
  case True
  let ?c = "k_desk k"
  let ?k = "draw (lfb_blit_put (cur_x ?c) (cur_y ?c) CUR_W CUR_H (cur_save ?c)) k"
  have c: "cursor_ok ?c" "desk_laid s ?c" using kernel_okD(15,3) [OF assms] .
  then have "kernel_ok s ?k"
    by (intro kernel_ok_draw [OF assms] paint_blit_put) (simp_all add: cursor_ok_def CUR_W_def CUR_H_def)
  then have "kernel_ok s (?k\<lparr>k_desk := ?c\<lparr>cur_vis := False\<rparr>\<rparr>)"
    using c by (intro kernel_ok_desk) (simp_all add: cursor_ok_def desk_laid_def)
  then show ?thesis using True by (simp add: cursor_hide_def Let_def)
qed (simp add: cursor_hide_def assms Let_def)

lemma paint_arrow:
  assumes "painted s t" "- 2147483648 \<le> x" "- 2147483648 \<le> y"
  shows "painted s (draw_arrow x y t)"
  unfolding draw_arrow_def Let_def
  by (intro for_int_induct [where P = "\<lambda>_. painted s"] assms(1))
    (use assms(2,3) paint_pixel in \<open>auto simp: CUR_W_def CUR_H_def\<close>)

lemma cursor_show_ok:
  assumes "kernel_ok s k" "- 2147483648 \<le> x" "- 2147483648 \<le> y"
  shows "kernel_ok s (cursor_show x y k)"
proof -
  define k1 where "k1 = cursor_hide k"
  have k1: "kernel_ok s k1" unfolding k1_def by (rule cursor_hide_ok [OF assms(1)])
  have nv: "\<not> cur_vis (k_desk k1)" by (simp add: k1_def)
  let ?c = "(k_desk k1)\<lparr>cur_save := lfb_blit_get x y CUR_W CUR_H (fb k1) (cur_save (k_desk k1))\<rparr>"
  note d = kernel_okD(3,15) [OF k1]
  have "kernel_ok s (k1\<lparr>k_desk := ?c\<rparr>)" using d by (intro kernel_ok_desk [OF k1]) (simp_all add: desk_laid_def cursor_ok_def)
  then have k2: "kernel_ok s (draw (draw_arrow x y) (k1\<lparr>k_desk := ?c\<rparr>))"
    by (rule kernel_ok_draw) (rule paint_arrow [OF _ assms(2,3)])
  have "kernel_ok s ((draw (draw_arrow x y) (k1\<lparr>k_desk := ?c\<rparr>))\<lparr>k_desk := ?c\<lparr>cur_x := x, cur_y := y, cur_vis := True\<rparr>\<rparr>)"
    using d assms(2,3) by (intro kernel_ok_desk [OF k2]) (simp_all add: desk_laid_def cursor_ok_def)
  moreover have "cursor_show x y k = (draw (draw_arrow x y) (k1\<lparr>k_desk := ?c\<rparr>))\<lparr>k_desk := ?c\<lparr>cur_x := x, cur_y := y, cur_vis := True\<rparr>\<rparr>"
    using cursor_show_hide [of x y k] nv by (simp add: k1_def [symmetric] cursor_show_def Let_def)
  ultimately show ?thesis by simp
qed

lemma cursor_show_at [simp]:
  "cur_vis (k_desk (cursor_show x y k))" "cur_x (k_desk (cursor_show x y k)) = x" "cur_y (k_desk (cursor_show x y k)) = y"
  by (simp_all add: cursor_show_def Let_def)

section \<open>The applications keep the kernel in order\<close>

lemma app_keeps:
  assumes "kernel_ok s k" "painted s t" "gui_keeps k k'" "desk_laid s (k_desk k')" "gui_paints s k'"
  shows "kernel_ok s (draw (\<lambda>_. t) k')"
  using keeps_ok [OF assms(1,3,5,4)] assms(2) by (intro kernel_ok_draw) simp_all

lemma to_calc_ok:
  assumes "kernel_ok s k" "\<And>c t. f (k_calc k, fb k) = Some (c, t) \<Longrightarrow> painted s t"
  shows "outcome_ok s (to_calc f k)"
proof (cases "f (k_calc k, fb k)")
  case (Some p)
  obtain c t where p: "p = (c, t)" by (cases p)
  have "kernel_ok s (draw (\<lambda>_. t) (k\<lparr>k_calc := c\<rparr>))"
    using assms(2) [of c t] Some p kernel_okD(2,3) [OF assms(1)]
    by (intro app_keeps [OF assms(1)]) (simp_all add: gui_keeps_def gui_paints_def fb_def)
  then show ?thesis using Some p by (simp add: to_calc_def)
qed (simp add: to_calc_def)

lemma to_files_ok: "kernel_ok s k \<Longrightarrow> kernel_ok s (to_files mx my k)"
  unfolding to_files_def case_prod_unfold Let_def
  using kernel_okD(2,3) paint_files(2) [OF kernel_painted]
  by (intro app_keeps [of s k]) (auto simp: gui_keeps_def gui_paints_def fb_def)

lemma to_paint_ok:
  assumes "kernel_ok s k" "\<And>p t. painted s t \<Longrightarrow> painted s (snd (f (p, t)))"
  shows "kernel_ok s (to_paint f k)"
  unfolding to_paint_def case_prod_unfold Let_def
  using kernel_okD(2,3) [OF assms(1)] assms(2) [OF kernel_painted [OF assms(1)]]
  by (intro app_keeps [OF assms(1)]) (simp_all add: gui_keeps_def gui_paints_def fb_def)

lemma notes_edit_ok: "notes_edit c n = Some n' \<Longrightarrow> notes_ok n \<Longrightarrow> notes_ok n'"
  by (auto simp: notes_edit_def notes_ok_def split: if_splits)

lemma to_notes_ok:
  assumes "kernel_ok s k"
  shows "kernel_ok s (to_notes c k)"
proof -
  note d = kernel_okD [OF assms]
  obtain n t fs where e: "app_notes_key c (k_notes k, fb k, k_fs k) = (n, t, fs)" by (metis surj_pair)
  have p: "painted s t" using paint_notes(3) [OF kernel_painted [OF assms], of c "k_notes k" "k_fs k"] e by simp
  have "notes_ok n \<and> ramfs_inv fs \<and> arena_sz fs = KFS_ARENA"
  proof (cases "notes_edit c (k_notes k)")
    case None
    then show ?thesis using e d by (simp add: app_notes_key_def)
  next
    case (Some n1)
    have n1: "notes_ok n1" using notes_edit_ok [OF Some] d(14) by blast
    let ?w = "kfs_write notes_name (text_bytes (no_buf n1)) (of_nat (no_len n1)) (k_fs k)"
    have "length (cstr notes_name) < 32" by (simp add: notes_name_def)
    moreover have "unat (of_nat (no_len n1) :: u32) \<le> 1023" using n1 by (simp add: notes_ok_def unat_of_nat_u32)
    ultimately have "ramfs_inv (snd ?w) \<and> arena_sz (snd ?w) = KFS_ARENA" by (rule fs_write_ok [OF d(6,7)])
    moreover have "n = fst (notes_render (n1, fb k))" "fs = snd ?w"
      using e Some by (simp_all add: app_notes_key_def Let_def case_prod_unfold)
    ultimately show ?thesis using n1 by simp
  qed
  then have "kernel_ok s (k\<lparr>k_notes := n, k_fs := fs\<rparr>)"
    unfolding kernel_ok_def using d gui_paints_disp [of "k\<lparr>k_notes := n, k_fs := fs\<rparr>" k] by simp
  then show ?thesis unfolding to_notes_def e Let_def prod.case using p by (intro kernel_ok_draw) simp_all
qed

lemma settings_click_ok:
  assumes "uart_drains dev" "kernel_ok s k"
  shows "returns (app_settings_click dev mx my k) (kernel_ok s)"
proof -
  note d = kernel_okD(2,3,1) [OF assms(2)]
  obtain k' where k': "app_settings_click dev mx my k = Some k'" "gui_paints s k'" "desk_laid s (k_desk k')"
    using app_settings_click_paints [OF d assms(1)] by (auto simp: returns_def)
  then show ?thesis using keeps_ok [OF assms(2) app_settings_click_keeps] by (simp add: returns_def)
qed

lemma route_key_ok:
  assumes "uart_drains dev" "kbc_ready dev" "kernel_ok s k"
    "c = CHR 0x0A \<Longrightarrow> g_app (k_desk k) = APP_TERMINAL \<Longrightarrow> line_safe k (typed_text k)"
  shows "returns (route_key dev L c k) (outcome_ok s)"
proof (cases "c \<noteq> CHR 0x1B \<and> g_app (k_desk k) = APP_TERMINAL")
  case True
  then obtain r where "shell_feed_char dev L c k = Some r" "outcome_ok s r"
    using shell_feed_ok [OF assms(1-3), of c L] assms(4) by (auto simp: returns_def)
  then show ?thesis using True by (simp add: route_key_def Let_def returns_def)
next
  case False
  have "outcome_ok s (to_calc (app_calc_key c) k)"
    using paint_calc_app(2) [OF kernel_painted [OF assms(3)]] by (rule to_calc_ok [OF assms(3)])
  then show ?thesis using False assms(3) returned [OF open_app_ok [OF assms(1,3)]] to_notes_ok [OF assms(3)]
    by (auto simp: route_key_def Let_def returns_Some)
qed

lemma handle_click_ok:
  assumes "uart_drains dev" "kernel_ok s k"
  shows "returns (handle_click dev mx my k) (outcome_ok s)"
proof -
  have "outcome_ok s (to_calc (app_calc_click mx my) k)"
    using paint_calc_app(3) [OF kernel_painted [OF assms(2)]] by (rule to_calc_ok [OF assms(2)])
  moreover have "kernel_ok s (to_paint (app_paint_click mx my) k)" by (rule to_paint_ok [OF assms(2)]) (rule paint_paint(3))
  ultimately show ?thesis
    using assms(2) returned [OF open_app_ok [OF assms]] returned [OF settings_click_ok [OF assms]] to_files_ok [OF assms(2)]
    by (auto simp: handle_click_def Let_def returns_Some split: option.split)
qed

section \<open>The interrupt flag\<close>

lemma to_calc_if: "to_calc f k = Returned k' \<Longrightarrow> k_if k' = k_if k"
  by (auto simp: to_calc_def draw_def split: option.splits)

lemma app_if [simp]: "k_if (to_notes c k) = k_if k" "k_if (to_files mx my k) = k_if k" "k_if (to_paint f k) = k_if k"
  by (simp_all add: to_notes_def to_files_def to_paint_def draw_def Let_def case_prod_unfold)

lemma cursor_if [simp]: "k_if (cursor_hide k) = k_if (k :: kernel)" "k_if (cursor_show x y k) = k_if (k :: kernel)"
  by (simp_all add: cursor_hide_def cursor_show_def draw_def Let_def)

lemma route_key_if:
  assumes "kernel_ok s k" "route_key dev L c k = Some (Returned k')"
  shows "k_if k' \<longleftrightarrow> k_if k \<and> (c = CHR 0x0A \<and> g_app (k_desk k) = APP_TERMINAL \<longrightarrow> line_quiet k)"
  using assms(2) shell_feed_if [OF assms(1)]
  by (auto simp: route_key_def Let_def APP_TERMINAL_def APP_CALC_def APP_NOTES_def split: if_splits dest: opened_if to_calc_if)

lemma handle_click_if: "handle_click dev mx my k = Some (Returned k') \<Longrightarrow> k_if k' = k_if k"
  by (auto simp: handle_click_def Let_def split: option.splits if_splits dest: opened_if to_calc_if gui_if [OF app_settings_click_keeps])

lemma mouse_event_if: "mouse_event dev m k = Some (Returned k') \<Longrightarrow> k_if k' = k_if k"
  by (auto simp: mouse_event_def Let_def split: if_splits dest: handle_click_if)

lemma reports_if [simp]: "k_if (m_k (take_reports dev XL m)) = k_if (m_k m)"
  by (simp add: take_reports_def Let_def case_prod_unfold)

lemma tell_time_if: "tell_time m = (evt, m') \<Longrightarrow> k_if (m_k m') = k_if (m_k m)"
  by (auto simp: tell_time_def Let_def draw_def split: if_splits)

section \<open>The queue of keys\<close>

text \<open>
  \<open>P\<close> holds whenever a newline is typed at the terminal. Keys the desktop comes back from: the
  newline ends a safe line. Every other key, and every key while another application is in front, is safe.
\<close>

fun keys_all :: "(kernel \<Rightarrow> bool) \<Rightarrow> devices \<Rightarrow> linkage \<Rightarrow> char list \<Rightarrow> kernel \<Rightarrow> bool" where
  "keys_all P dev L [] k = True"
| "keys_all P dev L (c # cs) k =
     ((c = CHR 0x0A \<and> g_app (k_desk k) = APP_TERMINAL \<longrightarrow> P k) \<and>
      (case route_key dev L c k of Some (Returned k) \<Rightarrow> keys_all P dev L cs k | _ \<Rightarrow> True))"

abbreviation keys_safe :: "devices \<Rightarrow> linkage \<Rightarrow> char list \<Rightarrow> kernel \<Rightarrow> bool" where
  "keys_safe \<equiv> keys_all (\<lambda>k. line_safe k (typed_text k))"

text \<open>None of the lines is \<open>user\<close>.\<close>

abbreviation keys_quiet :: "devices \<Rightarrow> linkage \<Rightarrow> char list \<Rightarrow> kernel \<Rightarrow> bool" where
  "keys_quiet \<equiv> keys_all line_quiet"

lemma keys_loop_empty: "\<not> keyboard_haskey kb \<Longrightarrow> keys_loop dev L evt kb k = Some (evt, kb, Returned k)"
  by (subst keys_loop.simps) simp

lemma keys_loop_key:
  "keyboard_haskey kb \<Longrightarrow> keys_loop dev L evt kb k =
     Option.bind (route_key dev L (fst (keyboard_take kb)) (if \<not> evt then cursor_hide k else k)) (\<lambda>r.
       case r of Returned k \<Rightarrow> keys_loop dev L True (snd (keyboard_take kb)) k | _ \<Rightarrow> Some (True, snd (keyboard_take kb), r))"
  by (subst keys_loop.simps) (simp add: Let_def keyboard_trygetchar_def keyboard_haskey_def case_prod_unfold)

lemma haskey_keys: "kbd_inv kb \<Longrightarrow> keyboard_haskey kb \<longleftrightarrow> kbd_keys kb \<noteq> []"
  using keys.get_empty [of kb] by (auto simp: kbd_get_def split: if_splits)

text \<open>
  The pointer is hidden when the loop has handled a key; otherwise nothing has changed. The interrupt
  flag is what it was unless a line \<open>user\<close> was among the keys (\<open>quiet\<close>).
\<close>

definition keys_done :: "lfb \<Rightarrow> bool \<Rightarrow> bool \<Rightarrow> kbd \<Rightarrow> kernel \<Rightarrow> bool \<times> kbd \<times> outcome \<Rightarrow> bool" where
  "keys_done s quiet evt kb k = (\<lambda>(evt', kb', r). outcome_ok s r \<and>
     (\<forall>k'. r = Returned k' \<longrightarrow> kbd_inv kb' \<and> kbd_keys kb' = [] \<and> (if kbd_keys kb = [] then evt' = evt \<and> k' = k else evt') \<and>
        (k_if k' \<longleftrightarrow> k_if k \<and> quiet)))"

lemma keys_loop_ok:
  assumes "uart_drains dev" "kbc_ready dev" "kernel_ok s k" "kbd_inv kb"
    "keys_safe dev L (kbd_keys kb) (if \<not> evt then cursor_hide k else k)"
  shows "returns (keys_loop dev L evt kb k)
    (keys_done s (keys_quiet dev L (kbd_keys kb) (if \<not> evt then cursor_hide k else k)) evt kb k)"
  using assms(3-5)
proof (induction "length (kbd_keys kb)" arbitrary: evt kb k)
  case 0
  then show ?case by (simp add: keys_loop_empty haskey_keys keys_done_def returns_Some)
next
  case (Suc n)
  let ?k = "if \<not> evt then cursor_hide k else k"
  have has: "keyboard_haskey kb" using Suc.hyps(2) Suc.prems(2) by (auto simp: haskey_keys)
  obtain c kb1 where t: "keyboard_take kb = (c, kb1)" by (cases "keyboard_take kb")
  note q = keyboard_take_keys [OF Suc.prems(2) has, unfolded t fst_conv snd_conv]
  have k: "kernel_ok s ?k" using Suc.prems(1) cursor_hide_ok by simp
  have safe: "keys_safe dev L (c # kbd_keys kb1) ?k" using Suc.prems(3) q by simp
  obtain r where r: "route_key dev L c ?k = Some r" "outcome_ok s r"
    using route_key_ok [OF assms(1,2) k, of c L] safe by (auto simp: returns_def)
  have loop: "keys_loop dev L evt kb k = (case r of Returned k \<Rightarrow> keys_loop dev L True kb1 k | _ \<Rightarrow> Some (True, kb1, r))"
    unfolding keys_loop_key [OF has] t fst_conv snd_conv r(1) by simp
  show ?case
  proof (cases r)
    case (Returned k2)
    have "returns (keys_loop dev L True kb1 k2) (keys_done s (keys_quiet dev L (kbd_keys kb1) k2) True kb1 k2)"
      using Suc.hyps(1) [of kb1 k2 True] Suc.hyps(2) q r Returned safe by simp
    moreover have "k_if k2 \<and> keys_quiet dev L (kbd_keys kb1) k2 \<longleftrightarrow> k_if k \<and> keys_quiet dev L (kbd_keys kb) ?k"
      using route_key_if [OF k r(1) [unfolded Returned]] r(1) Returned q by auto
    ultimately show ?thesis unfolding loop Returned outcome.case
      by (elim returns_mono) (use q in \<open>auto simp: keys_done_def split: if_splits\<close>)
  qed (simp_all add: loop returns_Some keys_done_def)
qed

section \<open>A turn of the loop\<close>

text \<open>
  The machine in order: every component's invariant, and the pointer is drawn where the mouse is
  unless the mouse has moved since.
\<close>

definition pointer_drawn :: "machine \<Rightarrow> bool" where
  "pointer_drawn m \<longleftrightarrow> cur_vis (k_desk (m_k m)) \<and> cur_x (k_desk (m_k m)) = gx (m_mouse m) \<and> cur_y (k_desk (m_k m)) = gy (m_mouse m)"

definition drivers_ok :: "lfb \<Rightarrow> machine \<Rightarrow> bool" where
  "drivers_ok s m \<longleftrightarrow> kbd_inv (m_kbd m) \<and> mouse_inv (fbW s) (fbH s) (m_mouse m) \<and> xhci_inv (m_usb m)"

definition pointer_ok :: "machine \<Rightarrow> bool" where
  "pointer_ok m \<longleftrightarrow> cur_vis (k_desk (m_k m)) \<and> (gdirty (m_mouse m) \<or> pointer_drawn m)"

definition machine_ok :: "lfb \<Rightarrow> machine \<Rightarrow> bool" where
  "machine_ok s m \<longleftrightarrow> kernel_ok s (m_k m) \<and> drivers_ok s m \<and> pointer_ok m"

lemma screen_size: "kernel_ok s k \<Longrightarrow> 0 < fbW s \<and> 0 < fbH s"
  using kernel_okD(1) [of s k] by (auto simp: screen_fits_def)

text \<open>The mouse has not left the point, or it has an event for the loop.\<close>

definition rests :: "int \<Rightarrow> int \<Rightarrow> mouse \<Rightarrow> bool" where
  "rests x y m \<longleftrightarrow> gdirty m \<or> gx m = x \<and> gy m = y"

lemma rests_inject: "rests x y m \<Longrightarrow> rests x y (mouse_inject dx dy b m)"
  by (simp add: rests_def mouse_inject_def Let_def)

lemma rests_byte: "rests x y m \<Longrightarrow> rests x y (mouse_byte v m)"
  by (simp add: rests_def mouse_byte_def Let_def)

lemma injects_rest: "rests x y m \<Longrightarrow> rests x y (injects ms m)"
  unfolding injects_def by (induction ms arbitrary: m) (simp_all add: case_prod_unfold rests_inject)

lemma pointer_ok_rests: "pointer_ok m \<longleftrightarrow> cur_vis (k_desk (m_k m)) \<and> rests (cur_x (k_desk (m_k m))) (cur_y (k_desk (m_k m))) (m_mouse m)"
  by (auto simp: pointer_ok_def pointer_drawn_def rests_def)

lemma take_reports_ok:
  assumes "machine_ok s m"
  shows "machine_ok s (take_reports dev XL m)"
proof -
  note d = assms [unfolded machine_ok_def drivers_ok_def]
  let ?x = "(m_usb m)\<lparr>x_io := d_uart (k_disp (m_k m))\<rparr>"
  obtain x kb mo where u: "usb_poll dev XL (?x, m_kbd m, m_mouse m) = (x, kb, mo)" by (metis surj_pair)
  have inv: "xhci_inv x" and f: "feeds (m_kbd m, m_mouse m) (kb, mo)" using usb_poll_feeds [OF _ u] d by simp_all
  obtain ms where ms: "mo = injects ms (m_mouse m)" using f by (auto simp: feeds_def)
  have "rests (cur_x (k_desk (m_k m))) (cur_y (k_desk (m_k m))) mo"
    unfolding ms by (rule injects_rest) (use d in \<open>simp add: pointer_ok_rests\<close>)
  then show ?thesis using d inv feeds_inv [OF f] screen_size [of s "m_k m"] kernel_ok_uart [of s "m_k m"]
    by (simp add: take_reports_def u Let_def machine_ok_def drivers_ok_def pointer_ok_rests)
qed

lemma tell_time_ok:
  assumes "machine_ok s m" "tell_time m = (evt, m')"
  shows "kernel_ok s (m_k m')" "drivers_ok s m'" "m_mouse m' = m_mouse m" "m_kbd m' = m_kbd m"
    "if evt then \<not> cur_vis (k_desk (m_k m')) else m' = m"
proof -
  have k: "kernel_ok s (m_k m)" using assms(1) by (simp add: machine_ok_def)
  have "kernel_ok s (draw (draw_clock (k_desk (m_k m)) t) (cursor_hide (m_k m)))" for t
    by (rule kernel_ok_draw [OF cursor_hide_ok [OF k]]) (rule paint_clock)
  then show "kernel_ok s (m_k m')" "drivers_ok s m'" "m_mouse m' = m_mouse m" "m_kbd m' = m_kbd m"
    "if evt then \<not> cur_vis (k_desk (m_k m')) else m' = m"
    using assms k by (auto simp: tell_time_def Let_def machine_ok_def drivers_ok_def draw_def split: if_splits)
qed

lemma mouse_event_ok:
  assumes "uart_drains dev" "kernel_ok s k"
  shows "returns (mouse_event dev m k) (outcome_ok s)"
proof -
  have "kernel_ok s (to_paint (app_paint_motion mx my) k)" for mx my
    by (rule to_paint_ok [OF assms(2)]) (rule paint_paint(2))
  then show ?thesis using handle_click_ok [OF assms] assms(2) by (simp add: mouse_event_def Let_def returns_Some)
qed

text \<open>
  What a turn leaves: the machine in order, no key waiting, the pointer drawn where the mouse is, and
  the interrupt flag as \<open>i\<close>.
\<close>

definition turn_done :: "lfb \<Rightarrow> bool \<Rightarrow> turn \<Rightarrow> bool" where
  "turn_done s i t \<longleftrightarrow> t \<noteq> Asleep \<and>
     (\<forall>m. t = Running m \<longrightarrow> machine_ok s m \<and> kbd_keys (m_kbd m) = [] \<and> pointer_drawn m \<and> (k_if (m_k m) \<longleftrightarrow> i))"

definition flag_left :: "bool \<Rightarrow> outcome \<Rightarrow> bool" where
  "flag_left i r \<longleftrightarrow> (\<forall>k. r = Returned k \<longrightarrow> (k_if k \<longleftrightarrow> i))"

lemma end_turn_ok:
  assumes "outcome_ok s r" "drivers_ok s m" "kbd_keys (m_kbd m) = []" "flag_left i r"
    "\<not> evt \<Longrightarrow> r = Returned (m_k m) \<and> pointer_drawn m"
  shows "turn_done s i (end_turn evt m r)"
proof (cases r)
  case (Returned k)
  have k: "kernel_ok s k" using assms(1) Returned by simp
  let ?mo = "m_mouse m"
  have "kernel_ok s (cursor_show (gx ?mo) (gy ?mo) k)"
    using cursor_show_ok [OF k] assms(2) by (simp add: drivers_ok_def mouse_inv_def)
  then show ?thesis using assms(2-5) Returned k
    by (auto simp: end_turn_def turn_done_def machine_ok_def drivers_ok_def pointer_ok_def pointer_drawn_def flag_left_def)
qed (simp_all add: end_turn_def turn_done_def)

text \<open>\<open>P\<close> holds at every newline that the turn hands to the terminal, in the kernel it finds then.\<close>

definition pass_keys :: "(kernel \<Rightarrow> bool) \<Rightarrow> devices \<Rightarrow> linkage \<Rightarrow> xhci_layout \<Rightarrow> machine \<Rightarrow> bool" where
  "pass_keys P dev L XL m \<longleftrightarrow>
     (let (evt, m) = tell_time (take_reports dev XL m) in keys_all P dev L (kbd_keys (m_kbd m)) (if \<not> evt then cursor_hide (m_k m) else m_k m))"

definition turn_keys :: "(kernel \<Rightarrow> bool) \<Rightarrow> devices \<Rightarrow> linkage \<Rightarrow> xhci_layout \<Rightarrow> arrival list \<Rightarrow> machine \<Rightarrow> bool" where
  "turn_keys P dev L XL as m \<longleftrightarrow> (case hlt as m of None \<Rightarrow> True | Some m \<Rightarrow> pass_keys P dev L XL m)"

text \<open>The lines a turn runs are safe; none of them is \<open>user\<close>.\<close>

definition turn_safe :: "devices \<Rightarrow> linkage \<Rightarrow> xhci_layout \<Rightarrow> arrival list \<Rightarrow> machine \<Rightarrow> bool" where
  "turn_safe = turn_keys (\<lambda>k. line_safe k (typed_text k))"

definition turn_quiet :: "devices \<Rightarrow> linkage \<Rightarrow> xhci_layout \<Rightarrow> arrival list \<Rightarrow> machine \<Rightarrow> bool" where
  "turn_quiet = turn_keys line_quiet"

lemma desktop_pass_ok:
  assumes "uart_drains dev" "kbc_ready dev" "machine_ok s m" "pass_keys (\<lambda>k. line_safe k (typed_text k)) dev L XL m"
  shows "returns (desktop_pass dev L XL m) (turn_done s (k_if (m_k m) \<and> pass_keys line_quiet dev L XL m))"
proof -
  let ?m = "take_reports dev XL m" and ?q = "k_if (m_k m) \<and> pass_keys line_quiet dev L XL m"
  have m: "machine_ok s ?m" by (rule take_reports_ok [OF assms(3)])
  obtain evt m1 where t: "tell_time ?m = (evt, m1)" by fastforce
  note told = tell_time_ok [OF m t]
  have safe: "keys_safe dev L (kbd_keys (m_kbd m1)) (if \<not> evt then cursor_hide (m_k m1) else m_k m1)"
    using assms(4) by (simp add: pass_keys_def t)
  have inv: "kbd_inv (m_kbd m1)" "mouse_inv (fbW s) (fbH s) (m_mouse m1)" "xhci_inv (m_usb m1)"
    using told(2) by (simp_all add: drivers_ok_def)
  have i: "k_if (m_k m1) = k_if (m_k m)" using tell_time_if [OF t] by simp
  obtain evt2 kb r where l: "keys_loop dev L evt (m_kbd m1) (m_k m1) = Some (evt2, kb, r)"
      "keys_done s (pass_keys line_quiet dev L XL m) evt (m_kbd m1) (m_k m1) (evt2, kb, r)"
    using keys_loop_ok [OF assms(1,2) told(1) inv(1) safe] by (auto simp: returns_def pass_keys_def t)
  show ?thesis
  proof (cases r)
    case (Returned k)
    have k: "kernel_ok s k" "kbd_inv kb" "kbd_keys kb = []" "\<not> evt2 \<Longrightarrow> \<not> evt \<and> k = m_k m1" and kif: "k_if k \<longleftrightarrow> ?q"
      using l(2) Returned i by (auto simp: keys_done_def split: if_splits)
    obtain moved mo where e: "mouse_take_event (m_mouse m1) = (moved, mo)" by fastforce
    have mo: "mouse_inv (fbW s) (fbH s) mo" "moved = gdirty (m_mouse m1)" "\<not> moved \<Longrightarrow> mo = m_mouse m1"
      using e inv(2) by (auto simp: mouse_take_event_def mouse_inv_def split: if_splits)
    let ?n = "m1\<lparr>m_kbd := kb, m_mouse := mo\<rparr>"
    have n: "drivers_ok s ?n" "drivers_ok s (?n\<lparr>m_prevl := pl\<rparr>)" for pl using k mo inv by (simp_all add: drivers_ok_def)
    have turn: "desktop_pass dev L XL m = (if \<not> moved then Some (end_turn evt2 ?n r)
        else map_option (end_turn True (?n\<lparr>m_prevl := mouse_left mo\<rparr>)) (mouse_event dev ?n (if \<not> evt2 then cursor_hide k else k)))"
      by (simp add: desktop_pass_def t l(1) Returned e Let_def)
    show ?thesis
    proof (cases moved)
      case False
      have "turn_done s ?q (end_turn evt2 ?n r)"
      proof (rule end_turn_ok)
        assume ev: "\<not> evt2"
        then have "m1 = ?m" using told(5) k(4) by simp
        then have "pointer_drawn m1" using m False mo(2) by (simp add: machine_ok_def pointer_ok_def)
        then show "r = Returned (m_k ?n) \<and> pointer_drawn ?n" using Returned k(4) ev mo(3) False by (simp add: pointer_drawn_def)
      qed (use k n Returned kif in \<open>simp_all add: flag_left_def\<close>)
      then show ?thesis using turn False by (simp add: returns_Some)
    next
      case True
      let ?k = "if \<not> evt2 then cursor_hide k else k"
      have "kernel_ok s ?k" using k(1) cursor_hide_ok by simp
      then obtain x where x: "mouse_event dev ?n ?k = Some x" "outcome_ok s x"
        using mouse_event_ok [OF assms(1), of s ?k ?n] by (auto simp: returns_def)
      have "flag_left ?q x" using mouse_event_if [of dev ?n ?k] x(1) kif by (auto simp: flag_left_def)
      then have "turn_done s ?q (end_turn True (?n\<lparr>m_prevl := mouse_left mo\<rparr>) x)"
        using x(2) n(2) k(3) by (intro end_turn_ok) simp_all
      then show ?thesis unfolding turn using True x(1) by (simp add: returns_Some)
    qed
  qed (use l in \<open>auto simp: desktop_pass_def t Let_def returns_def turn_done_def\<close>)
qed

section \<open>Runs of the desktop\<close>

lemma arrive_ok:
  assumes "machine_ok s m"
  shows "machine_ok s (arrive a m)"
proof (cases a)
  case (Scancode b)
  have "kbd_inv (keyboard_scancode b k)" if "kbd_inv k" for k
    using that buffer_push_inv by (auto simp: keyboard_scancode_def Let_def)
  then show ?thesis using assms Scancode by (simp add: machine_ok_def drivers_ok_def pointer_ok_rests)
next
  case (Mouse_data b)
  then show ?thesis using assms mouse_byte_inv rests_byte screen_size [of s "m_k m"]
    by (simp add: machine_ok_def drivers_ok_def pointer_ok_rests)
next
  case Tick
  then show ?thesis using assms kernel_ok_pit by (simp add: machine_ok_def drivers_ok_def pointer_ok_rests)
qed

lemma desktop_run_start_ok:
  assumes "uart_drains dev" "kernel_ok s (m_k m)" "kbd_inv (m_kbd m)" "length (pkt (m_mouse m)) = 3" "xhci_inv (m_usb m)"
  shows "returns (desktop_run_start dev m) (machine_ok s)"
proof -
  let ?k = "m_k m"
  have size: "fbW (fb ?k) = fbW s" "fbH (fb ?k) = fbH s"
    using kernel_painted [OF assms(2)] by (auto simp: painted_def same_screen_def) (metis lfb.select_convs lfb.surjective lfb.update_convs)+
  let ?k1 = "?k\<lparr>k_desk := (k_desk ?k)\<lparr>dW := fbW s, dH := fbH s\<rparr>\<rparr>"
  obtain mo hs tr where i: "mouse_init dev (fbW s) (fbH s) (m_mouse m, m_handlers m, d_uart (k_disp ?k1)) = (mo, hs, tr)"
    by (metis surj_pair)
  have "mouse_reach (fbW s) (fbH s) mo" using mouse_reach.init [OF assms(4)] i by (metis fst_conv)
  then have mo: "mouse_inv (fbW s) (fbH s) mo" using mouse_reach_inv screen_size [OF assms(2)] by blast
  have "kernel_ok s ?k1" using kernel_okD(3,15) [OF assms(2)]
    by (intro kernel_ok_desk [OF assms(2)]) (simp_all add: desk_laid_def cursor_ok_def)
  then have "kernel_ok s (?k1\<lparr>k_disp := (k_disp ?k1)\<lparr>d_uart := tr\<rparr>\<rparr>)" by (rule kernel_ok_uart)
  from open_app_ok [OF assms(1) this, of APP_TERMINAL] show ?thesis
    unfolding desktop_run_start_def Let_def size i prod.case
    by (intro returns_map, elim returns_mono)
      (use mo assms(3,5) in \<open>simp add: machine_ok_def drivers_ok_def pointer_ok_def pointer_drawn_def cursor_show_ok mouse_inv_def\<close>)
qed

lemma arrive_if [simp]: "k_if (m_k (arrive a m)) = k_if (m_k m)"
  by (cases a) simp_all

lemma arrivals:
  "machine_ok s m \<Longrightarrow> machine_ok s (fold arrive as m)" "k_if (m_k (fold arrive as m)) = k_if (m_k m)"
  by (induction "as" arbitrary: m) (simp_all add: arrive_ok)

lemma desktop_turn_ok:
  assumes "uart_drains dev" "kbc_ready dev" "machine_ok s m" "turn_safe dev L XL as m" "k_if (m_k m)" "as \<noteq> []"
  shows "returns (desktop_turn dev L XL as m) (turn_done s (turn_quiet dev L XL as m))"
proof -
  let ?m = "fold arrive as m"
  have h: "hlt as m = Some ?m" using assms(5,6) by (simp add: hlt_def)
  have "returns (desktop_pass dev L XL ?m) (turn_done s (k_if (m_k ?m) \<and> pass_keys line_quiet dev L XL ?m))"
    using assms(4) h by (intro desktop_pass_ok assms(1,2) arrivals(1) assms(3)) (simp add: turn_safe_def turn_keys_def)
  then show ?thesis using assms(5) by (simp add: desktop_turn_def turn_quiet_def turn_keys_def h arrivals(2))
qed

lemma sleeps: "\<not> k_if (m_k m) \<or> as = [] \<Longrightarrow> desktop_turn dev L XL as m = Some Asleep"
  by (auto simp: desktop_turn_def hlt_def)

text \<open>
  The states \<open>desktop_run\<close> goes through from a kernel in order with interrupts on: as long as the
  interrupt flag is set, keys and mouse bytes arrive and the timer ticks in any order, and the loop
  takes turns.
\<close>

inductive desk_reach :: "devices \<Rightarrow> linkage \<Rightarrow> xhci_layout \<Rightarrow> lfb \<Rightarrow> machine \<Rightarrow> bool" for dev L XL s where
  begun: "kernel_ok s (m_k m) \<Longrightarrow> k_if (m_k m) \<Longrightarrow> kbd_inv (m_kbd m) \<Longrightarrow> length (pkt (m_mouse m)) = 3 \<Longrightarrow> xhci_inv (m_usb m) \<Longrightarrow>
    desktop_run_start dev m = Some m' \<Longrightarrow> desk_reach dev L XL s m'"
| interrupt: "desk_reach dev L XL s m \<Longrightarrow> k_if (m_k m) \<Longrightarrow> desk_reach dev L XL s (arrive a m)"
| turn: "desk_reach dev L XL s m \<Longrightarrow> turn_safe dev L XL as m \<Longrightarrow> desktop_turn dev L XL as m = Some (Running m') \<Longrightarrow>
    desk_reach dev L XL s m'"

lemma desk_reach_ok:
  assumes "uart_drains dev" "kbc_ready dev" "desk_reach dev L XL s m"
  shows "machine_ok s m"
  using assms(3)
proof (induction rule: desk_reach.induct)
  case (begun m m')
  then show ?case using desktop_run_start_ok [OF assms(1), of s m] by (simp add: returns_def)
next
  case (turn m as m')
  then have "k_if (m_k m)" "as \<noteq> []" using sleeps [of m "as" dev L XL] by auto
  then show ?case using desktop_turn_ok [OF assms(1,2) turn.IH turn.hyps(2)] turn.hyps(3) by (simp add: returns_def turn_done_def)
qed (simp add: arrive_ok)


text \<open>After the line \<open>user\<close> no turn wakes any more, whatever arrives (\<open>usermode_entry.S:49\<close>).\<close>

lemma user_line_stops_desktop:
  assumes "uart_drains dev" "kbc_ready dev" "desk_reach dev L XL s m" "turn_safe dev L XL as m" "\<not> turn_quiet dev L XL as m"
    "desktop_turn dev L XL as m = Some (Running m')"
  shows "desktop_turn dev L XL bs m' = Some Asleep"
proof -
  have "k_if (m_k m)" "as \<noteq> []" using assms(6) sleeps [of m "as" dev L XL] by auto
  from desktop_turn_ok [OF assms(1,2) desk_reach_ok [OF assms(1-3)] assms(4) this] have "\<not> k_if (m_k m')"
    using assms(5,6) by (auto simp: returns_def turn_done_def)
  then show ?thesis by (simp add: sleeps)
qed





end
