(* ===== verification/Spec2Isabelle.thy ===== *)
theory Spec2Isabelle
  imports Pmm Kheap Vmm Coop Ramfs Ai Syscall Serial Keyboard Mouse Lib_String Features Lfb_Init Shell_Safe Usb Desktop_Loop
begin

text \<open>
  THUOS: a verification development of the kernel under \<open>src/kernel\<close>, a small 32-bit x86 operating
  system with physical and virtual memory management, a heap, a scheduler with cooperative tasks,
  a RAM filesystem, system calls and a ring-3 demonstration, drivers, a framebuffer desktop with
  five applications, and a shell that drives all of them.

  Conventions. A C struct or the statics of a file are a record; \<open>uint32_t\<close> and the other fixed-width
  types are words, so that arithmetic wraps as it does in C; C's \<open>int\<close> is \<open>int\<close> where nothing can
  overflow. Memory that the code reads through addresses is \<open>mem\<close>, a function from 32-bit
  addresses to bytes. \<open>None\<close> stands for a loop that does not end or for behaviour that C leaves
  undefined. Loops that may not end are \<open>partial_function (option)\<close>; loops that the code bounds
  (100000 polls of the PS/2 controller, 2000000 and 3000000 of the USB controller, 64 events per
  poll) have that bound as a natural number. Hardware is the parameter \<open>devices\<close>: the answers
  of ports and of memory shared with a device, as functions of all accesses so far. Addresses the
  linker chooses and the compiler's build strings are parameters (\<open>vmm_layout\<close>, \<open>xhci_layout\<close>,
  \<open>linkage\<close>).
\<close>

section \<open>Theories and the code they model\<close>

text \<open>
  \<^item> \<open>Thuos_Prelude\<close>: word, list and memory lemmas, and byte-addressed memory with its little-endian accesses.
  \<^item> \<open>Frame_Bitmap\<close> (\<open>mm/frame_bitmap.c\<close>) and \<open>Pmm\<close> (\<open>mm/pmm.c\<close>): the bitmap allocator is the lowest-free search;
    initialisation from a Multiboot map with page-aligned ranges frees exactly the whole available frames outside the
    protected ranges, and a range that starts inside a page frees that page too.
  \<^item> \<open>Kheap\<close> (\<open>mm/kheap_core.c\<close>, \<open>mm/kheap.c\<close>): the block list in memory is refined to a list of sizes;
    first fit, splitting, release with coalescing, realloc, calloc, and the reachable states.
  \<^item> \<open>Vmm\<close> (\<open>mm/vmm_core.c\<close>, \<open>mm/vmm.c\<close>): page tables in memory, translation against the processor's walk,
    and the framebuffer and device windows.
  \<^item> \<open>Sched\<close> (\<open>sched/sched_core.c\<close>, \<open>sched/sched.c\<close>) and \<open>Coop\<close> (\<open>sched/task.c\<close>, \<open>sched/coop.c\<close>,
    \<open>sched/context.S\<close>): at most one running task, round robin, fairness, and context switches on stacks in memory.
  \<^item> \<open>Ramfs\<close> (\<open>fs/ramfs_core.c\<close>, \<open>fs/fs.c\<close>): the file table and arena refine a map from names to contents.
  \<^item> \<open>Ai_Core\<close> and \<open>Ai\<close> (\<open>ai/\<close>): services, models, tasks, policy, audit ring and the \<open>ai\<close> command.
  \<^item> \<open>Ring_Log\<close> and \<open>Kprintf\<close> (\<open>core/kprintf.c\<close>): formatting, and the log ring as the newest part of the output.
  \<^item> \<open>Port_Io\<close>, \<open>Descriptors\<close>, \<open>Interrupts\<close>, \<open>Syscall\<close> (\<open>arch/x86/\<close>, \<open>core/panic.c\<close>): port accesses, descriptor tables,
    interrupt dispatch and the timer, system calls and the ring-3 round trip.
  \<^item> \<open>Terminal\<close>, \<open>Vga\<close>, \<open>Serial\<close>, \<open>Keyboard\<close>, \<open>Mouse\<close>, \<open>Gfx\<close>, \<open>Lfb\<close>, \<open>Lfb_Regions\<close>, \<open>Lfb_Init\<close> (\<open>drivers/\<close>) and
    \<open>Lib_String\<close> (\<open>lib/string.c\<close>): consoles against an abstract document, queues, the pointer, drawing
    that clips, and the choice of a framebuffer.
  \<^item> \<open>Xhci\<close> and \<open>Usb\<close> (\<open>drivers/usb/xhci.c\<close>): the USB controller; \<open>Xhci\<close> holds the operations and \<open>Usb\<close> their properties:
    the rings, the reports, and that enumeration and polling write only the driver's memory and registers.
  \<^item> \<open>Gconsole\<close>, \<open>Console\<close>, \<open>Calculator\<close>, \<open>Apps\<close>, \<open>Desktop\<close> (\<open>gui/\<close>) and \<open>Version\<close>: the graphical console, the routing of
    output, the applications and the desktop around them.
  \<^item> \<open>Features\<close> (\<open>os/\<close>), \<open>Reports\<close>: the feature registry and the reports other components print.
  \<^item> \<open>Shell_Text\<close>, \<open>Shell\<close>, \<open>Shell_Safe\<close>, \<open>Shell_Flag\<close> (\<open>shell/shell.c\<close>): numbers, history and line editing; every command
    over the state of the whole kernel; the proof that every typed character is handled; and what it leaves in the
    interrupt flag, which the line \<open>user\<close> clears.
  \<^item> \<open>Desktop_Loop\<close> (\<open>desktop_run\<close>, \<open>desktop_start\<close> of \<open>gui/desktop.c\<close>): the event loop, one turn at a time, over the
    kernel and the input drivers, from the \<open>hlt\<close> it sleeps in while no interrupt arrives or the interrupt flag is clear;
    its runs are the relation \<open>desk_reach\<close>.
\<close>

section \<open>How the parts interact\<close>

text \<open>
  The shell is where the components meet. The record \<open>kernel\<close> holds the state of all of them; a
  command reads or replaces its component and prints through \<open>say\<close>, which runs the component's own
  output and then shows the text on the console in front and on the serial port. The predicate
  \<open>kernel_ok\<close> is the conjunction of the components' invariants, and the main theorem of \<open>Shell_Safe\<close>
  composes their lemmas: each typed character is handled, a safe line is carried out, and all invariants
  hold afterwards. Lines that are not safe are those for which the code itself gives no promise:
  a \<open>kmalloc\<close> whose rounded size wraps, a \<open>kfree\<close> of an address inside a block, and a memory map that
  never ends. \<open>Desktop_Loop\<close> puts the input drivers around the kernel: \<open>machine_ok\<close> adds their invariants
  and the place of the pointer, and is kept by every interrupt and by every turn of the loop. Interrupts
  arrive only while the flag \<open>k_if\<close> is set: a turn wakes from \<open>hlt\<close> with at least one of them, and after the
  line \<open>user\<close> none wakes it again.

  Contracts between components are locales, each interpreted on the code's model: bounded queues
  (\<open>Keyboard\<close>, also fed by \<open>Usb\<close>), ring logs (\<open>Ring_Log\<close>, for the kernel log, the audit ring and the
  command history), allocators and terminals.
\<close>

section \<open>Not modelled\<close>

text \<open>
  \<^item> The order of initialisation in \<open>core/kernel.c\<close>; the routines it calls are modelled.
  \<^item> Assembly: boot entry, interrupt stubs and ring transitions appear only by their effect on
    registers and stack in \<open>Coop\<close>, \<open>Interrupts\<close> and \<open>Syscall\<close>.
  \<^item> Interrupts arriving in the middle of an operation. Handlers are operations of their own and
    properties about sequences of operations cover any order, not preemption inside one.
  \<^item> The USB controller and what it transfers: its answers are a parameter. Bytes of plain buffers
    are read as they are at that point of the history.
  \<^item> Timing, caches and the effect of drawing on a real screen; host tests, preview and scripts.
\<close>

end
